(* ===== verification/Prelude.thy ===== *)
theory Prelude
  imports Main "HOL-Library.AList" "HOL-Library.Char_ord" "HOL-Library.List_Lexorder"
begin

text \<open>
  Shared vocabulary of the development: JavaScript \<open>Map\<close>s as insertion-ordered association lists,
  the stable \<open>Array.prototype.sort\<close> as \<^const>\<open>sort_key\<close>, the string operations the modelled
  code calls, and the lemma collections the component theories use.

  Clock readings (\<open>Date.now()\<close>) and random identifiers (\<open>randomUUID()\<close>) are arguments of the
  operations that read them. An operation that reads the clock more than once inside one
  synchronous block takes one reading, as the block is not interrupted.
  Times and counters are \<open>int\<close> and \<open>nat\<close>: every number the modelled code computes with is
  a millisecond timestamp, a duration or a small count.
\<close>

named_theorems js_defs "definitions of the JavaScript helpers"
named_theorems keyed_intro "introduction rules for well-keyed stores"

type_synonym time = int
type_synonym 'v js_map = "(string \<times> 'v) list"

subsection \<open>JavaScript maps\<close>

text \<open>
  \<open>Map.get\<close>, \<open>Map.set\<close> and \<open>Map.delete\<close> are \<^const>\<open>map_of\<close>, \<^const>\<open>AList.update\<close> (which
  keeps the position of a present key and appends a new one) and \<^const>\<open>AList.delete\<close>.
  Objects held in a map are shared by reference, so writing a field of a looked-up object is
  \<open>map_modify\<close> at its key.
\<close>

definition map_values :: "'v js_map \<Rightarrow> 'v list" where
  "map_values m = map snd m"

definition map_modify :: "string \<Rightarrow> ('v \<Rightarrow> 'v) \<Rightarrow> 'v js_map \<Rightarrow> 'v js_map" where
  "map_modify k f m = map (\<lambda>(k', v). (k', if k' = k then f v else v)) m"

definition well_keyed :: "('v \<Rightarrow> string) \<Rightarrow> 'v js_map \<Rightarrow> bool" where
  "well_keyed key m \<longleftrightarrow> distinct (map fst m) \<and> (\<forall>(k, v) \<in> set m. key v = k)"

lemma map_fst_modify [simp]: "map fst (map_modify k f m) = map fst m"
  by (induction m) (auto simp: map_modify_def)

lemma map_of_modify:
  "map_of (map_modify k f m) k' = (if k' = k then map_option f (map_of m k) else map_of m k')"
  by (induction m) (auto simp: map_modify_def)

lemma map_of_modify_same [simp]: "map_of (map_modify k f m) k = map_option f (map_of m k)"
  by (simp add: map_of_modify)

lemma map_of_modify_other [simp]: "k' \<noteq> k \<Longrightarrow> map_of (map_modify k f m) k' = map_of m k'"
  by (simp add: map_of_modify)

lemma map_modify_id [simp]: "map_modify k (\<lambda>v. v) m = m"
  by (induction m) (auto simp: map_modify_def)

lemma set_map_values [simp]: "set (map_values m) = snd ` set m"
  by (simp add: map_values_def)

lemma well_keyed_Nil [simp, keyed_intro]: "well_keyed key []"
  by (simp add: well_keyed_def)

lemma well_keyed_distinct: "well_keyed key m \<Longrightarrow> distinct (map fst m)"
  by (simp add: well_keyed_def)

lemma well_keyed_lookup: "well_keyed key m \<Longrightarrow> map_of m k = Some v \<Longrightarrow> key v = k"
  by (auto simp: well_keyed_def dest: map_of_SomeD)

lemma well_keyed_mem:
  assumes "well_keyed key m" and "v \<in> snd ` set m"
  shows "map_of m (key v) = Some v"
proof -
  from assms(2) obtain k where kv: "(k, v) \<in> set m" by force
  with assms(1) have "key v = k" by (auto simp: well_keyed_def)
  with kv assms(1) show ?thesis by (simp add: well_keyed_def)
qed

lemma well_keyed_values: "well_keyed key m \<Longrightarrow> snd ` set m = ran (map_of m)"
  by (simp add: well_keyed_def ran_distinct)

lemma set_map_modify:
  "set (map_modify k f m) = (\<lambda>(k', v). (k', if k' = k then f v else v)) ` set m"
  by (simp add: map_modify_def)

lemma well_keyed_modify [keyed_intro]:
  assumes "well_keyed key m" and "\<And>v. map_of m k = Some v \<Longrightarrow> key (f v) = key v"
  shows "well_keyed key (map_modify k f m)"
proof -
  have "key v' = k'" if "(k', v') \<in> set (map_modify k f m)" for k' v'
  proof -
    from that obtain v where v: "(k', v) \<in> set m" "v' = (if k' = k then f v else v)"
      by (auto simp: set_map_modify)
    with assms(1) have "key v = k'" and "map_of m k' = Some v"
      by (auto simp: well_keyed_def)
    with v assms(2) show ?thesis by auto
  qed
  with assms(1) show ?thesis by (auto simp: well_keyed_def)
qed

lemma well_keyed_update [keyed_intro]:
  assumes "well_keyed key m" and "key v = k"
  shows "well_keyed key (AList.update k v m)"
proof -
  have "set (AList.update k v m) \<subseteq> insert (k, v) (set m)"
    by (induction m) auto
  with assms show ?thesis
    by (auto simp: well_keyed_def distinct_update)
qed

lemma well_keyed_delete [keyed_intro]: "well_keyed key m \<Longrightarrow> well_keyed key (AList.delete k m)"
  using distinct_delete [of m k] by (auto simp: well_keyed_def AList.delete_eq)

lemma update_absent: "map_of m k = None \<Longrightarrow> AList.update k v m = m @ [(k, v)]"
  by (induction m) (auto split: if_splits)

lemma update_same: "map_of m k = Some v \<Longrightarrow> AList.update k v m = m"
  by (induction m) (auto split: if_splits)

lemma map_of_AList_delete: "map_of (AList.delete k m) = (map_of m)(k := None)"
  by (rule delete_conv')

lemma map_of_AList_update: "map_of (AList.update k v m) = (map_of m)(k \<mapsto> v)"
  by (rule update_conv')

lemmas js_map_simps = map_of_AList_delete map_of_AList_update map_of_modify

subsection \<open>Sorting\<close>

text \<open>\<open>sort\<close> with the comparator \<open>a.f - b.f\<close> is stable, as is \<^const>\<open>sort_key\<close>.\<close>

lemma hd_sort_key_le:
  assumes "x \<in> set xs"
  shows "f (hd (sort_key f xs)) \<le> f x"
proof -
  have "sorted (map f (sort_key f xs))" by simp
  moreover have "x \<in> set (sort_key f xs)" using assms by simp
  ultimately show ?thesis
    by (cases "sort_key f xs") auto
qed

lemma find_sort_key_min:
  assumes "List.find P (sort_key f xs) = Some x" and "y \<in> set xs" and "P y"
  shows "f x \<le> f y"
proof -
  have find_le: "sorted (map f zs) \<Longrightarrow> List.find P zs = Some x \<Longrightarrow> y \<in> set zs \<Longrightarrow> P y \<Longrightarrow> f x \<le> f y" for zs
    by (induction zs) (auto split: if_splits)
  show ?thesis
    by (rule find_le [of "sort_key f xs"]) (use assms in simp_all)
qed

lemma find_Some_mem: "List.find P xs = Some x \<Longrightarrow> x \<in> set xs \<and> P x"
  by (induction xs) (auto split: if_splits)

lemma find_None_iff_all: "List.find P xs = None \<longleftrightarrow> (\<forall>x \<in> set xs. \<not> P x)"
  by (auto simp: find_None_iff)

text \<open>With distinct keys the sorted list depends on the elements only.\<close>

lemma sort_key_fst_unique:
  fixes xs ys :: "('k :: linorder \<times> 'v) list"
  assumes "distinct (map fst xs)" and "distinct (map fst ys)"
  shows "sort_key fst xs = sort_key fst ys \<longleftrightarrow> map_of xs = map_of ys"
proof
  assume "sort_key fst xs = sort_key fst ys"
  then have "set xs = set ys" by (metis set_sort)
  then show "map_of xs = map_of ys" using assms by (simp add: map_of_inject_set)
next
  assume "map_of xs = map_of ys"
  then have eq: "set xs = set ys" using assms by (simp add: map_of_inject_set)
  have d: "distinct (map fst (sort_key fst zs))" if "distinct (map fst zs)" for zs :: "('k \<times> 'v) list"
    using that by (simp add: distinct_map)
  have "map fst (sort_key fst xs) = map fst (sort_key fst ys)"
    using d assms eq by (intro sorted_distinct_set_unique) auto
  moreover have "inj_on fst (set (sort_key fst xs) \<union> set (sort_key fst ys))"
    using assms(1) eq by (simp add: distinct_map)
  ultimately show "sort_key fst xs = sort_key fst ys" by (rule map_inj_on)
qed

subsection \<open>Strings\<close>

definition starts_with :: "string \<Rightarrow> string \<Rightarrow> bool" where
  [js_defs]: "starts_with p s \<longleftrightarrow> take (length p) s = p"

fun index_of :: "char \<Rightarrow> string \<Rightarrow> nat option" where
  "index_of c [] = None"
| "index_of c (x # xs) = (if x = c then Some 0 else map_option Suc (index_of c xs))"

fun join_with :: "string \<Rightarrow> string list \<Rightarrow> string" where
  "join_with sep [] = []"
| "join_with sep [s] = s"
| "join_with sep (s # t # ss) = s @ sep @ join_with sep (t # ss)"

text \<open>A string is truthy when it is present and not empty.\<close>

definition truthy :: "string option \<Rightarrow> bool" where
  [js_defs]: "truthy s \<longleftrightarrow> s \<noteq> None \<and> s \<noteq> Some []"

lemma truthy_simps [simp]: "\<not> truthy None" "truthy (Some s) \<longleftrightarrow> s \<noteq> []"
  by (simp_all add: truthy_def)

lemma starts_with_iff: "starts_with p s \<longleftrightarrow> (\<exists>t. s = p @ t)"
  by (metis append_eq_conv_conj append_take_drop_id starts_with_def)

lemma starts_with_append [simp]: "starts_with p (p @ t)"
  by (simp add: starts_with_def)

lemma index_of_take: "index_of c s = Some n \<Longrightarrow> c \<notin> set (take n s)"
  by (induction s arbitrary: n) (auto split: if_splits)

lemma index_of_append: "c \<notin> set s \<Longrightarrow> index_of c (s @ c # t) = Some (length s)"
  by (induction s) auto

text \<open>A number in a template string.\<close>

fun nat_digits :: "nat \<Rightarrow> string" where
  "nat_digits n =
     (if n < 10 then [char_of (48 + n)] else nat_digits (n div 10) @ [char_of (48 + n mod 10)])"

declare nat_digits.simps [simp del]

lemma nat_digits_small: "set (nat_digits n) \<subseteq> char_of ` {48..57 :: nat}"
proof (induction n rule: nat_digits.induct)
  case (1 n)
  show ?case
  proof (cases "n < 10")
    case True
    then show ?thesis by (subst nat_digits.simps) auto
  next
    case False
    have "48 + n mod 10 \<in> {48..57 :: nat}" by simp
    with False 1 show ?thesis by (subst nat_digits.simps) auto
  qed
qed

lemma nat_digits_ne_Nil [simp]: "nat_digits n \<noteq> []"
  by (subst nat_digits.simps) simp

lemma colon_notin_nat_digits [simp]: "CHR '':'' \<notin> set (nat_digits n)"
proof
  assume "CHR '':'' \<in> set (nat_digits n)"
  then obtain k :: nat where "k \<in> {48..57}" and "CHR '':'' = char_of k"
    using nat_digits_small by blast
  then have "of_char (CHR '':'') = k mod 256" and "k < 58"
    by (simp_all add: of_char_of)
  then show False by simp
qed

lemma digit_char_inj: "m < 10 \<Longrightarrow> n < 10 \<Longrightarrow> char_of (48 + m :: nat) = char_of (48 + n) \<Longrightarrow> m = n"
proof -
  assume m: "m < 10" and n: "n < 10" and eq: "char_of (48 + m :: nat) = char_of (48 + n)"
  from eq have "of_char (char_of (48 + m :: nat)) = (of_char (char_of (48 + n)) :: nat)" by (rule arg_cong)
  with m n show "m = n" by (simp add: of_char_of)
qed

lemma nat_digits_inj: "nat_digits m = nat_digits n \<Longrightarrow> m = n"
proof (induction m arbitrary: n rule: nat_digits.induct)
  case (1 m)
  have len: "n < 10 \<longleftrightarrow> length (nat_digits n) = 1" for n
    by (subst nat_digits.simps) simp
  show ?case
  proof (cases "m < 10")
    case True
    with 1(2) len have "n < 10" by metis
    with True 1(2) show ?thesis
      by (simp add: nat_digits.simps [of m] nat_digits.simps [of n] digit_char_inj)
  next
    case False
    with 1(2) len have n: "\<not> n < 10" by metis
    with False 1(2) have "nat_digits (m div 10) = nat_digits (n div 10)"
      and "char_of (48 + m mod 10 :: nat) = char_of (48 + n mod 10)"
      by (simp_all add: nat_digits.simps [of m] nat_digits.simps [of n])
    with False have "m div 10 = n div 10" and "m mod 10 = n mod 10"
      using 1(1) digit_char_inj by auto
    then show ?thesis by (metis div_mult_mod_eq)
  qed
qed

text \<open>Splitting at the last separator is unambiguous.\<close>

lemma append_sep_inj:
  "c \<notin> set s \<Longrightarrow> c \<notin> set s' \<Longrightarrow> r @ c # s = r' @ c # s' \<Longrightarrow> r = r' \<and> s = s'"
  by (auto simp: append_eq_append_conv2 append_eq_Cons_conv Cons_eq_append_conv)

text \<open>Parts joined by a separator that none of them contains can be told apart.\<close>

lemma join_with_inj:
  assumes "length xs = length ys" and "\<forall>x \<in> set xs \<union> set ys. c \<notin> set x"
    and "join_with [c] xs = join_with [c] ys"
  shows "xs = ys"
  using assms
proof (induction xs arbitrary: ys rule: induct_list012)
  case (2 x)
  then show ?case by (cases ys) auto
next
  case (3 x x' xs)
  then obtain y y' zs where ys: "ys = y # y' # zs" by (auto simp: length_Suc_conv Suc_length_conv)
  have "x @ c # join_with [c] (x' # xs) = y @ c # join_with [c] (y' # zs)"
    using 3(5) by (simp add: ys)
  then have "x = y \<and> join_with [c] (x' # xs) = join_with [c] (y' # zs)"
    using 3(4) by (auto simp: ys append_eq_append_conv2 append_eq_Cons_conv Cons_eq_append_conv)
  moreover from this have "x' # xs = y' # zs"
    using 3(3,4) by (intro 3(2)) (auto simp: ys)
  ultimately show ?case by (simp add: ys)
qed simp

subsection \<open>Deduplication with a \<open>Set\<close>\<close>

text \<open>\<open>[...new Set(xs)]\<close> keeps the first occurrence of every element.\<close>

fun uniq_from :: "'a list \<Rightarrow> 'a list \<Rightarrow> 'a list" where
  "uniq_from seen [] = []"
| "uniq_from seen (x # xs) =
     (if x \<in> set seen then uniq_from seen xs else x # uniq_from (x # seen) xs)"

definition uniq :: "'a list \<Rightarrow> 'a list" where
  "uniq xs = uniq_from [] xs"

lemma uniq_from_props:
  "set (uniq_from seen xs) = set xs - set seen \<and> distinct (uniq_from seen xs)"
  by (induction seen xs rule: uniq_from.induct) auto

lemma set_uniq [simp]: "set (uniq xs) = set xs"
  by (simp add: uniq_def uniq_from_props)

lemma distinct_uniq [simp]: "distinct (uniq xs)"
  by (simp add: uniq_def uniq_from_props)

lemma uniq_from_id: "distinct xs \<Longrightarrow> set seen \<inter> set xs = {} \<Longrightarrow> uniq_from seen xs = xs"
  by (induction seen xs rule: uniq_from.induct) auto

lemma uniq_distinct: "distinct xs \<Longrightarrow> uniq xs = xs"
  by (simp add: uniq_def uniq_from_id)

subsection \<open>Results that may be errors\<close>

fun and_then :: "'e + 'a \<Rightarrow> ('a \<Rightarrow> 'e + 'b) \<Rightarrow> 'e + 'b" where
  "and_then (Inl e) f = Inl e"
| "and_then (Inr x) f = f x"

lemma and_then_cong [fundef_cong]:
  "x = y \<Longrightarrow> (\<And>a. y = Inr a \<Longrightarrow> f a = g a) \<Longrightarrow> and_then x f = and_then y g"
  by (cases y) auto

lemma and_then_Inr: "and_then x f = Inr z \<longleftrightarrow> (\<exists>y. x = Inr y \<and> f y = Inr z)"
  by (cases x) auto

lemma and_then_Inl: "and_then x f = Inl e \<longleftrightarrow> x = Inl e \<or> (\<exists>y. x = Inr y \<and> f y = Inl e)"
  by (cases x) auto

fun map_result :: "('a \<Rightarrow> 'e + 'b) \<Rightarrow> 'a list \<Rightarrow> 'e + 'b list" where
  "map_result f [] = Inr []"
| "map_result f (x # xs) = and_then (f x) (\<lambda>y. and_then (map_result f xs) (\<lambda>ys. Inr (y # ys)))"

lemma map_result_cong [fundef_cong]:
  "xs = ys \<Longrightarrow> (\<And>x. x \<in> set ys \<Longrightarrow> f x = g x) \<Longrightarrow> map_result f xs = map_result g ys"
  by (induction xs arbitrary: ys) (auto intro!: and_then_cong)

lemma map_result_Inr: "map_result f xs = Inr ys \<longleftrightarrow> list_all2 (\<lambda>x y. f x = Inr y) xs ys"
  by (induction xs arbitrary: ys) (auto simp: and_then_Inr list_all2_Cons1)

lemma map_result_total: "(\<And>x. x \<in> set xs \<Longrightarrow> f x = Inr (g x)) \<Longrightarrow> map_result f xs = Inr (map g xs)"
  by (induction xs) auto

end
