(* ===== verification/Core_Types.thy ===== *)
theory Core_Types
  imports Prelude
begin

text \<open>
  The shared data of \<^verbatim>\<open>src/src/types.ts\<close>: principals, scope identifiers with their printer and
  parser, conversations, turn results, destinations and grants. An optional property is an
  \<open>option\<close>; record fields carry the initials of their record, since a record field is a
  top-level constant.
\<close>

subsection \<open>Principals\<close>

datatype principal_type = Internal | Guest

record principal =
  p_id :: string
  p_type :: principal_type
  p_teamIds :: "string list option"
  p_displayName :: "string option"

text \<open>\<open>isPrincipalType\<close> on a string value.\<close>

definition isPrincipalType :: "string \<Rightarrow> principal_type option" where
  "isPrincipalType v =
     (if v = ''internal'' then Some Internal else if v = ''guest'' then Some Guest else None)"

subsection \<open>Scope identifiers\<close>

datatype scope_kind = Personal | Channel | Team | Org | Group

type_synonym scope_id = string

definition kind_name :: "scope_kind \<Rightarrow> string" where
  "kind_name k = (case k of Personal \<Rightarrow> ''personal'' | Channel \<Rightarrow> ''channel'' | Team \<Rightarrow> ''team''
                  | Org \<Rightarrow> ''org'' | Group \<Rightarrow> ''group'')"

definition scope_kinds :: "scope_kind list" where
  "scope_kinds = [Personal, Channel, Team, Org, Group]"

definition isScopeKind :: "string \<Rightarrow> scope_kind option" where
  "isScopeKind s = List.find (\<lambda>k. kind_name k = s) scope_kinds"

definition scopeId :: "scope_kind \<Rightarrow> string \<Rightarrow> scope_id" where
  "scopeId kind ref = kind_name kind @ '':'' @ ref"

definition personalScope :: "string \<Rightarrow> scope_id" where
  "personalScope principalId = scopeId Personal principalId"

definition parseScopeId :: "scope_id \<Rightarrow> scope_kind option \<times> string" where
  "parseScopeId i =
     (case index_of (CHR '':'') i of
        None \<Rightarrow> (None, [])
      | Some sep \<Rightarrow> (isScopeKind (take sep i), drop (Suc sep) i))"

definition isManageableCreationScope :: "scope_id option \<Rightarrow> bool" where
  "isManageableCreationScope i =
     (case i of None \<Rightarrow> False
      | Some s \<Rightarrow> s \<noteq> [] \<and> (fst (parseScopeId s) = Some Channel \<or> fst (parseScopeId s) = Some Team))"

definition isSharedScope :: "scope_id option \<Rightarrow> bool" where
  "isSharedScope i =
     (case i of None \<Rightarrow> False
      | Some s \<Rightarrow> s \<noteq> [] \<and> (fst (parseScopeId s) = Some Channel \<or> fst (parseScopeId s) = Some Group))"

lemma colon_notin_kind_name [simp]: "CHR '':'' \<notin> set (kind_name k)"
  by (cases k) (simp_all add: kind_name_def)

lemma isScopeKind_kind_name [simp]: "isScopeKind (kind_name k) = Some k"
  by (cases k) (simp_all add: isScopeKind_def scope_kinds_def kind_name_def)

lemma isScopeKind_Some: "isScopeKind s = Some k \<Longrightarrow> s = kind_name k"
  unfolding isScopeKind_def by (drule find_Some_mem) simp

lemma parse_scopeId [simp]: "parseScopeId (scopeId k r) = (Some k, r)"
  by (simp add: parseScopeId_def scopeId_def index_of_append)

lemma index_of_split: "index_of c s = Some n \<Longrightarrow> s = take n s @ c # drop (Suc n) s"
  by (induction s arbitrary: n) (auto split: if_splits)

lemma parseScopeId_print:
  assumes "parseScopeId i = (Some k, r)"
  shows "scopeId k r = i"
proof (cases "index_of (CHR '':'') i")
  case None
  with assms show ?thesis by (simp add: parseScopeId_def)
next
  case (Some n)
  with assms have k: "kind_name k = take n i" and r: "r = drop (Suc n) i"
    by (auto simp: parseScopeId_def dest: isScopeKind_Some)
  from index_of_split [OF Some] show ?thesis by (simp add: scopeId_def k r)
qed

lemma scopeId_inject [simp]: "scopeId k r = scopeId k' r' \<longleftrightarrow> k = k' \<and> r = r'"
  by (metis parse_scopeId prod.inject option.inject)

subsection \<open>Conversations and turn origins\<close>

datatype conversation_kind = DmConversation | ChannelConversation | GroupConversation

record conversation =
  c_kind :: conversation_kind
  c_threadRef :: string
  c_channelRef :: "string option"
  c_channelName :: "string option"
  c_audience :: "principal list"
  c_isPrivate :: "bool option"
  c_isMpim :: "bool option"
  c_publishMembers :: "principal list option"

subsection \<open>Destinations and provenance\<close>

datatype web_transcript = WebReply | WebTurnFailure time "string option"

datatype task_status = TaskPending | TaskInProgress | TaskCompleted | TaskSkipped | TaskFailed

record destination =
  d_keychainAskId :: "string option"
  d_type :: string
  d_target :: string
  d_audienceScopeId :: "scope_id option"
  d_onBehalfOf :: "string option"
  d_relaySender :: "string option"
  d_threadTs :: "string option"
  d_editRef :: "string option"
  d_taskList :: "(string \<times> string \<times> task_status) list option"
  d_unfurlLinks :: "bool option"
  d_react :: "(string \<times> string) option"
  d_delete :: "string option"
  d_pin :: "(string \<times> bool option) option"
  d_identity :: "string option"
  d_debugFooter :: "string option"
  d_webTranscript :: "web_transcript option"

text \<open>A destination with only its two required properties.\<close>

definition bare_destination :: "string \<Rightarrow> string \<Rightarrow> destination" where
  "bare_destination ty target =
     \<lparr>d_keychainAskId = None, d_type = ty, d_target = target, d_audienceScopeId = None,
      d_onBehalfOf = None, d_relaySender = None, d_threadTs = None, d_editRef = None,
      d_taskList = None, d_unfurlLinks = None, d_react = None, d_delete = None, d_pin = None,
      d_identity = None, d_debugFooter = None, d_webTranscript = None\<rparr>"

record delivery_provenance =
  dp_sourceTitle :: "string option"
  dp_trigger :: string
  dp_surface :: string
  dp_fireKey :: string
  dp_sourceScopeId :: scope_id
  dp_sourceThreadRef :: string
  dp_sourceSessionId :: "string option"
  dp_sourceUserSeq :: "int option"
  dp_sourceAssistantEntrySeq :: "int option"

record outgoing_attachment =
  oa_name :: string
  oa_mimetype :: string
  oa_sizeBytes :: nat
  oa_blobId :: string
  oa_artifactId :: "string option"
  oa_artifactViewerId :: "string option"

datatype turn_origin =
    HumanOrigin "string option" "string option"
  | AmbientOrigin "string option" "bool option"
  | AutomationOrigin "string option" "destination option" "bool option"
  | DirectOrigin

subsection \<open>Turn results\<close>

datatype turn_status = TOk | TRefused | TFailed | TPendingApproval | TQueued | TSilent | TReact

datatype refusal_kind = SecurityQuarantine | SessionBusy

datatype approval_kind = ApprovalKind | InputKind

record approval_grant_modes =
  agm_session :: bool
  agm_always :: bool

record pending_approval =
  pa_requestId :: string
  pa_command :: string
  pa_reason :: string
  pa_matched :: "string option"
  pa_purpose :: "string option"
  pa_summary :: "string option"
  pa_summaryDetail :: "string option"
  pa_approvalKey :: "string option"
  pa_grantModes :: "approval_grant_modes option"
  pa_blocksInput :: "bool option"
  pa_kind :: "approval_kind option"

record turn_result =
  tr_status :: turn_status
  tr_sessionId :: "string option"
  tr_reply :: "string option"
  tr_reactions :: "string list option"
  tr_reason :: "string option"
  tr_refusalKind :: "refusal_kind option"
  tr_adminUrl :: "string option"
  tr_runId :: "string option"
  tr_steered :: bool
  tr_stopped :: "bool option"
  tr_pendingApprovals :: "pending_approval list option"
  tr_attachments :: "outgoing_attachment list option"
  tr_sourceUserSeq :: "int option"
  tr_sourceAssistantEntrySeq :: "int option"

text \<open>A result with only its required property.\<close>

definition bare_result :: "turn_status \<Rightarrow> turn_result" where
  "bare_result st =
     \<lparr>tr_status = st, tr_sessionId = None, tr_reply = None, tr_reactions = None, tr_reason = None,
      tr_refusalKind = None, tr_adminUrl = None, tr_runId = None, tr_steered = False,
      tr_stopped = None, tr_pendingApprovals = None, tr_attachments = None,
      tr_sourceUserSeq = None, tr_sourceAssistantEntrySeq = None\<rparr>"

subsection \<open>Turn inputs\<close>

text \<open>
  The properties of \<open>OrchestratorInput\<close> that the run store, the delivery of run results and the
  worker read or write; the remaining properties are carried through unread.
\<close>

record orchestrator_input =
  oi_text :: string
  oi_displayText :: "string option"
  oi_surface :: "string option"
  oi_deliveryTarget :: "string option"
  oi_privateSessionMessage :: bool
  oi_swarm :: bool
  oi_actor :: principal
  oi_conversation :: conversation
  oi_origin :: "turn_origin option"

definition shown_text :: "orchestrator_input \<Rightarrow> string" where
  "shown_text r = (case oi_displayText r of Some t \<Rightarrow> t | None \<Rightarrow> oi_text r)"

subsection \<open>Grants\<close>

datatype permission = PermRead | PermWrite

record grant =
  g_ownerScopeId :: scope_id
  g_ref :: string
  g_granteeScopeId :: scope_id
  g_permission :: permission
  g_grantedBy :: string

record granted_handle =
  gh_carried :: bool
  gh_handlePath :: string
  gh_ownerScopeId :: scope_id
  gh_ownerPath :: string
  gh_permission :: permission

end
