(* ===== verification/Run_Store.thy ===== *)
theory Run_Store
  imports Core_Types "HOL-Library.Product_Lexorder"
begin

text \<open>
  The run queue of \<^verbatim>\<open>src/src/runs/run-store.ts\<close> and its in-memory implementation
  \<^verbatim>\<open>src/src/runs/memory-run-store.ts\<close>: definitions only. The invariants and the interleaving
  of operations are in \<open>Run_Store_Proofs\<close>.
  The store is a record of the closure's maps. \<open>rs_settled\<close> lists the runs passed to \<open>settle\<close>,
  that is, the events the emitter and the terminal listeners receive, in order.
\<close>

subsection \<open>Data\<close>

datatype run_status = Pending | Running | Done | Failed

datatype reap_outcome = Requeued | Parked

record reap_event =
  re_runId :: string
  re_sessionId :: string
  re_workerId :: "string option"
  re_attempts :: nat
  re_errorAttempts :: nat
  re_outcome :: reap_outcome

record run_delivery_state =
  rds_editRef :: "string option"

record run =
  run_id :: string
  run_sessionId :: string
  run_status :: run_status
  run_request :: orchestrator_input
  run_result :: "turn_result option"
  run_deliveryState :: "run_delivery_state option"
  run_turnUserSeq :: "int option"
  run_dedupKey :: "string option"
  run_attempts :: nat
  run_errorAttempts :: nat
  run_maxAttempts :: nat
  run_leaseToken :: "string option"
  run_leaseExpiresAt :: "time option"
  run_workerId :: "string option"
  run_createdAt :: time
  run_startedAt :: "time option"
  run_finishedAt :: "time option"

record enqueue_input =
  ei_sessionId :: string
  ei_request :: orchestrator_input
  ei_dedupKey :: "string option"
  ei_maxAttempts :: "nat option"

definition isTerminal :: "run_status \<Rightarrow> bool" where
  "isTerminal st \<longleftrightarrow> st = Done \<or> st = Failed"

definition releasesDedupKey :: "turn_result \<Rightarrow> bool" where
  "releasesDedupKey result \<longleftrightarrow> tr_refusalKind result = Some SessionBusy"

text \<open>\<open>maxClaims\<close> is absent when it is infinite.\<close>

definition errorParks :: "run \<Rightarrow> nat option \<Rightarrow> bool" where
  "errorParks run maxClaims \<longleftrightarrow>
     run_errorAttempts run + 1 \<ge> run_maxAttempts run \<or>
     (case maxClaims of None \<Rightarrow> False | Some m \<Rightarrow> run_attempts run \<ge> m)"

definition leaseLapsed :: "run \<Rightarrow> time \<Rightarrow> bool" where
  "leaseLapsed run asOf \<longleftrightarrow> run_status run = Running \<and>
     (case run_leaseExpiresAt run of None \<Rightarrow> False | Some t \<Rightarrow> t \<le> asOf)"

subsection \<open>The in-memory store\<close>

definition FENCE_HOLD_MS :: time where
  "FENCE_HOLD_MS = 600000"

record run_store =
  rs_maxClaims :: "nat option"
  rs_runs :: "run js_map"
  rs_retryAfter :: "time js_map"
  rs_byKey :: "string js_map"
  rs_ledger :: "string js_map"
  rs_returned :: "string list"
  rs_settled :: "run list"

definition createMemoryRunStore :: "nat option \<Rightarrow> run_store" where
  "createMemoryRunStore maxClaims =
     \<lparr>rs_maxClaims = maxClaims, rs_runs = [], rs_retryAfter = [], rs_byKey = [], rs_ledger = [],
      rs_returned = [], rs_settled = []\<rparr>"

definition get_run :: "string \<Rightarrow> run_store \<Rightarrow> run option" where
  "get_run runId st = map_of (rs_runs st) runId"

definition retry_at :: "run_store \<Rightarrow> string \<Rightarrow> time" where
  "retry_at st i = (case map_of (rs_retryAfter st) i of None \<Rightarrow> 0 | Some t \<Rightarrow> t)"

definition blocks_session :: "run_store \<Rightarrow> string \<Rightarrow> time \<Rightarrow> run \<Rightarrow> bool" where
  "blocks_session st sessionId now r \<longleftrightarrow> run_sessionId r = sessionId \<and>
     (run_status r = Running \<or> (run_status r = Pending \<and> retry_at st (run_id r) > now))"

definition sessionUnavailable :: "string \<Rightarrow> time \<Rightarrow> run_store \<Rightarrow> bool" where
  "sessionUnavailable sessionId now st =
     list_ex (blocks_session st sessionId now) (map_values (rs_runs st))"

definition pendingRuns :: "time \<Rightarrow> run_store \<Rightarrow> run list" where
  "pendingRuns now st =
     sort_key run_createdAt
       (filter (\<lambda>r. run_status r = Pending \<and> \<not> sessionUnavailable (run_sessionId r) now st)
         (map_values (rs_runs st)))"

text \<open>Writing fields of the run object stored under an identifier.\<close>

definition put_run :: "string \<Rightarrow> (run \<Rightarrow> run) \<Rightarrow> run_store \<Rightarrow> run_store" where
  "put_run runId f st = st\<lparr>rs_runs := map_modify runId f (rs_runs st)\<rparr>"

definition settle :: "string \<Rightarrow> run_store \<Rightarrow> run_store" where
  "settle runId st =
     (case get_run runId st of
        None \<Rightarrow> st
      | Some r \<Rightarrow> if isTerminal (run_status r) then st\<lparr>rs_settled := rs_settled st @ [r]\<rparr> else st)"

definition new_run :: "enqueue_input \<Rightarrow> string \<Rightarrow> time \<Rightarrow> run" where
  "new_run inp uuid now =
     \<lparr>run_id = uuid, run_sessionId = ei_sessionId inp, run_status = Pending,
      run_request = ei_request inp, run_result = None, run_deliveryState = None,
      run_turnUserSeq = None, run_dedupKey = ei_dedupKey inp, run_attempts = 0,
      run_errorAttempts = 0,
      run_maxAttempts = (case ei_maxAttempts inp of None \<Rightarrow> 3 | Some n \<Rightarrow> n),
      run_leaseToken = None, run_leaseExpiresAt = None, run_workerId = None,
      run_createdAt = now, run_startedAt = None, run_finishedAt = None\<rparr>"

definition deduped_run :: "enqueue_input \<Rightarrow> run_store \<Rightarrow> run option" where
  "deduped_run inp st =
     (case ei_dedupKey inp of
        None \<Rightarrow> None
      | Some k \<Rightarrow>
          (if k = [] then None
           else case map_of (rs_byKey st) k of
             None \<Rightarrow> None
           | Some existingId \<Rightarrow> (if existingId = [] then None else get_run existingId st)))"

definition enqueue :: "enqueue_input \<Rightarrow> string \<Rightarrow> time \<Rightarrow> run_store \<Rightarrow> (run \<times> bool) \<times> run_store" where
  "enqueue inp uuid now st =
     (case deduped_run inp st of
        Some existing \<Rightarrow> ((existing, True), st)
      | None \<Rightarrow>
          (let r = new_run inp uuid now;
               st1 = st\<lparr>rs_runs := AList.update uuid r (rs_runs st)\<rparr>;
               st2 = (case ei_dedupKey inp of
                        None \<Rightarrow> st1
                      | Some k \<Rightarrow> if k = [] then st1
                                  else st1\<lparr>rs_byKey := AList.update k uuid (rs_byKey st1)\<rparr>)
           in ((r, False), st2)))"

definition leased :: "string \<Rightarrow> time \<Rightarrow> time \<Rightarrow> string \<Rightarrow> run \<Rightarrow> run" where
  "leased workerId ttlMs now token r =
     r\<lparr>run_status := Running, run_leaseToken := Some token, run_leaseExpiresAt := Some (now + ttlMs),
       run_workerId := Some workerId, run_attempts := run_attempts r + 1,
       run_startedAt := (case run_startedAt r of None \<Rightarrow> Some now | Some t \<Rightarrow> Some t)\<rparr>"

definition lease :: "run \<Rightarrow> string \<Rightarrow> time \<Rightarrow> time \<Rightarrow> string \<Rightarrow> run_store \<Rightarrow> run option \<times> run_store" where
  "lease r workerId ttlMs now token st =
     (Some (leased workerId ttlMs now token r),
      put_run (run_id r) (leased workerId ttlMs now token)
        (st\<lparr>rs_retryAfter := AList.delete (run_id r) (rs_retryAfter st)\<rparr>))"

definition claim :: "string \<Rightarrow> time \<Rightarrow> time \<Rightarrow> string \<Rightarrow> run_store \<Rightarrow> run option \<times> run_store" where
  "claim workerId ttlMs now token st =
     (case pendingRuns now st of
        [] \<Rightarrow> (None, st)
      | r # _ \<Rightarrow> lease r workerId ttlMs now token st)"

definition claimById ::
  "string \<Rightarrow> string \<Rightarrow> time \<Rightarrow> time \<Rightarrow> string \<Rightarrow> run_store \<Rightarrow> run option \<times> run_store" where
  "claimById runId workerId ttlMs now token st =
     (case get_run runId st of
        None \<Rightarrow> (None, st)
      | Some r \<Rightarrow>
          (case List.find (\<lambda>p. run_sessionId p = run_sessionId r) (pendingRuns now st) of
             None \<Rightarrow> (None, st)
           | Some p \<Rightarrow> if run_id p \<noteq> runId then (None, st)
                       else lease r workerId ttlMs now token st))"

definition claimForSession ::
  "string \<Rightarrow> string \<Rightarrow> time \<Rightarrow> time \<Rightarrow> string \<Rightarrow> run_store \<Rightarrow> run option \<times> run_store" where
  "claimForSession sessionId workerId ttlMs now token st =
     (case List.find (\<lambda>p. run_sessionId p = sessionId) (pendingRuns now st) of
        None \<Rightarrow> (None, st)
      | Some r \<Rightarrow> lease r workerId ttlMs now token st)"

definition holds_lease :: "string \<Rightarrow> run \<Rightarrow> bool" where
  "holds_lease leaseToken r \<longleftrightarrow> run_status r = Running \<and> run_leaseToken r = Some leaseToken"

definition heartbeat :: "string \<Rightarrow> string \<Rightarrow> time \<Rightarrow> time \<Rightarrow> run_store \<Rightarrow> bool \<times> run_store" where
  "heartbeat runId leaseToken ttlMs now st =
     (case get_run runId st of
        None \<Rightarrow> (False, st)
      | Some r \<Rightarrow>
          if \<not> holds_lease leaseToken r then (False, st)
          else (True, put_run runId (\<lambda>r. r\<lparr>run_leaseExpiresAt := Some (now + ttlMs)\<rparr>) st))"

definition releaseLease :: "string \<Rightarrow> string \<Rightarrow> run_store \<Rightarrow> bool \<times> run_store" where
  "releaseLease runId leaseToken st =
     (case get_run runId st of
        None \<Rightarrow> (False, st)
      | Some r \<Rightarrow>
          if \<not> holds_lease leaseToken r then (False, st)
          else (True, put_run runId (\<lambda>r. r\<lparr>run_status := Pending, run_leaseToken := None,
                        run_leaseExpiresAt := None, run_workerId := None\<rparr>) st))"

definition complete ::
  "string \<Rightarrow> string \<Rightarrow> turn_result \<Rightarrow> time \<Rightarrow> run_store \<Rightarrow> bool \<times> run_store" where
  "complete runId leaseToken result now st =
     (case get_run runId st of
        None \<Rightarrow> (False, st)
      | Some r \<Rightarrow>
          if run_leaseToken r \<noteq> Some leaseToken then (False, st)
          else
            (let st1 = put_run runId (\<lambda>r. r\<lparr>run_status := Done, run_result := Some result,
                         run_leaseToken := None, run_leaseExpiresAt := None,
                         run_finishedAt := Some now\<rparr>) st;
                 st2 = (if releasesDedupKey result \<and> truthy (run_dedupKey r)
                        then put_run runId (\<lambda>r. r\<lparr>run_dedupKey := None\<rparr>)
                               (st1\<lparr>rs_byKey := AList.delete (the (run_dedupKey r)) (rs_byKey st1)\<rparr>)
                        else st1)
             in (True, settle runId st2)))"

text \<open>The options of \<open>retire\<close>: an expiry condition, whether the attempt counts as an error, a delay.\<close>

record retire_opts =
  ro_ifExpiredAt :: "time option"
  ro_countsAsError :: bool
  ro_retryAfterMs :: "time option"

definition no_retire_opts :: retire_opts where
  "no_retire_opts = \<lparr>ro_ifExpiredAt = None, ro_countsAsError = False, ro_retryAfterMs = None\<rparr>"

definition overClaimed :: "run_store \<Rightarrow> run \<Rightarrow> bool" where
  "overClaimed st r \<longleftrightarrow> (case rs_maxClaims st of None \<Rightarrow> False | Some m \<Rightarrow> run_attempts r \<ge> m)"

definition crash_loop_reason :: "run \<Rightarrow> string" where
  "crash_loop_reason r = ''run parked after '' @ nat_digits (run_attempts r) @
     '' claims without completing (suspected crash loop)''"

definition retire_refused :: "run \<Rightarrow> retire_opts \<Rightarrow> bool" where
  "retire_refused r opts \<longleftrightarrow> run_status r \<noteq> Running \<or>
     (case ro_ifExpiredAt opts of
        None \<Rightarrow> False
      | Some limit \<Rightarrow> (case run_leaseExpiresAt r of None \<Rightarrow> True | Some t \<Rightarrow> t > limit))"

definition errors_after :: "retire_opts \<Rightarrow> run \<Rightarrow> nat" where
  "errors_after opts r = run_errorAttempts r + (if ro_countsAsError opts then 1 else 0)"

definition unleased :: "retire_opts \<Rightarrow> run \<Rightarrow> run" where
  "unleased opts r = r\<lparr>run_leaseToken := None, run_leaseExpiresAt := None, run_workerId := None,
                       run_errorAttempts := errors_after opts r\<rparr>"

text \<open>\<open>retire\<close> returns \<open>(requeued, applied)\<close>.\<close>

definition retire ::
  "string \<Rightarrow> string \<Rightarrow> bool \<Rightarrow> retire_opts \<Rightarrow> time \<Rightarrow> run_store \<Rightarrow> (bool \<times> bool) \<times> run_store" where
  "retire runId error retry opts now st =
     (case get_run runId st of
        None \<Rightarrow> ((False, False), st)
      | Some r \<Rightarrow>
          if retire_refused r opts then ((False, False), st)
          else if retry \<and> errors_after opts r < run_maxAttempts r \<and> \<not> overClaimed st r then
            ((True, True),
             (put_run runId (\<lambda>r. (unleased opts r)\<lparr>run_status := Pending\<rparr>) st)
               \<lparr>rs_retryAfter := AList.update runId
                  (now + max 0 (case ro_retryAfterMs opts of None \<Rightarrow> 0 | Some d \<Rightarrow> d))
                  (rs_retryAfter st)\<rparr>)
          else
            (let reason = (if \<not> ro_countsAsError opts \<and> overClaimed st r \<and> retry \<and>
                              errors_after opts r < run_maxAttempts r
                           then crash_loop_reason r else error)
             in ((False, True),
                 settle runId
                   (put_run runId (\<lambda>r. (unleased opts r)\<lparr>run_status := Failed,
                      run_result := Some ((bare_result TFailed)
                        \<lparr>tr_sessionId := Some (run_sessionId r), tr_reason := Some reason\<rparr>),
                      run_finishedAt := Some now\<rparr>) st))))"

text \<open>\<open>retry\<close> is absent or a boolean; only an explicit \<open>false\<close> forbids another attempt.\<close>

definition fail_run ::
  "string \<Rightarrow> string \<Rightarrow> string \<Rightarrow> bool option \<Rightarrow> time option \<Rightarrow> time \<Rightarrow> run_store \<Rightarrow> bool \<times> run_store" where
  "fail_run runId leaseToken error retry retryAfterMs now st =
     (case get_run runId st of
        None \<Rightarrow> (False, st)
      | Some r \<Rightarrow>
          if run_leaseToken r \<noteq> Some leaseToken then (False, st)
          else (case retire runId error (retry \<noteq> Some False)
                       \<lparr>ro_ifExpiredAt = None, ro_countsAsError = True, ro_retryAfterMs = retryAfterMs\<rparr> now st of
                  ((requeued, _), st') \<Rightarrow> (requeued, st')))"

definition noteTurnUserSeq :: "string \<Rightarrow> int \<Rightarrow> run_store \<Rightarrow> bool \<times> run_store" where
  "noteTurnUserSeq runId s st =
     (case get_run runId st of
        None \<Rightarrow> (False, st)
      | Some r \<Rightarrow> if run_turnUserSeq r \<noteq> None then (False, st)
                  else (True, put_run runId (\<lambda>r. r\<lparr>run_turnUserSeq := Some s\<rparr>) st))"

definition setDeliveryState ::
  "string \<Rightarrow> string option \<Rightarrow> run_delivery_state \<Rightarrow> run_store \<Rightarrow> bool \<times> run_store" where
  "setDeliveryState runId leaseToken state st =
     (case get_run runId st of
        None \<Rightarrow> (False, st)
      | Some r \<Rightarrow> if leaseToken \<noteq> None \<and> run_leaseToken r \<noteq> leaseToken then (False, st)
                  else (True, put_run runId (\<lambda>r. r\<lparr>run_deliveryState := Some state\<rparr>) st))"

definition latestForThread :: "string \<Rightarrow> bool \<Rightarrow> run_store \<Rightarrow> run option" where
  "latestForThread threadRef excludePrivateMessages st =
     (case sort_key (\<lambda>r. - run_createdAt r)
             (filter (\<lambda>r. run_sessionId r = threadRef \<and>
                \<not> (excludePrivateMessages \<and> oi_privateSessionMessage (run_request r)))
               (rev (map_values (rs_runs st)))) of
        [] \<Rightarrow> None | r # _ \<Rightarrow> Some r)"

text \<open>
  \<open>localeCompare\<close> compares collation keys; \<open>collate\<close> maps a string to its key.
  A wake run that is still waiting keeps its child's result pending.
\<close>

definition wake_unstarted :: "run_store \<Rightarrow> string \<Rightarrow> bool" where
  "wake_unstarted st i =
     (case map_of (rs_byKey st) (''subagent-return:'' @ i) of
        None \<Rightarrow> (case get_run [] st of
                   None \<Rightarrow> False
                 | Some w \<Rightarrow> run_status w = Pending \<and> run_attempts w = 0 \<and> run_turnUserSeq w = None)
      | Some wid \<Rightarrow> (case get_run wid st of
                   None \<Rightarrow> False
                 | Some w \<Rightarrow> run_status w = Pending \<and> run_attempts w = 0 \<and> run_turnUserSeq w = None))"

definition pendingReturns ::
  "(string \<Rightarrow> string) \<Rightarrow> nat option \<Rightarrow> string option \<Rightarrow> run_store \<Rightarrow> run list" where
  "pendingReturns collate limit afterId st =
     take (case limit of None \<Rightarrow> 100 | Some n \<Rightarrow> n)
       (sort_key (\<lambda>r. collate (run_id r))
         (filter (\<lambda>r. isTerminal (run_status r) \<and>
             (run_id r \<notin> set (rs_returned st) \<or> wake_unstarted st (run_id r)) \<and>
             run_id r > (case afterId of None \<Rightarrow> [] | Some a \<Rightarrow> a) \<and>
             starts_with ''agent:main:subagent:'' (run_sessionId r))
           (map_values (rs_runs st))))"

definition markReturned :: "string \<Rightarrow> run_store \<Rightarrow> run_store" where
  "markReturned runId st = st\<lparr>rs_returned := List.insert runId (rs_returned st)\<rparr>"

definition getByDedupKey :: "string \<Rightarrow> run_store \<Rightarrow> run option" where
  "getByDedupKey dedupKey st =
     (case map_of (rs_byKey st) dedupKey of
        None \<Rightarrow> None
      | Some i \<Rightarrow> if i = [] then None else get_run i st)"

definition activeForThread :: "string \<Rightarrow> run_store \<Rightarrow> run option" where
  "activeForThread sessionId st =
     (case sort_key (\<lambda>r. (if run_status r = Running then 0 else 1 :: nat, run_createdAt r))
             (filter (\<lambda>r. run_sessionId r = sessionId \<and> \<not> isTerminal (run_status r))
               (map_values (rs_runs st))) of
        [] \<Rightarrow> None | r # _ \<Rightarrow> Some r)"

definition inFlightForThread :: "string \<Rightarrow> run_store \<Rightarrow> run list" where
  "inFlightForThread sessionId st =
     sort_key run_createdAt
       (filter (\<lambda>r. run_sessionId r = sessionId \<and> \<not> isTerminal (run_status r))
         (map_values (rs_runs st)))"

definition editPendingText :: "string \<Rightarrow> string \<Rightarrow> string \<Rightarrow> run_store \<Rightarrow> bool \<times> run_store" where
  "editPendingText runId text expectedText st =
     (case get_run runId st of
        None \<Rightarrow> (False, st)
      | Some r \<Rightarrow>
          if run_status r \<noteq> Pending \<or> run_attempts r \<noteq> 0 \<or> run_turnUserSeq r \<noteq> None then (False, st)
          else if shown_text (run_request r) \<noteq> expectedText then (False, st)
          else (True, put_run runId (\<lambda>r. r\<lparr>run_request :=
                        (run_request r)\<lparr>oi_text := text, oi_displayText := Some text\<rparr>\<rparr>) st))"

definition drop_key :: "run \<Rightarrow> run_store \<Rightarrow> run_store" where
  "drop_key r st =
     (if truthy (run_dedupKey r)
      then st\<lparr>rs_byKey := AList.delete (the (run_dedupKey r)) (rs_byKey st)\<rparr> else st)"

definition withdraw :: "string \<Rightarrow> bool \<Rightarrow> run_store \<Rightarrow> bool \<times> run_store" where
  "withdraw runId unstartedOnly st =
     (case get_run runId st of
        None \<Rightarrow> (False, st)
      | Some r \<Rightarrow>
          if run_status r \<noteq> Pending then (False, st)
          else if unstartedOnly \<and> (run_attempts r \<noteq> 0 \<or> run_turnUserSeq r \<noteq> None) then (False, st)
          else (True, drop_key r
                  (st\<lparr>rs_runs := AList.delete runId (rs_runs st),
                      rs_retryAfter := AList.delete runId (rs_retryAfter st)\<rparr>)))"

text \<open>
  \<open>steerQueued\<close> awaits the signal store between taking the queued run out and dropping its keys,
  so it is two steps: \<open>steer_take\<close> up to the await, then \<open>steer_sent\<close> or, when the send throws,
  \<open>steer_restore\<close>. The signal's request text is \<open>signalText\<close>.
\<close>

definition steer_take :: "string \<Rightarrow> string \<Rightarrow> string option \<Rightarrow> run_store \<Rightarrow> run option \<times> run_store" where
  "steer_take queuedRunId targetRunId signalText st =
     (case (get_run queuedRunId st, get_run targetRunId st) of
        (Some queued, Some target) \<Rightarrow>
          if run_status queued \<noteq> Pending \<or> isTerminal (run_status target) \<or> queuedRunId = targetRunId
          then (None, st)
          else if Some (shown_text (run_request queued)) \<noteq> signalText then (None, st)
          else (Some queued, st\<lparr>rs_runs := AList.delete queuedRunId (rs_runs st)\<rparr>)
      | _ \<Rightarrow> (None, st))"

definition steer_sent :: "run \<Rightarrow> run_store \<Rightarrow> run_store" where
  "steer_sent queued st =
     drop_key queued (st\<lparr>rs_retryAfter := AList.delete (run_id queued) (rs_retryAfter st)\<rparr>)"

definition steer_restore :: "run \<Rightarrow> run_store \<Rightarrow> run_store" where
  "steer_restore queued st = st\<lparr>rs_runs := AList.update (run_id queued) queued (rs_runs st)\<rparr>"

datatype run_store_error = SignalSendFailed

text \<open>The whole operation; \<open>awaiting\<close> is what other callers do to the store during the send.\<close>

definition steerQueued ::
  "string \<Rightarrow> string \<Rightarrow> string option \<Rightarrow> bool \<Rightarrow> (run_store \<Rightarrow> run_store) \<Rightarrow> run_store \<Rightarrow>
     (run_store_error + bool) \<times> run_store" where
  "steerQueued queuedRunId targetRunId signalText sendOk awaiting st =
     (case steer_take queuedRunId targetRunId signalText st of
        (None, _) \<Rightarrow> (Inr False, st)
      | (Some queued, st1) \<Rightarrow>
          if sendOk then (Inr True, steer_sent queued (awaiting st1))
          else (Inl SignalSendFailed, steer_restore queued (awaiting st1)))"

definition activeSessionIds :: "run_store \<Rightarrow> string list" where
  "activeSessionIds st =
     uniq (map run_sessionId (filter (\<lambda>r. \<not> isTerminal (run_status r)) (map_values (rs_runs st))))"

definition list_runs :: "nat option \<Rightarrow> string option \<Rightarrow> run_store \<Rightarrow> run list" where
  "list_runs limit threadRef st =
     take (case limit of None \<Rightarrow> 200 | Some n \<Rightarrow> n)
       (sort_key (\<lambda>r. - run_createdAt r)
         (filter (\<lambda>r. case threadRef of
              None \<Rightarrow> True
            | Some t \<Rightarrow> t = [] \<or> run_sessionId r = t \<or>
                starts_with (t @ '':task:'') (run_sessionId r) \<or>
                starts_with (t @ '':status:'') (run_sessionId r))
           (map_values (rs_runs st))))"

text \<open>
  \<open>reapExpired\<close> awaits \<open>onRetired\<close> between fencing a run and retiring it: \<open>reap_fence\<close> and
  \<open>reap_retire\<close> are the two halves for one run of the snapshot.
\<close>

definition too_old :: "time option \<Rightarrow> time \<Rightarrow> run \<Rightarrow> bool" where
  "too_old maxAgeMs now r =
     (case (maxAgeMs, run_startedAt r) of (Some m, Some t) \<Rightarrow> now - t > m | _ \<Rightarrow> False)"

definition reap_fence :: "string \<Rightarrow> time \<Rightarrow> string \<Rightarrow> run_store \<Rightarrow> run option \<times> run_store" where
  "reap_fence runId now token st =
     (case get_run runId st of
        None \<Rightarrow> (None, st)
      | Some r \<Rightarrow>
          if \<not> leaseLapsed r now then (None, st)
          else (Some r, put_run runId (\<lambda>r. r\<lparr>run_leaseToken := Some token,
                          run_leaseExpiresAt := Some (now + FENCE_HOLD_MS)\<rparr>) st))"

definition reap_retire ::
  "run \<Rightarrow> time option \<Rightarrow> time \<Rightarrow> time \<Rightarrow> run_store \<Rightarrow> reap_event option \<times> run_store" where
  "reap_retire r maxAgeMs now later st =
     (let tooOld = too_old maxAgeMs now r;
          reason = (if tooOld then ''run exceeded max age (reaped)'' else ''lease expired (reaped)'')
      in case retire (run_id r) reason (\<not> tooOld) no_retire_opts later st of
           ((requeued, applied), st') \<Rightarrow>
             (if \<not> applied then None
              else case get_run (run_id r) st' of
                None \<Rightarrow> None
              | Some r' \<Rightarrow> Some \<lparr>re_runId = run_id r', re_sessionId = run_sessionId r',
                  re_workerId = run_workerId r, re_attempts = run_attempts r',
                  re_errorAttempts = run_errorAttempts r',
                  re_outcome = (if requeued then Requeued else Parked)\<rparr>, st'))"

fun reap_loop ::
  "(string list \<Rightarrow> run_store \<Rightarrow> run_store) \<Rightarrow> time option \<Rightarrow> time \<Rightarrow> time \<Rightarrow> (string \<Rightarrow> string) \<Rightarrow>
     string list \<Rightarrow> run_store \<Rightarrow> reap_event list \<times> run_store" where
  "reap_loop onRetired maxAgeMs now later fence [] st = ([], st)"
| "reap_loop onRetired maxAgeMs now later fence (i # is) st =
     (case reap_fence i now (fence i) st of
        (None, st1) \<Rightarrow> reap_loop onRetired maxAgeMs now later fence is st1
      | (Some r, st1) \<Rightarrow>
          (case reap_retire r maxAgeMs now later (onRetired [run_sessionId r] st1) of
             (ev, st2) \<Rightarrow>
               (case reap_loop onRetired maxAgeMs now later fence is st2 of
                  (evs, st3) \<Rightarrow> ((case ev of None \<Rightarrow> evs | Some e \<Rightarrow> e # evs), st3))))"

text \<open>\<open>reapExpired\<close> returns the counts and the events given to \<open>onReap\<close>.\<close>

definition reapExpired ::
  "(string list \<Rightarrow> run_store \<Rightarrow> run_store) \<Rightarrow> time option \<Rightarrow> time \<Rightarrow> time \<Rightarrow> (string \<Rightarrow> string) \<Rightarrow>
     run_store \<Rightarrow> (nat \<times> nat \<times> reap_event list) \<times> run_store" where
  "reapExpired onRetired maxAgeMs now later fence st =
     (let expired = map run_id (filter (\<lambda>r. leaseLapsed r now) (map_values (rs_runs st)));
          (evs, st') = reap_loop onRetired maxAgeMs now later fence expired st
      in ((length (filter (\<lambda>e. re_outcome e = Requeued) evs),
           length (filter (\<lambda>e. re_outcome e = Parked) evs), evs), st'))"

text \<open>\<open>waitFor\<close>: the run at once when it is terminal, else the first one settled before the timeout.\<close>

definition waitFor :: "string \<Rightarrow> run list \<Rightarrow> run_store \<Rightarrow> run option" where
  "waitFor runId settledInTime st =
     (case get_run runId st of
        Some r \<Rightarrow> if isTerminal (run_status r) then Some r
                  else List.find (\<lambda>s. run_id s = runId) settledInTime
      | None \<Rightarrow> List.find (\<lambda>s. run_id s = runId) settledInTime)"

subsection \<open>The tool ledger\<close>

definition ledger_key :: "string \<Rightarrow> nat \<Rightarrow> nat \<Rightarrow> string" where
  "ledger_key runId attempt callIndex =
     runId @ '':'' @ nat_digits attempt @ '':'' @ nat_digits callIndex"

definition ledger_begin :: "string \<Rightarrow> nat \<Rightarrow> nat \<Rightarrow> run_store \<Rightarrow> string option" where
  "ledger_begin runId attempt callIndex st =
     map_of (rs_ledger st) (ledger_key runId attempt callIndex)"

definition ledger_record :: "string \<Rightarrow> nat \<Rightarrow> nat \<Rightarrow> string \<Rightarrow> run_store \<Rightarrow> run_store" where
  "ledger_record runId attempt callIndex output st =
     st\<lparr>rs_ledger := AList.update (ledger_key runId attempt callIndex) output (rs_ledger st)\<rparr>"

end
