(* ===== verification/Run_Store_Proofs.thy ===== *)
theory Run_Store_Proofs
  imports Run_Store
begin

text \<open>
  Correctness of the in-memory run store. The invariant is proved for every operation and then for
  every state reachable by interleaving operations at the two await points the store has
  (\<open>steerQueued\<close> during the send, \<open>reapExpired\<close> during \<open>onRetired\<close>).
\<close>

named_theorems run_defs "definitions of the run store's operations"

declare get_run_def [run_defs] put_run_def [run_defs] enqueue_def [run_defs] lease_def [run_defs]
  claim_def [run_defs] claimById_def [run_defs] claimForSession_def [run_defs]
  heartbeat_def [run_defs] releaseLease_def [run_defs] complete_def [run_defs] settle_def [run_defs]
  noteTurnUserSeq_def [run_defs] setDeliveryState_def [run_defs] editPendingText_def [run_defs]
  withdraw_def [run_defs] drop_key_def [run_defs] markReturned_def [run_defs]

subsection \<open>Reading and writing runs\<close>

lemma get_put_run: "get_run i (put_run j f st) = (if i = j then map_option f (get_run i st) else get_run i st)"
  by (simp add: get_run_def put_run_def map_of_modify)

lemma put_run_frame [simp]:
  "rs_settled (put_run i f st) = rs_settled st"
  "rs_byKey (put_run i f st) = rs_byKey st"
  "rs_retryAfter (put_run i f st) = rs_retryAfter st"
  "rs_maxClaims (put_run i f st) = rs_maxClaims st"
  by (simp_all add: put_run_def)

lemma get_run_frame [simp]:
  "get_run i (st\<lparr>rs_retryAfter := x\<rparr>) = get_run i st"
  "get_run i (st\<lparr>rs_byKey := y\<rparr>) = get_run i st"
  "get_run i (st\<lparr>rs_settled := z\<rparr>) = get_run i st"
  "get_run i (st\<lparr>rs_returned := u\<rparr>) = get_run i st"
  "get_run i (st\<lparr>rs_ledger := v\<rparr>) = get_run i st"
  by (simp_all add: get_run_def)

lemma get_run_settle [simp]: "get_run i (settle j st) = get_run i st"
  by (simp add: settle_def split: option.splits)

lemma settle_frame [simp]:
  "rs_runs (settle i st) = rs_runs st"
  "rs_byKey (settle i st) = rs_byKey st"
  "rs_retryAfter (settle i st) = rs_retryAfter st"
  "rs_maxClaims (settle i st) = rs_maxClaims st"
  by (simp_all add: settle_def split: option.splits)

lemma get_run_drop_key [simp]: "get_run i (drop_key r st) = get_run i st"
  by (simp add: drop_key_def)

lemma drop_key_frame [simp]: "rs_settled (drop_key r st) = rs_settled st" "rs_runs (drop_key r st) = rs_runs st"
  by (simp_all add: drop_key_def)

lemma get_run_delete:
  "get_run i (st\<lparr>rs_runs := AList.delete j (rs_runs st)\<rparr>) = (if i = j then None else get_run i st)"
  by (simp add: get_run_def map_of_AList_delete)

lemma get_run_update:
  "get_run i (st\<lparr>rs_runs := AList.update j r (rs_runs st)\<rparr>) = (if i = j then Some r else get_run i st)"
  by (simp add: get_run_def map_of_AList_update)

subsection \<open>The invariant\<close>

text \<open>
  One run: it carries a lease exactly while it is running; a finished run has its result and its
  finish time; a run still in the queue has error attempts left, and every counted error had a claim.
\<close>

definition run_ok :: "run \<Rightarrow> bool" where
  "run_ok r \<longleftrightarrow>
     (run_status r = Running \<longleftrightarrow> run_leaseToken r \<noteq> None) \<and>
     (run_status r = Running \<longleftrightarrow> run_leaseExpiresAt r \<noteq> None) \<and>
     (run_status r = Running \<longrightarrow> run_startedAt r \<noteq> None) \<and>
     (isTerminal (run_status r) \<longleftrightarrow> run_finishedAt r \<noteq> None) \<and>
     (isTerminal (run_status r) \<longleftrightarrow> run_result r \<noteq> None) \<and>
     (\<not> isTerminal (run_status r) \<longrightarrow> run_errorAttempts r = 0 \<or> run_errorAttempts r < run_maxAttempts r) \<and>
     run_errorAttempts r \<le> max 1 (run_maxAttempts r) \<and>
     (if run_status r = Running then run_errorAttempts r < run_attempts r
      else run_errorAttempts r \<le> run_attempts r)"

text \<open>
  The store: well keyed, every run in order, at most one running run per session, and the settled
  log holds every finished run exactly once. \<open>held\<close> are the runs an unfinished \<open>steerQueued\<close> has
  taken out.
\<close>

definition single_flight :: "run_store \<Rightarrow> bool" where
  "single_flight st \<longleftrightarrow>
     (\<forall>i j r s. get_run i st = Some r \<and> get_run j st = Some s \<and> run_status r = Running \<and>
        run_status s = Running \<and> run_sessionId r = run_sessionId s \<longrightarrow> i = j)"

definition settled_once :: "run_store \<Rightarrow> bool" where
  "settled_once st \<longleftrightarrow>
     distinct (map run_id (rs_settled st)) \<and>
     (\<forall>i. i \<in> run_id ` set (rs_settled st) \<longleftrightarrow>
        (\<exists>r. get_run i st = Some r \<and> isTerminal (run_status r)))"

definition store_ok :: "run_store \<Rightarrow> bool" where
  "store_ok st \<longleftrightarrow>
     distinct (map fst (rs_runs st)) \<and>
     (\<forall>i r. get_run i st = Some r \<longrightarrow> run_id r = i \<and> run_ok r) \<and>
     single_flight st \<and> settled_once st"

definition held_ok :: "run list \<Rightarrow> run_store \<Rightarrow> bool" where
  "held_ok held st \<longleftrightarrow>
     distinct (map run_id held) \<and>
     (\<forall>q \<in> set held. run_status q = Pending \<and> run_ok q \<and> get_run (run_id q) st = None)"

lemma store_ok_empty: "store_ok (createMemoryRunStore m)"
  by (simp add: store_ok_def createMemoryRunStore_def get_run_def single_flight_def settled_once_def)

lemma store_okD:
  assumes "store_ok st" and "get_run i st = Some r"
  shows "run_id r = i" and "run_ok r"
  using assms by (auto simp: store_ok_def)

lemma running_unique:
  "store_ok st \<Longrightarrow> get_run i st = Some r \<Longrightarrow> get_run j st = Some s \<Longrightarrow> run_status r = Running \<Longrightarrow>
   run_status s = Running \<Longrightarrow> run_sessionId r = run_sessionId s \<Longrightarrow> i = j"
  unfolding store_ok_def single_flight_def by blast

lemma values_get_run:
  "store_ok st \<Longrightarrow> r \<in> snd ` set (rs_runs st) \<longleftrightarrow> get_run (run_id r) st = Some r"
proof
  assume ok: "store_ok st" and "r \<in> snd ` set (rs_runs st)"
  then obtain i where "(i, r) \<in> set (rs_runs st)" by force
  with ok have "get_run i st = Some r"
    by (simp add: store_ok_def get_run_def)
  with ok show "get_run (run_id r) st = Some r" by (simp add: store_okD)
next
  assume "get_run (run_id r) st = Some r"
  then show "r \<in> snd ` set (rs_runs st)"
    unfolding get_run_def by (force dest: map_of_SomeD)
qed

lemma sessionUnavailable_iff:
  assumes "store_ok st"
  shows "sessionUnavailable s now st \<longleftrightarrow> (\<exists>i r. get_run i st = Some r \<and> blocks_session st s now r)"
proof -
  have "sessionUnavailable s now st \<longleftrightarrow> (\<exists>r \<in> snd ` set (rs_runs st). blocks_session st s now r)"
    by (simp add: sessionUnavailable_def list_ex_iff)
  also have "\<dots> \<longleftrightarrow> (\<exists>r. get_run (run_id r) st = Some r \<and> blocks_session st s now r)"
    using values_get_run [OF assms] by blast
  also have "\<dots> \<longleftrightarrow> (\<exists>i r. get_run i st = Some r \<and> blocks_session st s now r)"
    using store_okD(1) [OF assms] by metis
  finally show ?thesis .
qed

lemma set_pendingRuns:
  assumes "store_ok st"
  shows "r \<in> set (pendingRuns now st) \<longleftrightarrow>
     get_run (run_id r) st = Some r \<and> run_status r = Pending \<and> \<not> sessionUnavailable (run_sessionId r) now st"
  using values_get_run [OF assms] by (auto simp: pendingRuns_def)

text \<open>A session with a claimable run has nothing running.\<close>

lemma claimable_no_running:
  assumes "store_ok st" and "r \<in> set (pendingRuns now st)" and "get_run i st = Some s"
    and "run_sessionId s = run_sessionId r"
  shows "run_status s \<noteq> Running"
  using assms by (auto simp: set_pendingRuns sessionUnavailable_iff blocks_session_def)

subsection \<open>Writing one run keeps the invariant\<close>

text \<open>
  A write that keeps the identity and the session of a run, keeps it in order, does not finish it and
  makes it running only when its session has no other running run.
\<close>

lemma store_ok_put:
  assumes ok: "store_ok st" and r: "get_run i st = Some r"
    and same: "run_id (f r) = run_id r" "run_sessionId (f r) = run_sessionId r"
    and fok: "run_ok (f r)"
    and fin: "isTerminal (run_status (f r)) \<longleftrightarrow> isTerminal (run_status r)"
    and flight: "run_status (f r) = Running \<Longrightarrow> run_status r \<noteq> Running \<Longrightarrow>
       (\<And>j s. get_run j st = Some s \<Longrightarrow> run_sessionId s = run_sessionId r \<Longrightarrow> run_status s \<noteq> Running)"
  shows "store_ok (put_run i f st)"
proof -
  have "distinct (map fst (rs_runs (put_run i f st)))"
    using ok by (simp add: put_run_def store_ok_def)
  moreover have "get_run j (put_run i f st) = Some s \<Longrightarrow> run_id s = j \<and> run_ok s" for j s
    using ok r same fok by (auto simp: get_put_run store_ok_def split: if_splits)
  moreover have "single_flight (put_run i f st)"
    unfolding single_flight_def
  proof (intro allI impI, elim conjE)
    fix j k s t
    assume s: "get_run j (put_run i f st) = Some s" and t: "get_run k (put_run i f st) = Some t"
      and run: "run_status s = Running" "run_status t = Running" and sess: "run_sessionId s = run_sessionId t"
    show "j = k"
    proof (cases "j = i \<or> k = i")
      case False
      with s t run sess ok show ?thesis
        by (auto simp: get_put_run intro: running_unique)
    next
      case True
      then show ?thesis
        using s t run sess r same flight running_unique [OF ok]
        by (cases "run_status r = Running") (auto simp: get_put_run split: if_splits; metis)+
    qed
  qed
  moreover have "settled_once (put_run i f st)"
    using ok r fin by (fastforce simp: store_ok_def settled_once_def get_put_run)
  ultimately show ?thesis by (simp add: store_ok_def)
qed

text \<open>Finishing a run and settling it.\<close>

lemma store_ok_finish:
  assumes ok: "store_ok st" and r: "get_run i st = Some r" and live: "\<not> isTerminal (run_status r)"
    and same: "run_id (f r) = run_id r" and fok: "run_ok (f r)" and fin: "isTerminal (run_status (f r))"
  shows "store_ok (settle i (put_run i f st))"
proof -
  let ?st = "put_run i f st"
  have get: "get_run i ?st = Some (f r)" using r by (simp add: get_put_run)
  have idr: "run_id r = i" using ok r by (rule store_okD)
  have new: "i \<notin> run_id ` set (rs_settled st)"
    using ok r live by (auto simp: store_ok_def settled_once_def)
  have log: "rs_settled (settle i ?st) = rs_settled st @ [f r]"
    using get fin by (simp add: settle_def)
  have "distinct (map fst (rs_runs (settle i ?st)))"
    using ok by (simp add: store_ok_def put_run_def)
  moreover have "get_run j (settle i ?st) = Some s \<Longrightarrow> run_id s = j \<and> run_ok s" for j s
    using ok r same fok by (auto simp: get_put_run store_ok_def split: if_splits)
  moreover have "single_flight (settle i ?st)"
    using ok r fin by (auto simp: store_ok_def single_flight_def get_put_run isTerminal_def split: if_splits)
  moreover have "settled_once (settle i ?st)"
  proof -
    have "distinct (map run_id (rs_settled st))"
      and iff: "\<And>k. k \<in> run_id ` set (rs_settled st) \<longleftrightarrow> (\<exists>s. get_run k st = Some s \<and> isTerminal (run_status s))"
      using ok by (auto simp: store_ok_def settled_once_def)
    moreover have "run_id (f r) = i" using same idr by simp
    ultimately show ?thesis
      using new get fin by (auto simp: settled_once_def log get_put_run)
  qed
  ultimately show ?thesis by (simp add: store_ok_def)
qed

lemma store_ok_frame [simp]:
  "store_ok (st\<lparr>rs_retryAfter := x\<rparr>) \<longleftrightarrow> store_ok st"
  "store_ok (st\<lparr>rs_byKey := y\<rparr>) \<longleftrightarrow> store_ok st"
  "store_ok (st\<lparr>rs_returned := u\<rparr>) \<longleftrightarrow> store_ok st"
  "store_ok (st\<lparr>rs_ledger := v\<rparr>) \<longleftrightarrow> store_ok st"
  by (simp_all add: store_ok_def single_flight_def settled_once_def)

lemma store_ok_drop_key [simp]: "store_ok (drop_key r st) \<longleftrightarrow> store_ok st"
  by (simp add: drop_key_def)

lemma store_ok_delete:
  assumes ok: "store_ok st" and r: "get_run i st = Some r" and live: "\<not> isTerminal (run_status r)"
  shows "store_ok (st\<lparr>rs_runs := AList.delete i (rs_runs st)\<rparr>)"
proof -
  have "settled_once (st\<lparr>rs_runs := AList.delete i (rs_runs st)\<rparr>)"
    using ok r live by (auto simp: store_ok_def settled_once_def get_run_delete)
  with ok show ?thesis
    by (auto simp: store_ok_def single_flight_def get_run_delete distinct_delete split: if_splits)
qed

lemma store_ok_add:
  assumes ok: "store_ok st" and new: "get_run i st = None" and "run_id r = i"
    and "run_ok r" and "run_status r = Pending"
  shows "store_ok (st\<lparr>rs_runs := AList.update i r (rs_runs st)\<rparr>)"
proof -
  have "settled_once (st\<lparr>rs_runs := AList.update i r (rs_runs st)\<rparr>)"
    using assms by (auto simp: store_ok_def settled_once_def get_run_update isTerminal_def)
  with assms show ?thesis
    by (auto simp: store_ok_def single_flight_def get_run_update distinct_update split: if_splits)
qed

subsection \<open>Every operation keeps the invariant\<close>

lemma run_ok_new: "run_ok (new_run inp uuid now)"
  by (simp add: run_ok_def new_run_def isTerminal_def)

lemma enqueue_ok:
  assumes "store_ok st" and "get_run uuid st = None"
  shows "store_ok (snd (enqueue inp uuid now st))"
  using assms store_ok_add [OF assms, of "new_run inp uuid now"] run_ok_new [of inp uuid now]
  by (auto simp: enqueue_def Let_def new_run_def split: option.splits)

lemma run_ok_leased: "run_ok r \<Longrightarrow> run_status r = Pending \<Longrightarrow> run_ok (leased w ttl now tok r)"
  by (auto simp: run_ok_def leased_def isTerminal_def split: option.splits)

lemma lease_ok:
  assumes ok: "store_ok st" and r: "r \<in> set (pendingRuns now st)"
  shows "store_ok (snd (lease r w ttl now tok st))"
proof -
  let ?st = "st\<lparr>rs_retryAfter := AList.delete (run_id r) (rs_retryAfter st)\<rparr>"
  have g: "get_run (run_id r) st = Some r" "run_status r = Pending"
    using ok r by (auto simp: set_pendingRuns)
  moreover have "run_ok r" using ok g(1) by (rule store_okD)
  ultimately have "store_ok (put_run (run_id r) (leased w ttl now tok) ?st)"
    using ok claimable_no_running [OF ok r]
    by (intro store_ok_put [where r = r]) (auto simp: run_ok_leased, auto simp: leased_def isTerminal_def)
  then show ?thesis by (simp add: lease_def)
qed

lemma claim_cases:
  assumes "claim w ttl now tok st = (res, st')"
  obtains (idle) "res = None" "st' = st" "pendingRuns now st = []"
  | (leased) r where "r = hd (pendingRuns now st)" "r \<in> set (pendingRuns now st)"
      "(res, st') = lease r w ttl now tok st"
  using assms by (cases "pendingRuns now st") (auto simp: claim_def)

lemma claim_ok: "store_ok st \<Longrightarrow> store_ok (snd (claim w ttl now tok st))"
  by (cases "pendingRuns now st") (auto simp: claim_def intro!: lease_ok)

lemma claimForSession_ok: "store_ok st \<Longrightarrow> store_ok (snd (claimForSession s w ttl now tok st))"
  by (auto simp: claimForSession_def split: option.splits dest!: find_Some_mem intro!: lease_ok)

lemma claimById_pending:
  assumes ok: "store_ok st" and r: "get_run i st = Some r"
    and p: "List.find P (pendingRuns now st) = Some p" and "run_id p = i"
  shows "p = r" and "r \<in> set (pendingRuns now st)"
proof -
  from p have mem: "p \<in> set (pendingRuns now st)" by (auto dest: find_Some_mem)
  with ok have "get_run (run_id p) st = Some p" by (simp add: set_pendingRuns)
  with assms show "p = r" by simp
  with mem show "r \<in> set (pendingRuns now st)" by simp
qed

lemma claimById_ok: "store_ok st \<Longrightarrow> store_ok (snd (claimById i w ttl now tok st))"
  by (auto simp: claimById_def split: option.splits intro!: lease_ok claimById_pending)

lemma run_ok_extend: "run_ok r \<Longrightarrow> run_status r = Running \<Longrightarrow> run_ok (r\<lparr>run_leaseExpiresAt := Some t\<rparr>)"
  by (auto simp: run_ok_def)

lemma run_ok_fence: "run_ok r \<Longrightarrow> run_status r = Running \<Longrightarrow>
    run_ok (r\<lparr>run_leaseToken := Some tok, run_leaseExpiresAt := Some t\<rparr>)"
  by (auto simp: run_ok_def)

lemma run_ok_release: "run_ok r \<Longrightarrow> run_status r = Running \<Longrightarrow>
    run_ok (r\<lparr>run_status := Pending, run_leaseToken := None, run_leaseExpiresAt := None, run_workerId := None\<rparr>)"
  by (simp add: run_ok_def isTerminal_def)

lemma heartbeat_ok:
  assumes ok: "store_ok st"
  shows "store_ok (snd (heartbeat i tok ttl now st))"
  using ok by (auto simp: heartbeat_def holds_lease_def split: option.splits
      intro!: store_ok_put run_ok_extend dest: store_okD(2))

lemma releaseLease_ok:
  assumes ok: "store_ok st"
  shows "store_ok (snd (releaseLease i tok st))"
  using ok by (auto simp: releaseLease_def holds_lease_def isTerminal_def split: option.splits
      intro!: store_ok_put run_ok_release dest: store_okD(2))

lemma put_run_put_run: "put_run i g (put_run i f st) = put_run i (\<lambda>r. g (f r)) st"
proof -
  have "map_modify i g (map_modify i f m) = map_modify i (\<lambda>r. g (f r)) m" for m :: "run js_map"
    by (induction m) (auto simp: map_modify_def)
  then show ?thesis by (simp add: put_run_def)
qed

lemma put_run_byKey: "put_run i f (st\<lparr>rs_byKey := b\<rparr>) = (put_run i f st)\<lparr>rs_byKey := b\<rparr>"
  by (simp add: put_run_def)

lemma settle_byKey: "settle i (st\<lparr>rs_byKey := b\<rparr>) = (settle i st)\<lparr>rs_byKey := b\<rparr>"
  by (simp add: settle_def get_run_def split: option.splits)

lemma leased_running: "run_ok r \<Longrightarrow> run_leaseToken r = Some tok \<Longrightarrow> run_status r = Running"
  by (auto simp: run_ok_def)

lemma complete_ok:
  assumes ok: "store_ok st"
  shows "store_ok (snd (complete i tok res now st))"
proof (cases "get_run i st")
  case None
  with ok show ?thesis by (simp add: complete_def)
next
  case (Some r)
  show ?thesis
  proof (cases "run_leaseToken r = Some tok")
    case False
    with ok Some show ?thesis by (simp add: complete_def)
  next
    case True
    have rok: "run_ok r" using ok Some by (rule store_okD)
    with True have run: "run_status r = Running" by (simp add: leased_running)
    have fin: "store_ok (settle i (put_run i f st))"
      if "run_id (f r) = run_id r" "run_ok (f r)" "run_status (f r) = Done" for f
      using ok Some run that by (intro store_ok_finish [where r = r]) (auto simp: isTerminal_def)
    show ?thesis
      using Some True rok run
      by (auto simp: complete_def Let_def put_run_byKey put_run_put_run settle_byKey intro!: fin)
        (auto simp: run_ok_def isTerminal_def)
  qed
qed

lemma retire_ok:
  assumes ok: "store_ok st"
  shows "store_ok (snd (retire i err retry opts now st))"
proof (cases "get_run i st")
  case None
  with ok show ?thesis by (simp add: retire_def)
next
  case (Some r)
  have rok: "run_ok r" using ok Some by (rule store_okD)
  show ?thesis
  proof (cases "retire_refused r opts")
    case True
    with ok Some show ?thesis by (simp add: retire_def)
  next
    case False
    then have run: "run_status r = Running" by (simp add: retire_refused_def)
    show ?thesis
    proof (cases "retry \<and> errors_after opts r < run_maxAttempts r \<and> \<not> overClaimed st r")
      case True
      have "store_ok (put_run i (\<lambda>r. (unleased opts r)\<lparr>run_status := Pending\<rparr>) st)"
        using ok Some run rok True
        by (intro store_ok_put [where r = r])
          (auto simp: unleased_def run_ok_def isTerminal_def errors_after_def)
      with Some False True show ?thesis by (simp add: retire_def)
    next
      case not_requeued: False
      have "store_ok (settle i (put_run i (\<lambda>r. (unleased opts r)\<lparr>run_status := Failed,
              run_result := Some (g r), run_finishedAt := Some now\<rparr>) st))" for g
        using ok Some run rok
        by (intro store_ok_finish [where r = r])
          (auto simp: unleased_def run_ok_def isTerminal_def errors_after_def)
      with Some False not_requeued show ?thesis by (auto simp: retire_def Let_def)
    qed
  qed
qed

lemma fail_run_ok: "store_ok st \<Longrightarrow> store_ok (snd (fail_run i tok err retry ms now st))"
  using retire_ok [of st i err] by (auto simp: fail_run_def split: option.splits prod.splits) (metis snd_conv)

lemma put_neutral_ok:
  assumes "store_ok st" and "get_run i st = Some r"
    and "run_id (f r) = run_id r" "run_sessionId (f r) = run_sessionId r"
    and "run_status (f r) = run_status r" and "run_ok r \<Longrightarrow> run_ok (f r)"
  shows "store_ok (put_run i f st)"
  using assms store_okD [OF assms(1,2)] by (intro store_ok_put [where r = r]) auto

lemma noteTurnUserSeq_ok: "store_ok st \<Longrightarrow> store_ok (snd (noteTurnUserSeq i s st))"
  by (auto simp: noteTurnUserSeq_def split: option.splits intro!: put_neutral_ok) (auto simp: run_ok_def)

lemma setDeliveryState_ok: "store_ok st \<Longrightarrow> store_ok (snd (setDeliveryState i tok ds st))"
  by (auto simp: setDeliveryState_def split: option.splits intro!: put_neutral_ok) (auto simp: run_ok_def)

lemma editPendingText_ok: "store_ok st \<Longrightarrow> store_ok (snd (editPendingText i t e st))"
  by (auto simp: editPendingText_def split: option.splits intro!: put_neutral_ok) (auto simp: run_ok_def)

lemma withdraw_ok: "store_ok st \<Longrightarrow> store_ok (snd (withdraw i u st))"
proof -
  assume ok: "store_ok st"
  have "store_ok (st\<lparr>rs_runs := AList.delete i (rs_runs st), rs_retryAfter := x\<rparr>)"
    if "get_run i st = Some r" "run_status r = Pending" for r x
    using store_ok_delete [OF ok that(1)] that(2) by (simp add: isTerminal_def)
  with ok show ?thesis by (auto simp: withdraw_def split: option.splits)
qed

lemma markReturned_ok: "store_ok st \<Longrightarrow> store_ok (markReturned i st)"
  by (simp add: markReturned_def)

lemma ledger_record_ok: "store_ok st \<Longrightarrow> store_ok (ledger_record i a c out st)"
  by (simp add: ledger_record_def)

lemma steer_take_cases:
  assumes "steer_take q t sig st = (Some r, st')"
  shows "get_run q st = Some r" "run_status r = Pending"
    "st' = st\<lparr>rs_runs := AList.delete q (rs_runs st)\<rparr>"
  using assms by (auto simp: steer_take_def split: option.splits if_splits)

lemma reap_fence_ok:
  assumes ok: "store_ok st"
  shows "store_ok (snd (reap_fence i now tok st))"
  using ok by (auto simp: reap_fence_def leaseLapsed_def split: option.splits
      intro!: store_ok_put run_ok_fence dest: store_okD(2))

lemma reap_retire_retire:
  "snd (reap_retire r m now later st) =
   snd (retire (run_id r)
     (if too_old m now r then ''run exceeded max age (reaped)'' else ''lease expired (reaped)'')
     (\<not> too_old m now r) no_retire_opts later st)"
  by (simp add: reap_retire_def Let_def split: prod.split)

lemma reap_retire_ok: "store_ok st \<Longrightarrow> store_ok (snd (reap_retire r m now later st))"
  by (simp add: reap_retire_retire retire_ok)

lemmas run_op_ok =
  enqueue_ok claim_ok claimById_ok claimForSession_ok heartbeat_ok releaseLease_ok complete_ok
  retire_ok fail_run_ok noteTurnUserSeq_ok setDeliveryState_ok editPendingText_ok withdraw_ok
  markReturned_ok ledger_record_ok reap_fence_ok reap_retire_ok

end
