(* ===== verification/Run_Queue.thy ===== *)
theory Run_Queue
  imports Run_Store_Proofs
begin

text \<open>
  The run store as a transition system, and what its clients rely on: one running run per session,
  leases that fence out every earlier holder, first-in-first-out claims, one notification per
  finished run, deduplicated enqueues and a reaper that clears every lapsed lease.
\<close>

subsection \<open>Steps\<close>

text \<open>
  \<open>run_op\<close> is one uninterrupted stretch of the store's code. Identifiers drawn by \<open>randomUUID\<close> are
  new. \<open>run_step\<close> adds the two halves of \<open>steerQueued\<close>, whose taken-out runs are in \<open>sys_held\<close>.
\<close>

inductive run_op :: "run_store \<Rightarrow> run_store \<Rightarrow> bool" where
  op_enqueue: "get_run uuid st = None \<Longrightarrow> uuid \<noteq> [] \<Longrightarrow> run_op st (snd (enqueue inp uuid now st))"
| op_claim: "run_op st (snd (claim w ttl now tok st))"
| op_claimById: "run_op st (snd (claimById i w ttl now tok st))"
| op_claimForSession: "run_op st (snd (claimForSession s w ttl now tok st))"
| op_heartbeat: "run_op st (snd (heartbeat i tok ttl now st))"
| op_releaseLease: "run_op st (snd (releaseLease i tok st))"
| op_complete: "run_op st (snd (complete i tok res now st))"
| op_fail: "run_op st (snd (fail_run i tok err retry ms now st))"
| op_note: "run_op st (snd (noteTurnUserSeq i n st))"
| op_setDelivery: "run_op st (snd (setDeliveryState i otok ds st))"
| op_markReturned: "run_op st (markReturned i st)"
| op_edit: "run_op st (snd (editPendingText i t e st))"
| op_withdraw: "run_op st (snd (withdraw i u st))"
| op_fence: "run_op st (snd (reap_fence i now tok st))"
| op_retire: "run_op st (snd (reap_retire r m now later st))"
| op_ledger: "run_op st (ledger_record i a c out st)"

record run_system =
  sys_store :: run_store
  sys_held :: "run list"

inductive run_step :: "run_system \<Rightarrow> run_system \<Rightarrow> bool" where
  step_op: "run_op (sys_store s) st' \<Longrightarrow> (\<forall>q \<in> set (sys_held s). get_run (run_id q) st' = None) \<Longrightarrow>
     run_step s (s\<lparr>sys_store := st'\<rparr>)"
| step_take: "steer_take i t sig (sys_store s) = (Some q, st') \<Longrightarrow>
     run_step s \<lparr>sys_store = st', sys_held = q # sys_held s\<rparr>"
| step_sent: "q \<in> set (sys_held s) \<Longrightarrow>
     run_step s \<lparr>sys_store = steer_sent q (sys_store s), sys_held = remove1 q (sys_held s)\<rparr>"
| step_restore: "q \<in> set (sys_held s) \<Longrightarrow>
     run_step s \<lparr>sys_store = steer_restore q (sys_store s), sys_held = remove1 q (sys_held s)\<rparr>"

inductive run_reachable :: "nat option \<Rightarrow> run_system \<Rightarrow> bool" for m where
  reach_init: "run_reachable m \<lparr>sys_store = createMemoryRunStore m, sys_held = []\<rparr>"
| reach_step: "run_reachable m s \<Longrightarrow> run_step s s' \<Longrightarrow> run_reachable m s'"

definition system_ok :: "run_system \<Rightarrow> bool" where
  "system_ok s \<longleftrightarrow> store_ok (sys_store s) \<and> held_ok (sys_held s) (sys_store s)"

lemma run_op_store_ok: "run_op st st' \<Longrightarrow> store_ok st \<Longrightarrow> store_ok st'"
  by (induction rule: run_op.induct) (simp_all add: run_op_ok)

lemma held_ok_remove1: "held_ok held st \<Longrightarrow> held_ok (remove1 q held) st"
  by (auto simp: held_ok_def distinct_map inj_on_def dest: notin_set_remove1)

lemma held_remove1_other:
  assumes "held_ok held st" and "q \<in> set held" and "p \<in> set (remove1 q held)"
  shows "run_id p \<noteq> run_id q"
proof -
  have "distinct held" and inj: "inj_on run_id (set held)"
    using assms(1) by (auto simp: held_ok_def distinct_map)
  with assms(3) have "p \<in> set held" "p \<noteq> q" by auto
  with inj assms(2) show ?thesis by (meson inj_onD)
qed

lemma run_step_system_ok:
  assumes "run_step s s'" and "system_ok s"
  shows "system_ok s'"
  using assms
proof (induction rule: run_step.induct)
  case (step_op s st')
  then show ?case
    by (auto simp: system_ok_def held_ok_def intro: run_op_store_ok)
next
  case (step_take i t sig s q st')
  note taken = steer_take_cases [OF step_take(1)]
  then have "run_id q = i" and "run_ok q"
    using step_take(2) by (auto simp: system_ok_def dest: store_okD)
  with taken step_take(2) show ?case
    by (auto simp: system_ok_def held_ok_def get_run_delete isTerminal_def intro!: store_ok_delete)
next
  case (step_sent q s)
  then have "held_ok (remove1 q (sys_held s)) (sys_store s)"
    by (simp add: system_ok_def held_ok_remove1)
  with step_sent show ?case
    by (simp add: system_ok_def steer_sent_def held_ok_def)
next
  case (step_restore q s)
  then have h: "held_ok (sys_held s) (sys_store s)" and ok: "store_ok (sys_store s)"
    by (auto simp: system_ok_def)
  then have q: "run_status q = Pending" "run_ok q" "get_run (run_id q) (sys_store s) = None"
    using step_restore(1) by (auto simp: held_ok_def)
  then have "store_ok (steer_restore q (sys_store s))"
    unfolding steer_restore_def by (intro store_ok_add ok) auto
  moreover have "held_ok (remove1 q (sys_held s)) (steer_restore q (sys_store s))"
    using held_ok_remove1 [OF h, of q] held_remove1_other [OF h step_restore(1)]
    by (auto simp: held_ok_def steer_restore_def get_run_update)
  ultimately show ?case by (simp add: system_ok_def)
qed

lemma reachable_system_ok: "run_reachable m s \<Longrightarrow> system_ok s"
proof (induction rule: run_reachable.induct)
  case reach_init
  show ?case by (simp add: system_ok_def store_ok_empty held_ok_def)
next
  case (reach_step s s')
  then show ?case by (blast intro: run_step_system_ok)
qed

lemma reachable_store_ok: "run_reachable m s \<Longrightarrow> store_ok (sys_store s)"
  by (drule reachable_system_ok) (simp add: system_ok_def)

text \<open>C1: in every state the store can reach, under every interleaving of its operations at their
  await points, a session has at most one running run.\<close>

theorem run_single_flight:
  assumes "run_reachable m s"
    and "get_run i (sys_store s) = Some r" and "get_run j (sys_store s) = Some r'"
    and "run_status r = Running" and "run_status r' = Running"
    and "run_sessionId r = run_sessionId r'"
  shows "i = j"
  using assms by (blast intro: running_unique reachable_store_ok)

subsection \<open>Fencing\<close>

text \<open>The operations a worker calls with its lease token do nothing with any other token.\<close>

lemma stale_token_refused:
  assumes "get_run i st = Some r" and "run_leaseToken r \<noteq> Some tok"
  shows "heartbeat i tok ttl now st = (False, st)" "releaseLease i tok st = (False, st)"
    "complete i tok res now st = (False, st)" "fail_run i tok err retry ms now st = (False, st)"
    "setDeliveryState i (Some tok) ds st = (False, st)"
  using assms
  by (simp_all add: heartbeat_def releaseLease_def complete_def fail_run_def setDeliveryState_def
      holds_lease_def)

lemma lease_get: "get_run i (snd (lease r w ttl now tok st)) =
    (if i = run_id r then map_option (leased w ttl now tok) (get_run i st) else get_run i st)"
  by (simp add: lease_def get_put_run)

lemma claim_Some:
  assumes ok: "store_ok st" and c: "claim w ttl now tok st = (Some r', st')"
  obtains r where "r = hd (pendingRuns now st)" "r \<in> set (pendingRuns now st)"
    "get_run (run_id r) st = Some r" "r' = leased w ttl now tok r" "run_id r' = run_id r"
    "get_run (run_id r') st' = Some r'"
    "\<And>i. i \<noteq> run_id r' \<Longrightarrow> get_run i st' = get_run i st"
proof -
  from c obtain r where r: "r = hd (pendingRuns now st)" "r \<in> set (pendingRuns now st)"
    and l: "(Some r', st') = lease r w ttl now tok st"
    by (rule claim_cases) auto
  have g: "get_run (run_id r) st = Some r" using ok r(2) by (simp add: set_pendingRuns)
  moreover have r': "r' = leased w ttl now tok r" using l by (simp add: lease_def)
  moreover have idr: "run_id r' = run_id r" by (simp add: r' leased_def)
  moreover have "st' = snd (lease r w ttl now tok st)" using l by (metis snd_conv)
  ultimately show ?thesis using that r by (simp add: lease_get)
qed


text \<open>C3: \<open>claim\<close> is first in, first out. It returns nothing exactly when no pending run's session is
  free; otherwise it leases the earliest created run whose session is free, counts the attempt,
  records the worker and the expiry and leaves every other run as it was.\<close>

theorem claim_fifo:
  assumes "run_reachable m s"
  shows "case claim w ttl now tok (sys_store s) of
      (None, st') \<Rightarrow> st' = sys_store s \<and>
        (\<forall>i r. get_run i (sys_store s) = Some r \<and> run_status r = Pending \<longrightarrow>
           sessionUnavailable (run_sessionId r) now (sys_store s))
    | (Some r', st') \<Rightarrow>
        (\<exists>r. get_run (run_id r) (sys_store s) = Some r \<and> run_status r = Pending \<and>
           \<not> sessionUnavailable (run_sessionId r) now (sys_store s) \<and>
           (\<forall>i q. get_run i (sys_store s) = Some q \<and> run_status q = Pending \<and>
              \<not> sessionUnavailable (run_sessionId q) now (sys_store s) \<longrightarrow> run_createdAt r \<le> run_createdAt q) \<and>
           r' = leased w ttl now tok r \<and> get_run (run_id r) st' = Some r' \<and>
           (\<forall>i. i \<noteq> run_id r \<longrightarrow> get_run i st' = get_run i (sys_store s)))"
proof -
  let ?st = "sys_store s"
  have ok: "store_ok ?st" using assms by (rule reachable_store_ok)
  obtain res st' where c: "claim w ttl now tok ?st = (res, st')" by fastforce
  show ?thesis
  proof (cases res)
    case None
    with c have "st' = ?st" "pendingRuns now ?st = []"
      by (auto simp: claim_def lease_def split: list.splits)
    moreover have "r \<in> set (pendingRuns now ?st)"
      if "get_run i ?st = Some r" "run_status r = Pending" "\<not> sessionUnavailable (run_sessionId r) now ?st" for i r
      using that ok by (simp add: set_pendingRuns store_okD)
    ultimately show ?thesis using c None by auto
  next
    case (Some r')
    with c ok obtain r where r: "r = hd (pendingRuns now ?st)" "r \<in> set (pendingRuns now ?st)"
      "get_run (run_id r) ?st = Some r" "r' = leased w ttl now tok r" "run_id r' = run_id r"
      "get_run (run_id r') st' = Some r'" "\<And>i. i \<noteq> run_id r' \<Longrightarrow> get_run i st' = get_run i ?st"
      by (auto elim: claim_Some)
    have first: "run_createdAt r \<le> run_createdAt q"
      if "get_run i ?st = Some q" "run_status q = Pending" "\<not> sessionUnavailable (run_sessionId q) now ?st" for i q
    proof -
      have "q \<in> set (pendingRuns now ?st)" using that ok by (simp add: set_pendingRuns store_okD)
      then show ?thesis unfolding r(1) pendingRuns_def by (intro hd_sort_key_le) simp
    qed
    have "run_status r = Pending \<and> \<not> sessionUnavailable (run_sessionId r) now ?st"
      using r(2) ok by (simp add: set_pendingRuns)
    with r first c Some show ?thesis by auto
  qed
qed

subsection \<open>Finished runs\<close>

text \<open>in every reachable state the terminal listeners have been told of each finished run exactly
  once, and of nothing else: the identifiers of the settled log are distinct and are those of the
  runs that are done or failed.\<close>

lemma terminal_notified_once:
  assumes "run_reachable m s"
  shows "distinct (map run_id (rs_settled (sys_store s))) \<and>
    (\<forall>i. i \<in> run_id ` set (rs_settled (sys_store s)) \<longleftrightarrow>
       (\<exists>r. get_run i (sys_store s) = Some r \<and> isTerminal (run_status r)))"
  using reachable_store_ok [OF assms] by (simp add: store_ok_def settled_once_def)

text \<open>What a finished run keeps through every operation.\<close>

definition outcome :: "run \<Rightarrow> run_status \<times> turn_result option \<times> time option \<times> nat \<times> nat" where
  "outcome r = (run_status r, run_result r, run_finishedAt r, run_attempts r, run_errorAttempts r)"

definition keeps_outcome :: "string \<Rightarrow> run \<Rightarrow> run_store \<Rightarrow> bool" where
  "keeps_outcome i r st \<longleftrightarrow> (\<exists>r'. get_run i st = Some r' \<and> outcome r' = outcome r)"

lemma keeps_outcome_refl: "get_run i st = Some r \<Longrightarrow> keeps_outcome i r st"
  by (simp add: keeps_outcome_def)

lemma keeps_outcome_put:
  assumes "get_run i st = Some r" and "j = i \<Longrightarrow> outcome (f r) = outcome r"
  shows "keeps_outcome i r (put_run j f st)"
  using assms by (auto simp: keeps_outcome_def get_put_run)

lemma terminal_unleased: "run_ok r \<Longrightarrow> isTerminal (run_status r) \<Longrightarrow> run_leaseToken r = None"
  by (auto simp: run_ok_def isTerminal_def)

lemma keeps_outcome_lease:
  assumes "store_ok st" and "get_run i st = Some r" and "isTerminal (run_status r)"
    and "q \<in> set (pendingRuns now st)"
  shows "keeps_outcome i r (snd (lease q w ttl now tok st))"
  using assms by (auto simp: keeps_outcome_def lease_get set_pendingRuns isTerminal_def)

lemma keeps_outcome_retire:
  assumes g: "get_run i st = Some r" and "isTerminal (run_status r)"
  shows "keeps_outcome i r (snd (retire j err retry opts now st))"
proof (cases "j = i")
  case True
  with assms show ?thesis
    by (auto simp: retire_def retire_refused_def isTerminal_def keeps_outcome_refl)
next
  case False
  with g show ?thesis
    by (auto simp: retire_def keeps_outcome_def get_put_run Let_def split: option.splits)
qed

lemma run_op_keeps_outcome:
  assumes op: "run_op st st'" and ok: "store_ok st" and g: "get_run i st = Some r"
    and t: "isTerminal (run_status r)"
  shows "keeps_outcome i r st'"
proof -
  have rok: "run_ok r" and idr: "run_id r = i" using ok g by (auto dest: store_okD)
  have no_tok: "run_leaseToken r = None" using rok t by (rule terminal_unleased)
  have st: "run_status r \<noteq> Pending" "run_status r \<noteq> Running" using t by (auto simp: isTerminal_def)
  note lease = keeps_outcome_lease [OF ok g t]
  note retire = keeps_outcome_retire [OF g t]
  note put = keeps_outcome_put [OF g] keeps_outcome_refl [OF g]
  show ?thesis
    using op
  proof cases
    case (op_enqueue uuid inp now)
    with g show ?thesis
      by (auto simp: enqueue_def keeps_outcome_def Let_def get_run_update split: option.splits)
  next
    case op_claim
    then show ?thesis by (auto simp: claim_def put intro!: lease split: list.splits)
  next
    case op_claimById
    then show ?thesis
      by (auto simp: claimById_def put intro!: lease claimById_pending [OF ok] split: option.splits)
  next
    case op_claimForSession
    then show ?thesis
      by (auto simp: claimForSession_def put intro!: lease split: option.splits dest!: find_Some_mem)
  next
    case op_heartbeat
    then show ?thesis
      using g st by (auto simp: heartbeat_def holds_lease_def put outcome_def intro!: put split: option.splits)
  next
    case op_releaseLease
    then show ?thesis
      using g st by (auto simp: releaseLease_def holds_lease_def put outcome_def intro!: put split: option.splits)
  next
    case (op_complete j tok res now)
    then show ?thesis
      using g no_tok by (auto simp: complete_def keeps_outcome_def get_put_run Let_def split: option.splits)
  next
    case op_fail
    then show ?thesis
      using retire by (auto simp: fail_run_def put split: option.splits prod.splits) (metis snd_conv)
  next
    case op_note
    then show ?thesis by (auto simp: noteTurnUserSeq_def put outcome_def intro!: put split: option.splits)
  next
    case op_setDelivery
    then show ?thesis by (auto simp: setDeliveryState_def put outcome_def intro!: put split: option.splits)
  next
    case op_markReturned
    with g show ?thesis by (simp add: markReturned_def keeps_outcome_def)
  next
    case op_edit
    then show ?thesis by (auto simp: editPendingText_def put outcome_def intro!: put split: option.splits)
  next
    case op_withdraw
    then show ?thesis
      using g st by (auto simp: withdraw_def keeps_outcome_def get_run_def map_of_AList_delete split: option.splits)
  next
    case op_fence
    then show ?thesis
      using g st by (auto simp: reap_fence_def leaseLapsed_def put outcome_def intro!: put split: option.splits)
  next
    case op_retire
    then show ?thesis by (simp add: reap_retire_retire retire)
  next
    case op_ledger
    with g show ?thesis by (simp add: ledger_record_def keeps_outcome_def)
  qed
qed

text \<open>a finished run is final. Whatever step the store takes, a run that is done or failed stays
  in the store with the same status, result, finish time and attempt counts.\<close>

lemma finished_run_final:
  assumes "run_reachable m s" and "run_step s s'"
    and g: "get_run i (sys_store s) = Some r" and t: "isTerminal (run_status r)"
  shows "\<exists>r'. get_run i (sys_store s') = Some r' \<and> outcome r' = outcome r"
  using assms(2)
proof cases
  case (step_op st')
  with run_op_keeps_outcome [OF _ reachable_store_ok [OF assms(1)] g t] show ?thesis
    by (auto simp: keeps_outcome_def)
next
  case (step_take j t' sig q st')
  with g t steer_take_cases [OF step_take(2)] show ?thesis
    by (auto simp: get_run_delete isTerminal_def)
next
  case (step_sent q)
  with g show ?thesis by (simp add: steer_sent_def)
next
  case (step_restore q)
  with reachable_system_ok [OF assms(1)] have "get_run (run_id q) (sys_store s) = None"
    by (auto simp: system_ok_def held_ok_def)
  with g step_restore show ?thesis by (auto simp: steer_restore_def get_run_update)
qed

text \<open>every run of a reachable store is consistent. It holds a lease token and an expiry exactly
  while it is running, it has a result and a finish time exactly when it is done or failed, and a
  run still in the queue has error attempts left.\<close>

lemma run_record_consistent:
  assumes "run_reachable m s" and "get_run i (sys_store s) = Some r"
  shows "run_id r = i \<and>
    (run_status r = Running \<longleftrightarrow> run_leaseToken r \<noteq> None) \<and>
    (run_status r = Running \<longleftrightarrow> run_leaseExpiresAt r \<noteq> None) \<and>
    (isTerminal (run_status r) \<longleftrightarrow> run_finishedAt r \<noteq> None) \<and>
    (isTerminal (run_status r) \<longleftrightarrow> run_result r \<noteq> None) \<and>
    (\<not> isTerminal (run_status r) \<longrightarrow> run_errorAttempts r = 0 \<or> run_errorAttempts r < run_maxAttempts r) \<and>
    run_errorAttempts r \<le> run_attempts r"
proof -
  note ok = store_okD [OF reachable_store_ok [OF assms(1)] assms(2)]
  from ok(2) have "run_errorAttempts r \<le> run_attempts r"
    by (simp add: run_ok_def split: if_splits)
  with ok show ?thesis unfolding run_ok_def by blast
qed

subsection \<open>Failing a run\<close>

lemma overClaimed_iff: "overClaimed st r \<longleftrightarrow> (case rs_maxClaims st of None \<Rightarrow> False | Some n \<Rightarrow> run_attempts r \<ge> n)"
  by (simp add: overClaimed_def)

lemma fail_run_requeued:
  assumes "get_run i st = Some r" and "holds_lease tok r" and "retry \<noteq> Some False"
    and "\<not> errorParks r (rs_maxClaims st)"
  shows "fail_run i tok err retry ms now st =
    (True, (put_run i (\<lambda>r. r\<lparr>run_leaseToken := None, run_leaseExpiresAt := None, run_workerId := None,
               run_errorAttempts := run_errorAttempts r + 1, run_status := Pending\<rparr>) st)
       \<lparr>rs_retryAfter := AList.update i (now + max 0 (case ms of None \<Rightarrow> 0 | Some d \<Rightarrow> d)) (rs_retryAfter st)\<rparr>)"
  using assms
  by (simp add: fail_run_def retire_def retire_refused_def holds_lease_def errorParks_def
      errors_after_def overClaimed_def unleased_def not_le)

lemma fail_run_parked:
  assumes "get_run i st = Some r" and "holds_lease tok r" and "errorParks r (rs_maxClaims st)"
  shows "\<not> fst (fail_run i tok err retry ms now st) \<and>
    (\<exists>r'. get_run i (snd (fail_run i tok err retry ms now st)) = Some r' \<and> run_status r' = Failed \<and>
       run_errorAttempts r' = run_errorAttempts r + 1 \<and> run_finishedAt r' = Some now)"
proof -
  let ?opts = "\<lparr>ro_ifExpiredAt = None, ro_countsAsError = True, ro_retryAfterMs = ms\<rparr>"
  have "\<not> (errors_after ?opts r < run_maxAttempts r \<and> \<not> overClaimed st r)"
    using assms(3) by (auto simp: errorParks_def errors_after_def overClaimed_def split: option.splits)
  then show ?thesis
    using assms(1,2)
    by (auto simp: fail_run_def retire_def retire_refused_def holds_lease_def get_put_run Let_def
        unleased_def errors_after_def)
qed

text \<open>\<open>errorParks\<close>, which tells the worker whether an attempt is the last one, predicts what
  \<open>fail\<close> does. The holder's retryable failure requeues the run exactly when \<open>errorParks\<close> is false;
  it always uses up one error attempt; a requeued run keeps its session unavailable until the retry
  delay is over; a parked run is failed and finished.\<close>

lemma fail_agrees_with_errorParks:
  assumes g: "get_run i st = Some r" and l: "holds_lease tok r" and rt: "retry \<noteq> Some False"
    and idr: "run_id r = i"
  shows "case fail_run i tok err retry ms now st of (requeued, st') \<Rightarrow>
    (requeued \<longleftrightarrow> \<not> errorParks r (rs_maxClaims st)) \<and>
    (\<exists>r'. get_run i st' = Some r' \<and> run_errorAttempts r' = run_errorAttempts r + 1 \<and>
       run_status r' = (if requeued then Pending else Failed) \<and>
       (requeued \<longrightarrow> (\<forall>t < now + (case ms of None \<Rightarrow> 0 | Some d \<Rightarrow> d).
          sessionUnavailable (run_sessionId r) t st')))"
proof (cases "errorParks r (rs_maxClaims st)")
  case True
  obtain rq st' where eq: "fail_run i tok err retry ms now st = (rq, st')" by fastforce
  show ?thesis
    using fail_run_parked [OF g l True, of err retry ms now] True by (auto simp: eq)
next
  case False
  let ?f = "\<lambda>r. r\<lparr>run_leaseToken := None, run_leaseExpiresAt := None, run_workerId := None,
               run_errorAttempts := run_errorAttempts r + 1, run_status := Pending\<rparr>"
  let ?at = "now + max 0 (case ms of None \<Rightarrow> 0 | Some d \<Rightarrow> d)"
  let ?st = "(put_run i ?f st)\<lparr>rs_retryAfter := AList.update i ?at (rs_retryAfter st)\<rparr>"
  have g': "get_run i ?st = Some (?f r)" using g by (simp add: get_put_run)
  have "sessionUnavailable (run_sessionId r) t ?st" if "t < now + (case ms of None \<Rightarrow> 0 | Some d \<Rightarrow> d)" for t
  proof -
    have "blocks_session ?st (run_sessionId r) t (?f r)"
      using that idr by (auto simp: blocks_session_def retry_at_def map_of_AList_update)
    moreover have "?f r \<in> set (map_values (rs_runs ?st))"
      using g' by (force simp: get_run_def dest: map_of_SomeD)
    ultimately show ?thesis unfolding sessionUnavailable_def list_ex_iff by blast
  qed
  with False g' show ?thesis by (simp add: fail_run_requeued [OF g l rt False])
qed

subsection \<open>The tool ledger\<close>

lemma ledger_key_inj: "ledger_key r a c = ledger_key r' a' c' \<longleftrightarrow> r = r' \<and> a = a' \<and> c = c'"
proof
  assume eq: "ledger_key r a c = ledger_key r' a' c'"
  then have "(r @ '':'' @ nat_digits a) @ CHR '':'' # nat_digits c =
      (r' @ '':'' @ nat_digits a') @ CHR '':'' # nat_digits c'"
    by (simp add: ledger_key_def)
  note split = append_sep_inj [OF colon_notin_nat_digits colon_notin_nat_digits this]
  then have 1: "r @ CHR '':'' # nat_digits a = r' @ CHR '':'' # nat_digits a'" "nat_digits c = nat_digits c'"
    by simp_all
  then have "r = r'" "nat_digits a = nat_digits a'"
    using append_sep_inj [OF colon_notin_nat_digits colon_notin_nat_digits 1(1)] by simp_all
  with 1(2) show "r = r' \<and> a = a' \<and> c = c'" by (simp add: nat_digits_inj)
qed simp

text \<open>the tool ledger returns the output recorded last for exactly this run, attempt and call
  index: the composed string keys never collide, whatever the run identifier.\<close>

lemma ledger_lookup:
  "ledger_begin runId attempt callIndex (ledger_record runId' attempt' callIndex' output st) =
     (if runId = runId' \<and> attempt = attempt' \<and> callIndex = callIndex' then Some output
      else ledger_begin runId attempt callIndex st)"
  by (auto simp: ledger_begin_def ledger_record_def map_of_AList_update ledger_key_inj)

subsection \<open>Deduplication\<close>

text \<open>
  The key index and the runs agree: the index maps a key to a run exactly when the run is in the
  store and carries the key.
\<close>

definition carries :: "run_store \<Rightarrow> string \<Rightarrow> string \<Rightarrow> bool" where
  "carries st k i \<longleftrightarrow> k \<noteq> [] \<and> (\<exists>r. get_run i st = Some r \<and> run_dedupKey r = Some k)"

definition dedup_ok :: "run_store \<Rightarrow> bool" where
  "dedup_ok st \<longleftrightarrow>
     (\<forall>k i. map_of (rs_byKey st) k = Some i \<longleftrightarrow> carries st k i) \<and> get_run [] st = None"

lemma dedup_okI:
  assumes "\<And>k i. map_of (rs_byKey st) k = Some i \<longleftrightarrow> carries st k i" and "get_run [] st = None"
  shows "dedup_ok st"
  using assms by (simp add: dedup_ok_def)

lemma dedup_okD:
  assumes "dedup_ok st"
  shows "map_of (rs_byKey st) k = Some i \<longleftrightarrow> carries st k i" and "get_run [] st = None"
  using assms by (simp_all add: dedup_ok_def)

lemma carries_unique: "dedup_ok st \<Longrightarrow> carries st k i \<Longrightarrow> carries st k j \<Longrightarrow> i = j"
  by (metis dedup_okD(1) option.inject)

lemma carries_frame [simp]:
  "carries (st\<lparr>rs_retryAfter := x\<rparr>) = carries st"
  "carries (st\<lparr>rs_byKey := y\<rparr>) = carries st"
  "carries (st\<lparr>rs_returned := u\<rparr>) = carries st"
  "carries (st\<lparr>rs_ledger := v\<rparr>) = carries st"
  "carries (settle i st) = carries st"
  by (simp_all add: carries_def fun_eq_iff)

lemma dedup_ok_frame [simp]:
  "dedup_ok (st\<lparr>rs_retryAfter := x\<rparr>) \<longleftrightarrow> dedup_ok st"
  "dedup_ok (st\<lparr>rs_returned := u\<rparr>) \<longleftrightarrow> dedup_ok st"
  "dedup_ok (st\<lparr>rs_ledger := v\<rparr>) \<longleftrightarrow> dedup_ok st"
  "dedup_ok (settle i st) \<longleftrightarrow> dedup_ok st"
  by (simp_all add: dedup_ok_def)

lemma dedup_ok_put:
  assumes "dedup_ok st" and "\<And>r. get_run i st = Some r \<Longrightarrow> run_dedupKey (f r) = run_dedupKey r"
  shows "dedup_ok (put_run i f st)"
proof (rule dedup_okI)
  have "carries (put_run i f st) k j \<longleftrightarrow> carries st k j" for k j
    using assms(2) by (cases "get_run i st") (auto simp: carries_def get_put_run)
  then show "map_of (rs_byKey (put_run i f st)) k = Some j \<longleftrightarrow> carries (put_run i f st) k j" for k j
    using dedup_okD(1) [OF assms(1)] by simp
  show "get_run [] (put_run i f st) = None"
    using dedup_okD(2) [OF assms(1)] by (simp add: get_put_run)
qed

lemma dedup_ok_lease: "dedup_ok st \<Longrightarrow> dedup_ok (snd (lease r w ttl now tok st))"
  by (auto simp: lease_def leased_def intro!: dedup_ok_put)

lemma dedup_ok_retire: "dedup_ok st \<Longrightarrow> dedup_ok (snd (retire i err retry opts now st))"
  by (auto simp: retire_def Let_def unleased_def intro!: dedup_ok_put split: option.splits)

text \<open>Dropping the key of a run that leaves the store, or that loses the key.\<close>

lemma dedup_ok_unkey:
  assumes ok: "dedup_ok st" and g: "get_run i st = Some r" and none: "get_run [] st' = None"
    and idx: "\<And>k'. map_of (rs_byKey st') k' =
       (if truthy (run_dedupKey r) \<and> run_dedupKey r = Some k' then None else map_of (rs_byKey st) k')"
    and car: "\<And>k' j. carries st' k' j \<longleftrightarrow> j \<noteq> i \<and> carries st k' j"
  shows "dedup_ok st'"
proof (rule dedup_okI)
  show "map_of (rs_byKey st') k' = Some j \<longleftrightarrow> carries st' k' j" for k' j
  proof (cases "carries st k' i")
    case True
    with g have "truthy (run_dedupKey r)" "run_dedupKey r = Some k'" by (auto simp: carries_def)
    moreover have "\<not> carries st' k' j" using car carries_unique [OF ok True] by blast
    ultimately show ?thesis by (simp add: idx)
  next
    case False
    with g have "\<not> (truthy (run_dedupKey r) \<and> run_dedupKey r = Some k')" by (auto simp: carries_def)
    then have "map_of (rs_byKey st') k' = map_of (rs_byKey st) k'" using idx by auto
    with False show ?thesis using dedup_okD(1) [OF ok] car by metis
  qed
qed (rule none)

lemma map_of_drop_key:
  "map_of (rs_byKey (drop_key r st)) k =
     (if truthy (run_dedupKey r) \<and> run_dedupKey r = Some k then None else map_of (rs_byKey st) k)"
  by (cases "run_dedupKey r") (auto simp: drop_key_def map_of_AList_delete)

lemma dedup_ok_remove:
  assumes "dedup_ok st" and g: "get_run i st = Some r"
  shows "dedup_ok (drop_key r (st\<lparr>rs_runs := AList.delete i (rs_runs st)\<rparr>))"
proof (rule dedup_ok_unkey [OF assms])
  show "get_run [] (drop_key r (st\<lparr>rs_runs := AList.delete i (rs_runs st)\<rparr>)) = None"
    using dedup_okD(2) [OF assms(1)] by (simp add: get_run_delete)
qed (auto simp: map_of_drop_key carries_def get_run_delete)

lemma dedup_ok_enqueue:
  assumes ok: "dedup_ok st" and new: "get_run uuid st = None" and "uuid \<noteq> []"
  shows "dedup_ok (snd (enqueue inp uuid now st))"
proof (cases "deduped_run inp st")
  case (Some r)
  with assms show ?thesis by (simp add: enqueue_def)
next
  case None
  let ?st = "snd (enqueue inp uuid now st)"
  have unused: "\<not> carries st k j" if k: "ei_dedupKey inp = Some k" "k \<noteq> []" for k j
  proof
    assume c: "carries st k j"
    with ok have "map_of (rs_byKey st) k = Some j" "j \<noteq> []" "get_run j st \<noteq> None"
      using dedup_okD [OF ok] by (auto simp: carries_def)
    with None k show False by (simp add: deduped_run_def)
  qed
  have get: "get_run j ?st = (if j = uuid then Some (new_run inp uuid now) else get_run j st)" for j
    using None by (simp add: enqueue_def Let_def get_run_update split: option.splits)
  have idx: "map_of (rs_byKey ?st) k = (if k \<noteq> [] \<and> ei_dedupKey inp = Some k then Some uuid else map_of (rs_byKey st) k)" for k
    using None by (auto simp: enqueue_def Let_def map_of_AList_update split: option.splits)
  have car: "carries ?st k j \<longleftrightarrow> (if j = uuid then k \<noteq> [] \<and> ei_dedupKey inp = Some k else carries st k j)" for k j
    by (simp add: carries_def get new_run_def)
  have fresh: "\<not> carries st k uuid" for k using new by (simp add: carries_def)
  show ?thesis
  proof (rule dedup_okI)
    show "map_of (rs_byKey ?st) k = Some j \<longleftrightarrow> carries ?st k j" for k j
      using dedup_okD(1) [OF ok, of k j] unused [of k] fresh [of k] by (auto simp: idx car)
    show "get_run [] ?st = None" using assms(3) dedup_okD(2) [OF ok] by (simp add: get)
  qed
qed

lemma dedup_ok_complete:
  assumes ok: "dedup_ok st"
  shows "dedup_ok (snd (complete i tok res now st))"
proof (cases "get_run i st")
  case None
  with ok show ?thesis by (simp add: complete_def)
next
  case (Some r)
  show ?thesis
  proof (cases "run_leaseToken r = Some tok \<and> releasesDedupKey res \<and> truthy (run_dedupKey r)")
    case False
    with ok Some show ?thesis by (auto simp: complete_def Let_def intro!: dedup_ok_put)
  next
    case True
    have "dedup_ok (put_run i (\<lambda>r. f r\<lparr>run_dedupKey := None\<rparr>) st
            \<lparr>rs_byKey := AList.delete (the (run_dedupKey r)) (rs_byKey st)\<rparr>)" for f
    proof (rule dedup_ok_unkey [OF ok Some])
      show "get_run [] (put_run i (\<lambda>r. f r\<lparr>run_dedupKey := None\<rparr>) st
            \<lparr>rs_byKey := AList.delete (the (run_dedupKey r)) (rs_byKey st)\<rparr>) = None"
        using dedup_okD(2) [OF ok] by (simp add: get_put_run)
    qed (use True Some in \<open>auto simp: carries_def get_put_run map_of_AList_delete truthy_def\<close>)
    with Some True show ?thesis
      by (simp add: complete_def Let_def put_run_byKey put_run_put_run)
  qed
qed

lemma dedup_ok_fail: "dedup_ok st \<Longrightarrow> dedup_ok (snd (fail_run i tok err retry ms now st))"
  using dedup_ok_retire [of st i err] by (auto simp: fail_run_def split: option.splits prod.splits) (metis snd_conv)

lemma dedup_ok_withdraw: "dedup_ok st \<Longrightarrow> dedup_ok (snd (withdraw i u st))"
proof -
  assume ok: "dedup_ok st"
  have "drop_key r (st\<lparr>rs_runs := x, rs_retryAfter := y\<rparr>) = (drop_key r (st\<lparr>rs_runs := x\<rparr>))\<lparr>rs_retryAfter := y\<rparr>" for r x y
    by (simp add: drop_key_def)
  with ok show ?thesis by (auto simp: withdraw_def dedup_ok_remove split: option.splits)
qed

lemma run_op_dedup_ok: "run_op st st' \<Longrightarrow> dedup_ok st \<Longrightarrow> dedup_ok st'"
proof (induction rule: run_op.induct)
  case op_enqueue
  then show ?case by (simp add: dedup_ok_enqueue)
next
  case op_complete
  then show ?case by (simp add: dedup_ok_complete)
next
  case op_fail
  then show ?case by (simp add: dedup_ok_fail)
next
  case op_withdraw
  then show ?case by (simp add: dedup_ok_withdraw)
next
  case op_retire
  then show ?case by (simp add: reap_retire_retire dedup_ok_retire)
qed (auto simp: claim_def claimById_def claimForSession_def heartbeat_def releaseLease_def
    noteTurnUserSeq_def setDeliveryState_def markReturned_def editPendingText_def reap_fence_def
    ledger_record_def intro!: dedup_ok_lease dedup_ok_put split: list.splits option.splits)

lemma dedup_ok_steer:
  assumes ok: "dedup_ok st" and "store_ok st"
  shows "dedup_ok (snd (steerQueued q t sig sendOk (\<lambda>st. st) st))"
proof (cases "steer_take q t sig st")
  case (Pair res st1)
  show ?thesis
  proof (cases res)
    case None
    with ok Pair show ?thesis by (simp add: steerQueued_def)
  next
    case (Some r)
    note taken = steer_take_cases [OF Pair [unfolded Some]]
    have idr: "run_id r = q" using assms(2) taken(1) by (rule store_okD)
    have "drop_key r (st\<lparr>rs_runs := x, rs_retryAfter := y\<rparr>) = (drop_key r (st\<lparr>rs_runs := x\<rparr>))\<lparr>rs_retryAfter := y\<rparr>" for x y
      by (simp add: drop_key_def)
    moreover have "dedup_ok (steer_restore r (st\<lparr>rs_runs := AList.delete q (rs_runs st)\<rparr>))"
    proof -
      have "get_run j (steer_restore r (st\<lparr>rs_runs := AList.delete q (rs_runs st)\<rparr>)) = get_run j st" for j
        using taken(1) idr by (simp add: steer_restore_def get_run_def map_of_AList_update map_of_AList_delete)
      with ok show ?thesis by (simp add: dedup_ok_def carries_def) (simp add: steer_restore_def)
    qed
    ultimately show ?thesis
      using Pair Some taken dedup_ok_remove [OF ok taken(1)]
      by (simp add: steerQueued_def steer_sent_def)
  qed
qed

text \<open>Runs of the store in which a \<open>steerQueued\<close> is not interrupted.\<close>

inductive run_serial :: "nat option \<Rightarrow> run_store \<Rightarrow> bool" for m where
  serial_init: "run_serial m (createMemoryRunStore m)"
| serial_op: "run_serial m st \<Longrightarrow> run_op st st' \<Longrightarrow> run_serial m st'"
| serial_steer: "run_serial m st \<Longrightarrow> run_serial m (snd (steerQueued q t sig sendOk (\<lambda>st. st) st))"

lemma steer_atomic_store_ok:
  assumes ok: "store_ok st"
  shows "store_ok (snd (steerQueued q t sig sendOk (\<lambda>st. st) st))"
proof (cases "steer_take q t sig st")
  case (Pair res st1)
  show ?thesis
  proof (cases res)
    case None
    with ok Pair show ?thesis by (simp add: steerQueued_def)
  next
    case (Some r)
    note taken = steer_take_cases [OF Pair [unfolded Some]]
    have r: "run_id r = q" "run_ok r" using ok taken(1) by (auto dest: store_okD)
    have del: "store_ok (st\<lparr>rs_runs := AList.delete q (rs_runs st)\<rparr>)"
      using ok taken by (intro store_ok_delete) (auto simp: isTerminal_def)
    moreover have "store_ok (steer_restore r (st\<lparr>rs_runs := AList.delete q (rs_runs st)\<rparr>))"
      unfolding steer_restore_def using store_ok_add [OF del, of q r] taken(2) r
      by (simp add: get_run_delete)
    ultimately show ?thesis using Pair Some taken by (simp add: steerQueued_def steer_sent_def)
  qed
qed

lemma serial_ok: "run_serial m st \<Longrightarrow> store_ok st \<and> dedup_ok st"
proof (induction rule: run_serial.induct)
  case serial_init
  show ?case
    using store_ok_empty [of m] by (simp add: dedup_ok_def carries_def createMemoryRunStore_def get_run_def)
next
  case (serial_op st st')
  then show ?case by (blast intro: run_op_store_ok run_op_dedup_ok)
next
  case (serial_steer st q t sig sendOk)
  then show ?case by (blast intro: steer_atomic_store_ok dedup_ok_steer)
qed

text \<open>an enqueue is idempotent in its deduplication key. As long as the run that carries the key
  is in the store under it, every further enqueue with the key returns that run, reports it as
  deduplicated and leaves the store unchanged; and no two runs carry the same key.\<close>

lemma enqueue_deduplicates:
  assumes "run_serial m st" and "get_run i st = Some r" and "run_dedupKey r = Some k" and "k \<noteq> []"
    and "ei_dedupKey inp = Some k"
  shows "enqueue inp uuid now st = ((r, True), st) \<and>
    (\<forall>j r'. get_run j st = Some r' \<and> run_dedupKey r' = Some k \<longrightarrow> j = i)"
proof -
  have ok: "dedup_ok st" using assms(1) by (blast dest: serial_ok)
  have c: "carries st k i" using assms by (simp add: carries_def)
  then have idx: "map_of (rs_byKey st) k = Some i" and "i \<noteq> []"
    using dedup_okD [OF ok] assms(2) by auto
  then have "enqueue inp uuid now st = ((r, True), st)"
    using assms by (simp add: enqueue_def deduped_run_def)
  moreover have "j = i" if "get_run j st = Some r'" "run_dedupKey r' = Some k" for j r'
    using carries_unique [OF ok _ c] that assms(4) by (auto simp: carries_def)
  ultimately show ?thesis by blast
qed

subsection \<open>The reaper\<close>

text \<open>What reaping one lapsed run does when nothing else touches the store meanwhile.\<close>

definition reap_requeues :: "time option \<Rightarrow> time \<Rightarrow> nat option \<Rightarrow> run \<Rightarrow> bool" where
  "reap_requeues maxAgeMs now maxClaims r \<longleftrightarrow>
     \<not> too_old maxAgeMs now r \<and> run_errorAttempts r < run_maxAttempts r \<and>
     (case maxClaims of None \<Rightarrow> True | Some n \<Rightarrow> run_attempts r < n)"

definition reaped :: "time option \<Rightarrow> time \<Rightarrow> nat option \<Rightarrow> run \<Rightarrow> run \<Rightarrow> bool" where
  "reaped maxAgeMs now maxClaims r r' \<longleftrightarrow>
     run_id r' = run_id r \<and> run_leaseToken r' = None \<and> run_workerId r' = None \<and>
     run_attempts r' = run_attempts r \<and> run_errorAttempts r' = run_errorAttempts r \<and>
     run_status r' = (if reap_requeues maxAgeMs now maxClaims r then Pending else Failed)"

lemma retire_frame [simp]:
  "rs_maxClaims (snd (retire i err retry opts now st)) = rs_maxClaims st"
  by (simp add: retire_def Let_def split: option.splits)

lemma reap_one:
  assumes ok: "store_ok st" and g: "get_run i st = Some r" and lapsed: "leaseLapsed r now"
  shows "\<exists>e st' r'. reap_fence i now tok st = (Some r, snd (reap_fence i now tok st)) \<and>
     reap_retire r ma now later (snd (reap_fence i now tok st)) = (Some e, st') \<and>
     re_runId e = i \<and> (re_outcome e = Requeued \<longleftrightarrow> reap_requeues ma now (rs_maxClaims st) r) \<and>
     get_run i st' = Some r' \<and> reaped ma now (rs_maxClaims st) r r' \<and>
     (\<forall>j. j \<noteq> i \<longrightarrow> get_run j st' = get_run j st) \<and> rs_maxClaims st' = rs_maxClaims st \<and> store_ok st'"
proof -
  let ?f = "\<lambda>r. r\<lparr>run_leaseToken := Some tok, run_leaseExpiresAt := Some (now + FENCE_HOLD_MS)\<rparr>"
  let ?st1 = "put_run i ?f st"
  have run: "run_status r = Running" and idr: "run_id r = i"
    using lapsed ok g by (auto simp: leaseLapsed_def dest: store_okD)
  have fence: "reap_fence i now tok st = (Some r, ?st1)" using g lapsed by (simp add: reap_fence_def)
  have g1: "get_run i ?st1 = Some (?f r)" using g by (simp add: get_put_run)
  obtain ev st' where ret: "reap_retire r ma now later ?st1 = (ev, st')" by fastforce
  have "store_ok st'"
    using reap_retire_ok [of ?st1 r ma now later] reap_fence_ok [OF ok, of i now tok] by (simp add: fence ret)
  then show ?thesis
    using ret fence g1 run idr
    by (auto simp: reap_retire_def Let_def retire_def retire_refused_def no_retire_opts_def errors_after_def
        overClaimed_def unleased_def get_put_run reap_requeues_def reaped_def not_le
        split: if_splits option.splits)
qed

lemma reap_loop_spec:
  assumes "store_ok st" and "distinct is"
    and "\<And>i. i \<in> set is \<Longrightarrow> \<exists>r. get_run i st = Some r \<and> leaseLapsed r now"
  shows "case reap_loop (\<lambda>_ st. st) ma now later fence is st of (evs, st') \<Rightarrow>
     map re_runId evs = is \<and>
     (\<forall>i r. get_run i st = Some r \<longrightarrow>
        (if i \<in> set is
         then \<exists>r'. get_run i st' = Some r' \<and> reaped ma now (rs_maxClaims st) r r'
         else get_run i st' = Some r))"
  using assms
proof (induction "is" arbitrary: st)
  case Nil
  then show ?case by simp
next
  case (Cons i "is")
  obtain r where r: "get_run i st = Some r" "leaseLapsed r now" using Cons.prems(3) by auto
  obtain e st1 r1 where one:
    "reap_fence i now (fence i) st = (Some r, snd (reap_fence i now (fence i) st))"
    "reap_retire r ma now later (snd (reap_fence i now (fence i) st)) = (Some e, st1)" "re_runId e = i"
    "get_run i st1 = Some r1" "reaped ma now (rs_maxClaims st) r r1"
    "\<And>j. j \<noteq> i \<Longrightarrow> get_run j st1 = get_run j st" "rs_maxClaims st1 = rs_maxClaims st" "store_ok st1"
    using reap_one [OF Cons.prems(1) r, of "fence i" ma later] by auto
  have "\<exists>r. get_run j st1 = Some r \<and> leaseLapsed r now" if "j \<in> set is" for j
  proof -
    from that Cons.prems(2) have "j \<noteq> i" by auto
    with one(6) [of j] Cons.prems(3) [of j] that show ?thesis by simp
  qed
  then have "case reap_loop (\<lambda>_ st. st) ma now later fence is st1 of (evs, st') \<Rightarrow>
     map re_runId evs = is \<and> (\<forall>i r. get_run i st1 = Some r \<longrightarrow>
        (if i \<in> set is then \<exists>r'. get_run i st' = Some r' \<and> reaped ma now (rs_maxClaims st1) r r'
         else get_run i st' = Some r))"
    using Cons.prems(2) one(8) by (intro Cons.IH) auto
  moreover obtain evs st2 where rest: "reap_loop (\<lambda>_ st. st) ma now later fence is st1 = (evs, st2)"
    by fastforce
  ultimately have evs: "map re_runId evs = is" and rest_runs: "\<And>j q. get_run j st1 = Some q \<Longrightarrow>
      (if j \<in> set is then \<exists>r'. get_run j st2 = Some r' \<and> reaped ma now (rs_maxClaims st) q r'
       else get_run j st2 = Some q)"
    unfolding one(7) [symmetric] by (simp_all only: rest prod.case) blast+
  have "reap_loop (\<lambda>_ st. st) ma now later fence (i # is) st = (e # evs, st2)"
    by (subst reap_loop.simps, subst one(1)) (simp add: one(2) rest)
  moreover have "if j \<in> set (i # is)
      then \<exists>r'. get_run j st2 = Some r' \<and> reaped ma now (rs_maxClaims st) q r' else get_run j st2 = Some q"
    if q: "get_run j st = Some q" for j q
  proof (cases "j = i")
    case True
    with q r Cons.prems(2) rest_runs [OF one(4)] one(5) show ?thesis by simp
  next
    case False
    with q one(6) have "get_run j st1 = Some q" by simp
    with rest_runs [OF this] False show ?thesis by simp
  qed
  ultimately show ?case using evs one(3) by simp
qed

lemma expired_ids:
  assumes ok: "store_ok st"
  shows "distinct (map run_id (filter P (map_values (rs_runs st)))) \<and>
    set (map run_id (filter P (map_values (rs_runs st)))) = {i. \<exists>r. get_run i st = Some r \<and> P r}"
proof
  have keys: "map run_id (map_values (rs_runs st)) = map fst (rs_runs st)"
    using ok unfolding map_values_def
    by (auto simp: store_ok_def get_run_def)
  then have "distinct (map run_id (map_values (rs_runs st)))"
    using ok by (simp add: store_ok_def)
  then show "distinct (map run_id (filter P (map_values (rs_runs st))))"
    by (rule distinct_map_filter)
  show "set (map run_id (filter P (map_values (rs_runs st)))) = {i. \<exists>r. get_run i st = Some r \<and> P r}"
    using values_get_run [OF ok] store_okD(1) [OF ok] by (auto simp: image_iff) metis
qed

text \<open>one sweep of the reaper clears every lapsed lease and touches nothing else. It reports one
  event per lapsed run; each such run loses its lease and its worker and is back in the queue, when
  it is not too old and has attempts and claims left, or failed; every other run is unchanged.\<close>

lemma reap_clears_lapsed:
  assumes "run_reachable m s"
  shows "case reapExpired (\<lambda>_ st. st) maxAgeMs now later fence (sys_store s) of
    ((requeued, parked, events), st') \<Rightarrow>
      requeued + parked = length events \<and>
      (\<forall>i. i \<in> re_runId ` set events \<longleftrightarrow>
         (\<exists>r. get_run i (sys_store s) = Some r \<and> leaseLapsed r now)) \<and>
      (\<forall>i r. get_run i (sys_store s) = Some r \<longrightarrow>
         (if leaseLapsed r now
          then \<exists>r'. get_run i st' = Some r' \<and> reaped maxAgeMs now (rs_maxClaims (sys_store s)) r r'
          else get_run i st' = Some r))"
proof -
  let ?st = "sys_store s"
  let ?ids = "map run_id (filter (\<lambda>r. leaseLapsed r now) (map_values (rs_runs ?st)))"
  have ok: "store_ok ?st" using assms by (rule reachable_store_ok)
  note ids = expired_ids [OF ok, of "\<lambda>r. leaseLapsed r now"]
  obtain evs st' where l: "reap_loop (\<lambda>_ st. st) maxAgeMs now later fence ?ids ?st = (evs, st')" by fastforce
  have "\<exists>r. get_run i ?st = Some r \<and> leaseLapsed r now" if "i \<in> set ?ids" for i
    using ids that by blast
  from reap_loop_spec [OF ok conjunct1 [OF ids] this, of maxAgeMs later fence]
  have evs: "map re_runId evs = ?ids" and runs: "\<And>i r. get_run i ?st = Some r \<Longrightarrow>
      (if i \<in> set ?ids then \<exists>r'. get_run i st' = Some r' \<and> reaped maxAgeMs now (rs_maxClaims ?st) r r'
       else get_run i st' = Some r)"
    by (simp_all add: l)
  have parts: "length (filter (\<lambda>e. re_outcome e = Requeued) evs) + length (filter (\<lambda>e. re_outcome e = Parked) evs) = length evs"
  proof (induction evs)
    case (Cons e evs)
    then show ?case by (cases "re_outcome e") auto
  qed simp
  have lapsed: "i \<in> set ?ids \<longleftrightarrow> (\<exists>r. get_run i ?st = Some r \<and> leaseLapsed r now)" for i
    using ids by blast
  moreover have "i \<in> re_runId ` set evs \<longleftrightarrow> i \<in> set ?ids" for i
    by (simp only: set_map [symmetric] evs)
  moreover have "if leaseLapsed r now
      then \<exists>r'. get_run i st' = Some r' \<and> reaped maxAgeMs now (rs_maxClaims ?st) r r'
      else get_run i st' = Some r" if "get_run i ?st = Some r" for i r
    using runs [OF that] lapsed [of i] that by (auto split: if_splits)
  moreover have "reapExpired (\<lambda>_ st. st) maxAgeMs now later fence ?st =
    ((length (filter (\<lambda>e. re_outcome e = Requeued) evs), length (filter (\<lambda>e. re_outcome e = Parked) evs), evs), st')"
    by (simp add: reapExpired_def Let_def l)
  ultimately show ?thesis using parts by simp
qed

subsection \<open>Witnesses\<close>

text \<open>A store with two runs of one session, the first of them claimed, reached step by step.\<close>

definition demo_request :: "string \<Rightarrow> orchestrator_input" where
  "demo_request t =
     \<lparr>oi_text = t, oi_displayText = None, oi_surface = Some ''web'', oi_deliveryTarget = Some ''t'',
      oi_privateSessionMessage = False, oi_swarm = False,
      oi_actor = \<lparr>p_id = ''u'', p_type = Internal, p_teamIds = None, p_displayName = None\<rparr>,
      oi_conversation = \<lparr>c_kind = DmConversation, c_threadRef = ''s'', c_channelRef = None,
        c_channelName = None, c_audience = [], c_isPrivate = None, c_isMpim = None,
        c_publishMembers = None\<rparr>,
      oi_origin = None\<rparr>"

definition demo_enqueue :: "string \<Rightarrow> enqueue_input" where
  "demo_enqueue k = \<lparr>ei_sessionId = ''s'', ei_request = demo_request ''hi'', ei_dedupKey = Some k, ei_maxAttempts = None\<rparr>"

definition demo_store1 :: run_store where
  "demo_store1 = snd (enqueue (demo_enqueue ''k1'') ''r1'' 1 (createMemoryRunStore None))"

definition demo_store2 :: run_store where
  "demo_store2 = snd (enqueue (demo_enqueue ''k2'') ''r2'' 2 demo_store1)"

definition demo_store3 :: run_store where
  "demo_store3 = snd (claim ''w'' 100 10 ''t1'' demo_store2)"

definition demo_store4 :: run_store where
  "demo_store4 = snd (complete ''r1'' ''t1'' (bare_result TOk) 20 demo_store3)"

definition demo_sys :: "run_store \<Rightarrow> run_system" where
  "demo_sys st = \<lparr>sys_store = st, sys_held = []\<rparr>"

lemma demo_step: "run_op st st' \<Longrightarrow> run_step (demo_sys st) (demo_sys st')"
  using run_step.step_op [of "demo_sys st" st'] by (simp add: demo_sys_def)

lemma demo_op1: "run_op (createMemoryRunStore None) demo_store1"
  unfolding demo_store1_def by (rule run_op.op_enqueue) code_simp+

lemma demo_op2: "run_op demo_store1 demo_store2"
  unfolding demo_store2_def by (rule run_op.op_enqueue) code_simp+

lemma demo_op3: "run_op demo_store2 demo_store3"
  unfolding demo_store3_def by (rule run_op.op_claim)

lemma demo_op4: "run_op demo_store3 demo_store4"
  unfolding demo_store4_def by (rule run_op.op_complete)

lemma demo_reachable:
  "run_reachable None (demo_sys demo_store2)" "run_reachable None (demo_sys demo_store3)"
  "run_reachable None (demo_sys demo_store4)"
proof -
  have "run_reachable None (demo_sys (createMemoryRunStore None))"
    unfolding demo_sys_def by (rule run_reachable.reach_init)
  note run_reachable.reach_step [OF this demo_step [OF demo_op1]]
  note r2 = run_reachable.reach_step [OF this demo_step [OF demo_op2]]
  note r3 = run_reachable.reach_step [OF r2 demo_step [OF demo_op3]]
  note r4 = run_reachable.reach_step [OF r3 demo_step [OF demo_op4]]
  show "run_reachable None (demo_sys demo_store2)" "run_reachable None (demo_sys demo_store3)"
    "run_reachable None (demo_sys demo_store4)" by (rule r2 r3 r4)+
qed

lemma demo_serial: "run_serial None demo_store2"
  by (rule run_serial.serial_op [OF run_serial.serial_op [OF run_serial.serial_init demo_op1] demo_op2])

lemma demo_store_demo_sys [simp]: "sys_store (demo_sys st) = st"
  by (simp add: demo_sys_def)

definition demo_run :: "string \<Rightarrow> run_store \<Rightarrow> run" where
  "demo_run i st = (case get_run i st of Some r \<Rightarrow> r | None \<Rightarrow> new_run (demo_enqueue []) [] 0)"

lemma demo_facts:
  "get_run ''r1'' demo_store3 = Some (demo_run ''r1'' demo_store3)"
  "run_status (demo_run ''r1'' demo_store3) = Running"
  "get_run ''r1'' demo_store4 = Some (demo_run ''r1'' demo_store4)"
  "isTerminal (run_status (demo_run ''r1'' demo_store4))"
  "get_run ''r1'' demo_store2 = Some (demo_run ''r1'' demo_store2)"
  "run_dedupKey (demo_run ''r1'' demo_store2) = Some ''k1''"
  "claim ''w'' 100 10 ''t1'' demo_store2 = (Some (demo_run ''r1'' demo_store3), demo_store3)"
  "holds_lease ''t1'' (demo_run ''r1'' demo_store3)"
  "run_id (demo_run ''r1'' demo_store3) = ''r1''"
  by code_simp+

theorem run_single_flight_witness:
  "get_run ''r1'' demo_store3 = Some (demo_run ''r1'' demo_store3) \<and>
   run_status (demo_run ''r1'' demo_store3) = Running \<and> ''r1'' = ''r1''"
  using run_single_flight [of None "demo_sys demo_store3" "''r1''" "demo_run ''r1'' demo_store3" "''r1''"
      "demo_run ''r1'' demo_store3"] demo_reachable demo_facts by simp


theorem claim_fifo_witness:
  "\<exists>r. get_run (run_id r) demo_store2 = Some r \<and> run_status r = Pending \<and>
     get_run (run_id r) demo_store3 = Some (demo_run ''r1'' demo_store3)"
  using claim_fifo [OF demo_reachable(1), where w = "''w''" and ttl = 100 and now = 10 and tok = "''t1''"] demo_facts(7) by auto

lemma terminal_notified_once_witness:
  "distinct (map run_id (rs_settled demo_store4)) \<and> ''r1'' \<in> run_id ` set (rs_settled demo_store4)"
  using terminal_notified_once [OF demo_reachable(3)] demo_facts(3,4) by auto

lemma finished_run_final_witness:
  "\<exists>r'. get_run ''r1'' (snd (claim ''w'' 5 40 ''t9'' demo_store4)) = Some r' \<and>
     outcome r' = outcome (demo_run ''r1'' demo_store4)"
proof -
  have g: "get_run ''r1'' (sys_store (demo_sys demo_store4)) = Some (demo_run ''r1'' demo_store4)"
    by (simp add: demo_facts)
  show ?thesis
    using finished_run_final [OF demo_reachable(3) demo_step [OF run_op.op_claim [of _ "''w''" 5 40 "''t9''"]] g demo_facts(4)]
    by simp
qed

lemma run_record_consistent_witness:
  "run_id (demo_run ''r1'' demo_store3) = ''r1'' \<and> run_leaseToken (demo_run ''r1'' demo_store3) \<noteq> None"
  using run_record_consistent [of None "demo_sys demo_store3" "''r1''" "demo_run ''r1'' demo_store3"]
    demo_reachable demo_facts by simp

lemma fail_agrees_with_errorParks_witness:
  "fst (fail_run ''r1'' ''t1'' ''boom'' None (Some 1000) 30 demo_store3) \<and>
   sessionUnavailable ''s'' 1000 (snd (fail_run ''r1'' ''t1'' ''boom'' None (Some 1000) 30 demo_store3))"
proof -
  have e: "\<not> errorParks (demo_run ''r1'' demo_store3) (rs_maxClaims demo_store3)"
    "run_sessionId (demo_run ''r1'' demo_store3) = ''s''" by code_simp+
  have n: "(None :: bool option) \<noteq> Some False" by simp
  show ?thesis
    using fail_agrees_with_errorParks [OF demo_facts(1,8) n demo_facts(9), where err = "''boom''" and ms = "Some 1000" and now = 30] e
    by (auto split: prod.splits)
qed

lemma enqueue_deduplicates_witness:
  "enqueue (demo_enqueue ''k1'') ''r9'' 50 demo_store2 = ((demo_run ''r1'' demo_store2, True), demo_store2)"
proof -
  have k: "''k1'' \<noteq> []" and i: "ei_dedupKey (demo_enqueue ''k1'') = Some ''k1''"
    by (simp_all add: demo_enqueue_def)
  show ?thesis
    using enqueue_deduplicates [OF demo_serial demo_facts(5,6) k i] by blast
qed

lemma reap_clears_lapsed_witness:
  "\<exists>r'. get_run ''r1'' (snd (reapExpired (\<lambda>_ st. st) None 500 501 (\<lambda>i. ''f'') demo_store3)) = Some r' \<and>
     run_status r' = Pending \<and> run_leaseToken r' = None"
proof -
  have l: "leaseLapsed (demo_run ''r1'' demo_store3) 500"
    "reap_requeues None 500 (rs_maxClaims demo_store3) (demo_run ''r1'' demo_store3)" by code_simp+
  obtain x st' where st': "reapExpired (\<lambda>_ st. st) None 500 501 (\<lambda>i. ''f'') demo_store3 = (x, st')" by fastforce
  have "\<exists>r'. get_run ''r1'' st' = Some r' \<and> reaped None 500 (rs_maxClaims demo_store3) (demo_run ''r1'' demo_store3) r'"
    using reap_clears_lapsed [OF demo_reachable(2), where maxAgeMs = None and now = 500 and later = 501 and fence = "\<lambda>i. ''f''",
        unfolded demo_store_demo_sys st'] l(1) demo_facts(1)
    by (cases x) force
  with l(2) show ?thesis by (auto simp: st' reaped_def)
qed

end
