(* ===== verification/Run_Signals.thy ===== *)
theory Run_Signals
  imports Core_Types
begin

text \<open>
  Signals to running turns: the in-memory store and the poll loop of \<^verbatim>\<open>src/src/runs/run-signal-store.ts\<close>, and the
  Postgres store of \<^verbatim>\<open>src/src/runs/postgres-run-signal-store.ts\<close>. A turn is steered or aborted by signals that wait
  in the store until the poll loop hands them to the turn and acknowledges them. The locale \<open>signal_log\<close>
  states what the loop relies on; both stores are interpretations of it, so that the results on the loop hold
  for either. Random identifiers are supplied from outside; Postgres identifiers are drawn from a sequence.
\<close>

subsection \<open>Signals\<close>

datatype run_signal_kind = AbortSignal | SteerSignal

text \<open>Of the turn request that a signal may carry, the fields the stores and the loop read.\<close>

record signal_request =
  rq_actor :: "string option"       \<comment> \<open>\<open>actor.externalId\<close>\<close>
  rq_attachments :: "string list"

record run_signal =
  sg_kind :: run_signal_kind
  sg_text :: "string option"
  sg_ts :: "string option"
  sg_request :: "signal_request option"
  sg_dedupeKey :: "string option"
  sg_queuedRunId :: "string option"

subsection \<open>In memory\<close>

definition MAX_MEMORY_DEDUPE_KEYS :: nat where "MAX_MEMORY_DEDUPE_KEYS = 10000"

text \<open>
  A pending signal is stored with the receipt that the weak map assigns to it; \<open>ms_receipts\<close> are the receipts
  assigned so far.
\<close>

record signal_store =
  ms_pending :: "(string \<times> run_signal) list js_map"
  ms_receipts :: "string list"
  ms_authors :: "(time \<times> string) list js_map"
  ms_listeners :: "string list js_map"
  ms_dedupeKeys :: "string list"

definition empty_signals :: signal_store where
  "empty_signals = \<lparr>ms_pending = [], ms_receipts = [], ms_authors = [], ms_listeners = [], ms_dedupeKeys = []\<rparr>"

definition list_at :: "string \<Rightarrow> 'a list js_map \<Rightarrow> 'a list" where
  "list_at k m = (case map_of m k of Some xs \<Rightarrow> xs | None \<Rightarrow> [])"

definition remember_key :: "string \<Rightarrow> string list \<Rightarrow> string list" where
  "remember_key k ks = (let ks' = ks @ [k] in if MAX_MEMORY_DEDUPE_KEYS < length ks' then tl ks' else ks')"

definition steer_author :: "run_signal \<Rightarrow> string option" where
  "steer_author g =
     (if sg_kind g = SteerSignal then
        (case Option.bind (sg_request g) rq_actor of Some a \<Rightarrow> if a = [] then None else Some a | None \<Rightarrow> None)
      else None)"

definition ms_store :: "string \<Rightarrow> run_signal \<Rightarrow> string \<Rightarrow> time \<Rightarrow> signal_store \<Rightarrow> signal_store" where
  "ms_store runId g uuid now st =
     (let st1 = st\<lparr>ms_pending := AList.update runId (list_at runId (ms_pending st) @ [(uuid, g)]) (ms_pending st),
                   ms_receipts := ms_receipts st @ [uuid]\<rparr> in
      case steer_author g of
        None \<Rightarrow> st1
      | Some a \<Rightarrow> st1\<lparr>ms_authors := AList.update runId (list_at runId (ms_authors st) @ [(now, a)]) (ms_authors st)\<rparr>)"

definition ms_send :: "string \<Rightarrow> run_signal \<Rightarrow> string \<Rightarrow> time \<Rightarrow> signal_store \<Rightarrow> bool \<times> signal_store" where
  "ms_send runId g uuid now st =
     (case sg_dedupeKey g of
        Some k \<Rightarrow>
          if k = [] then (True, ms_store runId g uuid now st)
          else if k \<in> set (ms_dedupeKeys st) then (False, st)
          else (True, ms_store runId g uuid now (st\<lparr>ms_dedupeKeys := remember_key k (ms_dedupeKeys st)\<rparr>))
      | None \<Rightarrow> (True, ms_store runId g uuid now st))"

text \<open>The callbacks that a successful \<open>send\<close> calls.\<close>

definition ms_rung :: "string \<Rightarrow> signal_store \<Rightarrow> string list" where
  "ms_rung runId st = list_at runId (ms_listeners st)"

definition ms_hasDedupeKey :: "string \<Rightarrow> signal_store \<Rightarrow> bool" where
  "ms_hasDedupeKey k st \<longleftrightarrow> k \<in> set (ms_dedupeKeys st)"

definition ms_steerAuthors :: "string \<Rightarrow> signal_store \<Rightarrow> string list" where
  "ms_steerAuthors runId st = uniq (map snd (list_at runId (ms_authors st)))"

definition ms_pending_of :: "string \<Rightarrow> signal_store \<Rightarrow> (string \<times> run_signal) list" where
  "ms_pending_of runId st = list_at runId (ms_pending st)"

definition ms_acknowledge :: "string \<Rightarrow> string \<Rightarrow> signal_store \<Rightarrow> signal_store" where
  "ms_acknowledge runId i st =
     (let remaining = filter (\<lambda>e. fst e \<noteq> i) (list_at runId (ms_pending st)) in
      st\<lparr>ms_pending := (if remaining \<noteq> [] then AList.update runId remaining (ms_pending st)
                        else AList.delete runId (ms_pending st))\<rparr>)"

definition ms_takePending :: "string \<Rightarrow> signal_store \<Rightarrow> run_signal list \<times> signal_store" where
  "ms_takePending runId st =
     (map snd (list_at runId (ms_pending st)), st\<lparr>ms_pending := AList.delete runId (ms_pending st)\<rparr>)"

definition ms_pendingRunIds :: "signal_store \<Rightarrow> string list" where
  "ms_pendingRunIds st = map fst (ms_pending st)"

fun prune_authors :: "time \<Rightarrow> (time \<times> string) list js_map \<Rightarrow> (time \<times> string) list js_map" where
  "prune_authors cutoff [] = []"
| "prune_authors cutoff ((r, xs) # m) =
     (let kept = filter (\<lambda>x. cutoff \<le> fst x) xs in
      if kept \<noteq> [] then (r, kept) # prune_authors cutoff m else prune_authors cutoff m)"

definition ms_prune :: "time \<Rightarrow> time \<Rightarrow> signal_store \<Rightarrow> signal_store" where
  "ms_prune now olderThanMs st = st\<lparr>ms_authors := prune_authors (now - olderThanMs) (ms_authors st)\<rparr>"

definition ms_onSignal :: "string \<Rightarrow> string \<Rightarrow> signal_store \<Rightarrow> signal_store" where
  "ms_onSignal runId cb st =
     st\<lparr>ms_listeners := AList.update runId (uniq (list_at runId (ms_listeners st) @ [cb])) (ms_listeners st)\<rparr>"

definition ms_unsubscribe :: "string \<Rightarrow> string \<Rightarrow> signal_store \<Rightarrow> signal_store" where
  "ms_unsubscribe runId cb st =
     (let left = removeAll cb (list_at runId (ms_listeners st)) in
      st\<lparr>ms_listeners := (if left = [] then AList.delete runId (ms_listeners st)
                          else AList.update runId left (ms_listeners st))\<rparr>)"

subsection \<open>In Postgres\<close>

record signal_row =
  sr_id :: nat
  sr_runId :: string
  sr_kind :: run_signal_kind
  sr_text :: "string option"
  sr_payload :: "run_signal option"
  sr_createdAt :: time
  sr_consumedAt :: "time option"
  sr_dedupeKey :: "string option"

record signal_table =
  st_rows :: "signal_row list"
  st_nextId :: nat

definition row_signal :: "signal_row \<Rightarrow> run_signal" where
  "row_signal r =
     (case sr_payload r of
        Some g \<Rightarrow> g
      | None \<Rightarrow> \<lparr>sg_kind = sr_kind r, sg_text = sr_text r, sg_ts = None, sg_request = None, sg_dedupeKey = None,
                  sg_queuedRunId = None\<rparr>)"

definition toSignals :: "signal_row list \<Rightarrow> run_signal list" where
  "toSignals rows = map row_signal (sort_key sr_id rows)"

definition ps_send :: "string \<Rightarrow> run_signal \<Rightarrow> time \<Rightarrow> signal_table \<Rightarrow> bool \<times> signal_table" where
  "ps_send runId g now db =
     (if sg_dedupeKey g \<noteq> None \<and> list_ex (\<lambda>r. sr_dedupeKey r = sg_dedupeKey g) (st_rows db)
      then (False, db\<lparr>st_nextId := st_nextId db + 1\<rparr>)
      else
        (True,
         \<lparr>st_rows = st_rows db @
            [\<lparr>sr_id = st_nextId db, sr_runId = runId, sr_kind = sg_kind g, sr_text = sg_text g, sr_payload = Some g,
              sr_createdAt = now, sr_consumedAt = None, sr_dedupeKey = sg_dedupeKey g\<rparr>],
          st_nextId = st_nextId db + 1\<rparr>))"

definition ps_hasDedupeKey :: "string \<Rightarrow> signal_table \<Rightarrow> bool" where
  "ps_hasDedupeKey k db = list_ex (\<lambda>r. sr_dedupeKey r = Some k) (st_rows db)"

definition ps_steerAuthors :: "string \<Rightarrow> signal_table \<Rightarrow> string list" where
  "ps_steerAuthors runId db =
     uniq (filter (\<lambda>a. a \<noteq> [])
       (List.map_filter (\<lambda>r. Option.bind (Option.bind (sr_payload r) sg_request) rq_actor)
          (filter (\<lambda>r. sr_runId r = runId \<and> sr_kind r = SteerSignal \<and> sr_payload r \<noteq> None) (st_rows db))))"

definition unconsumed :: "string \<Rightarrow> signal_row \<Rightarrow> bool" where
  "unconsumed runId r \<longleftrightarrow> sr_runId r = runId \<and> sr_consumedAt r = None"

definition ps_pending_of :: "string \<Rightarrow> signal_table \<Rightarrow> (string \<times> run_signal) list" where
  "ps_pending_of runId db =
     map (\<lambda>r. (nat_digits (sr_id r), row_signal r)) (sort_key sr_id (filter (unconsumed runId) (st_rows db)))"

definition consume :: "time \<Rightarrow> signal_row \<Rightarrow> signal_row" where
  "consume now r = r\<lparr>sr_consumedAt := Some now\<rparr>"

definition ps_acknowledge :: "string \<Rightarrow> string \<Rightarrow> time \<Rightarrow> signal_table \<Rightarrow> signal_table" where
  "ps_acknowledge runId i now db =
     db\<lparr>st_rows := map (\<lambda>r. if unconsumed runId r \<and> nat_digits (sr_id r) = i then consume now r else r) (st_rows db)\<rparr>"

definition ps_takePending :: "string \<Rightarrow> time \<Rightarrow> signal_table \<Rightarrow> run_signal list \<times> signal_table" where
  "ps_takePending runId now db =
     (toSignals (filter (unconsumed runId) (st_rows db)),
      db\<lparr>st_rows := map (\<lambda>r. if unconsumed runId r then consume now r else r) (st_rows db)\<rparr>)"

definition ps_pendingRunIds :: "signal_table \<Rightarrow> string list" where
  "ps_pendingRunIds db = uniq (map sr_runId (filter (\<lambda>r. sr_consumedAt r = None) (st_rows db)))"

definition ps_prune :: "time \<Rightarrow> time \<Rightarrow> signal_table \<Rightarrow> signal_table" where
  "ps_prune now olderThanMs db =
     db\<lparr>st_rows := filter (\<lambda>r. case sr_consumedAt r of Some t \<Rightarrow> now - olderThanMs \<le> t | None \<Rightarrow> True) (st_rows db)\<rparr>"

subsection \<open>The poll loop\<close>

text \<open>The operations of a store, as the loop and the senders use them.\<close>

record 's signal_ops =
  op_pending :: "string \<Rightarrow> 's \<Rightarrow> (string \<times> run_signal) list"
  op_send :: "string \<Rightarrow> run_signal \<Rightarrow> string \<Rightarrow> time \<Rightarrow> 's \<Rightarrow> bool \<times> 's"
  op_acknowledge :: "string \<Rightarrow> string \<Rightarrow> time \<Rightarrow> 's \<Rightarrow> 's"
  op_take :: "string \<Rightarrow> time \<Rightarrow> 's \<Rightarrow> 's"

definition memory_ops :: "signal_store signal_ops" where
  "memory_ops =
     \<lparr>op_pending = ms_pending_of, op_send = ms_send, op_acknowledge = (\<lambda>r i now. ms_acknowledge r i),
      op_take = (\<lambda>r now st. snd (ms_takePending r st))\<rparr>"

definition postgres_ops :: "signal_table signal_ops" where
  "postgres_ops =
     \<lparr>op_pending = ps_pending_of, op_send = (\<lambda>r g uuid. ps_send r g), op_acknowledge = ps_acknowledge,
      op_take = (\<lambda>r now db. snd (ps_takePending r now db))\<rparr>"

datatype handler_answer = Answered | AnswerDeclined | AnswerThrows

datatype poll_event = CalledAbort | CalledSteer string run_signal | Acknowledged string

record poll =
  po_draining :: bool
  po_queue :: "(string \<times> run_signal) list"
  po_abortDelivered :: bool
  po_declined :: "string list"
  po_log :: "poll_event list"

definition idle_poll :: poll where
  "idle_poll = \<lparr>po_draining = False, po_queue = [], po_abortDelivered = False, po_declined = [], po_log = []\<rparr>"

definition has_content :: "run_signal \<Rightarrow> bool" where
  "has_content g \<longleftrightarrow>
     truthy (sg_text g) \<or> (case sg_request g of Some q \<Rightarrow> rq_attachments q \<noteq> [] | None \<Rightarrow> False)"

definition logged :: "poll_event \<Rightarrow> poll \<Rightarrow> poll" where
  "logged e p = p\<lparr>po_log := po_log p @ [e]\<rparr>"

text \<open>
  The treatment of one pending signal. \<open>answer\<close> is what the handler does with it, \<open>ackFails\<close> whether the
  acknowledgement throws.
\<close>

definition poll_ack ::
  "'s signal_ops \<Rightarrow> string \<Rightarrow> time \<Rightarrow> bool \<Rightarrow> string \<Rightarrow> poll \<times> 's \<Rightarrow> poll \<times> 's" where
  "poll_ack ops runId now ackFails i ps =
     (if ackFails then ps else (logged (Acknowledged i) (fst ps), op_acknowledge ops runId i now (snd ps)))"

definition poll_entry ::
  "'s signal_ops \<Rightarrow> string \<Rightarrow> time \<Rightarrow> handler_answer \<Rightarrow> bool \<Rightarrow> string \<times> run_signal \<Rightarrow> poll \<times> 's \<Rightarrow> poll \<times> 's" where
  "poll_entry ops runId now answer ackFails e ps =
     (let (i, g) = e; (p, s) = ps in
      if sg_kind g = AbortSignal then
        (if po_abortDelivered p then ps
         else ((logged CalledAbort p)\<lparr>po_abortDelivered := answer \<noteq> AnswerThrows\<rparr>, s))
      else if i \<in> set (po_declined p) then ps
      else if has_content g then
        (let p' = logged (CalledSteer i g) p in
         case answer of
           AnswerDeclined \<Rightarrow> (p'\<lparr>po_declined := po_declined p @ [i]\<rparr>, s)
         | AnswerThrows \<Rightarrow> (p', s)
         | Answered \<Rightarrow> poll_ack ops runId now ackFails i (p', s))
      else poll_ack ops runId now ackFails i ps)"

definition poll_start :: "'s signal_ops \<Rightarrow> string \<Rightarrow> poll \<times> 's \<Rightarrow> poll \<times> 's" where
  "poll_start ops runId ps =
     ((fst ps)\<lparr>po_draining := True, po_queue := op_pending ops runId (snd ps), po_abortDelivered := False\<rparr>, snd ps)"

text \<open>
  The loop beside its senders. Each signal is handled between two awaits, so that sends, and other callers
  that empty the queue, interleave with a drain.
\<close>

inductive poll_step :: "('s \<Rightarrow> string \<Rightarrow> bool) \<Rightarrow> 's signal_ops \<Rightarrow> string \<Rightarrow> poll \<times> 's \<Rightarrow> poll \<times> 's \<Rightarrow> bool"
  for fresh ops runId where
  sent: "fresh s uuid \<Longrightarrow> poll_step fresh ops runId (p, s) (p, snd (op_send ops r g uuid now s))"
| taken: "poll_step fresh ops runId (p, s) (p, op_take ops r now s)"
| started: "\<not> po_draining p \<Longrightarrow> poll_step fresh ops runId (p, s) (poll_start ops runId (p, s))"
| entry: "po_draining p \<Longrightarrow> po_queue p = e # q \<Longrightarrow>
    poll_step fresh ops runId (p, s) (poll_entry ops runId now answer ackFails e (p\<lparr>po_queue := q\<rparr>, s))"
| finished: "po_draining p \<Longrightarrow> po_queue p = [] \<Longrightarrow> poll_step fresh ops runId (p, s) (p\<lparr>po_draining := False\<rparr>, s)"

text \<open>One drain from start to end, nothing else happening: \<open>answer\<close> and \<open>ackFails\<close> by identifier.\<close>

fun drain_queue ::
  "'s signal_ops \<Rightarrow> string \<Rightarrow> time \<Rightarrow> (string \<Rightarrow> handler_answer) \<Rightarrow> (string \<Rightarrow> bool) \<Rightarrow> (string \<times> run_signal) list \<Rightarrow>
   poll \<times> 's \<Rightarrow> poll \<times> 's" where
  "drain_queue ops runId now answer ackFails [] ps = ((fst ps)\<lparr>po_queue := [], po_draining := False\<rparr>, snd ps)"
| "drain_queue ops runId now answer ackFails (e # q) ps =
     drain_queue ops runId now answer ackFails q
       (poll_entry ops runId now (answer (fst e)) (ackFails (fst e)) e ((fst ps)\<lparr>po_queue := q\<rparr>, snd ps))"

definition drain ::
  "'s signal_ops \<Rightarrow> string \<Rightarrow> time \<Rightarrow> (string \<Rightarrow> handler_answer) \<Rightarrow> (string \<Rightarrow> bool) \<Rightarrow> poll \<times> 's \<Rightarrow> poll \<times> 's" where
  "drain ops runId now answer ackFails ps =
     (if po_draining (fst ps) then ps
      else drain_queue ops runId now answer ackFails (op_pending ops runId (snd ps)) (poll_start ops runId ps))"

subsection \<open>What the loop relies on\<close>

definition event_about :: "string \<Rightarrow> poll_event \<Rightarrow> bool" where
  "event_about i e = (case e of CalledAbort \<Rightarrow> False | CalledSteer j g \<Rightarrow> j = i | Acknowledged j \<Rightarrow> j = i)"

definition acked :: "poll_event list \<Rightarrow> string set" where
  "acked es = {i. Acknowledged i \<in> set es}"

definition handled_once :: "poll_event list \<Rightarrow> bool" where
  "handled_once es \<longleftrightarrow> (\<forall>xs i ys. es = xs @ Acknowledged i # ys \<longrightarrow> \<not> list_ex (event_about i) ys)"

lemma acked_append [simp]: "acked (xs @ ys) = acked xs \<union> acked ys"
  by (auto simp: acked_def)

lemma acked_simps [simp]:
  "acked [] = {}" "acked (CalledAbort # es) = acked es" "acked (CalledSteer i g # es) = acked es"
  "acked (Acknowledged i # es) = insert i (acked es)"
  by (auto simp: acked_def)

lemma handled_once_snoc:
  assumes "handled_once es" "\<forall>i \<in> acked es. \<not> event_about i e"
  shows "handled_once (es @ [e])"
  unfolding handled_once_def
proof (intro allI impI)
  fix xs i ys
  assume eq: "es @ [e] = xs @ Acknowledged i # ys"
  show "\<not> list_ex (event_about i) ys"
  proof (cases ys rule: rev_cases)
    case (snoc zs z)
    then have "es = xs @ Acknowledged i # zs" "z = e" using eq by auto
    then show ?thesis using assms snoc by (auto simp: handled_once_def)
  qed simp
qed

locale signal_log =
  fixes ops :: "'s signal_ops"
    and inv :: "'s \<Rightarrow> bool"
    and issued :: "'s \<Rightarrow> string set"
    and fresh :: "'s \<Rightarrow> string \<Rightarrow> bool"
  assumes send_inv: "inv s \<Longrightarrow> fresh s u \<Longrightarrow> inv (snd (op_send ops r g u now s))"
    and send_accepted: "inv s \<Longrightarrow> fresh s u \<Longrightarrow> op_send ops r g u now s = (True, s') \<Longrightarrow>
      \<exists>i. i \<notin> issued s \<and> issued s' = insert i (issued s) \<and> op_pending ops r s' = op_pending ops r s @ [(i, g)] \<and>
          (\<forall>r'. r' \<noteq> r \<longrightarrow> op_pending ops r' s' = op_pending ops r' s)"
    and send_refused: "inv s \<Longrightarrow> op_send ops r g u now s = (False, s') \<Longrightarrow>
      issued s \<subseteq> issued s' \<and> (\<forall>r'. op_pending ops r' s' = op_pending ops r' s)"
    and ack_inv: "inv s \<Longrightarrow> inv (op_acknowledge ops r i now s)"
    and ack_pending: "inv s \<Longrightarrow> op_pending ops r' (op_acknowledge ops r i now s) =
      (if r' = r then filter (\<lambda>e. fst e \<noteq> i) (op_pending ops r s) else op_pending ops r' s)"
    and ack_issued: "inv s \<Longrightarrow> issued (op_acknowledge ops r i now s) = issued s"
    and take_inv: "inv s \<Longrightarrow> inv (op_take ops r now s)"
    and take_pending: "inv s \<Longrightarrow> op_pending ops r' (op_take ops r now s) = (if r' = r then [] else op_pending ops r' s)"
    and take_issued: "inv s \<Longrightarrow> issued (op_take ops r now s) = issued s"
    and pending_issued: "inv s \<Longrightarrow> fst ` set (op_pending ops r s) \<subseteq> issued s"
    and pending_distinct: "inv s \<Longrightarrow> distinct (map fst (op_pending ops r s))"
begin

definition poll_ok :: "string \<Rightarrow> poll \<times> 's \<Rightarrow> bool" where
  "poll_ok r ps \<longleftrightarrow>
     inv (snd ps) \<and> handled_once (po_log (fst ps)) \<and> acked (po_log (fst ps)) \<subseteq> issued (snd ps) \<and>
     fst ` set (po_queue (fst ps)) \<subseteq> issued (snd ps) \<and> distinct (map fst (po_queue (fst ps))) \<and>
     acked (po_log (fst ps)) \<inter> fst ` set (po_queue (fst ps)) = {} \<and>
     acked (po_log (fst ps)) \<inter> fst ` set (op_pending ops r (snd ps)) = {}"

lemma send_facts:
  assumes "inv s" "fresh s u"
  shows "issued s \<subseteq> issued (snd (op_send ops r g u now s))"
    "fst ` set (op_pending ops r' (snd (op_send ops r g u now s))) \<subseteq>
       fst ` set (op_pending ops r' s) \<union> (issued (snd (op_send ops r g u now s)) - issued s)"
proof -
  obtain b s' where s': "op_send ops r g u now s = (b, s')" by fastforce
  have "issued s \<subseteq> issued s' \<and> fst ` set (op_pending ops r' s') \<subseteq> fst ` set (op_pending ops r' s) \<union> (issued s' - issued s)"
  proof (cases b)
    case True
    then show ?thesis using send_accepted [OF assms, of r g now s'] s' by (cases "r' = r") auto
  next
    case False
    then show ?thesis using send_refused [OF assms(1), of r g u now s'] s' by auto
  qed
  then show "issued s \<subseteq> issued (snd (op_send ops r g u now s))"
    "fst ` set (op_pending ops r' (snd (op_send ops r g u now s))) \<subseteq>
       fst ` set (op_pending ops r' s) \<union> (issued (snd (op_send ops r g u now s)) - issued s)"
    using s' by auto
qed

lemma entry_ok:
  assumes "poll_ok r (p, s)" "po_queue p = e # q"
  shows "poll_ok r (poll_entry ops r now answer ackFails e (p\<lparr>po_queue := q\<rparr>, s))"
proof -
  obtain i g where e: "e = (i, g)" by fastforce
  have i: "i \<notin> acked (po_log p)" "i \<in> issued s" "i \<notin> fst ` set q" using assms e by (auto simp: poll_ok_def)
  have once: "handled_once (po_log p @ [x])" if "x \<in> {CalledAbort, CalledSteer i g, Acknowledged i}" for x
    using assms(1) i that by (intro handled_once_snoc) (auto simp: poll_ok_def event_about_def)
  have once2: "handled_once (po_log p @ [CalledSteer i g, Acknowledged i])"
    using handled_once_snoc [OF once [of "CalledSteer i g"], of "Acknowledged i"] i by (auto simp: event_about_def)
  show ?thesis
    using assms e i once once2 ack_inv [of s r i now] ack_pending [of s r r i now] ack_issued [of s r i now]
    by (auto simp: poll_ok_def poll_entry_def poll_ack_def logged_def Let_def split: handler_answer.splits)
qed

lemma step_ok:
  assumes "poll_step fresh ops r ps ps'" "poll_ok r ps"
  shows "poll_ok r ps'"
  using assms
proof cases
  case (sent s uuid p r' g now)
  let ?s = "snd (op_send ops r' g uuid now s)"
  have ok: "inv s" "acked (po_log p) \<subseteq> issued s" "acked (po_log p) \<inter> fst ` set (op_pending ops r s) = {}"
    "fst ` set (po_queue p) \<subseteq> issued s"
    using assms(2) sent by (auto simp: poll_ok_def)
  have grow: "issued s \<subseteq> issued ?s" "fst ` set (op_pending ops r ?s) \<subseteq> fst ` set (op_pending ops r s) \<union> (issued ?s - issued s)"
    using send_facts [OF ok(1) sent(3)] by auto
  have "acked (po_log p) \<inter> fst ` set (op_pending ops r ?s) = {}" using grow(2) ok(2,3) by blast
  moreover have "acked (po_log p) \<subseteq> issued ?s" "fst ` set (po_queue p) \<subseteq> issued ?s" using grow(1) ok by blast+
  ultimately show ?thesis
    using assms(2) sent send_inv [OF ok(1) sent(3), of r' g now] unfolding poll_ok_def by simp
next
  case (taken p s r' now)
  then show ?thesis
    using assms(2) by (auto simp: poll_ok_def take_inv take_pending take_issued)
next
  case (started p s)
  then show ?thesis
    using assms(2) pending_issued [of s r] pending_distinct [of s r] by (auto simp: poll_ok_def poll_start_def)
next
  case (entry p e q s now answer ackFails)
  then show ?thesis using entry_ok assms(2) by blast
next
  case (finished p s)
  then show ?thesis using assms(2) by (simp add: poll_ok_def)
qed

lemma reachable_ok: "(poll_step fresh ops r)\<^sup>*\<^sup>* (idle_poll, s) ps \<Longrightarrow> inv s \<Longrightarrow> poll_ok r ps"
proof (induction rule: rtranclp_induct)
  case base
  then show ?case by (simp add: poll_ok_def idle_poll_def handled_once_def acked_def)
next
  case (step y z)
  then show ?case using step_ok by blast
qed

end

subsection \<open>The in-memory store\<close>

definition ms_ok :: "signal_store \<Rightarrow> bool" where
  "ms_ok st \<longleftrightarrow>
     (\<forall>r. distinct (map fst (list_at r (ms_pending st))) \<and> fst ` set (list_at r (ms_pending st)) \<subseteq> set (ms_receipts st))"

definition ms_fresh :: "signal_store \<Rightarrow> string \<Rightarrow> bool" where
  "ms_fresh st uuid \<longleftrightarrow> uuid \<notin> set (ms_receipts st)"

lemma list_at_update [simp]: "list_at k (AList.update r v m) = (if k = r then v else list_at k m)"
  by (simp add: list_at_def js_map_simps)

lemma list_at_delete [simp]: "list_at k (AList.delete r m) = (if k = r then [] else list_at k m)"
  by (simp add: list_at_def js_map_simps)

lemma ms_store_fields [simp]:
  "ms_pending (ms_store r g u now st) = AList.update r (list_at r (ms_pending st) @ [(u, g)]) (ms_pending st)"
  "ms_receipts (ms_store r g u now st) = ms_receipts st @ [u]"
  "ms_dedupeKeys (ms_store r g u now st) = ms_dedupeKeys st"
  by (simp_all add: ms_store_def Let_def split: option.splits)

lemma ms_send_cases:
  obtains "ms_send r g u now st = (False, st)"
  | ks where "ms_send r g u now st = (True, ms_store r g u now (st\<lparr>ms_dedupeKeys := ks\<rparr>))"
proof -
  have "ms_send r g u now st = (False, st) \<or> (\<exists>ks. ms_send r g u now st = (True, ms_store r g u now (st\<lparr>ms_dedupeKeys := ks\<rparr>)))"
    by (auto simp: ms_send_def split: option.splits intro: exI [of _ "ms_dedupeKeys st"])
  then show thesis using that by blast
qed

lemma ms_ok_store: "ms_ok st \<Longrightarrow> ms_fresh st u \<Longrightarrow> ms_ok (ms_store r g u now (st\<lparr>ms_dedupeKeys := ks\<rparr>))"
  by (auto simp: ms_ok_def ms_fresh_def)

interpretation mg: signal_log memory_ops ms_ok "\<lambda>st. set (ms_receipts st)" ms_fresh
proof unfold_locales
  fix st u r g now assume "ms_ok st" "ms_fresh st u"
  then show "ms_ok (snd (op_send memory_ops r g u now st))"
    by (cases rule: ms_send_cases [of r g u now st]) (simp_all add: memory_ops_def ms_ok_store)
next
  fix st u r g now st' assume "ms_ok st" "ms_fresh st u" "op_send memory_ops r g u now st = (True, st')"
  then show "\<exists>i. i \<notin> set (ms_receipts st) \<and> set (ms_receipts st') = insert i (set (ms_receipts st)) \<and>
      op_pending memory_ops r st' = op_pending memory_ops r st @ [(i, g)] \<and>
      (\<forall>r'. r' \<noteq> r \<longrightarrow> op_pending memory_ops r' st' = op_pending memory_ops r' st)"
    by (cases rule: ms_send_cases [of r g u now st])
      (auto simp: memory_ops_def ms_pending_of_def ms_fresh_def intro!: exI [of _ u])
next
  fix st u r g now st' assume "ms_ok st" "op_send memory_ops r g u now st = (False, st')"
  then show "set (ms_receipts st) \<subseteq> set (ms_receipts st') \<and> (\<forall>r'. op_pending memory_ops r' st' = op_pending memory_ops r' st)"
    by (cases rule: ms_send_cases [of r g u now st]) (auto simp: memory_ops_def)
qed (auto simp: memory_ops_def ms_ok_def ms_pending_of_def ms_acknowledge_def ms_takePending_def Let_def distinct_map_filter)

subsection \<open>The Postgres store\<close>

definition ps_ok :: "signal_table \<Rightarrow> bool" where
  "ps_ok db \<longleftrightarrow> sorted_wrt (<) (map sr_id (st_rows db)) \<and> (\<forall>r \<in> set (st_rows db). sr_id r < st_nextId db)"

definition ps_issued :: "signal_table \<Rightarrow> string set" where
  "ps_issued db = nat_digits ` {..< st_nextId db}"

lemma sorted_rows: "sorted_wrt (<) (map sr_id rows) \<Longrightarrow> sort_key sr_id (filter P rows) = filter P rows"
proof -
  assume s: "sorted_wrt (<) (map sr_id rows)"
  then have "sorted (map sr_id (filter P rows))"
    by (induction rows) (auto simp: less_imp_le)
  then show ?thesis by (simp add: sort_key_id_if_sorted)
qed

lemma ps_pending_ok:
  "ps_ok db \<Longrightarrow> ps_pending_of r db = map (\<lambda>r. (nat_digits (sr_id r), row_signal r)) (filter (unconsumed r) (st_rows db))"
  by (simp add: ps_pending_of_def ps_ok_def sorted_rows)

lemma consume_id [simp]: "sr_id (consume now r) = sr_id r"
  by (simp add: consume_def)

lemma map_id_consume [simp]: "map sr_id (map (\<lambda>r. if P r then consume now r else r) rows) = map sr_id rows"
  by (induction rows) auto

lemma ps_ok_consume: "ps_ok db \<Longrightarrow> ps_ok (db\<lparr>st_rows := map (\<lambda>r. if P r then consume now r else r) (st_rows db)\<rparr>)"
  unfolding ps_ok_def by (simp del: list.map_comp map_map) (auto split: if_splits)

lemma unconsumed_consume [simp]: "\<not> unconsumed r (consume now x)"
  by (simp add: unconsumed_def consume_def)

lemma unconsumed_run: "unconsumed r x \<Longrightarrow> unconsumed r' x \<Longrightarrow> r' = r"
  by (simp add: unconsumed_def)

lemma filter_consumed:
  "filter (unconsumed r') (map (\<lambda>x. if unconsumed r x \<and> P x then consume now x else x) rows) =
   (if r' = r then filter (\<lambda>x. \<not> P x) (filter (unconsumed r) rows) else filter (unconsumed r') rows)"
  by (induction rows) (auto dest: unconsumed_run)

lemma distinct_digits: "sorted_wrt (<) (map sr_id rows) \<Longrightarrow> distinct (map (\<lambda>x. nat_digits (sr_id x)) (filter P rows))"
  by (induction rows) (fastforce dest: nat_digits_inj)+

interpretation pg: signal_log postgres_ops ps_ok ps_issued "\<lambda>_ _. True"
proof unfold_locales
  fix db u r g now assume "ps_ok db"
  then show "ps_ok (snd (op_send postgres_ops r g u now db))"
    by (auto simp: postgres_ops_def ps_send_def ps_ok_def sorted_wrt_append less_Suc_eq)
next
  fix db u r g now db' assume ok: "ps_ok db" and sent: "op_send postgres_ops r g u now db = (True, db')"
  let ?row = "\<lparr>sr_id = st_nextId db, sr_runId = r, sr_kind = sg_kind g, sr_text = sg_text g, sr_payload = Some g,
    sr_createdAt = now, sr_consumedAt = None, sr_dedupeKey = sg_dedupeKey g\<rparr>"
  have db': "db' = \<lparr>st_rows = st_rows db @ [?row], st_nextId = st_nextId db + 1\<rparr>"
    using sent by (auto simp: postgres_ops_def ps_send_def split: if_splits)
  then have ok': "ps_ok db'" using ok by (auto simp: ps_ok_def sorted_wrt_append less_Suc_eq)
  have "nat_digits (st_nextId db) \<notin> ps_issued db" by (auto simp: ps_issued_def dest: nat_digits_inj)
  moreover have "ps_issued db' = insert (nat_digits (st_nextId db)) (ps_issued db)"
    by (auto simp: ps_issued_def db' lessThan_Suc)
  ultimately show "\<exists>i. i \<notin> ps_issued db \<and> ps_issued db' = insert i (ps_issued db) \<and>
      op_pending postgres_ops r db' = op_pending postgres_ops r db @ [(i, g)] \<and>
      (\<forall>r'. r' \<noteq> r \<longrightarrow> op_pending postgres_ops r' db' = op_pending postgres_ops r' db)"
    by (intro exI [of _ "nat_digits (st_nextId db)"])
      (auto simp: postgres_ops_def ps_pending_ok ok ok', auto simp: db' unconsumed_def row_signal_def)
next
  fix db u r g now db' assume ok: "ps_ok db" and "op_send postgres_ops r g u now db = (False, db')"
  then have db': "db' = db\<lparr>st_nextId := st_nextId db + 1\<rparr>"
    by (auto simp: postgres_ops_def ps_send_def split: if_splits)
  then show "ps_issued db \<subseteq> ps_issued db' \<and> (\<forall>r'. op_pending postgres_ops r' db' = op_pending postgres_ops r' db)"
    by (auto simp: ps_issued_def postgres_ops_def ps_pending_of_def)
next
  fix db r i now assume "ps_ok db"
  then show "ps_ok (op_acknowledge postgres_ops r i now db)"
    by (simp add: postgres_ops_def ps_acknowledge_def ps_ok_consume)
next
  fix db r r' i now assume ok: "ps_ok db"
  then have "ps_ok (ps_acknowledge r i now db)" by (simp add: ps_acknowledge_def ps_ok_consume)
  then show "op_pending postgres_ops r' (op_acknowledge postgres_ops r i now db) =
      (if r' = r then filter (\<lambda>e. fst e \<noteq> i) (op_pending postgres_ops r db) else op_pending postgres_ops r' db)"
    using ok by (simp add: postgres_ops_def ps_pending_ok) (simp add: ps_acknowledge_def filter_consumed, simp add: filter_map o_def)
next
  fix db r now assume "ps_ok db"
  then show "ps_ok (op_take postgres_ops r now db)"
    by (simp add: postgres_ops_def ps_takePending_def ps_ok_consume)
next
  fix db r r' now assume ok: "ps_ok db"
  then have "ps_ok (snd (ps_takePending r now db))" by (simp add: ps_takePending_def ps_ok_consume)
  then show "op_pending postgres_ops r' (op_take postgres_ops r now db) = (if r' = r then [] else op_pending postgres_ops r' db)"
    using ok filter_consumed [of r' r "\<lambda>_. True" now "st_rows db"]
    by (cases "r' = r") (simp_all add: postgres_ops_def ps_pending_ok, simp_all add: ps_takePending_def)
next
  fix db r assume "ps_ok db"
  then show "fst ` set (op_pending postgres_ops r db) \<subseteq> ps_issued db"
    by (auto simp: postgres_ops_def ps_pending_ok ps_issued_def ps_ok_def)
next
  fix db r assume "ps_ok db"
  then show "distinct (map fst (op_pending postgres_ops r db))"
    by (simp add: postgres_ops_def ps_pending_ok) (simp add: ps_ok_def o_def distinct_digits)
qed (simp_all add: postgres_ops_def ps_acknowledge_def ps_takePending_def ps_issued_def)

subsection \<open>A drain hands over everything that waits\<close>

definition waiting_steer :: "string list \<Rightarrow> string \<times> run_signal \<Rightarrow> bool" where
  "waiting_steer declined e \<longleftrightarrow> sg_kind (snd e) = SteerSignal \<and> fst e \<notin> set declined"

definition steer_calls :: "poll_event list \<Rightarrow> poll_event list" where
  "steer_calls es = filter (\<lambda>e. case e of CalledSteer i g \<Rightarrow> True | _ \<Rightarrow> False) es"

lemma steer_calls_simps [simp]:
  "steer_calls (xs @ ys) = steer_calls xs @ steer_calls ys" "steer_calls [] = []"
  "steer_calls (CalledAbort # es) = steer_calls es" "steer_calls (Acknowledged i # es) = steer_calls es"
  "steer_calls (CalledSteer i g # es) = CalledSteer i g # steer_calls es"
  by (simp_all add: steer_calls_def)

context signal_log begin

lemma entry_effect:
  fixes p :: poll
  assumes "inv s" "poll_entry ops r now Answered False e (p, s) = (p', s')"
  shows "inv s' \<and> po_declined p' = po_declined p \<and>
    op_pending ops r s' =
      (if waiting_steer (po_declined p) e then filter (\<lambda>x. fst x \<noteq> fst e) (op_pending ops r s) else op_pending ops r s) \<and>
    steer_calls (po_log p') = steer_calls (po_log p) @
      (if waiting_steer (po_declined p) e \<and> has_content (snd e) then [CalledSteer (fst e) (snd e)] else [])"
proof -
  obtain i g where e: "e = (i, g)" by fastforce
  have kind: "sg_kind g = AbortSignal \<or> sg_kind g = SteerSignal" by (cases "sg_kind g") auto
  show ?thesis
    using assms kind ack_inv [of s r i now] ack_pending [of s r r i now]
    by (auto simp: e poll_entry_def poll_ack_def logged_def waiting_steer_def Let_def split: if_splits)
qed

lemma drain_queue_effect:
  assumes "inv s" "drain_queue ops r now (\<lambda>_. Answered) (\<lambda>_. False) q (p, s) = (p', s')"
  shows "op_pending ops r s' =
      filter (\<lambda>x. \<not> (\<exists>e \<in> set q. waiting_steer (po_declined p) e \<and> fst e = fst x)) (op_pending ops r s) \<and>
    steer_calls (po_log p') = steer_calls (po_log p) @
      map (\<lambda>(i, g). CalledSteer i g) (filter (\<lambda>e. waiting_steer (po_declined p) e \<and> has_content (snd e)) q)"
  using assms
proof (induction q arbitrary: p s)
  case Nil
  then show ?case by auto
next
  case (Cons e q)
  obtain p1 s1 where one: "poll_entry ops r now Answered False e (p\<lparr>po_queue := q\<rparr>, s) = (p1, s1)" by fastforce
  note eff = entry_effect [OF Cons.prems(1) one]
  have "drain_queue ops r now (\<lambda>_. Answered) (\<lambda>_. False) q (p1, s1) = (p', s')"
    using Cons.prems(2) one by simp
  with Cons.IH [of s1 p1] eff have rest: "op_pending ops r s' =
      filter (\<lambda>x. \<not> (\<exists>e \<in> set q. waiting_steer (po_declined p) e \<and> fst e = fst x)) (op_pending ops r s1)"
    "steer_calls (po_log p') = steer_calls (po_log p1) @
      map (\<lambda>(i, g). CalledSteer i g) (filter (\<lambda>e. waiting_steer (po_declined p) e \<and> has_content (snd e)) q)" by auto
  have "op_pending ops r s' =
      filter (\<lambda>x. \<not> (\<exists>e' \<in> set (e # q). waiting_steer (po_declined p) e' \<and> fst e' = fst x)) (op_pending ops r s)"
    using eff rest(1) by (cases "waiting_steer (po_declined p) e") (auto intro!: filter_cong)
  moreover have "steer_calls (po_log p') = steer_calls (po_log p) @
      map (\<lambda>(i, g). CalledSteer i g) (filter (\<lambda>e. waiting_steer (po_declined p) e \<and> has_content (snd e)) (e # q))"
    using eff rest(2) by (cases e) auto
  ultimately show ?case by blast
qed

lemma drain_effect:
  assumes "inv s" "\<not> po_draining p" "drain ops r now (\<lambda>_. Answered) (\<lambda>_. False) (p, s) = (p', s')"
  shows "op_pending ops r s' = filter (\<lambda>e. \<not> waiting_steer (po_declined p) e) (op_pending ops r s) \<and>
    steer_calls (po_log p') = steer_calls (po_log p) @
      map (\<lambda>(i, g). CalledSteer i g)
        (filter (\<lambda>e. waiting_steer (po_declined p) e \<and> has_content (snd e)) (op_pending ops r s))"
proof -
  let ?q = "op_pending ops r s"
  let ?p = "p\<lparr>po_draining := True, po_queue := ?q, po_abortDelivered := False\<rparr>"
  have run: "drain_queue ops r now (\<lambda>_. Answered) (\<lambda>_. False) ?q (?p, s) = (p', s')"
    using assms(2,3) by (simp add: drain_def poll_start_def)
  have same: "e = x" if "e \<in> set ?q" "x \<in> set ?q" "fst e = fst x" for e x
    using pending_distinct [OF assms(1), of r] that by (metis (no_types) distinct_map inj_onD)
  have "filter (\<lambda>x. \<not> (\<exists>e \<in> set ?q. waiting_steer (po_declined p) e \<and> fst e = fst x)) ?q =
      filter (\<lambda>e. \<not> waiting_steer (po_declined p) e) ?q"
    using same by (intro filter_cong) blast+
  then show ?thesis using drain_queue_effect [OF assms(1) run] by simp
qed

end

text \<open>C29: Whatever the interleaving of senders, other readers and the poll loop, a signal that the loop has acknowledged is never handed to the turn nor acknowledged again, with the in-memory store (whose random receipts do not repeat) and with the Postgres store.\<close>

theorem signal_handled_once:
  "((poll_step ms_fresh memory_ops r)\<^sup>*\<^sup>* (idle_poll, empty_signals) (p, st) \<and>
    po_log p = xs @ Acknowledged i # ys \<longrightarrow> \<not> list_ex (event_about i) ys) \<and>
   ((poll_step (\<lambda>_ _. True) postgres_ops r)\<^sup>*\<^sup>* (idle_poll, \<lparr>st_rows = [], st_nextId = 1\<rparr>) (p', db) \<and>
    po_log p' = xs @ Acknowledged i # ys \<longrightarrow> \<not> list_ex (event_about i) ys)"
proof -
  have "ms_ok empty_signals" by (simp add: ms_ok_def empty_signals_def list_at_def)
  moreover have "ps_ok \<lparr>st_rows = [], st_nextId = 1\<rparr>" by (simp add: ps_ok_def)
  ultimately show ?thesis
    using mg.reachable_ok [of r empty_signals "(p, st)"] pg.reachable_ok [of r "\<lparr>st_rows = [], st_nextId = 1\<rparr>" "(p', db)"]
    unfolding mg.poll_ok_def pg.poll_ok_def handled_once_def by (metis fst_conv)
qed

text \<open>A drain of the poll loop whose handlers accept hands every waiting steer signal of the run to the turn, in the order in which they were sent, and leaves only aborts and signals declined before; for both stores.\<close>

lemma drain_hands_over_all:
  assumes "\<not> po_draining p" "ms_ok st" "ps_ok db"
    and "drain memory_ops r now (\<lambda>_. Answered) (\<lambda>_. False) (p, st) = (p1, st1)"
    and "drain postgres_ops r now (\<lambda>_. Answered) (\<lambda>_. False) (p, db) = (p2, db2)"
  shows "ms_pending_of r st1 = filter (\<lambda>e. \<not> waiting_steer (po_declined p) e) (ms_pending_of r st) \<and>
    steer_calls (po_log p1) = steer_calls (po_log p) @ map (\<lambda>(i, g). CalledSteer i g)
      (filter (\<lambda>e. waiting_steer (po_declined p) e \<and> has_content (snd e)) (ms_pending_of r st)) \<and>
    ps_pending_of r db2 = filter (\<lambda>e. \<not> waiting_steer (po_declined p) e) (ps_pending_of r db) \<and>
    steer_calls (po_log p2) = steer_calls (po_log p) @ map (\<lambda>(i, g). CalledSteer i g)
      (filter (\<lambda>e. waiting_steer (po_declined p) e \<and> has_content (snd e)) (ps_pending_of r db))"
  using mg.drain_effect [OF assms(2,1,4)] pg.drain_effect [OF assms(3,1,5)]
  by (simp add: memory_ops_def postgres_ops_def)

definition demo_signal :: "string \<Rightarrow> run_signal" where
  "demo_signal t = \<lparr>sg_kind = SteerSignal, sg_text = Some t, sg_ts = None, sg_request = None, sg_dedupeKey = None,
     sg_queuedRunId = None\<rparr>"

definition demo_sent :: signal_store where
  "demo_sent = snd (ms_send ''r'' (demo_signal ''b'') ''u2'' 1 (snd (ms_send ''r'' (demo_signal ''a'') ''u1'' 0 empty_signals)))"

definition demo_log :: "poll_event list" where
  "demo_log = [CalledSteer ''u1'' (demo_signal ''a''), Acknowledged ''u1'', CalledSteer ''u2'' (demo_signal ''b''), Acknowledged ''u2'']"

definition demo_poll :: "nat \<Rightarrow> poll" where
  "demo_poll n = \<lparr>po_draining = True, po_queue = drop n [(''u1'', demo_signal ''a''), (''u2'', demo_signal ''b'')],
     po_abortDelivered = False, po_declined = [], po_log = take (2 * n) demo_log\<rparr>"

lemmas demo_signal_simps = demo_signal_def demo_sent_def demo_poll_def demo_log_def memory_ops_def ms_send_def ms_store_def
  empty_signals_def list_at_def poll_start_def idle_poll_def ms_pending_of_def steer_author_def poll_entry_def poll_ack_def
  logged_def has_content_def

lemma demo_reached:
  "(poll_step ms_fresh memory_ops ''r'')\<^sup>*\<^sup>* (idle_poll, empty_signals)
     (demo_poll 2, ms_acknowledge ''r'' ''u2'' (ms_acknowledge ''r'' ''u1'' demo_sent))"
proof -
  let ?step = "poll_step ms_fresh memory_ops ''r''"
  let ?s1 = "snd (op_send memory_ops ''r'' (demo_signal ''a'') ''u1'' 0 empty_signals)"
  let ?s2 = "snd (op_send memory_ops ''r'' (demo_signal ''b'') ''u2'' 1 ?s1)"
  have 1: "?step (idle_poll, empty_signals) (idle_poll, ?s1)"
    by (rule sent) (simp add: ms_fresh_def empty_signals_def)
  have s2: "?s2 = demo_sent" by (simp add: demo_sent_def memory_ops_def)
  have "?step (idle_poll, ?s1) (idle_poll, ?s2)"
    by (rule sent) (simp add: ms_fresh_def demo_signal_simps)
  then have 2: "?step (idle_poll, ?s1) (idle_poll, demo_sent)" unfolding s2 .
  have 3: "?step (idle_poll, demo_sent) (demo_poll 0, demo_sent)"
    using started [of idle_poll ms_fresh memory_ops "''r''" demo_sent] by (simp add: demo_signal_simps)
  have 4: "?step (demo_poll 0, demo_sent) (demo_poll 1, ms_acknowledge ''r'' ''u1'' demo_sent)"
    using entry [of "demo_poll 0" "(''u1'', demo_signal ''a'')" "[(''u2'', demo_signal ''b'')]" ms_fresh memory_ops "''r''" demo_sent 2 Answered False]
    by (simp add: demo_poll_def demo_log_def demo_signal_def memory_ops_def poll_entry_def poll_ack_def logged_def has_content_def)
  have 5: "?step (demo_poll 1, ms_acknowledge ''r'' ''u1'' demo_sent) (demo_poll 2, ms_acknowledge ''r'' ''u2'' (ms_acknowledge ''r'' ''u1'' demo_sent))"
    using entry [of "demo_poll 1" "(''u2'', demo_signal ''b'')" "[]" ms_fresh memory_ops "''r''" "ms_acknowledge ''r'' ''u1'' demo_sent" 2 Answered False]
    by (simp add: demo_poll_def demo_log_def demo_signal_def memory_ops_def poll_entry_def poll_ack_def logged_def has_content_def numeral_2_eq_2)
  show ?thesis
    by (rule 1 2 3 4 5 converse_rtranclp_into_rtranclp rtranclp.rtrancl_refl)+
qed

theorem signal_handled_once_witness:
  "\<not> list_ex (event_about ''u1'') [CalledSteer ''u2'' (demo_signal ''b''), Acknowledged ''u2'']"
proof -
  have "po_log (demo_poll 2) = [CalledSteer ''u1'' (demo_signal ''a'')] @ Acknowledged ''u1'' # [CalledSteer ''u2'' (demo_signal ''b''), Acknowledged ''u2'']"
    by (simp add: demo_poll_def demo_log_def)
  then show ?thesis
    using signal_handled_once [of "''r''" "demo_poll 2"] demo_reached by blast
qed

definition demo_row :: "nat \<Rightarrow> run_signal \<Rightarrow> signal_row" where
  "demo_row i g = \<lparr>sr_id = i, sr_runId = ''r'', sr_kind = sg_kind g, sr_text = sg_text g, sr_payload = Some g,
     sr_createdAt = 0, sr_consumedAt = None, sr_dedupeKey = None\<rparr>"

definition demo_table :: signal_table where
  "demo_table = \<lparr>st_rows = [demo_row 1 (demo_signal ''a''), demo_row 2 (demo_signal ''b'')], st_nextId = 3\<rparr>"

lemma drain_hands_over_all_witness:
  "ms_pending_of ''r'' (snd (drain memory_ops ''r'' 5 (\<lambda>_. Answered) (\<lambda>_. False) (idle_poll, demo_sent))) = [] \<and>
   ps_pending_of ''r'' (snd (drain postgres_ops ''r'' 5 (\<lambda>_. Answered) (\<lambda>_. False) (idle_poll, demo_table))) = []"
proof -
  have "\<not> po_draining idle_poll" by (simp add: idle_poll_def)
  moreover have "ms_ok demo_sent" by (auto simp: ms_ok_def demo_signal_simps)
  moreover have "ps_ok demo_table" by (simp add: ps_ok_def demo_table_def demo_row_def)
  moreover have "filter (\<lambda>e. \<not> waiting_steer (po_declined idle_poll) e) (ms_pending_of ''r'' demo_sent) = []"
    "filter (\<lambda>e. \<not> waiting_steer (po_declined idle_poll) e) (ps_pending_of ''r'' demo_table) = []"
    by code_simp+
  ultimately show ?thesis
    using drain_hands_over_all [OF _ _ _ prod.collapse [symmetric] prod.collapse [symmetric]] by simp
qed

end
