(* ===== verification/Postgres_Runs.thy ===== *)
theory Postgres_Runs
  imports Run_Queue Run_Signals
begin

text \<open>
  The run queue as a table, \<^verbatim>\<open>src/src/runs/postgres-run-store.ts\<close>. A row is a run with its sequence number, the time
  before which it is not retried and the time its result was returned. Every statement is atomic; calls that read and then write are split there.
  The database checks the unique index of one running run per session at the end of a statement. \<open>db_settled\<close> lists the runs given to
  \<open>settle\<close>; a finished run is read back right after the statement that finished it, which no other statement can change (\<open>pg_finished_final\<close>).
  The origin of a request is resolved when a row is read and is the resolved one here.
\<close>

subsection \<open>Table\<close>

record run_row =
  rr_run :: run
  rr_seq :: nat
  rr_retryAfter :: time
  rr_returnedAt :: "time option"

record tool_call_row =
  tc_runId :: string
  tc_attempt :: nat
  tc_callIndex :: nat
  tc_output :: string
  tc_createdAt :: time

record run_db =
  db_runs :: "run_row list"
  db_nextSeq :: nat
  db_calls :: "tool_call_row list"
  db_signals :: signal_table
  db_settled :: "run list"

definition empty_run_db :: run_db where
  "empty_run_db = \<lparr>db_runs = [], db_nextSeq = 1, db_calls = [], db_signals = \<lparr>st_rows = [], st_nextId = 1\<rparr>, db_settled = []\<rparr>"

definition pg_rows :: "run_db \<Rightarrow> run list" where
  "pg_rows db = map rr_run (db_runs db)"

definition pg_getRun :: "string \<Rightarrow> run_db \<Rightarrow> run option" where
  "pg_getRun i db = List.find (\<lambda>r. run_id r = i) (pg_rows db)"

text \<open>\<open>UPDATE runs SET .. WHERE id = .. AND ..\<close>: whether a row was updated.\<close>

definition update_run :: "string \<Rightarrow> (run \<Rightarrow> bool) \<Rightarrow> (run_row \<Rightarrow> run_row) \<Rightarrow> run_db \<Rightarrow> bool \<times> run_db" where
  "update_run i cond f db =
     (list_ex (\<lambda>r. run_id r = i \<and> cond r) (pg_rows db),
      db\<lparr>db_runs := map (\<lambda>r. if run_id (rr_run r) = i \<and> cond (rr_run r) then f r else r) (db_runs db)\<rparr>)"

definition in_run :: "(run \<Rightarrow> run) \<Rightarrow> run_row \<Rightarrow> run_row" where
  "in_run f r = r\<lparr>rr_run := f (rr_run r)\<rparr>"

definition pg_settle :: "string \<Rightarrow> run_db \<Rightarrow> run_db" where
  "pg_settle i db =
     (case pg_getRun i db of
        None \<Rightarrow> db
      | Some r \<Rightarrow> if isTerminal (run_status r) then db\<lparr>db_settled := db_settled db @ [r]\<rparr> else db)"

subsection \<open>Queueing\<close>

definition pg_getByDedupKey :: "string \<Rightarrow> run_db \<Rightarrow> run option" where
  "pg_getByDedupKey k db = List.find (\<lambda>r. run_dedupKey r = Some k) (pg_rows db)"

text \<open>The insertion does nothing when the key is taken; the sequence number is drawn all the same.\<close>

definition pg_insert :: "enqueue_input \<Rightarrow> string \<Rightarrow> time \<Rightarrow> run_db \<Rightarrow> run option \<times> run_db" where
  "pg_insert inp uuid now db =
     (let db' = db\<lparr>db_nextSeq := db_nextSeq db + 1\<rparr>; r = new_run inp uuid now in
      if ei_dedupKey inp \<noteq> None \<and> list_ex (\<lambda>q. run_dedupKey q = ei_dedupKey inp) (pg_rows db) then (None, db')
      else (Some r, db'\<lparr>db_runs := db_runs db @ [\<lparr>rr_run = r, rr_seq = db_nextSeq db, rr_retryAfter = 0, rr_returnedAt = None\<rparr>]\<rparr>))"

text \<open>The loop of \<open>enqueue\<close>; \<open>awaiting\<close> are what others do to the table between the insertion and the reading of each round.\<close>

fun pg_enqueue :: "enqueue_input \<Rightarrow> string \<Rightarrow> time \<Rightarrow> (run_db \<Rightarrow> run_db) list \<Rightarrow> run_db \<Rightarrow> (run \<times> bool) option \<times> run_db" where
  "pg_enqueue inp uuid now [] db = (None, db)"
| "pg_enqueue inp uuid now (awaiting # rounds) db =
     (case pg_insert inp uuid now db of
        (Some r, db1) \<Rightarrow> (Some (r, False), db1)
      | (None, db1) \<Rightarrow>
          (let db2 = awaiting db1 in
           case pg_getByDedupKey (the (ei_dedupKey inp)) db2 of
             Some existing \<Rightarrow> (Some (existing, True), db2)
           | None \<Rightarrow> pg_enqueue inp uuid now rounds db2))"

subsection \<open>Claiming\<close>

definition run_row_order :: "run_row \<Rightarrow> time \<times> nat" where
  "run_row_order r = (run_createdAt (rr_run r), rr_seq r)"

definition waits :: "time \<Rightarrow> run_row \<Rightarrow> bool" where
  "waits now r \<longleftrightarrow> run_status (rr_run r) = Pending \<and> rr_retryAfter r \<le> now"

definition sibling_blocks :: "time \<Rightarrow> run_row \<Rightarrow> run_row \<Rightarrow> bool" where
  "sibling_blocks now candidate sibling \<longleftrightarrow>
     run_sessionId (rr_run sibling) = run_sessionId (rr_run candidate) \<and>
     (run_status (rr_run sibling) = Running \<or>
      (run_status (rr_run sibling) = Pending \<and> (rr_retryAfter sibling > now \<or> run_row_order sibling < run_row_order candidate)))"

definition claim_candidates :: "time \<Rightarrow> string option \<Rightarrow> string option \<Rightarrow> run_row list \<Rightarrow> run_row list" where
  "claim_candidates now runId sessionId rows =
     sort_key run_row_order
       (filter (\<lambda>c. waits now c \<and> (runId = None \<or> runId = Some (run_id (rr_run c))) \<and>
            (sessionId = None \<or> sessionId = Some (run_sessionId (rr_run c))) \<and>
            \<not> list_ex (sibling_blocks now c) rows) rows)"

text \<open>
  The candidate is chosen in the snapshot of the statement, passing over the rows that other statements have locked; the row is
  then taken in its latest version, whose own conditions are tested again. A second running run of the session violates the unique
  index, in which case the call returns nothing.
\<close>

definition pg_claim ::
  "string \<Rightarrow> time \<Rightarrow> time \<Rightarrow> string \<Rightarrow> string option \<Rightarrow> string option \<Rightarrow> run_row list \<Rightarrow> (run_row \<Rightarrow> bool) \<Rightarrow> run_db \<Rightarrow> run option \<times> run_db" where
  "pg_claim workerId ttlMs now token runId sessionId snapshot locked db =
     (case List.find (\<lambda>c. \<not> locked c) (claim_candidates now runId sessionId snapshot) of
        None \<Rightarrow> (None, db)
      | Some c \<Rightarrow>
          (case List.find (\<lambda>r. run_id (rr_run r) = run_id (rr_run c)) (db_runs db) of
             None \<Rightarrow> (None, db)
           | Some row \<Rightarrow>
               if \<not> waits now row then (None, db)
               else if list_ex (\<lambda>r. run_status r = Running \<and> run_sessionId r = run_sessionId (rr_run row)) (pg_rows db) then (None, db)
               else (Some (leased workerId ttlMs now token (rr_run row)),
                     snd (update_run (run_id (rr_run row)) (\<lambda>_. True) (in_run (leased workerId ttlMs now token)) db))))"

text \<open>The probe for listeners: some run can be claimed.\<close>

definition session_held :: "time \<Rightarrow> run_row list \<Rightarrow> string \<Rightarrow> bool" where
  "session_held now rows sessionId \<longleftrightarrow>
     list_ex (\<lambda>b. run_sessionId (rr_run b) = sessionId \<and>
       (run_status (rr_run b) = Running \<or> (run_status (rr_run b) = Pending \<and> rr_retryAfter b > now))) rows"

definition pg_available :: "time \<Rightarrow> run_row list \<Rightarrow> bool" where
  "pg_available now rows \<longleftrightarrow> list_ex (\<lambda>r. waits now r \<and> \<not> session_held now rows (run_sessionId (rr_run r))) rows"

subsection \<open>Under a lease\<close>

definition pg_heartbeat :: "string \<Rightarrow> string \<Rightarrow> time \<Rightarrow> time \<Rightarrow> run_db \<Rightarrow> bool \<times> run_db" where
  "pg_heartbeat runId leaseToken ttlMs now db =
     update_run runId (holds_lease leaseToken) (in_run (\<lambda>r. r\<lparr>run_leaseExpiresAt := Some (now + ttlMs)\<rparr>)) db"

definition pg_releaseLease :: "string \<Rightarrow> string \<Rightarrow> run_db \<Rightarrow> bool \<times> run_db" where
  "pg_releaseLease runId leaseToken db =
     update_run runId (holds_lease leaseToken)
       (in_run (\<lambda>r. r\<lparr>run_status := Pending, run_leaseToken := None, run_leaseExpiresAt := None, run_workerId := None\<rparr>)) db"

definition pg_complete :: "string \<Rightarrow> string \<Rightarrow> turn_result \<Rightarrow> time \<Rightarrow> run_db \<Rightarrow> bool \<times> run_db" where
  "pg_complete runId leaseToken result now db =
     (case update_run runId (\<lambda>r. run_leaseToken r = Some leaseToken)
             (in_run (\<lambda>r. r\<lparr>run_status := Done, run_result := Some result, run_leaseToken := None, run_leaseExpiresAt := None,
                run_finishedAt := Some now, run_dedupKey := (if releasesDedupKey result then None else run_dedupKey r)\<rparr>)) db of
        (True, db') \<Rightarrow> (True, pg_settle runId db')
      | (False, db') \<Rightarrow> (False, db'))"

definition pg_overClaimed :: "nat option \<Rightarrow> run \<Rightarrow> bool" where
  "pg_overClaimed maxClaims r \<longleftrightarrow> (case maxClaims of None \<Rightarrow> False | Some m \<Rightarrow> run_attempts r \<ge> m)"

definition retire_applies :: "run \<Rightarrow> retire_opts \<Rightarrow> run \<Rightarrow> bool" where
  "retire_applies seen opts r \<longleftrightarrow>
     run_leaseToken seen \<noteq> None \<and> run_leaseToken r = run_leaseToken seen \<and> run_status r = Running \<and>
     (case ro_ifExpiredAt opts of None \<Rightarrow> True
      | Some limit \<Rightarrow> (case run_leaseExpiresAt r of None \<Rightarrow> False | Some t \<Rightarrow> t \<le> limit))"

text \<open>\<open>seen\<close> is the run as the caller read it; the statement writes only while the row holds its lease token.\<close>

definition pg_retire :: "nat option \<Rightarrow> run \<Rightarrow> string \<Rightarrow> bool \<Rightarrow> retire_opts \<Rightarrow> time \<Rightarrow> run_db \<Rightarrow> (bool \<times> bool) \<times> run_db" where
  "pg_retire maxClaims seen error retry opts now db =
     (if retry \<and> errors_after opts seen < run_maxAttempts seen \<and> \<not> pg_overClaimed maxClaims seen
      then (case update_run (run_id seen) (retire_applies seen opts)
               (\<lambda>row. (in_run (\<lambda>r. (unleased opts r)\<lparr>run_status := Pending\<rparr>) row)
                  \<lparr>rr_retryAfter := now + max 0 (case ro_retryAfterMs opts of None \<Rightarrow> 0 | Some d \<Rightarrow> d)\<rparr>) db of
              (applied, db') \<Rightarrow> ((applied, applied), db'))
      else
        (let reason = (if \<not> ro_countsAsError opts \<and> pg_overClaimed maxClaims seen \<and> retry \<and> errors_after opts seen < run_maxAttempts seen
                       then crash_loop_reason seen else error);
             result = (bare_result TFailed)\<lparr>tr_sessionId := Some (run_sessionId seen), tr_reason := Some reason\<rparr> in
         case update_run (run_id seen) (retire_applies seen opts)
                (in_run (\<lambda>r. (unleased opts r)\<lparr>run_status := Failed, run_result := Some result, run_finishedAt := Some now\<rparr>)) db of
           (applied, db') \<Rightarrow> ((False, applied), if applied then pg_settle (run_id seen) db' else db')))"

definition failure_opts :: "time option \<Rightarrow> retire_opts" where
  "failure_opts retryAfterMs = \<lparr>ro_ifExpiredAt = None, ro_countsAsError = True, ro_retryAfterMs = retryAfterMs\<rparr>"

definition pg_fail ::
  "nat option \<Rightarrow> string \<Rightarrow> string \<Rightarrow> string \<Rightarrow> bool option \<Rightarrow> time option \<Rightarrow> time \<Rightarrow> (run_db \<Rightarrow> run_db) \<Rightarrow> run_db \<Rightarrow> bool \<times> run_db" where
  "pg_fail maxClaims runId leaseToken error retry retryAfterMs now awaiting db =
     (case pg_getRun runId db of
        None \<Rightarrow> (False, db)
      | Some r \<Rightarrow>
          if run_leaseToken r \<noteq> Some leaseToken then (False, db)
          else (case pg_retire maxClaims r error (retry \<noteq> Some False) (failure_opts retryAfterMs) now (awaiting db) of
                  ((requeued, _), db') \<Rightarrow> (requeued, db')))"

subsection \<open>Other statements\<close>

definition pg_noteTurnUserSeq :: "string \<Rightarrow> int \<Rightarrow> run_db \<Rightarrow> bool \<times> run_db" where
  "pg_noteTurnUserSeq runId s db =
     update_run runId (\<lambda>r. run_turnUserSeq r = None) (in_run (\<lambda>r. r\<lparr>run_turnUserSeq := Some s\<rparr>)) db"

definition pg_setDeliveryState :: "string \<Rightarrow> string option \<Rightarrow> run_delivery_state \<Rightarrow> run_db \<Rightarrow> bool \<times> run_db" where
  "pg_setDeliveryState runId leaseToken state db =
     update_run runId (\<lambda>r. leaseToken = None \<or> run_leaseToken r = leaseToken) (in_run (\<lambda>r. r\<lparr>run_deliveryState := Some state\<rparr>)) db"

definition newest_first :: "run_row list \<Rightarrow> run_row list" where
  "newest_first rows = rev (sort_key run_row_order rows)"

definition pg_latestForThread :: "string \<Rightarrow> bool \<Rightarrow> run_db \<Rightarrow> run option" where
  "pg_latestForThread threadRef excludePrivateMessages db =
     (case newest_first (filter (\<lambda>r. run_sessionId (rr_run r) = threadRef \<and>
             \<not> (excludePrivateMessages \<and> oi_privateSessionMessage (run_request (rr_run r)))) (db_runs db)) of
        [] \<Rightarrow> None | r # _ \<Rightarrow> Some (rr_run r))"

definition RETURN_PREFIX :: string where "RETURN_PREFIX = ''subagent-return:''"

definition child_finished :: "run \<Rightarrow> bool" where
  "child_finished r \<longleftrightarrow> isTerminal (run_status r) \<and> starts_with ''agent:main:subagent:'' (run_sessionId r)"

definition wakes_for :: "string \<Rightarrow> run \<Rightarrow> bool" where
  "wakes_for childId w \<longleftrightarrow> run_status w = Pending \<and> run_attempts w = 0 \<and> run_turnUserSeq w = None \<and>
     (case run_dedupKey w of None \<Rightarrow> False | Some k \<Rightarrow> starts_with RETURN_PREFIX k \<and> drop (length RETURN_PREFIX) k = childId)"

definition pg_pendingReturns :: "(string \<Rightarrow> string) \<Rightarrow> nat option \<Rightarrow> string option \<Rightarrow> run_db \<Rightarrow> run list" where
  "pg_pendingReturns collate limit afterId db =
     take (case limit of None \<Rightarrow> 100 | Some n \<Rightarrow> n)
       (map rr_run (sort_key (\<lambda>r. collate (run_id (rr_run r)))
          (filter (\<lambda>r. child_finished (rr_run r) \<and>
               (rr_returnedAt r = None \<or> list_ex (wakes_for (run_id (rr_run r))) (pg_rows db)) \<and>
               collate (run_id (rr_run r)) > collate (case afterId of None \<Rightarrow> [] | Some a \<Rightarrow> a)) (db_runs db))))"

definition pg_markReturned :: "string \<Rightarrow> time \<Rightarrow> run_db \<Rightarrow> run_db" where
  "pg_markReturned runId now db =
     snd (update_run runId (\<lambda>r. isTerminal (run_status r)) (\<lambda>row. row\<lparr>rr_returnedAt := Some now\<rparr>) db)"

definition live_rows :: "string \<Rightarrow> run_db \<Rightarrow> run_row list" where
  "live_rows sessionId db =
     sort_key run_row_order (filter (\<lambda>r. run_sessionId (rr_run r) = sessionId \<and> \<not> isTerminal (run_status (rr_run r))) (db_runs db))"

definition pg_activeForThread :: "string \<Rightarrow> run_db \<Rightarrow> run option" where
  "pg_activeForThread sessionId db =
     (case sort_key (\<lambda>r. if run_status (rr_run r) = Running then 0 else 1 :: nat) (live_rows sessionId db) of
        [] \<Rightarrow> None | r # _ \<Rightarrow> Some (rr_run r))"

definition pg_inFlightForThread :: "string \<Rightarrow> run_db \<Rightarrow> run list" where
  "pg_inFlightForThread sessionId db = map rr_run (live_rows sessionId db)"

definition unstarted :: "run \<Rightarrow> bool" where
  "unstarted r \<longleftrightarrow> run_attempts r = 0 \<and> run_turnUserSeq r = None"

definition pg_editPendingText :: "string \<Rightarrow> string \<Rightarrow> string \<Rightarrow> run_db \<Rightarrow> bool \<times> run_db" where
  "pg_editPendingText runId text expectedText db =
     update_run runId (\<lambda>r. run_status r = Pending \<and> unstarted r \<and> shown_text (run_request r) = expectedText)
       (in_run (\<lambda>r. r\<lparr>run_request := (run_request r)\<lparr>oi_text := text, oi_displayText := Some text\<rparr>\<rparr>)) db"

definition delete_run :: "string \<Rightarrow> (run \<Rightarrow> bool) \<Rightarrow> run_db \<Rightarrow> bool \<times> run_db" where
  "delete_run i cond db =
     (list_ex (\<lambda>r. run_id r = i \<and> cond r) (pg_rows db),
      db\<lparr>db_runs := filter (\<lambda>r. \<not> (run_id (rr_run r) = i \<and> cond (rr_run r))) (db_runs db)\<rparr>)"

definition pg_withdraw :: "string \<Rightarrow> bool \<Rightarrow> run_db \<Rightarrow> bool \<times> run_db" where
  "pg_withdraw runId unstartedOnly db = delete_run runId (\<lambda>r. run_status r = Pending \<and> (\<not> unstartedOnly \<or> unstarted r)) db"

text \<open>One statement moves a queued run into a signal of its target; a signal of the same key makes it fail.\<close>

definition pg_steerQueued ::
  "string \<Rightarrow> string \<Rightarrow> string option \<Rightarrow> run_signal \<Rightarrow> time \<Rightarrow> run_db \<Rightarrow> (run_store_error + bool) \<times> run_db" where
  "pg_steerQueued queuedRunId targetRunId signalText signal now db =
     (let target = list_ex (\<lambda>r. run_id r = targetRunId \<and> \<not> isTerminal (run_status r)) (pg_rows db);
          moves = (\<lambda>r. queuedRunId \<noteq> targetRunId \<and> target \<and> run_status r = Pending \<and> Some (shown_text (run_request r)) = signalText) in
      case delete_run queuedRunId moves db of
        (False, db') \<Rightarrow> (Inr False, db)
      | (True, db') \<Rightarrow>
          (case ps_send targetRunId signal now (db_signals db) of
             (False, _) \<Rightarrow> (Inl SignalSendFailed, db\<lparr>db_signals := (db_signals db)\<lparr>st_nextId := st_nextId (db_signals db) + 1\<rparr>\<rparr>)
           | (True, signals') \<Rightarrow> (Inr True, db'\<lparr>db_signals := signals'\<rparr>)))"

definition pg_activeSessionIds :: "run_db \<Rightarrow> string list" where
  "pg_activeSessionIds db = uniq (map run_sessionId (filter (\<lambda>r. \<not> isTerminal (run_status r)) (pg_rows db)))"

definition pg_list :: "nat option \<Rightarrow> string option \<Rightarrow> run_db \<Rightarrow> run list" where
  "pg_list limit threadRef db =
     take (case limit of None \<Rightarrow> 200 | Some n \<Rightarrow> n)
       (sort_key (\<lambda>r. - run_createdAt r)
         (filter (\<lambda>r. case threadRef of
              None \<Rightarrow> True
            | Some t \<Rightarrow> t = [] \<or> run_sessionId r = t \<or> starts_with (t @ '':task:'') (run_sessionId r) \<or>
                starts_with (t @ '':status:'') (run_sessionId r)) (pg_rows db)))"

subsection \<open>Reaping\<close>

definition pg_expired :: "time \<Rightarrow> run_db \<Rightarrow> run list" where
  "pg_expired now db = filter (\<lambda>r. leaseLapsed r now) (pg_rows db)"

definition pg_fence :: "run \<Rightarrow> time \<Rightarrow> string \<Rightarrow> run_db \<Rightarrow> bool \<times> run_db" where
  "pg_fence seen now fenceToken db =
     update_run (run_id seen)
       (\<lambda>r. run_leaseToken seen \<noteq> None \<and> run_leaseToken r = run_leaseToken seen \<and> leaseLapsed r now)
       (in_run (\<lambda>r. r\<lparr>run_leaseToken := Some fenceToken, run_leaseExpiresAt := Some (now + FENCE_HOLD_MS)\<rparr>)) db"

definition reap_reason :: "bool \<Rightarrow> string" where
  "reap_reason tooOld = (if tooOld then ''run exceeded max age (reaped)'' else ''lease expired (reaped)'')"

definition reap_event_of :: "run \<Rightarrow> bool \<Rightarrow> reap_event" where
  "reap_event_of r requeued =
     \<lparr>re_runId = run_id r, re_sessionId = run_sessionId r, re_workerId = run_workerId r, re_attempts = run_attempts r,
      re_errorAttempts = run_errorAttempts r, re_outcome = (if requeued then Requeued else Parked)\<rparr>"

fun pg_reap_each ::
  "nat option \<Rightarrow> (string list \<Rightarrow> run_db \<Rightarrow> run_db) \<Rightarrow> time option \<Rightarrow> time \<Rightarrow> time \<Rightarrow> (string \<Rightarrow> string) \<Rightarrow> run list \<Rightarrow> run_db \<Rightarrow>
     reap_event list \<times> run_db" where
  "pg_reap_each maxClaims onRetired maxAgeMs now later fence [] db = ([], db)"
| "pg_reap_each maxClaims onRetired maxAgeMs now later fence (r # rs) db =
     (case pg_fence r now (fence (run_id r)) db of
        (False, db1) \<Rightarrow> pg_reap_each maxClaims onRetired maxAgeMs now later fence rs db1
      | (True, db1) \<Rightarrow>
          (let tooOld = too_old maxAgeMs now r in
           case pg_retire maxClaims (r\<lparr>run_leaseToken := Some (fence (run_id r))\<rparr>) (reap_reason tooOld) (\<not> tooOld) no_retire_opts later
                  (onRetired [run_sessionId r] db1) of
             ((requeued, applied), db2) \<Rightarrow>
               (case pg_reap_each maxClaims onRetired maxAgeMs now later fence rs db2 of
                  (evs, db3) \<Rightarrow> (if applied then reap_event_of r requeued # evs else evs, db3))))"

definition pg_reapExpired ::
  "nat option \<Rightarrow> (string list \<Rightarrow> run_db \<Rightarrow> run_db) \<Rightarrow> time option \<Rightarrow> time \<Rightarrow> time \<Rightarrow> (string \<Rightarrow> string) \<Rightarrow> run_db \<Rightarrow>
     (nat \<times> nat \<times> reap_event list) \<times> run_db" where
  "pg_reapExpired maxClaims onRetired maxAgeMs now later fence db =
     (let (evs, db') = pg_reap_each maxClaims onRetired maxAgeMs now later fence (pg_expired now db) db in
      ((length (filter (\<lambda>e. re_outcome e = Requeued) evs), length (filter (\<lambda>e. re_outcome e = Parked) evs), evs), db'))"

subsection \<open>The tool ledger\<close>

definition call_row :: "string \<Rightarrow> nat \<Rightarrow> nat \<Rightarrow> tool_call_row \<Rightarrow> bool" where
  "call_row runId attempt callIndex c \<longleftrightarrow> tc_runId c = runId \<and> tc_attempt c = attempt \<and> tc_callIndex c = callIndex"

definition pg_ledger_begin :: "string \<Rightarrow> nat \<Rightarrow> nat \<Rightarrow> run_db \<Rightarrow> string option" where
  "pg_ledger_begin runId attempt callIndex db = map_option tc_output (List.find (call_row runId attempt callIndex) (db_calls db))"

definition pg_ledger_record :: "string \<Rightarrow> nat \<Rightarrow> nat \<Rightarrow> string \<Rightarrow> time \<Rightarrow> run_db \<Rightarrow> run_db" where
  "pg_ledger_record runId attempt callIndex out now db =
     (if list_ex (call_row runId attempt callIndex) (db_calls db) then db
      else db\<lparr>db_calls := db_calls db @
        [\<lparr>tc_runId = runId, tc_attempt = attempt, tc_callIndex = callIndex, tc_output = out, tc_createdAt = now\<rparr>]\<rparr>)"

subsection \<open>The table as a run store\<close>

text \<open>The rows as the in-memory store has them. Its invariant is then the invariant of the table.\<close>

definition store_of :: "run_db \<Rightarrow> run_store" where
  "store_of db = (createMemoryRunStore None)\<lparr>rs_runs := map (\<lambda>r. (run_id r, r)) (pg_rows db), rs_settled := db_settled db\<rparr>"

lemma get_store_of: "get_run i (store_of db) = pg_getRun i db"
proof -
  have "map_of (map (\<lambda>r. (run_id r, r)) rs) i = List.find (\<lambda>r. run_id r = i) rs" for rs
    by (induction rs) auto
  then show ?thesis by (simp add: store_of_def get_run_def pg_getRun_def)
qed

lemma store_of_frame [simp]:
  "store_of (db\<lparr>db_nextSeq := n\<rparr>) = store_of db" "store_of (db\<lparr>db_calls := c\<rparr>) = store_of db"
  "store_of (db\<lparr>db_signals := g\<rparr>) = store_of db"
  by (simp_all add: store_of_def pg_rows_def)

lemma pg_getRun_mem: "pg_getRun i db = Some r \<Longrightarrow> r \<in> set (pg_rows db) \<and> run_id r = i"
  unfolding pg_getRun_def by (auto simp: find_Some_iff)

lemma rows_distinct: "store_ok (store_of db) \<Longrightarrow> distinct (map run_id (pg_rows db))"
  by (simp add: store_ok_def store_of_def comp_def)

lemma pg_getRun_row: "store_ok (store_of db) \<Longrightarrow> r \<in> set (pg_rows db) \<longleftrightarrow> pg_getRun (run_id r) db = Some r"
  using values_get_run [of "store_of db" r] by (simp add: get_store_of) (simp add: store_of_def image_image)

lemma store_of_settle: "store_of (pg_settle i db) = settle i (store_of db)"
proof -
  have "store_of (db\<lparr>db_settled := log\<rparr>) = (store_of db)\<lparr>rs_settled := log\<rparr>" for log
    by (simp add: store_of_def pg_rows_def)
  moreover have "rs_settled (store_of db) = db_settled db" by (simp add: store_of_def)
  ultimately show ?thesis by (simp add: pg_settle_def settle_def get_store_of split: option.split)
qed

text \<open>A statement on one row is a write of the store, or nothing.\<close>

lemma store_of_update:
  assumes "store_ok (store_of db)" and "\<And>row. rr_run (f row) = g (rr_run row)" and "\<And>r. run_id (g r) = run_id r"
  shows "store_of (snd (update_run i cond f db)) =
      (case pg_getRun i db of None \<Rightarrow> store_of db | Some r \<Rightarrow> if cond r then put_run i g (store_of db) else store_of db)"
    and "fst (update_run i cond f db) \<longleftrightarrow> (\<exists>r. pg_getRun i db = Some r \<and> cond r)"
proof -
  have rows: "pg_rows (snd (update_run i cond f db)) = map (\<lambda>r. if run_id r = i \<and> cond r then g r else r) (pg_rows db)"
    using assms(2) by (simp add: pg_rows_def update_run_def comp_def if_distrib)
  have settled: "db_settled (snd (update_run i cond f db)) = db_settled db" by (simp add: update_run_def)
  have own: "pg_getRun i db = Some r \<longleftrightarrow> r \<in> set (pg_rows db) \<and> run_id r = i" for r
    using pg_getRun_row [OF assms(1), of r] pg_getRun_mem by auto
  then show "fst (update_run i cond f db) \<longleftrightarrow> (\<exists>r. pg_getRun i db = Some r \<and> cond r)"
    by (auto simp: update_run_def list_ex_iff)
  have "map (\<lambda>r. if run_id r = i \<and> cond r then g r else r) (pg_rows db) =
      (case pg_getRun i db of None \<Rightarrow> pg_rows db
       | Some r \<Rightarrow> if cond r then map (\<lambda>q. if run_id q = i then g q else q) (pg_rows db) else pg_rows db)"
  proof (cases "pg_getRun i db")
    case None
    then have "run_id r \<noteq> i" if "r \<in> set (pg_rows db)" for r using own that by auto
    with None show ?thesis by (simp add: map_idI)
  next
    case (Some r)
    then have "q = r" if "q \<in> set (pg_rows db)" "run_id q = i" for q using own [of q] that by simp
    with Some show ?thesis by (auto intro!: map_idI)
  qed
  then show "store_of (snd (update_run i cond f db)) =
      (case pg_getRun i db of None \<Rightarrow> store_of db | Some r \<Rightarrow> if cond r then put_run i g (store_of db) else store_of db)"
    using assms(3) unfolding store_of_def [of "snd (update_run i cond f db)"] rows settled
    by (auto simp: store_of_def put_run_def map_modify_def comp_def split: option.split)
qed

lemma get_update_run:
  assumes "store_ok (store_of db)" and "\<And>row. rr_run (f row) = g (rr_run row)" and "\<And>r. run_id (g r) = run_id r"
  shows "pg_getRun j (snd (update_run i cond f db)) =
    map_option (\<lambda>r. if j = i \<and> cond r then g r else r) (pg_getRun j db)"
  unfolding get_store_of [of j "snd (update_run i cond f db)", symmetric] store_of_update(1) [OF assms]
  by (cases "pg_getRun i db"; cases "pg_getRun j db") (auto simp: get_put_run get_store_of)

lemma in_run_simps [simp]: "rr_run (in_run f row) = f (rr_run row)" "rr_seq (in_run f row) = rr_seq row"
    "rr_retryAfter (in_run f row) = rr_retryAfter row"
  by (simp_all add: in_run_def)

subsection \<open>Interleaved calls\<close>

text \<open>
  \<open>pgs_reads\<close> are the runs that unfinished calls of \<open>fail\<close> and \<open>reapExpired\<close> have read, \<open>pgs_used\<close> the lease tokens drawn so far.
  The snapshot of a claim and its set of locked rows are arbitrary.
\<close>

record pg_system =
  pgs_db :: run_db
  pgs_reads :: "run list"
  pgs_used :: "string list"

inductive pg_run_step :: "nat option \<Rightarrow> pg_system \<Rightarrow> pg_system \<Rightarrow> bool" for m where
  pgs_insert: "pg_getRun uuid (pgs_db s) = None \<Longrightarrow> pg_run_step m s (s\<lparr>pgs_db := snd (pg_insert inp uuid now (pgs_db s))\<rparr>)"
| pgs_claim: "tok \<notin> set (pgs_used s) \<Longrightarrow>
    pg_run_step m s (s\<lparr>pgs_db := snd (pg_claim w ttl now tok runId sessionId snapshot locked (pgs_db s)), pgs_used := tok # pgs_used s\<rparr>)"
| pgs_heartbeat: "pg_run_step m s (s\<lparr>pgs_db := snd (pg_heartbeat i tok ttl now (pgs_db s))\<rparr>)"
| pgs_release: "pg_run_step m s (s\<lparr>pgs_db := snd (pg_releaseLease i tok (pgs_db s))\<rparr>)"
| pgs_complete: "pg_run_step m s (s\<lparr>pgs_db := snd (pg_complete i tok res now (pgs_db s))\<rparr>)"
| pgs_read: "pg_getRun i (pgs_db s) = Some r \<Longrightarrow> pg_run_step m s (s\<lparr>pgs_reads := r # pgs_reads s\<rparr>)"
| pgs_retire: "r \<in> set (pgs_reads s) \<Longrightarrow> pg_run_step m s (s\<lparr>pgs_db := snd (pg_retire m r err retry opts now (pgs_db s))\<rparr>)"
| pgs_fence: "r \<in> set (pgs_reads s) \<Longrightarrow> tok \<notin> set (pgs_used s) \<Longrightarrow> pg_fence r now tok (pgs_db s) = (b, db') \<Longrightarrow>
    pg_run_step m s \<lparr>pgs_db = db', pgs_reads = (if b then r\<lparr>run_leaseToken := Some tok\<rparr> # pgs_reads s else pgs_reads s), pgs_used = tok # pgs_used s\<rparr>"
| pgs_note: "pg_run_step m s (s\<lparr>pgs_db := snd (pg_noteTurnUserSeq i n (pgs_db s))\<rparr>)"
| pgs_delivery: "pg_run_step m s (s\<lparr>pgs_db := snd (pg_setDeliveryState i otok ds (pgs_db s))\<rparr>)"
| pgs_returned: "pg_run_step m s (s\<lparr>pgs_db := pg_markReturned i now (pgs_db s)\<rparr>)"
| pgs_edit: "pg_run_step m s (s\<lparr>pgs_db := snd (pg_editPendingText i new old (pgs_db s))\<rparr>)"
| pgs_withdraw: "pg_run_step m s (s\<lparr>pgs_db := snd (pg_withdraw i u (pgs_db s))\<rparr>)"
| pgs_steer: "pg_run_step m s (s\<lparr>pgs_db := snd (pg_steerQueued i t sigText sig now (pgs_db s))\<rparr>)"
| pgs_ledger: "pg_run_step m s (s\<lparr>pgs_db := pg_ledger_record i a c out now (pgs_db s)\<rparr>)"

inductive pg_run_reachable :: "nat option \<Rightarrow> pg_system \<Rightarrow> bool" for m where
  pgs_init: "pg_run_reachable m \<lparr>pgs_db = empty_run_db, pgs_reads = [], pgs_used = []\<rparr>"
| pgs_next: "pg_run_reachable m s \<Longrightarrow> pg_run_step m s s' \<Longrightarrow> pg_run_reachable m s'"

text \<open>As long as a row holds the token of a run that was read, the two agree on what a failure decides by.\<close>

definition lease_view :: "run \<Rightarrow> nat \<times> nat \<times> string" where
  "lease_view r = (run_errorAttempts r, run_maxAttempts r, run_sessionId r)"

definition reads_current :: "pg_system \<Rightarrow> bool" where
  "reads_current s \<longleftrightarrow>
     (\<forall>q \<in> set (pgs_reads s). set_option (run_leaseToken q) \<subseteq> set (pgs_used s)) \<and>
     (\<forall>r \<in> set (pg_rows (pgs_db s)). set_option (run_leaseToken r) \<subseteq> set (pgs_used s)) \<and>
     (\<forall>q \<in> set (pgs_reads s). \<forall>r. pg_getRun (run_id q) (pgs_db s) = Some r \<longrightarrow> run_leaseToken r = run_leaseToken q \<longrightarrow>
        run_leaseToken q \<noteq> None \<longrightarrow> lease_view r = lease_view q)"

definition pg_system_ok :: "pg_system \<Rightarrow> bool" where
  "pg_system_ok s \<longleftrightarrow> store_ok (store_of (pgs_db s)) \<and> reads_current s"

subsection \<open>Every statement keeps the invariant\<close>

lemma update_store_ok:
  assumes ok: "store_ok (store_of db)" and f: "\<And>row. rr_run (f row) = g (rr_run row)"
    and g: "\<And>r. run_id (g r) = run_id r" "\<And>r. run_sessionId (g r) = run_sessionId r"
    and row: "\<And>r. pg_getRun i db = Some r \<Longrightarrow> cond r \<Longrightarrow> run_ok r \<Longrightarrow>
      run_ok (g r) \<and> (isTerminal (run_status (g r)) \<longleftrightarrow> isTerminal (run_status r)) \<and> (run_status (g r) = Running \<longrightarrow> run_status r = Running)"
  shows "store_ok (store_of (snd (update_run i cond f db)))"
proof (cases "\<exists>r. pg_getRun i db = Some r \<and> cond r")
  case True
  then obtain r where r: "pg_getRun i db = Some r" "cond r" by blast
  have "run_ok r" using store_okD(2) [OF ok, of i r] r(1) by (simp add: get_store_of)
  note keeps = row [OF r this]
  have "store_ok (put_run i g (store_of db))"
    using ok r g keeps by (intro store_ok_put [where r = r]) (simp_all add: get_store_of)
  then show ?thesis using r by (simp add: store_of_update [OF ok f g(1)])
next
  case False
  then have "store_of (snd (update_run i cond f db)) = store_of db"
    by (auto simp: store_of_update [OF ok f g(1)] split: option.split)
  with ok show ?thesis by simp
qed

lemma finish_store_ok:
  assumes ok: "store_ok (store_of db)" and f: "\<And>row. rr_run (f row) = g (rr_run row)" and g: "\<And>r. run_id (g r) = run_id r"
    and row: "\<And>r. pg_getRun i db = Some r \<Longrightarrow> cond r \<Longrightarrow> run_ok r \<Longrightarrow>
      run_ok (g r) \<and> isTerminal (run_status (g r)) \<and> \<not> isTerminal (run_status r)"
    and hit: "fst (update_run i cond f db)"
  shows "store_ok (store_of (pg_settle i (snd (update_run i cond f db))))"
proof -
  obtain r where r: "pg_getRun i db = Some r" "cond r" using hit store_of_update(2) [OF ok f g] by blast
  have "run_ok r" using store_okD(2) [OF ok, of i r] r(1) by (simp add: get_store_of)
  note keeps = row [OF r this]
  have "store_ok (settle i (put_run i g (store_of db)))"
    using ok r g keeps by (intro store_ok_finish [where r = r]) (simp_all add: get_store_of)
  then show ?thesis using r by (simp add: store_of_settle store_of_update [OF ok f g])
qed

lemma update_refused: "\<not> fst (update_run i cond f db) \<Longrightarrow> snd (update_run i cond f db) = db"
proof -
  assume "\<not> fst (update_run i cond f db)"
  then have "map (\<lambda>r. if run_id (rr_run r) = i \<and> cond (rr_run r) then f r else r) (db_runs db) = db_runs db"
    by (intro map_idI) (auto simp: update_run_def list_ex_iff pg_rows_def)
  then show ?thesis by (simp add: update_run_def)
qed

lemmas in_run_store_ok = update_store_ok [where f = "in_run g" and g = g for g, OF _ in_run_simps(1)]
  and in_run_finish_ok = finish_store_ok [where f = "in_run g" and g = g for g, OF _ in_run_simps(1)]

lemma pg_heartbeat_ok: "store_ok (store_of db) \<Longrightarrow> store_ok (store_of (snd (pg_heartbeat i tok ttl now db)))"
  unfolding pg_heartbeat_def by (erule in_run_store_ok) (auto simp: holds_lease_def intro: run_ok_extend)

lemma pg_release_ok: "store_ok (store_of db) \<Longrightarrow> store_ok (store_of (snd (pg_releaseLease i tok db)))"
  unfolding pg_releaseLease_def
  by (erule in_run_store_ok) (auto simp: holds_lease_def isTerminal_def intro: run_ok_release)

lemma pg_fence_ok: "store_ok (store_of db) \<Longrightarrow> store_ok (store_of (snd (pg_fence r now tok db)))"
  unfolding pg_fence_def by (erule in_run_store_ok) (auto simp: leaseLapsed_def intro: run_ok_fence)

lemma pg_note_ok: "store_ok (store_of db) \<Longrightarrow> store_ok (store_of (snd (pg_noteTurnUserSeq i n db)))"
  unfolding pg_noteTurnUserSeq_def by (erule in_run_store_ok) (auto simp: run_ok_def)

lemma pg_delivery_ok: "store_ok (store_of db) \<Longrightarrow> store_ok (store_of (snd (pg_setDeliveryState i t d db)))"
  unfolding pg_setDeliveryState_def by (erule in_run_store_ok) (auto simp: run_ok_def)

lemma pg_edit_ok: "store_ok (store_of db) \<Longrightarrow> store_ok (store_of (snd (pg_editPendingText i new old db)))"
  unfolding pg_editPendingText_def by (erule in_run_store_ok) (auto simp: run_ok_def)

lemma pg_returned_ok: "store_ok (store_of db) \<Longrightarrow> store_ok (store_of (pg_markReturned i now db))"
  unfolding pg_markReturned_def by (erule update_store_ok [where g = "\<lambda>r. r"]) auto

lemma delete_store_ok:
  assumes ok: "store_ok (store_of db)" and cond: "\<And>r. cond r \<Longrightarrow> \<not> isTerminal (run_status r)"
  shows "store_ok (store_of (snd (delete_run i cond db)))"
proof (cases "\<exists>r. pg_getRun i db = Some r \<and> cond r")
  case True
  then obtain r where r: "pg_getRun i db = Some r" "cond r" by blast
  have only: "run_id q = i \<and> cond q \<longleftrightarrow> run_id q = i" if "q \<in> set (pg_rows db)" for q
    using pg_getRun_row [OF ok, of q] that r by auto
  have "filter (\<lambda>q. \<not> (run_id (rr_run q) = i \<and> cond (rr_run q))) (db_runs db) = filter (\<lambda>q. run_id (rr_run q) \<noteq> i) (db_runs db)"
    using only by (intro filter_cong) (auto simp: pg_rows_def)
  then have "store_of (snd (delete_run i cond db)) = (store_of db)\<lparr>rs_runs := AList.delete i (rs_runs (store_of db))\<rparr>"
    by (simp add: delete_run_def store_of_def createMemoryRunStore_def pg_rows_def eq_commute [of i] AList.delete_eq filter_map comp_def)
  then show ?thesis
    using store_ok_delete [OF ok, of i r] r cond by (simp add: get_store_of)
next
  case False
  then have "\<not> (run_id q = i \<and> cond q)" if "q \<in> set (pg_rows db)" for q using pg_getRun_row [OF ok, of q] that by auto
  then have "filter (\<lambda>q. \<not> (run_id (rr_run q) = i \<and> cond (rr_run q))) (db_runs db) = db_runs db"
    by (intro filter_True) (auto simp: pg_rows_def)
  with ok show ?thesis by (simp add: delete_run_def)
qed

lemma pg_withdraw_ok: "store_ok (store_of db) \<Longrightarrow> store_ok (store_of (snd (pg_withdraw i u db)))"
  unfolding pg_withdraw_def by (erule delete_store_ok) (auto simp: isTerminal_def)

lemma pg_steer_ok:
  assumes "store_ok (store_of db)"
  shows "store_ok (store_of (snd (pg_steerQueued i t sigText sig now db)))"
proof -
  let ?moves = "\<lambda>r. i \<noteq> t \<and> list_ex (\<lambda>r. run_id r = t \<and> \<not> isTerminal (run_status r)) (pg_rows db) \<and>
    run_status r = Pending \<and> Some (shown_text (run_request r)) = sigText"
  have "store_ok (store_of (snd (delete_run i ?moves db)))"
    using assms by (rule delete_store_ok) (auto simp: isTerminal_def)
  with assms show ?thesis by (auto simp: pg_steerQueued_def Let_def split: prod.splits bool.splits)
qed

lemma pg_insert_ok:
  assumes ok: "store_ok (store_of db)" and new: "pg_getRun uuid db = None"
  shows "store_ok (store_of (snd (pg_insert inp uuid now db)))"
proof -
  have "AList.update uuid r (map (\<lambda>r. (run_id r, r)) (pg_rows db)) = map (\<lambda>r. (run_id r, r)) (pg_rows db) @ [(uuid, r)]" for r
    using new get_store_of [of uuid db] by (intro update_absent) (simp add: get_run_def store_of_def)
  moreover have "store_ok ((store_of db)\<lparr>rs_runs := AList.update uuid (new_run inp uuid now) (rs_runs (store_of db))\<rparr>)"
    using ok new by (intro store_ok_add run_ok_new) (simp_all add: get_store_of new_run_def)
  ultimately have "store_ok (store_of (db\<lparr>db_runs := db_runs db @ [\<lparr>rr_run = new_run inp uuid now, rr_seq = n, rr_retryAfter = 0,
      rr_returnedAt = None\<rparr>]\<rparr>))" for n
    by (simp add: store_of_def createMemoryRunStore_def pg_rows_def new_run_def)
  then show ?thesis using ok by (simp add: pg_insert_def Let_def) (simp add: store_of_def pg_rows_def)
qed

text \<open>The unique index keeps a second running run out, whatever the snapshot of the claim was.\<close>

lemma pg_claim_cases:
  assumes "pg_claim w ttl now tok runId sessionId snapshot locked db = (res, db')"
  obtains "res = None" "db' = db"
  | c row where "c \<in> set (claim_candidates now runId sessionId snapshot)" "\<not> locked c"
      "row \<in> set (db_runs db)" "run_id (rr_run row) = run_id (rr_run c)" "waits now row"
      "\<not> list_ex (\<lambda>r. run_status r = Running \<and> run_sessionId r = run_sessionId (rr_run row)) (pg_rows db)"
      "res = Some (leased w ttl now tok (rr_run row))"
      "db' = snd (update_run (run_id (rr_run row)) (\<lambda>_. True) (in_run (leased w ttl now tok)) db)"
proof (cases "List.find (\<lambda>c. \<not> locked c) (claim_candidates now runId sessionId snapshot)")
  case None
  then show ?thesis using assms that(1) by (simp add: pg_claim_def)
next
  case (Some c)
  show ?thesis
  proof (cases "List.find (\<lambda>r. run_id (rr_run r) = run_id (rr_run c)) (db_runs db)")
    case None
    then show ?thesis using assms Some that(1) by (simp add: pg_claim_def)
  next
    case row: (Some row)
    show ?thesis
      using assms Some row that(1) that(2) [of c row] find_Some_mem [OF Some] find_Some_mem [OF row]
      by (simp add: pg_claim_def split: if_splits)
  qed
qed

lemma leased_fields [simp]:
  "run_id (leased w ttl now tok r) = run_id r" "run_sessionId (leased w ttl now tok r) = run_sessionId r"
  "run_status (leased w ttl now tok r) = Running" "run_leaseToken (leased w ttl now tok r) = Some tok"
  by (simp_all add: leased_def)

lemma pg_claim_ok:
  assumes ok: "store_ok (store_of db)"
  shows "store_ok (store_of (snd (pg_claim w ttl now tok runId sessionId snapshot locked db)))"
proof -
  obtain res db' where c: "pg_claim w ttl now tok runId sessionId snapshot locked db = (res, db')" by fastforce
  then show ?thesis
  proof (cases rule: pg_claim_cases)
    case (2 c row)
    have r: "pg_getRun (run_id (rr_run row)) db = Some (rr_run row)" using pg_getRun_row [OF ok, of "rr_run row"] 2(3) by (simp add: pg_rows_def)
    have "run_status q \<noteq> Running" if "pg_getRun j db = Some q" "run_sessionId q = run_sessionId (rr_run row)" for j q
      using 2(6) pg_getRun_mem [OF that(1)] that(2) by (auto simp: list_ex_iff)
    moreover have "run_ok (leased w ttl now tok (rr_run row))"
      using store_okD(2) [OF ok] r 2(5) by (intro run_ok_leased) (auto simp: get_store_of waits_def)
    moreover have "run_status (rr_run row) = Pending" using 2(5) by (simp add: waits_def)
    ultimately have "store_ok (put_run (run_id (rr_run row)) (leased w ttl now tok) (store_of db))"
      using ok r by (intro store_ok_put [where r = "rr_run row"]) (auto simp: get_store_of isTerminal_def)
    then show ?thesis
      using c r by (simp add: 2(8) store_of_update [where g = "leased w ttl now tok" and f = "in_run (leased w ttl now tok)", OF ok in_run_simps(1) leased_fields(1)])
  qed (use ok c in auto)
qed

lemma pg_complete_ok:
  assumes ok: "store_ok (store_of db)"
  shows "store_ok (store_of (snd (pg_complete i tok res now db)))"
proof -
  let ?g = "\<lambda>r. r\<lparr>run_status := Done, run_result := Some res, run_leaseToken := None, run_leaseExpiresAt := None,
      run_finishedAt := Some now, run_dedupKey := (if releasesDedupKey res then None else run_dedupKey r)\<rparr>"
  let ?u = "update_run i (\<lambda>r. run_leaseToken r = Some tok) (in_run ?g) db"
  have ended: "store_ok (store_of (pg_settle i (snd ?u)))" if "fst ?u"
  proof (rule in_run_finish_ok [OF ok _ _ that])
    fix r assume "run_leaseToken r = Some tok" "run_ok r"
    then show "run_ok (?g r) \<and> isTerminal (run_status (?g r)) \<and> \<not> isTerminal (run_status r)"
      by (auto simp: run_ok_def isTerminal_def)
  qed simp
  show ?thesis
    using ended ok update_refused [of i "\<lambda>r. run_leaseToken r = Some tok" "in_run ?g" db]
    by (cases ?u; cases "fst ?u") (auto simp: pg_complete_def)
qed

text \<open>A failure decides by the run as it was read; while the row holds the same token, it decides by the row.\<close>

lemma pg_retire_ok:
  assumes ok: "store_ok (store_of db)"
    and current: "\<And>r. pg_getRun (run_id seen) db = Some r \<Longrightarrow> run_leaseToken r = run_leaseToken seen \<Longrightarrow>
      run_leaseToken seen \<noteq> None \<Longrightarrow> lease_view r = lease_view seen"
  shows "store_ok (store_of (snd (pg_retire m seen err retry opts now db)))"
proof (cases "retry \<and> errors_after opts seen < run_maxAttempts seen \<and> \<not> pg_overClaimed m seen")
  case True
  let ?g = "\<lambda>r. (unleased opts r)\<lparr>run_status := Pending\<rparr>"
  let ?f = "\<lambda>row. (in_run ?g row)\<lparr>rr_retryAfter := now + max 0 (case ro_retryAfterMs opts of None \<Rightarrow> 0 | Some d \<Rightarrow> d)\<rparr>"
  have "store_ok (store_of (snd (update_run (run_id seen) (retire_applies seen opts) ?f db)))"
  proof (rule update_store_ok [OF ok, where g = ?g])
    fix r assume r: "pg_getRun (run_id seen) db = Some r" "retire_applies seen opts r" "run_ok r"
    then have "lease_view r = lease_view seen" using current [OF r(1)] by (simp add: retire_applies_def)
    then have "errors_after opts r < run_maxAttempts r" using True by (simp add: lease_view_def errors_after_def)
    then show "run_ok (?g r) \<and> (isTerminal (run_status (?g r)) \<longleftrightarrow> isTerminal (run_status r)) \<and>
        (run_status (?g r) = Running \<longrightarrow> run_status r = Running)"
      using r(2,3) by (auto simp: retire_applies_def unleased_def run_ok_def isTerminal_def errors_after_def)
  qed (simp_all add: unleased_def)
  then show ?thesis using True by (simp add: pg_retire_def split_def)
next
  case False
  obtain result where "result \<noteq> None" and
    db': "snd (pg_retire m seen err retry opts now db) =
      (let u = update_run (run_id seen) (retire_applies seen opts)
         (in_run (\<lambda>r. (unleased opts r)\<lparr>run_status := Failed, run_result := result, run_finishedAt := Some now\<rparr>)) db in
       if fst u then pg_settle (run_id seen) (snd u) else snd u)"
    using False by (simp add: pg_retire_def split_def Let_def) blast
  let ?g = "\<lambda>r. (unleased opts r)\<lparr>run_status := Failed, run_result := result, run_finishedAt := Some now\<rparr>"
  have "run_ok (?g r) \<and> isTerminal (run_status (?g r)) \<and> \<not> isTerminal (run_status r)" if "retire_applies seen opts r" "run_ok r" for r
    using that \<open>result \<noteq> None\<close> by (auto simp: retire_applies_def unleased_def run_ok_def isTerminal_def errors_after_def)
  then have "store_ok (store_of (pg_settle (run_id seen) (snd (update_run (run_id seen) (retire_applies seen opts) (in_run ?g) db))))"
    if "fst (update_run (run_id seen) (retire_applies seen opts) (in_run ?g) db)"
    using that by (intro in_run_finish_ok [OF ok]) (auto simp: unleased_def)
  then show ?thesis using ok update_refused by (auto simp: db' Let_def)
qed

subsection \<open>What was read stays true of the row\<close>

lemma pg_rows_update: "(\<And>row. rr_run (f row) = g (rr_run row)) \<Longrightarrow>
    pg_rows (snd (update_run i cond f db)) = map (\<lambda>r. if run_id r = i \<and> cond r then g r else r) (pg_rows db)"
  by (simp add: pg_rows_def update_run_def comp_def if_distrib)

lemma pg_rows_settle [simp]: "pg_rows (pg_settle i db) = pg_rows db"
  by (simp add: pg_settle_def pg_rows_def split: option.split)

lemma pg_getRun_rows: "pg_rows db' = pg_rows db \<Longrightarrow> pg_getRun i db' = pg_getRun i db"
  by (simp add: pg_getRun_def)

lemma reads_current_rows:
  "reads_current s \<Longrightarrow> pg_rows db = pg_rows (pgs_db s) \<Longrightarrow> reads_current (s\<lparr>pgs_db := db\<rparr>)"
  by (simp add: reads_current_def pg_getRun_def)

lemma reads_current_more: "reads_current s \<Longrightarrow> reads_current (s\<lparr>pgs_used := tok # pgs_used s\<rparr>)"
  by (auto simp: reads_current_def)

lemma reads_current_update:
  assumes s: "reads_current s" and ok: "store_ok (store_of (pgs_db s))"
    and f: "\<And>row. rr_run (f row) = g (rr_run row)" and g: "\<And>r. run_id (g r) = run_id r"
    and row: "\<And>r. cond r \<Longrightarrow> run_leaseToken (g r) = None \<or> run_leaseToken (g r) = run_leaseToken r \<and> lease_view (g r) = lease_view r \<or>
      (\<exists>t. run_leaseToken (g r) = Some t \<and> t \<in> set used \<and> t \<notin> set (pgs_used s))"
    and used: "set (pgs_used s) \<subseteq> set used"
  shows "reads_current (s\<lparr>pgs_db := snd (update_run i cond f (pgs_db s)), pgs_used := used\<rparr>)"
proof -
  have reads: "set_option (run_leaseToken q) \<subseteq> set (pgs_used s)" if "q \<in> set (pgs_reads s)" for q
    using s that unfolding reads_current_def by blast
  have rows: "set_option (run_leaseToken r) \<subseteq> set (pgs_used s)" if "r \<in> set (pg_rows (pgs_db s))" for r
    using s that unfolding reads_current_def by blast
  have agree: "lease_view r = lease_view q" if "q \<in> set (pgs_reads s)" "pg_getRun (run_id q) (pgs_db s) = Some r"
      "run_leaseToken r = run_leaseToken q" "run_leaseToken q \<noteq> None" for q r
    using s that unfolding reads_current_def by blast
  have tokens: "set_option (run_leaseToken r) \<subseteq> set used" if mem: "r \<in> set (pg_rows (snd (update_run i cond f (pgs_db s))))" for r
  proof -
    obtain p where p: "p \<in> set (pg_rows (pgs_db s))" "r = (if run_id p = i \<and> cond p then g p else p)"
      using mem unfolding pg_rows_update [where f = f and g = g, OF f] by auto
    then show ?thesis using rows [OF p(1)] row [of p] used by (auto split: if_splits)
  qed
  have "lease_view r = lease_view q"
    if q: "q \<in> set (pgs_reads s)" and r: "pg_getRun (run_id q) (snd (update_run i cond f (pgs_db s))) = Some r"
      and t: "run_leaseToken r = run_leaseToken q" "run_leaseToken q \<noteq> None" for q r
  proof -
    obtain p where p: "pg_getRun (run_id q) (pgs_db s) = Some p" "r = (if run_id q = i \<and> cond p then g p else p)"
      using r unfolding get_update_run [where f = f and g = g, OF ok f g] by auto
    show ?thesis
    proof (cases "run_id q = i \<and> cond p")
      case True
      then have "run_leaseToken r = run_leaseToken p \<and> lease_view r = lease_view p"
        using row [of p] p(2) t reads [OF q] by auto
      then show ?thesis using agree [OF q p(1)] t by simp
    next
      case False
      with p(2) have "r = p" by auto
      with agree [OF q p(1)] t show ?thesis by simp
    qed
  qed
  with reads tokens used show ?thesis unfolding reads_current_def by auto
qed

lemma reads_current_in_run:
  assumes "reads_current s" "store_ok (store_of (pgs_db s))" "\<And>r. run_id (g r) = run_id r"
    and "\<And>r. cond r \<Longrightarrow> run_leaseToken (g r) = None \<or> run_leaseToken (g r) = run_leaseToken r \<and> lease_view (g r) = lease_view r"
    and "\<And>row. rr_run (f row) = g (rr_run row)"
  shows "reads_current (s\<lparr>pgs_db := snd (update_run i cond f (pgs_db s))\<rparr>)"
  using reads_current_update [OF assms(1,2,5,3), of cond "pgs_used s" i] assms(4) by simp

lemma reads_current_delete:
  assumes s: "reads_current s" and ok: "store_ok (store_of (pgs_db s))"
  shows "reads_current (s\<lparr>pgs_db := snd (delete_run i cond (pgs_db s))\<rparr>)"
proof -
  have sub: "set (pg_rows (snd (delete_run i cond (pgs_db s)))) \<subseteq> set (pg_rows (pgs_db s))"
    by (auto simp: delete_run_def pg_rows_def)
  have "pg_getRun j (pgs_db s) = Some r" if "pg_getRun j (snd (delete_run i cond (pgs_db s))) = Some r" for j r
    using pg_getRun_mem [OF that] sub pg_getRun_row [OF ok, of r] by auto
  with s sub show ?thesis unfolding reads_current_def by fastforce
qed

lemma reads_current_insert:
  assumes s: "reads_current s" and ok: "store_ok (store_of (pgs_db s))"
  shows "reads_current (s\<lparr>pgs_db := snd (pg_insert inp uuid now (pgs_db s))\<rparr>)"
proof -
  have "pg_rows (snd (pg_insert inp uuid now (pgs_db s))) = pg_rows (pgs_db s) \<or>
      pg_rows (snd (pg_insert inp uuid now (pgs_db s))) = pg_rows (pgs_db s) @ [new_run inp uuid now]"
    by (auto simp: pg_insert_def Let_def pg_rows_def)
  then show ?thesis
  proof
    assume rows: "pg_rows (snd (pg_insert inp uuid now (pgs_db s))) = pg_rows (pgs_db s) @ [new_run inp uuid now]"
    have "pg_getRun j (pgs_db s) = Some r" if "pg_getRun j (snd (pg_insert inp uuid now (pgs_db s))) = Some r" "run_leaseToken r \<noteq> None" for j r
    proof -
      have "r \<in> set (pg_rows (pgs_db s))" using pg_getRun_mem [OF that(1)] that(2) by (auto simp: rows new_run_def)
      then show ?thesis using pg_getRun_row [OF ok, of r] pg_getRun_mem [OF that(1)] by simp
    qed
    with s show ?thesis unfolding reads_current_def by (auto simp: rows new_run_def)
  qed (rule reads_current_rows [OF s])
qed

lemma reads_current_claim:
  assumes "reads_current s" "store_ok (store_of (pgs_db s))" "tok \<notin> set (pgs_used s)"
  shows "reads_current (s\<lparr>pgs_db := snd (pg_claim w ttl now tok runId sessionId snapshot locked (pgs_db s)), pgs_used := tok # pgs_used s\<rparr>)"
proof -
  obtain res db' where c: "pg_claim w ttl now tok runId sessionId snapshot locked (pgs_db s) = (res, db')" by fastforce
  then show ?thesis
  proof (cases rule: pg_claim_cases)
    case 1
    with c show ?thesis using reads_current_more [OF assms(1), of tok] by simp
  next
    case (2 c row)
    have "reads_current (s\<lparr>pgs_db := snd (update_run (run_id (rr_run row)) (\<lambda>_. True) (in_run (leased w ttl now tok)) (pgs_db s)),
        pgs_used := tok # pgs_used s\<rparr>)"
      by (rule reads_current_update [OF assms(1,2), where g = "leased w ttl now tok"]) (use assms(3) in auto)
    with c 2 show ?thesis by simp
  qed
qed

lemma reads_current_fence:
  assumes s: "reads_current s" and ok: "store_ok (store_of (pgs_db s))" and q: "q \<in> set (pgs_reads s)" and tok: "tok \<notin> set (pgs_used s)"
    and fence: "pg_fence q now tok (pgs_db s) = (b, db')"
  shows "reads_current \<lparr>pgs_db = db', pgs_reads = (if b then q\<lparr>run_leaseToken := Some tok\<rparr> # pgs_reads s else pgs_reads s), pgs_used = tok # pgs_used s\<rparr>"
proof -
  let ?cond = "\<lambda>r. run_leaseToken q \<noteq> None \<and> run_leaseToken r = run_leaseToken q \<and> leaseLapsed r now"
  let ?g = "\<lambda>r. r\<lparr>run_leaseToken := Some tok, run_leaseExpiresAt := Some (now + FENCE_HOLD_MS)\<rparr>"
  have db': "db' = snd (update_run (run_id q) ?cond (in_run ?g) (pgs_db s))" and b: "b = fst (update_run (run_id q) ?cond (in_run ?g) (pgs_db s))"
    using fence by (simp_all add: pg_fence_def)
  have cur: "reads_current (s\<lparr>pgs_db := db', pgs_used := tok # pgs_used s\<rparr>)"
    unfolding db' by (rule reads_current_update [OF s ok, where g = ?g]) (use tok in \<open>auto simp: lease_view_def\<close>)
  have "lease_view r = lease_view q" if hit: "b" and found: "pg_getRun (run_id q) db' = Some r" for r
  proof -
    obtain p where p: "pg_getRun (run_id q) (pgs_db s) = Some p" "?cond p"
      using hit store_of_update(2) [OF ok, where g = ?g and f = "in_run ?g" and i = "run_id q" and cond = ?cond] by (auto simp: b)
    then have "lease_view p = lease_view q" using s q unfolding reads_current_def by blast
    moreover have "r = ?g p" using found p get_update_run [OF ok, where g = ?g and f = "in_run ?g" and i = "run_id q" and cond = ?cond] by (simp add: db')
    ultimately show ?thesis by (simp add: lease_view_def)
  qed
  then show ?thesis using cur unfolding reads_current_def by (auto simp: lease_view_def)
qed

lemma reads_current_complete:
  assumes "reads_current s" "store_ok (store_of (pgs_db s))"
  shows "reads_current (s\<lparr>pgs_db := snd (pg_complete i tok res now (pgs_db s))\<rparr>)"
proof -
  let ?g = "\<lambda>r. r\<lparr>run_status := Done, run_result := Some res, run_leaseToken := None, run_leaseExpiresAt := None,
      run_finishedAt := Some now, run_dedupKey := (if releasesDedupKey res then None else run_dedupKey r)\<rparr>"
  let ?db = "snd (update_run i (\<lambda>r. run_leaseToken r = Some tok) (in_run ?g) (pgs_db s))"
  have "reads_current (s\<lparr>pgs_db := ?db\<rparr>)" by (rule reads_current_in_run [OF assms, where g = ?g]) auto
  then have "reads_current (s\<lparr>pgs_db := db'\<rparr>)" if "pg_rows db' = pg_rows ?db" for db' using reads_current_rows [of "s\<lparr>pgs_db := ?db\<rparr>" db'] that by simp
  moreover have "pg_rows (snd (pg_complete i tok res now (pgs_db s))) = pg_rows ?db"
    by (simp add: pg_complete_def split: prod.split bool.split)
  ultimately show ?thesis by blast
qed

lemma reads_current_retire:
  assumes "reads_current s" "store_ok (store_of (pgs_db s))"
  shows "reads_current (s\<lparr>pgs_db := snd (pg_retire m seen err retry opts now (pgs_db s))\<rparr>)"
proof -
  obtain f g db where f: "\<And>row. rr_run (f row) = g (rr_run row)" and g: "\<And>r. run_id (g r) = run_id r \<and> run_leaseToken (g r) = None"
    and db: "db = snd (update_run (run_id seen) (retire_applies seen opts) f (pgs_db s))"
      "pg_rows (snd (pg_retire m seen err retry opts now (pgs_db s))) = pg_rows db"
  proof (cases "retry \<and> errors_after opts seen < run_maxAttempts seen \<and> \<not> pg_overClaimed m seen")
    case True
    then show ?thesis
      by (intro that [of _ "\<lambda>r. (unleased opts r)\<lparr>run_status := Pending\<rparr>"]) (auto simp: pg_retire_def split_def unleased_def)
  next
    case False
    let ?result = "Some ((bare_result TFailed)\<lparr>tr_sessionId := Some (run_sessionId seen), tr_reason := Some
      (if \<not> ro_countsAsError opts \<and> pg_overClaimed m seen \<and> retry \<and> errors_after opts seen < run_maxAttempts seen
                       then crash_loop_reason seen else err)\<rparr>)"
    let ?g = "\<lambda>r. (unleased opts r)\<lparr>run_status := Failed, run_result := ?result, run_finishedAt := Some now\<rparr>"
    show ?thesis
      by (rule that [of "in_run ?g" ?g "snd (update_run (run_id seen) (retire_applies seen opts) (in_run ?g) (pgs_db s))"])
        (use False in \<open>auto simp: pg_retire_def split_def unleased_def Let_def\<close>)
  qed
  have "reads_current (s\<lparr>pgs_db := db\<rparr>)" unfolding db(1)
    by (rule reads_current_in_run [OF assms, where f = f and g = g]) (use f g in auto)
  then show ?thesis
    using reads_current_rows [of "s\<lparr>pgs_db := db\<rparr>" "snd (pg_retire m seen err retry opts now (pgs_db s))"] db(2) by simp
qed

lemma reads_current_steer:
  assumes "reads_current s" "store_ok (store_of (pgs_db s))"
  shows "reads_current (s\<lparr>pgs_db := snd (pg_steerQueued i t sigText sig now (pgs_db s))\<rparr>)"
proof -
  let ?moves = "\<lambda>r. i \<noteq> t \<and> list_ex (\<lambda>r. run_id r = t \<and> \<not> isTerminal (run_status r)) (pg_rows (pgs_db s)) \<and>
    run_status r = Pending \<and> Some (shown_text (run_request r)) = sigText"
  let ?del = "snd (delete_run i ?moves (pgs_db s))"
  let ?db = "snd (pg_steerQueued i t sigText sig now (pgs_db s))"
  have "pg_rows ?db = pg_rows (pgs_db s) \<or> pg_rows ?db = pg_rows ?del"
    by (auto simp: pg_steerQueued_def Let_def pg_rows_def split: prod.splits bool.splits)
  then show ?thesis
    using reads_current_rows [OF assms(1), of ?db] reads_current_rows [OF reads_current_delete [OF assms, of i ?moves], of ?db] by auto
qed

subsection \<open>Reachable tables\<close>

lemma pg_run_step_ok: "pg_run_step m s s' \<Longrightarrow> pg_system_ok s \<Longrightarrow> pg_system_ok s'"
  unfolding pg_system_ok_def
proof (elim conjE, induction rule: pg_run_step.induct)
  case (pgs_insert uuid s inp now)
  then show ?case by (simp add: pg_insert_ok reads_current_insert)
next
  case (pgs_claim tok s w ttl now runId sessionId snapshot locked)
  then show ?case by (simp add: pg_claim_ok reads_current_claim)
next
  case (pgs_heartbeat s i tok ttl now)
  have "reads_current (s\<lparr>pgs_db := snd (pg_heartbeat i tok ttl now (pgs_db s))\<rparr>)" unfolding pg_heartbeat_def
    by (rule reads_current_in_run [OF pgs_heartbeat(2,1), where g = "\<lambda>r. r\<lparr>run_leaseExpiresAt := Some (now + ttl)\<rparr>"]) (auto simp: lease_view_def)
  with pgs_heartbeat show ?case by (simp add: pg_heartbeat_ok)
next
  case (pgs_release s i tok)
  have "reads_current (s\<lparr>pgs_db := snd (pg_releaseLease i tok (pgs_db s))\<rparr>)" unfolding pg_releaseLease_def
    by (rule reads_current_in_run [OF pgs_release(2,1),
        where g = "\<lambda>r. r\<lparr>run_status := Pending, run_leaseToken := None, run_leaseExpiresAt := None, run_workerId := None\<rparr>"]) auto
  with pgs_release show ?case by (simp add: pg_release_ok)
next
  case (pgs_complete s i tok res now)
  then show ?case by (simp add: pg_complete_ok reads_current_complete)
next
  case (pgs_read i s r)
  have "pg_getRun (run_id r) (pgs_db s) = Some r" "r \<in> set (pg_rows (pgs_db s))" using pg_getRun_mem [OF pgs_read(1)] pgs_read(1) by auto
  with pgs_read show ?case unfolding reads_current_def by auto
next
  case (pgs_retire r s err retry opts now)
  then have "store_ok (store_of (snd (pg_retire m r err retry opts now (pgs_db s))))"
    by (intro pg_retire_ok) (auto simp: reads_current_def)
  with pgs_retire show ?case by (simp add: reads_current_retire)
next
  case (pgs_fence r s tok now b db')
  then show ?case using pg_fence_ok [of "pgs_db s" r now tok] reads_current_fence [of s r tok now b db'] by simp
next
  case (pgs_note s i n)
  have "reads_current (s\<lparr>pgs_db := snd (pg_noteTurnUserSeq i n (pgs_db s))\<rparr>)" unfolding pg_noteTurnUserSeq_def
    by (rule reads_current_in_run [OF pgs_note(2,1), where g = "\<lambda>r. r\<lparr>run_turnUserSeq := Some n\<rparr>"]) (auto simp: lease_view_def)
  with pgs_note show ?case by (simp add: pg_note_ok)
next
  case (pgs_delivery s i otok ds)
  have "reads_current (s\<lparr>pgs_db := snd (pg_setDeliveryState i otok ds (pgs_db s))\<rparr>)" unfolding pg_setDeliveryState_def
    by (rule reads_current_in_run [OF pgs_delivery(2,1), where g = "\<lambda>r. r\<lparr>run_deliveryState := Some ds\<rparr>"]) (auto simp: lease_view_def)
  with pgs_delivery show ?case by (simp add: pg_delivery_ok)
next
  case (pgs_returned s i now)
  have "reads_current (s\<lparr>pgs_db := pg_markReturned i now (pgs_db s)\<rparr>)" unfolding pg_markReturned_def
    by (rule reads_current_in_run [OF pgs_returned(2,1), where g = "\<lambda>r. r"]) auto
  with pgs_returned show ?case by (simp add: pg_returned_ok)
next
  case (pgs_edit s i new old)
  have "reads_current (s\<lparr>pgs_db := snd (pg_editPendingText i new old (pgs_db s))\<rparr>)" unfolding pg_editPendingText_def
    by (rule reads_current_in_run [OF pgs_edit(2,1),
        where g = "\<lambda>r. r\<lparr>run_request := (run_request r)\<lparr>oi_text := new, oi_displayText := Some new\<rparr>\<rparr>"]) (auto simp: lease_view_def)
  with pgs_edit show ?case by (simp add: pg_edit_ok)
next
  case (pgs_withdraw s i u)
  then show ?case using reads_current_delete [of s i] by (simp add: pg_withdraw_ok) (simp add: pg_withdraw_def)
next
  case (pgs_steer s i t sigText sig now)
  then show ?case by (simp add: pg_steer_ok reads_current_steer)
next
  case (pgs_ledger s i a c out now)
  have "pg_rows (pg_ledger_record i a c out now (pgs_db s)) = pg_rows (pgs_db s)" by (simp add: pg_ledger_record_def pg_rows_def)
  with pgs_ledger show ?case by (simp add: reads_current_rows) (simp add: pg_ledger_record_def)
qed

lemma pg_run_reachable_ok: "pg_run_reachable m s \<Longrightarrow> pg_system_ok s"
proof (induction rule: pg_run_reachable.induct)
  case pgs_init
  have "store_of empty_run_db = createMemoryRunStore None" by (simp add: store_of_def empty_run_db_def pg_rows_def createMemoryRunStore_def)
  then show ?case by (simp add: pg_system_ok_def store_ok_empty reads_current_def empty_run_db_def pg_rows_def)
qed (rule pg_run_step_ok)

lemma at_most_one: "distinct xs \<Longrightarrow> (\<And>x y. x \<in> set xs \<Longrightarrow> y \<in> set xs \<Longrightarrow> x = y) \<Longrightarrow> length xs \<le> 1"
  by (simp add: card_le_Suc0_iff_eq flip: distinct_card)

lemma pg_reachable_store: "pg_run_reachable m s \<Longrightarrow> store_ok (store_of (pgs_db s))"
  by (drule pg_run_reachable_ok) (simp add: pg_system_ok_def)

text \<open>C4: In every state the run table can reach a session has at most one running run, under every interleaving of statements and
  however old the snapshot is from which a claim chooses its candidate: the unique index refuses what the snapshot did not show.\<close>

theorem pg_single_flight:
  assumes "pg_run_reachable m s"
  shows "length (filter (\<lambda>r. run_status r = Running \<and> run_sessionId r = sessionId) (pg_rows (pgs_db s))) \<le> 1"
proof -
  let ?running = "filter (\<lambda>r. run_status r = Running \<and> run_sessionId r = sessionId) (pg_rows (pgs_db s))"
  have ok: "store_ok (store_of (pgs_db s))" using assms by (rule pg_reachable_store)
  have "r = r'" if "r \<in> set ?running" "r' \<in> set ?running" for r r'
  proof -
    have "pg_getRun (run_id r) (pgs_db s) = Some r" "pg_getRun (run_id r') (pgs_db s) = Some r'"
      using pg_getRun_row [OF ok, of r] pg_getRun_row [OF ok, of r'] that by auto
    then have stored: "get_run (run_id r) (store_of (pgs_db s)) = Some r" "get_run (run_id r') (store_of (pgs_db s)) = Some r'"
      by (simp_all only: get_store_of)
    have "run_id r = run_id r'" by (rule running_unique [OF ok stored]) (use that in auto)
    then have "Some r = Some r'" using stored by (simp only:)
    then show ?thesis by simp
  qed
  moreover have "distinct ?running" using rows_distinct [OF ok] by (simp add: distinct_map)
  ultimately show ?thesis by (rule at_most_one [rotated])
qed

subsection \<open>Finished runs\<close>

lemma update_keeps_outcome:
  assumes "store_ok (store_of db)" "\<And>row. rr_run (f row) = g (rr_run row)" "\<And>r. run_id (g r) = run_id r"
    and "pg_getRun i db = Some r" and "j = i \<Longrightarrow> cond r \<Longrightarrow> outcome (g r) = outcome r"
  shows "\<exists>r'. pg_getRun i (snd (update_run j cond f db)) = Some r' \<and> outcome r' = outcome r"
  using assms(4,5) by (simp add: get_update_run [where f = f and g = g, OF assms(1-3)])

lemmas in_run_keeps_outcome = update_keeps_outcome [where f = "in_run g" and g = g for g, OF _ in_run_simps(1)]

lemma delete_keeps:
  assumes "store_ok (store_of db)" "pg_getRun i db = Some r" "\<not> cond r"
  shows "pg_getRun i (snd (delete_run j cond db)) = Some r"
proof -
  have "rr_run x = r" if "x \<in> set (db_runs db)" "run_id (rr_run x) = i" for x
    using assms(2) pg_getRun_row [OF assms(1), of "rr_run x"] that by (simp add: pg_rows_def)
  then have r: "filter (\<lambda>q. run_id q = i) (pg_rows (snd (delete_run j cond db))) = filter (\<lambda>q. run_id q = i) (pg_rows db)"
    using assms(3) unfolding delete_run_def pg_rows_def
    by (simp add: filter_map comp_def) (rule arg_cong [where f = "map rr_run"], rule filter_cong, auto)
  have "List.find P xs = (case filter P xs of [] \<Rightarrow> None | y # _ \<Rightarrow> Some y)" for P :: "run \<Rightarrow> bool" and xs
    by (induction xs) auto
  with r assms(2) show ?thesis by (simp add: pg_getRun_def)
qed

lemma outcome_neutral [simp]:
  "outcome (r\<lparr>run_leaseExpiresAt := e\<rparr>) = outcome r" "outcome (r\<lparr>run_turnUserSeq := q\<rparr>) = outcome r"
  "outcome (r\<lparr>run_deliveryState := d\<rparr>) = outcome r"
  by (simp_all add: outcome_def)

lemma find_prefix: "List.find P xs = Some x \<Longrightarrow> List.find P (xs @ ys) = Some x"
  by (induction xs) auto

lemma pg_settle_get [simp]: "pg_getRun i (pg_settle j db) = pg_getRun i db"
  by (simp add: pg_getRun_def)

lemma pg_retire_keeps:
  assumes "store_ok (store_of db)" "pg_getRun i db = Some r" "isTerminal (run_status r)"
  shows "\<exists>r'. pg_getRun i (snd (pg_retire m seen err retry opts now db)) = Some r' \<and> outcome r' = outcome r"
proof -
  have off: "\<not> retire_applies seen opts r" using assms(3) by (auto simp: retire_applies_def isTerminal_def)
  note keeps = update_keeps_outcome [OF assms(1) _ _ assms(2), where cond = "retire_applies seen opts" and j = "run_id seen"]
  show ?thesis
    using off
    by (auto simp: pg_retire_def split_def Let_def unleased_def intro!: keeps)
qed

lemma pg_step_keeps_outcome:
  assumes step: "pg_run_step m s s'" and ok: "store_ok (store_of (pgs_db s))"
    and r: "pg_getRun i (pgs_db s) = Some r" and t: "isTerminal (run_status r)"
  shows "\<exists>r'. pg_getRun i (pgs_db s') = Some r' \<and> outcome r' = outcome r"
proof -
  have rok: "run_ok r" using store_okD(2) [OF ok, of i r] r by (simp add: get_store_of)
  then have unleased: "run_leaseToken r = None" and st: "run_status r \<noteq> Pending" "run_status r \<noteq> Running"
    using t terminal_unleased by (auto simp: isTerminal_def)
  note keeps = in_run_keeps_outcome [OF ok _ r]
  show ?thesis
    using step
  proof cases
    case (pgs_insert uuid inp now)
    then show ?thesis using r by (auto simp: pg_insert_def Let_def pg_getRun_def pg_rows_def find_prefix)
  next
    case (pgs_claim tok w ttl now runId sessionId snapshot locked)
    obtain res db' where c: "pg_claim w ttl now tok runId sessionId snapshot locked (pgs_db s) = (res, db')" by fastforce
    then show ?thesis
    proof (cases rule: pg_claim_cases)
      case (2 c row)
      have "rr_run row = r" if "run_id (rr_run row) = i"
        using pg_getRun_row [OF ok, of "rr_run row"] 2(3) r that by (simp add: pg_rows_def)
      then have "run_id (rr_run row) \<noteq> i" using 2(5) st by (auto simp: waits_def)
      then show ?thesis using pgs_claim c 2 by (auto intro!: keeps)
    qed (use pgs_claim c r in auto)
  next
    case pgs_retire
    then show ?thesis using pg_retire_keeps [OF ok r t] by simp
  next
    case (pgs_fence q tok now b db')
    then have "db' = snd (pg_fence q now tok (pgs_db s))" by simp
    then show ?thesis using pgs_fence(1) st by (auto simp: pg_fence_def leaseLapsed_def intro!: keeps)
  next
    case pgs_withdraw
    then show ?thesis using delete_keeps [OF ok r] st by (auto simp: pg_withdraw_def)
  next
    case (pgs_steer j t' sigText sig now)
    have "pg_getRun i (snd (delete_run j (\<lambda>r. j \<noteq> t' \<and> list_ex (\<lambda>r. run_id r = t' \<and> \<not> isTerminal (run_status r)) (pg_rows (pgs_db s)) \<and>
        run_status r = Pending \<and> Some (shown_text (run_request r)) = sigText) (pgs_db s))) = Some r"
      using delete_keeps [OF ok r] st by simp
    then show ?thesis
      using pgs_steer r by (auto simp: pg_steerQueued_def Let_def pg_getRun_def pg_rows_def split: prod.splits bool.splits)
  next
    case pgs_complete
    then show ?thesis using unleased by (auto simp: pg_complete_def split_def split: bool.split intro!: keeps)
  next
    case pgs_returned
    then show ?thesis using update_keeps_outcome [OF ok _ _ r, where g = "\<lambda>r. r"] by (simp add: pg_markReturned_def)
  next
    case pgs_ledger
    then show ?thesis using r by (simp add: pg_ledger_record_def pg_getRun_def pg_rows_def)
  qed (use r st in \<open>auto simp: pg_heartbeat_def pg_releaseLease_def pg_noteTurnUserSeq_def pg_setDeliveryState_def pg_editPendingText_def
      holds_lease_def intro!: keeps\<close>)
qed


subsection \<open>Claims in order\<close>

lemma candidate_iff:
  "c \<in> set (claim_candidates now None None rows) \<longleftrightarrow>
     c \<in> set rows \<and> waits now c \<and> \<not> session_held now rows (run_sessionId (rr_run c)) \<and>
     (\<forall>b \<in> set rows. run_sessionId (rr_run b) = run_sessionId (rr_run c) \<longrightarrow> run_status (rr_run b) = Pending \<longrightarrow> run_row_order c \<le> run_row_order b)"
proof -
  have "list_ex (sibling_blocks now c) rows \<longleftrightarrow> session_held now rows (run_sessionId (rr_run c)) \<or>
      (\<exists>b \<in> set rows. run_sessionId (rr_run b) = run_sessionId (rr_run c) \<and> run_status (rr_run b) = Pending \<and> \<not> run_row_order c \<le> run_row_order b)"
    unfolding list_ex_iff sibling_blocks_def session_held_def linorder_not_le by blast
  moreover have "c \<in> set (claim_candidates now None None rows) \<longleftrightarrow> c \<in> set rows \<and> waits now c \<and> \<not> list_ex (sibling_blocks now c) rows"
    by (simp add: claim_candidates_def)
  ultimately show ?thesis by (simp only: de_Morgan_disj bex_simps not_not simp_thms) blast
qed

lemma candidates_hd:
  "c \<in> set (claim_candidates now runId sessionId rows) \<Longrightarrow> run_row_order (hd (claim_candidates now runId sessionId rows)) \<le> run_row_order c"
  using hd_sort_key_le [of c _ run_row_order] unfolding claim_candidates_def set_sort .

lemma find_distinct: "distinct (map f xs) \<Longrightarrow> x \<in> set xs \<Longrightarrow> List.find (\<lambda>y. f y = f x) xs = Some x"
  by (induction xs) auto

text \<open>Every run that waits in a free session has a candidate of its session before it.\<close>

lemma candidate_before:
  assumes "q \<in> set rows" "waits now q" "\<not> session_held now rows (run_sessionId (rr_run q))"
  obtains c where "c \<in> set (claim_candidates now None None rows)" "run_row_order c \<le> run_row_order q"
proof -
  let ?mine = "filter (\<lambda>b. run_sessionId (rr_run b) = run_sessionId (rr_run q) \<and> run_status (rr_run b) = Pending) rows"
  let ?c = "hd (sort_key run_row_order ?mine)"
  have q: "q \<in> set ?mine" using assms(1,2) by (simp add: waits_def)
  then have "sort_key run_row_order ?mine \<noteq> []" using length_pos_if_in_set [OF q] by (simp flip: length_greater_0_conv)
  then have c: "?c \<in> set ?mine" using hd_in_set [of "sort_key run_row_order ?mine"] by simp
  have least: "run_row_order ?c \<le> run_row_order b" if "b \<in> set ?mine" for b using that by (rule hd_sort_key_le)
  have "?c \<in> set (claim_candidates now None None rows)"
    using c least assms(3) by (auto simp: candidate_iff waits_def session_held_def list_ex_iff not_less)
  then show ?thesis using least [OF q] by (rule that)
qed

text \<open>C6: A claim on the run table is first in, first out, and the probe that wakes the workers is exact. A claim that sees the current table and finds no row
  locked returns nothing, and changes nothing, exactly when the probe finds nothing; otherwise it leases the earliest created run that waits in a session with
  nothing running and no delayed retry, ahead of every other pending run of its session, and leaves the other rows alone.\<close>

theorem pg_claim_first:
  assumes "pg_run_reachable m s"
  shows "case pg_claim w ttl now tok None None (db_runs (pgs_db s)) (\<lambda>_. False) (pgs_db s) of
      (None, db') \<Rightarrow> db' = pgs_db s \<and> \<not> pg_available now (db_runs (pgs_db s))
    | (Some r', db') \<Rightarrow> pg_available now (db_runs (pgs_db s)) \<and>
        (\<exists>row \<in> set (db_runs (pgs_db s)). waits now row \<and> \<not> session_held now (db_runs (pgs_db s)) (run_sessionId (rr_run row)) \<and>
           (\<forall>q \<in> set (db_runs (pgs_db s)). waits now q \<and> \<not> session_held now (db_runs (pgs_db s)) (run_sessionId (rr_run q)) \<longrightarrow> run_row_order row \<le> run_row_order q) \<and>
           r' = leased w ttl now tok (rr_run row) \<and>
           (\<forall>i. pg_getRun i db' = (if i = run_id (rr_run row) then Some r' else pg_getRun i (pgs_db s))))"
proof -
  let ?db = "pgs_db s" and ?rows = "db_runs (pgs_db s)"
  let ?cs = "claim_candidates now None None ?rows"
  have ok: "store_ok (store_of ?db)" using assms by (rule pg_reachable_store)
  show ?thesis
  proof (cases ?cs)
    case Nil
    then have "\<not> pg_available now ?rows" by (auto simp: pg_available_def list_ex_iff elim: candidate_before)
    with Nil show ?thesis by (simp add: pg_claim_def)
  next
    case (Cons c cs)
    then have c: "c \<in> set ?cs" by simp
    then have row: "c \<in> set ?rows" "waits now c" "\<not> session_held now ?rows (run_sessionId (rr_run c))" by (simp_all add: candidate_iff)
    have mine: "pg_getRun (run_id (rr_run c)) ?db = Some (rr_run c)" using pg_getRun_row [OF ok, of "rr_run c"] row(1) by (simp add: pg_rows_def)
    have "distinct (map (\<lambda>r. run_id (rr_run r)) ?rows)" using rows_distinct [OF ok] by (simp add: pg_rows_def comp_def)
    then have "List.find (\<lambda>r. run_id (rr_run r) = run_id (rr_run c)) ?rows = Some c"
      using row(1) by (rule find_distinct)
    moreover have "\<not> list_ex (\<lambda>r. run_status r = Running \<and> run_sessionId r = run_sessionId (rr_run c)) (pg_rows ?db)"
      using row(3) by (auto simp: pg_rows_def session_held_def list_ex_iff)
    ultimately have claimed: "pg_claim w ttl now tok None None ?rows (\<lambda>_. False) ?db =
        (Some (leased w ttl now tok (rr_run c)), snd (update_run (run_id (rr_run c)) (\<lambda>_. True) (in_run (leased w ttl now tok)) ?db))"
      using Cons row(2) by (simp add: pg_claim_def)
    have "run_row_order c \<le> run_row_order q" if q: "q \<in> set ?rows" "waits now q" "\<not> session_held now ?rows (run_sessionId (rr_run q))" for q
    proof -
      obtain c' where c': "c' \<in> set ?cs" "run_row_order c' \<le> run_row_order q" using candidate_before [OF q] .
      have "run_row_order c \<le> run_row_order c'"
        using candidates_hd [OF c'(1)] by (simp add: Cons)
      also note c'(2)
      finally show ?thesis .
    qed
    moreover have "pg_getRun i (snd (update_run (run_id (rr_run c)) (\<lambda>_. True) (in_run (leased w ttl now tok)) ?db)) =
        (if i = run_id (rr_run c) then Some (leased w ttl now tok (rr_run c)) else pg_getRun i ?db)" for i
      using mine get_update_run [OF ok, where f = "in_run (leased w ttl now tok)" and g = "leased w ttl now tok" and i = "run_id (rr_run c)" and cond = "\<lambda>_. True" and j = i]
      by (simp add: option.map_ident)
    moreover have "pg_available now ?rows" using row by (auto simp: pg_available_def list_ex_iff)
    ultimately show ?thesis unfolding claimed prod.case option.case by (intro conjI bexI [of _ c] allI ballI impI row refl) blast+
  qed
qed

subsection \<open>An example\<close>

definition demo_pg0 :: pg_system where
  "demo_pg0 = \<lparr>pgs_db = empty_run_db, pgs_reads = [], pgs_used = []\<rparr>"

definition demo_pg1 :: pg_system where
  "demo_pg1 = demo_pg0\<lparr>pgs_db := snd (pg_insert (demo_enqueue ''k1'') ''r1'' 1 (pgs_db demo_pg0))\<rparr>"

definition demo_pg2 :: pg_system where
  "demo_pg2 = demo_pg1\<lparr>pgs_db := snd (pg_insert (demo_enqueue ''k2'') ''r2'' 2 (pgs_db demo_pg1))\<rparr>"

definition demo_pg3 :: pg_system where
  "demo_pg3 = demo_pg2\<lparr>pgs_db := snd (pg_claim ''w'' 100 10 ''t1'' None None (db_runs (pgs_db demo_pg2)) (\<lambda>_. False) (pgs_db demo_pg2)),
     pgs_used := [''t1'']\<rparr>"

text \<open>A claim from a snapshot that shows only the second run.\<close>

definition demo_pg4 :: pg_system where
  "demo_pg4 = demo_pg3\<lparr>pgs_db := snd (pg_claim ''v'' 100 11 ''t2'' None None (tl (db_runs (pgs_db demo_pg2))) (\<lambda>_. False) (pgs_db demo_pg3)),
     pgs_used := [''t2'', ''t1'']\<rparr>"

definition demo_pg5 :: pg_system where
  "demo_pg5 = demo_pg4\<lparr>pgs_db := snd (pg_complete ''r1'' ''t1'' (bare_result TOk) 20 (pgs_db demo_pg4))\<rparr>"

lemma demo_pg_reachable:
  "pg_run_reachable None demo_pg2" "pg_run_reachable None demo_pg4" "pg_run_reachable None demo_pg5"
proof -
  have r0: "pg_run_reachable None demo_pg0" unfolding demo_pg0_def by (rule pgs_init)
  have "pg_run_step None demo_pg0 demo_pg1" unfolding demo_pg1_def by (rule pgs_insert) code_simp
  note r1 = pgs_next [OF r0 this]
  have "pg_run_step None demo_pg1 demo_pg2" unfolding demo_pg2_def by (rule pgs_insert) code_simp
  note r2 = pgs_next [OF r1 this]
  have "pgs_used demo_pg2 = []" by code_simp
  then have "pg_run_step None demo_pg2 demo_pg3" unfolding demo_pg3_def
    using pgs_claim [of "''t1''" demo_pg2 None "''w''" 100 10 None None "db_runs (pgs_db demo_pg2)" "\<lambda>_. False"] by simp
  note r3 = pgs_next [OF r2 this]
  have "pgs_used demo_pg3 = [''t1'']" by code_simp
  then have "pg_run_step None demo_pg3 demo_pg4" unfolding demo_pg4_def
    using pgs_claim [of "''t2''" demo_pg3 None "''v''" 100 11 None None "tl (db_runs (pgs_db demo_pg2))" "\<lambda>_. False"] by simp
  note r4 = pgs_next [OF r3 this]
  have "pg_run_step None demo_pg4 demo_pg5" unfolding demo_pg5_def by (rule pgs_complete)
  note r5 = pgs_next [OF r4 this]
  show "pg_run_reachable None demo_pg2" "pg_run_reachable None demo_pg4" "pg_run_reachable None demo_pg5" by (rule r2 r4 r5)+
qed

theorem pg_single_flight_witness:
  "claim_candidates 11 None None (tl (db_runs (pgs_db demo_pg2))) \<noteq> [] \<and>
   length (filter (\<lambda>r. run_status r = Running \<and> run_sessionId r = ''s'') (pg_rows (pgs_db demo_pg4))) = 1"
proof
  show "claim_candidates 11 None None (tl (db_runs (pgs_db demo_pg2))) \<noteq> []" by code_simp
  have "filter (\<lambda>r. run_status r = Running \<and> run_sessionId r = ''s'') (pg_rows (pgs_db demo_pg4)) \<noteq> []" by code_simp
  then show "length (filter (\<lambda>r. run_status r = Running \<and> run_sessionId r = ''s'') (pg_rows (pgs_db demo_pg4))) = 1"
    using pg_single_flight [OF demo_pg_reachable(2), of "''s''"] by (simp add: le_Suc_eq)
qed


theorem pg_claim_first_witness:
  "\<exists>row \<in> set (db_runs (pgs_db demo_pg2)).
     fst (pg_claim ''w'' 100 10 ''t1'' None None (db_runs (pgs_db demo_pg2)) (\<lambda>_. False) (pgs_db demo_pg2)) = Some (leased ''w'' 100 10 ''t1'' (rr_run row))"
proof -
  have "fst (pg_claim ''w'' 100 10 ''t1'' None None (db_runs (pgs_db demo_pg2)) (\<lambda>_. False) (pgs_db demo_pg2)) \<noteq> None" by code_simp
  then show ?thesis
    using pg_claim_first [OF demo_pg_reachable(1), where w = "''w''" and ttl = 100 and now = 10 and tok = "''t1''"]
    by (auto split: prod.splits option.splits)
qed

end
