(* ===== verification/Turn_Origin.thy ===== *)
theory Turn_Origin
  imports Core_Types "HOL-Library.Sublist"
begin

text \<open>
  Who caused a turn: \<^verbatim>\<open>src/src/core/turn-origin.ts\<close>. Requests carry a typed origin, the older flags, or both;
  \<open>resolveTurnOrigin\<close> combines them. An optional flag is \<open>bool option\<close>, since the code tests for \<open>=== true\<close>.
\<close>

record legacy_origin =
  lg_triggerTs :: "string option"
  lg_entryTs :: "string option"
  lg_triggered :: "bool option"
  lg_securityScreenData :: "string option"
  lg_triggerDestination :: "destination option"
  lg_ownerKeychainUnion :: "bool option"
  lg_unprompted :: "bool option"
  lg_liveActor :: "bool option"

definition no_legacy :: legacy_origin where
  "no_legacy = \<lparr>lg_triggerTs = None, lg_entryTs = None, lg_triggered = None, lg_securityScreenData = None,
     lg_triggerDestination = None, lg_ownerKeychainUnion = None, lg_unprompted = None, lg_liveActor = None\<rparr>"

text \<open>A string property that is kept only when it is truthy.\<close>

definition nonempty :: "string option \<Rightarrow> string option" where
  "nonempty s = (if truthy s then s else None)"

definition flag :: "bool \<Rightarrow> bool option" where
  "flag b = (if b then Some True else None)"

definition normalizeTurnOrigin :: "legacy_origin \<Rightarrow> turn_origin" where
  "normalizeTurnOrigin input =
     (if lg_triggered input = Some True
      then AutomationOrigin (lg_securityScreenData input) (lg_triggerDestination input)
             (flag (lg_ownerKeychainUnion input = Some True))
      else if lg_unprompted input = Some True
      then AmbientOrigin (nonempty (lg_entryTs input)) (flag (lg_liveActor input = Some True))
      else if lg_liveActor input = Some True
      then HumanOrigin (nonempty (lg_triggerTs input)) (nonempty (lg_entryTs input))
      else DirectOrigin)"

definition origin_rank :: "turn_origin \<Rightarrow> nat" where
  "origin_rank o' = (case o' of DirectOrigin \<Rightarrow> 0 | HumanOrigin _ _ \<Rightarrow> 1 | AmbientOrigin _ _ \<Rightarrow> 2 | AutomationOrigin _ _ _ \<Rightarrow> 3)"

definition or_option :: "'a option \<Rightarrow> 'a option \<Rightarrow> 'a option" where
  "or_option a b = (case a of Some x \<Rightarrow> Some x | None \<Rightarrow> b)"

definition both_screen_data :: "string \<Rightarrow> string \<Rightarrow> string" where
  "both_screen_data typed legacy =
     ''Typed automation data:'' @ [CHR 0x0A] @ typed @ [CHR 0x0A, CHR 0x0A] @ ''Legacy automation data:'' @ [CHR 0x0A] @ legacy"

definition merge_screen_data :: "string option \<Rightarrow> string option \<Rightarrow> string option" where
  "merge_screen_data typed legacy =
     (case typed of
        None \<Rightarrow> legacy
      | Some t \<Rightarrow> (case legacy of None \<Rightarrow> Some t | Some l \<Rightarrow> if t \<noteq> l then Some (both_screen_data t l) else Some t))"

definition merge_origins :: "turn_origin \<Rightarrow> turn_origin \<Rightarrow> turn_origin" where
  "merge_origins typed legacy =
     (if origin_rank typed \<noteq> origin_rank legacy
      then if origin_rank typed > origin_rank legacy then typed else legacy
      else case (typed, legacy) of
        (AutomationOrigin sd dest keychain, AutomationOrigin sd' dest' keychain') \<Rightarrow>
          AutomationOrigin (merge_screen_data sd sd') (or_option dest dest')
            (flag (keychain = Some True \<or> keychain' = Some True))
      | (HumanOrigin ts entry, HumanOrigin ts' entry') \<Rightarrow>
          HumanOrigin (nonempty (or_option ts ts')) (nonempty (or_option entry entry'))
      | (AmbientOrigin entry live, AmbientOrigin entry' live') \<Rightarrow>
          AmbientOrigin (nonempty (or_option entry entry')) (flag (live = Some True \<or> live' = Some True))
      | _ \<Rightarrow> typed)"

definition has_legacy :: "legacy_origin \<Rightarrow> bool" where
  "has_legacy input \<longleftrightarrow> lg_triggered input = Some True \<or> lg_unprompted input = Some True \<or> lg_liveActor input = Some True"

definition resolveTurnOrigin :: "legacy_origin \<Rightarrow> turn_origin option \<Rightarrow> turn_origin" where
  "resolveTurnOrigin input typed =
     (case typed of
        None \<Rightarrow> normalizeTurnOrigin input
      | Some t \<Rightarrow> if \<not> has_legacy input then t else merge_origins t (normalizeTurnOrigin input))"

definition turnOriginRequestFields :: "turn_origin \<Rightarrow> legacy_origin" where
  "turnOriginRequestFields orig =
     (case orig of
        HumanOrigin messageTs entryTs \<Rightarrow>
          no_legacy\<lparr>lg_liveActor := Some True, lg_triggerTs := nonempty messageTs, lg_entryTs := nonempty entryTs\<rparr>
      | AmbientOrigin entryTs live \<Rightarrow>
          no_legacy\<lparr>lg_unprompted := Some True, lg_entryTs := nonempty entryTs, lg_liveActor := flag (live = Some True)\<rparr>
      | AutomationOrigin screenData dest useOwnerKeychain \<Rightarrow>
          no_legacy\<lparr>lg_triggered := Some True, lg_securityScreenData := screenData, lg_triggerDestination := dest,
            lg_ownerKeychainUnion := flag (useOwnerKeychain = Some True)\<rparr>
      | DirectOrigin \<Rightarrow> no_legacy)"

definition isPersonAuthored :: "turn_origin \<Rightarrow> bool" where
  "isPersonAuthored orig = (case orig of HumanOrigin _ _ \<Rightarrow> True | DirectOrigin \<Rightarrow> True | _ \<Rightarrow> False)"

subsection \<open>Properties\<close>

lemma nonempty_idem [simp]: "nonempty (nonempty s) = nonempty s"
  by (simp add: nonempty_def)

lemma flag_eq [simp]: "flag b = Some True \<longleftrightarrow> b"
  by (simp add: flag_def)

text \<open>An origin as the code writes it: no empty time stamps and no flags that are \<open>false\<close>.\<close>

definition clean_origin :: "turn_origin \<Rightarrow> turn_origin" where
  "clean_origin orig =
     (case orig of
        HumanOrigin ts entry \<Rightarrow> HumanOrigin (nonempty ts) (nonempty entry)
      | AmbientOrigin entry live \<Rightarrow> AmbientOrigin (nonempty entry) (flag (live = Some True))
      | AutomationOrigin sd dest keychain \<Rightarrow> AutomationOrigin sd dest (flag (keychain = Some True))
      | DirectOrigin \<Rightarrow> DirectOrigin)"

text \<open>The origin of a turn survives the trip through the older request flags: normalising the flags written for an
  origin gives that origin back, up to empty time stamps and false flags, and what normalisation
  produces is already in that form; only a direct origin is written without any flag.\<close>

lemma turn_origin_roundtrip:
  "normalizeTurnOrigin (turnOriginRequestFields orig) = clean_origin orig \<and>
   clean_origin (normalizeTurnOrigin input) = normalizeTurnOrigin input \<and>
   (has_legacy (turnOriginRequestFields orig) \<longleftrightarrow> orig \<noteq> DirectOrigin)"
  by (cases orig)
    (simp_all add: normalizeTurnOrigin_def turnOriginRequestFields_def no_legacy_def clean_origin_def has_legacy_def)

lemma origin_rank_merge: "origin_rank (merge_origins typed legacy) = max (origin_rank typed) (origin_rank legacy)"
  by (cases typed; cases legacy) (simp_all add: merge_origins_def origin_rank_def)

lemma rank_person: "isPersonAuthored orig \<longleftrightarrow> origin_rank orig \<le> 1"
  by (cases orig) (simp_all add: isPersonAuthored_def origin_rank_def)

lemma screen_data_sublist: "sublist t (both_screen_data t l) \<and> sublist l (both_screen_data t l)"
proof -
  have "sublist y (a @ b @ y @ c)" for a b y c :: string using sublist_appendI [of y "a @ b" c] by (simp only: append_assoc)
  moreover have "sublist y (a @ b @ c @ d @ e @ f @ y)" for a b c d e f y :: string
    using sublist_append_leftI [of y "a @ b @ c @ d @ e @ f"] by (simp only: append_assoc)
  ultimately show ?thesis unfolding both_screen_data_def by (rule conjI)
qed

text \<open>Combining a typed origin with the older flags never makes a turn look more human than either says: the rank
  (direct, human, ambient, automation) of the result is the larger of the two, so the result is
  person-authored only if both are; and the automation data to be screened, when both give some,
  contains both texts.\<close>

lemma resolve_never_weakens:
  assumes "has_legacy input"
  shows "origin_rank (resolveTurnOrigin input (Some typed)) = max (origin_rank typed) (origin_rank (normalizeTurnOrigin input)) \<and>
    (isPersonAuthored (resolveTurnOrigin input (Some typed)) \<longleftrightarrow>
       isPersonAuthored typed \<and> isPersonAuthored (normalizeTurnOrigin input)) \<and>
    (\<forall>t dest kc. typed = AutomationOrigin (Some t) dest kc \<and> lg_triggered input = Some True \<and>
       lg_securityScreenData input = Some l \<longrightarrow>
       (\<exists>both dest' kc'. resolveTurnOrigin input (Some typed) = AutomationOrigin (Some both) dest' kc' \<and>
          sublist t both \<and> sublist l both))"
proof -
  have r: "resolveTurnOrigin input (Some x) = merge_origins x (normalizeTurnOrigin input)" for x
    using assms by (simp add: resolveTurnOrigin_def)
  have "\<exists>both. merge_screen_data (Some t) (Some l) = Some both \<and> sublist t both \<and> sublist l both" for t
    using screen_data_sublist [of t l] by (simp add: merge_screen_data_def)
  then have "\<exists>both dest' kc'. merge_origins (AutomationOrigin (Some t) dest kc) (normalizeTurnOrigin input) =
      AutomationOrigin (Some both) dest' kc' \<and> sublist t both \<and> sublist l both"
    if "lg_triggered input = Some True" "lg_securityScreenData input = Some l" for t dest kc
    using that by (simp add: normalizeTurnOrigin_def merge_origins_def origin_rank_def)
  then show ?thesis unfolding r rank_person origin_rank_merge by auto
qed

lemma resolve_never_weakens_witness:
  "\<not> isPersonAuthored (resolveTurnOrigin (no_legacy\<lparr>lg_triggered := Some True\<rparr>) (Some (HumanOrigin None None)))"
  using resolve_never_weakens [of "no_legacy\<lparr>lg_triggered := Some True\<rparr>" "HumanOrigin None None"]
  by (simp add: has_legacy_def isPersonAuthored_def normalizeTurnOrigin_def)

end
