(* ===== verification/Json.thy ===== *)
theory Json
  imports Prelude
begin

text \<open>
  JSON values and their canonical text (\<^verbatim>\<open>src/src/util/objects.ts\<close>), and the content identifiers
  hashed from it (\<^verbatim>\<open>src/src/util/crypto.ts\<close>, \<open>contentPart\<close> of
  \<^verbatim>\<open>src/src/triggers/trigger-store.ts\<close>). \<open>JSON.stringify\<close> is modelled on integers, strings, arrays
  and objects whose keys are not array indices; a property with the value \<open>undefined\<close> is an absent
  property. The SHA-256 digest is a parameter.
\<close>

datatype json =
    JNull
  | JBool bool
  | JNum int
  | JStr string
  | JArr "json list"
  | JObj "(string \<times> json) list"

text \<open>A property of a parsed value.\<close>

fun json_field :: "string \<Rightarrow> json \<Rightarrow> json option" where
  "json_field k (JObj kvs) = map_of kvs k"
| "json_field k _ = None"

subsection \<open>\<open>JSON.stringify\<close>\<close>

definition hex_char :: "nat \<Rightarrow> char" where
  "hex_char n = (if n < 10 then char_of (48 + n) else char_of (87 + n))"

definition json_escape :: "char \<Rightarrow> string" where
  "json_escape c =
     (let n = of_char c :: nat in
      if n = 34 then [CHR 0x5C, CHR 0x22]
      else if n = 92 then [CHR 0x5C, CHR 0x5C]
      else if n = 8 then [CHR 0x5C, CHR ''b'']
      else if n = 9 then [CHR 0x5C, CHR ''t'']
      else if n = 10 then [CHR 0x5C, CHR ''n'']
      else if n = 12 then [CHR 0x5C, CHR ''f'']
      else if n = 13 then [CHR 0x5C, CHR ''r'']
      else if n < 32 then CHR 0x5C # ''u00'' @ [hex_char (n div 16), hex_char (n mod 16)]
      else [c])"

definition json_quote :: "string \<Rightarrow> string" where
  "json_quote s = CHR 0x22 # concat (map json_escape s) @ [CHR 0x22]"

definition int_text :: "int \<Rightarrow> string" where
  "int_text i = (if i < 0 then CHR ''-'' # nat_digits (nat (- i)) else nat_digits (nat i))"

fun stringify :: "json \<Rightarrow> string" where
  "stringify JNull = ''null''"
| "stringify (JBool b) = (if b then ''true'' else ''false'')"
| "stringify (JNum i) = int_text i"
| "stringify (JStr s) = json_quote s"
| "stringify (JArr xs) = CHR ''['' # join_with '','' (map stringify xs) @ '']''"
| "stringify (JObj kvs) =
     CHR ''{'' # join_with '','' (map (\<lambda>(k, v). json_quote k @ '':'' @ stringify v) kvs) @ ''}''"

subsection \<open>Canonical text and content identifiers\<close>

text \<open>The replacer sorts the properties of every object by key before it is printed.\<close>

fun sort_keys :: "json \<Rightarrow> json" where
  "sort_keys (JArr xs) = JArr (map sort_keys xs)"
| "sort_keys (JObj kvs) = JObj (sort_key fst (map (\<lambda>(k, v). (k, sort_keys v)) kvs))"
| "sort_keys v = v"

definition canonicalJson :: "json option \<Rightarrow> string" where
  "canonicalJson value = (case value of None \<Rightarrow> [] | Some v \<Rightarrow> stringify (sort_keys v))"

definition contentPart :: "json option \<Rightarrow> string" where
  "contentPart value = canonicalJson value"

definition hashId :: "(string \<Rightarrow> string) \<Rightarrow> string list \<Rightarrow> nat \<Rightarrow> string" where
  "hashId sha256_hex parts len = take len (sha256_hex (join_with [CHR 0x00] parts))"

definition shortHash :: "(string \<Rightarrow> string) \<Rightarrow> string \<Rightarrow> string" where
  "shortHash sha256_hex s = hashId sha256_hex [s] 6"

subsection \<open>Printing is injective\<close>

fun unhex_char :: "char \<Rightarrow> nat" where
  "unhex_char c = (let n = of_char c :: nat in if n < 58 then n - 48 else n - 87)"

lemma unhex_hex: "n < 16 \<Longrightarrow> unhex_char (hex_char n) = n"
  by (simp add: hex_char_def of_char_of)

text \<open>The first character a JSON string body encodes, with what follows it.\<close>

definition json_unescape :: "string \<Rightarrow> (char \<times> string) option" where
  "json_unescape s =
     (case s of
        [] \<Rightarrow> None
      | c # r \<Rightarrow>
          if c \<noteq> CHR 0x5C then Some (c, r)
          else case r of
            [] \<Rightarrow> None
          | d # t \<Rightarrow>
              if d = CHR 0x22 \<or> d = CHR 0x5C then Some (d, t)
              else if d = CHR ''b'' then Some (CHR 0x08, t)
              else if d = CHR ''t'' then Some (CHR 0x09, t)
              else if d = CHR ''n'' then Some (CHR 0x0A, t)
              else if d = CHR ''f'' then Some (CHR 0x0C, t)
              else if d = CHR ''r'' then Some (CHR 0x0D, t)
              else Some (char_of (16 * unhex_char (t ! 2) + unhex_char (t ! 3)), drop 4 t))"

lemma json_unescape_escape: "json_unescape (json_escape c @ r) = Some (c, r)"
proof -
  define n where "n = (of_char c :: nat)"
  have c: "c = char_of n" by (simp add: n_def)
  have "n < 256" by (simp add: n_def)
  consider "n \<in> {34, 92, 8, 9, 10, 12, 13}" | "n < 32" "n \<notin> {8, 9, 10, 12, 13}" | "n \<ge> 32" "n \<noteq> 34" "n \<noteq> 92"
    by fastforce
  then show ?thesis
  proof cases
    case 1
    moreover have "(of_char :: char \<Rightarrow> nat) ` {CHR 0x22, CHR 0x5C, CHR 0x08, CHR 0x09, CHR 0x0A, CHR 0x0C, CHR 0x0D}
        = {34, 92, 8, 9, 10, 12, 13}"
      by simp
    ultimately have "c \<in> {CHR 0x22, CHR 0x5C, CHR 0x08, CHR 0x09, CHR 0x0A, CHR 0x0C, CHR 0x0D}"
      using inj_image_mem_iff [OF inj_of_char] n_def by metis
    then show ?thesis
      by (elim insertE emptyE) (simp_all add: json_escape_def json_unescape_def)
  next
    case 2
    have "n div 16 < 16" "n mod 16 < 16" using 2 by auto
    then have "16 * unhex_char (hex_char (n div 16)) + unhex_char (hex_char (n mod 16)) = n"
      by (simp only: unhex_hex) simp
    then show ?thesis
      using 2 \<open>n < 256\<close>
      by (auto simp: c json_escape_def json_unescape_def of_char_of Let_def numeral_2_eq_2 numeral_3_eq_3
          simp del: unhex_char.simps)
  next
    case 3
    have "c \<noteq> CHR 0x5C" using 3 by (auto simp: n_def)
    with 3 show ?thesis
      by (simp add: json_escape_def json_unescape_def n_def [symmetric] Let_def)
  qed
qed

lemma json_escape_inj: "json_escape c @ r = json_escape d @ t \<Longrightarrow> c = d \<and> r = t"
  by (metis json_unescape_escape option.inject prod.inject)

lemma json_escape_hd: "json_escape c \<noteq> CHR 0x22 # r"
  by (auto simp: json_escape_def Let_def)

lemma json_escape_ne [simp]: "json_escape c \<noteq> []"
  by (simp add: json_escape_def Let_def)

lemma json_body_inj:
  "concat (map json_escape s) @ CHR 0x22 # r = concat (map json_escape t) @ CHR 0x22 # u \<Longrightarrow> s = t \<and> r = u"
proof (induction s arbitrary: t)
  case Nil
  then show ?case
    using json_escape_hd by (cases t; cases "json_escape (hd t)") auto
next
  case (Cons c s)
  show ?case
  proof (cases t)
    case Nil
    with Cons.prems json_escape_hd show ?thesis
      by (cases "json_escape c") auto
  next
    case (Cons d t')
    with Cons.prems have "json_escape c @ (concat (map json_escape s) @ CHR 0x22 # r)
      = json_escape d @ (concat (map json_escape t') @ CHR 0x22 # u)" by simp
    then show ?thesis using json_escape_inj Cons.IH Cons by blast
  qed
qed

lemma json_quote_inj: "json_quote s @ r = json_quote t @ u \<Longrightarrow> s = t \<and> r = u"
  using json_body_inj [of s r t u] by (simp add: json_quote_def)

definition json_stop :: "string \<Rightarrow> bool" where
  "json_stop r \<longleftrightarrow> r = [] \<or> hd r \<in> {CHR '','', CHR '']'', CHR ''}''}"

definition is_digit :: "char \<Rightarrow> bool" where
  "is_digit c \<longleftrightarrow> 48 \<le> (of_char c :: nat) \<and> of_char c \<le> (57 :: nat)"

lemma nat_digits_digit: "c \<in> set (nat_digits n) \<Longrightarrow> is_digit c"
  using nat_digits_small [of n] by (fastforce simp: is_digit_def of_char_of)

lemma json_stop_not_digit: "json_stop r \<Longrightarrow> takeWhile is_digit r = []"
  by (cases r) (auto simp: json_stop_def is_digit_def)

lemma nat_digits_stop:
  assumes "nat_digits m @ r = nat_digits n @ u" and "json_stop r" and "json_stop u"
  shows "m = n \<and> r = u"
proof -
  have "takeWhile is_digit (nat_digits k @ w) = nat_digits k" if "json_stop w" for k w
    using json_stop_not_digit [OF that] nat_digits_digit by (subst takeWhile_append2) auto
  with assms have "nat_digits m = nat_digits n" by metis
  with assms(1) show ?thesis using nat_digits_inj by auto
qed

lemma hd_nat_digits: "is_digit (hd (nat_digits n))"
  using nat_digits_digit [of "hd (nat_digits n)" n] by simp

lemma int_text_inj:
  assumes "int_text i @ r = int_text j @ u" and "json_stop r" and "json_stop u"
  shows "i = j \<and> r = u"
proof -
  have minus: "nat_digits n @ w \<noteq> CHR ''-'' # w'" for n w w'
    using hd_nat_digits [of n] by (cases "nat_digits n") (auto simp: is_digit_def)
  consider "i < 0" "j < 0" | "i < 0" "\<not> j < 0" | "\<not> i < 0" "j < 0" | "\<not> i < 0" "\<not> j < 0" by blast
  then show ?thesis
  proof cases
    case 1
    with assms nat_digits_stop [of "nat (- i)" r "nat (- j)" u] show ?thesis by (auto simp: int_text_def)
  next
    case 2
    with assms(1) minus [of "nat j" u "nat_digits (nat (- i)) @ r"] show ?thesis by (simp add: int_text_def)
  next
    case 3
    with assms(1) minus [of "nat i" r "nat_digits (nat (- j)) @ u"] show ?thesis by (simp add: int_text_def)
  next
    case 4
    with assms nat_digits_stop [of "nat i" r "nat j" u] show ?thesis by (auto simp: int_text_def)
  qed
qed

text \<open>The first character of a value's text tells its constructor.\<close>

definition json_tag :: "json \<Rightarrow> nat" where
  "json_tag v = (case v of JNull \<Rightarrow> 0 | JBool _ \<Rightarrow> 1 | JNum _ \<Rightarrow> 2 | JStr _ \<Rightarrow> 3 | JArr _ \<Rightarrow> 4 | JObj _ \<Rightarrow> 5)"

definition char_tag :: "char \<Rightarrow> nat" where
  "char_tag c = (if c = CHR ''n'' then 0 else if c = CHR ''t'' \<or> c = CHR ''f'' then 1
     else if c = CHR 0x22 then 3 else if c = CHR ''['' then 4 else if c = CHR ''{'' then 5
     else if c = CHR ''-'' \<or> is_digit c then 2 else 6)"

lemma stringify_ne [simp]: "stringify v \<noteq> []"
  by (cases v) (simp_all add: json_quote_def int_text_def)

lemma char_tag_stringify: "char_tag (hd (stringify v)) = json_tag v"
proof (cases v)
  case (JNum i)
  have "char_tag (hd (nat_digits n)) = 2" for n
    using hd_nat_digits [of n] by (auto simp: char_tag_def is_digit_def)
  moreover have "char_tag (CHR ''-'') = 2" by (simp add: char_tag_def)
  ultimately show ?thesis using JNum
    by (simp add: int_text_def json_tag_def)
qed (simp_all add: json_quote_def json_tag_def char_tag_def)

lemma stringify_same_tag: "stringify v @ r = stringify w @ u \<Longrightarrow> json_tag v = json_tag w"
  by (metis char_tag_stringify hd_append2 stringify_ne)

lemma join_append:
  "join_with sep (x # xs) @ t = x @ (if xs = [] then t else sep @ join_with sep xs @ t)"
  by (cases xs) auto

text \<open>A printed sequence with a closing bracket is read back element by element.\<close>

lemma join_inj:
  assumes elems: "\<And>x y r u. x \<in> set xs \<Longrightarrow> f x @ r = f y @ u \<Longrightarrow> json_stop r \<Longrightarrow> json_stop u \<Longrightarrow> x = y \<and> r = u"
    and close: "close \<in> {CHR '']'', CHR ''}''}" and heads: "\<And>x. f x \<noteq> [] \<and> hd (f x) \<noteq> close"
    and eq: "join_with '','' (map f xs) @ close # r = join_with '','' (map f ys) @ close # u"
  shows "xs = ys \<and> r = u"
  using elems eq
proof (induction xs arbitrary: ys)
  case Nil
  then show ?case
    using heads [of "hd ys"] by (cases ys; cases "f (hd ys)") (auto simp: join_append)
next
  case (Cons x xs)
  show ?case
  proof (cases ys)
    case Nil
    then show ?thesis
      using Cons.prems(2) heads [of x] by (cases "f x") (auto simp: join_append)
  next
    case (Cons y ys')
    let ?tail = "\<lambda>zs w. if map f zs = [] then close # w else '','' @ join_with '','' (map f zs) @ close # w"
    have stop: "json_stop (?tail zs w)" for zs w
      using close by (auto simp: json_stop_def)
    have "f x @ ?tail xs r = f y @ ?tail ys' u"
      using Cons.prems(2) Cons by (simp only: list.map join_append)
    then have "x = y \<and> ?tail xs r = ?tail ys' u"
      by (rule Cons.prems(1) [rotated]) (rule stop, rule stop, rule list.set_intros(1))
    then have xy: "x = y" and tails: "?tail xs r = ?tail ys' u" by blast+
    have "join_with '','' (map f xs) @ close # r = join_with '','' (map f ys') @ close # u"
      using tails close by (cases "xs = []"; cases "ys' = []") auto
    then have "xs = ys' \<and> r = u"
      using Cons.IH [of ys'] Cons.prems(1) by (metis list.set_intros(2))
    with xy Cons show ?thesis by simp
  qed
qed

lemma stringify_inj:
  "stringify v @ r = stringify w @ u \<Longrightarrow> json_stop r \<Longrightarrow> json_stop u \<Longrightarrow> v = w \<and> r = u"
proof (induction v arbitrary: w r u rule: stringify.induct)
  case (5 xs)
  then obtain ys where w: "w = JArr ys"
    using stringify_same_tag [OF 5(2)] by (cases w) (auto simp: json_tag_def)
  have heads: "stringify x \<noteq> [] \<and> hd (stringify x) \<noteq> CHR '']''" for x
    using char_tag_stringify [of x] by (auto simp: char_tag_def is_digit_def json_tag_def split: json.splits)
  show ?case
    using join_inj [of xs stringify "CHR '']''" r ys u] 5(1,2) heads by (simp add: w)
next
  case (6 kvs)
  then obtain kvs' where w: "w = JObj kvs'"
    using stringify_same_tag [OF 6(2)] by (cases w) (auto simp: json_tag_def)
  let ?f = "\<lambda>(k, v). json_quote k @ '':'' @ stringify v"
  have heads: "?f x \<noteq> [] \<and> hd (?f x) \<noteq> CHR ''}''" for x
    by (cases x) (simp add: json_quote_def)
  have elems: "x = y \<and> t = t'"
    if "x \<in> set kvs" "?f x @ t = ?f y @ t'" "json_stop t" "json_stop t'" for x y t t'
  proof -
    obtain k v k' v' where xy: "x = (k, v)" "y = (k', v')" by force
    with that(2) have "json_quote k @ ('':'' @ stringify v @ t) = json_quote k' @ ('':'' @ stringify v' @ t')"
      by simp
    then have "k = k' \<and> '':'' @ stringify v @ t = '':'' @ stringify v' @ t'"
      by (rule json_quote_inj)
    then show ?thesis using 6(1) [OF that(1) xy(1) [symmetric]] that(3,4) xy by auto
  qed
  show ?case
    using join_inj [of kvs ?f "CHR ''}''" r kvs' u] elems heads 6(2) by (simp add: w)
next
  case (2 b)
  then show ?case
    using stringify_same_tag [OF 2(1)] by (cases w) (auto simp: json_tag_def split: if_splits)
next
  case (3 i)
  then obtain j where "w = JNum j"
    using stringify_same_tag [OF 3(1)] by (cases w) (auto simp: json_tag_def)
  with 3 int_text_inj [of i r j u] show ?case by simp
next
  case (4 s)
  then obtain t where "w = JStr t"
    using stringify_same_tag [OF 4(1)] by (cases w) (auto simp: json_tag_def)
  with 4 json_quote_inj [of s r t u] show ?case by simp
next
  case 1
  then show ?case
    using stringify_same_tag [OF 1(1)] by (cases w) (auto simp: json_tag_def)
qed

lemma stringify_inject: "stringify v = stringify w \<longleftrightarrow> v = w"
  using stringify_inj [of v "[]" w "[]"] by (auto simp: json_stop_def)

lemma canonicalJson_inject: "canonicalJson (Some v) = canonicalJson (Some w) \<longleftrightarrow> sort_keys v = sort_keys w"
  by (simp add: canonicalJson_def stringify_inject)

subsection \<open>What the canonical text identifies\<close>

lemma nul_notin_nat_digits: "CHR 0x00 \<notin> set (nat_digits n)"
  using nat_digits_digit by (fastforce simp: is_digit_def)

lemma nul_notin_escape: "CHR 0x00 \<notin> set (json_escape c)"
proof -
  have "(of_char c :: nat) = 0 \<Longrightarrow> c = CHR 0x00"
    using inj_of_char [where 'a = nat, THEN injD, of c "CHR 0x00"] by simp
  moreover have "CHR 0x00 \<noteq> hex_char n" if "n < 16" for n
    using that by (auto simp: hex_char_def of_char_of dest!: arg_cong [where f = "of_char :: _ \<Rightarrow> nat"])
  then have "CHR 0x00 \<noteq> hex_char (of_char c div 16)" "CHR 0x00 \<noteq> hex_char (of_char c mod 16)"
    if "(of_char c :: nat) < 32"
    using that by auto
  ultimately show ?thesis
    by (auto simp: json_escape_def Let_def)
qed

lemma nul_notin_join: "(\<forall>x \<in> set xs. CHR 0x00 \<notin> set x) \<Longrightarrow> CHR 0x00 \<notin> set sep \<Longrightarrow> CHR 0x00 \<notin> set (join_with sep xs)"
  by (induction sep xs rule: join_with.induct) auto

lemma nul_notin_quote: "CHR 0x00 \<notin> set (json_quote s)"
  using nul_notin_escape by (auto simp: json_quote_def)

lemma nul_notin_stringify: "CHR 0x00 \<notin> set (stringify v)"
proof (induction v rule: stringify.induct)
  case (5 xs)
  then show ?case using nul_notin_join [of "map stringify xs" "'',''"] by auto
next
  case (6 kvs)
  have "\<forall>x \<in> set (map (\<lambda>(k, v). json_quote k @ '':'' @ stringify v) kvs). CHR 0x00 \<notin> set x"
    using 6 nul_notin_quote by fastforce
  then show ?case
    using nul_notin_join [of "map (\<lambda>(k, v). json_quote k @ '':'' @ stringify v) kvs" "'',''"] by simp
qed (auto simp: nul_notin_quote int_text_def nul_notin_nat_digits)

lemma nul_notin_contentPart: "CHR 0x00 \<notin> set (contentPart v)"
  by (simp add: contentPart_def canonicalJson_def nul_notin_stringify split: option.split)

text \<open>The canonical text of a JSON object identifies it up to the order of its properties: two
  objects have the same canonical text exactly when they have the same keys and, at every key,
  values with the same canonical text.\<close>

lemma canonicalJson_object:
  assumes "distinct (map fst a)" and "distinct (map fst b)"
  shows "canonicalJson (Some (JObj a)) = canonicalJson (Some (JObj b)) \<longleftrightarrow>
    (\<forall>k. map_option (\<lambda>v. canonicalJson (Some v)) (map_of a k) =
         map_option (\<lambda>v. canonicalJson (Some v)) (map_of b k))"
proof -
  let ?m = "map (\<lambda>(k, v). (k, sort_keys v))"
  have d: "distinct (map fst (?m x)) = distinct (map fst x)" for x
    by (simp add: comp_def split_def)
  have "canonicalJson (Some (JObj a)) = canonicalJson (Some (JObj b)) \<longleftrightarrow> map_of (?m a) = map_of (?m b)"
    using sort_key_fst_unique [of "?m a" "?m b"] assms by (simp only: canonicalJson_inject sort_keys.simps d json.inject)
  also have "\<dots> \<longleftrightarrow> (\<forall>k. map_option sort_keys (map_of a k) = map_option sort_keys (map_of b k))"
    by (auto simp: map_of_map fun_eq_iff)
  also have "\<dots> \<longleftrightarrow> (\<forall>k. map_option (\<lambda>v. canonicalJson (Some v)) (map_of a k) =
         map_option (\<lambda>v. canonicalJson (Some v)) (map_of b k))"
  proof -
    have "map_option sort_keys x = map_option sort_keys y \<longleftrightarrow>
      map_option (\<lambda>v. canonicalJson (Some v)) x = map_option (\<lambda>v. canonicalJson (Some v)) y" for x y
      by (cases x; cases y) (simp_all add: canonicalJson_inject)
    then show ?thesis by blast
  qed
  finally show ?thesis .
qed

lemma canonicalJson_object_witness:
  "canonicalJson (Some (JObj [(''b'', JNum 2), (''a'', JStr ''x'')]))
     = canonicalJson (Some (JObj [(''a'', JStr ''x''), (''b'', JNum 2)]))"
  using canonicalJson_object [of "[(''b'', JNum 2), (''a'', JStr ''x'')]" "[(''a'', JStr ''x''), (''b'', JNum 2)]"]
  by simp

text \<open>The text a content identifier is hashed from determines its parts: for equally many parts,
  the joined canonical texts are equal exactly when the parts are pairwise equal, so two identifiers
  agree for different contents only if the digest collides.\<close>

lemma content_identifier_text:
  assumes "length ps = length qs"
  shows "join_with [CHR 0x00] (map contentPart ps) = join_with [CHR 0x00] (map contentPart qs) \<longleftrightarrow>
    map contentPart ps = map contentPart qs"
  using assms join_with_inj [of "map contentPart ps" "map contentPart qs" "CHR 0x00"] nul_notin_contentPart
  by auto

lemma content_identifier_text_witness:
  "join_with [CHR 0x00] (map contentPart [Some (JStr ''a''), None]) \<noteq>
     join_with [CHR 0x00] (map contentPart [Some (JStr ''a''), Some (JStr [])])"
  using content_identifier_text [of "[Some (JStr ''a''), None]" "[Some (JStr ''a''), Some (JStr [])]"]
  by (simp add: contentPart_def canonicalJson_def json_quote_def)

end
