(* ===== verification/Durable_Map.thy ===== *)
theory Durable_Map
  imports Prelude
begin

text \<open>
  The keyed stores of \<^verbatim>\<open>src/src/persistence/durable-map.ts\<close>. The interface \<open>DurableMap\<close> is the locale
  \<open>durable_map\<close>; \<open>createMemoryMap\<close> and \<open>createPostgresMap\<close> are modelled and both interpret it.
  The Postgres map serves \<open>all\<close> and \<open>entries\<close> from a cache keyed by a version row; the last part
  shows that the cache is coherent under any interleaving with other writers.
\<close>

subsection \<open>The interface\<close>

text \<open>
  \<open>stored\<close> is what a value becomes when it is written: itself in memory, its sanitised JSON round
  trip in Postgres. \<open>entries\<close> lists a map by ascending identifier.
\<close>

locale durable_map =
  fixes get :: "string \<Rightarrow> 'm \<Rightarrow> 'v option"
    and put :: "string \<Rightarrow> 'v \<Rightarrow> 'm \<Rightarrow> 'm"
    and putIfAbsent :: "string \<Rightarrow> 'v \<Rightarrow> 'm \<Rightarrow> 'v \<times> 'm"
    and insertIfAbsent :: "string \<Rightarrow> 'v \<Rightarrow> 'm \<Rightarrow> bool \<times> 'm"
    and update :: "string \<Rightarrow> ('v \<Rightarrow> 'v) \<Rightarrow> 'm \<Rightarrow> 'v option \<times> 'm"
    and deleteIf :: "string \<Rightarrow> ('v \<Rightarrow> bool) \<Rightarrow> 'm \<Rightarrow> bool \<times> 'm"
    and delete :: "string \<Rightarrow> 'm \<Rightarrow> 'm"
    and takeOut :: "string \<Rightarrow> 'm \<Rightarrow> 'v option \<times> 'm"
    and entries :: "'m \<Rightarrow> (string \<times> 'v) list"
    and stored :: "'v \<Rightarrow> 'v"
    and inv :: "'m \<Rightarrow> bool"
  assumes get_put: "inv m \<Longrightarrow> get k (put i v m) = (if k = i then Some (stored v) else get k m)"
    and get_insert: "inv m \<Longrightarrow>
      get k (snd (insertIfAbsent i v m)) = (if k = i \<and> get i m = None then Some (stored v) else get k m)"
    and insert_created: "inv m \<Longrightarrow> fst (insertIfAbsent i v m) \<longleftrightarrow> get i m = None"
    and get_putIfAbsent: "inv m \<Longrightarrow>
      get k (snd (putIfAbsent i v m)) = (if k = i \<and> get i m = None then Some (stored v) else get k m)"
    and putIfAbsent_result: "inv m \<Longrightarrow>
      fst (putIfAbsent i v m) = (case get i m of None \<Rightarrow> stored v | Some w \<Rightarrow> w)"
    and get_update: "inv m \<Longrightarrow>
      get k (snd (update i f m)) = (if k = i then map_option (\<lambda>v. stored (f v)) (get i m) else get k m)"
    and update_result: "inv m \<Longrightarrow> fst (update i f m) = map_option f (get i m)"
    and get_deleteIf: "inv m \<Longrightarrow> get k (snd (deleteIf i P m)) =
      (if k = i \<and> (\<exists>v. get i m = Some v \<and> P v) then None else get k m)"
    and deleteIf_result: "inv m \<Longrightarrow> fst (deleteIf i P m) \<longleftrightarrow> (\<exists>v. get i m = Some v \<and> P v)"
    and get_delete: "inv m \<Longrightarrow> get k (delete i m) = (if k = i then None else get k m)"
    and get_take: "inv m \<Longrightarrow> get k (snd (takeOut i m)) = (if k = i then None else get k m)"
    and take_result: "inv m \<Longrightarrow> fst (takeOut i m) = get i m"
    and entries_get: "inv m \<Longrightarrow> (k, v) \<in> set (entries m) \<longleftrightarrow> get k m = Some v"
    and entries_distinct: "inv m \<Longrightarrow> distinct (map fst (entries m))"
    and inv_put: "inv m \<Longrightarrow> inv (put i v m)"
    and inv_insert: "inv m \<Longrightarrow> inv (snd (insertIfAbsent i v m))"
    and inv_putIfAbsent: "inv m \<Longrightarrow> inv (snd (putIfAbsent i v m))"
    and inv_update: "inv m \<Longrightarrow> inv (snd (update i f m))"
    and inv_deleteIf: "inv m \<Longrightarrow> inv (snd (deleteIf i P m))"
    and inv_delete: "inv m \<Longrightarrow> inv (delete i m)"
    and inv_take: "inv m \<Longrightarrow> inv (snd (takeOut i m))"
begin

text \<open>The listing is a faithful picture of the map: its association list has the same lookups.\<close>

lemma entries_map_of:
  assumes "inv m"
  shows "map_of (entries m) = (\<lambda>k. get k m)"
proof
  fix k
  show "map_of (entries m) k = get k m"
    using entries_get [OF assms] entries_distinct [OF assms]
    by (cases "get k m") (auto simp: map_of_eq_None_iff)
qed

text \<open>A guarded update that may decline leaves a declined value as it was stored.\<close>

lemma guarded_update_other:
  "inv m \<Longrightarrow> k \<noteq> i \<Longrightarrow> get k (snd (update i f m)) = get k m"
  by (simp add: get_update)

text \<open>The first writer under an identifier wins: later inserts return its value unchanged.\<close>

lemma first_writer_wins:
  assumes "inv m"
  shows "fst (putIfAbsent i w (snd (putIfAbsent i v m))) = fst (putIfAbsent i v m)"
  using assms
  by (simp add: putIfAbsent_result get_putIfAbsent inv_putIfAbsent split: option.splits)

text \<open>A value can be taken once.\<close>

lemma take_once: "inv m \<Longrightarrow> fst (takeOut i (snd (takeOut i m))) = None"
  by (simp add: take_result inv_take get_take)

end

subsection \<open>The in-memory map\<close>

definition sortedEntries :: "'v js_map \<Rightarrow> (string \<times> 'v) list" where
  "sortedEntries m = sort_key fst m"

definition mm_all :: "'v js_map \<Rightarrow> 'v list" where
  "mm_all m = map snd (sortedEntries m)"

definition mm_get :: "string \<Rightarrow> 'v js_map \<Rightarrow> 'v option" where
  "mm_get i m = map_of m i"

definition mm_put :: "string \<Rightarrow> 'v \<Rightarrow> 'v js_map \<Rightarrow> 'v js_map" where
  "mm_put i v m = AList.update i v m"

definition mm_putIfAbsent :: "string \<Rightarrow> 'v \<Rightarrow> 'v js_map \<Rightarrow> 'v \<times> 'v js_map" where
  "mm_putIfAbsent i v m =
     (case map_of m i of Some existing \<Rightarrow> (existing, m) | None \<Rightarrow> (v, AList.update i v m))"

definition mm_insertIfAbsent :: "string \<Rightarrow> 'v \<Rightarrow> 'v js_map \<Rightarrow> bool \<times> 'v js_map" where
  "mm_insertIfAbsent i v m =
     (if map_of m i \<noteq> None then (False, m) else (True, AList.update i v m))"

text \<open>\<open>applyPatch\<close> on an object: an \<open>undefined\<close> patch value removes the property.\<close>

fun applyPatch :: "'a js_map \<Rightarrow> 'a option js_map \<Rightarrow> 'a js_map" where
  "applyPatch obj [] = obj"
| "applyPatch obj ((k, None) # patch) = applyPatch (AList.delete k obj) patch"
| "applyPatch obj ((k, Some v) # patch) = applyPatch (AList.update k v obj) patch"

definition mm_merge :: "string \<Rightarrow> 'a option js_map \<Rightarrow> 'a js_map js_map \<Rightarrow> 'a js_map option \<times> 'a js_map js_map" where
  "mm_merge i patch m =
     (case map_of m i of
        None \<Rightarrow> (None, m)
      | Some v \<Rightarrow> (Some (applyPatch v patch), AList.update i (applyPatch v patch) m))"

definition mm_update :: "string \<Rightarrow> ('v \<Rightarrow> 'v) \<Rightarrow> 'v js_map \<Rightarrow> 'v option \<times> 'v js_map" where
  "mm_update i f m =
     (case map_of m i of None \<Rightarrow> (None, m) | Some v \<Rightarrow> (Some (f v), AList.update i (f v) m))"

definition mm_deleteIf :: "string \<Rightarrow> ('v \<Rightarrow> bool) \<Rightarrow> 'v js_map \<Rightarrow> bool \<times> 'v js_map" where
  "mm_deleteIf i P m =
     (case map_of m i of
        None \<Rightarrow> (False, m)
      | Some v \<Rightarrow> if \<not> P v then (False, m) else (True, AList.delete i m))"

definition mm_delete :: "string \<Rightarrow> 'v js_map \<Rightarrow> 'v js_map" where
  "mm_delete i m = AList.delete i m"

definition mm_take :: "string \<Rightarrow> 'v js_map \<Rightarrow> 'v option \<times> 'v js_map" where
  "mm_take i m = (map_of m i, AList.delete i m)"

text \<open>
  \<open>selectValues\<close>: \<open>field\<close> reads the text of the queried property, \<open>project\<close> drops the omitted
  properties. Text outside ASCII always passes the filter, since its case folding differs between
  the two stores.
\<close>

definition isAscii :: "string \<Rightarrow> bool" where
  "isAscii t = list_all (\<lambda>c. of_char c \<le> (127 :: nat)) t"

definition lower_char :: "char \<Rightarrow> char" where
  "lower_char c = (let n = of_char c :: nat in if 65 \<le> n \<and> n \<le> 90 then char_of (n + 32) else c)"

definition toLowerCase :: "string \<Rightarrow> string" where
  "toLowerCase s = map lower_char s"

definition fold_matches :: "('v \<Rightarrow> string option) \<Rightarrow> string list \<Rightarrow> 'v \<Rightarrow> bool" where
  "fold_matches field anyOf v =
     (case field v of
        None \<Rightarrow> False
      | Some t \<Rightarrow> toLowerCase t \<in> set (map toLowerCase anyOf) \<or> \<not> isAscii t)"

fun selectValues ::
  "(('v \<Rightarrow> string option) \<times> string list) option \<Rightarrow> nat option \<Rightarrow> ('v \<Rightarrow> 'w) \<Rightarrow> nat \<Rightarrow> 'v list \<Rightarrow> 'w list" where
  "selectValues wh limit project taken [] = []"
| "selectValues wh limit project taken (v # vs) =
     (if (case limit of None \<Rightarrow> False | Some l \<Rightarrow> taken \<ge> l) then []
      else if (case wh of None \<Rightarrow> False | Some (field, anyOf) \<Rightarrow> \<not> fold_matches field anyOf v)
      then selectValues wh limit project taken vs
      else project v # selectValues wh limit project (Suc taken) vs)"

definition mm_select ::
  "(('v \<Rightarrow> string option) \<times> string list) option \<Rightarrow> nat option \<Rightarrow> string option \<Rightarrow> ('v \<Rightarrow> 'w) \<Rightarrow>
     'v js_map \<Rightarrow> 'w list" where
  "mm_select wh limit afterId project m =
     selectValues wh limit project 0
       (map snd (filter (\<lambda>(i, _). case afterId of None \<Rightarrow> True | Some a \<Rightarrow> i > a) (sortedEntries m)))"

lemma selectValues_unlimited:
  "selectValues wh None project n vs =
     map project (filter (\<lambda>v. case wh of None \<Rightarrow> True | Some (field, anyOf) \<Rightarrow> fold_matches field anyOf v) vs)"
  by (induction vs arbitrary: n) (auto split: option.splits)

lemma selectValues_limited:
  "selectValues wh (Some l) project n vs = take (l - n) (selectValues wh None project n vs)"
proof (induction vs arbitrary: n)
  case (Cons v vs)
  have eq: "selectValues wh None project (Suc n) vs = selectValues wh None project n vs"
    by (simp add: selectValues_unlimited)
  show ?case
  proof (cases "l \<le> n")
    case False
    then obtain d where "l - n = Suc d" "l - Suc n = d" by (metis Suc_diff_Suc not_le)
    with Cons False eq show ?thesis by (auto split: option.splits)
  qed simp
qed simp

lemma mm_select_unlimited:
  "mm_select wh None None project m =
     map project (filter (\<lambda>v. case wh of None \<Rightarrow> True | Some (field, anyOf) \<Rightarrow> fold_matches field anyOf v) (mm_all m))"
  by (simp add: mm_select_def mm_all_def selectValues_unlimited)

definition mm_inv :: "'v js_map \<Rightarrow> bool" where
  "mm_inv m \<longleftrightarrow> distinct (map fst m)"

lemmas mm_defs = mm_get_def mm_put_def mm_putIfAbsent_def mm_insertIfAbsent_def mm_update_def
  mm_deleteIf_def mm_delete_def mm_take_def mm_inv_def sortedEntries_def

lemma distinct_sort_key_fst: "distinct (map fst m) \<Longrightarrow> distinct (map fst (sort_key f m))"
  by (simp add: distinct_map)

lemma sortedEntries_sorted:
  "mm_inv m \<Longrightarrow> sorted (map fst (sortedEntries m)) \<and> distinct (map fst (sortedEntries m))"
  by (simp add: sortedEntries_def mm_inv_def distinct_sort_key_fst)

lemma sortedEntries_get: "mm_inv m \<Longrightarrow> (k, v) \<in> set (sortedEntries m) \<longleftrightarrow> mm_get k m = Some v"
  by (simp add: sortedEntries_def mm_inv_def mm_get_def)

interpretation mm: durable_map mm_get mm_put mm_putIfAbsent mm_insertIfAbsent mm_update mm_deleteIf
  mm_delete mm_take sortedEntries "\<lambda>v. v" mm_inv
  by unfold_locales
    (auto simp: sortedEntries_get sortedEntries_sorted,
     auto simp: mm_defs js_map_simps distinct_update distinct_delete
      simp del: map_of_eq_Some_iff Some_eq_map_of_iff split: option.splits if_splits)

lemma set_mm_all: "mm_inv m \<Longrightarrow> v \<in> set (mm_all m) \<longleftrightarrow> (\<exists>i. mm_get i m = Some v)"
  using mm.entries_get [of m] by (force simp: mm_all_def)

subsection \<open>Guarded updates\<close>

text \<open>
  Several stores wrap \<open>update\<close> with a flag: the callback returns the value as it is when it declines
  (\<open>None\<close> here), and the operation then returns \<open>null\<close>.
\<close>

definition mm_update_if :: "string \<Rightarrow> ('v \<Rightarrow> 'v option) \<Rightarrow> 'v js_map \<Rightarrow> 'v option \<times> 'v js_map" where
  "mm_update_if i change m =
     (let (after, m') = mm_update i (\<lambda>v. case change v of None \<Rightarrow> v | Some w \<Rightarrow> w) m;
          applied = (case mm_get i m of None \<Rightarrow> False | Some v \<Rightarrow> change v \<noteq> None)
      in (if applied then after else None, m'))"

lemma mm_update_if_get:
  "mm_inv m \<Longrightarrow> mm_get k (snd (mm_update_if i change m)) =
     (if k = i then map_option (\<lambda>v. case change v of None \<Rightarrow> v | Some w \<Rightarrow> w) (mm_get i m) else mm_get k m)"
  using mm.get_update [of m k i] by (simp add: mm_update_if_def split_def Let_def)

lemma mm_update_if_inv: "mm_inv m \<Longrightarrow> mm_inv (snd (mm_update_if i change m))"
  using mm.inv_update [of m i] by (simp add: mm_update_if_def split_def Let_def)

lemma mm_update_if_result: "mm_inv m \<Longrightarrow> fst (mm_update_if i change m) = Option.bind (mm_get i m) change"
  using mm.update_result [of m i] by (auto simp: mm_update_if_def split_def Let_def split: option.splits)

lemma mm_update_if_declined:
  "Option.bind (mm_get i m) change = None \<Longrightarrow> mm_update_if i change m = (None, m)"
  by (auto simp: mm_update_if_def mm_update_def mm_get_def update_same split: option.splits)

text \<open>A property of every stored value, together with the identifier it is stored under, is kept by an update whose
  callback keeps it.\<close>

definition all_stored :: "(string \<Rightarrow> 'v \<Rightarrow> bool) \<Rightarrow> 'v js_map \<Rightarrow> bool" where
  "all_stored P m \<longleftrightarrow> mm_inv m \<and> (\<forall>i v. mm_get i m = Some v \<longrightarrow> P i v)"

lemma all_stored_Nil [simp]: "all_stored P []"
  by (simp add: all_stored_def mm_inv_def mm_get_def)

lemma all_storedD: "all_stored P m \<Longrightarrow> mm_get i m = Some v \<Longrightarrow> P i v"
  by (simp add: all_stored_def)

lemma all_stored_inv: "all_stored P m \<Longrightarrow> mm_inv m"
  by (simp add: all_stored_def)

lemma all_stored_mem: "all_stored P m \<Longrightarrow> v \<in> set (mm_all m) \<Longrightarrow> \<exists>i. mm_get i m = Some v \<and> P i v"
  by (auto simp: all_stored_def set_mm_all)

lemma all_stored_update_if:
  assumes "all_stored P m" and "\<And>v w. mm_get i m = Some v \<Longrightarrow> P i v \<Longrightarrow> change v = Some w \<Longrightarrow> P i w"
  shows "all_stored P (snd (mm_update_if i change m))"
  using assms mm_update_if_get [of m] mm_update_if_inv [of m]
  by (auto simp: all_stored_def split: option.splits)

lemma all_stored_update:
  assumes "all_stored P m" and "\<And>v. mm_get i m = Some v \<Longrightarrow> P i v \<Longrightarrow> P i (f v)"
  shows "all_stored P (snd (mm_update i f m))"
  using assms mm.get_update [of m] mm.inv_update [of m] by (auto simp: all_stored_def)

lemma all_stored_put: "all_stored P m \<Longrightarrow> P i v \<Longrightarrow> all_stored P (mm_put i v m)"
  using mm.get_put [of m] mm.inv_put [of m] by (auto simp: all_stored_def)

lemma all_stored_insert: "all_stored P m \<Longrightarrow> P i v \<Longrightarrow> all_stored P (snd (mm_insertIfAbsent i v m))"
  using mm.get_insert [of m] mm.inv_insert [of m] by (auto simp: all_stored_def)

lemma all_stored_putIfAbsent: "all_stored P m \<Longrightarrow> P i v \<Longrightarrow> all_stored P (snd (mm_putIfAbsent i v m))"
  using mm.get_putIfAbsent [of m] mm.inv_putIfAbsent [of m] by (auto simp: all_stored_def)

lemma all_stored_delete: "all_stored P m \<Longrightarrow> all_stored P (mm_delete i m)"
  using mm.get_delete [of m] mm.inv_delete [of m] by (auto simp: all_stored_def)

lemmas all_stored_intros = all_stored_update_if all_stored_update all_stored_put all_stored_insert
  all_stored_putIfAbsent all_stored_delete

end
