(* ===== verification/Triggers.thy ===== *)
theory Triggers
  imports Core_Types Json Durable_Map
begin

text \<open>
  What crons, webhooks, monitors and loops share: the identity of people
  (\<^verbatim>\<open>src/src/directory/person.ts\<close>) and the trigger record with its consent rules
  (\<^verbatim>\<open>src/src/triggers/trigger-store.ts\<close>). The installed link resolver, which maps the folded identifiers of one
  person to a canonical one, is the parameter \<open>links\<close>; \<open>\<lambda>_. None\<close> is the state before one is installed.
\<close>

subsection \<open>Strings\<close>

definition is_space :: "char \<Rightarrow> bool" where
  "is_space c = (let n = of_char c :: nat in n = 32 \<or> (9 \<le> n \<and> n \<le> 13) \<or> n = 160)"

definition trim :: "string \<Rightarrow> string" where
  "trim s = rev (dropWhile is_space (rev (dropWhile is_space s)))"

lemma trim_Nil [simp]: "trim [] = []"
  by (simp add: trim_def)

lemma dropWhile_idem: "dropWhile P (dropWhile P s) = dropWhile P s"
  by (induction s) auto

lemma hd_trim: "trim s \<noteq> [] \<Longrightarrow> \<not> is_space (hd (trim s))"
proof -
  assume ne: "trim s \<noteq> []"
  let ?t = "dropWhile is_space s"
  have "?t = rev (dropWhile is_space (rev ?t)) @ rev (takeWhile is_space (rev ?t))"
    by (simp flip: rev_append)
  then have t: "?t = trim s @ rev (takeWhile is_space (rev ?t))" by (simp add: trim_def)
  then have "hd ?t = hd (trim s)" using ne by (metis hd_append2)
  moreover have "?t \<noteq> []" using t ne by (metis append_is_Nil_conv)
  ultimately show ?thesis using hd_dropWhile [of is_space s] by metis
qed

lemma trim_trim [simp]: "trim (trim s) = trim s"
proof (cases "trim s = []")
  case False
  then have "dropWhile is_space (trim s) = trim s"
    using hd_trim [OF False] by (cases "trim s") auto
  then have "trim (trim s) = rev (dropWhile is_space (rev (trim s)))" by (simp add: trim_def)
  also have "\<dots> = trim s" by (simp add: trim_def dropWhile_idem)
  finally show ?thesis .
qed simp

lemma lower_char_idem [simp]: "lower_char (lower_char c) = lower_char c"
  by (auto simp: lower_char_def Let_def of_char_of)

lemma toLowerCase_idem [simp]: "toLowerCase (toLowerCase s) = toLowerCase s"
  by (simp add: toLowerCase_def)

subsection \<open>People\<close>

definition foldPrincipalId :: "string option \<Rightarrow> string" where
  "foldPrincipalId i =
     (let s = trim (case i of None \<Rightarrow> [] | Some t \<Rightarrow> t) in if CHR ''@'' \<in> set s then toLowerCase s else s)"

definition canonicalPerson :: "(string \<Rightarrow> string option) \<Rightarrow> string \<Rightarrow> string" where
  "canonicalPerson links i =
     (let key = foldPrincipalId (Some i) in
      if key = [] then i else case links key of None \<Rightarrow> i | Some c \<Rightarrow> c)"

definition personIds :: "(string \<Rightarrow> string option) \<Rightarrow> (string \<Rightarrow> string list) \<Rightarrow> string \<Rightarrow> string list" where
  "personIds links aliases i =
     (let key = foldPrincipalId (Some i) in
      if key = [] then []
      else let canonical = (case links key of None \<Rightarrow> trim i | Some c \<Rightarrow> c)
           in canonical # aliases (foldPrincipalId (Some canonical)))"

definition personKey :: "(string \<Rightarrow> string option) \<Rightarrow> string option \<Rightarrow> string" where
  "personKey links i =
     (let key = foldPrincipalId i in
      if key = [] then [] else foldPrincipalId (Some (case links key of None \<Rightarrow> key | Some c \<Rightarrow> c)))"

definition samePerson :: "(string \<Rightarrow> string option) \<Rightarrow> string option \<Rightarrow> string option \<Rightarrow> bool" where
  "samePerson links a b = (let key = personKey links a in key \<noteq> [] \<and> key = personKey links b)"

record roster_person =
  rp_principalId :: "string option"
  rp_slackId :: "string option"

definition personKeys :: "(string \<Rightarrow> string option) \<Rightarrow> roster_person option \<Rightarrow> string \<Rightarrow> string list" where
  "personKeys links member rawId =
     uniq (filter (\<lambda>k. k \<noteq> []) (map (personKey links)
       [Some rawId, Option.bind member rp_principalId, Option.bind member rp_slackId]))"

text \<open>A failing directory lookup counts as an absent row (\<open>.catch(() => null)\<close>).\<close>

definition samePersonInDirectory ::
  "(string \<Rightarrow> string option) \<Rightarrow> (string \<Rightarrow> roster_person option) \<Rightarrow> string \<Rightarrow> string \<Rightarrow> bool" where
  "samePersonInDirectory links directory a b =
     (if samePerson links (Some a) (Some b) then True
      else if personKey links (Some a) = [] \<or> personKey links (Some b) = [] then False
      else list_ex (\<lambda>key. key \<in> set (personKeys links (directory b) b)) (personKeys links (directory a) a))"

definition samePersonMatcher ::
  "(string \<Rightarrow> string option) \<Rightarrow> (string \<Rightarrow> roster_person option) \<Rightarrow> string \<Rightarrow> string \<Rightarrow> bool" where
  "samePersonMatcher links directory actorId i =
     (let row = directory actorId; keys = personKeys links row actorId in
      if personKey links (Some i) \<in> set keys then True
      else if row \<noteq> None then False
      else samePersonInDirectory links directory i actorId)"

subsection \<open>Trigger records\<close>

datatype consent_status = ConsentPending | ConsentAccepted | ConsentDeclined

record recipient_consent =
  rc_recipientId :: string
  rc_status :: consent_status
  rc_decidedAt :: "time option"

record trigger_base =
  tb_id :: string
  tb_ownerScopeId :: scope_id
  tb_owner :: string
  tb_createdBy :: string
  tb_ownerConsentedAt :: "time option"
  tb_destination :: "destination option"
  tb_enabled :: bool
  tb_createdAt :: time
  tb_lastFiredAt :: "time option"
  tb_recipientConsent :: "recipient_consent option"

record create_trigger_input =
  ct_ownerScopeId :: scope_id
  ct_owner :: string
  ct_createdBy :: string
  ct_destination :: "destination option"
  ct_ownerConsentedAt :: "time option"
  ct_recipientConsent :: "recipient_consent option"

definition consentRequiredRecipient ::
  "(string \<Rightarrow> string option) \<Rightarrow> string \<Rightarrow> bool \<Rightarrow> destination option \<Rightarrow> string option" where
  "consentRequiredRecipient links owner standing destination =
     (if \<not> standing then None
      else case destination of
        None \<Rightarrow> None
      | Some d \<Rightarrow>
          if d_type d = ''principal'' \<and> \<not> samePerson links (Some (d_target d)) (Some owner)
          then Some (d_target d) else None)"

definition recipientConsentSatisfied ::
  "(string \<Rightarrow> string option) \<Rightarrow> recipient_consent option \<Rightarrow> string option \<Rightarrow> bool" where
  "recipientConsentSatisfied links consent requiredRecipient =
     (if \<not> truthy requiredRecipient
      then (case consent of None \<Rightarrow> True | Some c \<Rightarrow> rc_status c = ConsentAccepted)
      else (case consent of
              None \<Rightarrow> False
            | Some c \<Rightarrow> rc_status c = ConsentAccepted \<and> samePerson links (Some (rc_recipientId c)) requiredRecipient))"

datatype consent_decision = Accept | Decline

datatype consent_error = NoConsent | NotRecipient

definition decideRecipientConsent ::
  "(string \<Rightarrow> string option) \<Rightarrow> recipient_consent option \<Rightarrow> string \<Rightarrow> consent_decision \<Rightarrow> time \<Rightarrow>
     consent_error + recipient_consent" where
  "decideRecipientConsent links current actorId decision now =
     (case current of
        None \<Rightarrow> Inl NoConsent
      | Some c \<Rightarrow>
          if \<not> samePerson links (Some (rc_recipientId c)) (Some actorId) then Inl NotRecipient
          else Inr (c\<lparr>rc_status := (if decision = Accept then ConsentAccepted else ConsentDeclined),
                       rc_decidedAt := Some now\<rparr>))"

text \<open>\<open>assertNoEscalation\<close> throws when this is false. A consent time of zero is falsy.\<close>

definition assertNoEscalation ::
  "(string \<Rightarrow> string option) \<Rightarrow> string \<Rightarrow> string \<Rightarrow> time option \<Rightarrow> bool" where
  "assertNoEscalation links owner createdBy ownerConsentedAt \<longleftrightarrow>
     samePerson links (Some owner) (Some createdBy) \<or> (ownerConsentedAt \<noteq> None \<and> ownerConsentedAt \<noteq> Some 0)"

definition buildTriggerBase :: "create_trigger_input \<Rightarrow> string \<Rightarrow> time \<Rightarrow> trigger_base" where
  "buildTriggerBase input i createdAt =
     \<lparr>tb_id = i, tb_ownerScopeId = ct_ownerScopeId input, tb_owner = ct_owner input, tb_createdBy = ct_createdBy input,
      tb_ownerConsentedAt = (if ct_ownerConsentedAt input = Some 0 then None else ct_ownerConsentedAt input),
      tb_destination = ct_destination input, tb_enabled = True, tb_createdAt = createdAt, tb_lastFiredAt = None,
      tb_recipientConsent = ct_recipientConsent input\<rparr>"

definition createDeduped :: "string \<Rightarrow> (string \<Rightarrow> 'v) \<Rightarrow> 'v js_map \<Rightarrow> 'v \<times> 'v js_map" where
  "createDeduped contentId build backing = mm_putIfAbsent contentId (build contentId) backing"

definition setTriggerEnabled :: "string \<Rightarrow> bool \<Rightarrow> 'a trigger_base_scheme js_map \<Rightarrow> 'a trigger_base_scheme js_map" where
  "setTriggerEnabled i enabled backing = snd (mm_update i (\<lambda>t. t\<lparr>tb_enabled := enabled\<rparr>) backing)"

definition setTriggerRecipientConsent ::
  "string \<Rightarrow> recipient_consent \<Rightarrow> 'a trigger_base_scheme js_map \<Rightarrow> 'a trigger_base_scheme js_map" where
  "setTriggerRecipientConsent i consent backing =
     snd (mm_update i (\<lambda>t. t\<lparr>tb_recipientConsent := Some consent\<rparr>) backing)"

subsection \<open>Consent\<close>

lemma samePerson_sym: "samePerson links a b \<Longrightarrow> samePerson links b a"
  by (auto simp: samePerson_def Let_def)

lemma samePerson_trans: "samePerson links a b \<Longrightarrow> samePerson links b c \<Longrightarrow> samePerson links a c"
  by (auto simp: samePerson_def Let_def)



text \<open>Consent to receive a standing trigger's messages comes from the recipient alone. For a trigger aimed at a
  person other than its owner, a decision on the consent changes it only when the actor is the
  person named in it, and a consent that satisfies the required recipient after a decision was
  accepted by that recipient; while no consent is recorded nothing is satisfied.\<close>

lemma consent_only_from_recipient:
  assumes "consentRequiredRecipient links owner True dest = Some r" and "r \<noteq> []"
    and "decideRecipientConsent links current actor decision now = Inr c"
    and "recipientConsentSatisfied links (Some c) (Some r)"
  shows "decision = Accept \<and> samePerson links (Some actor) (Some r) \<and>
    \<not> samePerson links (Some r) (Some owner) \<and> \<not> recipientConsentSatisfied links None (Some r) \<and> rc_decidedAt c = Some now"
proof -
  obtain c0 where c0: "current = Some c0" "samePerson links (Some (rc_recipientId c0)) (Some actor)"
    "c = c0\<lparr>rc_status := (if decision = Accept then ConsentAccepted else ConsentDeclined), rc_decidedAt := Some now\<rparr>"
    using assms(3) by (auto simp: decideRecipientConsent_def split: option.splits if_splits)
  have "samePerson links (Some (rc_recipientId c0)) (Some r)" "decision = Accept"
    using assms(2,4) c0(3) by (auto simp: recipientConsentSatisfied_def split: if_splits)
  then have "samePerson links (Some actor) (Some r)" and "decision = Accept"
    using c0(2) samePerson_sym samePerson_trans by blast+
  moreover have "\<not> samePerson links (Some r) (Some owner)"
    using assms(1) by (auto simp: consentRequiredRecipient_def split: option.splits if_splits)
  ultimately show ?thesis using assms(2) c0(3) by (simp add: recipientConsentSatisfied_def)
qed

lemma consent_only_from_recipient_witness:
  "samePerson (\<lambda>_. None) (Some ''BOB@x.io'') (Some ''bob@x.io'')"
  using consent_only_from_recipient [of "\<lambda>_. None" "''ann''" "Some (bare_destination ''principal'' ''bob@x.io'')" "''bob@x.io''"
      "Some \<lparr>rc_recipientId = ''bob@x.io'', rc_status = ConsentPending, rc_decidedAt = None\<rparr>" "''BOB@x.io''" Accept 7
      "\<lparr>rc_recipientId = ''bob@x.io'', rc_status = ConsentAccepted, rc_decidedAt = Some 7\<rparr>"]
  by code_simp

end
