(* ===== verification/Run_Worker.thy ===== *)
theory Run_Worker
  imports Complex_Main Postgres_Runs Turn_Origin Triggers
begin

text \<open>
  The worker that leases runs and processes them, \<^verbatim>\<open>src/src/runs/worker.ts\<close>, the delay of a retry (\<^verbatim>\<open>retry-delay.ts\<close>), and the
  draining of old builds (\<^verbatim>\<open>drain.ts\<close>, \<^verbatim>\<open>instance-registry.ts\<close>). The worker is written against the operations of a run store, and
  the locale \<open>run_leases\<close> states what it relies on; the store in memory and the table in Postgres are its interpretations. The agent turn is a
  parameter, as are the clock and what other callers do to the store while the turn runs.
\<close>

subsection \<open>The store as the worker sees it\<close>

record 'st worker_ops =
  wo_claim :: "string \<Rightarrow> time \<Rightarrow> time \<Rightarrow> string \<Rightarrow> 'st \<Rightarrow> run option \<times> 'st"
  wo_heartbeat :: "string \<Rightarrow> string \<Rightarrow> time \<Rightarrow> time \<Rightarrow> 'st \<Rightarrow> bool \<times> 'st"
  wo_releaseLease :: "string \<Rightarrow> string \<Rightarrow> 'st \<Rightarrow> bool \<times> 'st"
  wo_complete :: "string \<Rightarrow> string \<Rightarrow> turn_result \<Rightarrow> time \<Rightarrow> 'st \<Rightarrow> bool \<times> 'st"
  wo_fail :: "string \<Rightarrow> string \<Rightarrow> string \<Rightarrow> bool option \<Rightarrow> time option \<Rightarrow> time \<Rightarrow> 'st \<Rightarrow> bool \<times> 'st"

definition memory_worker_ops :: "run_store worker_ops" where
  "memory_worker_ops =
     \<lparr>wo_claim = claim, wo_heartbeat = heartbeat, wo_releaseLease = releaseLease, wo_complete = complete, wo_fail = fail_run\<rparr>"

definition pg_worker_ops :: "nat option \<Rightarrow> run_row list \<Rightarrow> (run_row \<Rightarrow> bool) \<Rightarrow> run_db worker_ops" where
  "pg_worker_ops maxClaims snapshot locked =
     \<lparr>wo_claim = (\<lambda>w ttl now tok. pg_claim w ttl now tok None None snapshot locked), wo_heartbeat = pg_heartbeat,
      wo_releaseLease = pg_releaseLease, wo_complete = pg_complete,
      wo_fail = (\<lambda>i tok err retry ms now. pg_fail maxClaims i tok err retry ms now id)\<rparr>"

subsection \<open>Delay of a retry\<close>

text \<open>\<open>jitter\<close> is the random number, at least 0 and below 1; \<open>Math.round\<close> rounds halves up.\<close>

definition retry_base :: "nat \<Rightarrow> rat" where
  "retry_base priorErrors = min 60000 (15000 * 2 ^ min priorErrors 2)"

definition retryDelay :: "rat \<Rightarrow> nat \<Rightarrow> time" where
  "retryDelay jitter priorErrors = min 60000 \<lfloor>retry_base priorErrors * (1 + jitter * (2 / 10)) + 1 / 2\<rfloor>"

subsection \<open>One run\<close>

definition LEASE_LOST_CONSECUTIVE :: nat where "LEASE_LOST_CONSECUTIVE = 3"

record turn_input =
  ti_request :: orchestrator_input
  ti_origin :: turn_origin
  ti_runId :: string
  ti_attempt :: nat
  ti_runLeaseToken :: string
  ti_finalAttempt :: bool
  ti_background :: bool
  ti_queueMs :: "time option"
  ti_runStartedAt :: "time option"

text \<open>How a turn ends: with a result, or with an error, its message, whether it is a \<open>NonRetryableTurnError\<close> and whether it was reported before.\<close>

datatype turn_end = TurnReturns turn_result | TurnThrows string bool bool

datatype process_error = UnleasedRun | TurnFailed string

text \<open>What happens while the turn runs: a heartbeat that is answered or fails, the deadline of a swarm turn, and other callers.\<close>

datatype 'st turn_event = Beat time | BeatFails | WorkDeadline | Others "'st \<Rightarrow> 'st"

record process_env =
  wk_leaseTtlMs :: time
  wk_maxClaims :: "nat option"
  wk_legacy :: "orchestrator_input \<Rightarrow> legacy_origin"
  wk_turnWallClockMs :: "orchestrator_input \<Rightarrow> int option"
  wk_handleTurn :: "turn_input \<Rightarrow> bool \<Rightarrow> turn_end"
  wk_jitter :: rat

record beats =
  be_consecutiveLost :: nat
  be_leaseLost :: bool
  be_cancelled :: bool

definition no_beats :: beats where
  "no_beats = \<lparr>be_consecutiveLost = 0, be_leaseLost = False, be_cancelled = False\<rparr>"

text \<open>A beat comes after the answer to the one before; losing the lease stops the beats.\<close>

definition heartbeat_tick :: "'st worker_ops \<Rightarrow> process_env \<Rightarrow> string \<Rightarrow> string \<Rightarrow> time \<Rightarrow> beats \<Rightarrow> 'st \<Rightarrow> beats \<times> 'st" where
  "heartbeat_tick ops env runId token now b st =
     (if be_leaseLost b then (b, st)
      else case wo_heartbeat ops runId token (wk_leaseTtlMs env) now st of
        (True, st') \<Rightarrow> (b\<lparr>be_consecutiveLost := 0\<rparr>, st')
      | (False, st') \<Rightarrow>
          (let n = be_consecutiveLost b + 1 in
           (if n \<ge> LEASE_LOST_CONSECUTIVE then b\<lparr>be_consecutiveLost := n, be_leaseLost := True, be_cancelled := True\<rparr>
            else b\<lparr>be_consecutiveLost := n\<rparr>, st')))"

definition on_turn_event :: "'st worker_ops \<Rightarrow> process_env \<Rightarrow> run \<Rightarrow> string \<Rightarrow> 'st turn_event \<Rightarrow> beats \<times> 'st \<Rightarrow> beats \<times> 'st" where
  "on_turn_event ops env run token e bst =
     (case (e, bst) of
        (Beat now, (b, st)) \<Rightarrow> heartbeat_tick ops env (run_id run) token now b st
      | (BeatFails, (b, st)) \<Rightarrow> (if be_leaseLost b then b else b\<lparr>be_consecutiveLost := 0\<rparr>, st)
      | (WorkDeadline, (b, st)) \<Rightarrow> (if oi_swarm (run_request run) then b\<lparr>be_cancelled := True\<rparr> else b, st)
      | (Others f, (b, st)) \<Rightarrow> (b, f st))"

definition during_turn :: "'st worker_ops \<Rightarrow> process_env \<Rightarrow> run \<Rightarrow> string \<Rightarrow> 'st turn_event list \<Rightarrow> 'st \<Rightarrow> beats \<times> 'st" where
  "during_turn ops env run token events st = fold (on_turn_event ops env run token) events (no_beats, st)"

text \<open>The setting \<open>turnMs\<close> of a swarm turn, from \<^verbatim>\<open>src/src/swarms/swarm-settings.ts\<close>; an absent value is not a safe integer.\<close>

definition swarm_turnMs :: "int option \<Rightarrow> string + time" where
  "swarm_turnMs v = (case v of Some ms \<Rightarrow> if 1 \<le> ms \<and> ms \<le> 3600000 then Inr ms else Inl ''invalid swarm setting: turnMs''
     | None \<Rightarrow> Inl ''invalid swarm setting: turnMs'')"

definition turn_input_of :: "process_env \<Rightarrow> run \<Rightarrow> string \<Rightarrow> bool \<Rightarrow> turn_input" where
  "turn_input_of env run token background =
     \<lparr>ti_request = run_request run, ti_origin = resolveTurnOrigin (wk_legacy env (run_request run)) (oi_origin (run_request run)),
      ti_runId = run_id run, ti_attempt = run_attempts run, ti_runLeaseToken = token,
      ti_finalAttempt = errorParks run (wk_maxClaims env), ti_background = background,
      ti_queueMs = map_option (\<lambda>s. max 0 (s - run_createdAt run)) (run_startedAt run), ti_runStartedAt = run_startedAt run\<rparr>"

definition swarm_refusal :: "process_env \<Rightarrow> run \<Rightarrow> turn_end option" where
  "swarm_refusal env run =
     (if \<not> oi_swarm (run_request run) then None
      else case swarm_turnMs (wk_turnWallClockMs env (run_request run)) of
        Inl msg \<Rightarrow> Some (TurnThrows msg False False)
      | Inr _ \<Rightarrow> if run_attempts run > 3 then Some (TurnThrows ''swarm claim budget exhausted'' True False) else None)"

definition GENERIC_TURN_FAILURE :: string where
  "GENERIC_TURN_FAILURE = ''That turn failed and couldn't be completed. The details are in the operator error log.''"

definition turnFailureMessage :: "string \<Rightarrow> bool \<Rightarrow> string" where
  "turnFailureMessage msg nonRetryable = (if nonRetryable \<and> trim msg \<noteq> [] then msg else GENERIC_TURN_FAILURE)"

definition lease_lost_message :: "run \<Rightarrow> string" where
  "lease_lost_message run = ''run '' @ run_id run @ '' lost its lease before completion''"

definition fail_process ::
  "'st worker_ops \<Rightarrow> process_env \<Rightarrow> run \<Rightarrow> string \<Rightarrow> string \<Rightarrow> bool \<Rightarrow> bool \<Rightarrow> time \<Rightarrow> 'st \<Rightarrow> (process_error + turn_result) \<times> string list \<times> 'st" where
  "fail_process ops env run token msg nonRetryable reported now st =
     (Inl (TurnFailed msg), if reported then [] else [''run '' @ run_id run @ '': '' @ msg],
      snd (wo_fail ops (run_id run) token (turnFailureMessage msg nonRetryable) (Some (\<not> nonRetryable))
             (Some (retryDelay (wk_jitter env) (run_errorAttempts run))) now st))"

text \<open>The result, what is recorded in the error log, and the store. \<open>ended\<close> is the time at which the turn ended.\<close>

definition processRun ::
  "'st worker_ops \<Rightarrow> process_env \<Rightarrow> run \<Rightarrow> bool \<Rightarrow> 'st turn_event list \<Rightarrow> time \<Rightarrow> 'st \<Rightarrow> (process_error + turn_result) \<times> string list \<times> 'st" where
  "processRun ops env run background events ended st =
     (case run_leaseToken run of
        None \<Rightarrow> (Inl UnleasedRun, [], st)
      | Some token \<Rightarrow>
          (case swarm_refusal env run of
             Some (TurnThrows msg nonRetryable reported) \<Rightarrow> fail_process ops env run token msg nonRetryable reported ended st
           | _ \<Rightarrow>
               (let (b, st1) = during_turn ops env run token events st in
                case wk_handleTurn env (turn_input_of env run token background) (be_cancelled b) of
                  TurnThrows msg nonRetryable reported \<Rightarrow> fail_process ops env run token msg nonRetryable reported ended st1
                | TurnReturns result \<Rightarrow>
                    (case wo_complete ops (run_id run) token result ended st1 of
                       (True, st2) \<Rightarrow> (Inr result, [], st2)
                     | (False, st2) \<Rightarrow> fail_process ops env run token (lease_lost_message run) False False ended st2))))"

subsection \<open>The loop\<close>

definition CLAIM_FAIL_CRASH_CONSECUTIVE :: nat where "CLAIM_FAIL_CRASH_CONSECUTIVE = 20"

record held_run =
  hr_runId :: string
  hr_leaseToken :: string
  hr_threadRef :: string

record worker =
  wr_id :: string
  wr_pollMs :: time
  wr_stopped :: bool
  wr_claimFailures :: nat
  wr_inFlight :: "held_run option"
  wr_releasedLeaseToken :: "string option"

datatype loop_outcome = LoopEnds | LoopThrows | LoopSleeps time | LoopWaits | LoopClaimed run

text \<open>A turn of the loop up to the moment the run is handed to \<open>processRun\<close>. The claim may throw; \<open>stoppedNow\<close> and \<open>canClaim2\<close> are
  read when its answer arrives.\<close>

definition worker_claim ::
  "'st worker_ops \<Rightarrow> process_env \<Rightarrow> bool \<Rightarrow> bool \<Rightarrow> bool \<Rightarrow> bool \<Rightarrow> time \<Rightarrow> string \<Rightarrow> worker \<times> 'st \<Rightarrow> loop_outcome \<times> worker \<times> 'st" where
  "worker_claim ops env canClaim claimThrows stoppedNow canClaim2 now token wst =
     (let (w, st) = wst in
      if wr_stopped w then (LoopEnds, w, st)
      else if \<not> canClaim then (LoopSleeps (wr_pollMs w), w, st)
      else if claimThrows
      then (let n = wr_claimFailures w + 1; w' = w\<lparr>wr_claimFailures := n\<rparr> in
            if n \<ge> CLAIM_FAIL_CRASH_CONSECUTIVE then (LoopThrows, w', st)
            else (LoopSleeps (min (wr_pollMs w * 2 ^ min n 5) 5000), w', st))
      else (let w' = w\<lparr>wr_claimFailures := 0, wr_stopped := stoppedNow\<rparr> in
            case wo_claim ops (wr_id w) (wk_leaseTtlMs env) now token st of
              (None, st1) \<Rightarrow> (LoopWaits, w', st1)
            | (Some r, st1) \<Rightarrow>
                if stoppedNow \<or> \<not> canClaim2
                then (LoopEnds, w',
                      case run_leaseToken r of None \<Rightarrow> st1 | Some t \<Rightarrow> snd (wo_releaseLease ops (run_id r) t st1))
                else (LoopClaimed r,
                      w'\<lparr>wr_inFlight := map_option (\<lambda>t. \<lparr>hr_runId = run_id r, hr_leaseToken = t, hr_threadRef = run_sessionId r\<rparr>) (run_leaseToken r)\<rparr>,
                      st1)))"

definition worker_process ::
  "'st worker_ops \<Rightarrow> process_env \<Rightarrow> run \<Rightarrow> 'st turn_event list \<Rightarrow> time \<Rightarrow> worker \<times> 'st \<Rightarrow> (process_error + turn_result) \<times> worker \<times> 'st" where
  "worker_process ops env r events ended wst =
     (case processRun ops env r True events ended (snd wst) of
        (res, _, st') \<Rightarrow> (res, (fst wst)\<lparr>wr_inFlight := None\<rparr>, st'))"

definition worker_stopClaims :: "worker \<Rightarrow> worker" where
  "worker_stopClaims w = w\<lparr>wr_stopped := True\<rparr>"

text \<open>\<open>releaseInFlight\<close>: the lease is proved once more, the session of the thread is freed, then the run is handed back. The threads whose session
  lease was released are returned; \<open>awaiting\<close> is what others do to the store in between.\<close>

definition releaseInFlight ::
  "'st worker_ops \<Rightarrow> process_env \<Rightarrow> time \<Rightarrow> (string \<Rightarrow> bool) \<Rightarrow> ('st \<Rightarrow> 'st) \<Rightarrow> worker \<times> 'st \<Rightarrow> string list \<times> worker \<times> 'st" where
  "releaseInFlight ops env now hasSession awaiting wst =
     (let (w, st) = wst in
      case wr_inFlight w of
        None \<Rightarrow> ([], w, st)
      | Some held \<Rightarrow>
          if wr_releasedLeaseToken w = Some (hr_leaseToken held) then ([], w, st)
          else (case wo_heartbeat ops (hr_runId held) (hr_leaseToken held) (wk_leaseTtlMs env) now st of
                  (False, st1) \<Rightarrow> ([], w\<lparr>wr_releasedLeaseToken := Some (hr_leaseToken held)\<rparr>, st1)
                | (True, st1) \<Rightarrow>
                    (if hasSession (hr_threadRef held) then [hr_threadRef held] else [],
                     w\<lparr>wr_releasedLeaseToken := Some (hr_leaseToken held)\<rparr>,
                     snd (wo_releaseLease ops (hr_runId held) (hr_leaseToken held) (awaiting st1)))))"

subsection \<open>Draining old builds\<close>

definition INSTANCE_LIVENESS_MS :: time where "INSTANCE_LIVENESS_MS = 30000"

record instance_row =
  ih_instanceId :: string
  ih_buildSha :: string
  ih_startedAt :: time
  ih_beatAt :: time

record instance_id =
  in_instanceId :: string
  in_buildSha :: string
  in_startedAt :: time

definition upsert_beat :: "instance_id \<Rightarrow> time \<Rightarrow> instance_row list \<Rightarrow> instance_row list" where
  "upsert_beat me now rows =
     (if list_ex (\<lambda>r. ih_instanceId r = in_instanceId me) rows
      then map (\<lambda>r. if ih_instanceId r = in_instanceId me then r\<lparr>ih_beatAt := now\<rparr> else r) rows
      else rows @ [\<lparr>ih_instanceId = in_instanceId me, ih_buildSha = in_buildSha me, ih_startedAt = in_startedAt me, ih_beatAt = now\<rparr>])"

text \<open>One beat: it is recorded, old rows are deleted, and a newer build that is alive supersedes this one.\<close>

definition registry_beat :: "time \<Rightarrow> instance_id \<Rightarrow> time \<Rightarrow> instance_row list \<Rightarrow> bool \<times> instance_row list" where
  "registry_beat livenessMs me now rows =
     (let rows' = filter (\<lambda>r. \<not> ih_beatAt r < now - 3600000) (upsert_beat me now rows) in
      (list_ex (\<lambda>r. ih_buildSha r \<noteq> in_buildSha me \<and> ih_startedAt r > in_startedAt me \<and> ih_beatAt r > now - livenessMs) rows', rows'))"

record drain_state =
  dn_superseded :: bool
  dn_protectionOn :: bool

text \<open>A sweep; the value of the task protection that it sets, if any.\<close>

definition drain_sweep :: "bool \<Rightarrow> bool \<Rightarrow> bool \<Rightarrow> drain_state \<Rightarrow> bool option \<times> drain_state" where
  "drain_sweep hasProtection superseded busy d =
     (let d = d\<lparr>dn_superseded := superseded\<rparr> in
      if \<not> hasProtection then (None, d)
      else if busy then (Some True, d\<lparr>dn_protectionOn := True\<rparr>)
      else if dn_protectionOn d then (Some False, d\<lparr>dn_protectionOn := False\<rparr>)
      else (None, d))"

definition drain_stop :: "bool \<Rightarrow> drain_state \<Rightarrow> bool option \<times> drain_state" where
  "drain_stop hasProtection d = (if dn_protectionOn d \<and> hasProtection then (Some False, d\<lparr>dn_protectionOn := False\<rparr>) else (None, d))"

definition drain_canClaim :: "drain_state \<Rightarrow> bool" where
  "drain_canClaim d = (\<not> dn_superseded d)"

definition drain_noteBusy :: "bool \<Rightarrow> drain_state \<Rightarrow> bool option \<times> drain_state" where
  "drain_noteBusy hasProtection d =
     (if \<not> hasProtection \<or> dn_protectionOn d then (None, d) else (Some True, d\<lparr>dn_protectionOn := True\<rparr>))"

subsection \<open>What the worker relies on\<close>

text \<open>\<open>look\<close> is the stored run, \<open>ok\<close> the invariant of the store.\<close>

definition stale :: "string \<Rightarrow> run option \<Rightarrow> bool" where
  "stale token r \<longleftrightarrow> (case r of None \<Rightarrow> True | Some r \<Rightarrow> run_leaseToken r \<noteq> Some token)"

definition failed_run :: "run \<Rightarrow> string \<Rightarrow> time \<Rightarrow> run" where
  "failed_run r reason now =
     r\<lparr>run_status := Failed, run_leaseToken := None, run_leaseExpiresAt := None, run_workerId := None, run_errorAttempts := run_errorAttempts r + 1,
       run_result := Some ((bare_result TFailed)\<lparr>tr_sessionId := Some (run_sessionId r), tr_reason := Some reason\<rparr>), run_finishedAt := Some now\<rparr>"

definition requeued_run :: "run \<Rightarrow> run" where
  "requeued_run r =
     r\<lparr>run_status := Pending, run_leaseToken := None, run_leaseExpiresAt := None, run_workerId := None, run_errorAttempts := run_errorAttempts r + 1\<rparr>"

definition completed_by :: "turn_result \<Rightarrow> time \<Rightarrow> run \<Rightarrow> run \<Rightarrow> bool" where
  "completed_by result now r r' \<longleftrightarrow> run_status r' = Done \<and> run_result r' = Some result \<and> run_finishedAt r' = Some now \<and> run_leaseToken r' = None \<and>
     run_id r' = run_id r \<and> run_attempts r' = run_attempts r \<and> run_errorAttempts r' = run_errorAttempts r"

text \<open>Others leave the lease of a run alone; the lease is held and the run is as the worker claimed it; what becomes of it.\<close>

definition leaves_lease :: "('st \<Rightarrow> bool) \<Rightarrow> (string \<Rightarrow> 'st \<Rightarrow> run option) \<Rightarrow> string \<Rightarrow> string \<Rightarrow> 'st turn_event \<Rightarrow> bool" where
  "leaves_lease ok look i tok e \<longleftrightarrow> (case e of Others f \<Rightarrow>
     \<forall>st r. ok st \<longrightarrow> look i st = Some r \<longrightarrow> run_leaseToken r = Some tok \<longrightarrow>
       ok (f st) \<and> (\<exists>r'. look i (f st) = Some r' \<and> run_leaseToken r' = Some tok \<and> run_attempts r' = run_attempts r \<and>
          run_errorAttempts r' = run_errorAttempts r \<and> run_maxAttempts r' = run_maxAttempts r \<and> run_id r' = run_id r) | _ \<Rightarrow> True)"

definition holds :: "('st \<Rightarrow> bool) \<Rightarrow> (string \<Rightarrow> 'st \<Rightarrow> run option) \<Rightarrow> run \<Rightarrow> string \<Rightarrow> 'st \<Rightarrow> bool" where
  "holds ok look run tok st \<longleftrightarrow> ok st \<and> (\<exists>r. look (run_id run) st = Some r \<and> run_leaseToken r = Some tok \<and> run_attempts r = run_attempts run \<and>
     run_errorAttempts r = run_errorAttempts run \<and> run_maxAttempts r = run_maxAttempts run \<and> run_id r = run_id run)"

definition process_outcome :: "nat option \<Rightarrow> run \<Rightarrow> time \<Rightarrow> turn_end \<Rightarrow> run \<Rightarrow> bool" where
  "process_outcome maxClaims run ended e r' \<longleftrightarrow>
     (case e of
        TurnReturns result \<Rightarrow> completed_by result ended run r'
      | TurnThrows msg nonRetryable reported \<Rightarrow>
          run_leaseToken r' = None \<and> run_errorAttempts r' = run_errorAttempts run + 1 \<and>
          run_status r' = (if nonRetryable \<or> errorParks run maxClaims then Failed else Pending))"

locale run_leases =
  fixes ops :: "'st worker_ops" and ok :: "'st \<Rightarrow> bool" and look :: "string \<Rightarrow> 'st \<Rightarrow> run option" and maxClaims :: "nat option"
  assumes stale_refused: "ok st \<Longrightarrow> stale tok (look i st) \<Longrightarrow>
      wo_heartbeat ops i tok ttl now st = (False, st) \<and> wo_releaseLease ops i tok st = (False, st) \<and>
      wo_complete ops i tok res now st = (False, st) \<and> wo_fail ops i tok err retry ms now st = (False, st)"
    and held_heartbeat: "ok st \<Longrightarrow> look i st = Some r \<Longrightarrow> run_leaseToken r = Some tok \<Longrightarrow>
      fst (wo_heartbeat ops i tok ttl now st) \<and> ok (snd (wo_heartbeat ops i tok ttl now st)) \<and>
      look i (snd (wo_heartbeat ops i tok ttl now st)) = Some (r\<lparr>run_leaseExpiresAt := Some (now + ttl)\<rparr>)"
    and held_release: "ok st \<Longrightarrow> look i st = Some r \<Longrightarrow> run_leaseToken r = Some tok \<Longrightarrow>
      fst (wo_releaseLease ops i tok st) \<and> ok (snd (wo_releaseLease ops i tok st)) \<and>
      look i (snd (wo_releaseLease ops i tok st)) =
        Some (r\<lparr>run_status := Pending, run_leaseToken := None, run_leaseExpiresAt := None, run_workerId := None\<rparr>)"
    and held_complete: "ok st \<Longrightarrow> look i st = Some r \<Longrightarrow> run_leaseToken r = Some tok \<Longrightarrow>
      fst (wo_complete ops i tok res now st) \<and> ok (snd (wo_complete ops i tok res now st)) \<and>
      (\<exists>r'. look i (snd (wo_complete ops i tok res now st)) = Some r' \<and> completed_by res now r r')"
    and held_fail: "ok st \<Longrightarrow> look i st = Some r \<Longrightarrow> run_leaseToken r = Some tok \<Longrightarrow>
      ok (snd (wo_fail ops i tok err retry ms now st)) \<and>
      (fst (wo_fail ops i tok err retry ms now st) \<longleftrightarrow> retry \<noteq> Some False \<and> \<not> errorParks r maxClaims) \<and>
      look i (snd (wo_fail ops i tok err retry ms now st)) =
        Some (if retry \<noteq> Some False \<and> \<not> errorParks r maxClaims then requeued_run r else failed_run r err now)"
    and claim_leases: "ok st \<Longrightarrow> wo_claim ops w ttl now tok st = (got, st') \<Longrightarrow>
      ok st' \<and> (case got of None \<Rightarrow> st' = st | Some r \<Rightarrow> run_leaseToken r = Some tok \<and> look (run_id r) st' = Some r \<and>
         (\<exists>q. look (run_id r) st = Some q \<and> run_status q = Pending \<and> r = leased w ttl now tok q))"
begin

text \<open>A worker whose lease went to someone else cannot write.\<close>

lemma stale_process:
  assumes "ok st1" "stale tok (look (run_id run) st1)" "run_leaseToken run = Some tok" "swarm_refusal env run = None"
    and "during_turn ops env run tok events st = (b, st1)"
  shows "\<exists>msg log. processRun ops env run background events ended st = (Inl (TurnFailed msg), log, st1)"
proof -
  note refused = stale_refused [OF assms(1,2)]
  show ?thesis
    using assms(3-5) refused by (auto simp: processRun_def fail_process_def Let_def split: turn_end.split)
qed

text \<open>While the lease is held every beat is answered, and the turn is not cancelled for want of it.\<close>

lemma held_event:
  assumes "holds ok look run tok st" "leaves_lease ok look (run_id run) tok e" "on_turn_event ops env run tok e (b, st) = (b', st')"
    and "\<not> be_leaseLost b"
  shows "holds ok look run tok st' \<and> \<not> be_leaseLost b' \<and> (be_cancelled b' \<longrightarrow> be_cancelled b \<or> oi_swarm (run_request run))"
proof (cases e)
  case (Beat now)
  obtain r where r: "ok st" "look (run_id run) st = Some r" "run_leaseToken r = Some tok" "run_attempts r = run_attempts run"
    "run_errorAttempts r = run_errorAttempts run" "run_maxAttempts r = run_maxAttempts run" "run_id r = run_id run"
    using assms(1) by (auto simp: holds_def)
  show ?thesis
    using held_heartbeat [OF r(1-3), of "wk_leaseTtlMs env" now] assms(3,4) r
    by (auto simp: Beat on_turn_event_def heartbeat_tick_def holds_def split: prod.splits bool.splits)
next
  case (Others f)
  then show ?thesis
    using assms by (fastforce simp: on_turn_event_def leaves_lease_def holds_def)
qed (use assms in \<open>auto simp: on_turn_event_def split: if_splits\<close>)

lemma held_turn:
  assumes "holds ok look run tok st" "\<forall>e \<in> set events. leaves_lease ok look (run_id run) tok e" "\<not> be_leaseLost b"
    and "fold (on_turn_event ops env run tok) events (b, st) = (b', st')"
  shows "holds ok look run tok st' \<and> (be_cancelled b' \<longrightarrow> be_cancelled b \<or> oi_swarm (run_request run))"
  using assms
proof (induction events arbitrary: b st)
  case (Cons e es)
  obtain b1 st1 where e: "on_turn_event ops env run tok e (b, st) = (b1, st1)" by fastforce
  note one = held_event [OF Cons.prems(1) _ e Cons.prems(3)]
  show ?case using one Cons.IH [of st1 b1] Cons.prems(2,4) e by auto
qed auto

text \<open>A lost lease is noticed after three beats in a row.\<close>

lemma lost_means_cancelled:
  "fold (on_turn_event ops env run tok) events (b, st) = (b', st') \<Longrightarrow> (be_leaseLost b \<longrightarrow> be_cancelled b) \<Longrightarrow> be_leaseLost b' \<longrightarrow> be_cancelled b'"
proof (induction events arbitrary: b st)
  case (Cons e es)
  obtain b1 st1 where e: "on_turn_event ops env run tok e (b, st) = (b1, st1)" by fastforce
  then have "be_leaseLost b1 \<longrightarrow> be_cancelled b1"
    using Cons.prems(2) by (auto simp: on_turn_event_def heartbeat_tick_def Let_def split: turn_event.splits prod.splits bool.splits if_splits)
  then show ?case using Cons.IH [of b1 st1] Cons.prems(1) e by simp
qed simp

lemma lost_noticed:
  assumes "during_turn ops env run tok events st = (b, st1)" "ok st1" "stale tok (look (run_id run) st1)"
  shows "\<exists>b'. during_turn ops env run tok (events @ [Beat t1, Beat t2, Beat t3]) st = (b', st1) \<and> be_cancelled b'"
proof -
  have refused: "wo_heartbeat ops (run_id run) tok ttl now st1 = (False, st1)" for ttl now using stale_refused [OF assms(2,3)] by blast
  have "be_leaseLost b \<longrightarrow> be_cancelled b" using lost_means_cancelled assms(1) by (fastforce simp: during_turn_def no_beats_def)
  with assms(1) refused show ?thesis
    by (auto simp: during_turn_def on_turn_event_def heartbeat_tick_def LEASE_LOST_CONSECUTIVE_def Let_def)
qed

text \<open>A claim whose answer comes after the stop is handed back.\<close>

lemma handed_back:
  assumes "ok st" "\<not> wr_stopped w" "wo_claim ops (wr_id w) (wk_leaseTtlMs env) now tok st = (Some r, st1)" "stoppedNow \<or> \<not> canClaim2"
  shows "\<exists>w' st'. worker_claim ops env True False stoppedNow canClaim2 now tok (w, st) = (LoopEnds, w', st') \<and> wr_inFlight w' = wr_inFlight w \<and> ok st' \<and>
    (\<exists>r'. look (run_id r) st' = Some r' \<and> run_status r' = Pending \<and> run_leaseToken r' = None)"
proof -
  have c: "ok st1" "run_leaseToken r = Some tok" "look (run_id r) st1 = Some r" using claim_leases [OF assms(1,3)] by auto
  show ?thesis
    using held_release [OF c(1,3,2)] assms(2-4) c(2) by (auto simp: worker_claim_def Let_def)
qed

text \<open>What becomes of a run whose lease is held to the end of the turn.\<close>

lemma held_process:
  assumes "holds ok look run tok st" "\<forall>e \<in> set events. leaves_lease ok look (run_id run) tok e" "run_leaseToken run = Some tok"
    and "swarm_refusal env run = None" "during_turn ops env run tok events st = (b, st1)"
  shows "\<exists>res log st' r'. processRun ops env run background events ended st = (res, log, st') \<and> look (run_id run) st' = Some r' \<and>
    process_outcome maxClaims run ended (wk_handleTurn env (turn_input_of env run tok background) (be_cancelled b)) r'"
proof -
  have "holds ok look run tok st1"
    using held_turn [OF assms(1,2), of no_beats] assms(5) by (auto simp: during_turn_def no_beats_def)
  then obtain r where r: "ok st1" "look (run_id run) st1 = Some r" "run_leaseToken r = Some tok" "run_attempts r = run_attempts run"
    "run_errorAttempts r = run_errorAttempts run" "run_maxAttempts r = run_maxAttempts run" "run_id r = run_id run"
    by (auto simp: holds_def)
  have parks: "errorParks r maxClaims = errorParks run maxClaims" using r(4-6) by (simp add: errorParks_def split: option.split)
  show ?thesis
  proof (cases "wk_handleTurn env (turn_input_of env run tok background) (be_cancelled b)")
    case (TurnReturns res)
    obtain r' where r': "look (run_id run) (snd (wo_complete ops (run_id run) tok res ended st1)) = Some r'" "completed_by res ended r r'"
      and "fst (wo_complete ops (run_id run) tok res ended st1)"
      using held_complete [OF r(1-3)] by blast
    then obtain st' where "wo_complete ops (run_id run) tok res ended st1 = (True, st')" by (metis prod.collapse)
    with r' TurnReturns assms(3-5) r(4-7) show ?thesis
      by (auto simp: processRun_def process_outcome_def completed_by_def)
  next
    case (TurnThrows msg nr rep)
    show ?thesis
      using held_fail [OF r(1-3), of "turnFailureMessage msg nr" "Some (\<not> nr)" "Some (retryDelay (wk_jitter env) (run_errorAttempts run))" ended] TurnThrows assms(3-5) parks r(4-7)
      by (auto simp: processRun_def process_outcome_def fail_process_def requeued_run_def failed_run_def)
  qed
qed

end

subsection \<open>Both stores\<close>

lemma stale_lookup: "stale tok (get_run i st) \<Longrightarrow> get_run i st = None \<or> (\<exists>r. get_run i st = Some r \<and> run_leaseToken r \<noteq> Some tok)"
  by (auto simp: stale_def split: option.splits)

interpretation mem_leases: run_leases memory_worker_ops "\<lambda>st. store_ok st \<and> rs_maxClaims st = m" get_run m
proof (unfold_locales, goal_cases)
  case (1 st tok i ttl now res err retry ms)
  then show ?case
    using stale_lookup [OF 1(2)] stale_token_refused
    by (auto simp: memory_worker_ops_def heartbeat_def releaseLease_def complete_def fail_run_def holds_lease_def)
next
  case (2 st i r tok ttl now)
  then have "run_status r = Running" using store_okD(2) leased_running by blast
  with 2 heartbeat_ok [of st i tok ttl now] show ?case by (auto simp: memory_worker_ops_def heartbeat_def holds_lease_def get_put_run)
next
  case (3 st i r tok)
  then have "run_status r = Running" using store_okD(2) leased_running by blast
  with 3 releaseLease_ok [of st i tok] show ?case by (auto simp: memory_worker_ops_def releaseLease_def holds_lease_def get_put_run)
next
  case (4 st i r tok res now)
  with complete_ok [of st i tok res now] show ?case
    by (auto simp: memory_worker_ops_def complete_def get_put_run completed_by_def Let_def settle_frame)
next
  case (5 st i r tok err retry ms now)
  then have run: "run_status r = Running" using store_okD(2) leased_running by blast
  with 5 fail_run_ok [of st i tok err retry ms now] show ?case
    by (auto simp: memory_worker_ops_def fail_run_def retire_def retire_refused_def errors_after_def errorParks_def overClaimed_def unleased_def
        get_put_run requeued_run_def failed_run_def Let_def)
next
  case (6 st w ttl now tok got st')
  have "store_ok st'" using claim_ok [of st w ttl now tok] 6 by (simp add: memory_worker_ops_def)
  moreover have "rs_maxClaims st' = rs_maxClaims st"
    using 6(2) by (auto simp: memory_worker_ops_def claim_def lease_def split: list.splits)
  moreover have "case got of None \<Rightarrow> st' = st | Some r \<Rightarrow> run_leaseToken r = Some tok \<and> get_run (run_id r) st' = Some r \<and>
      (\<exists>q. get_run (run_id r) st = Some q \<and> run_status q = Pending \<and> r = leased w ttl now tok q)"
  proof (cases got)
    case None
    with 6(2) show ?thesis by (auto simp: memory_worker_ops_def claim_def lease_def split: list.splits)
  next
    case (Some r)
    with 6 have c: "claim w ttl now tok st = (Some r, st')" and ok: "store_ok st" by (simp_all add: memory_worker_ops_def)
    obtain q where q: "q \<in> set (pendingRuns now st)" "get_run (run_id q) st = Some q" "r = leased w ttl now tok q"
      "get_run (run_id r) st' = Some r" using claim_Some [OF ok c] by metis
    then have "run_status q = Pending" using set_pendingRuns [OF ok] by blast
    with q Some show ?thesis by simp
  qed
  ultimately show ?case using 6(1) by simp
qed

lemma pg_lease_running: "store_ok (store_of db) \<Longrightarrow> pg_getRun i db = Some r \<Longrightarrow> run_leaseToken r = Some tok \<Longrightarrow> run_status r = Running"
  using store_okD(2) [of "store_of db" i r] leased_running by (simp add: get_store_of)

text \<open>An update under a token the row does not hold is refused; under the token it holds it applies.\<close>

lemma pg_stale_update:
  assumes "store_ok (store_of db)" "stale tok (pg_getRun i db)" "\<And>r. cond r \<Longrightarrow> run_leaseToken r = Some tok"
  shows "update_run i cond f db = (False, db)"
proof -
  have "\<not> (run_id r = i \<and> cond r)" if "r \<in> set (pg_rows db)" for r
    using pg_getRun_row [OF assms(1), of r] that assms(2,3) by (auto simp: stale_def)
  then have "\<not> fst (update_run i cond f db)" by (auto simp: update_run_def list_ex_iff)
  with update_refused [OF this] show ?thesis by (metis prod.collapse)
qed

lemma pg_held_update:
  assumes "store_ok (store_of db)" "pg_getRun i db = Some r" "cond r" "\<And>row. rr_run (f row) = g (rr_run row)" "\<And>r. run_id (g r) = run_id r"
  shows "fst (update_run i cond f db)" and "pg_getRun i (snd (update_run i cond f db)) = Some (g r)"
  using store_of_update(2) [where f = f and g = g, OF assms(1,4,5)] get_update_run [where f = f and g = g, OF assms(1,4,5)] assms(2,3) by auto

lemmas pg_held_in_run = pg_held_update [where f = "in_run g" and g = g for g, OF _ _ _ in_run_simps(1)]

lemma pg_held_fail:
  assumes ok: "store_ok (store_of db)" and r: "pg_getRun i db = Some r" and tok: "run_leaseToken r = Some tok"
  shows "(fst (pg_fail m i tok err retry ms now id db) \<longleftrightarrow> retry \<noteq> Some False \<and> \<not> errorParks r m) \<and>
    pg_getRun i (snd (pg_fail m i tok err retry ms now id db)) =
      Some (if retry \<noteq> Some False \<and> \<not> errorParks r m then requeued_run r else failed_run r err now)"
proof -
  let ?opts = "failure_opts ms"
  have i: "run_id r = i" using pg_getRun_mem [OF r] by simp
  have applies: "retire_applies r ?opts r" using tok pg_lease_running [OF ok r tok] by (simp add: retire_applies_def failure_opts_def)
  have again: "retry \<noteq> Some False \<and> errors_after ?opts r < run_maxAttempts r \<and> \<not> pg_overClaimed m r \<longleftrightarrow> retry \<noteq> Some False \<and> \<not> errorParks r m"
    by (auto simp: errors_after_def failure_opts_def errorParks_def pg_overClaimed_def split: option.splits)
  have fail: "pg_fail m i tok err retry ms now id db = (let ((requeued, _), db') = pg_retire m r err (retry \<noteq> Some False) ?opts now db in (requeued, db'))"
    using r tok by (simp add: pg_fail_def split: prod.split)
  note held = pg_held_update [OF ok r, where cond = "retire_applies r ?opts", OF applies]
  show ?thesis
  proof (cases "retry \<noteq> Some False \<and> \<not> errorParks r m")
    case True
    let ?g = "\<lambda>r. (unleased ?opts r)\<lparr>run_status := Pending\<rparr>"
    let ?f = "\<lambda>row. (in_run ?g row)\<lparr>rr_retryAfter := now + max 0 (case ro_retryAfterMs ?opts of None \<Rightarrow> 0 | Some d \<Rightarrow> d)\<rparr>"
    have "?g r = requeued_run r" by (simp add: unleased_def requeued_run_def errors_after_def failure_opts_def)
    with True again i held [where g = ?g and f = ?f] show ?thesis by (simp add: fail pg_retire_def split_def Let_def unleased_def)
  next
    case False
    let ?result = "Some ((bare_result TFailed)\<lparr>tr_sessionId := Some (run_sessionId r), tr_reason := Some err\<rparr>)"
    let ?g = "\<lambda>r. (unleased ?opts r)\<lparr>run_status := Failed, run_result := ?result, run_finishedAt := Some now\<rparr>"
    have g: "?g r = failed_run r err now" by (simp add: unleased_def failed_run_def errors_after_def failure_opts_def)
    have off: "\<not> (retry \<noteq> Some False \<and> errors_after ?opts r < run_maxAttempts r \<and> \<not> pg_overClaimed m r)" using False again by blast
    have upd: "fst (update_run i (retire_applies r ?opts) (in_run ?g) db)"
      "pg_getRun i (snd (update_run i (retire_applies r ?opts) (in_run ?g) db)) = Some (?g r)"
      using held [where g = ?g and f = "in_run ?g"] by (simp_all add: unleased_def)
    have counted: "ro_countsAsError ?opts" by (simp add: failure_opts_def)
    have "pg_retire m r err (retry \<noteq> Some False) ?opts now db =
        ((False, True), pg_settle i (snd (update_run i (retire_applies r ?opts) (in_run ?g) db)))"
      unfolding pg_retire_def if_not_P [OF off] Let_def i using upd(1) counted by (simp add: split_def)
    with upd(2) False g show ?thesis by (auto simp: fail)
  qed
qed

lemma pg_fail_store_ok:
  assumes "store_ok (store_of db)"
  shows "store_ok (store_of (snd (pg_fail m i tok err retry ms now id db)))"
proof -
  have "store_ok (store_of (snd (pg_retire m r err (retry \<noteq> Some False) (failure_opts ms) now db)))" if "pg_getRun i db = Some r" for r
    by (rule pg_retire_ok [OF assms]) (use that pg_getRun_mem [OF that] in auto)
  then show ?thesis using assms by (auto simp: pg_fail_def split_def split: option.split)
qed

interpretation pg_leases: run_leases "pg_worker_ops m snapshot locked" "\<lambda>db. store_ok (store_of db)" pg_getRun m
proof (unfold_locales, goal_cases)
  case (1 db tok i ttl now res err retry ms)
  have stale: "update_run i (holds_lease tok) f db = (False, db)" "update_run i (\<lambda>r. run_leaseToken r = Some tok) f db = (False, db)" for f
    by (rule pg_stale_update [OF 1]; simp add: holds_lease_def)+
  have "pg_getRun i db = None \<or> (\<exists>r. pg_getRun i db = Some r \<and> run_leaseToken r \<noteq> Some tok)"
    using 1(2) by (auto simp: stale_def split: option.splits)
  then show ?case
    by (auto simp: pg_worker_ops_def pg_heartbeat_def pg_releaseLease_def pg_complete_def pg_fail_def stale)
next
  case (2 db i r tok ttl now)
  have "holds_lease tok r" using 2(3) pg_lease_running [OF 2] by (simp add: holds_lease_def)
  note held = pg_held_in_run [OF 2(1,2), where cond = "holds_lease tok", OF this]
  show ?case using held [where g = "\<lambda>r. r\<lparr>run_leaseExpiresAt := Some (now + ttl)\<rparr>"] pg_heartbeat_ok [OF 2(1), of i tok ttl now]
    by (simp add: pg_worker_ops_def pg_heartbeat_def)
next
  case (3 db i r tok)
  have "holds_lease tok r" using 3(3) pg_lease_running [OF 3] by (simp add: holds_lease_def)
  note held = pg_held_in_run [OF 3(1,2), where cond = "holds_lease tok", OF this]
  show ?case
    using held [where g = "\<lambda>r. r\<lparr>run_status := Pending, run_leaseToken := None, run_leaseExpiresAt := None, run_workerId := None\<rparr>"]
      pg_release_ok [OF 3(1), of i tok] by (simp add: pg_worker_ops_def pg_releaseLease_def)
next
  case (4 db i r tok res now)
  let ?g = "\<lambda>r. r\<lparr>run_status := Done, run_result := Some res, run_leaseToken := None, run_leaseExpiresAt := None,
      run_finishedAt := Some now, run_dedupKey := (if releasesDedupKey res then None else run_dedupKey r)\<rparr>"
  note held = pg_held_in_run [OF 4(1,2), where cond = "\<lambda>r. run_leaseToken r = Some tok" and g = ?g, OF 4(3)]
  have "completed_by res now r (?g r)" by (simp add: completed_by_def)
  with held pg_complete_ok [OF 4(1), of i tok res now] show ?case
    by (auto simp: pg_worker_ops_def pg_complete_def split_def split: bool.split)
next
  case (5 db i r tok err retry ms now)
  then show ?case using pg_held_fail [OF 5, of m err retry ms now] pg_fail_store_ok [OF 5(1)] by (simp add: pg_worker_ops_def)
next
  case (6 db w ttl now tok got db')
  then have c: "pg_claim w ttl now tok None None snapshot locked db = (got, db')" by (simp add: pg_worker_ops_def)
  then show ?case
  proof (cases rule: pg_claim_cases)
    case (2 c row)
    have row: "pg_getRun (run_id (rr_run row)) db = Some (rr_run row)" using pg_getRun_row [OF 6(1), of "rr_run row"] 2(3) by (simp add: pg_rows_def)
    have "pg_getRun (run_id (rr_run row)) db' = Some (leased w ttl now tok (rr_run row))"
      using pg_held_in_run(2) [OF 6(1) row, where g = "leased w ttl now tok" and cond = "\<lambda>_. True"] 2(8) by simp
    then show ?thesis using c row 2(5,7) pg_claim_ok [OF 6(1), of w ttl now tok None None snapshot locked] by (simp add: waits_def)
  qed (use 6(1) in simp)
qed

subsection \<open>Properties of the worker\<close>

lemma claimed_held:
  assumes "pg_run_reachable m s" "pg_claim w ttl now tok None None snapshot locked (pgs_db s) = (Some run, db)"
  shows "holds (\<lambda>db. store_ok (store_of db)) pg_getRun run tok db" and "run_leaseToken run = Some tok"
  using pg_leases.claim_leases [OF pg_reachable_store [OF assms(1)], of m snapshot locked w ttl now tok "Some run" db] assms(2)
  by (auto simp: pg_worker_ops_def holds_def)


text \<open>C8: A worker that lost its lease does no harm and notices. When at the end of a turn the run in the table is no longer leased under its token, be it because
  the reaper fenced it, because another worker has it or because it is gone, then processing it ends with an error and leaves the table exactly as it is;
  and three heartbeats after the loss the turn is cancelled.\<close>

theorem stale_worker_harmless:
  assumes "pg_run_reachable m s" "during_turn (pg_worker_ops m snapshot locked) env run tok events db = (b, pgs_db s)"
    and "stale tok (pg_getRun (run_id run) (pgs_db s))" "run_leaseToken run = Some tok" "swarm_refusal env run = None"
  shows "(\<exists>msg log. processRun (pg_worker_ops m snapshot locked) env run background events ended db = (Inl (TurnFailed msg), log, pgs_db s)) \<and>
    (\<exists>b'. during_turn (pg_worker_ops m snapshot locked) env run tok (events @ [Beat t1, Beat t2, Beat t3]) db = (b', pgs_db s) \<and> be_cancelled b')"
  using pg_leases.stale_process [OF pg_reachable_store [OF assms(1)] assms(3,4,5,2)]
    pg_leases.lost_noticed [OF assms(2) pg_reachable_store [OF assms(1)] assms(3)] by blast

text \<open>A run claimed by a worker that is being stopped goes back to the queue.\<close>

lemma stopped_worker_hands_back:
  assumes "pg_run_reachable m s" "\<not> wr_stopped w"
    and "pg_claim (wr_id w) (wk_leaseTtlMs env) now tok None None snapshot locked (pgs_db s) = (Some r, db)" "stoppedNow \<or> \<not> canClaim2"
  shows "\<exists>w' db' r'. worker_claim (pg_worker_ops m snapshot locked) env True False stoppedNow canClaim2 now tok (w, pgs_db s) = (LoopEnds, w', db') \<and>
    wr_inFlight w' = wr_inFlight w \<and> pg_getRun (run_id r) db' = Some r' \<and> run_status r' = Pending \<and> run_leaseToken r' = None"
  using pg_leases.handed_back [OF pg_reachable_store [OF assms(1)] assms(2), of m snapshot locked env now tok r db stoppedNow canClaim2] assms(3,4)
  by (auto simp: pg_worker_ops_def)

text \<open>The same of the store in memory.\<close>

lemma memory_stale_worker_harmless:
  assumes "run_reachable m s" "during_turn memory_worker_ops env run tok events st = (b, sys_store s)" "rs_maxClaims (sys_store s) = m"
    and "stale tok (get_run (run_id run) (sys_store s))" "run_leaseToken run = Some tok" "swarm_refusal env run = None"
  shows "\<exists>msg log. processRun memory_worker_ops env run background events ended st = (Inl (TurnFailed msg), log, sys_store s)"
  using mem_leases.stale_process [of "sys_store s" m] reachable_store_ok [OF assms(1)] assms(2-6) by simp

text \<open>A retry waits between fifteen seconds and a minute.\<close>

lemma retryDelay_bounds:
  assumes "0 \<le> jitter" "jitter \<le> 1"
  shows "15000 \<le> retryDelay jitter n \<and> retryDelay jitter n \<le> 60000"
proof -
  have "(15000::rat) \<le> retry_base n" by (simp add: retry_base_def)
  moreover have "retry_base n * 1 \<le> retry_base n * (1 + jitter * (2 / 10))" using assms calculation by (intro mult_left_mono) auto
  ultimately have "(15000::rat) \<le> retry_base n * (1 + jitter * (2 / 10)) + 1 / 2" unfolding mult_1_right by linarith
  then have "15000 \<le> \<lfloor>retry_base n * (1 + jitter * (2 / 10)) + 1 / 2\<rfloor>" by (simp add: le_floor_iff)
  then show ?thesis by (simp add: retryDelay_def)
qed

text \<open>The build that was started last is never told to drain, so that some build goes on claiming.\<close>

lemma newest_build_claims:
  assumes "\<And>r. r \<in> set rows \<Longrightarrow> ih_startedAt r \<le> in_startedAt me"
  shows "drain_canClaim (snd (drain_sweep p (fst (registry_beat livenessMs me now rows)) busy d))"
  using assms by (auto simp: drain_canClaim_def drain_sweep_def registry_beat_def upsert_beat_def Let_def list_ex_iff split: if_splits; force)

subsection \<open>An example\<close>

definition demo_process :: process_env where
  "demo_process =
     \<lparr>wk_leaseTtlMs = 100, wk_maxClaims = None, wk_legacy = (\<lambda>_. no_legacy), wk_turnWallClockMs = (\<lambda>_. None),
      wk_handleTurn = (\<lambda>_ _. TurnReturns (bare_result TOk)), wk_jitter = 0\<rparr>"

definition demo_claim :: "run option \<times> run_db" where
  "demo_claim = pg_claim ''w'' 100 10 ''t1'' None None (db_runs (pgs_db demo_pg2)) (\<lambda>_. False) (pgs_db demo_pg2)"

definition demo_worker_ops :: "run_db worker_ops" where
  "demo_worker_ops = pg_worker_ops None (db_runs (pgs_db demo_pg2)) (\<lambda>_. False)"

lemma demo_claimed:
  obtains r where "demo_claim = (Some r, snd demo_claim)" "run_id r = ''r1''" "\<not> oi_swarm (run_request r)" "run_leaseToken r = Some ''t1''"
proof -
  have "map_option (\<lambda>r. (run_id r, oi_swarm (run_request r), run_leaseToken r)) (fst demo_claim) = Some (''r1'', False, Some ''t1'')" by code_simp
  then obtain r where "fst demo_claim = Some r" "run_id r = ''r1''" "\<not> oi_swarm (run_request r)" "run_leaseToken r = Some ''t1''" by auto
  with that show ?thesis by (metis prod.collapse)
qed


theorem stale_worker_harmless_witness:
  "\<exists>msg log. processRun demo_worker_ops demo_process (the (fst demo_claim)) True [Others (\<lambda>_. pgs_db demo_pg5)] 30 (snd demo_claim) =
     (Inl (TurnFailed msg), log, pgs_db demo_pg5)"
proof -
  obtain r where r: "demo_claim = (Some r, snd demo_claim)" "run_id r = ''r1''" "\<not> oi_swarm (run_request r)" "run_leaseToken r = Some ''t1''"
    by (rule demo_claimed)
  have "the (fst demo_claim) = r" by (subst r(1)) simp
  moreover have "stale ''t1'' (pg_getRun ''r1'' (pgs_db demo_pg5))" by code_simp
  ultimately show ?thesis
    using stale_worker_harmless [OF demo_pg_reachable(3), of "db_runs (pgs_db demo_pg2)" "\<lambda>_. False" demo_process r "''t1''" "[Others (\<lambda>_. pgs_db demo_pg5)]" "snd demo_claim" no_beats True 30] r
    by (auto simp: during_turn_def on_turn_event_def swarm_refusal_def demo_worker_ops_def)
qed

end
