(* ===== verification/Acl.thy ===== *)
theory Acl
  imports Triggers
begin

text \<open>
  Access grants: \<^verbatim>\<open>src/src/acl/resource-ref.ts\<close>, \<^verbatim>\<open>src/src/acl/acl-store.ts\<close> and the tables of
  \<^verbatim>\<open>src/src/acl/postgres-grant-store.ts\<close>. The interface \<open>GrantPersistence\<close> is the locale \<open>grant_persistence\<close>, which
  the in-memory list and the Postgres table both interpret; the store's operations take the persistence's
  functions as arguments. The entitlement of a principal to a scope is a parameter, as it is in the code.
\<close>

subsection \<open>Resource references\<close>

datatype resource_kind = KFile | KSkill | KDeploy | KCron | KServiceCred

record resource_ref =
  rr_kind :: resource_kind
  rr_id :: string

definition refPrefix :: "resource_kind \<Rightarrow> string" where
  "refPrefix kind = (case kind of KFile \<Rightarrow> [] | KSkill \<Rightarrow> ''skill:'' | KDeploy \<Rightarrow> ''deployment:'' | KCron \<Rightarrow> ''cron:''
     | KServiceCred \<Rightarrow> ''service-cred:'')"

definition encodeRef :: "resource_ref \<Rightarrow> string" where
  "encodeRef r = (if rr_kind r = KFile then rr_id r else refPrefix (rr_kind r) @ rr_id r)"

definition prefixed_kinds :: "resource_kind list" where
  "prefixed_kinds = [KSkill, KDeploy, KCron, KServiceCred]"

definition parseRef :: "string \<Rightarrow> resource_ref" where
  "parseRef s =
     (case List.find (\<lambda>kind. starts_with (refPrefix kind) s) prefixed_kinds of
        Some kind \<Rightarrow> \<lparr>rr_kind = kind, rr_id = drop (length (refPrefix kind)) s\<rparr>
      | None \<Rightarrow> \<lparr>rr_kind = KFile, rr_id = s\<rparr>)"

text \<open>Resource references are printed and parsed back. Printing a parsed reference gives the text back, always;
  parsing a printed reference gives the reference back for every kind but files, and for a file exactly
  when its path does not begin like a reference of another kind.\<close>

lemma resource_ref_roundtrip:
  "encodeRef (parseRef s) = s \<and>
   (parseRef (encodeRef r) = r \<longleftrightarrow>
      \<not> (rr_kind r = KFile \<and> list_ex (\<lambda>kind. starts_with (refPrefix kind) (rr_id r)) prefixed_kinds))"
proof
  show "encodeRef (parseRef s) = s"
  proof (cases "List.find (\<lambda>kind. starts_with (refPrefix kind) s) prefixed_kinds")
    case (Some kind)
    then have "kind \<in> set prefixed_kinds" "starts_with (refPrefix kind) s" by (auto dest: find_Some_mem)
    with Some show ?thesis
      by (auto simp: parseRef_def encodeRef_def prefixed_kinds_def starts_with_iff)
  qed (simp add: parseRef_def encodeRef_def)
next
  show "parseRef (encodeRef r) = r \<longleftrightarrow>
      \<not> (rr_kind r = KFile \<and> list_ex (\<lambda>kind. starts_with (refPrefix kind) (rr_id r)) prefixed_kinds)"
    by (cases r, cases "rr_kind r")
      (auto simp: parseRef_def encodeRef_def prefixed_kinds_def refPrefix_def starts_with_def split: if_splits)
qed

subsection \<open>Grants\<close>

definition isFileGrant :: "grant \<Rightarrow> bool" where
  "isFileGrant g \<longleftrightarrow> rr_kind (parseRef (g_ref g)) = KFile"

definition last_segment :: "string \<Rightarrow> string" where
  "last_segment p = rev (takeWhile (\<lambda>c. c \<noteq> CHR ''/'') (rev p))"

definition basename :: "string \<Rightarrow> string" where
  "basename p = (if last_segment p = [] then p else last_segment p)"

definition toHandle :: "grant \<Rightarrow> granted_handle" where
  "toHandle g = \<lparr>gh_carried = False, gh_handlePath = ''shared/'' @ basename (g_ref g), gh_ownerScopeId = g_ownerScopeId g,
     gh_ownerPath = g_ref g, gh_permission = g_permission g\<rparr>"

definition ownerOf :: "scope_id \<Rightarrow> string option" where
  "ownerOf sid = (let (kind, ref) = parseScopeId sid in if kind = Some Personal then Some ref else None)"

definition isMembershipManaged :: "scope_id \<Rightarrow> bool" where
  "isMembershipManaged sid = (let (kind, _) = parseScopeId sid in kind = Some Channel \<or> kind = Some Group)"

definition sameGrant :: "grant \<Rightarrow> grant \<Rightarrow> bool" where
  "sameGrant a b \<longleftrightarrow> g_ownerScopeId a = g_ownerScopeId b \<and> g_ref a = g_ref b \<and>
     g_granteeScopeId a = g_granteeScopeId b \<and> g_permission a = g_permission b"

definition sameGrantTuple :: "grant \<Rightarrow> grant \<Rightarrow> bool" where
  "sameGrantTuple a b \<longleftrightarrow> sameGrant a b \<and> g_grantedBy a = g_grantedBy b"

definition sameGrantSet :: "grant list \<Rightarrow> grant list \<Rightarrow> bool" where
  "sameGrantSet a b \<longleftrightarrow> length a = length b \<and> list_all (\<lambda>g. list_ex (sameGrantTuple g) b) a"

definition of_resource :: "scope_id \<Rightarrow> string \<Rightarrow> grant \<Rightarrow> bool" where
  "of_resource ownerScopeId ref g \<longleftrightarrow> g_ownerScopeId g = ownerScopeId \<and> g_ref g = ref"

lemma sameGrantTuple_eq [simp]: "sameGrantTuple a b \<longleftrightarrow> a = b" for a b :: grant
  by (auto simp: sameGrantTuple_def sameGrant_def)

lemma sameGrant_refl [simp]: "sameGrant g g"
  by (simp add: sameGrant_def)

lemma sameGrantSet_iff:
  assumes "distinct a"
  shows "sameGrantSet a b \<longleftrightarrow> length a = length b \<and> set a = set b"
proof -
  have "set a = set b" if "length a = length b" "set a \<subseteq> set b"
    using that assms card_seteq [of "set b" "set a"] card_length [of b] by (simp add: distinct_card)
  then show ?thesis by (auto simp: sameGrantSet_def list_all_iff list_ex_iff)
qed

definition distinct_keys :: "grant list \<Rightarrow> bool" where
  "distinct_keys gs \<longleftrightarrow> distinct gs \<and> (\<forall>g \<in> set gs. \<forall>h \<in> set gs. sameGrant g h \<longrightarrow> g = h)"

subsection \<open>The store over a persistence\<close>

text \<open>\<open>manages\<close> is the optional membership check; the error of a refused operation is its message.\<close>

type_synonym scope_management = "string \<Rightarrow> scope_id \<Rightarrow> string option \<Rightarrow> bool"

definition canManage ::
  "(string \<Rightarrow> string option) \<Rightarrow> scope_management option \<Rightarrow> scope_id \<Rightarrow> string \<Rightarrow> string option \<Rightarrow> bool" where
  "canManage links manages sid principalId authoredBy =
     (case ownerOf sid of
        Some own \<Rightarrow> samePerson links (Some principalId) (Some own)
      | None \<Rightarrow>
          (case manages of
             Some m \<Rightarrow> if isMembershipManaged sid then m principalId sid authoredBy else True
           | None \<Rightarrow> True))"

definition acl_grant ::
  "(string \<Rightarrow> string option) \<Rightarrow> scope_management option \<Rightarrow> (grant \<Rightarrow> 'p \<Rightarrow> 'p) \<Rightarrow> grant \<Rightarrow> string option \<Rightarrow> 'p \<Rightarrow>
     (string + unit) \<times> 'p" where
  "acl_grant links manages put g authoredBy p =
     (if \<not> canManage links manages (g_ownerScopeId g) (g_grantedBy g) authoredBy
      then (Inl ''only a manager of this scope may grant access (no transitive re-share)'', p)
      else (Inr (), put g p))"

definition acl_revoke ::
  "(string \<Rightarrow> string option) \<Rightarrow> scope_management option \<Rightarrow> ('p \<Rightarrow> grant list) \<Rightarrow> (grant \<Rightarrow> 'p \<Rightarrow> 'p) \<Rightarrow> scope_id \<Rightarrow> string \<Rightarrow>
     scope_id \<Rightarrow> string \<Rightarrow> string option \<Rightarrow> 'p \<Rightarrow> (string + unit) \<times> 'p" where
  "acl_revoke links manages all_grants remove ownerScopeId ref granteeScopeId revokedBy authoredBy p =
     (if \<not> canManage links manages ownerScopeId revokedBy authoredBy
      then (Inl ''only a manager of this scope may revoke access'', p)
      else (Inr (), fold remove
             (filter (\<lambda>g. g_ownerScopeId g = ownerScopeId \<and> g_ref g = ref \<and> g_granteeScopeId g = granteeScopeId) (all_grants p)) p))"

definition replaceGrantsIfCurrent ::
  "(string \<Rightarrow> string option) \<Rightarrow> scope_management option \<Rightarrow>
     (scope_id \<Rightarrow> string \<Rightarrow> grant list \<Rightarrow> grant list \<Rightarrow> 'p \<Rightarrow> bool \<times> 'p) \<Rightarrow> scope_id \<Rightarrow> string \<Rightarrow> grant list \<Rightarrow> grant list \<Rightarrow>
     string \<Rightarrow> string option \<Rightarrow> 'p \<Rightarrow> (string + bool) \<times> 'p" where
  "replaceGrantsIfCurrent links manages replace ownerScopeId ref expected replacement changedBy authoredBy p =
     (if \<not> canManage links manages ownerScopeId changedBy authoredBy
      then (Inl ''only a manager of this scope may replace access grants'', p)
      else if list_ex (\<lambda>g. \<not> of_resource ownerScopeId ref g) expected \<or> list_ex (\<lambda>g. \<not> of_resource ownerScopeId ref g) replacement
      then (Inl ''replacement grants must belong to the selected resource'', p)
      else let (ok, p') = replace ownerScopeId ref expected replacement p in (Inr ok, p'))"

definition handlesFor :: "('p \<Rightarrow> grant list) \<Rightarrow> scope_id list \<Rightarrow> 'p \<Rightarrow> granted_handle list" where
  "handlesFor all_grants scopeIds p =
     map toHandle (filter (\<lambda>g. isFileGrant g \<and> g_granteeScopeId g \<in> set scopeIds) (all_grants p))"

type_synonym scope_entitlement = "principal \<Rightarrow> scope_id \<Rightarrow> scope_id \<Rightarrow> scope_id \<Rightarrow> bool"

definition reaches :: "scope_entitlement \<Rightarrow> scope_id \<Rightarrow> scope_id \<Rightarrow> principal \<Rightarrow> grant \<Rightarrow> bool" where
  "reaches entitled sessionScopeId orgScopeId pr g \<longleftrightarrow>
     entitled pr (g_granteeScopeId g) sessionScopeId orgScopeId \<or> entitled pr (g_ownerScopeId g) sessionScopeId orgScopeId"

definition shared_with_audience :: "scope_entitlement \<Rightarrow> principal list \<Rightarrow> scope_id \<Rightarrow> scope_id \<Rightarrow> grant \<Rightarrow> bool" where
  "shared_with_audience entitled audience sessionScopeId orgScopeId g \<longleftrightarrow>
     list_ex (\<lambda>pr. entitled pr (g_granteeScopeId g) sessionScopeId orgScopeId) audience \<and>
     list_all (\<lambda>pr. reaches entitled sessionScopeId orgScopeId pr g) audience"

definition handlesForAudience ::
  "('p \<Rightarrow> grant list) \<Rightarrow> principal list \<Rightarrow> scope_id \<Rightarrow> scope_id \<Rightarrow> scope_entitlement \<Rightarrow> 'p \<Rightarrow> granted_handle list" where
  "handlesForAudience all_grants audience sessionScopeId orgScopeId entitled p =
     (if audience = [] then []
      else map toHandle (filter (\<lambda>g. isFileGrant g \<and> shared_with_audience entitled audience sessionScopeId orgScopeId g) (all_grants p)))"

definition grantsFor :: "('p \<Rightarrow> grant list) \<Rightarrow> scope_id \<Rightarrow> string \<Rightarrow> 'p \<Rightarrow> grant list" where
  "grantsFor all_grants ownerScopeId ref p = filter (of_resource ownerScopeId ref) (all_grants p)"

definition grantsOfKind ::
  "('p \<Rightarrow> grant list) \<Rightarrow> resource_kind \<Rightarrow> principal list \<Rightarrow> scope_id \<Rightarrow> scope_id \<Rightarrow> scope_entitlement \<Rightarrow> 'p \<Rightarrow> grant list" where
  "grantsOfKind all_grants kind audience sessionScopeId orgScopeId entitled p =
     (if audience = [] then []
      else filter (\<lambda>g. starts_with (refPrefix kind) (g_ref g) \<and> g_ownerScopeId g = orgScopeId \<and>
             list_all (\<lambda>pr. entitled pr (g_granteeScopeId g) sessionScopeId orgScopeId) audience) (all_grants p))"

definition sharedOfKindForAudience ::
  "('p \<Rightarrow> grant list) \<Rightarrow> resource_kind \<Rightarrow> principal list \<Rightarrow> scope_id \<Rightarrow> scope_id \<Rightarrow> scope_entitlement \<Rightarrow> 'p \<Rightarrow> grant list" where
  "sharedOfKindForAudience all_grants kind audience sessionScopeId orgScopeId entitled p =
     (if audience = [] then []
      else filter (\<lambda>g. starts_with (refPrefix kind) (g_ref g) \<and>
             shared_with_audience entitled audience sessionScopeId orgScopeId g) (all_grants p))"

subsection \<open>The persistence interface\<close>

text \<open>
  \<open>put\<close> stores a grant for its four-part key, \<open>remove\<close> drops the key, and \<open>replaceForResourceIfCurrent\<close> swaps all grants of a
  resource when the expected ones are current.
\<close>

locale grant_persistence =
  fixes all_grants :: "'p \<Rightarrow> grant list"
    and put :: "grant \<Rightarrow> 'p \<Rightarrow> 'p"
    and remove :: "grant \<Rightarrow> 'p \<Rightarrow> 'p"
    and replace :: "scope_id \<Rightarrow> string \<Rightarrow> grant list \<Rightarrow> grant list \<Rightarrow> 'p \<Rightarrow> bool \<times> 'p"
    and inv :: "'p \<Rightarrow> bool"
  assumes keys: "inv p \<Longrightarrow> distinct_keys (all_grants p)"
    and put_stored: "inv p \<Longrightarrow> \<exists>h \<in> set (all_grants (put g p)). sameGrant g h"
    and put_others: "inv p \<Longrightarrow> {h \<in> set (all_grants (put g p)). \<not> sameGrant g h} = {h \<in> set (all_grants p). \<not> sameGrant g h}"
    and remove_all: "inv p \<Longrightarrow> set (all_grants (remove g p)) = {h \<in> set (all_grants p). \<not> sameGrant h g}"
    and replace_ok: "inv p \<Longrightarrow> \<forall>g \<in> set replacement. of_resource ow ref g \<Longrightarrow> distinct_keys replacement \<Longrightarrow>
      fst (replace ow ref expected replacement p) \<longleftrightarrow> sameGrantSet (filter (of_resource ow ref) (all_grants p)) expected"
    and replace_refused: "inv p \<Longrightarrow> \<not> fst (replace ow ref expected replacement p) \<Longrightarrow>
      snd (replace ow ref expected replacement p) = p"
    and replace_grants: "inv p \<Longrightarrow> fst (replace ow ref expected replacement p) \<Longrightarrow>
      \<forall>g \<in> set replacement. of_resource ow ref g \<Longrightarrow> distinct_keys replacement \<Longrightarrow>
      set (all_grants (snd (replace ow ref expected replacement p))) =
        {h \<in> set (all_grants p). \<not> of_resource ow ref h} \<union> set replacement"
    and inv_put: "inv p \<Longrightarrow> inv (put g p)"
    and inv_remove: "inv p \<Longrightarrow> inv (remove g p)"
    and inv_replace: "inv p \<Longrightarrow> \<forall>g \<in> set replacement. of_resource ow ref g \<Longrightarrow> distinct_keys replacement \<Longrightarrow>
      inv (snd (replace ow ref expected replacement p))"
begin

text \<open>Removing a list of grants removes exactly their keys.\<close>

lemma remove_many:
  "inv p \<Longrightarrow> inv (fold remove gs p) \<and>
     set (all_grants (fold remove gs p)) = {h \<in> set (all_grants p). \<forall>g \<in> set gs. \<not> sameGrant h g}"
  by (induction gs arbitrary: p) (auto simp: inv_remove remove_all)

lemma revoke_exact:
  assumes "inv p" and "canManage links manages ow by authoredBy"
    and "acl_revoke links manages all_grants remove ow ref grantee by authoredBy p = (r, p')"
  shows "r = Inr () \<and> inv p' \<and>
    set (all_grants p') = {g \<in> set (all_grants p). \<not> (g_ownerScopeId g = ow \<and> g_ref g = ref \<and> g_granteeScopeId g = grantee)}"
  using assms remove_many [OF assms(1)] by (auto simp: acl_revoke_def sameGrant_def)

lemma replace_exact:
  assumes "inv p" and "canManage links manages ow by authoredBy" and "distinct_keys replacement"
    and "\<forall>g \<in> set expected \<union> set replacement. of_resource ow ref g"
    and "replaceGrantsIfCurrent links manages replace ow ref expected replacement by authoredBy p = (r, p')"
  shows "(r = Inr True \<longleftrightarrow> length expected = length (grantsFor all_grants ow ref p) \<and> set expected = set (grantsFor all_grants ow ref p)) \<and>
    (r = Inr True \<longrightarrow> set (grantsFor all_grants ow ref p') = set replacement \<and>
       {g \<in> set (all_grants p'). \<not> of_resource ow ref g} = {g \<in> set (all_grants p). \<not> of_resource ow ref g}) \<and>
    (r \<noteq> Inr True \<longrightarrow> p' = p)"
proof -
  have r: "r = Inr (fst (replace ow ref expected replacement p))" "p' = snd (replace ow ref expected replacement p)"
    using assms(2,4,5) by (auto simp: replaceGrantsIfCurrent_def list_ex_iff split: prod.splits)
  have "distinct (filter (of_resource ow ref) (all_grants p))"
    using keys [OF assms(1)] by (simp add: distinct_keys_def)
  note iff = sameGrantSet_iff [OF this, of expected]
  have "\<forall>g \<in> set replacement. of_resource ow ref g" using assms(4) by blast
  note ok = replace_ok [OF assms(1) this assms(3), of expected]
  have "fst (replace ow ref expected replacement p) \<longleftrightarrow>
      length expected = length (grantsFor all_grants ow ref p) \<and> set expected = set (grantsFor all_grants ow ref p)"
    unfolding ok iff grantsFor_def by metis
  moreover have "fst (replace ow ref expected replacement p) \<Longrightarrow>
      set (grantsFor all_grants ow ref p') = set replacement \<and>
       {g \<in> set (all_grants p'). \<not> of_resource ow ref g} = {g \<in> set (all_grants p). \<not> of_resource ow ref g}"
    using replace_grants [OF assms(1), of ow ref expected replacement] assms(3,4) r(2) by (auto simp: grantsFor_def)
  ultimately show ?thesis using replace_refused [OF assms(1), of ow ref expected replacement] r by auto
qed

end

subsection \<open>In memory\<close>

definition permission_name :: "permission \<Rightarrow> string" where
  "permission_name p = (case p of PermRead \<Rightarrow> ''read'' | PermWrite \<Rightarrow> ''write'')"

definition grant_sort_text :: "grant \<Rightarrow> string" where
  "grant_sort_text g = join_with [CHR 0x0A] [g_ownerScopeId g, g_ref g, g_granteeScopeId g, permission_name (g_permission g)]"

definition mg_all :: "grant list \<Rightarrow> grant list" where
  "mg_all grants = sort_key grant_sort_text grants"

definition mg_put :: "grant \<Rightarrow> grant list \<Rightarrow> grant list" where
  "mg_put g grants = (if \<not> list_ex (\<lambda>x. sameGrant x g) grants then grants @ [g] else grants)"

definition mg_remove :: "grant \<Rightarrow> grant list \<Rightarrow> grant list" where
  "mg_remove g grants = filter (\<lambda>x. \<not> sameGrant x g) grants"

definition mg_replace :: "scope_id \<Rightarrow> string \<Rightarrow> grant list \<Rightarrow> grant list \<Rightarrow> grant list \<Rightarrow> bool \<times> grant list" where
  "mg_replace ownerScopeId ref expected replacement grants =
     (let current = filter (of_resource ownerScopeId ref) grants in
      if \<not> sameGrantSet current expected then (False, grants)
      else (True, filter (\<lambda>g. \<not> of_resource ownerScopeId ref g) grants @ replacement))"

lemma sameGrant_sym: "sameGrant a b \<Longrightarrow> sameGrant b a"
  by (simp add: sameGrant_def)

lemma sameGrantSet_sort [simp]: "sameGrantSet (sort_key f a) b \<longleftrightarrow> sameGrantSet a b"
  by (simp add: sameGrantSet_def list_all_iff)

lemma of_resource_sameGrant: "sameGrant g h \<Longrightarrow> of_resource ow ref g \<longleftrightarrow> of_resource ow ref h"
  by (simp add: sameGrant_def of_resource_def)

lemma distinct_keys_append:
  assumes "distinct_keys a" and "distinct_keys b" and apart: "\<And>g h. g \<in> set a \<Longrightarrow> h \<in> set b \<Longrightarrow> \<not> sameGrant g h"
  shows "distinct_keys (a @ b)"
proof -
  have "set a \<inter> set b = {}" using apart sameGrant_refl by blast
  moreover have "g = h" if "g \<in> set a \<union> set b" "h \<in> set a \<union> set b" "sameGrant g h" for g h
    using that apart [of g h] apart [of h g] sameGrant_sym [of g h] assms(1,2) unfolding distinct_keys_def by blast
  ultimately show ?thesis using assms(1,2) unfolding distinct_keys_def by simp
qed

lemma distinct_keys_filter: "distinct_keys gs \<Longrightarrow> distinct_keys (filter P gs)"
  by (auto simp: distinct_keys_def)

interpretation mg: grant_persistence mg_all mg_put mg_remove mg_replace distinct_keys
proof
  fix p :: "grant list" and g ow ref expected replacement
  assume inv: "distinct_keys p"
  show "distinct_keys (mg_all p)" using inv by (simp add: distinct_keys_def mg_all_def)
  show "\<exists>h \<in> set (mg_all (mg_put g p)). sameGrant g h"
    by (auto simp: mg_all_def mg_put_def list_ex_iff dest: sameGrant_sym)
  show "{h \<in> set (mg_all (mg_put g p)). \<not> sameGrant g h} = {h \<in> set (mg_all p). \<not> sameGrant g h}"
    by (auto simp: mg_all_def mg_put_def)
  show "set (mg_all (mg_remove g p)) = {h \<in> set (mg_all p). \<not> sameGrant h g}"
    by (auto simp: mg_all_def mg_remove_def)
  show "fst (mg_replace ow ref expected replacement p) \<longleftrightarrow> sameGrantSet (filter (of_resource ow ref) (mg_all p)) expected"
    by (simp add: mg_replace_def Let_def mg_all_def filter_sort)
  show "snd (mg_replace ow ref expected replacement p) = p" if "\<not> fst (mg_replace ow ref expected replacement p)"
    using that by (simp add: mg_replace_def Let_def split: if_splits)
  show "set (mg_all (snd (mg_replace ow ref expected replacement p))) =
        {h \<in> set (mg_all p). \<not> of_resource ow ref h} \<union> set replacement" if "fst (mg_replace ow ref expected replacement p)"
    using that by (auto simp: mg_replace_def Let_def mg_all_def split: if_splits)
  show "distinct_keys (mg_put g p)"
    using inv by (auto simp: mg_put_def list_ex_iff distinct_keys_def dest: sameGrant_sym)
  show "distinct_keys (mg_remove g p)" using inv by (simp add: mg_remove_def distinct_keys_filter)
  show "distinct_keys (snd (mg_replace ow ref expected replacement p))"
    if "\<forall>g \<in> set replacement. of_resource ow ref g" "distinct_keys replacement"
    using inv that
    by (auto simp: mg_replace_def Let_def intro!: distinct_keys_append distinct_keys_filter dest: of_resource_sameGrant)
qed

subsection \<open>In Postgres\<close>

text \<open>
  The table \<open>acl_grants\<close> with its four-column primary key; an operation is one transaction. \<open>collate\<close> is the sort key of the
  database's collation. Inserting a replacement whose key is already present violates the primary key,
  and the transaction is rolled back with an error.
\<close>

definition pgg_all :: "(string \<Rightarrow> string) \<Rightarrow> grant list \<Rightarrow> grant list" where
  "pgg_all collate rows =
     sort_key (\<lambda>g. map collate [g_ownerScopeId g, g_ref g, g_granteeScopeId g, permission_name (g_permission g)]) rows"

definition pgg_put :: "grant \<Rightarrow> grant list \<Rightarrow> grant list" where
  "pgg_put g rows =
     (if list_ex (\<lambda>x. sameGrant x g) rows
      then map (\<lambda>x. if sameGrant x g then x\<lparr>g_grantedBy := g_grantedBy g\<rparr> else x) rows
      else rows @ [g])"

definition pgg_remove :: "grant \<Rightarrow> grant list \<Rightarrow> grant list" where
  "pgg_remove g rows = filter (\<lambda>x. \<not> sameGrant x g) rows"

fun pgg_insert_all :: "grant list \<Rightarrow> grant list \<Rightarrow> grant list option" where
  "pgg_insert_all [] rows = Some rows"
| "pgg_insert_all (g # gs) rows =
     (if list_ex (\<lambda>x. sameGrant x g) rows then None else pgg_insert_all gs (rows @ [g]))"

definition pgg_replace ::
  "scope_id \<Rightarrow> string \<Rightarrow> grant list \<Rightarrow> grant list \<Rightarrow> grant list \<Rightarrow> (string + bool) \<times> grant list" where
  "pgg_replace ownerScopeId ref expected replacement rows =
     (let current = filter (of_resource ownerScopeId ref) rows in
      if length current \<noteq> length expected \<or> list_ex (\<lambda>g. \<not> list_ex (sameGrantTuple g) expected) current
      then (Inr False, rows)
      else case pgg_insert_all replacement (filter (\<lambda>g. \<not> of_resource ownerScopeId ref g) rows) of
             None \<Rightarrow> (Inl ''duplicate key value violates unique constraint'', rows)
           | Some rows' \<Rightarrow> (Inr True, rows'))"

definition pgg_replace_ok where
  "pgg_replace_ok ow ref expected replacement rows =
     (let (r, rows') = pgg_replace ow ref expected replacement rows in (r = Inr True, rows'))"

lemma pgg_insert_all_Some:
  "distinct_keys gs \<Longrightarrow> (\<And>g h. g \<in> set gs \<Longrightarrow> h \<in> set rows \<Longrightarrow> \<not> sameGrant h g) \<Longrightarrow> pgg_insert_all gs rows = Some (rows @ gs)"
proof (induction gs arbitrary: rows)
  case (Cons g gs)
  have fresh: "\<not> list_ex (\<lambda>x. sameGrant x g) rows" using Cons.prems(2) by (auto simp: list_ex_iff)
  have "distinct_keys gs" using Cons.prems(1) by (auto simp: distinct_keys_def)
  moreover have "\<not> sameGrant h x" if "x \<in> set gs" "h \<in> set (rows @ [g])" for x h
    using that Cons.prems by (auto simp: distinct_keys_def)
  ultimately have "pgg_insert_all gs (rows @ [g]) = Some ((rows @ [g]) @ gs)" by (rule Cons.IH)
  then show ?case using fresh by simp
qed simp

lemma pgg_current:
  "(length a \<noteq> length b \<or> list_ex (\<lambda>g. \<not> list_ex (sameGrantTuple g) b) a) \<longleftrightarrow> \<not> sameGrantSet a b"
  by (auto simp: sameGrantSet_def list_all_iff list_ex_iff)

lemma sameGrant_regrant [simp]:
  "sameGrant (x\<lparr>g_grantedBy := b\<rparr>) y \<longleftrightarrow> sameGrant x y" "sameGrant x (y\<lparr>g_grantedBy := b\<rparr>) \<longleftrightarrow> sameGrant x y"
  by (simp_all add: sameGrant_def)

lemma pgg_put_inv:
  assumes "distinct_keys rows"
  shows "distinct_keys (pgg_put g rows)"
proof -
  let ?f = "\<lambda>x. if sameGrant x g then x\<lparr>g_grantedBy := g_grantedBy g\<rparr> else x"
  have same: "sameGrant (?f x) (?f y) \<longleftrightarrow> sameGrant x y" for x y by simp
  have inj: "x = y" if "x \<in> set rows" "y \<in> set rows" "sameGrant (?f x) (?f y)" for x y
    using assms that(1,2) that(3) [unfolded same] unfolding distinct_keys_def by blast
  have "inj_on ?f (set rows)"
  proof (rule inj_onI)
    fix x y assume xy: "x \<in> set rows" "y \<in> set rows" "?f x = ?f y"
    have "sameGrant (?f x) (?f y)" unfolding xy(3) by (rule sameGrant_refl)
    then show "x = y" by (rule inj [OF xy(1,2)])
  qed
  moreover have "g' = h'" if gh: "g' \<in> ?f ` set rows" "h' \<in> ?f ` set rows" "sameGrant g' h'" for g' h'
  proof -
    obtain x y where xy: "x \<in> set rows" "g' = ?f x" "y \<in> set rows" "h' = ?f y" using gh(1,2) by (elim imageE)
    have "sameGrant (?f x) (?f y)" using gh(3) xy by simp
    then have "x = y" by (rule inj [OF xy(1,3)])
    then show ?thesis using xy by simp
  qed
  ultimately have "distinct_keys (map ?f rows)"
    using assms unfolding distinct_keys_def by (simp only: distinct_map set_map) blast
  moreover have "distinct_keys (rows @ [g])" if "\<not> list_ex (\<lambda>x. sameGrant x g) rows"
    using assms that by (intro distinct_keys_append) (auto simp: list_ex_iff distinct_keys_def)
  ultimately show ?thesis by (simp add: pgg_put_def)
qed

lemma sameGrant_trans: "sameGrant a b \<Longrightarrow> sameGrant b c \<Longrightarrow> sameGrant a c"
  by (simp add: sameGrant_def)

lemma pgg_put_mem: "\<exists>h \<in> set (pgg_all collate (pgg_put g p)). sameGrant g h"
proof (cases "list_ex (\<lambda>x. sameGrant x g) p")
  case True
  then obtain x where x: "x \<in> set p" "sameGrant x g" by (auto simp: list_ex_iff)
  then have "x\<lparr>g_grantedBy := g_grantedBy g\<rparr> \<in> set (pgg_all collate (pgg_put g p))"
    using True by (simp add: pgg_all_def pgg_put_def image_iff) force
  moreover have "sameGrant g (x\<lparr>g_grantedBy := g_grantedBy g\<rparr>)" using sameGrant_sym [OF x(2)] by simp
  ultimately show ?thesis by blast
qed (simp add: pgg_all_def pgg_put_def)

lemma pgg_put_others:
  "{h \<in> set (pgg_all collate (pgg_put g p)). \<not> sameGrant g h} = {h \<in> set (pgg_all collate p). \<not> sameGrant g h}"
proof -
  have c: "sameGrant h g \<longleftrightarrow> sameGrant g h" for h by (auto dest: sameGrant_sym)
  show ?thesis by (auto simp: pgg_all_def pgg_put_def c image_iff split: if_splits)
qed

interpretation pgg: grant_persistence "pgg_all collate" pgg_put pgg_remove pgg_replace_ok distinct_keys
  for collate :: "string \<Rightarrow> string"
proof
  fix p :: "grant list" and g ow ref expected replacement
  assume inv: "distinct_keys p"
  show "distinct_keys (pgg_all collate p)" using inv by (simp add: distinct_keys_def pgg_all_def)
  show "\<exists>h \<in> set (pgg_all collate (pgg_put g p)). sameGrant g h"
    by (rule pgg_put_mem)
  show "{h \<in> set (pgg_all collate (pgg_put g p)). \<not> sameGrant g h} = {h \<in> set (pgg_all collate p). \<not> sameGrant g h}"
    by (rule pgg_put_others)
  show "set (pgg_all collate (pgg_remove g p)) = {h \<in> set (pgg_all collate p). \<not> sameGrant h g}"
    by (auto simp: pgg_all_def pgg_remove_def)
  show "distinct_keys (pgg_put g p)" using inv by (rule pgg_put_inv)
  show "distinct_keys (pgg_remove g p)" using inv by (simp add: pgg_remove_def distinct_keys_filter)
  show "snd (pgg_replace_ok ow ref expected replacement p) = p" if "\<not> fst (pgg_replace_ok ow ref expected replacement p)"
    using that by (auto simp: pgg_replace_ok_def pgg_replace_def Let_def split: if_splits option.splits)
  assume on: "\<forall>g \<in> set replacement. of_resource ow ref g" and dk: "distinct_keys replacement"
  let ?kept = "filter (\<lambda>g. \<not> of_resource ow ref g) p"
  have ins: "pgg_insert_all replacement ?kept = Some (?kept @ replacement)"
    using dk on by (intro pgg_insert_all_Some) (auto dest: of_resource_sameGrant)
  show "fst (pgg_replace_ok ow ref expected replacement p) \<longleftrightarrow> sameGrantSet (filter (of_resource ow ref) (pgg_all collate p)) expected"
    using pgg_current [of "filter (of_resource ow ref) p" expected]
    by (simp add: pgg_replace_ok_def pgg_replace_def Let_def ins pgg_all_def filter_sort)
  show "set (pgg_all collate (snd (pgg_replace_ok ow ref expected replacement p))) =
        {h \<in> set (pgg_all collate p). \<not> of_resource ow ref h} \<union> set replacement"
    if "fst (pgg_replace_ok ow ref expected replacement p)"
    using that by (auto simp: pgg_replace_ok_def pgg_replace_def Let_def ins pgg_all_def split: if_splits)
  have "distinct_keys (?kept @ replacement)"
    using inv dk on by (intro distinct_keys_append distinct_keys_filter) (auto dest: of_resource_sameGrant)
  with inv show "distinct_keys (snd (pgg_replace_ok ow ref expected replacement p))"
    by (simp add: pgg_replace_ok_def pgg_replace_def Let_def ins)
qed

subsection \<open>Properties\<close>

text \<open>Only someone who manages the owning scope changes its grants. On a personal scope \<open>grant\<close>, \<open>revoke\<close> and
  \<open>replaceGrantsIfCurrent\<close> by anyone but the owner fail and change nothing; on a channel or group scope the same
  holds for anyone the membership check refuses; nobody can share on what was shared with them.\<close>

lemma grants_need_management:
  assumes "(\<exists>own. fst (parseScopeId ow) = Some Personal \<and> own = snd (parseScopeId ow) \<and> \<not> samePerson links (Some by) (Some own)) \<or>
    (fst (parseScopeId ow) \<in> {Some Channel, Some Group} \<and> manages = Some m \<and> \<not> m by ow authoredBy)"
    and "g_ownerScopeId g = ow" and "g_grantedBy g = by"
  shows "snd (acl_grant links manages mg_put g authoredBy p) = p \<and> (\<exists>e. fst (acl_grant links manages mg_put g authoredBy p) = Inl e) \<and>
    snd (acl_revoke links manages mg_all mg_remove ow ref grantee by authoredBy p) = p \<and>
    (\<exists>e. fst (acl_revoke links manages mg_all mg_remove ow ref grantee by authoredBy p) = Inl e) \<and>
    snd (replaceGrantsIfCurrent links manages mg_replace ow ref expected replacement by authoredBy p) = p \<and>
    (\<exists>e. fst (replaceGrantsIfCurrent links manages mg_replace ow ref expected replacement by authoredBy p) = Inl e)"
proof -
  have "\<not> canManage links manages ow by authoredBy"
    using assms(1) by (auto simp: canManage_def ownerOf_def isMembershipManaged_def split_def Let_def)
  with assms(2,3) show ?thesis
    by (simp add: acl_grant_def acl_revoke_def replaceGrantsIfCurrent_def)
qed

lemma grants_need_management_witness:
  "snd (acl_grant (\<lambda>_. None) None mg_put
     \<lparr>g_ownerScopeId = ''personal:ann'', g_ref = ''a.txt'', g_granteeScopeId = ''personal:eve'', g_permission = PermRead, g_grantedBy = ''bob''\<rparr>
     None []) = []"
proof -
  have "fst (parseScopeId ''personal:ann'') = Some Personal" "snd (parseScopeId ''personal:ann'') = ''ann''"
    "\<not> samePerson (\<lambda>_. None) (Some ''bob'') (Some ''ann'')" by code_simp+
  then show ?thesis
    using grants_need_management [of "''personal:ann''" "\<lambda>_. None" "''bob''" None "\<lambda>_ _ _. True" None
      "\<lparr>g_ownerScopeId = ''personal:ann'', g_ref = ''a.txt'', g_granteeScopeId = ''personal:eve'', g_permission = PermRead, g_grantedBy = ''bob''\<rparr>" "[]"]
    by simp
qed

text \<open>Revoking is complete and touches nothing else, in memory and in Postgres alike: after a permitted \<open>revoke\<close> no
  grant of the resource to the grantee remains, whatever its permission, and every other grant is kept.\<close>

lemma revoke_removes_exactly:
  assumes "distinct_keys p" and "canManage links manages ow by authoredBy"
  shows "set (mg_all (snd (acl_revoke links manages mg_all mg_remove ow ref grantee by authoredBy p))) =
      {g \<in> set p. \<not> (g_ownerScopeId g = ow \<and> g_ref g = ref \<and> g_granteeScopeId g = grantee)} \<and>
    set (pgg_all collate (snd (acl_revoke links manages (pgg_all collate) pgg_remove ow ref grantee by authoredBy p))) =
      {g \<in> set p. \<not> (g_ownerScopeId g = ow \<and> g_ref g = ref \<and> g_granteeScopeId g = grantee)}"
  using mg.revoke_exact [OF assms prod.collapse [symmetric], of ref grantee]
    pgg.revoke_exact [OF assms prod.collapse [symmetric], of collate ref grantee]
  by (simp add: mg_all_def pgg_all_def)

lemma revoke_removes_exactly_witness:
  "set (mg_all (snd (acl_revoke (\<lambda>_. None) None mg_all mg_remove ''org:o'' ''skill:x'' ''team:t'' ''ann'' None
     [\<lparr>g_ownerScopeId = ''org:o'', g_ref = ''skill:x'', g_granteeScopeId = ''team:t'', g_permission = PermRead, g_grantedBy = ''ann''\<rparr>]))) = {}"
proof -
  have "canManage (\<lambda>_. None) None ''org:o'' ''ann'' None" by code_simp
  then show ?thesis
    using revoke_removes_exactly [of "[\<lparr>g_ownerScopeId = ''org:o'', g_ref = ''skill:x'', g_granteeScopeId = ''team:t'',
        g_permission = PermRead, g_grantedBy = ''ann''\<rparr>]" "\<lambda>_. None" None "''org:o''" "''ann''" None "''skill:x''" "''team:t''"]
    by (simp add: distinct_keys_def)
qed

text \<open>Replacing the grants of a resource is an atomic compare-and-swap, in memory and in Postgres alike. For distinct
  replacement grants of the resource it succeeds exactly when the expected grants are the current
  ones; then the resource has exactly the replacement grants and the grants of other resources are
  untouched; otherwise nothing changes.\<close>

lemma replace_grants_cas:
  assumes "distinct_keys p" and "canManage links manages ow by authoredBy" and "distinct_keys replacement"
    and "\<forall>g \<in> set expected \<union> set replacement. of_resource ow ref g"
    and "replaceGrantsIfCurrent links manages mg_replace ow ref expected replacement by authoredBy p = (r, p')"
    and "replaceGrantsIfCurrent links manages pgg_replace_ok ow ref expected replacement by authoredBy p = (q, p'')"
  shows "(r = Inr True \<longleftrightarrow> length expected = length (grantsFor mg_all ow ref p) \<and> set expected = set (grantsFor mg_all ow ref p)) \<and>
    (r = Inr True \<longrightarrow> set (grantsFor mg_all ow ref p') = set replacement \<and>
       {g \<in> set (mg_all p'). \<not> of_resource ow ref g} = {g \<in> set (mg_all p). \<not> of_resource ow ref g}) \<and>
    (r \<noteq> Inr True \<longrightarrow> p' = p) \<and> (q = Inr True \<longleftrightarrow> r = Inr True) \<and> set p'' = set p'"
proof -
  have same: "set (grantsFor mg_all ow ref x) = set (grantsFor (pgg_all id) ow ref x)"
    "length (grantsFor mg_all ow ref x) = length (grantsFor (pgg_all id) ow ref x)" for x
    by (simp_all add: grantsFor_def mg_all_def pgg_all_def filter_sort)
  note m = mg.replace_exact [OF assms(1-5)]
  note q = pgg.replace_exact [OF assms(1-4,6), of id]
  have qr: "q = Inr True \<longleftrightarrow> r = Inr True" using m q same by metis
  have split: "set x = set (grantsFor mg_all ow ref x) \<union> {g \<in> set (mg_all x). \<not> of_resource ow ref g}"
    "set x = set (grantsFor (pgg_all id) ow ref x) \<union> {g \<in> set (pgg_all id x). \<not> of_resource ow ref g}" for x
    by (auto simp: grantsFor_def mg_all_def pgg_all_def)
  have "set p'' = set p'"
  proof (cases "r = Inr True")
    case True
    then have "set p' = set replacement \<union> {g \<in> set (mg_all p). \<not> of_resource ow ref g}" using m split(1) [of p'] by simp
    moreover have "set p'' = set replacement \<union> {g \<in> set (pgg_all id p). \<not> of_resource ow ref g}"
      using q qr True split(2) [of p''] by simp
    ultimately show ?thesis by (simp add: mg_all_def pgg_all_def)
  next
    case False
    then have "p' = p" using m by blast
    moreover have "p'' = p" using False q qr by blast
    ultimately show ?thesis by simp
  qed
  with m qr show ?thesis by blast
qed

lemma replace_grants_cas_witness:
  "fst (replaceGrantsIfCurrent (\<lambda>_. None) None mg_replace ''org:o'' ''skill:x'' [] [] ''ann'' None []) = Inr True"
proof -
  have c: "canManage (\<lambda>_. None) None ''org:o'' ''ann'' None" by code_simp
  have d: "distinct_keys []" by (simp add: distinct_keys_def)
  show ?thesis
    using replace_grants_cas [OF d c d _ prod.collapse [symmetric] prod.collapse [symmetric], of "[]" "''skill:x''"]
    by (simp add: grantsFor_def mg_all_def)
qed

text \<open>A conversation sees shared files only if everybody in it may. Every handle given to an audience belongs to a
  stored file grant that at least one member reaches as grantee and that every member reaches as
  grantee or as owner; all such grants are given, and an empty audience gets nothing.\<close>

lemma audience_handles_reachable:
  "set (handlesForAudience mg_all audience sess org entitled p) =
     toHandle ` {g \<in> set p. isFileGrant g \<and> audience \<noteq> [] \<and>
       (\<exists>pr \<in> set audience. entitled pr (g_granteeScopeId g) sess org) \<and>
       (\<forall>pr \<in> set audience. entitled pr (g_granteeScopeId g) sess org \<or> entitled pr (g_ownerScopeId g) sess org)}"
  by (auto simp: handlesForAudience_def shared_with_audience_def reaches_def list_ex_iff list_all_iff mg_all_def)

lemma audience_handles_reachable_witness:
  "set (handlesForAudience mg_all [] ''personal:a'' ''org:o'' (\<lambda>_ _ _ _. True) []) = {}"
  using audience_handles_reachable [of "[]" "''personal:a''" "''org:o''" "\<lambda>_ _ _ _. True" "[]"] by simp

end
