(* ===== verification/Scope_Access.thy ===== *)
theory Scope_Access
  imports Acl
begin

text \<open>
  Who may read, write and manage a scope (\<^verbatim>\<open>src/src/resolution/scope-membership.ts\<close>), which entries of a history an audience
  sees (\<^verbatim>\<open>context-filter.ts\<close>), where a published artifact goes (\<^verbatim>\<open>publish-audience.ts\<close>), how sharing postures
  compose (\<^verbatim>\<open>sharing-posture.ts\<close>) and which hosts a conversation may reach (\<^verbatim>\<open>audience-floor.ts\<close>,
  \<^verbatim>\<open>egress-policy.ts\<close>). The directory, the managed groups, the identity service, the session listing, the URL parser of the
  platform and the stored configuration are parameters; a promise of theirs that rejects is \<open>Rejects\<close>.
\<close>

subsection \<open>The services membership is asked of\<close>

datatype 'a reply = Reply 'a | Rejects

record managed_groups =
  mgd_recognizes :: "string \<Rightarrow> bool"
  mgd_membership :: "string \<Rightarrow> string \<Rightarrow> bool option reply"
  mgd_members :: "string \<Rightarrow> string list option reply"

record member_directory =
  md_channelMember :: "string \<Rightarrow> string \<Rightarrow> bool reply"
  md_groupMember :: "string \<Rightarrow> string \<Rightarrow> bool reply"
  md_channelMembership :: "(string \<Rightarrow> string \<Rightarrow> bool option reply) option"
  md_groupMembership :: "(string \<Rightarrow> string \<Rightarrow> bool option reply) option"
  md_channelPrivacy :: "(string \<Rightarrow> bool option reply) option"
  md_list :: "(string \<times> string option) list reply option"
  md_get :: "(string \<Rightarrow> roster_person option reply) option"

record classification =
  cf_type :: "string option"
  cf_teamIds :: "string list option"

record membership_deps =
  dep_managedGroups :: "managed_groups option"
  dep_directory :: "member_directory option"
  dep_identity :: "(string \<Rightarrow> classification) option"
  dep_sessions :: "(string \<Rightarrow> scope_id list reply) option"

datatype shared_kind = SharedChannel | SharedGroup

subsection \<open>Membership\<close>

definition activePrincipal :: "membership_deps \<Rightarrow> string \<Rightarrow> bool" where
  "activePrincipal deps principalId =
     (case dep_identity deps of
        None \<Rightarrow> True
      | Some classify \<Rightarrow> cf_type (classify principalId) = None \<or> cf_type (classify principalId) = Some ''internal'')"

definition roster_ids :: "membership_deps \<Rightarrow> string \<Rightarrow> string list" where
  "roster_ids deps principalId =
     (let member = (case Option.bind (dep_directory deps) md_get of
                      None \<Rightarrow> None
                    | Some get \<Rightarrow> (case get principalId of Reply m \<Rightarrow> m | Rejects \<Rightarrow> None)) in
      uniq (filter (\<lambda>i. i \<noteq> []) (List.map_filter id
        [Some principalId, Option.bind member rp_principalId, Option.bind member rp_slackId])))"

definition direct_member :: "membership_deps \<Rightarrow> shared_kind \<Rightarrow> string \<Rightarrow> string \<Rightarrow> bool" where
  "direct_member deps kind ref principalId =
     (case dep_directory deps of
        None \<Rightarrow> False
      | Some d \<Rightarrow> (case kind of SharedChannel \<Rightarrow> md_channelMember d | SharedGroup \<Rightarrow> md_groupMember d) ref principalId = Reply True)"

definition managed_group :: "membership_deps \<Rightarrow> shared_kind \<Rightarrow> string \<Rightarrow> managed_groups option" where
  "managed_group deps kind ref =
     (case dep_managedGroups deps of
        Some g \<Rightarrow> if kind = SharedGroup \<and> mgd_recognizes g ref then Some g else None
      | None \<Rightarrow> None)"

definition currentSharedScopeMember :: "membership_deps \<Rightarrow> shared_kind \<Rightarrow> string \<Rightarrow> string \<Rightarrow> bool" where
  "currentSharedScopeMember deps kind ref principalId =
     (if \<not> activePrincipal deps principalId then False
      else let ids = roster_ids deps principalId in
        case managed_group deps kind ref of
          Some g \<Rightarrow> list_ex (\<lambda>i. mgd_membership g ref i = Reply (Some True)) ids
        | None \<Rightarrow> list_ex (direct_member deps kind ref) ids)"

definition channel_privacy :: "membership_deps \<Rightarrow> string \<Rightarrow> bool option" where
  "channel_privacy deps ref =
     (case Option.bind (dep_directory deps) md_channelPrivacy of
        None \<Rightarrow> None
      | Some privacy \<Rightarrow> (case privacy ref of Reply p \<Rightarrow> p | Rejects \<Rightarrow> None))"

definition sharedScopeMembership :: "membership_deps \<Rightarrow> shared_kind \<Rightarrow> string \<Rightarrow> string \<Rightarrow> bool option" where
  "sharedScopeMembership deps kind ref principalId =
     (if \<not> activePrincipal deps principalId then Some False
      else case managed_group deps kind ref of
        Some g \<Rightarrow> Some (mgd_membership g ref principalId = Reply (Some True))
      | None \<Rightarrow>
          (case Option.bind (dep_directory deps)
                  (case kind of SharedChannel \<Rightarrow> md_channelMembership | SharedGroup \<Rightarrow> md_groupMembership) of
             Some triState \<Rightarrow> (case triState ref principalId of Reply b \<Rightarrow> b | Rejects \<Rightarrow> None)
           | None \<Rightarrow>
               if direct_member deps kind ref principalId then Some True
               else if kind = SharedChannel \<and> channel_privacy deps ref \<noteq> None then Some False
               else None))"

definition memberOfSharedScope :: "membership_deps \<Rightarrow> shared_kind \<Rightarrow> string \<Rightarrow> string \<Rightarrow> scope_id \<Rightarrow> bool" where
  "memberOfSharedScope deps kind ref principalId fullScope =
     (case sharedScopeMembership deps kind ref principalId of
        Some b \<Rightarrow> b
      | None \<Rightarrow>
          (case dep_sessions deps of
             None \<Rightarrow> False
           | Some listByParticipant \<Rightarrow>
               (case listByParticipant principalId of Reply scopes \<Rightarrow> fullScope \<in> set scopes | Rejects \<Rightarrow> False)))"

definition isCurrentSharedScopeMember :: "membership_deps \<Rightarrow> string \<Rightarrow> scope_id \<Rightarrow> bool" where
  "isCurrentSharedScopeMember deps principalId scope =
     (if principalId = [] then False
      else case parseScopeId scope of
        (Some Channel, ref) \<Rightarrow> currentSharedScopeMember deps SharedChannel ref principalId
      | (Some Group, ref) \<Rightarrow> currentSharedScopeMember deps SharedGroup ref principalId
      | _ \<Rightarrow> False)"

text \<open>The members of a shared scope, when they can be enumerated. Here a rejected promise is passed on.\<close>

fun bind_reply :: "'a reply \<Rightarrow> ('a \<Rightarrow> 'b reply) \<Rightarrow> 'b reply" where
  "bind_reply (Reply x) f = f x"
| "bind_reply Rejects f = Rejects"

fun map_reply :: "('a \<Rightarrow> 'b reply) \<Rightarrow> 'a list \<Rightarrow> 'b list reply" where
  "map_reply f [] = Reply []"
| "map_reply f (x # xs) = bind_reply (f x) (\<lambda>y. bind_reply (map_reply f xs) (\<lambda>ys. Reply (y # ys)))"

definition scope_principal :: "membership_deps \<Rightarrow> string \<Rightarrow> string option \<Rightarrow> principal option" where
  "scope_principal deps i displayName =
     (let classified = map_option (\<lambda>classify. classify i) (dep_identity deps) in
      if \<not> activePrincipal deps i then None
      else Some \<lparr>p_id = i, p_type = Internal, p_teamIds = Option.bind classified cf_teamIds,
                 p_displayName = (if truthy displayName then displayName else None)\<rparr>)"

definition currentScopeMembers :: "membership_deps \<Rightarrow> scope_id \<Rightarrow> principal list option reply" where
  "currentScopeMembers deps scope =
     (case parseScopeId scope of
        (kind, ref) \<Rightarrow>
          if kind \<noteq> Some Channel \<and> kind \<noteq> Some Group then Reply None
          else case managed_group deps (if kind = Some Group then SharedGroup else SharedChannel) ref of
            Some g \<Rightarrow>
              bind_reply (mgd_members g ref) (\<lambda>memberIds.
                Reply (Some (List.map_filter (\<lambda>i. scope_principal deps i None) (case memberIds of None \<Rightarrow> [] | Some is \<Rightarrow> is))))
          | None \<Rightarrow>
              (case Option.bind (dep_directory deps) md_list of
                 None \<Rightarrow> Reply None
               | Some listed \<Rightarrow>
                   let d = the (dep_directory deps);
                       privacy = (case md_channelPrivacy d of None \<Rightarrow> Reply None | Some f \<Rightarrow> f ref) in
                   bind_reply (if kind = Some Channel then privacy else Reply (Some True)) (\<lambda>isPrivate.
                   if isPrivate \<noteq> Some True then Reply None
                   else bind_reply listed (\<lambda>candidates.
                     bind_reply (map_reply (\<lambda>(i, name).
                         bind_reply ((if kind = Some Channel then md_channelMember d else md_groupMember d) ref i) (\<lambda>b.
                         Reply (if b then scope_principal deps i name else None))) candidates) (\<lambda>included.
                     let present = List.map_filter id included in
                     Reply (if kind = Some Group \<and> present = [] then None else Some present))))))"

subsection \<open>Permissions\<close>

definition in_team :: "membership_deps \<Rightarrow> string \<Rightarrow> string \<Rightarrow> bool" where
  "in_team deps ref principalId =
     (case dep_identity deps of
        None \<Rightarrow> False
      | Some classify \<Rightarrow> (case cf_teamIds (classify principalId) of None \<Rightarrow> False | Some ts \<Rightarrow> ref \<in> set ts))"

definition canReadScope :: "(string \<Rightarrow> string option) \<Rightarrow> membership_deps \<Rightarrow> string \<Rightarrow> scope_id \<Rightarrow> bool" where
  "canReadScope links deps principalId targetScope =
     (if principalId = [] then False
      else case parseScopeId targetScope of
        (Some Org, ref) \<Rightarrow>
          (case dep_identity deps of None \<Rightarrow> False | Some classify \<Rightarrow> cf_type (classify principalId) = Some ''internal'')
      | (Some Personal, ref) \<Rightarrow> samePerson links (Some ref) (Some principalId)
      | (Some Team, ref) \<Rightarrow> in_team deps ref principalId
      | (Some Group, ref) \<Rightarrow> memberOfSharedScope deps SharedGroup ref principalId targetScope
      | (Some Channel, ref) \<Rightarrow>
          if memberOfSharedScope deps SharedChannel ref principalId targetScope then True
          else if channel_privacy deps ref = Some False then activePrincipal deps principalId
          else False
      | (None, ref) \<Rightarrow> False)"

definition canWriteScope :: "(string \<Rightarrow> string option) \<Rightarrow> membership_deps \<Rightarrow> string \<Rightarrow> scope_id \<Rightarrow> bool" where
  "canWriteScope links deps principalId targetScope =
     (if principalId = [] \<or> \<not> activePrincipal deps principalId then False
      else case parseScopeId targetScope of
        (Some Org, ref) \<Rightarrow> True
      | (Some Personal, ref) \<Rightarrow> samePerson links (Some ref) (Some principalId)
      | (Some Team, ref) \<Rightarrow> in_team deps ref principalId
      | (Some Channel, ref) \<Rightarrow> currentSharedScopeMember deps SharedChannel ref principalId
      | (Some Group, ref) \<Rightarrow> currentSharedScopeMember deps SharedGroup ref principalId
      | (None, ref) \<Rightarrow> False)"

definition membershipControlsScope :: "membership_deps \<Rightarrow> scope_id \<Rightarrow> bool" where
  "membershipControlsScope deps scope =
     (case parseScopeId scope of
        (Some Group, ref) \<Rightarrow> True
      | (Some Channel, ref) \<Rightarrow> channel_privacy deps ref = Some True
      | _ \<Rightarrow> False)"

definition canManageScope :: "(string \<Rightarrow> string option) \<Rightarrow> membership_deps \<Rightarrow> string \<Rightarrow> scope_id \<Rightarrow> bool" where
  "canManageScope links deps principalId scope =
     (if principalId = [] \<or> \<not> activePrincipal deps principalId then False
      else case parseScopeId scope of
        (Some Personal, ref) \<Rightarrow> samePerson links (Some ref) (Some principalId)
      | (Some Group, ref) \<Rightarrow> currentSharedScopeMember deps SharedGroup ref principalId
      | (Some Channel, ref) \<Rightarrow>
          if channel_privacy deps ref \<noteq> Some True then False
          else currentSharedScopeMember deps SharedChannel ref principalId
      | _ \<Rightarrow> False)"

definition managesArtifactHome ::
  "(string \<Rightarrow> string option) \<Rightarrow> membership_deps \<Rightarrow> (string \<Rightarrow> scope_id \<Rightarrow> bool) \<Rightarrow> scope_id \<Rightarrow> string \<Rightarrow> string \<Rightarrow> bool" where
  "managesArtifactHome links deps mayManage homeScopeId createdBy principalId =
     (if principalId = [] \<or> \<not> activePrincipal deps principalId then False
      else if mayManage principalId homeScopeId then True
      else if \<not> samePerson links (Some createdBy) (Some principalId) then False
      else case parseScopeId homeScopeId of
        (Some Personal, ref) \<Rightarrow> True
      | (Some Channel, ref) \<Rightarrow> channel_privacy deps ref = Some False
      | _ \<Rightarrow> False)"

text \<open>What the access control list is wired to (\<^verbatim>\<open>src/src/wiring.ts\<close>).\<close>

definition wired_manages :: "(string \<Rightarrow> string option) \<Rightarrow> membership_deps \<Rightarrow> scope_management" where
  "wired_manages links deps principalId sid authoredBy =
     managesArtifactHome links deps (canManageScope links deps) sid (case authoredBy of None \<Rightarrow> [] | Some a \<Rightarrow> a) principalId"

subsection \<open>Histories, postures and published artifacts\<close>

definition principalEntitledToScope :: "principal \<Rightarrow> scope_id \<Rightarrow> scope_id \<Rightarrow> scope_id \<Rightarrow> bool" where
  "principalEntitledToScope p label sessionScopeId orgScopeId =
     (if label = orgScopeId then True
      else if label = sessionScopeId then True
      else case parseScopeId label of
        (Some Personal, ref) \<Rightarrow> p_id p = ref
      | (Some Team, ref) \<Rightarrow> (case p_teamIds p of None \<Rightarrow> False | Some ts \<Rightarrow> ref \<in> set ts)
      | _ \<Rightarrow> False)"

definition filterHistoryForAudience :: "('e \<Rightarrow> scope_id) \<Rightarrow> 'e list \<Rightarrow> principal list \<Rightarrow> scope_id \<Rightarrow> scope_id \<Rightarrow> 'e list" where
  "filterHistoryForAudience scopeLabel entries audience sessionScopeId orgScopeId =
     (if audience = [] then []
      else filter (\<lambda>e. list_all (\<lambda>p. principalEntitledToScope p (scopeLabel e) sessionScopeId orgScopeId) audience) entries)"

datatype sharing_posture = Isolated | Open

definition parseSharingPosture :: "string option \<Rightarrow> sharing_posture option" where
  "parseSharingPosture v =
     (case v of None \<Rightarrow> None
      | Some s \<Rightarrow> let normalized = toLowerCase (trim s) in
          if normalized = ''isolated'' then Some Isolated else if normalized = ''open'' then Some Open else None)"

definition composeSharingPosture :: "sharing_posture \<Rightarrow> sharing_posture option \<Rightarrow> sharing_posture" where
  "composeSharingPosture ceiling narrower = (if ceiling = Isolated \<or> narrower = Some Isolated then Isolated else Open)"

definition composeSharingPostures :: "sharing_posture \<Rightarrow> sharing_posture option list \<Rightarrow> sharing_posture" where
  "composeSharingPostures ceiling narrower = foldl composeSharingPosture ceiling narrower"

datatype publish_audience_kind = PublishOrg | PublishMembers | PublishOwner

record publish_audience =
  pa_kind :: publish_audience_kind
  pa_grantees :: "scope_id list"
  pa_memberCount :: "nat option"
  pa_incomplete :: bool

definition owner_only :: "bool \<Rightarrow> publish_audience" where
  "owner_only incomplete = \<lparr>pa_kind = PublishOwner, pa_grantees = [], pa_memberCount = None, pa_incomplete = incomplete\<rparr>"

definition publish_grantees :: "string \<Rightarrow> principal list \<Rightarrow> scope_id list" where
  "publish_grantees ownerId members =
     map (scopeId Personal) (uniq (map p_id (filter (\<lambda>m. p_type m = Internal \<and> p_id m \<noteq> ownerId) members)))"

definition defaultPublishAudience ::
  "conversation_kind \<Rightarrow> bool option \<Rightarrow> bool option \<Rightarrow> principal list option \<Rightarrow> scope_id \<Rightarrow> string \<Rightarrow> publish_audience" where
  "defaultPublishAudience kind isPrivate isMpim members orgScopeId ownerId =
     (if kind = DmConversation then owner_only False
      else if kind = GroupConversation \<or> isMpim = Some True then owner_only False
      else case isPrivate of
        Some False \<Rightarrow> \<lparr>pa_kind = PublishOrg, pa_grantees = [orgScopeId], pa_memberCount = None, pa_incomplete = False\<rparr>
      | None \<Rightarrow> owner_only True
      | Some True \<Rightarrow>
          (case members of
             None \<Rightarrow> owner_only True
           | Some ms \<Rightarrow>
               let grantees = publish_grantees ownerId ms in
               if grantees = [] then owner_only False
               else \<lparr>pa_kind = PublishMembers, pa_grantees = grantees, pa_memberCount = Some (length grantees), pa_incomplete = False\<rparr>))"

subsection \<open>Hosts\<close>

record egress_policy =
  eg_allowedHosts :: "string list"
  eg_denyPrivateNetworks :: "bool option"
  eg_privateNetworkAllowedHosts :: "string list option"
  eg_deniedHosts :: "string list option"

text \<open>\<open>urlHostname\<close> is the \<open>hostname\<close> of \<open>new URL(\<dots>)\<close>, \<open>None\<close> when the constructor throws.\<close>

definition strip_star :: "string \<Rightarrow> string" where
  "strip_star s = (if starts_with ''*.'' s then drop 2 s else s)"

definition strip_dot :: "string \<Rightarrow> string" where
  "strip_dot s = (if s \<noteq> [] \<and> last s = CHR ''.'' then butlast s else s)"

definition strip_brackets :: "string \<Rightarrow> string" where
  "strip_brackets s =
     (if length s \<ge> 2 \<and> hd s = CHR ''['' \<and> last s = CHR '']'' \<and> CHR 0x0A \<notin> set s \<and> CHR 0x0D \<notin> set s
      then butlast (tl s) else s)"

definition normalizeHost :: "(string \<Rightarrow> string option) \<Rightarrow> string \<Rightarrow> string" where
  "normalizeHost urlHostname host =
     (let s = strip_brackets (strip_dot (strip_star (toLowerCase (trim host)))) in
      if s = [] then []
      else let isIPv6 = length (filter (\<lambda>c. c = CHR '':'') s) \<ge> 2 in
        case urlHostname (''https://'' @ (if isIPv6 then ''['' @ s @ '']'' else s)) of
          None \<Rightarrow> s
        | Some h \<Rightarrow> strip_dot (strip_brackets h))"

definition ends_with :: "string \<Rightarrow> string \<Rightarrow> bool" where
  "ends_with suffix s \<longleftrightarrow> starts_with (rev suffix) (rev s)"

definition hostMatches :: "(string \<Rightarrow> string option) \<Rightarrow> string \<Rightarrow> string \<Rightarrow> bool" where
  "hostMatches urlHostname requestHost ruleHost =
     (let h = normalizeHost urlHostname requestHost; r = normalizeHost urlHostname ruleHost in
      if h = [] \<or> r = [] then False else h = r \<or> ends_with (''.'' @ r) h)"

definition isHostDenied :: "(string \<Rightarrow> string option) \<Rightarrow> string \<Rightarrow> string list option \<Rightarrow> bool" where
  "isHostDenied urlHostname host deniedHosts =
     (case deniedHosts of None \<Rightarrow> False | Some ds \<Rightarrow> list_ex (\<lambda>d. d \<noteq> [] \<and> hostMatches urlHostname host d) ds)"

datatype egress_verdict = VerdictOk | VerdictDenied | VerdictNotAllowlisted

record egress_decision =
  ed_allow :: bool
  ed_verdict :: egress_verdict

definition egressDecision :: "(string \<Rightarrow> string option) \<Rightarrow> string \<Rightarrow> egress_policy option \<Rightarrow> egress_decision" where
  "egressDecision urlHostname host policy =
     (case policy of
        None \<Rightarrow> \<lparr>ed_allow = True, ed_verdict = VerdictOk\<rparr>
      | Some p \<Rightarrow>
          if isHostDenied urlHostname host (eg_deniedHosts p) then \<lparr>ed_allow = False, ed_verdict = VerdictDenied\<rparr>
          else if eg_allowedHosts p \<noteq> [] \<and> \<not> list_ex (hostMatches urlHostname host) (eg_allowedHosts p)
          then \<lparr>ed_allow = False, ed_verdict = VerdictNotAllowlisted\<rparr>
          else \<lparr>ed_allow = True, ed_verdict = VerdictOk\<rparr>)"

definition principalScopes :: "principal \<Rightarrow> scope_id \<Rightarrow> scope_id option \<Rightarrow> scope_id list" where
  "principalScopes p orgScope contextScope =
     uniq (filter (\<lambda>s. s \<noteq> []) (orgScope # (case contextScope of None \<Rightarrow> [] | Some s \<Rightarrow> [s]) @ scopeId Personal (p_id p) #
       map (scopeId Team) (case p_teamIds p of None \<Rightarrow> [] | Some ts \<Rightarrow> ts)))"

definition principalEgressHosts :: "principal \<Rightarrow> (scope_id \<Rightarrow> egress_policy option) \<Rightarrow> scope_id \<Rightarrow> scope_id option \<Rightarrow> string list" where
  "principalEgressHosts p getEgress orgScope contextScope =
     uniq (concat (map (\<lambda>s. case getEgress s of None \<Rightarrow> [] | Some e \<Rightarrow> eg_allowedHosts e) (principalScopes p orgScope contextScope)))"

definition principalDeniedHosts :: "principal \<Rightarrow> (scope_id \<Rightarrow> egress_policy option) \<Rightarrow> scope_id \<Rightarrow> scope_id option \<Rightarrow> string list" where
  "principalDeniedHosts p getEgress orgScope contextScope =
     uniq (concat (map (\<lambda>s. case Option.bind (getEgress s) eg_deniedHosts of None \<Rightarrow> [] | Some ds \<Rightarrow> ds)
       (principalScopes p orgScope contextScope)))"

definition audienceEgressFloor :: "principal list \<Rightarrow> (scope_id \<Rightarrow> egress_policy option) \<Rightarrow> scope_id \<Rightarrow> scope_id option \<Rightarrow> string list" where
  "audienceEgressFloor audience getEgress orgScope contextScope =
     (case audience of
        [] \<Rightarrow> []
      | p # rest \<Rightarrow>
          filter (\<lambda>h. list_all (\<lambda>q. h \<in> set (principalEgressHosts q getEgress orgScope contextScope)) rest)
            (principalEgressHosts p getEgress orgScope contextScope))"

definition audienceDeniedFloor :: "principal list \<Rightarrow> (scope_id \<Rightarrow> egress_policy option) \<Rightarrow> scope_id \<Rightarrow> scope_id option \<Rightarrow> string list" where
  "audienceDeniedFloor audience getEgress orgScope contextScope =
     uniq (concat (map (\<lambda>p. principalDeniedHosts p getEgress orgScope contextScope) audience))"

text \<open>The policy of a conversation (\<open>resolve\<close> of \<^verbatim>\<open>src/src/resolution/resolution-service.ts\<close>).\<close>

definition conversation_egress :: "principal list \<Rightarrow> (scope_id \<Rightarrow> egress_policy option) \<Rightarrow> scope_id \<Rightarrow> scope_id \<Rightarrow> egress_policy" where
  "conversation_egress audience getEgress orgScope scope =
     \<lparr>eg_allowedHosts = audienceEgressFloor audience getEgress orgScope (Some scope),
      eg_denyPrivateNetworks = None, eg_privateNetworkAllowedHosts = None,
      eg_deniedHosts = Some (audienceDeniedFloor audience getEgress orgScope (Some scope))\<rparr>"

subsection \<open>Reading an egress policy\<close>

datatype egress_parse_error =
    NotAPolicy | HostsNotArray string | HostsNotStrings string | NotAHost string | HostWithPort string | InvalidHost string
  | DuplicateHost string string | HostInBothLists string

definition host_label :: "string \<Rightarrow> bool" where
  "host_label l \<longleftrightarrow> l \<noteq> [] \<and> length l \<le> 63 \<and> hd l \<noteq> CHR ''-'' \<and> last l \<noteq> CHR ''-'' \<and>
     list_all (\<lambda>c. c = CHR ''-'' \<or> (let n = of_char (lower_char c) :: nat in 97 \<le> n \<and> n \<le> 122 \<or> 48 \<le> n \<and> n \<le> 57)) l"

fun split_on :: "char \<Rightarrow> string \<Rightarrow> string list" where
  "split_on sep [] = [[]]"
| "split_on sep (c # cs) =
     (if c = sep then [] # split_on sep cs
      else case split_on sep cs of [] \<Rightarrow> [[c]] | w # ws \<Rightarrow> (c # w) # ws)"

definition host_name :: "string \<Rightarrow> bool" where
  "host_name s \<longleftrightarrow> list_all host_label (split_on (CHR ''.'') s)"

definition contains_text :: "string \<Rightarrow> string \<Rightarrow> bool" where
  "contains_text t s \<longleftrightarrow> list_ex (\<lambda>i. starts_with t (drop i s)) [0..<Suc (length s)]"

definition not_a_host :: "string \<Rightarrow> bool" where
  "not_a_host s \<longleftrightarrow> list_ex is_space s \<or> CHR ''*'' \<in> set s \<or> contains_text ''://'' s \<or> list_ex (\<lambda>c. c \<in> set ''/?#@'') s"

fun parse_hosts ::
  "(string \<Rightarrow> string option) \<Rightarrow> string \<Rightarrow> string list \<Rightarrow> json list \<Rightarrow> egress_parse_error + string list" where
  "parse_hosts urlHostname name hosts [] = Inr hosts"
| "parse_hosts urlHostname name hosts (item # items) =
     (case item of
        JStr raw \<Rightarrow>
          let candidate = trim raw in
          if candidate = [] then parse_hosts urlHostname name hosts items
          else if not_a_host candidate then Inl (NotAHost candidate)
          else
            let colonCount = length (filter (\<lambda>c. c = CHR '':'') candidate) in
            if colonCount = 1 then Inl (HostWithPort candidate)
            else
              let normalized = normalizeHost urlHostname candidate in
              if normalized = [] \<or> (colonCount < 2 \<and> \<not> host_name normalized) then Inl (InvalidHost candidate)
              else if normalized \<in> set hosts then Inl (DuplicateHost name normalized)
              else parse_hosts urlHostname name (hosts @ [normalized]) items
      | _ \<Rightarrow> Inl (HostsNotStrings name))"

definition parseList :: "(string \<Rightarrow> string option) \<Rightarrow> string \<Rightarrow> json option \<Rightarrow> egress_parse_error + string list" where
  "parseList urlHostname name raw =
     (case raw of
        None \<Rightarrow> Inr []
      | Some JNull \<Rightarrow> Inr []
      | Some (JArr items) \<Rightarrow> parse_hosts urlHostname name [] items
      | Some _ \<Rightarrow> Inl (HostsNotArray name))"

definition parseEgressPolicy :: "(string \<Rightarrow> string option) \<Rightarrow> json \<Rightarrow> egress_parse_error + egress_policy" where
  "parseEgressPolicy urlHostname input =
     (case input of
        JObj _ \<Rightarrow>
          and_then (parseList urlHostname ''allowedHosts'' (json_field ''allowedHosts'' input)) (\<lambda>allowed.
          and_then (parseList urlHostname ''deniedHosts'' (json_field ''deniedHosts'' input)) (\<lambda>denied.
          case List.find (\<lambda>h. h \<in> set denied) allowed of
            Some overlap \<Rightarrow> Inl (HostInBothLists overlap)
          | None \<Rightarrow> Inr \<lparr>eg_allowedHosts = allowed, eg_denyPrivateNetworks = None, eg_privateNetworkAllowedHosts = None,
                         eg_deniedHosts = Some denied\<rparr>))
      | _ \<Rightarrow> Inl NotAPolicy)"

subsection \<open>Permissions of a scope\<close>

text \<open>What the parts that ask for permission rely on: whoever may manage a scope may write to it, and nobody writes who
  is not an active principal.\<close>

locale scope_permissions =
  fixes active :: "string \<Rightarrow> bool"
    and mayWrite :: "string \<Rightarrow> scope_id \<Rightarrow> bool"
    and mayManage :: "string \<Rightarrow> scope_id \<Rightarrow> bool"
  assumes manage_writes: "mayManage p s \<Longrightarrow> mayWrite p s"
    and write_active: "mayWrite p s \<Longrightarrow> p \<noteq> [] \<and> active p"
begin

lemma manage_active: "mayManage p s \<Longrightarrow> p \<noteq> [] \<and> active p"
  using manage_writes write_active by blast

lemma outsider_powerless: "\<not> active p \<Longrightarrow> \<not> mayWrite p s \<and> \<not> mayManage p s"
  using manage_active write_active by blast

end

interpretation sp: scope_permissions "activePrincipal deps" "canWriteScope links deps" "canManageScope links deps"
  by unfold_locales
    (auto simp: canManageScope_def canWriteScope_def split: prod.splits option.splits scope_kind.splits if_splits)

lemma wired_manages_iff:
  assumes "parseScopeId ow = (Some k, ref)" and "k = Channel \<or> k = Group"
  shows "wired_manages links deps by ow authoredBy \<longleftrightarrow> by \<noteq> [] \<and> activePrincipal deps by \<and>
    (membershipControlsScope deps ow \<and> isCurrentSharedScopeMember deps by ow \<or>
     k = Channel \<and> channel_privacy deps ref = Some False \<and>
       samePerson links (Some (case authoredBy of None \<Rightarrow> [] | Some a \<Rightarrow> a)) (Some by))"
  using assms
  by (auto simp: wired_manages_def managesArtifactHome_def canManageScope_def membershipControlsScope_def isCurrentSharedScopeMember_def)


definition demo_membership :: membership_deps where
  "demo_membership =
     \<lparr>dep_managedGroups = None,
      dep_directory = Some \<lparr>md_channelMember = (\<lambda>c p. Reply (c = ''C1'' \<and> p = ''U-ann'')), md_groupMember = (\<lambda>g p. Rejects),
        md_channelMembership = None, md_groupMembership = None, md_channelPrivacy = Some (\<lambda>c. Reply (Some True)), md_list = None,
        md_get = Some (\<lambda>p. Reply (if p = ''ann'' then Some \<lparr>rp_principalId = Some ''ann'', rp_slackId = Some ''U-ann''\<rparr> else None))\<rparr>,
      dep_identity = Some (\<lambda>p. \<lparr>cf_type = Some (if p = ''eve'' then ''guest'' else ''internal''), cf_teamIds = None\<rparr>),
      dep_sessions = None\<rparr>"

definition demo_grant :: "string \<Rightarrow> grant" where
  "demo_grant by =
     \<lparr>g_ownerScopeId = ''channel:C1'', g_ref = ''a.txt'', g_granteeScopeId = ''personal:bob'', g_permission = PermRead, g_grantedBy = by\<rparr>"


subsection \<open>What an audience sees and reaches\<close>

lemma floor_all:
  "audience \<noteq> [] \<Longrightarrow> h \<in> set (audienceEgressFloor audience getEgress org ctx) \<longleftrightarrow>
     (\<forall>p \<in> set audience. h \<in> set (principalEgressHosts p getEgress org ctx))"
  by (cases audience) (auto simp: audienceEgressFloor_def list_all_iff)

lemma denied_any:
  "h \<in> set (audienceDeniedFloor audience getEgress org ctx) \<longleftrightarrow>
     (\<exists>p \<in> set audience. h \<in> set (principalDeniedHosts p getEgress org ctx))"
  by (auto simp: audienceDeniedFloor_def)


definition demo_person :: "string \<Rightarrow> principal" where
  "demo_person i = \<lparr>p_id = i, p_type = Internal, p_teamIds = None, p_displayName = None\<rparr>"

definition demo_hosts :: "string list \<Rightarrow> string list \<Rightarrow> egress_policy" where
  "demo_hosts allowed denied =
     \<lparr>eg_allowedHosts = allowed, eg_denyPrivateNetworks = None, eg_privateNetworkAllowedHosts = None, eg_deniedHosts = Some denied\<rparr>"

definition demo_egress :: "scope_id \<Rightarrow> egress_policy option" where
  "demo_egress s = map_of
     [(''org:o'', demo_hosts [''npm.io''] []), (''personal:ann'', demo_hosts [''a.io''] []), (''personal:bob'', demo_hosts [''b.io''] [''x.npm.io''])] s"


text \<open>The condition that the members have a host in common is needed: with disjoint allow lists the common list is empty,
  and an empty list allows every host. Two people who may each reach one host only reach any host together.\<close>

lemma disjoint_allowlists_open_everything:
  "let getEgress = (\<lambda>s. map_of [(''personal:ann'', demo_hosts [''a.io''] []), (''personal:bob'', demo_hosts [''b.io''] [])] s);
       policy = (\<lambda>audience. Some (conversation_egress audience getEgress ''org:o'' ''channel:c''));
       url = (\<lambda>s. Some (drop 8 s)) in
     \<not> ed_allow (egressDecision url ''evil.example'' (policy [demo_person ''ann''])) \<and>
     \<not> ed_allow (egressDecision url ''evil.example'' (policy [demo_person ''bob''])) \<and>
     ed_allow (egressDecision url ''evil.example'' (policy [demo_person ''ann'', demo_person ''bob'']))"
  by code_simp

lemma parse_hosts_distinct:
  "parse_hosts url name hosts items = Inr hs \<Longrightarrow> distinct hosts \<Longrightarrow> distinct hs"
  by (induction url name hosts items rule: parse_hosts.induct)
    (auto simp: Let_def split: json.splits if_splits)

lemma parseList_distinct: "parseList url name raw = Inr hs \<Longrightarrow> distinct hs"
  by (auto simp: parseList_def dest: parse_hosts_distinct split: option.splits json.splits)

lemma parsed_egress_policy_consistent:
  assumes "parseEgressPolicy url input = Inr p"
  shows "distinct (eg_allowedHosts p) \<and> (\<exists>ds. eg_deniedHosts p = Some ds \<and> distinct ds \<and> set ds \<inter> set (eg_allowedHosts p) = {})"
  using assms
  by (auto simp: parseEgressPolicy_def and_then_Inr find_None_iff_all dest: parseList_distinct split: json.splits option.splits)

text \<open>What a history shows depends on everyone who is listening. An entry is shown exactly when there is an audience and every member is
  entitled to the scope it came from; showing it to more people never shows more; and what came from
  somebody's personal scope is shown, outside that scope's own session, only to that person alone.\<close>

lemma history_for_audience:
  assumes "parseScopeId org \<noteq> (Some Personal, i)" and "parseScopeId session \<noteq> (Some Personal, i)"
  shows "set (filterHistoryForAudience label es (a @ b) session org) \<subseteq>
      set es \<inter> (if a = [] then UNIV else set (filterHistoryForAudience label es a session org)) \<and>
    (a \<noteq> [] \<and> b \<noteq> [] \<longrightarrow>
       filterHistoryForAudience label es (a @ b) session org =
       filterHistoryForAudience label (filterHistoryForAudience label es a session org) b session org) \<and>
    (e \<in> set (filterHistoryForAudience label es a session org) \<and> label e = scopeId Personal i \<longrightarrow> a \<noteq> [] \<and> (\<forall>p \<in> set a. p_id p = i))"
  using assms by (auto simp: filterHistoryForAudience_def principalEntitledToScope_def list_all_iff intro!: filter_cong split: if_splits)

lemma history_for_audience_witness:
  "filterHistoryForAudience fst [(''channel:c'', 1 :: int), (''personal:ann'', 2)] [demo_person ''ann'', demo_person ''bob''] ''channel:c'' ''org:o''
     = filterHistoryForAudience fst (filterHistoryForAudience fst [(''channel:c'', 1), (''personal:ann'', 2)] [demo_person ''ann''] ''channel:c'' ''org:o'')
         [demo_person ''bob''] ''channel:c'' ''org:o''"
proof -
  have "parseScopeId ''org:o'' \<noteq> (Some Personal, ''ann'')" "parseScopeId ''channel:c'' \<noteq> (Some Personal, ''ann'')" by code_simp+
  from history_for_audience [OF this, of fst "[(''channel:c'', 1 :: int), (''personal:ann'', 2)]" "[demo_person ''ann'']" "[demo_person ''bob'']"]
  show ?thesis by simp
qed

subsection \<open>Postures and published artifacts\<close>

lemma composeSharingPostures_open:
  "composeSharingPostures ceiling narrower = Open \<longleftrightarrow> ceiling = Open \<and> Some Isolated \<notin> set narrower"
proof (induction narrower arbitrary: ceiling)
  case (Cons n ns)
  then show ?case
    by (cases ceiling) (auto simp: composeSharingPostures_def composeSharingPosture_def)
qed (simp add: composeSharingPostures_def)

lemma published_to_members_only:
  "pa_kind (defaultPublishAudience kind isPrivate isMpim members org owner) = PublishMembers \<Longrightarrow>
     \<exists>ms. members = Some ms \<and> distinct (pa_grantees (defaultPublishAudience kind isPrivate isMpim members org owner)) \<and>
       set (pa_grantees (defaultPublishAudience kind isPrivate isMpim members org owner)) =
         {scopeId Personal (p_id m) | m. m \<in> set ms \<and> p_type m = Internal \<and> p_id m \<noteq> owner}"
  by (auto simp: defaultPublishAudience_def owner_only_def publish_grantees_def Let_def distinct_map inj_on_def split: if_splits option.splits bool.splits)

end
