(* ===== verification/Swarm_Store.thy ===== *)
theory Swarm_Store
  imports Run_Worker Json Durable_Map Scope_Access
begin

text \<open>
  \<^verbatim>\<open>src/src/swarms\<close>: the settings of a swarm (\<^verbatim>\<open>swarm-settings.ts\<close>), the fence that ties a write to the lease of a run
  (\<^verbatim>\<open>swarm-fence.ts\<close>) and the store (\<^verbatim>\<open>swarm-store.ts\<close>). A swarm is one row of a durable map and is written as a whole. A
  callback that throws after it changed its copy of the swarm has changed nothing, so that callbacks are functions into
  a sum. The JSON text of contexts and messages inside a row is left out. A write with a fence reads the run
  first: in Postgres the row stays locked until the transaction ends, in memory it is the object of the run store, so that
  both tests see the run as it is at the write.
\<close>

datatype swarm_error = SwarmThrows string | SwarmNonRetryable string | SwarmTypeError

subsection \<open>Settings\<close>

record swarm_settings =
  ss_agents :: int
  ss_depth :: int
  ss_messages :: int
  ss_notifications :: int
  ss_spawnRequests :: int
  ss_contextBytes :: int
  ss_textBytes :: int
  ss_waitMs :: int
  ss_turnMs :: int
  ss_lifetimeMs :: int

definition SWARM_DEFAULTS :: swarm_settings where
  "SWARM_DEFAULTS =
     \<lparr>ss_agents = 32, ss_depth = 4, ss_messages = 128, ss_notifications = 256, ss_spawnRequests = 32, ss_contextBytes = 8192,
      ss_textBytes = 8192, ss_waitMs = 10000, ss_turnMs = 600000, ss_lifetimeMs = 3600000\<rparr>"

definition SWARM_MAXIMUMS :: swarm_settings where
  "SWARM_MAXIMUMS =
     \<lparr>ss_agents = 64, ss_depth = 8, ss_messages = 256, ss_notifications = 1024, ss_spawnRequests = 64, ss_contextBytes = 16384,
      ss_textBytes = 16384, ss_waitMs = 30000, ss_turnMs = 3600000, ss_lifetimeMs = 86400000\<rparr>"

text \<open>The properties of the object by name, in the order of \<open>SWARM_DEFAULTS\<close>.\<close>

definition setting_entries :: "swarm_settings \<Rightarrow> (string \<times> int) list" where
  "setting_entries s =
     [(''agents'', ss_agents s), (''depth'', ss_depth s), (''messages'', ss_messages s), (''notifications'', ss_notifications s),
      (''spawnRequests'', ss_spawnRequests s), (''contextBytes'', ss_contextBytes s), (''textBytes'', ss_textBytes s),
      (''waitMs'', ss_waitMs s), (''turnMs'', ss_turnMs s), (''lifetimeMs'', ss_lifetimeMs s)]"

definition settings_json :: "swarm_settings \<Rightarrow> json" where
  "settings_json s = JObj (map (\<lambda>(k, v). (k, JNum v)) (setting_entries s))"

text \<open>The value of a property of \<open>{ ...defaults, ...input }\<close> when it passes the test.\<close>

definition valid_setting :: "swarm_settings \<Rightarrow> (string \<times> json) list \<Rightarrow> string \<Rightarrow> int option" where
  "valid_setting defaults input key =
     (case (case map_of input key of Some v \<Rightarrow> v | None \<Rightarrow> (case map_of (setting_entries defaults) key of Some i \<Rightarrow> JNum i | None \<Rightarrow> JNull)) of
        JNum i \<Rightarrow> if \<bar>i\<bar> \<le> 2 ^ 53 - 1 \<and> 1 \<le> i \<and> i \<le> the (map_of (setting_entries SWARM_MAXIMUMS) key) then Some i else None
      | _ \<Rightarrow> None)"

definition resolveSwarmSettings :: "json option \<Rightarrow> swarm_settings \<Rightarrow> swarm_error + swarm_settings" where
  "resolveSwarmSettings input defaults =
     (case (case input of None \<Rightarrow> JObj [] | Some v \<Rightarrow> v) of
        JObj kvs \<Rightarrow>
          (case List.find (\<lambda>k. k \<notin> fst ` set (setting_entries SWARM_DEFAULTS)) (map fst kvs) of
             Some k \<Rightarrow> Inl (SwarmThrows (''unknown swarm setting: '' @ k))
           | None \<Rightarrow>
               (case List.find (\<lambda>k. valid_setting defaults kvs k = None) (map fst (setting_entries SWARM_DEFAULTS)) of
                  Some k \<Rightarrow> Inl (SwarmThrows (''invalid swarm setting: '' @ k))
                | None \<Rightarrow>
                    (let g = \<lambda>k. the (valid_setting defaults kvs k);
                         s = \<lparr>ss_agents = g ''agents'', ss_depth = g ''depth'', ss_messages = g ''messages'', ss_notifications = g ''notifications'',
                              ss_spawnRequests = g ''spawnRequests'', ss_contextBytes = g ''contextBytes'', ss_textBytes = g ''textBytes'',
                              ss_waitMs = g ''waitMs'', ss_turnMs = g ''turnMs'', ss_lifetimeMs = g ''lifetimeMs''\<rparr>
                     in if ss_agents s < 2 then Inl (SwarmThrows ''swarm settings must allow the root and a worker'') else Inr s)))
      | _ \<Rightarrow> Inl (SwarmThrows ''invalid swarm settings''))"

subsection \<open>Data\<close>

record swarm_turn =
  st_swarmId :: string
  st_messageId :: string
  st_recipientId :: string

text \<open>The request of a turn with the properties that swarms read; \<open>si_otherKeys\<close> names the properties present beyond these.\<close>

record swarm_input = orchestrator_input +
  si_scopeVersion :: "string option"
  si_unattendedGrants :: "json option"
  si_readOnly :: "bool option"
  si_skipMemory :: "bool option"
  si_harness :: "string option"
  si_model :: "json option"
  si_thinkingLevel :: "json option"
  si_fastMode :: "bool option"
  si_turnWallClockMs :: "int option"
  si_turn :: "swarm_turn option"
  si_sessionParticipantIds :: "string list option"
  si_runId :: "string option"
  si_otherKeys :: "string list"

datatype member_state = MemberReserved | MemberReady | MemberFailed

record swarm_member =
  sm_id :: string
  sm_sessionId :: "string option"
  sm_sessionUrl :: "string option"
  sm_threadRef :: string
  sm_parentId :: "string option"
  sm_depth :: nat
  sm_context :: json
  sm_sandboxId :: "string option"
  sm_forumSandboxId :: "string option"
  sm_state :: member_state
  sm_attempts :: nat
  sm_cleanupPending :: "bool option"
  sm_error :: "string option"

datatype swarm_author = AuthorAgent | AuthorHuman

datatype notification_state = NotePending | NoteQueued | NoteFailed

record swarm_notification =
  sn_state :: notification_state
  sn_runId :: "string option"

record swarm_message =
  sg_id :: string
  sg_seq :: nat
  sg_senderId :: string
  sg_senderSessionId :: string
  sg_author :: swarm_author
  sg_actorId :: string
  sg_text :: string
  sg_audience :: "string list"
  sg_replyTo :: "string option"
  sg_createdAt :: time
  sg_notifications :: "swarm_notification js_map"

record swarm =
  sw_id :: string
  sw_scopeId :: scope_id
  sw_ownerId :: string
  sw_participants :: "string list"
  sw_createdAt :: time
  sw_expiresAt :: time
  sw_template :: swarm_input
  sw_settings :: swarm_settings
  sw_backend :: string
  sw_members :: "swarm_member list"
  sw_messages :: "swarm_message list"
  sw_spawnRequests :: "(string list \<times> string) js_map"
  sw_messageRequests :: "(string \<times> string) js_map"
  sw_notificationCount :: nat
  sw_pending :: bool

type_synonym swarm_db = "swarm js_map"

definition assertSwarmOpen :: "time \<Rightarrow> swarm \<Rightarrow> swarm_error + unit" where
  "assertSwarmOpen now sw = (if now \<ge> sw_expiresAt sw then Inl (SwarmNonRetryable ''swarm work window expired'') else Inr ())"

subsection \<open>The fence\<close>

record swarm_fence =
  sf_runId :: string
  sf_attempt :: "nat option"
  sf_leaseToken :: "string option"
  sf_sessionId :: string
  sf_threadRef :: string
  sf_actorId :: string
  sf_scopeId :: scope_id

definition live_run :: "swarm_fence \<Rightarrow> time \<Rightarrow> run \<Rightarrow> bool" where
  "live_run fence now r \<longleftrightarrow>
     run_status r = Running \<and> Some (run_attempts r) = sf_attempt fence \<and> truthy (sf_leaseToken fence) \<and>
     run_leaseToken r = sf_leaseToken fence \<and> (case run_leaseExpiresAt r of None \<Rightarrow> False | Some e \<Rightarrow> e > now) \<and>
     run_sessionId r = sf_threadRef fence \<and> p_id (oi_actor (run_request r)) = sf_actorId fence"

definition assertSwarmRun :: "swarm_fence \<Rightarrow> time \<Rightarrow> run option \<Rightarrow> swarm_error + unit" where
  "assertSwarmRun fence now r =
     (case r of None \<Rightarrow> Inl (SwarmThrows ''active capability run required'')
      | Some r \<Rightarrow> if live_run fence now r then Inr () else Inl (SwarmThrows ''active capability run required''))"

subsection \<open>The store\<close>

record session_view =
  sv_id :: string
  sv_threadRef :: string
  sv_scopeId :: scope_id

text \<open>What the store may consult: sessions and runs, and whether they are in the same Postgres database as the swarms.\<close>

record swarm_authority =
  sa_session :: "string \<Rightarrow> session_view option"
  sa_run :: "string \<Rightarrow> run option"
  sa_pg :: bool

definition session_matches :: "swarm_authority \<Rightarrow> swarm_fence \<Rightarrow> bool" where
  "session_matches a fence =
     (case sa_session a (sf_sessionId fence) of None \<Rightarrow> False
      | Some s \<Rightarrow> sv_scopeId s = sf_scopeId fence \<and> sv_threadRef s = sf_threadRef fence)"

text \<open>\<open>now\<close> is the clock at the first test of the run, \<open>later\<close> at the second one.\<close>

definition fencedWrite ::
  "swarm_authority option \<Rightarrow> time \<Rightarrow> time \<Rightarrow> string \<Rightarrow> (swarm option \<Rightarrow> swarm_error + swarm) \<Rightarrow> swarm_fence \<Rightarrow> swarm_db \<Rightarrow> swarm_error + swarm" where
  "fencedWrite authority now later i mutate fence db =
     (case authority of None \<Rightarrow> Inl (SwarmThrows ''swarm run validation unavailable'')
      | Some a \<Rightarrow>
          let run = sa_run a (sf_runId fence);
              session = (if session_matches a fence then Inr () else Inl (SwarmThrows ''capability session mismatch''))
          in if sa_pg a
             then and_then (assertSwarmRun fence now run) (\<lambda>_.
                  and_then session (\<lambda>_.
                  and_then (mutate (map_of db i)) (\<lambda>next.
                  and_then (assertSwarmRun fence later run) (\<lambda>_. Inr next))))
             else and_then session (\<lambda>_.
                  and_then (assertSwarmRun fence now run) (\<lambda>_.
                  and_then (assertSwarmRun fence later run) (\<lambda>_. mutate (map_of db i)))))"

text \<open>The row that a call writes, and what it returns.\<close>

definition write_row :: "string \<Rightarrow> swarm_error + swarm \<Rightarrow> swarm_db \<Rightarrow> (swarm_error + swarm) \<times> swarm_db" where
  "write_row i res db = (res, case res of Inl _ \<Rightarrow> db | Inr sw \<Rightarrow> AList.update i sw db)"

definition sw_get :: "string \<Rightarrow> swarm_db \<Rightarrow> swarm option" where
  "sw_get i db = map_of db i"

definition sw_create ::
  "swarm_authority option \<Rightarrow> time \<Rightarrow> time \<Rightarrow> swarm \<Rightarrow> swarm_fence option \<Rightarrow> swarm_db \<Rightarrow> (swarm_error + swarm) \<times> swarm_db" where
  "sw_create authority now later sw fence db =
     (let create = (\<lambda>current. case current of Some c \<Rightarrow> Inr c | None \<Rightarrow> and_then (assertSwarmOpen now sw) (\<lambda>_. Inr sw))
      in case fence of
           Some f \<Rightarrow> write_row (sw_id sw) (fencedWrite authority now later (sw_id sw) create f db) db
         | None \<Rightarrow> write_row (sw_id sw) (and_then (create None) (\<lambda>new. Inr (case map_of db (sw_id sw) of Some c \<Rightarrow> c | None \<Rightarrow> new))) db)"

definition has_pending :: "swarm \<Rightarrow> bool" where
  "has_pending sw \<longleftrightarrow>
     list_ex (\<lambda>m. sm_state m = MemberReserved \<or> sm_cleanupPending m = Some True) (sw_members sw) \<or>
     list_ex (\<lambda>g. list_ex (\<lambda>item. sn_state item = NotePending) (map_values (sg_notifications g))) (sw_messages sw)"

definition sw_apply :: "(swarm \<Rightarrow> swarm_error + swarm) \<Rightarrow> swarm option \<Rightarrow> swarm_error + swarm" where
  "sw_apply mutate v =
     (case v of None \<Rightarrow> Inl (SwarmThrows ''swarm not found'')
      | Some sw \<Rightarrow> and_then (mutate sw) (\<lambda>next. Inr (next\<lparr>sw_pending := has_pending next\<rparr>)))"

definition sw_update ::
  "swarm_authority option \<Rightarrow> time \<Rightarrow> time \<Rightarrow> string \<Rightarrow> (swarm \<Rightarrow> swarm_error + swarm) \<Rightarrow> swarm_fence option \<Rightarrow> swarm_db \<Rightarrow>
   (swarm_error + swarm) \<times> swarm_db" where
  "sw_update authority now later i mutate fence db =
     write_row i (case fence of Some f \<Rightarrow> fencedWrite authority now later i (sw_apply mutate) f db | None \<Rightarrow> sw_apply mutate (map_of db i)) db"

text \<open>The batch of a sweep; \<open>pending\<close> is compared as text.\<close>

definition SWEEP_BATCH :: nat where
  "SWEEP_BATCH = 16"

definition sw_pending_batch :: "string option \<Rightarrow> swarm_db \<Rightarrow> swarm list" where
  "sw_pending_batch afterId db =
     mm_select (Some (\<lambda>sw. Some (if sw_pending sw then ''true'' else ''false''), [''true''])) (Some SWEEP_BATCH) afterId id db"

end
