(* ===== verification/Swarm_Service.thy ===== *)
theory Swarm_Service
  imports Swarm_Store
begin

text \<open>
  \<^verbatim>\<open>src/src/swarms/swarm-service.ts\<close>. A call reads the swarm when it checks the authority of its caller and writes it later, in
  a callback of the store; other calls may write in between. A call is therefore a \<open>_begin\<close> on the table as it was read and a
  commit on the table as it is. Sessions, runs, sandboxes and the authorisation service answer through \<open>swarm_env\<close>.
\<close>

subsection \<open>Texts\<close>

text \<open>\<open>encodeURIComponent\<close> and \<open>decodeURIComponent\<close>, on the bytes of a text.\<close>

definition uri_plain :: "char \<Rightarrow> bool" where
  "uri_plain c \<longleftrightarrow>
     (let n = of_char c :: nat in (48 \<le> n \<and> n \<le> 57) \<or> (65 \<le> n \<and> n \<le> 90) \<or> (97 \<le> n \<and> n \<le> 122)) \<or> c \<in> set ''-_.!~*()'' \<or> c = CHR 0x27"

definition hex_upper :: "nat \<Rightarrow> char" where
  "hex_upper n = (if n < 10 then char_of (48 + n) else char_of (55 + n))"

definition uri_char :: "char \<Rightarrow> string" where
  "uri_char c = (if uri_plain c then [c] else [CHR ''%'', hex_upper (of_char c div 16), hex_upper (of_char c mod 16)])"

definition encodeURIComponent :: "string \<Rightarrow> string" where
  "encodeURIComponent s = concat (map uri_char s)"

definition uri_hex_digit :: "char \<Rightarrow> nat option" where
  "uri_hex_digit c =
     (let n = of_char c :: nat in
      if 48 \<le> n \<and> n \<le> 57 then Some (n - 48) else if 65 \<le> n \<and> n \<le> 70 then Some (n - 55) else if 97 \<le> n \<and> n \<le> 102 then Some (n - 87) else None)"

fun decodeURIComponent :: "string \<Rightarrow> string option" where
  "decodeURIComponent [] = Some []"
| "decodeURIComponent (c # cs) =
     (if c = CHR ''%''
      then (case cs of a # b # rest \<Rightarrow>
              (case (uri_hex_digit a, uri_hex_digit b) of
                 (Some x, Some y) \<Rightarrow> map_option (Cons (char_of (16 * x + y))) (decodeURIComponent rest)
               | _ \<Rightarrow> None)
            | _ \<Rightarrow> None)
      else map_option (Cons c) (decodeURIComponent cs))"

definition boundedText :: "string \<Rightarrow> int \<Rightarrow> string \<Rightarrow> swarm_error + unit" where
  "boundedText v mx name = (if trim v = [] \<or> int (length v) > mx then Inl (SwarmThrows (''invalid '' @ name)) else Inr ())"

definition jsonContext :: "json \<Rightarrow> int \<Rightarrow> swarm_error + json" where
  "jsonContext v mx = (if int (length (stringify v)) > mx then Inl (SwarmThrows ''invalid context'') else Inr v)"

definition swarm_signature :: "(string \<Rightarrow> string) \<Rightarrow> json \<Rightarrow> string" where
  "swarm_signature sha256_hex v = sha256_hex (canonicalJson (Some v))"

definition rosterMatches :: "string list \<Rightarrow> string list \<Rightarrow> bool" where
  "rosterMatches current expected \<longleftrightarrow> length (uniq current) = length (uniq expected) \<and> list_all (\<lambda>i. i \<in> set expected) (uniq current)"

definition threadIdentity :: "string \<Rightarrow> string \<Rightarrow> swarm_error + (string \<times> string)" where
  "threadIdentity threadRef sessionId =
     (if \<not> starts_with ''swarm:'' threadRef then Inr (sessionId, sessionId)
      else case split_on (CHR '':'') threadRef of
        [_, rootRef, member] \<Rightarrow>
          if rootRef = [] \<or> member = [] then Inl (SwarmThrows ''invalid swarm session'')
          else (case decodeURIComponent rootRef of None \<Rightarrow> Inl (SwarmThrows ''URI malformed'') | Some r \<Rightarrow> Inr (r, member))
      | _ \<Rightarrow> Inl (SwarmThrows ''invalid swarm session''))"

definition conversationScope :: "conversation \<Rightarrow> string \<Rightarrow> scope_id" where
  "conversationScope c actorId =
     (let ref = (case c_channelRef c of Some r \<Rightarrow> r | None \<Rightarrow> c_threadRef c) in
      case c_kind c of DmConversation \<Rightarrow> scopeId Personal actorId | GroupConversation \<Rightarrow> scopeId Group ref | ChannelConversation \<Rightarrow> scopeId Channel ref)"

subsection \<open>Callers and their authority\<close>

record swarm_claims =
  cl_actorId :: string
  cl_threadRef :: "string option"
  cl_scopeId :: scope_id
  cl_runId :: "string option"
  cl_sessionId :: "string option"
  cl_runAttempt :: "nat option"
  cl_runLeaseToken :: "string option"
  cl_members :: "principal list option"

datatype swarm_caller = AgentCaller swarm_claims | HumanCaller string string "string option"

record sandbox_inventory =
  sb_providers :: "(string \<times> string list) list"
  sb_selected :: "string option"
  sb_default :: string

record swarm_env =
  se_authority :: swarm_authority
  se_byThread :: "string \<Rightarrow> session_view option"
  se_participants :: "string \<Rightarrow> string list"
  se_requestOf :: "string \<Rightarrow> swarm_input"
  se_authorize :: "string \<Rightarrow> scope_id \<Rightarrow> string option \<Rightarrow> principal list option \<Rightarrow> bool"
  se_inventory :: "string \<Rightarrow> scope_id \<Rightarrow> sandbox_inventory"
  se_forumScope :: "string \<Rightarrow> string \<Rightarrow> swarm_error + scope_id"
  se_byDedupKey :: "string \<Rightarrow> run option"
  se_sha256 :: "string \<Rightarrow> string"
  se_defaults :: swarm_settings

record swarm_auth =
  au_fence :: "swarm_fence option"
  au_sessionId :: string
  au_actorId :: string
  au_rootId :: string
  au_memberId :: string

definition caller_actor :: "swarm_caller \<Rightarrow> string" where
  "caller_actor caller = (case caller of AgentCaller c \<Rightarrow> cl_actorId c | HumanCaller a _ _ \<Rightarrow> a)"

definition caller_author :: "swarm_caller \<Rightarrow> swarm_author" where
  "caller_author caller = (case caller of AgentCaller _ \<Rightarrow> AuthorAgent | HumanCaller _ _ _ \<Rightarrow> AuthorHuman)"

definition author_name :: "swarm_author \<Rightarrow> string" where
  "author_name a = (case a of AuthorAgent \<Rightarrow> ''agent'' | AuthorHuman \<Rightarrow> ''human'')"

text \<open>The fence of an agent: its run must belong to the session and hold its lease.\<close>

definition caller_fence :: "swarm_env \<Rightarrow> time \<Rightarrow> session_view \<Rightarrow> swarm_caller \<Rightarrow> swarm_error + swarm_fence option" where
  "caller_fence env now session caller =
     (case caller of HumanCaller _ _ _ \<Rightarrow> Inr None
      | AgentCaller claims \<Rightarrow>
          if cl_scopeId claims \<noteq> sv_scopeId session \<or> \<not> truthy (cl_runId claims) then Inl (SwarmThrows ''session-bound capability required'')
          else
            (let runId = the (cl_runId claims);
                 fence = \<lparr>sf_runId = runId, sf_attempt = cl_runAttempt claims, sf_leaseToken = cl_runLeaseToken claims, sf_sessionId = sv_id session,
                          sf_threadRef = sv_threadRef session, sf_actorId = cl_actorId claims, sf_scopeId = sv_scopeId session\<rparr>
             in case sa_run (se_authority env) runId of
                  None \<Rightarrow> Inl (SwarmThrows ''capability run mismatch'')
                | Some run \<Rightarrow>
                    if cl_sessionId claims \<noteq> Some (sv_id session) \<or> run_sessionId run \<noteq> sv_threadRef session \<or>
                       c_threadRef (oi_conversation (run_request run)) \<noteq> sv_threadRef session \<or> p_id (oi_actor (run_request run)) \<noteq> cl_actorId claims \<or>
                       conversationScope (oi_conversation (run_request run)) (cl_actorId claims) \<noteq> sv_scopeId session
                    then Inl (SwarmThrows ''capability run mismatch'')
                    else if run_leaseExpiresAt run = None \<or> run_leaseExpiresAt run = Some 0 then Inl (SwarmThrows ''active capability run required'')
                    else and_then (assertSwarmRun fence now (Some run)) (\<lambda>_. Inr (Some fence))))"

text \<open>What an existing swarm demands of the session and its participants.\<close>

definition swarm_admits :: "swarm_env \<Rightarrow> string \<Rightarrow> session_view \<Rightarrow> string \<Rightarrow> swarm \<Rightarrow> swarm_error + unit" where
  "swarm_admits env actorId session memberId sw =
     (if sw_scopeId sw \<noteq> sv_scopeId session \<or> actorId \<notin> set (sw_participants sw) then Inl (SwarmThrows ''swarm access denied'')
      else if \<not> rosterMatches (se_participants env (sw_id sw)) (sw_participants sw) then Inl (SwarmThrows ''swarm roster changed'')
      else if \<not> rosterMatches (se_participants env (sv_id session)) (sw_participants sw) then Inl (SwarmThrows ''swarm session roster changed'')
      else if \<not> list_ex (\<lambda>m. sm_id m = memberId \<and> sm_sessionId m = Some (sv_id session)) (sw_members sw)
      then Inl (SwarmThrows ''session is not a swarm member'')
      else Inr ())"

definition authority :: "swarm_env \<Rightarrow> swarm_caller \<Rightarrow> time \<Rightarrow> swarm_db \<Rightarrow> swarm_error + swarm_auth \<times> swarm option" where
  "authority env caller now db =
     (let actorId = caller_actor caller in
      case (case caller of AgentCaller c \<Rightarrow> se_byThread env (case cl_threadRef c of Some t \<Rightarrow> t | None \<Rightarrow> [])
            | HumanCaller _ s _ \<Rightarrow> sa_session (se_authority env) s) of
        None \<Rightarrow> Inl (SwarmThrows ''session not found'')
      | Some session \<Rightarrow>
          if actorId \<notin> set (se_participants env (sv_id session)) then Inl (SwarmThrows ''session access denied'')
          else
            and_then (caller_fence env now session caller) (\<lambda>fence.
            and_then (threadIdentity (sv_threadRef session) (sv_id session)) (\<lambda>(rootId, memberId).
              let sw = map_of db rootId;
                  auth = \<lparr>au_fence = fence, au_sessionId = sv_id session, au_actorId = actorId, au_rootId = rootId, au_memberId = memberId\<rparr>;
                  version = (case sw of None \<Rightarrow> None | Some s \<Rightarrow> if truthy (si_scopeVersion (sw_template s)) then si_scopeVersion (sw_template s) else None);
                  members = (case caller of AgentCaller c \<Rightarrow> cl_members c | HumanCaller _ _ _ \<Rightarrow> None)
              in if \<not> se_authorize env actorId (sv_scopeId session) version members then Inl (SwarmThrows ''scope access denied'')
                 else case sw of
                   Some s \<Rightarrow> and_then (swarm_admits env actorId session memberId s) (\<lambda>_. Inr (auth, sw))
                 | None \<Rightarrow> if rootId \<noteq> sv_id session then Inl (SwarmThrows ''swarm not found'') else Inr (auth, None))))"

definition find_member :: "string \<Rightarrow> swarm \<Rightarrow> swarm_member option" where
  "find_member i sw = List.find (\<lambda>m. sm_id m = i) (sw_members sw)"

definition swarm_load :: "swarm_env \<Rightarrow> swarm_caller \<Rightarrow> time \<Rightarrow> swarm_db \<Rightarrow> swarm_error + swarm_auth \<times> swarm \<times> swarm_member" where
  "swarm_load env caller now db =
     and_then (authority env caller now db) (\<lambda>(auth, sw).
       case sw of None \<Rightarrow> Inl (SwarmThrows ''swarm not found; spawn an initial pool first'')
       | Some s \<Rightarrow> (case find_member (au_memberId auth) s of
                     None \<Rightarrow> Inl (SwarmThrows ''swarm not found; spawn an initial pool first'')
                   | Some self \<Rightarrow> Inr (auth, s, self)))"

definition member_view :: "swarm_member \<Rightarrow> swarm_member" where
  "member_view m =
     (if truthy (sm_sessionId m) then m\<lparr>sm_sessionUrl := Some (''/web-ui/s/'' @ encodeURIComponent (the (sm_sessionId m)))\<rparr> else m)"

subsection \<open>Spawning\<close>

record spawn_input =
  sp_requestId :: string
  sp_count :: "int option"
  sp_context :: "json option"
  sp_contexts :: "json list option"
  sp_text :: string
  sp_forumSandboxId :: "string option"
  sp_settings :: "json option"
  sp_backend :: "string option"

definition optional_field :: "string \<Rightarrow> json option \<Rightarrow> (string \<times> json) list" where
  "optional_field k v = (case v of None \<Rightarrow> [] | Some j \<Rightarrow> [(k, j)])"

definition spawn_json :: "spawn_input \<Rightarrow> json" where
  "spawn_json i =
     JObj ([(''requestId'', JStr (sp_requestId i))] @ optional_field ''count'' (map_option JNum (sp_count i)) @
       optional_field ''context'' (sp_context i) @ optional_field ''contexts'' (map_option JArr (sp_contexts i)) @ [(''text'', JStr (sp_text i))] @
       optional_field ''forumSandboxId'' (map_option JStr (sp_forumSandboxId i)) @ optional_field ''settings'' (sp_settings i) @
       optional_field ''backend'' (map_option JStr (sp_backend i)))"

definition request_key :: "swarm_env \<Rightarrow> swarm_auth \<Rightarrow> swarm_caller \<Rightarrow> string \<Rightarrow> string" where
  "request_key env auth caller requestId =
     swarm_signature (se_sha256 env)
       (JArr [JStr (au_memberId auth), JStr (au_actorId auth), JStr (author_name (caller_author caller)), JStr requestId])"

record spawn_plan =
  pl_auth :: swarm_auth
  pl_author :: swarm_author
  pl_key :: string
  pl_fingerprint :: string
  pl_settings :: swarm_settings
  pl_contexts :: "json list"
  pl_text :: string
  pl_forumSandboxId :: "string option"
  pl_backend :: "string option"

datatype spawn_begun = SpawnReplay "swarm_member list" | SpawnInitial spawn_plan | SpawnMore spawn_plan

definition reused_error :: swarm_error where
  "reused_error = SwarmThrows ''requestId reused with different content''"

definition spawn_count :: "spawn_input \<Rightarrow> int" where
  "spawn_count i = (case sp_count i of Some n \<Rightarrow> n | None \<Rightarrow> (case sp_contexts i of Some cs \<Rightarrow> int (length cs) | None \<Rightarrow> 1))"

text \<open>The contexts of the new members, checked one by one.\<close>

definition spawn_contexts :: "spawn_input \<Rightarrow> nat \<Rightarrow> json list" where
  "spawn_contexts i count =
     (case sp_contexts i of Some cs \<Rightarrow> cs | None \<Rightarrow> replicate count (case sp_context i of Some c \<Rightarrow> c | None \<Rightarrow> JObj []))"

definition forum_allowed :: "swarm_env \<Rightarrow> swarm_auth \<Rightarrow> string option \<Rightarrow> swarm_error + unit" where
  "forum_allowed env auth forum =
     (if \<not> truthy forum then Inr ()
      else and_then (se_forumScope env (au_actorId auth) (the forum)) (\<lambda>owner.
        if Some owner \<noteq> map_option sv_scopeId (sa_session (se_authority env) (au_sessionId auth)) then Inl (SwarmThrows ''forum scope mismatch'') else Inr ()))"

definition spawn_settings :: "swarm_env \<Rightarrow> swarm option \<Rightarrow> spawn_input \<Rightarrow> swarm_error + swarm_settings" where
  "spawn_settings env existing i =
     (case existing of
        Some sw \<Rightarrow> if sp_settings i \<noteq> None \<or> sp_backend i \<noteq> None then Inl (SwarmThrows ''settings are only allowed on initial swarm creation'')
                  else Inr (sw_settings sw)
      | None \<Rightarrow> resolveSwarmSettings (sp_settings i) (se_defaults env))"

text \<open>The checks of a request that is not recorded yet.\<close>

definition plan_spawn :: "swarm_env \<Rightarrow> swarm_caller \<Rightarrow> spawn_input \<Rightarrow> swarm_auth \<Rightarrow> swarm option \<Rightarrow> swarm_error + spawn_begun" where
  "plan_spawn env caller i auth existing =
     and_then (spawn_settings env existing i) (\<lambda>settings.
     and_then (boundedText (sp_text i) (ss_textBytes settings) ''text'') (\<lambda>_.
       let count = spawn_count i in
       if count < 1 \<or> \<bar>count\<bar> > 2 ^ 53 - 1 \<or> count \<ge> ss_agents settings then Inl (SwarmThrows ''invalid pool size'')
       else if (case sp_contexts i of Some cs \<Rightarrow> int (length cs) \<noteq> count | None \<Rightarrow> False) then Inl (SwarmThrows ''contexts must match count'')
       else
         and_then (map_result (\<lambda>c. jsonContext c (ss_contextBytes settings)) (spawn_contexts i (nat count))) (\<lambda>contexts.
         if existing = None \<and> count > ss_notifications settings then Inl (SwarmThrows ''swarm notification budget exhausted'')
         else
           and_then (forum_allowed env auth (sp_forumSandboxId i)) (\<lambda>_.
             let plan = \<lparr>pl_auth = auth, pl_author = caller_author caller, pl_key = request_key env auth caller (sp_requestId i),
                         pl_fingerprint = swarm_signature (se_sha256 env) (spawn_json i), pl_settings = settings,
                         pl_contexts = contexts, pl_text = sp_text i, pl_forumSandboxId = sp_forumSandboxId i, pl_backend = sp_backend i\<rparr>
             in Inr (if existing = None then SpawnInitial plan else SpawnMore plan)))))"

definition spawn_begin :: "swarm_env \<Rightarrow> swarm_caller \<Rightarrow> spawn_input \<Rightarrow> time \<Rightarrow> swarm_db \<Rightarrow> swarm_error + spawn_begun" where
  "spawn_begin env caller i now db =
     and_then (boundedText (sp_requestId i) 128 ''requestId'') (\<lambda>_.
     and_then (authority env caller now db) (\<lambda>(auth, existing).
       case (case existing of None \<Rightarrow> None | Some sw \<Rightarrow> map_of (sw_spawnRequests sw) (request_key env auth caller (sp_requestId i))) of
         Some (ids, sig) \<Rightarrow>
           if sig \<noteq> swarm_signature (se_sha256 env) (spawn_json i) then Inl reused_error
           else Inr (SpawnReplay (map member_view (filter (\<lambda>m. sm_id m \<in> set ids) (sw_members (the existing)))))
       | None \<Rightarrow> plan_spawn env caller i auth existing))"

text \<open>The callback \<open>reserve\<close>; \<open>fresh\<close> gives the identifiers that \<open>randomUUID\<close> draws, the last one for the message.\<close>

definition new_member :: "spawn_plan \<Rightarrow> swarm \<Rightarrow> swarm_member \<Rightarrow> string \<Rightarrow> json \<Rightarrow> swarm_member" where
  "new_member plan sw parent i context =
     \<lparr>sm_id = i, sm_sessionId = None, sm_sessionUrl = None, sm_threadRef = ''swarm:'' @ encodeURIComponent (sw_id sw) @ '':'' @ i,
      sm_parentId = Some (sm_id parent), sm_depth = sm_depth parent + 1, sm_context = context, sm_sandboxId = Some i,
      sm_forumSandboxId = (if truthy (pl_forumSandboxId plan) then pl_forumSandboxId plan else None), sm_state = MemberReserved,
      sm_attempts = 0, sm_cleanupPending = None, sm_error = None\<rparr>"

definition pending_note :: swarm_notification where
  "pending_note = \<lparr>sn_state = NotePending, sn_runId = None\<rparr>"

text \<open>\<open>Object.fromEntries\<close> keeps one entry per key.\<close>

definition pending_notes :: "string list \<Rightarrow> swarm_notification js_map" where
  "pending_notes ids = map (\<lambda>i. (i, pending_note)) (uniq ids)"

definition spawn_message :: "spawn_plan \<Rightarrow> swarm \<Rightarrow> swarm_member \<Rightarrow> time \<Rightarrow> string \<Rightarrow> string list \<Rightarrow> swarm_message" where
  "spawn_message plan sw parent now i ids =
     \<lparr>sg_id = i, sg_seq = length (sw_messages sw) + 1, sg_senderId = sm_id parent, sg_senderSessionId = au_sessionId (pl_auth plan),
      sg_author = pl_author plan, sg_actorId = au_actorId (pl_auth plan), sg_text = pl_text plan, sg_audience = ids, sg_replyTo = None,
      sg_createdAt = now, sg_notifications = pending_notes ids\<rparr>"

definition admit_spawn :: "spawn_plan \<Rightarrow> time \<Rightarrow> swarm \<Rightarrow> swarm_error + swarm_member" where
  "admit_spawn plan now sw =
     (let count = int (length (pl_contexts plan)) in
      if canonicalJson (Some (settings_json (pl_settings plan))) \<noteq> canonicalJson (Some (settings_json (sw_settings sw))) \<or>
         (pl_backend plan \<noteq> None \<and> pl_backend plan \<noteq> Some (sw_backend sw))
      then Inl (SwarmThrows ''conflicting initial swarm settings'')
      else
        and_then (assertSwarmOpen now sw) (\<lambda>_.
          case find_member (au_memberId (pl_auth plan)) sw of
            None \<Rightarrow> Inl SwarmTypeError
          | Some parent \<Rightarrow>
              if int (sm_depth parent) \<ge> ss_depth (sw_settings sw) then Inl (SwarmThrows ''swarm depth budget exhausted'')
              else if int (length (sw_members sw)) + count > ss_agents (sw_settings sw) then Inl (SwarmThrows ''swarm agent budget exhausted'')
              else if int (length (sw_spawnRequests sw)) \<ge> ss_spawnRequests (sw_settings sw) then Inl (SwarmThrows ''swarm spawn budget exhausted'')
              else if int (length (sw_messages sw)) \<ge> ss_messages (sw_settings sw) \<or>
                      int (sw_notificationCount sw) + count > ss_notifications (sw_settings sw)
              then Inl (SwarmThrows ''swarm work budget exhausted'')
              else Inr parent))"

definition reserve :: "spawn_plan \<Rightarrow> time \<Rightarrow> (nat \<Rightarrow> string) \<Rightarrow> swarm \<Rightarrow> swarm_error + swarm" where
  "reserve plan now fresh sw =
     (case map_of (sw_spawnRequests sw) (pl_key plan) of
        Some (_, sig) \<Rightarrow> if sig \<noteq> pl_fingerprint plan then Inl reused_error else Inr sw
      | None \<Rightarrow>
          and_then (admit_spawn plan now sw) (\<lambda>parent.
            let count = length (pl_contexts plan);
                members = map2 (new_member plan sw parent) (map fresh [0..<count]) (pl_contexts plan);
                ids = map sm_id members
            in Inr (sw\<lparr>sw_members := sw_members sw @ members, sw_spawnRequests := AList.update (pl_key plan) (ids, pl_fingerprint plan) (sw_spawnRequests sw),
                       sw_messages := sw_messages sw @ [spawn_message plan sw parent now (fresh count) ids],
                       sw_notificationCount := sw_notificationCount sw + count\<rparr>)))"

text \<open>The first swarm of a session. The properties of the request that the run store does not look at come from \<open>se_requestOf\<close>.\<close>

definition initial_backend :: "swarm_env \<Rightarrow> string \<Rightarrow> scope_id \<Rightarrow> string option \<Rightarrow> swarm_error + string" where
  "initial_backend env actorId sc backend =
     (let inventory = se_inventory env actorId sc;
          requested = (case backend of Some b \<Rightarrow> b | None \<Rightarrow> (case sb_selected inventory of Some b \<Rightarrow> b | None \<Rightarrow> sb_default inventory))
      in case List.find (\<lambda>(name, _). name = requested) (sb_providers inventory) of
           None \<Rightarrow> Inl (SwarmThrows ''sandbox backend must support creating and retiring workers'')
         | Some (name, actions) \<Rightarrow>
             if ''create'' \<notin> set actions \<or> ''retire'' \<notin> set actions then Inl (SwarmThrows ''sandbox backend must support creating and retiring workers'')
             else Inr name)"

definition kept_true :: "bool option \<Rightarrow> bool option" where
  "kept_true b = (if b = Some True then Some True else None)"

definition swarm_template :: "orchestrator_input \<Rightarrow> swarm_input \<Rightarrow> swarm_settings \<Rightarrow> swarm_input" where
  "swarm_template source rest settings =
     (let c = oi_conversation source in
      \<lparr>oi_text = [], oi_displayText = None, oi_surface = Some ''swarm'', oi_deliveryTarget = None, oi_privateSessionMessage = False, oi_swarm = False,
       oi_actor = oi_actor source,
       oi_conversation = c\<lparr>c_channelRef := (case c_channelRef c of Some r \<Rightarrow> Some r | None \<Rightarrow> if c_kind c = DmConversation then None else Some (c_threadRef c))\<rparr>,
       oi_origin = Some (AutomationOrigin None None None),
       si_scopeVersion = (if truthy (si_scopeVersion rest) then si_scopeVersion rest else None), si_unattendedGrants = si_unattendedGrants rest,
       si_readOnly = kept_true (si_readOnly rest), si_skipMemory = kept_true (si_skipMemory rest),
       si_harness = (if truthy (si_harness rest) then si_harness rest else None), si_model = si_model rest,
       si_thinkingLevel = si_thinkingLevel rest, si_fastMode = si_fastMode rest, si_turnWallClockMs = Some (ss_turnMs settings), si_turn = None,
       si_sessionParticipantIds = None, si_runId = None, si_otherKeys = []\<rparr>)"

definition root_member :: "session_view \<Rightarrow> swarm_member" where
  "root_member session =
     \<lparr>sm_id = sv_id session, sm_sessionId = Some (sv_id session), sm_sessionUrl = None, sm_threadRef = sv_threadRef session, sm_parentId = None,
      sm_depth = 0, sm_context = JObj [], sm_sandboxId = None, sm_forumSandboxId = None, sm_state = MemberReady, sm_attempts = 0,
      sm_cleanupPending = None, sm_error = None\<rparr>"

definition prepareInitialSwarm ::
  "swarm_env \<Rightarrow> swarm_caller \<Rightarrow> swarm_auth \<Rightarrow> swarm_settings \<Rightarrow> string option \<Rightarrow> time \<Rightarrow> swarm_error + swarm" where
  "prepareInitialSwarm env caller auth settings backend now =
     (let runId = (case caller of AgentCaller c \<Rightarrow> cl_runId c | HumanCaller _ _ r \<Rightarrow> r);
          missing = Inl (SwarmThrows ''a run belonging to this session is required to initialize a swarm'')
      in case (if truthy runId then sa_run (se_authority env) (the runId) else None, sa_session (se_authority env) (au_sessionId auth)) of
           (Some run, Some session) \<Rightarrow>
             if c_threadRef (oi_conversation (run_request run)) \<noteq> sv_threadRef session \<or> p_id (oi_actor (run_request run)) \<noteq> au_actorId auth then missing
             else if conversationScope (oi_conversation (run_request run)) (au_actorId auth) \<noteq> sv_scopeId session then Inl (SwarmThrows ''run scope mismatch'')
             else
               and_then (initial_backend env (au_actorId auth) (sv_scopeId session) backend) (\<lambda>name.
               Inr \<lparr>sw_id = sv_id session, sw_scopeId = sv_scopeId session, sw_ownerId = au_actorId auth,
                    sw_participants = se_participants env (sv_id session), sw_createdAt = now, sw_expiresAt = now + ss_lifetimeMs settings,
                    sw_template = swarm_template (run_request run) (se_requestOf env (run_id run)) settings, sw_settings = settings, sw_backend = name,
                    sw_members = [root_member session], sw_messages = [], sw_spawnRequests = [], sw_messageRequests = [],
                    sw_notificationCount = 0, sw_pending = True\<rparr>)
         | _ \<Rightarrow> missing)"

text \<open>The two writes of a spawn and what it returns.\<close>

definition spawn_first ::
  "swarm_env \<Rightarrow> swarm_caller \<Rightarrow> spawn_plan \<Rightarrow> time \<Rightarrow> time \<Rightarrow> (nat \<Rightarrow> string) \<Rightarrow> swarm_db \<Rightarrow> (swarm_error + swarm) \<times> swarm_db" where
  "spawn_first env caller plan now later fresh db =
     (case and_then (prepareInitialSwarm env caller (pl_auth plan) (pl_settings plan) (pl_backend plan) now) (reserve plan now fresh) of
        Inl e \<Rightarrow> (Inl e, db)
      | Inr initial \<Rightarrow> sw_create (Some (se_authority env)) now later initial (au_fence (pl_auth plan)) db)"

definition spawn_more ::
  "swarm_env \<Rightarrow> spawn_plan \<Rightarrow> time \<Rightarrow> time \<Rightarrow> (nat \<Rightarrow> string) \<Rightarrow> swarm_db \<Rightarrow> (swarm_error + swarm) \<times> swarm_db" where
  "spawn_more env plan now later fresh db =
     sw_update (Some (se_authority env)) now later (au_rootId (pl_auth plan)) (reserve plan now fresh) (au_fence (pl_auth plan)) db"

definition spawned :: "spawn_plan \<Rightarrow> swarm \<Rightarrow> swarm_error + swarm_member list" where
  "spawned plan sw =
     (case map_of (sw_spawnRequests sw) (pl_key plan) of
        None \<Rightarrow> Inl SwarmTypeError
      | Some (ids, sig) \<Rightarrow>
          if sig \<noteq> pl_fingerprint plan then Inl reused_error else Inr (map member_view (filter (\<lambda>m. sm_id m \<in> set ids) (sw_members sw))))"

text \<open>A spawn without other writers in between.\<close>

definition spawn ::
  "swarm_env \<Rightarrow> swarm_caller \<Rightarrow> spawn_input \<Rightarrow> time \<Rightarrow> time \<Rightarrow> (nat \<Rightarrow> string) \<Rightarrow> swarm_db \<Rightarrow> (swarm_error + swarm_member list) \<times> swarm_db" where
  "spawn env caller i now later fresh db =
     (case spawn_begin env caller i now db of
        Inl e \<Rightarrow> (Inl e, db)
      | Inr (SpawnReplay ms) \<Rightarrow> (Inr ms, db)
      | Inr (SpawnMore plan) \<Rightarrow> (case spawn_more env plan now later fresh db of (res, db') \<Rightarrow> (and_then res (spawned plan), db'))
      | Inr (SpawnInitial plan) \<Rightarrow>
          (case spawn_first env caller plan now later fresh db of
             (Inl e, db') \<Rightarrow> (Inl e, db')
           | (Inr sw, db') \<Rightarrow>
               if map_of (sw_spawnRequests sw) (pl_key plan) \<noteq> None then (spawned plan sw, db')
               else (case spawn_more env plan now later fresh db' of (res, db'') \<Rightarrow> (and_then res (spawned plan), db''))))"

subsection \<open>Messages\<close>

datatype swarm_audience = AudienceAll | AudienceOf "string list"

record message_input =
  mi_requestId :: string
  mi_audience :: swarm_audience
  mi_text :: string
  mi_replyTo :: "string option"
  mi_notify :: "bool option"

definition canonicalAudience :: "swarm_audience \<Rightarrow> int \<Rightarrow> swarm_error + swarm_audience" where
  "canonicalAudience input mx =
     (case input of AudienceAll \<Rightarrow> Inr AudienceAll
      | AudienceOf ids \<Rightarrow>
          if int (length ids) > mx \<or> list_ex (\<lambda>i. trim i = [] \<or> length i > 128) ids then Inl (SwarmThrows ''invalid audience'')
          else Inr (AudienceOf (sort (uniq ids))))"

definition resolveAudience :: "swarm_audience \<Rightarrow> swarm_member list \<Rightarrow> swarm_error + string list" where
  "resolveAudience input eligible =
     (let ids = uniq (map sm_id eligible) in
      case input of AudienceAll \<Rightarrow> Inr (sort ids)
      | AudienceOf xs \<Rightarrow> if list_ex (\<lambda>i. i \<notin> set ids) xs then Inl (SwarmThrows ''invalid audience'') else Inr xs)"

definition audience_json :: "swarm_audience \<Rightarrow> json" where
  "audience_json a = (case a of AudienceAll \<Rightarrow> JStr ''all'' | AudienceOf ids \<Rightarrow> JArr (map JStr ids))"

definition message_json :: "message_input \<Rightarrow> json" where
  "message_json i =
     JObj ([(''requestId'', JStr (mi_requestId i)), (''audience'', audience_json (mi_audience i)), (''text'', JStr (mi_text i))] @
       optional_field ''replyTo'' (map_option JStr (mi_replyTo i)) @ optional_field ''notify'' (map_option JBool (mi_notify i)))"

definition eligible_members :: "swarm_env \<Rightarrow> swarm \<Rightarrow> swarm_member list" where
  "eligible_members env sw =
     filter (\<lambda>m. sm_state m = MemberReady \<and> truthy (sm_sessionId m) \<and>
       map_option sv_scopeId (sa_session (se_authority env) (the (sm_sessionId m))) = Some (sw_scopeId sw) \<and>
       rosterMatches (se_participants env (the (sm_sessionId m))) (sw_participants sw)) (sw_members sw)"

record send_plan =
  sd_auth :: swarm_auth
  sd_author :: swarm_author
  sd_key :: string
  sd_fingerprint :: string
  sd_audience :: "string list"
  sd_text :: string
  sd_replyTo :: "string option"
  sd_notify :: "bool option"

datatype send_begun = SendReplay swarm_message | SendPlan send_plan

definition find_message :: "string \<Rightarrow> swarm \<Rightarrow> swarm_message option" where
  "find_message i sw = List.find (\<lambda>g. sg_id g = i) (sw_messages sw)"

definition send_begin :: "swarm_env \<Rightarrow> swarm_caller \<Rightarrow> message_input \<Rightarrow> time \<Rightarrow> swarm_db \<Rightarrow> swarm_error + send_begun" where
  "send_begin env caller i now db =
     and_then (boundedText (mi_requestId i) 128 ''requestId'') (\<lambda>_.
     and_then (swarm_load env caller now db) (\<lambda>(auth, sw, _).
     and_then (boundedText (mi_text i) (ss_textBytes (sw_settings sw)) ''text'') (\<lambda>_.
     and_then (canonicalAudience (mi_audience i) (ss_agents (sw_settings sw))) (\<lambda>audience.
       let key = request_key env auth caller (mi_requestId i);
           fingerprint = swarm_signature (se_sha256 env) (message_json (i\<lparr>mi_audience := audience\<rparr>))
       in case map_of (sw_messageRequests sw) key of
            Some (msgId, sig) \<Rightarrow>
              if sig \<noteq> fingerprint then Inl reused_error
              else (case find_message msgId sw of None \<Rightarrow> Inl SwarmTypeError | Some g \<Rightarrow> Inr (SendReplay g))
          | None \<Rightarrow>
              and_then (resolveAudience audience (eligible_members env sw)) (\<lambda>ids.
              Inr (SendPlan \<lparr>sd_auth = auth, sd_author = caller_author caller, sd_key = key, sd_fingerprint = fingerprint, sd_audience = ids,
                             sd_text = mi_text i, sd_replyTo = mi_replyTo i, sd_notify = mi_notify i\<rparr>))))))"

definition recipients_of :: "send_plan \<Rightarrow> string list" where
  "recipients_of plan = (if sd_notify plan = Some False then [] else filter (\<lambda>p. p \<noteq> au_memberId (sd_auth plan)) (sd_audience plan))"

definition sent_message :: "send_plan \<Rightarrow> swarm \<Rightarrow> time \<Rightarrow> string \<Rightarrow> swarm_message" where
  "sent_message plan sw now i =
     \<lparr>sg_id = i, sg_seq = length (sw_messages sw) + 1, sg_senderId = au_memberId (sd_auth plan), sg_senderSessionId = au_sessionId (sd_auth plan),
      sg_author = sd_author plan, sg_actorId = au_actorId (sd_auth plan), sg_text = sd_text plan, sg_audience = sd_audience plan,
      sg_replyTo = (if truthy (sd_replyTo plan) then sd_replyTo plan else None), sg_createdAt = now,
      sg_notifications = pending_notes (recipients_of plan)\<rparr>"

definition append_message :: "send_plan \<Rightarrow> time \<Rightarrow> string \<Rightarrow> swarm \<Rightarrow> swarm_error + swarm" where
  "append_message plan now i sw =
     (case map_of (sw_messageRequests sw) (sd_key plan) of
        Some (_, sig) \<Rightarrow> if sig \<noteq> sd_fingerprint plan then Inl reused_error else Inr sw
      | None \<Rightarrow>
          and_then (assertSwarmOpen now sw) (\<lambda>_.
          if int (length (sw_messages sw)) \<ge> ss_messages (sw_settings sw) then Inl (SwarmThrows ''swarm message budget exhausted'')
          else if truthy (sd_replyTo plan) \<and> \<not> list_ex (\<lambda>g. Some (sg_id g) = sd_replyTo plan) (sw_messages sw)
          then Inl (SwarmThrows ''reply target is not in this swarm'')
          else if int (sw_notificationCount sw) + int (length (recipients_of plan)) > ss_notifications (sw_settings sw)
          then Inl (SwarmThrows ''swarm notification budget exhausted'')
          else Inr (sw\<lparr>sw_notificationCount := sw_notificationCount sw + length (recipients_of plan),
                       sw_messages := sw_messages sw @ [sent_message plan sw now i],
                       sw_messageRequests := AList.update (sd_key plan) (i, sd_fingerprint plan) (sw_messageRequests sw)\<rparr>)))"

definition send_commit :: "swarm_env \<Rightarrow> send_plan \<Rightarrow> time \<Rightarrow> time \<Rightarrow> string \<Rightarrow> swarm_db \<Rightarrow> (swarm_error + swarm) \<times> swarm_db" where
  "send_commit env plan now later i db =
     sw_update (Some (se_authority env)) now later (au_rootId (sd_auth plan)) (append_message plan now i) (au_fence (sd_auth plan)) db"

definition sent :: "send_plan \<Rightarrow> swarm \<Rightarrow> swarm_error + swarm_message" where
  "sent plan sw =
     (case map_of (sw_messageRequests sw) (sd_key plan) of None \<Rightarrow> Inl SwarmTypeError
      | Some (msgId, _) \<Rightarrow> (case find_message msgId sw of None \<Rightarrow> Inl SwarmTypeError | Some g \<Rightarrow> Inr g))"

definition swarm_send ::
  "swarm_env \<Rightarrow> swarm_caller \<Rightarrow> message_input \<Rightarrow> time \<Rightarrow> time \<Rightarrow> string \<Rightarrow> swarm_db \<Rightarrow> (swarm_error + swarm_message) \<times> swarm_db" where
  "swarm_send env caller i now later msgId db =
     (case send_begin env caller i now db of
        Inl e \<Rightarrow> (Inl e, db)
      | Inr (SendReplay g) \<Rightarrow> (Inr g, db)
      | Inr (SendPlan plan) \<Rightarrow> (case send_commit env plan now later msgId db of (res, db') \<Rightarrow> (and_then res (sent plan), db')))"

subsection \<open>Contexts and reading\<close>

text \<open>The first member or message with an identifier is changed in place; a missing one is a property of \<open>undefined\<close>.\<close>

fun update_first :: "('a \<Rightarrow> bool) \<Rightarrow> ('a \<Rightarrow> 'a) \<Rightarrow> 'a list \<Rightarrow> 'a list" where
  "update_first P f [] = []"
| "update_first P f (x # xs) = (if P x then f x # xs else x # update_first P f xs)"

definition change_member :: "string \<Rightarrow> (swarm_member \<Rightarrow> swarm_member) \<Rightarrow> swarm \<Rightarrow> swarm_error + swarm" where
  "change_member i f sw =
     (case find_member i sw of None \<Rightarrow> Inl SwarmTypeError
      | Some _ \<Rightarrow> Inr (sw\<lparr>sw_members := update_first (\<lambda>m. sm_id m = i) f (sw_members sw)\<rparr>))"

definition context_commit ::
  "swarm_env \<Rightarrow> swarm_auth \<Rightarrow> json \<Rightarrow> time \<Rightarrow> time \<Rightarrow> swarm_db \<Rightarrow> (swarm_error + swarm) \<times> swarm_db" where
  "context_commit env auth v now later db =
     sw_update (Some (se_authority env)) now later (au_rootId auth)
       (\<lambda>sw. and_then (assertSwarmOpen now sw) (\<lambda>_. change_member (au_memberId auth) (sm_context_update (\<lambda>_. v)) sw)) (au_fence auth) db"

definition swarm_context ::
  "swarm_env \<Rightarrow> swarm_caller \<Rightarrow> json \<Rightarrow> time \<Rightarrow> time \<Rightarrow> swarm_db \<Rightarrow> (swarm_error + swarm_member) \<times> swarm_db" where
  "swarm_context env caller context now later db =
     (case and_then (swarm_load env caller now db) (\<lambda>(auth, sw, _).
             and_then (jsonContext context (ss_contextBytes (sw_settings sw))) (\<lambda>v. Inr (auth, v))) of
        Inl e \<Rightarrow> (Inl e, db)
      | Inr (auth, v) \<Rightarrow>
          (case context_commit env auth v now later db of
             (res, db') \<Rightarrow> (and_then res (\<lambda>sw. case find_member (au_memberId auth) sw of None \<Rightarrow> Inl SwarmTypeError | Some m \<Rightarrow> Inr (member_view m)), db')))"

definition inspect ::
  "swarm_env \<Rightarrow> swarm_caller \<Rightarrow> time \<Rightarrow> swarm_db \<Rightarrow> swarm_error + (string \<times> swarm_member \<times> swarm_member list \<times> string \<times> swarm_settings \<times> time)" where
  "inspect env caller now db =
     and_then (swarm_load env caller now db) (\<lambda>(_, sw, self).
       Inr (sw_id sw, member_view self, map member_view (sw_members sw), sw_backend sw, sw_settings sw, sw_expiresAt sw))"

text \<open>One round of \<open>read\<close>; while it finds nothing the call waits and reads again until its deadline.\<close>

definition read_page :: "nat \<Rightarrow> string option \<Rightarrow> swarm \<Rightarrow> swarm_message list" where
  "read_page after replyTo sw =
     take 32 (filter (\<lambda>g. sg_seq g > after \<and> (\<not> truthy replyTo \<or> sg_replyTo g = replyTo)) (sw_messages sw))"

definition read_round ::
  "swarm_env \<Rightarrow> swarm_caller \<Rightarrow> int \<Rightarrow> string option \<Rightarrow> int \<Rightarrow> time \<Rightarrow> swarm_db \<Rightarrow> swarm_error + swarm_message list" where
  "read_round env caller after replyTo waitMs now db =
     and_then (swarm_load env caller now db) (\<lambda>(_, sw, _).
       if waitMs < 0 \<or> waitMs > ss_waitMs (sw_settings sw) \<or> after < 0 then Inl (SwarmThrows ''invalid read bounds'')
       else Inr (read_page (nat after) replyTo sw))"

subsection \<open>Delivery of messages\<close>

definition dispatch_text :: "swarm_message \<Rightarrow> string" where
  "dispatch_text g =
     ''Swarm '' @ author_name (sg_author g) @ '' message '' @ sg_id g @ '' from agent '' @ sg_senderId g @ '' (session '' @ sg_senderSessionId g @ '')'' @
     (if truthy (sg_replyTo g) then '' (reply to '' @ the (sg_replyTo g) @ '')'' else []) @
     ''. This is not a live human instruction.'' @ [CHR 0x0A] @ sg_text g"

definition dispatchRequest :: "swarm \<Rightarrow> swarm_message \<Rightarrow> swarm_member \<Rightarrow> swarm_input" where
  "dispatchRequest sw g recipient =
     (sw_template sw)\<lparr>oi_conversation := (oi_conversation (sw_template sw))\<lparr>c_threadRef := sm_threadRef recipient\<rparr>,
        oi_origin := Some (AutomationOrigin (Some (sg_text g)) None None), oi_text := dispatch_text g, oi_swarm := True,
        si_turn := Some \<lparr>st_swarmId = sw_id sw, st_messageId = sg_id g, st_recipientId = sm_id recipient\<rparr>,
        si_sessionParticipantIds := Some (sw_participants sw)\<rparr>"

definition swarm_dedupKey :: "string \<Rightarrow> string \<Rightarrow> string" where
  "swarm_dedupKey messageId recipientId = ''swarm:'' @ messageId @ '':'' @ recipientId"

definition dispatch_job :: "swarm \<Rightarrow> swarm_message \<Rightarrow> swarm_member \<Rightarrow> enqueue_input" where
  "dispatch_job sw g recipient =
     \<lparr>ei_sessionId = sm_threadRef recipient, ei_request = orchestrator_input.truncate (dispatchRequest sw g recipient),
      ei_dedupKey = Some (swarm_dedupKey (sg_id g) (sm_id recipient)), ei_maxAttempts = Some 2\<rparr>"

text \<open>What \<open>deliver\<close> does for one notification of the swarm it read.\<close>

datatype delivery_choice = DeliverSkip | DeliverFail | DeliverQueue swarm_member

definition deliver_choice :: "swarm \<Rightarrow> time \<Rightarrow> string \<Rightarrow> swarm_notification \<Rightarrow> delivery_choice" where
  "deliver_choice sw now recipientId n =
     (if sn_state n \<noteq> NotePending then DeliverSkip
      else case find_member recipientId sw of
        None \<Rightarrow> DeliverSkip
      | Some r \<Rightarrow>
          if sm_state r = MemberReserved then DeliverSkip
          else if sm_state r = MemberFailed \<or> now \<ge> sw_expiresAt sw then DeliverFail
          else DeliverQueue r)"

definition change_message :: "string \<Rightarrow> (swarm_message \<Rightarrow> swarm_message) \<Rightarrow> swarm \<Rightarrow> swarm_error + swarm" where
  "change_message i f sw =
     (case find_message i sw of None \<Rightarrow> Inl SwarmTypeError
      | Some _ \<Rightarrow> Inr (sw\<lparr>sw_messages := update_first (\<lambda>g. sg_id g = i) f (sw_messages sw)\<rparr>))"

definition settle_note :: "string \<Rightarrow> string \<Rightarrow> swarm_notification \<Rightarrow> swarm \<Rightarrow> swarm_error + swarm" where
  "settle_note messageId recipientId n sw =
     change_message messageId (\<lambda>g. g\<lparr>sg_notifications := AList.update recipientId n (sg_notifications g)\<rparr>) sw"

definition note_update :: "string \<Rightarrow> string \<Rightarrow> string \<Rightarrow> swarm_notification \<Rightarrow> swarm_db \<Rightarrow> (swarm_error + swarm) \<times> swarm_db" where
  "note_update rootId messageId recipientId n db = sw_update None 0 0 rootId (settle_note messageId recipientId n) None db"

text \<open>One notification with the Postgres queue, then all of them in order; \<open>newId\<close> names a run that is queued for the first time. An
  error of a write ends the delivery.\<close>

definition deliver_note ::
  "swarm \<Rightarrow> time \<Rightarrow> (string \<Rightarrow> string) \<Rightarrow> swarm_message \<Rightarrow> string \<times> swarm_notification \<Rightarrow> swarm_db \<times> run_db \<Rightarrow> swarm_error option \<times> swarm_db \<times> run_db" where
  "deliver_note sw now newId g entry dbs =
     (case entry of (recipientId, n) \<Rightarrow> case dbs of (db, runs) \<Rightarrow>
      case deliver_choice sw now recipientId n of
        DeliverSkip \<Rightarrow> (None, db, runs)
      | DeliverFail \<Rightarrow>
          (case note_update (sw_id sw) (sg_id g) recipientId \<lparr>sn_state = NoteFailed, sn_runId = None\<rparr> db of
             (res, db') \<Rightarrow> (case res of Inl e \<Rightarrow> Some e | Inr _ \<Rightarrow> None, db', runs))
      | DeliverQueue r \<Rightarrow>
          (case pg_enqueue (dispatch_job sw g r) (newId (swarm_dedupKey (sg_id g) recipientId)) now [\<lambda>d. d] runs of
             (None, runs') \<Rightarrow> (None, db, runs')
           | (Some (run, _), runs') \<Rightarrow>
               (case note_update (sw_id sw) (sg_id g) recipientId \<lparr>sn_state = NoteQueued, sn_runId = Some (run_id run)\<rparr> db of
                  (res, db') \<Rightarrow> (case res of Inl e \<Rightarrow> Some e | Inr _ \<Rightarrow> None, db', runs'))))"

fun deliver_all ::
  "swarm \<Rightarrow> time \<Rightarrow> (string \<Rightarrow> string) \<Rightarrow> (swarm_message \<times> string \<times> swarm_notification) list \<Rightarrow> swarm_db \<times> run_db \<Rightarrow> swarm_error option \<times> swarm_db \<times> run_db" where
  "deliver_all sw now newId [] dbs = (None, dbs)"
| "deliver_all sw now newId ((g, entry) # rest) dbs =
     (case deliver_note sw now newId g entry dbs of (Some e, dbs') \<Rightarrow> (Some e, dbs') | (None, dbs') \<Rightarrow> deliver_all sw now newId rest dbs')"

definition swarm_deliver :: "swarm \<Rightarrow> time \<Rightarrow> (string \<Rightarrow> string) \<Rightarrow> swarm_db \<times> run_db \<Rightarrow> swarm_error option \<times> swarm_db \<times> run_db" where
  "swarm_deliver sw now newId dbs =
     deliver_all sw now newId (concat (map (\<lambda>g. map (Pair g) (sg_notifications g)) (sw_messages sw))) dbs"

subsection \<open>Provisioning of members\<close>

text \<open>The writes of the resource phase. What the sandboxes and sessions answer for a member is a parameter: an error with the note whether
  provisioning ran into its time limit, or the session.\<close>

definition start_attempt :: "string \<Rightarrow> string \<Rightarrow> swarm_db \<Rightarrow> (swarm_error + swarm) \<times> swarm_db" where
  "start_attempt rootId memberId db = sw_update None 0 0 rootId (change_member memberId (\<lambda>m. m\<lparr>sm_attempts := sm_attempts m + 1\<rparr>)) None db"

definition mark_ready :: "string \<Rightarrow> string \<Rightarrow> string \<Rightarrow> time \<Rightarrow> time \<Rightarrow> swarm_db \<Rightarrow> (swarm_error + swarm) \<times> swarm_db" where
  "mark_ready rootId memberId sessionId deadline now db =
     sw_update None 0 0 rootId (\<lambda>sw.
       if now \<ge> deadline then Inl (SwarmThrows ''swarm reconciliation deadline exceeded'')
       else and_then (assertSwarmOpen now sw) (\<lambda>_. change_member memberId (\<lambda>m. m\<lparr>sm_state := MemberReady, sm_sessionId := Some sessionId\<rparr>) sw)) None db"

definition failed_member :: "string \<Rightarrow> bool \<Rightarrow> swarm_member \<Rightarrow> swarm_member" where
  "failed_member msg ends m =
     (if ends then m\<lparr>sm_error := Some (take 500 msg), sm_state := MemberFailed, sm_cleanupPending := Some True\<rparr> else m\<lparr>sm_error := Some (take 500 msg)\<rparr>)"

definition mark_failed :: "string \<Rightarrow> string \<Rightarrow> string \<Rightarrow> bool \<Rightarrow> time \<Rightarrow> time \<Rightarrow> swarm_db \<Rightarrow> (swarm_error + swarm) \<times> swarm_db" where
  "mark_failed rootId memberId msg timedOut deadline now db =
     sw_update None 0 0 rootId (\<lambda>sw.
       case find_member memberId sw of
         None \<Rightarrow> Inl SwarmTypeError
       | Some m \<Rightarrow>
           if sm_state m \<noteq> MemberReserved then Inr sw
           else change_member memberId (failed_member msg (timedOut \<or> now \<ge> deadline \<or> sm_attempts m \<ge> 3 \<or> now \<ge> sw_expiresAt sw)) sw) None db"

datatype provision_result = ProvisionFails string bool | ProvisionSession string

definition error_text :: "swarm_error \<Rightarrow> string" where
  "error_text e = (case e of SwarmThrows m \<Rightarrow> m | SwarmNonRetryable m \<Rightarrow> m | SwarmTypeError \<Rightarrow> ''Cannot read properties of undefined'')"

definition provision_member ::
  "swarm_env \<Rightarrow> provision_result \<Rightarrow> time \<Rightarrow> time \<Rightarrow> time \<Rightarrow> swarm \<Rightarrow> swarm_member \<Rightarrow> swarm_db \<Rightarrow> (string \<times> bool) option \<times> swarm_db" where
  "provision_member env answer deadline now later sw member db =
     (case assertSwarmOpen now sw of
        Inl e \<Rightarrow> (Some (error_text e, False), db)
      | Inr _ \<Rightarrow>
          (case start_attempt (sw_id sw) (sm_id member) db of
             (Inl e, db1) \<Rightarrow> (Some (error_text e, False), db1)
           | (Inr _, db1) \<Rightarrow>
               if \<not> truthy (sm_sandboxId member) then (Some (''missing sandbox reservation'', False), db1)
               else
                 (case (if truthy (sm_forumSandboxId member)
                        then and_then (se_forumScope env (sw_ownerId sw) (the (sm_forumSandboxId member))) (\<lambda>owner.
                               if owner \<noteq> sw_scopeId sw then Inl (SwarmThrows ''forum scope mismatch'') else Inr ())
                        else Inr ()) of
                    Inl e \<Rightarrow> (Some (error_text e, False), db1)
                  | Inr _ \<Rightarrow>
                      (case answer of
                         ProvisionFails msg timedOut \<Rightarrow> (Some (msg, timedOut), db1)
                       | ProvisionSession s \<Rightarrow>
                           (case mark_ready (sw_id sw) (sm_id member) s deadline later db1 of
                              (Inl e, db2) \<Rightarrow> (Some (error_text e, False), db2)
                            | (Inr _, db2) \<Rightarrow> (None, db2))))))"

definition reconcile_member ::
  "swarm_env \<Rightarrow> provision_result \<Rightarrow> time \<Rightarrow> time \<Rightarrow> time \<Rightarrow> swarm \<Rightarrow> swarm_member \<Rightarrow> swarm_db \<Rightarrow> (swarm_error + swarm) option \<times> swarm_db" where
  "reconcile_member env answer deadline now later sw member db =
     (case provision_member env answer deadline now later sw member db of
        (None, db1) \<Rightarrow> (None, db1)
      | (Some (msg, timedOut), db1) \<Rightarrow> (case mark_failed (sw_id sw) (sm_id member) msg timedOut deadline later db1 of (res, db2) \<Rightarrow> (Some res, db2)))"

text \<open>The cleanup of a failed member is done once its session, if any, was empty and deleted and its sandbox retired.\<close>

definition cleanup_done :: "string \<Rightarrow> string \<Rightarrow> swarm_db \<Rightarrow> (swarm_error + swarm) \<times> swarm_db" where
  "cleanup_done rootId memberId db = sw_update None 0 0 rootId (change_member memberId (\<lambda>m. m\<lparr>sm_cleanupPending := Some False\<rparr>)) None db"

subsection \<open>Turns of a swarm\<close>

text \<open>The properties of a request that its message fixes. Two requests have the same canonical text of these exactly when the properties agree, where
  free JSON values are compared by their canonical text.\<close>

record dispatch_contract =
  dc_actor :: principal
  dc_conversation :: conversation
  dc_origin :: "turn_origin option"
  dc_surface :: "string option"
  dc_text :: string
  dc_scopeVersion :: "string option"
  dc_unattendedGrants :: "string option"
  dc_readOnly :: "bool option"
  dc_skipMemory :: "bool option"
  dc_harness :: "string option"
  dc_model :: "string option"
  dc_thinkingLevel :: "string option"
  dc_fastMode :: "bool option"
  dc_turnWallClockMs :: "int option"
  dc_swarm :: "swarm_turn option"
  dc_sessionParticipantIds :: "string list option"

definition canonical :: "json option \<Rightarrow> string option" where
  "canonical v = map_option (\<lambda>j. canonicalJson (Some j)) v"

definition dispatchContract :: "swarm_input \<Rightarrow> dispatch_contract" where
  "dispatchContract i =
     \<lparr>dc_actor = oi_actor i, dc_conversation = oi_conversation i, dc_origin = oi_origin i, dc_surface = oi_surface i, dc_text = oi_text i,
      dc_scopeVersion = si_scopeVersion i, dc_unattendedGrants = canonical (si_unattendedGrants i), dc_readOnly = si_readOnly i,
      dc_skipMemory = si_skipMemory i, dc_harness = si_harness i, dc_model = canonical (si_model i),
      dc_thinkingLevel = canonical (si_thinkingLevel i), dc_fastMode = si_fastMode i, dc_turnWallClockMs = si_turnWallClockMs i,
      dc_swarm = si_turn i, dc_sessionParticipantIds = si_sessionParticipantIds i\<rparr>"

text \<open>The properties of the request outside its contract; those of the execution are allowed.\<close>

definition present_keys :: "swarm_input \<Rightarrow> string list" where
  "present_keys i =
     (if oi_displayText i = None then [] else [''displayText'']) @ (if oi_deliveryTarget i = None then [] else [''deliveryTarget'']) @
     (if oi_privateSessionMessage i then [''privateSessionMessage''] else []) @ si_otherKeys i"

definition execution_keys :: "string list" where
  "execution_keys = [''runId'', ''runLeaseToken'', ''attempt'', ''finalAttempt'', ''background'', ''cancel'', ''queueMs'', ''runStartedAt'']"

definition matchesDispatch :: "swarm_input \<Rightarrow> swarm_input \<Rightarrow> bool" where
  "matchesDispatch i expected \<longleftrightarrow> list_all (\<lambda>k. k \<in> set execution_keys) (present_keys i) \<and> dispatchContract i = dispatchContract expected"

definition forged :: "swarm_env \<Rightarrow> swarm_input \<Rightarrow> swarm_turn \<Rightarrow> swarm \<Rightarrow> swarm_member \<Rightarrow> bool" where
  "forged env i turn sw member \<longleftrightarrow>
     (case find_message (st_messageId turn) sw of
        None \<Rightarrow> True
      | Some g \<Rightarrow>
          (case se_byDedupKey env (swarm_dedupKey (sg_id g) (sm_id member)) of
             None \<Rightarrow> True
           | Some dedup \<Rightarrow>
               st_swarmId turn \<noteq> sw_id sw \<or> st_recipientId turn \<noteq> sm_id member \<or> sm_id member \<notin> set (sg_audience g) \<or>
               Some (run_id dedup) \<noteq> si_runId i \<or>
               (case oi_origin i of Some (AutomationOrigin _ _ useOwnerKeychain) \<Rightarrow> useOwnerKeychain = Some True | _ \<Rightarrow> True) \<or>
               p_id (oi_actor i) \<noteq> sw_ownerId sw \<or> oi_surface i \<noteq> Some ''swarm'' \<or> truthy (oi_deliveryTarget i) \<or>
               ''surfaceTools'' \<in> set (si_otherKeys i) \<or> \<not> matchesDispatch i (dispatchRequest sw g member)))"

record swarm_binding =
  sb_sandboxId :: "string option"
  sb_rootSessionId :: string
  sb_member :: swarm_member

definition binding_of :: "swarm \<Rightarrow> swarm_member \<Rightarrow> swarm_binding" where
  "binding_of sw member = \<lparr>sb_sandboxId = sm_sandboxId member, sb_rootSessionId = sw_id sw, sb_member = member\<rparr>"

definition still_authorized :: "swarm_env \<Rightarrow> swarm_input \<Rightarrow> session_view \<Rightarrow> swarm \<Rightarrow> bool" where
  "still_authorized env i session sw \<longleftrightarrow>
     rosterMatches (se_participants env (sw_id sw)) (sw_participants sw) \<and> rosterMatches (se_participants env (sv_id session)) (sw_participants sw) \<and>
     p_id (oi_actor i) \<in> set (sw_participants sw) \<and> conversationScope (oi_conversation i) (p_id (oi_actor i)) = sw_scopeId sw \<and>
     se_authorize env (p_id (oi_actor i)) (sw_scopeId sw) (si_scopeVersion (sw_template sw)) (Some (c_audience (oi_conversation i)))"

definition person_may_enter :: "swarm_env \<Rightarrow> swarm_input \<Rightarrow> session_view \<Rightarrow> bool" where
  "person_may_enter env i session \<longleftrightarrow>
     p_id (oi_actor i) \<in> set (se_participants env (sv_id session)) \<and>
     conversationScope (oi_conversation i) (p_id (oi_actor i)) = sv_scopeId session \<and>
     se_authorize env (p_id (oi_actor i)) (sv_scopeId session) (si_scopeVersion i) (Some (c_audience (oi_conversation i)))"

definition binding :: "swarm_env \<Rightarrow> swarm_input \<Rightarrow> time \<Rightarrow> swarm_db \<Rightarrow> swarm_error + swarm_binding option" where
  "binding env i now db =
     (let threadRef = c_threadRef (oi_conversation i) in
      case se_byThread env threadRef of
        None \<Rightarrow> if si_turn i \<noteq> None \<or> starts_with ''swarm:'' threadRef then Inl (SwarmNonRetryable ''unknown swarm session'') else Inr None
      | Some session \<Rightarrow>
          and_then (threadIdentity (sv_threadRef session) (sv_id session)) (\<lambda>(rootId, memberId).
          if si_turn i = None \<and> rootId = sv_id session then Inr None
          else case map_of db rootId of
            None \<Rightarrow> if si_turn i \<noteq> None \<or> starts_with ''swarm:'' (sv_threadRef session) then Inl (SwarmNonRetryable ''unknown swarm'') else Inr None
          | Some sw \<Rightarrow>
              (case find_member memberId sw of
                 None \<Rightarrow> Inl (SwarmNonRetryable ''invalid swarm membership'')
               | Some member \<Rightarrow>
                   if sm_state member \<noteq> MemberReady \<or> sm_sessionId member \<noteq> Some (sv_id session) \<or> sv_scopeId session \<noteq> sw_scopeId sw
                   then Inl (SwarmNonRetryable ''invalid swarm membership'')
                   else case si_turn i of
                     None \<Rightarrow> if person_may_enter env i session then Inr (Some (binding_of sw member)) else Inl (SwarmNonRetryable ''swarm session access denied'')
                   | Some turn \<Rightarrow>
                       and_then (assertSwarmOpen now sw) (\<lambda>_.
                       if forged env i turn sw member then Inl (SwarmNonRetryable ''forged swarm provenance'')
                       else if \<not> still_authorized env i session sw then Inl (SwarmNonRetryable ''swarm authorization changed'')
                       else Inr (Some (binding_of sw member))))))"

end
