(* ===== verification/Swarms.thy ===== *)
theory Swarms
  imports Swarm_Service "HOL-Library.Sublist"
begin

text \<open>
  The writes to swarms as a relation over histories of the table: a call may act on what it read in any earlier state. In every
  reachable state the budgets of a swarm hold, requests are recorded once, and a swarm only grows. Writes of agents need the
  lease of their run, and a turn is accepted as a turn of a swarm only for a message of that swarm.
\<close>

subsection \<open>Thread references\<close>

lemma uri_hex_digit_upper: "n < 16 \<Longrightarrow> uri_hex_digit (hex_upper n) = Some n"
  by (auto simp: uri_hex_digit_def hex_upper_def Let_def)

lemma half_byte: "(of_char c :: nat) div 16 < 16"
proof -
  have "(of_char c :: nat) < 256" by simp
  then show ?thesis by presburger
qed

lemma percent_not_plain: "\<not> uri_plain (CHR ''%'')"
  by (simp add: uri_plain_def)

lemma decode_uri_char: "decodeURIComponent (uri_char c @ s) = map_option (Cons c) (decodeURIComponent s)"
proof (cases "uri_plain c")
  case True
  then have "c \<noteq> CHR ''%''" using percent_not_plain by auto
  with True show ?thesis by (simp add: uri_char_def)
next
  case False
  have "uri_hex_digit (hex_upper (of_char c div 16)) = Some (of_char c div 16)" "uri_hex_digit (hex_upper (of_char c mod 16)) = Some (of_char c mod 16)"
    using half_byte [of c] by (simp_all add: uri_hex_digit_upper)
  with False show ?thesis by (simp add: uri_char_def)
qed

lemma decode_encode: "decodeURIComponent (encodeURIComponent s) = Some s"
  by (induction s) (simp_all add: encodeURIComponent_def decode_uri_char)

lemma hex_upper_not_colon: "n < 16 \<Longrightarrow> hex_upper n \<noteq> CHR '':''"
  by (auto simp: hex_upper_def dest: arg_cong [where f = "of_char :: char \<Rightarrow> nat"])

lemma colon_not_in_uri_char: "CHR '':'' \<notin> set (uri_char c)"
proof -
  have "hex_upper (of_char c div 16) \<noteq> CHR '':''" "hex_upper (of_char c mod 16) \<noteq> CHR '':''"
    using half_byte [of c] by (simp_all add: hex_upper_not_colon)
  moreover have "\<not> uri_plain (CHR '':'')" by (simp add: uri_plain_def)
  ultimately show ?thesis by (auto simp: uri_char_def)
qed

lemma colon_not_in_encoded: "CHR '':'' \<notin> set (encodeURIComponent s)"
  using colon_not_in_uri_char by (auto simp: encodeURIComponent_def)

lemma split_on_no_sep: "sep \<notin> set s \<Longrightarrow> split_on sep s = [s]"
  by (induction s) auto

lemma split_at_separator: "sep \<notin> set s \<Longrightarrow> split_on sep (s @ sep # t) = s # split_on sep t"
  by (induction s) auto

lemma encoded_nonempty: "s \<noteq> [] \<Longrightarrow> encodeURIComponent s \<noteq> []"
  by (cases s) (auto simp: encodeURIComponent_def uri_char_def)

text \<open>The thread of a member leads back to it. Whatever the identifier of the root session, the thread reference that a spawn builds for a new member
  is read as that root and that member, when the identifier of the member is not empty and has no colon.\<close>

lemma thread_identity_roundtrip:
  assumes "sw_id sw \<noteq> []" "i \<noteq> []" "CHR '':'' \<notin> set i"
  shows "threadIdentity (sm_threadRef (new_member plan sw parent i context)) sessionId = Inr (sw_id sw, i)"
proof -
  have "split_on (CHR '':'') (''swarm:'' @ encodeURIComponent (sw_id sw) @ '':'' @ i) = [''swarm'', encodeURIComponent (sw_id sw), i]"
    using split_at_separator [of "CHR '':''" "encodeURIComponent (sw_id sw)" i] colon_not_in_encoded split_on_no_sep [OF assms(3)]
    by simp
  with assms(1,2) encoded_nonempty [of "sw_id sw"] show ?thesis
    by (simp add: threadIdentity_def new_member_def starts_with_def decode_encode)
qed

subsection \<open>What a write does\<close>

lemma write_row_cases:
  assumes "write_row i res db = (res', db')"
  shows "res' = res \<and> (case res of Inl e \<Rightarrow> db' = db | Inr sw \<Rightarrow> db' = AList.update i sw db)"
  using assms by (auto simp: write_row_def split: sum.splits)

lemma assertSwarmRun_Inr: "assertSwarmRun fence now r = Inr u \<longleftrightarrow> (\<exists>run. r = Some run \<and> live_run fence now run)"
  by (auto simp: assertSwarmRun_def split: option.splits if_splits)

definition fence_holds :: "swarm_authority option \<Rightarrow> time \<Rightarrow> swarm_fence option \<Rightarrow> bool" where
  "fence_holds asks later fence \<longleftrightarrow>
     (case fence of None \<Rightarrow> True
      | Some f \<Rightarrow> \<exists>a r. asks = Some a \<and> sa_run a (sf_runId f) = Some r \<and> live_run f later r \<and> session_matches a f)"

lemma fencedWrite_Inr:
  assumes "fencedWrite asks now later i mutate f db = Inr sw"
  shows "mutate (map_of db i) = Inr sw \<and> fence_holds asks later (Some f)"
  using assms
  by (auto simp: fencedWrite_def fence_holds_def Let_def and_then_Inr assertSwarmRun_Inr split: option.splits if_splits)

lemma sw_update_cases:
  assumes "sw_update asks now later i mutate fence db = (res, db')"
  obtains (refused) e where "res = Inl e" "db' = db"
  | (written) sw sw' where "map_of db i = Some sw" "mutate sw = Inr sw'" "res = Inr (sw'\<lparr>sw_pending := has_pending sw'\<rparr>)"
      "db' = AList.update i (sw'\<lparr>sw_pending := has_pending sw'\<rparr>) db" "fence_holds asks later fence"
proof (cases res)
  case (Inl e)
  with assms have "db' = db" by (auto simp: sw_update_def write_row_def split: sum.splits)
  with Inl show ?thesis using refused by blast
next
  case (Inr new)
  have new: "(case fence of Some f \<Rightarrow> fencedWrite asks now later i (sw_apply mutate) f db | None \<Rightarrow> sw_apply mutate (map_of db i)) = Inr new"
    and db': "db' = AList.update i new db"
    using assms Inr by (auto simp: sw_update_def write_row_def split: sum.splits)
  have "sw_apply mutate (map_of db i) = Inr new \<and> fence_holds asks later fence"
    using new fencedWrite_Inr by (cases fence) (auto simp: fence_holds_def)
  with db' Inr show ?thesis using written by (auto simp: sw_apply_def and_then_Inr split: option.splits)
qed

lemma sw_create_cases:
  assumes "sw_create asks now later sw fence db = (res, db')"
  obtains (kept_all) e where "res = Inl e" "db' = db"
  | (present) c where "map_of db (sw_id sw) = Some c" "res = Inr c" "db' = AList.update (sw_id sw) c db" "fence_holds asks later fence"
  | (created) "map_of db (sw_id sw) = None" "res = Inr sw" "db' = AList.update (sw_id sw) sw db" "fence_holds asks later fence"
proof (cases res)
  case (Inl e)
  with assms have "db' = db" by (auto simp: sw_create_def write_row_def Let_def split: sum.splits option.splits)
  with Inl show ?thesis using kept_all by blast
next
  case (Inr new)
  let ?create = "\<lambda>current. case current of Some c \<Rightarrow> Inr c | None \<Rightarrow> and_then (assertSwarmOpen now sw) (\<lambda>_. Inr sw)"
  have db': "db' = AList.update (sw_id sw) new db"
    using assms Inr by (auto simp: sw_create_def write_row_def Let_def split: sum.splits option.splits)
  have "fence_holds asks later fence \<and> (case map_of db (sw_id sw) of Some c \<Rightarrow> new = c | None \<Rightarrow> new = sw)"
  proof (cases fence)
    case None
    with assms Inr show ?thesis
      by (auto simp: sw_create_def write_row_def Let_def fence_holds_def and_then_Inr split: sum.splits option.splits)
  next
    case (Some f)
    with assms Inr have "fencedWrite asks now later (sw_id sw) ?create f db = Inr new"
      by (auto simp: sw_create_def write_row_def Let_def split: sum.splits)
    then have "?create (map_of db (sw_id sw)) = Inr new" "fence_holds asks later (Some f)" using fencedWrite_Inr by blast+
    with Some show ?thesis by (auto simp: and_then_Inr split: option.splits)
  qed
  with db' Inr show ?thesis using present created by (auto split: option.splits)
qed

subsection \<open>Settings\<close>

definition settings_ok :: "swarm_settings \<Rightarrow> bool" where
  "settings_ok s \<longleftrightarrow> list_all2 (\<lambda>(_, v) (_, mx). 1 \<le> v \<and> v \<le> mx) (setting_entries s) (setting_entries SWARM_MAXIMUMS) \<and> 2 \<le> ss_agents s"

lemma valid_setting_bounds:
  "valid_setting defaults kvs k = Some i \<Longrightarrow> 1 \<le> i \<and> i \<le> the (map_of (setting_entries SWARM_MAXIMUMS) k)"
  by (auto simp: valid_setting_def split: json.splits if_splits)

lemma resolved_settings_ok:
  assumes "resolveSwarmSettings input defaults = Inr s"
  shows "settings_ok s"
proof -
  obtain kvs where valid: "\<forall>k \<in> set (map fst (setting_entries SWARM_DEFAULTS)). valid_setting defaults kvs k \<noteq> None"
    and s: "s = \<lparr>ss_agents = the (valid_setting defaults kvs ''agents''), ss_depth = the (valid_setting defaults kvs ''depth''),
      ss_messages = the (valid_setting defaults kvs ''messages''), ss_notifications = the (valid_setting defaults kvs ''notifications''),
      ss_spawnRequests = the (valid_setting defaults kvs ''spawnRequests''), ss_contextBytes = the (valid_setting defaults kvs ''contextBytes''),
      ss_textBytes = the (valid_setting defaults kvs ''textBytes''), ss_waitMs = the (valid_setting defaults kvs ''waitMs''),
      ss_turnMs = the (valid_setting defaults kvs ''turnMs''), ss_lifetimeMs = the (valid_setting defaults kvs ''lifetimeMs'')\<rparr>"
    and two: "2 \<le> ss_agents s"
    using assms unfolding resolveSwarmSettings_def
    by (auto simp: Let_def find_None_iff split: json.splits option.splits if_splits)
  have "1 \<le> the (valid_setting defaults kvs k) \<and> the (valid_setting defaults kvs k) \<le> the (map_of (setting_entries SWARM_MAXIMUMS) k)"
    if "k \<in> set (map fst (setting_entries SWARM_DEFAULTS))" for k
    using valid that valid_setting_bounds [of defaults kvs k] by fastforce
  note bounds = this [unfolded setting_entries_def SWARM_DEFAULTS_def SWARM_MAXIMUMS_def, simplified]
  have "list_all2 (\<lambda>(_, v) (_, mx). 1 \<le> v \<and> v \<le> mx) (setting_entries s) (setting_entries SWARM_MAXIMUMS)"
    unfolding setting_entries_def SWARM_MAXIMUMS_def s
    using bounds [of "''agents''"] bounds [of "''depth''"] bounds [of "''messages''"] bounds [of "''notifications''"] bounds [of "''spawnRequests''"]
      bounds [of "''contextBytes''"] bounds [of "''textBytes''"] bounds [of "''waitMs''"] bounds [of "''turnMs''"] bounds [of "''lifetimeMs''"]
    by simp
  with two show ?thesis by (simp add: settings_ok_def)
qed

lemma settings_ok_maxima:
  assumes "settings_ok s"
  shows "2 \<le> ss_agents s" "ss_agents s \<le> 64" "ss_depth s \<le> 8" "ss_messages s \<le> 256" "ss_notifications s \<le> 1024" "ss_spawnRequests s \<le> 64"
  using assms by (simp_all add: settings_ok_def setting_entries_def SWARM_MAXIMUMS_def)

lemma settings_json_inject: "canonicalJson (Some (settings_json s)) = canonicalJson (Some (settings_json s')) \<longleftrightarrow> s = s'"
proof
  assume eq: "canonicalJson (Some (settings_json s)) = canonicalJson (Some (settings_json s'))"
  have d: "distinct (map fst (map (\<lambda>(k, v). (k, JNum v)) (setting_entries t)))" for t by (simp add: setting_entries_def)
  have "map_option (\<lambda>v. canonicalJson (Some v)) (map_of (map (\<lambda>(k, v). (k, JNum v)) (setting_entries s)) k) =
        map_option (\<lambda>v. canonicalJson (Some v)) (map_of (map (\<lambda>(k, v). (k, JNum v)) (setting_entries s')) k)" for k
    using eq canonicalJson_object [OF d d, of s s'] by (simp add: settings_json_def)
  from this [of "''agents''"] this [of "''depth''"] this [of "''messages''"] this [of "''notifications''"] this [of "''spawnRequests''"]
    this [of "''contextBytes''"] this [of "''textBytes''"] this [of "''waitMs''"] this [of "''turnMs''"] this [of "''lifetimeMs''"]
  have "ss_agents s = ss_agents s'" "ss_depth s = ss_depth s'" "ss_messages s = ss_messages s'" "ss_notifications s = ss_notifications s'"
    "ss_spawnRequests s = ss_spawnRequests s'" "ss_contextBytes s = ss_contextBytes s'" "ss_textBytes s = ss_textBytes s'" "ss_waitMs s = ss_waitMs s'"
    "ss_turnMs s = ss_turnMs s'" "ss_lifetimeMs s = ss_lifetimeMs s'"
    by (simp_all add: setting_entries_def canonicalJson_inject)
  then show "s = s'" by simp
qed simp

subsection \<open>The invariant of a swarm\<close>

text \<open>What provisioning and delivery leave alone of members and messages.\<close>

definition member_frame :: "swarm_member \<Rightarrow> string \<times> string \<times> nat \<times> string option" where
  "member_frame m = (sm_id m, sm_threadRef m, sm_depth m, sm_parentId m)"

definition message_frame :: "swarm_message \<Rightarrow> string \<times> nat \<times> swarm_message \<times> string list" where
  "message_frame g = (sg_id g, sg_seq g, g\<lparr>sg_notifications := []\<rparr>, map fst (sg_notifications g))"

type_synonym swarm_frame = "(string \<times> string \<times> nat \<times> string option) list \<times> (string \<times> nat \<times> swarm_message \<times> string list) list"

definition swarm_frame :: "swarm \<Rightarrow> swarm_frame" where
  "swarm_frame sw = (map member_frame (sw_members sw), map message_frame (sw_messages sw))"

text \<open>The budgets, on the frames.\<close>

definition budgets_ok :: "swarm_settings \<Rightarrow> nat \<Rightarrow> nat \<Rightarrow> swarm_frame \<Rightarrow> bool" where
  "budgets_ok s requests notes frame \<longleftrightarrow> settings_ok s \<and> (case frame of (ms, gs) \<Rightarrow>
     int (length ms) \<le> ss_agents s \<and> (\<forall>(_, _, d, _) \<in> set ms. int d \<le> ss_depth s) \<and> int requests \<le> ss_spawnRequests s \<and>
     int (length gs) \<le> ss_messages s \<and> sum_list (map (\<lambda>(_, _, _, ks). length ks) gs) = notes \<and> int notes \<le> ss_notifications s)"

text \<open>Identities: members form a tree under the root, sequence numbers count the messages, recorded requests name what they made.\<close>

definition tree_ok :: "string \<Rightarrow> swarm_frame \<Rightarrow> bool" where
  "tree_ok root_id frame \<longleftrightarrow> (case frame of (ms, gs) \<Rightarrow>
     distinct (map fst ms) \<and> distinct (map fst gs) \<and> map (fst \<circ> snd) gs = [1..<Suc (length gs)] \<and>
     (\<forall>(i, _, d, p) \<in> set ms. case p of None \<Rightarrow> i = root_id \<and> d = 0 | Some q \<Rightarrow> \<exists>t e r. (q, t, e, r) \<in> set ms \<and> d = e + 1))"

definition requests_ok :: "(string list \<times> string) js_map \<Rightarrow> (string \<times> string) js_map \<Rightarrow> swarm_frame \<Rightarrow> bool" where
  "requests_ok spawns sends frame \<longleftrightarrow> (case frame of (ms, gs) \<Rightarrow>
     (\<forall>(_, ids, _) \<in> set spawns. filter (\<lambda>i. i \<in> set ids) (map fst ms) = ids) \<and> (\<forall>(_, g, _) \<in> set sends. g \<in> fst ` set gs))"

definition swarm_core :: "swarm \<Rightarrow> bool" where
  "swarm_core sw \<longleftrightarrow>
     budgets_ok (sw_settings sw) (length (sw_spawnRequests sw)) (sw_notificationCount sw) (swarm_frame sw) \<and> tree_ok (sw_id sw) (swarm_frame sw) \<and>
     requests_ok (sw_spawnRequests sw) (sw_messageRequests sw) (swarm_frame sw)"

definition swarm_ok :: "string \<Rightarrow> swarm \<Rightarrow> bool" where
  "swarm_ok i sw \<longleftrightarrow> sw_id sw = i \<and> swarm_core sw \<and> sw_pending sw = has_pending sw"

text \<open>A swarm only grows.\<close>

definition swarm_fixed :: "swarm \<Rightarrow> string \<times> scope_id \<times> string \<times> string list \<times> time \<times> time \<times> swarm_input \<times> swarm_settings \<times> string" where
  "swarm_fixed sw = (sw_id sw, sw_scopeId sw, sw_ownerId sw, sw_participants sw, sw_createdAt sw, sw_expiresAt sw, sw_template sw, sw_settings sw, sw_backend sw)"

definition grows :: "swarm \<Rightarrow> swarm \<Rightarrow> bool" where
  "grows sw sw' \<longleftrightarrow> swarm_fixed sw' = swarm_fixed sw \<and> prefix (fst (swarm_frame sw)) (fst (swarm_frame sw')) \<and>
     prefix (snd (swarm_frame sw)) (snd (swarm_frame sw')) \<and> map_of (sw_spawnRequests sw) \<subseteq>\<^sub>m map_of (sw_spawnRequests sw') \<and>
     map_of (sw_messageRequests sw) \<subseteq>\<^sub>m map_of (sw_messageRequests sw')"

lemma grows_refl [simp]: "grows sw sw" by (simp add: grows_def)

lemma grows_trans: "grows a b \<Longrightarrow> grows b c \<Longrightarrow> grows a c"
  unfolding grows_def by (elim conjE, intro conjI) (erule (1) trans, (erule (1) prefix_order.trans)+, (erule (1) map_le_trans)+)

text \<open>Writes that keep the frame.\<close>

lemma update_first_map: "(\<And>x. P x \<Longrightarrow> h (f x) = h x) \<Longrightarrow> map h (update_first P f xs) = map h xs"
  by (induction xs) auto

lemma same_frame:
  assumes "swarm_frame sw' = swarm_frame sw" "swarm_fixed sw' = swarm_fixed sw" "sw_spawnRequests sw' = sw_spawnRequests sw"
    "sw_messageRequests sw' = sw_messageRequests sw" "sw_notificationCount sw' = sw_notificationCount sw"
  shows "swarm_core sw' = swarm_core sw" "grows sw sw'"
  using assms by (auto simp: swarm_core_def grows_def swarm_fixed_def)

lemma change_member_frame:
  assumes "change_member i f sw = Inr sw'" "\<And>m. member_frame (f m) = member_frame m"
  shows "swarm_core sw' = swarm_core sw" "grows sw sw'"
proof -
  have "sw' = sw\<lparr>sw_members := update_first (\<lambda>m. sm_id m = i) f (sw_members sw)\<rparr>"
    using assms(1) by (auto simp: change_member_def split: option.splits)
  then have "swarm_frame sw' = swarm_frame sw" "swarm_fixed sw' = swarm_fixed sw" "sw_spawnRequests sw' = sw_spawnRequests sw"
    "sw_messageRequests sw' = sw_messageRequests sw" "sw_notificationCount sw' = sw_notificationCount sw"
    using update_first_map [of "\<lambda>m. sm_id m = i" member_frame f "sw_members sw"] assms(2) by (auto simp: swarm_frame_def swarm_fixed_def)
  then show "swarm_core sw' = swarm_core sw" "grows sw sw'" by (rule same_frame)+
qed

lemma frames_distinct_ids: "map fst (map message_frame gs) = map sg_id gs" "map fst (map member_frame ms) = map sm_id ms"
  by (simp_all add: message_frame_def member_frame_def comp_def)

lemma settle_note_frame:
  assumes "settle_note messageId r n sw = Inr sw'" "\<forall>g \<in> set (sw_messages sw). sg_id g = messageId \<longrightarrow> r \<in> fst ` set (sg_notifications g)"
  shows "swarm_core sw' = swarm_core sw" "grows sw sw'"
proof -
  let ?f = "\<lambda>g. g\<lparr>sg_notifications := AList.update r n (sg_notifications g)\<rparr>"
  have sw': "sw' = sw\<lparr>sw_messages := update_first (\<lambda>g. sg_id g = messageId) ?f (sw_messages sw)\<rparr>"
    using assms(1) by (auto simp: settle_note_def change_message_def split: option.splits)
  have "map message_frame (update_first (\<lambda>g. sg_id g = messageId) ?f gs) = map message_frame gs" if "set gs \<subseteq> set (sw_messages sw)" for gs
    using that assms(2) by (induction gs) (auto simp: message_frame_def update_keys)
  with sw' have "swarm_frame sw' = swarm_frame sw" "swarm_fixed sw' = swarm_fixed sw" "sw_spawnRequests sw' = sw_spawnRequests sw"
    "sw_messageRequests sw' = sw_messageRequests sw" "sw_notificationCount sw' = sw_notificationCount sw"
    by (auto simp: swarm_frame_def swarm_fixed_def)
  then show "swarm_core sw' = swarm_core sw" "grows sw sw'" by (rule same_frame)+
qed

subsection \<open>Spawns and messages keep the invariant\<close>

text \<open>Identifiers drawn at random are new and different.\<close>

definition ids_drawn :: "(nat \<Rightarrow> string) \<Rightarrow> nat \<Rightarrow> swarm \<Rightarrow> bool" where
  "ids_drawn fresh n sw \<longleftrightarrow> inj_on fresh {..n} \<and> (\<forall>k \<le> n. fresh k \<notin> sm_id ` set (sw_members sw) \<and> fresh k \<notin> sg_id ` set (sw_messages sw))"

lemma new_members_frame:
  assumes "length is = length cs"
  shows "map member_frame (map2 (new_member plan sw parent) is cs) =
    map (\<lambda>i. (i, ''swarm:'' @ encodeURIComponent (sw_id sw) @ '':'' @ i, sm_depth parent + 1, Some (sm_id parent))) is"
  using assms by (induction "is" cs rule: list_induct2) (simp_all add: member_frame_def new_member_def)

lemma new_members_ids: "length is = length cs \<Longrightarrow> map sm_id (map2 (new_member plan sw parent) is cs) = is"
  by (induction "is" cs rule: list_induct2) (simp_all add: new_member_def)

lemma pending_notes_keys: "distinct ids \<Longrightarrow> map fst (pending_notes ids) = ids"
  by (simp add: pending_notes_def uniq_distinct comp_def)

lemma length_update_new: "k \<notin> fst ` set xs \<Longrightarrow> AList.update k v xs = xs @ [(k, v)]"
  by (induction xs) auto

text \<open>A recorded request: the row is as it was.\<close>

lemma reserve_known:
  assumes "map_of (sw_spawnRequests sw) (pl_key plan) = Some (ids, sig)"
  shows "reserve plan now fresh sw = (if sig = pl_fingerprint plan then Inr sw else Inl reused_error)"
  using assms by (simp add: reserve_def)

lemma reserve_new:
  assumes "reserve plan now fresh sw = Inr sw'" "map_of (sw_spawnRequests sw) (pl_key plan) = None"
  obtains parent where "admit_spawn plan now sw = Inr parent"
    "sw' = (let count = length (pl_contexts plan); members = map2 (new_member plan sw parent) (map fresh [0..<count]) (pl_contexts plan); ids = map fresh [0..<count]
      in sw\<lparr>sw_members := sw_members sw @ members, sw_spawnRequests := sw_spawnRequests sw @ [(pl_key plan, ids, pl_fingerprint plan)],
            sw_messages := sw_messages sw @ [spawn_message plan sw parent now (fresh count) ids],
            sw_notificationCount := sw_notificationCount sw + count\<rparr>)"
proof -
  have new: "pl_key plan \<notin> fst ` set (sw_spawnRequests sw)" using assms(2) by (simp add: map_of_eq_None_iff)
  show ?thesis
    using assms that by (auto simp: reserve_def and_then_Inr Let_def new_members_ids length_update_new [OF new] simp del: map_map)
qed

lemma admit_spawn_Inr:
  assumes "admit_spawn plan now sw = Inr parent"
  shows "pl_settings plan = sw_settings sw" "parent \<in> set (sw_members sw)" "int (sm_depth parent) < ss_depth (sw_settings sw)"
    "int (length (sw_members sw)) + int (length (pl_contexts plan)) \<le> ss_agents (sw_settings sw)"
    "int (length (sw_spawnRequests sw)) < ss_spawnRequests (sw_settings sw)" "int (length (sw_messages sw)) < ss_messages (sw_settings sw)"
    "int (sw_notificationCount sw) + int (length (pl_contexts plan)) \<le> ss_notifications (sw_settings sw)"
  using assms
  by (auto simp: admit_spawn_def Let_def and_then_Inr settings_json_inject find_member_def find_Some_iff split: if_splits option.splits)

lemma prefix_snoc_le: "k \<notin> dom (map_of xs) \<Longrightarrow> map_of xs \<subseteq>\<^sub>m map_of (xs @ [(k, v)])"
  by (auto simp: map_le_def map_add_def split: option.splits)

text \<open>Growth of the frames, for spawns and for messages.\<close>

lemma budgets_grow:
  assumes "budgets_ok s r n (ms, gs)" "\<forall>(_, _, d, _) \<in> set added. int d \<le> ss_depth s" "int (length ms) + int (length added) \<le> ss_agents s"
    and "int r' \<le> ss_spawnRequests s" "int (length gs) < ss_messages s" "int n + int (length ks) \<le> ss_notifications s"
  shows "budgets_ok s r' (n + length ks) (ms @ added, gs @ [(i, q, m, ks)])"
  using assms by (auto simp: budgets_ok_def)

lemma tree_grow:
  assumes "tree_ok i (ms, gs)" "distinct (map fst added)" "fst ` set added \<inter> fst ` set ms = {}" "j \<notin> fst ` set gs"
    and parents: "\<forall>(_, _, d, p) \<in> set added. \<exists>q t e r. p = Some q \<and> (q, t, e, r) \<in> set ms \<and> d = e + 1"
  shows "tree_ok i (ms @ added, gs @ [(j, Suc (length gs), m, ks)])"
proof -
  have "distinct (map fst (ms @ added))" using assms(1-3) by (auto simp: tree_ok_def)
  moreover have "distinct (map fst (gs @ [(j, Suc (length gs), m, ks)]))" using assms(1,4) by (auto simp: tree_ok_def)
  moreover have "map (fst \<circ> snd) (gs @ [(j, Suc (length gs), m, ks)]) = [1..<Suc (length (gs @ [(j, Suc (length gs), m, ks)]))]"
    using assms(1) by (simp add: tree_ok_def)
  moreover have "\<forall>(k, _, d, p) \<in> set ms. case p of None \<Rightarrow> k = i \<and> d = 0 | Some q \<Rightarrow> \<exists>t e r. (q, t, e, r) \<in> set (ms @ added) \<and> d = e + 1"
    using assms(1) by (fastforce simp: tree_ok_def split: option.splits)
  moreover have "\<forall>(k, _, d, p) \<in> set added. case p of None \<Rightarrow> k = i \<and> d = 0 | Some q \<Rightarrow> \<exists>t e r. (q, t, e, r) \<in> set (ms @ added) \<and> d = e + 1"
    using parents by fastforce
  ultimately show ?thesis unfolding tree_ok_def prod.case set_append ball_Un by blast
qed

lemma requests_grow:
  assumes "requests_ok spawns sends (ms, gs)" "fst ` set added \<inter> fst ` set ms = {}"
  shows "requests_ok spawns sends (ms @ added, gs @ more_gs)"
proof -
  have "filter (\<lambda>i. i \<in> set ids) (map fst (ms @ added)) = ids" if "(k, ids, sig) \<in> set spawns" for k ids sig
  proof -
    have ids: "filter (\<lambda>i. i \<in> set ids) (map fst ms) = ids" using assms(1) that by (auto simp: requests_ok_def)
    have "set ids \<subseteq> fst ` set ms" by (subst ids [symmetric]) auto
    then have "filter (\<lambda>i. i \<in> set ids) (map fst added) = []" using assms(2) by (auto simp: filter_empty_conv)
    then show ?thesis using ids by simp
  qed
  then show ?thesis using assms(1) by (auto simp: requests_ok_def)
qed

lemma requests_record:
  assumes "requests_ok spawns sends (ms @ added, gs)" "fst ` set added \<inter> fst ` set ms = {}"
  shows "requests_ok (spawns @ [(k, map fst added, sig)]) sends (ms @ added, gs)"
proof -
  have "filter (\<lambda>i. i \<in> set (map fst added)) (map fst (ms @ added)) = map fst added"
    using assms(2) by (auto simp: filter_empty_conv filter_id_conv)
  then show ?thesis using assms(1) by (auto simp: requests_ok_def)
qed

lemma reserve_keeps:
  assumes "swarm_core sw" "reserve plan now fresh sw = Inr sw'" "ids_drawn fresh (length (pl_contexts plan)) sw"
  shows "swarm_core sw' \<and> grows sw sw'"
proof (cases "map_of (sw_spawnRequests sw) (pl_key plan)")
  case (Some r)
  then have "sw' = sw" using assms(2) by (cases r) (auto simp: reserve_known split: if_splits)
  with assms(1) show ?thesis by simp
next
  case None
  define n where "n = length (pl_contexts plan)"
  define ids where "ids = map fresh [0..<n]"
  obtain parent where admit: "admit_spawn plan now sw = Inr parent"
    and sw': "sw' = sw\<lparr>sw_members := sw_members sw @ map2 (new_member plan sw parent) ids (pl_contexts plan),
            sw_spawnRequests := sw_spawnRequests sw @ [(pl_key plan, ids, pl_fingerprint plan)],
            sw_messages := sw_messages sw @ [spawn_message plan sw parent now (fresh n) ids], sw_notificationCount := sw_notificationCount sw + n\<rparr>"
    using reserve_new [OF assms(2) None] unfolding Let_def ids_def n_def by metis
  note a = admit_spawn_Inr [OF admit]
  define ms where "ms = map member_frame (sw_members sw)"
  define gs where "gs = map message_frame (sw_messages sw)"
  define added where "added = map (\<lambda>i. (i, ''swarm:'' @ encodeURIComponent (sw_id sw) @ '':'' @ i, sm_depth parent + 1, Some (sm_id parent))) ids"
  define g where "g = spawn_message plan sw parent now (fresh n) ids"
  have ids: "distinct ids" "length ids = n" and added: "map fst added = ids" "length added = n"
    using assms(3) by (auto simp: ids_def n_def ids_drawn_def distinct_map inj_on_def added_def comp_def)
  have new: "fst ` set added \<inter> fst ` set ms = {}" "fresh n \<notin> fst ` set gs"
    using assms(3) by (auto simp: added_def ids_def n_def ms_def gs_def ids_drawn_def member_frame_def message_frame_def image_iff)
  have frame: "swarm_frame sw = (ms, gs)" by (simp add: swarm_frame_def ms_def gs_def)
  have g: "message_frame g = (fresh n, Suc (length gs), g\<lparr>sg_notifications := []\<rparr>, ids)"
    using ids(1) by (simp add: g_def message_frame_def spawn_message_def pending_notes_keys gs_def)
  have frame': "swarm_frame sw' = (ms @ added, gs @ [message_frame g])"
    using new_members_frame [of ids "pl_contexts plan" plan sw parent] ids(2) by (simp add: sw' swarm_frame_def ms_def gs_def g_def added_def n_def)
  have parent: "(sm_id parent, sm_threadRef parent, sm_depth parent, sm_parentId parent) \<in> set ms"
    using a(2) by (force simp: ms_def member_frame_def)
  have core: "budgets_ok (sw_settings sw) (length (sw_spawnRequests sw)) (sw_notificationCount sw) (ms, gs)" "tree_ok (sw_id sw) (ms, gs)"
    "requests_ok (sw_spawnRequests sw) (sw_messageRequests sw) (ms, gs)"
    using assms(1) by (simp_all add: swarm_core_def frame)
  have "budgets_ok (sw_settings sw) (Suc (length (sw_spawnRequests sw))) (sw_notificationCount sw + length ids) (ms @ added, gs @ [message_frame g])"
    unfolding g by (rule budgets_grow [OF core(1)]) (use a added(2) ids(2) in \<open>auto simp: added_def n_def ms_def gs_def\<close>)
  moreover have "tree_ok (sw_id sw) (ms @ added, gs @ [message_frame g])"
    unfolding g by (rule tree_grow [OF core(2) _ new]) (use added(1) ids(1) parent in \<open>auto simp: added_def\<close>)
  moreover have "requests_ok (sw_spawnRequests sw @ [(pl_key plan, ids, pl_fingerprint plan)]) (sw_messageRequests sw) (ms @ added, gs @ [message_frame g])"
    using requests_record [OF requests_grow [OF core(3) new(1)] new(1)] unfolding added(1) .
  ultimately have "swarm_core sw'" using ids(2) by (simp add: swarm_core_def frame') (simp add: sw')
  moreover have "grows sw sw'" using None by (simp add: grows_def frame frame') (simp add: sw' swarm_fixed_def prefix_snoc_le domIff)
  ultimately show ?thesis by simp
qed

text \<open>A sent message.\<close>

lemma append_known:
  assumes "map_of (sw_messageRequests sw) (sd_key plan) = Some (g, sig)"
  shows "append_message plan now i sw = (if sig = sd_fingerprint plan then Inr sw else Inl reused_error)"
  using assms by (simp add: append_message_def)

lemma append_keeps:
  assumes "swarm_core sw" "append_message plan now i sw = Inr sw'" "i \<notin> sg_id ` set (sw_messages sw)" "distinct (sd_audience plan)"
  shows "swarm_core sw' \<and> grows sw sw'"
proof (cases "map_of (sw_messageRequests sw) (sd_key plan)")
  case (Some r)
  then have "sw' = sw" using assms(2) by (cases r) (auto simp: append_known split: if_splits)
  with assms(1) show ?thesis by simp
next
  case None
  then have fresh: "sd_key plan \<notin> fst ` set (sw_messageRequests sw)" by (simp add: map_of_eq_None_iff)
  define ms where "ms = map member_frame (sw_members sw)"
  define gs where "gs = map message_frame (sw_messages sw)"
  define g where "g = sent_message plan sw now i"
  have sw': "sw' = sw\<lparr>sw_notificationCount := sw_notificationCount sw + length (recipients_of plan), sw_messages := sw_messages sw @ [g],
      sw_messageRequests := sw_messageRequests sw @ [(sd_key plan, i, sd_fingerprint plan)]\<rparr>"
    and room: "int (length (sw_messages sw)) < ss_messages (sw_settings sw)"
      "int (sw_notificationCount sw) + int (length (recipients_of plan)) \<le> ss_notifications (sw_settings sw)"
    using assms(2) None by (auto simp: append_message_def and_then_Inr length_update_new [OF fresh] g_def split: if_splits)
  have frame: "swarm_frame sw = (ms, gs)" by (simp add: swarm_frame_def ms_def gs_def)
  have "distinct (recipients_of plan)" using assms(4) by (simp add: recipients_of_def)
  then have g: "message_frame g = (i, Suc (length gs), g\<lparr>sg_notifications := []\<rparr>, recipients_of plan)"
    by (simp add: g_def message_frame_def sent_message_def pending_notes_keys gs_def)
  have frame': "swarm_frame sw' = (ms @ [], gs @ [message_frame g])" by (simp add: sw' swarm_frame_def ms_def gs_def)
  have new: "i \<notin> fst ` set gs" using assms(3) by (auto simp: gs_def message_frame_def image_iff)
  have core: "budgets_ok (sw_settings sw) (length (sw_spawnRequests sw)) (sw_notificationCount sw) (ms, gs)" "tree_ok (sw_id sw) (ms, gs)"
    "requests_ok (sw_spawnRequests sw) (sw_messageRequests sw) (ms, gs)"
    using assms(1) by (simp_all add: swarm_core_def frame)
  have "budgets_ok (sw_settings sw) (length (sw_spawnRequests sw)) (sw_notificationCount sw + length (recipients_of plan)) (ms @ [], gs @ [message_frame g])"
    unfolding g by (rule budgets_grow [OF core(1)]) (use core(1) room in \<open>auto simp: budgets_ok_def gs_def\<close>)
  moreover have "tree_ok (sw_id sw) (ms @ [], gs @ [message_frame g])" unfolding g by (rule tree_grow [OF core(2) _ _ new]) auto
  moreover have "requests_ok (sw_spawnRequests sw) (sw_messageRequests sw @ [(sd_key plan, i, sd_fingerprint plan)]) (ms @ [], gs @ [message_frame g])"
    using requests_grow [OF core(3), of "[]" "[message_frame g]"] by (auto simp: requests_ok_def g)
  ultimately have "swarm_core sw'" by (simp only: swarm_core_def frame') (simp add: sw')
  moreover have "grows sw sw'" using None by (simp add: grows_def frame frame') (simp add: sw' swarm_fixed_def prefix_snoc_le domIff)
  ultimately show ?thesis by simp
qed

subsection \<open>Histories\<close>

definition ids_drawn_for :: "(nat \<Rightarrow> string) \<Rightarrow> nat \<Rightarrow> swarm_env \<Rightarrow> swarm_db \<Rightarrow> bool" where
  "ids_drawn_for fresh n env db \<longleftrightarrow> inj_on fresh {..n} \<and> (\<forall>i sw. map_of db i = Some sw \<longrightarrow> ids_drawn fresh n sw) \<and>
     (\<forall>i s k. sa_session (se_authority env) i = Some s \<longrightarrow> fresh k \<noteq> sv_id s)"

text \<open>The states of the table, latest first. Every write acts on the latest state; what it writes may rest on any earlier one.\<close>

inductive swarm_history :: "swarm_db list \<Rightarrow> bool" where
  history_empty: "swarm_history [[]]"
| history_first: "swarm_history (db # h) \<Longrightarrow> old \<in> set (db # h) \<Longrightarrow> spawn_begin env0 caller inp t0 old = Inr (SpawnInitial plan) \<Longrightarrow>
    ids_drawn_for fresh (length (pl_contexts plan)) env db \<Longrightarrow> spawn_first env caller plan now later fresh db = (res, db') \<Longrightarrow> swarm_history (db' # db # h)"
| history_more: "swarm_history (db # h) \<Longrightarrow> old \<in> set (db # h) \<Longrightarrow> spawn_begin env0 caller inp t0 old \<in> {Inr (SpawnInitial plan), Inr (SpawnMore plan)} \<Longrightarrow>
    ids_drawn_for fresh (length (pl_contexts plan)) env db \<Longrightarrow> spawn_more env plan now later fresh db = (res, db') \<Longrightarrow> swarm_history (db' # db # h)"
| history_send: "swarm_history (db # h) \<Longrightarrow> old \<in> set (db # h) \<Longrightarrow> send_begin env0 caller msg t0 old = Inr (SendPlan sending) \<Longrightarrow>
    ids_drawn_for fresh 0 env db \<Longrightarrow> send_commit env sending now later (fresh 0) db = (res, db') \<Longrightarrow> swarm_history (db' # db # h)"
| history_context: "swarm_history (db # h) \<Longrightarrow> context_commit env auth v now later db = (res, db') \<Longrightarrow> swarm_history (db' # db # h)"
| history_note: "swarm_history (db # h) \<Longrightarrow> old \<in> set (db # h) \<Longrightarrow> map_of old i = Some sw \<Longrightarrow> g \<in> set (sw_messages sw) \<Longrightarrow> r \<in> fst ` set (sg_notifications g) \<Longrightarrow>
    note_update i (sg_id g) r n db = (res, db') \<Longrightarrow> swarm_history (db' # db # h)"
| history_attempt: "swarm_history (db # h) \<Longrightarrow> start_attempt i m db = (res, db') \<Longrightarrow> swarm_history (db' # db # h)"
| history_ready: "swarm_history (db # h) \<Longrightarrow> mark_ready i m s deadline now db = (res, db') \<Longrightarrow> swarm_history (db' # db # h)"
| history_failed: "swarm_history (db # h) \<Longrightarrow> mark_failed i m msg timedOut deadline now db = (res, db') \<Longrightarrow> swarm_history (db' # db # h)"
| history_cleanup: "swarm_history (db # h) \<Longrightarrow> cleanup_done i m db = (res, db') \<Longrightarrow> swarm_history (db' # db # h)"

definition table_ok :: "swarm_db \<Rightarrow> bool" where
  "table_ok db \<longleftrightarrow> (\<forall>i sw. map_of db i = Some sw \<longrightarrow> swarm_ok i sw)"

definition table_grows :: "swarm_db \<Rightarrow> swarm_db \<Rightarrow> bool" where
  "table_grows old db \<longleftrightarrow> (\<forall>i sw. map_of old i = Some sw \<longrightarrow> (\<exists>sw'. map_of db i = Some sw' \<and> grows sw sw'))"

lemma table_growsD:
  assumes "table_grows old db" "map_of old i = Some sw"
  obtains sw' where "map_of db i = Some sw'" "grows sw sw'"
  using assms unfolding table_grows_def by blast

lemma table_grows_refl [simp]: "table_grows db db" by (simp add: table_grows_def)

lemma table_grows_trans: "table_grows a b \<Longrightarrow> table_grows b c \<Longrightarrow> table_grows a c"
  unfolding table_grows_def by (meson grows_trans)

lemma has_pending_flag [simp]: "has_pending (sw\<lparr>sw_pending := b\<rparr>) = has_pending sw"
  by (simp add: has_pending_def)

lemma core_flag [simp]: "swarm_core (sw\<lparr>sw_pending := b\<rparr>) = swarm_core sw" "grows sw' (sw\<lparr>sw_pending := b\<rparr>) = grows sw' sw"
  by (simp_all add: swarm_core_def swarm_frame_def grows_def swarm_fixed_def)

lemma row_written:
  assumes "table_ok db" "swarm_ok i new" "\<And>sw. map_of db i = Some sw \<Longrightarrow> grows sw new"
  shows "table_ok (AList.update i new db) \<and> table_grows db (AList.update i new db)"
  using assms by (auto simp: table_ok_def table_grows_def update_conv')

lemma update_keeps:
  assumes "table_ok db" "sw_update asks now later i mutate fence db = (res, db')"
    and keeps: "\<And>sw sw'. map_of db i = Some sw \<Longrightarrow> swarm_core sw \<Longrightarrow> mutate sw = Inr sw' \<Longrightarrow> swarm_core sw' \<and> grows sw sw'"
  shows "table_ok db' \<and> table_grows db db'"
  using assms(2)
proof (cases rule: sw_update_cases)
  case (written sw sw')
  have "swarm_ok i sw" using assms(1) written(1) by (simp add: table_ok_def)
  then have "swarm_core sw' \<and> grows sw sw'" and i: "sw_id sw = i" using keeps written(1,2) by (simp_all add: swarm_ok_def)
  moreover from this have "sw_id sw' = i" by (simp add: grows_def swarm_fixed_def)
  ultimately show ?thesis unfolding written(4) using written(1) assms(1) by (intro row_written) (simp_all add: swarm_ok_def)
qed (use assms(1) in simp)

lemma spawn_begin_planned:
  assumes "spawn_begin env caller i now db = Inr b" "b \<in> {SpawnInitial plan, SpawnMore plan}"
  obtains auth existing where "authority env caller now db = Inr (auth, existing)" "plan_spawn env caller i auth existing = Inr b"
  using assms by (auto simp: spawn_begin_def and_then_Inr split: option.splits if_splits)

lemma plan_spawn_Inr:
  assumes "plan_spawn env caller i auth existing = Inr b" "b \<in> {SpawnInitial plan, SpawnMore plan}"
  shows "pl_contexts plan \<noteq> []" and "b = SpawnInitial plan \<Longrightarrow> settings_ok (pl_settings plan)" and "pl_auth plan = auth"
    and "pl_key plan = request_key env auth caller (sp_requestId i)"
proof -
  obtain settings contexts where
    count: "1 \<le> spawn_count i" "case sp_contexts i of Some cs \<Rightarrow> int (length cs) = spawn_count i | None \<Rightarrow> True"
    and c: "map_result (\<lambda>c. jsonContext c (ss_contextBytes settings)) (spawn_contexts i (nat (spawn_count i))) = Inr contexts"
    and s: "spawn_settings env existing i = Inr settings"
    and plan: "pl_contexts plan = contexts" "pl_settings plan = settings" "b = SpawnInitial plan \<Longrightarrow> existing = None"
      "pl_auth plan = auth" "pl_key plan = request_key env auth caller (sp_requestId i)"
    using assms unfolding plan_spawn_def
    by (auto simp: and_then_Inr Let_def not_less split: if_splits option.splits)
  have "length (spawn_contexts i (nat (spawn_count i))) = nat (spawn_count i)"
    using count by (auto simp: spawn_contexts_def split: option.splits)
  then have "length contexts = nat (spawn_count i)" using c by (auto simp: map_result_Inr list_all2_lengthD)
  then show "pl_contexts plan \<noteq> []" using count(1) plan(1) by auto
  show "settings_ok (pl_settings plan)" if "b = SpawnInitial plan"
    using s plan(2) plan(3) [OF that] by (auto simp: spawn_settings_def intro: resolved_settings_ok)
  show "pl_auth plan = auth" "pl_key plan = request_key env auth caller (sp_requestId i)" using plan by auto
qed

lemma send_begin_plan:
  assumes "send_begin env caller i now db = Inr (SendPlan plan)"
  shows "distinct (sd_audience plan)"
proof -
  have split: "(case x of None \<Rightarrow> and_then r (\<lambda>ids. Inr (SendPlan (f ids))) | Some (m, sig) \<Rightarrow>
      if sig \<noteq> fp then Inl e else (case find_message m sw of None \<Rightarrow> Inl e' | Some g \<Rightarrow> Inr (SendReplay g))) = Inr (SendPlan p) \<Longrightarrow>
    \<exists>ids. r = Inr ids \<and> p = f ids" for x r f fp e e' sw p
    by (cases x; cases r) (auto split: if_splits option.splits)
  obtain sw audience ids where "canonicalAudience (mi_audience i) (ss_agents (sw_settings sw)) = Inr audience"
    "resolveAudience audience (eligible_members env sw) = Inr ids" "sd_audience plan = ids"
    using assms unfolding send_begin_def and_then_Inr Let_def split_paired_Ex prod.case by (elim exE conjE) (drule split, auto)
  then have "\<exists>xs. sort (uniq xs) = sd_audience plan"
    by (auto simp: canonicalAudience_def resolveAudience_def Let_def split: swarm_audience.splits if_splits)
  then show ?thesis by (metis distinct_sort distinct_uniq)
qed

lemma initial_core:
  assumes "prepareInitialSwarm env caller auth settings backend now = Inr sw" "settings_ok settings"
  obtains session where "swarm_core sw" "sw_members sw = [root_member session]" "sa_session (se_authority env) (au_sessionId auth) = Some session"
    "sw_messages sw = []" "sw_spawnRequests sw = []" "sw_pending sw"
proof -
  obtain session where session: "sa_session (se_authority env) (au_sessionId auth) = Some session"
    and sw: "sw_id sw = sv_id session" "sw_members sw = [root_member session]" "sw_messages sw = []" "sw_spawnRequests sw = []" "sw_messageRequests sw = []"
      "sw_notificationCount sw = 0" "sw_settings sw = settings" "sw_pending sw"
    using assms(1) unfolding prepareInitialSwarm_def
    by (auto simp: Let_def and_then_Inr split: option.splits if_splits)
  have "swarm_core sw"
    using assms(2) settings_ok_maxima(1) [OF assms(2)]
    by (simp add: swarm_core_def swarm_frame_def sw budgets_ok_def tree_ok_def requests_ok_def member_frame_def root_member_def)
      (simp add: settings_ok_def setting_entries_def SWARM_MAXIMUMS_def)
  then show ?thesis using that session sw by blast
qed

lemma first_keeps:
  assumes "table_ok db" "settings_ok (pl_settings plan)" "pl_contexts plan \<noteq> []" "ids_drawn_for fresh (length (pl_contexts plan)) env db"
    and "spawn_first env caller plan now later fresh db = (res, db')"
  shows "table_ok db' \<and> table_grows db db'"
proof (cases "and_then (prepareInitialSwarm env caller (pl_auth plan) (pl_settings plan) (pl_backend plan) now) (reserve plan now fresh)")
  case (Inl e)
  with assms(1,5) show ?thesis by (simp add: spawn_first_def)
next
  case (Inr sw)
  then obtain sw0 where prepared: "prepareInitialSwarm env caller (pl_auth plan) (pl_settings plan) (pl_backend plan) now = Inr sw0"
    and reserved: "reserve plan now fresh sw0 = Inr sw" by (auto simp: and_then_Inr)
  obtain session where core: "swarm_core sw0" and ms: "sw_members sw0 = [root_member session]"
    and session: "sa_session (se_authority env) (au_sessionId (pl_auth plan)) = Some session"
    and empty: "sw_messages sw0 = []" "sw_spawnRequests sw0 = []" "sw_pending sw0"
    using prepared assms(2) by (rule initial_core)
  have "ids_drawn fresh (length (pl_contexts plan)) sw0" using assms(4) session by (auto simp: ids_drawn_def ids_drawn_for_def ms empty root_member_def)
  with core reserved have sw: "swarm_core sw" "grows sw0 sw" by (auto dest: reserve_keeps)
  have "sw_pending sw \<and> has_pending sw"
  proof -
    have "map_of (sw_spawnRequests sw0) (pl_key plan) = None" by (simp add: empty(2))
    then have "\<exists>parent. sw_pending sw = sw_pending sw0 \<and>
      sw_members sw = sw_members sw0 @ map2 (new_member plan sw0 parent) (map fresh [0..<length (pl_contexts plan)]) (pl_contexts plan)"
      by (rule reserve_new [OF reserved]) (auto simp: Let_def)
    with assms(3) empty(3) show ?thesis
      by (cases "pl_contexts plan") (auto simp: has_pending_def new_member_def upt_conv_Cons simp del: upt_Suc)
  qed
  with sw(1) have ok: "swarm_ok (sw_id sw) sw" by (simp add: swarm_ok_def)
  from assms(5) Inr have "sw_create (Some (se_authority env)) now later sw (au_fence (pl_auth plan)) db = (res, db')" by (simp add: spawn_first_def)
  then show ?thesis
  proof (cases rule: sw_create_cases)
    case (present c)
    then show ?thesis unfolding present(3) using assms(1) by (intro row_written) (auto simp: table_ok_def)
  next
    case created
    then show ?thesis unfolding created(3) using assms(1) ok by (intro row_written) auto
  qed (use assms(1) in simp)
qed

lemma note_recipient_kept:
  assumes "table_grows old db" "table_ok db" "map_of old i = Some sw0" "g \<in> set (sw_messages sw0)" "r \<in> fst ` set (sg_notifications g)"
    and "map_of db i = Some sw" "g' \<in> set (sw_messages sw)" "sg_id g' = sg_id g"
  shows "r \<in> fst ` set (sg_notifications g')"
proof -
  have "prefix (map message_frame (sw_messages sw0)) (map message_frame (sw_messages sw))"
    using table_growsD [OF assms(1,3)] assms(6) by (auto simp: grows_def swarm_frame_def)
  then have "message_frame g \<in> set (map message_frame (sw_messages sw))" using assms(4) set_mono_prefix by fastforce
  then obtain g'' where g'': "g'' \<in> set (sw_messages sw)" "message_frame g'' = message_frame g" by auto
  have "distinct (map sg_id (sw_messages sw))"
    using assms(2,6) by (auto simp: table_ok_def swarm_ok_def swarm_core_def tree_ok_def swarm_frame_def frames_distinct_ids simp del: map_map)
  moreover have "sg_id g'' = sg_id g'" using g''(2) assms(8) by (simp add: message_frame_def)
  ultimately have "g'' = g'" using g''(1) assms(7) by (meson distinct_map inj_onD)
  then have "map fst (sg_notifications g') = map fst (sg_notifications g)" using g''(2) by (simp add: message_frame_def)
  then have "set (map fst (sg_notifications g')) = set (map fst (sg_notifications g))" by (rule arg_cong)
  with assms(5) show ?thesis by simp
qed

lemma member_write_keeps:
  assumes "table_ok db" "sw_update asks now later i mutate fence db = (res, db')"
    and "\<And>sw sw'. mutate sw = Inr sw' \<Longrightarrow> sw' = sw \<or> (\<exists>f. change_member m f sw = Inr sw' \<and> (\<forall>x. member_frame (f x) = member_frame x))"
  shows "table_ok db' \<and> table_grows db db'"
  using assms(1,2)
proof (rule update_keeps)
  fix sw sw' assume "swarm_core sw" "mutate sw = Inr sw'"
  then show "swarm_core sw' \<and> grows sw sw'" using assms(3) [of sw sw'] change_member_frame [of m _ sw sw'] by auto
qed

lemma history_nonempty: "swarm_history h \<Longrightarrow> h \<noteq> []"
  by (induction rule: swarm_history.induct) auto

lemma provision_keeps:
  assumes "table_ok db"
  shows "context_commit env auth v now later db = (res, db') \<Longrightarrow> table_ok db' \<and> table_grows db db'"
    and "start_attempt i m db = (res, db') \<Longrightarrow> table_ok db' \<and> table_grows db db'"
    and "mark_ready i m s deadline now db = (res, db') \<Longrightarrow> table_ok db' \<and> table_grows db db'"
    and "mark_failed i m msg timedOut deadline now db = (res, db') \<Longrightarrow> table_ok db' \<and> table_grows db db'"
    and "cleanup_done i m db = (res, db') \<Longrightarrow> table_ok db' \<and> table_grows db db'"
proof -
  have change: "sw' = sw \<or> (\<exists>f. change_member m f sw = Inr sw' \<and> (\<forall>x. member_frame (f x) = member_frame x))"
    if "change_member m f sw = Inr sw'" "\<And>x. member_frame (f x) = member_frame x" for m f sw sw'
    using that by blast
  show "context_commit env auth v now later db = (res, db') \<Longrightarrow> table_ok db' \<and> table_grows db db'"
    unfolding context_commit_def by (erule member_write_keeps [OF assms], unfold and_then_Inr, elim exE conjE, erule change) (simp add: member_frame_def)
  show "start_attempt i m db = (res, db') \<Longrightarrow> table_ok db' \<and> table_grows db db'"
    unfolding start_attempt_def by (erule member_write_keeps [OF assms], erule change) (simp add: member_frame_def)
  show "cleanup_done i m db = (res, db') \<Longrightarrow> table_ok db' \<and> table_grows db db'"
    unfolding cleanup_done_def by (erule member_write_keeps [OF assms], erule change) (simp add: member_frame_def)
  show "mark_ready i m s deadline now db = (res, db') \<Longrightarrow> table_ok db' \<and> table_grows db db'"
    unfolding mark_ready_def
    by (erule member_write_keeps [OF assms], split if_split_asm, simp, unfold and_then_Inr, elim exE conjE, erule change) (simp add: member_frame_def)
  show "mark_failed i m msg timedOut deadline now db = (res, db') \<Longrightarrow> table_ok db' \<and> table_grows db db'"
    unfolding mark_failed_def
    by (erule member_write_keeps [OF assms], split option.split_asm, simp, split if_split_asm, simp, erule change) (simp add: member_frame_def failed_member_def)
qed

lemma history_step:
  assumes "table_ok (hd (db # h)) \<and> (\<forall>old \<in> set (db # h). table_grows old (hd (db # h)))" "table_ok db' \<and> table_grows db db'"
  shows "table_ok (hd (db' # db # h)) \<and> (\<forall>old \<in> set (db' # db # h). table_grows old (hd (db' # db # h)))"
  using assms by (auto intro: table_grows_trans)

lemma history_ok: "swarm_history h \<Longrightarrow> table_ok (hd h) \<and> (\<forall>old \<in> set h. table_grows old (hd h))"
proof (induction rule: swarm_history.induct)
  case history_empty
  then show ?case by (simp add: table_ok_def)
next
  case (history_first db h old env0 caller inp t0 plan fresh env now later res db')
  obtain auth existing where "plan_spawn env0 caller inp auth existing = Inr (SpawnInitial plan)"
    using spawn_begin_planned [OF history_first(3)] by blast
  from plan_spawn_Inr(1,2) [OF this] have "pl_contexts plan \<noteq> []" "settings_ok (pl_settings plan)" by auto
  with history_first show ?case by (intro history_step first_keeps [where res = res]) auto
next
  case (history_more db h old env0 caller inp t0 plan fresh env now later res db')
  have "ids_drawn fresh (length (pl_contexts plan)) sw" if "map_of db i = Some sw" for i sw using history_more(4) that by (simp add: ids_drawn_for_def)
  with history_more show ?case
    by (intro history_step update_keeps [OF _ history_more(5) [unfolded spawn_more_def]]) (auto dest: reserve_keeps)
next
  case (history_send db h old env0 caller msg t0 sending fresh env now later res db')
  have "fresh 0 \<notin> sg_id ` set (sw_messages sw)" if "map_of db i = Some sw" for i sw
    using history_send(4) that by (auto simp: ids_drawn_for_def ids_drawn_def)
  then have "swarm_core sw' \<and> grows sw sw'"
    if "map_of db i = Some sw" "swarm_core sw" "append_message sending now (fresh 0) sw = Inr sw'" for i sw sw'
    using append_keeps [OF that(2,3) _ send_begin_plan [OF history_send(3)]] that(1) by blast
  with history_send show ?case by (intro history_step update_keeps [OF _ history_send(5) [unfolded send_commit_def]]) auto
next
  case (history_note db h old i sw g r n res db')
  have ok: "table_ok db" "table_grows old db" using history_note by auto
  have "\<forall>g' \<in> set (sw_messages cur). sg_id g' = sg_id g \<longrightarrow> r \<in> fst ` set (sg_notifications g')" if "map_of db i = Some cur" for cur
    using note_recipient_kept [OF ok(2,1) history_note(3,4,5) that] by blast
  then show ?case
    using history_note by (intro history_step update_keeps [OF _ history_note(6) [unfolded note_update_def]]) (auto dest: settle_note_frame)
qed (rule history_step, assumption, rule provision_keeps, simp, assumption)+

subsection \<open>Properties\<close>

text \<open>C9: A swarm stays within its budgets. In every state that spawns, messages, deliveries and provisioning reach, whatever they read before they wrote, the
  settings of a swarm are within the absolute limits; the members, their depth, the spawn requests, the messages and the notifications are within the settings,
  where the counter of notifications counts exactly the ones in the messages; members and messages have different identifiers, messages are
  numbered from one without gaps, and a swarm is marked as pending exactly when a member waits for provisioning or cleanup or a notification waits.\<close>

theorem swarm_within_budget:
  assumes "swarm_history (db # h)" "map_of db i = Some sw"
  shows "(sw_id sw = i \<and> int (length (sw_members sw)) \<le> ss_agents (sw_settings sw) \<and> ss_agents (sw_settings sw) \<le> 64 \<and>
      (\<forall>m \<in> set (sw_members sw). int (sm_depth m) \<le> ss_depth (sw_settings sw)) \<and> ss_depth (sw_settings sw) \<le> 8) \<and>
    int (length (sw_spawnRequests sw)) \<le> ss_spawnRequests (sw_settings sw) \<and> int (length (sw_messages sw)) \<le> ss_messages (sw_settings sw) \<and>
    (sum_list (map (\<lambda>g. length (sg_notifications g)) (sw_messages sw)) = sw_notificationCount sw \<and>
      int (sw_notificationCount sw) \<le> ss_notifications (sw_settings sw) \<and> ss_notifications (sw_settings sw) \<le> 1024) \<and>
    distinct (map sm_id (sw_members sw)) \<and> distinct (map sg_id (sw_messages sw)) \<and> map sg_seq (sw_messages sw) = [1..<Suc (length (sw_messages sw))] \<and>
    (sw_pending sw \<longleftrightarrow> has_pending sw)"
proof -
  have ok: "swarm_ok i sw" using history_ok [OF assms(1)] assms(2) by (auto simp: table_ok_def)
  then have b: "budgets_ok (sw_settings sw) (length (sw_spawnRequests sw)) (sw_notificationCount sw) (swarm_frame sw)"
    and t: "tree_ok (sw_id sw) (swarm_frame sw)" by (auto simp: swarm_ok_def swarm_core_def)
  from b have s: "settings_ok (sw_settings sw)" by (simp add: budgets_ok_def)
  have "map (\<lambda>(_, _, _, ks). length ks) (map message_frame (sw_messages sw)) = map (\<lambda>g. length (sg_notifications g)) (sw_messages sw)"
    by (simp add: message_frame_def comp_def)
  moreover have "map (fst \<circ> snd) (map message_frame (sw_messages sw)) = map sg_seq (sw_messages sw)" by (simp add: message_frame_def comp_def)
  moreover have "\<forall>m \<in> set (sw_members sw). int (sm_depth m) \<le> ss_depth (sw_settings sw)"
    using b by (auto simp: budgets_ok_def swarm_frame_def member_frame_def)
  ultimately show ?thesis
    using ok b t settings_ok_maxima [OF s]
    unfolding budgets_ok_def tree_ok_def swarm_frame_def prod.case frames_distinct_ids length_map by (auto simp: swarm_ok_def simp del: map_map upt_Suc)
qed

text \<open>The writes a caller makes after its authority was checked.\<close>

definition caller_writes :: "swarm_env \<Rightarrow> swarm_auth \<Rightarrow> time \<Rightarrow> time \<Rightarrow> swarm_db \<Rightarrow> swarm_db set" where
  "caller_writes env auth now later db =
     {db'. \<exists>caller plan fresh. pl_auth plan = auth \<and> db' = snd (spawn_first env caller plan now later fresh db)} \<union>
     {db'. \<exists>plan fresh. pl_auth plan = auth \<and> db' = snd (spawn_more env plan now later fresh db)} \<union>
     {db'. \<exists>plan i. sd_auth plan = auth \<and> db' = snd (send_commit env plan now later i db)} \<union>
     {db'. \<exists>v. db' = snd (context_commit env auth v now later db)}"

lemma update_fenced: "snd (sw_update asks now later i mutate fence db) \<noteq> db \<Longrightarrow> fence_holds asks later fence"
  by (cases "sw_update asks now later i mutate fence db") (auto elim: sw_update_cases)

lemma create_fenced: "snd (sw_create asks now later sw fence db) \<noteq> db \<Longrightarrow> fence_holds asks later fence"
  by (cases "sw_create asks now later sw fence db") (auto elim: sw_create_cases)

lemma first_fenced:
  assumes "snd (spawn_first env caller plan now later fresh db) \<noteq> db"
  shows "fence_holds (Some (se_authority env)) later (au_fence (pl_auth plan))"
proof -
  obtain sw where "snd (sw_create (Some (se_authority env)) now later sw (au_fence (pl_auth plan)) db) \<noteq> db"
    using assms by (cases "and_then (prepareInitialSwarm env caller (pl_auth plan) (pl_settings plan) (pl_backend plan) now) (reserve plan now fresh)")
      (auto simp: spawn_first_def)
  then show ?thesis by (rule create_fenced)
qed

text \<open>Calls that must not throw, branch by branch.\<close>

lemma no_throw:
  "(case x of None \<Rightarrow> Inl e | Some s \<Rightarrow> f s) = Inr z \<longleftrightarrow> (\<exists>s. x = Some s \<and> f s = Inr z)"
  "(if c then Inl e else r) = Inr z \<longleftrightarrow> \<not> c \<and> r = Inr z"
  by (cases x; simp)+

lemma bound:
  "(if c then Inr None else r) = Inr (Some v) \<longleftrightarrow> \<not> c \<and> r = Inr (Some v)"
  "(case y of None \<Rightarrow> if c then Inl e else Inr None | Some s \<Rightarrow> g s) = Inr (Some v) \<longleftrightarrow> (\<exists>s. y = Some s \<and> g s = Inr (Some v))"
  by (cases y; simp)+

lemma caller_writes_fenced:
  assumes "db' \<in> caller_writes env auth now later db" "db' \<noteq> db"
  shows "fence_holds (Some (se_authority env)) later (au_fence auth)"
  using assms by (auto simp: caller_writes_def spawn_more_def send_commit_def context_commit_def dest: update_fenced first_fenced)

lemma authority_Inr:
  assumes "authority env caller now db = Inr (auth, existing)"
  obtains session fence rootId memberId where "caller_fence env now session caller = Inr fence" "threadIdentity (sv_threadRef session) (sv_id session) = Inr (rootId, memberId)"
    "auth = \<lparr>au_fence = fence, au_sessionId = sv_id session, au_actorId = caller_actor caller, au_rootId = rootId, au_memberId = memberId\<rparr>"
    "existing = map_of db rootId"
  using assms unfolding authority_def Let_def no_throw and_then_Inr split_paired_Ex prod.case
  by (elim exE conjE) (split option.split_asm, auto simp: no_throw and_then_Inr intro: that)

lemma authority_existing: "authority env caller now db = Inr (auth, existing) \<Longrightarrow> existing = map_of db (au_rootId auth)"
  by (erule authority_Inr) simp

lemma authority_fence:
  assumes "authority env (AgentCaller claims) now db = Inr (auth, existing)"
  obtains session :: session_view where "au_sessionId auth = sv_id session" "sv_scopeId session = cl_scopeId claims"
    "au_fence auth = Some \<lparr>sf_runId = the (cl_runId claims), sf_attempt = cl_runAttempt claims, sf_leaseToken = cl_runLeaseToken claims, sf_sessionId = sv_id session,
       sf_threadRef = sv_threadRef session, sf_actorId = cl_actorId claims, sf_scopeId = sv_scopeId session\<rparr>"
proof -
  obtain session fence where "caller_fence env now session (AgentCaller claims) = Inr fence" "au_sessionId auth = sv_id session" "au_fence auth = fence"
    using authority_Inr [OF assms] by (metis swarm_auth.select_convs(1,2))
  with that [of session] show ?thesis
    unfolding caller_fence_def Let_def swarm_caller.case no_throw and_then_Inr by auto
qed

text \<open>C10: An agent writes to a swarm only while its run holds its lease. Whatever it read before, when a spawn, a message or a change of context made for an agent
  changes the table, then at that moment the run named in its capability is running under the lease token and attempt of the capability, the lease has not
  run out, the run belongs to the actor, and the session of the run is still in the scope of the capability.\<close>

theorem swarm_write_fenced:
  assumes "authority env0 (AgentCaller claims) t0 old = Inr (auth, existing)" "db' \<in> caller_writes env auth now later db" "db' \<noteq> db"
  shows "\<exists>r s e. sa_run (se_authority env) (the (cl_runId claims)) = Some r \<and> run_status r = Running \<and> run_leaseToken r = cl_runLeaseToken claims \<and>
    truthy (run_leaseToken r) \<and> Some (run_attempts r) = cl_runAttempt claims \<and> run_leaseExpiresAt r = Some e \<and> later < e \<and> p_id (oi_actor (run_request r)) = cl_actorId claims \<and>
    sa_session (se_authority env) (au_sessionId auth) = Some s \<and> sv_threadRef s = run_sessionId r \<and> sv_scopeId s = cl_scopeId claims"
proof -
  obtain session :: session_view where session: "au_sessionId auth = sv_id session" "sv_scopeId session = cl_scopeId claims"
    and fence: "au_fence auth = Some \<lparr>sf_runId = the (cl_runId claims), sf_attempt = cl_runAttempt claims, sf_leaseToken = cl_runLeaseToken claims,
      sf_sessionId = sv_id session, sf_threadRef = sv_threadRef session, sf_actorId = cl_actorId claims, sf_scopeId = sv_scopeId session\<rparr>"
    using assms(1) by (rule authority_fence)
  let ?f = "\<lparr>sf_runId = the (cl_runId claims), sf_attempt = cl_runAttempt claims, sf_leaseToken = cl_runLeaseToken claims,
      sf_sessionId = sv_id session, sf_threadRef = sv_threadRef session, sf_actorId = cl_actorId claims, sf_scopeId = sv_scopeId session\<rparr>"
  have "fence_holds (Some (se_authority env)) later (Some ?f)" using caller_writes_fenced [OF assms(2,3)] unfolding fence .
  then obtain r where r: "sa_run (se_authority env) (the (cl_runId claims)) = Some r" and live: "live_run ?f later r" and here: "session_matches (se_authority env) ?f"
    unfolding fence_holds_def by auto
  obtain e where e: "run_leaseExpiresAt r = Some e" "later < e" using live by (cases "run_leaseExpiresAt r") (auto simp: live_run_def)
  obtain s where s: "sa_session (se_authority env) (sv_id session) = Some s" "sv_scopeId s = sv_scopeId session" "sv_threadRef s = sv_threadRef session"
    using here by (cases "sa_session (se_authority env) (sv_id session)") (auto simp: session_matches_def)
  have "run_status r = Running" "run_leaseToken r = cl_runLeaseToken claims" "truthy (cl_runLeaseToken claims)" "Some (run_attempts r) = cl_runAttempt claims"
    "run_sessionId r = sv_threadRef session" "p_id (oi_actor (run_request r)) = cl_actorId claims"
    using live by (simp_all add: live_run_def)
  with r e s session show ?thesis by (intro exI [of _ r] exI [of _ s] exI [of _ e]) simp
qed

text \<open>With runs in Postgres: once another worker has claimed the run, the agent of the earlier attempt writes nothing more.\<close>

lemma reclaimed_agent_writes_nothing:
  assumes "authority env0 (AgentCaller claims) t0 old = Inr (auth, existing)" "db' \<in> caller_writes env auth now later db"
    and "pg_run_reachable m s" "pg_claim w ttl t tok None None snapshot locked (pgs_db s) = (Some r, runs)" "sa_run (se_authority env) = (\<lambda>j. pg_getRun j runs)"
    and "cl_runId claims = Some (run_id r)" "cl_runLeaseToken claims \<noteq> Some tok"
  shows "db' = db"
proof (rule ccontr)
  assume "db' \<noteq> db"
  with assms(2) have "fence_holds (Some (se_authority env)) later (au_fence auth)" by (rule caller_writes_fenced)
  moreover have "\<exists>f. au_fence auth = Some f \<and> sf_runId f = run_id r \<and> sf_leaseToken f = cl_runLeaseToken claims"
    by (rule authority_fence [OF assms(1)]) (use assms(6) in auto)
  ultimately obtain r' where "pg_getRun (run_id r) runs = Some r'" "run_leaseToken r' = cl_runLeaseToken claims"
    using assms(5) by (auto simp: fence_holds_def live_run_def)
  with claimed_held [OF assms(3,4)] assms(7) show False by (auto simp: holds_def)
qed

subsection \<open>Requests\<close>

lemma recorded_request:
  assumes "swarm_history (db # h)" "old \<in> set (db # h)" "map_of old i = Some sw0" "map_of (sw_spawnRequests sw0) key = Some (ids, sig)"
  obtains sw where "map_of db i = Some sw" "swarm_ok i sw" "map_of (sw_spawnRequests sw) key = Some (ids, sig)"
    "map sm_id (filter (\<lambda>m. sm_id m \<in> set ids) (sw_members sw)) = ids"
proof -
  have ok: "table_ok db" "table_grows old db" using history_ok [OF assms(1)] assms(2) by auto
  obtain sw where sw: "map_of db i = Some sw" "grows sw0 sw" using table_growsD [OF ok(2) assms(3)] by blast
  have "swarm_ok i sw" using ok(1) sw(1) by (simp add: table_ok_def)
  moreover have key: "map_of (sw_spawnRequests sw) key = Some (ids, sig)"
    using sw(2) assms(4) by (force simp: grows_def map_le_def dom_def)
  moreover have "filter (\<lambda>i. i \<in> set ids) (map sm_id (sw_members sw)) = ids"
    using \<open>swarm_ok i sw\<close> map_of_SomeD [OF key] frames_distinct_ids(2) [of "sw_members sw"]
    by (fastforce simp: swarm_ok_def swarm_core_def requests_ok_def swarm_frame_def simp del: map_map)
  ultimately show ?thesis using that sw(1) by (simp add: filter_map comp_def)
qed

lemma view_ids: "map sm_id (map member_view ms) = map sm_id ms"
  by (simp add: member_view_def)

text \<open>C11: A spawn request is carried out once. After a request was recorded in any earlier state of the table, a commit with the same key, as a racing call
  makes it, and a whole repeated call leave every swarm as it is; they answer with exactly the members that the first one made, in their order, and a commit
  with other content is refused.\<close>

theorem spawn_request_once:
  assumes "swarm_history (db # h)" "old \<in> set (db # h)" "map_of old i = Some sw0" "map_of (sw_spawnRequests sw0) key = Some (ids, sig)"
  shows "(au_rootId (pl_auth plan) = i \<longrightarrow> pl_key plan = key \<longrightarrow> spawn_more env plan now later fresh db = (res, db') \<longrightarrow>
      map_of db' = map_of db \<and> (\<forall>sw. res = Inr sw \<longrightarrow> sig = pl_fingerprint plan \<and> (\<exists>ms. spawned plan sw = Inr ms \<and> map sm_id ms = ids))) \<and>
    (authority env caller now db = Inr (auth, existing) \<longrightarrow> au_rootId auth = i \<longrightarrow> request_key env auth caller (sp_requestId inp) = key \<longrightarrow>
      spawn env caller inp now later fresh db = (answer, db'') \<longrightarrow> db'' = db \<and> (\<forall>ms. answer = Inr ms \<longrightarrow> map sm_id ms = ids))"
proof -
  obtain sw where sw: "map_of db i = Some sw" "swarm_ok i sw" "map_of (sw_spawnRequests sw) key = Some (ids, sig)"
    and ids: "map sm_id (filter (\<lambda>m. sm_id m \<in> set ids) (sw_members sw)) = ids"
    using assms by (rule recorded_request)
  have flag: "sw\<lparr>sw_pending := has_pending sw\<rparr> = sw" using sw(2) by (simp add: swarm_ok_def)
  have racing: "map_of db' = map_of db \<and> (\<forall>sw. res = Inr sw \<longrightarrow> sig = pl_fingerprint plan \<and> (\<exists>ms. spawned plan sw = Inr ms \<and> map sm_id ms = ids))"
    if root: "au_rootId (pl_auth plan) = i" and key: "pl_key plan = key" and more: "spawn_more env plan now later fresh db = (res, db')"
    using more unfolding spawn_more_def root
  proof (cases rule: sw_update_cases)
    case (written cur new)
    have "cur = sw" using written(1) sw(1) by simp
    with written(2) sw(3) have "new = sw" "sig = pl_fingerprint plan" by (simp_all add: reserve_known key split: if_splits)
    with written(3,4) flag have res: "res = Inr sw" "db' = AList.update i sw db" by simp_all
    have "spawned plan sw = Inr (map member_view (filter (\<lambda>m. sm_id m \<in> set ids) (sw_members sw)))"
      using sw(3) key \<open>sig = pl_fingerprint plan\<close> by (simp add: spawned_def)
    then have "\<exists>ms. spawned plan sw = Inr ms \<and> map sm_id ms = ids" using ids view_ids by metis
    then show ?thesis using res sw(1) \<open>sig = pl_fingerprint plan\<close> by (auto simp: update_conv' fun_upd_idem)
  qed simp
  have repeated: "db'' = db \<and> (\<forall>ms. answer = Inr ms \<longrightarrow> map sm_id ms = ids)"
    if auth: "authority env caller now db = Inr (auth, existing)" "au_rootId auth = i" and key: "request_key env auth caller (sp_requestId inp) = key"
      and call: "spawn env caller inp now later fresh db = (answer, db'')"
  proof -
    have existing: "existing = Some sw" using authority_existing [OF auth(1)] auth(2) sw(1) by simp
    have "(\<exists>e. spawn_begin env caller inp now db = Inl e) \<or>
      spawn_begin env caller inp now db = Inr (SpawnReplay (map member_view (filter (\<lambda>m. sm_id m \<in> set ids) (sw_members sw))))"
      using auth(1) existing key sw(3) by (cases "boundedText (sp_requestId inp) 128 ''requestId''") (simp_all add: spawn_begin_def)
    then show ?thesis using call ids view_ids by (auto simp: spawn_def simp del: map_map)
  qed
  show ?thesis using racing repeated by blast
qed

subsection \<open>Turns\<close>

lemma target_not_execution: "''deliveryTarget'' \<notin> set execution_keys"
  by (simp add: execution_keys_def)


subsection \<open>Examples\<close>

definition pool_person :: principal where
  "pool_person = \<lparr>p_id = ''u1'', p_type = Internal, p_teamIds = None, p_displayName = None\<rparr>"

definition pool_request :: orchestrator_input where
  "pool_request =
     \<lparr>oi_text = ''go'', oi_displayText = None, oi_surface = Some ''web'', oi_deliveryTarget = None, oi_privateSessionMessage = False, oi_swarm = False,
      oi_actor = pool_person,
      oi_conversation = \<lparr>c_kind = DmConversation, c_threadRef = ''web:1'', c_channelRef = None, c_channelName = None, c_audience = [pool_person],
        c_isPrivate = None, c_isMpim = None, c_publishMembers = None\<rparr>,
      oi_origin = None\<rparr>"

definition pool_run :: "string \<Rightarrow> string \<Rightarrow> run" where
  "pool_run i thread =
     \<lparr>run_id = i, run_sessionId = thread, run_status = Running, run_request = pool_request, run_result = None, run_deliveryState = None,
      run_turnUserSeq = None, run_dedupKey = None, run_attempts = 1, run_errorAttempts = 0, run_maxAttempts = 3, run_leaseToken = Some ''t1'',
      run_leaseExpiresAt = Some 1000, run_workerId = Some ''w1'', run_createdAt = 1, run_startedAt = Some 2, run_finishedAt = None\<rparr>"

definition pool_session :: "string \<Rightarrow> string \<Rightarrow> session_view" where
  "pool_session i thread = \<lparr>sv_id = i, sv_threadRef = thread, sv_scopeId = ''personal:u1''\<rparr>"

definition pool_sessions :: "string \<Rightarrow> session_view option" where
  "pool_sessions t = map_of [(''s1'', pool_session ''s1'' ''web:1''), (''s2'', pool_session ''s2'' ''swarm:s1:m'')] t"

definition pool_env :: swarm_env where
  "pool_env =
     \<lparr>se_authority = \<lparr>sa_session = pool_sessions, sa_run = (\<lambda>i. if i = ''r1'' then Some (pool_run ''r1'' ''web:1'') else None), sa_pg = True\<rparr>,
      se_byThread = (\<lambda>t. map_of [(''web:1'', pool_session ''s1'' ''web:1''), (''swarm:s1:m'', pool_session ''s2'' ''swarm:s1:m'')] t),
      se_participants = (\<lambda>_. [''u1'']),
      se_requestOf = (\<lambda>_. orchestrator_input.extend pool_request (swarm_input.fields None None None None None None None None None None None None [])),
      se_authorize = (\<lambda>_ _ _ _. True), se_inventory = (\<lambda>_ _. \<lparr>sb_providers = [(''docker'', [''create'', ''retire''])], sb_selected = None, sb_default = ''docker''\<rparr>),
      se_forumScope = (\<lambda>_ _. Inl SwarmTypeError),
      se_byDedupKey = (\<lambda>k. if k = ''swarm:mx:m'' then Some (pool_run ''r2'' ''swarm:s1:m'') else None), se_sha256 = (\<lambda>_. ''h''), se_defaults = SWARM_DEFAULTS\<rparr>"

definition pool_claims :: swarm_claims where
  "pool_claims =
     \<lparr>cl_actorId = ''u1'', cl_threadRef = Some ''web:1'', cl_scopeId = ''personal:u1'', cl_runId = Some ''r1'', cl_sessionId = Some ''s1'', cl_runAttempt = Some 1,
      cl_runLeaseToken = Some ''t1'', cl_members = None\<rparr>"

definition pool_input :: spawn_input where
  "pool_input =
     \<lparr>sp_requestId = ''q1'', sp_count = None, sp_context = None, sp_contexts = None, sp_text = ''work'', sp_forumSandboxId = None, sp_settings = None, sp_backend = None\<rparr>"

text \<open>The identifiers drawn are \<open>m\<close>, \<open>mx\<close>, \<open>mxx\<close> and so on.\<close>

definition pool_fresh :: "nat \<Rightarrow> string" where
  "pool_fresh k = CHR ''m'' # replicate k (CHR ''x'')"

definition pool_auth :: swarm_auth where
  "pool_auth =
     \<lparr>au_fence = Some \<lparr>sf_runId = ''r1'', sf_attempt = Some 1, sf_leaseToken = Some ''t1'', sf_sessionId = ''s1'', sf_threadRef = ''web:1'', sf_actorId = ''u1'',
        sf_scopeId = ''personal:u1''\<rparr>,
      au_sessionId = ''s1'', au_actorId = ''u1'', au_rootId = ''s1'', au_memberId = ''s1''\<rparr>"

definition pool_plan :: spawn_plan where
  "pool_plan =
     \<lparr>pl_auth = pool_auth, pl_author = AuthorAgent, pl_key = ''h'', pl_fingerprint = ''h'', pl_settings = SWARM_DEFAULTS, pl_contexts = [JObj []],
      pl_text = ''work'', pl_forumSandboxId = None, pl_backend = None\<rparr>"

lemmas pool_defs = pool_env_def pool_claims_def pool_input_def pool_auth_def pool_plan_def pool_run_def pool_request_def pool_person_def pool_session_def pool_sessions_def

lemma pool_fence: "t < 1000 \<Longrightarrow> caller_fence pool_env t (pool_session ''s1'' ''web:1'') (AgentCaller pool_claims) = Inr (au_fence pool_auth)"
  by (simp add: caller_fence_def pool_defs truthy_def conversationScope_def scopeId_def kind_name_def assertSwarmRun_def live_run_def)

lemma pool_identity: "threadIdentity ''web:1'' ''s1'' = Inr (''s1'', ''s1'')" "threadIdentity ''swarm:s1:m'' ''s2'' = Inr (''s1'', ''m'')"
  by (simp_all add: threadIdentity_def starts_with_def)

lemma pool_lookups:
  "se_byThread pool_env ''web:1'' = Some (pool_session ''s1'' ''web:1'')" "se_byThread pool_env ''swarm:s1:m'' = Some (pool_session ''s2'' ''swarm:s1:m'')"
  "sa_session (se_authority pool_env) ''s1'' = Some (pool_session ''s1'' ''web:1'')" "se_participants pool_env x = [''u1'']"
  "sa_run (se_authority pool_env) ''r1'' = Some (pool_run ''r1'' ''web:1'')" "se_authorize pool_env x y z v" "se_defaults pool_env = SWARM_DEFAULTS"
  "se_sha256 pool_env w = ''h''" "se_byDedupKey pool_env ''swarm:mx:m'' = Some (pool_run ''r2'' ''swarm:s1:m'')"
  "sv_id (pool_session j th) = j" "sv_threadRef (pool_session j th) = th" "sv_scopeId (pool_session j th) = ''personal:u1''"
  "caller_actor (AgentCaller pool_claims) = ''u1''" "cl_threadRef pool_claims = Some ''web:1''"
  by (simp_all add: pool_defs caller_actor_def)

lemma pool_authority: "t < 1000 \<Longrightarrow> authority pool_env (AgentCaller pool_claims) t [] = Inr (pool_auth, None)"
  by (simp add: authority_def Let_def pool_lookups pool_fence pool_identity) (simp add: pool_auth_def)

lemma pool_settings: "resolveSwarmSettings None SWARM_DEFAULTS = Inr SWARM_DEFAULTS"
  by code_simp

lemma default_fields:
  "ss_agents SWARM_DEFAULTS = 32" "ss_depth SWARM_DEFAULTS = 4" "ss_messages SWARM_DEFAULTS = 128" "ss_notifications SWARM_DEFAULTS = 256"
  "ss_spawnRequests SWARM_DEFAULTS = 32" "ss_contextBytes SWARM_DEFAULTS = 8192" "ss_textBytes SWARM_DEFAULTS = 8192" "ss_lifetimeMs SWARM_DEFAULTS = 3600000"
  by (simp_all add: SWARM_DEFAULTS_def)

lemma pool_planned: "spawn_begin pool_env (AgentCaller pool_claims) pool_input 10 [] = Inr (SpawnInitial pool_plan)"
proof -
  have "plan_spawn pool_env (AgentCaller pool_claims) pool_input pool_auth None = Inr (SpawnInitial pool_plan)"
    by (simp add: plan_spawn_def spawn_settings_def pool_lookups pool_input_def pool_settings boundedText_def trim_def is_space_def spawn_count_def
        spawn_contexts_def jsonContext_def forum_allowed_def request_key_def swarm_signature_def caller_author_def pool_plan_def default_fields)
  then show ?thesis by (simp add: spawn_begin_def pool_authority) (simp add: pool_input_def boundedText_def trim_def is_space_def)
qed

lemma pool_fresh_drawn: "ids_drawn_for pool_fresh n pool_env []"
  by (auto simp: ids_drawn_for_def pool_fresh_def inj_on_def pool_env_def pool_sessions_def pool_session_def split: if_splits)

definition pool_table :: swarm_db where
  "pool_table = snd (spawn_first pool_env (AgentCaller pool_claims) pool_plan 20 30 pool_fresh [])"

lemma pool_history: "swarm_history [pool_table, []]"
  unfolding pool_table_def by (rule history_first [OF history_empty _ pool_planned pool_fresh_drawn prod.collapse [symmetric]]) simp

definition pool_root :: swarm_member where
  "pool_root = root_member (pool_session ''s1'' ''web:1'')"

definition pool_swarm :: swarm where
  "pool_swarm =
     \<lparr>sw_id = ''s1'', sw_scopeId = ''personal:u1'', sw_ownerId = ''u1'', sw_participants = [''u1''], sw_createdAt = 20, sw_expiresAt = 3600020,
      sw_template = swarm_template pool_request (se_requestOf pool_env ''r1'') SWARM_DEFAULTS, sw_settings = SWARM_DEFAULTS, sw_backend = ''docker'',
      sw_members = [pool_root,
        \<lparr>sm_id = ''m'', sm_sessionId = None, sm_sessionUrl = None, sm_threadRef = ''swarm:s1:m'', sm_parentId = Some ''s1'', sm_depth = 1, sm_context = JObj [],
          sm_sandboxId = Some ''m'', sm_forumSandboxId = None, sm_state = MemberReserved, sm_attempts = 0, sm_cleanupPending = None, sm_error = None\<rparr>],
      sw_messages = [\<lparr>sg_id = ''mx'', sg_seq = 1, sg_senderId = ''s1'', sg_senderSessionId = ''s1'', sg_author = AuthorAgent, sg_actorId = ''u1'', sg_text = ''work'',
        sg_audience = [''m''], sg_replyTo = None, sg_createdAt = 20, sg_notifications = [(''m'', pending_note)]\<rparr>],
      sw_spawnRequests = [(''h'', [''m''], ''h'')], sw_messageRequests = [], sw_notificationCount = 1, sw_pending = True\<rparr>"

lemma pool_row: "pool_table = [(''s1'', pool_swarm)]"
proof -
  let ?initial = "pool_swarm\<lparr>sw_members := [pool_root], sw_messages := [], sw_spawnRequests := [], sw_notificationCount := 0\<rparr>"
  have "prepareInitialSwarm pool_env (AgentCaller pool_claims) pool_auth SWARM_DEFAULTS None 20 = Inr ?initial"
    by (simp add: prepareInitialSwarm_def initial_backend_def pool_defs pool_swarm_def pool_root_def conversationScope_def scopeId_def kind_name_def default_fields)
  moreover have "reserve pool_plan 20 pool_fresh ?initial = Inr pool_swarm"
    by (simp add: reserve_def admit_spawn_def assertSwarmOpen_def find_member_def pool_plan_def pool_auth_def pool_swarm_def pool_root_def root_member_def default_fields Let_def
        new_member_def spawn_message_def pending_notes_def uniq_def pool_fresh_def encodeURIComponent_def uri_char_def uri_plain_def pool_session_def)
  ultimately show ?thesis
    by (simp add: pool_table_def spawn_first_def pool_plan_def)
      (simp add: sw_create_def fencedWrite_def write_row_def pool_defs assertSwarmRun_def live_run_def session_matches_def assertSwarmOpen_def pool_swarm_def)
qed

lemma thread_identity_roundtrip_witness:
  "threadIdentity (sm_threadRef (new_member pool_plan pool_swarm pool_root ''m'' (JObj []))) ''s2'' = Inr (''s1'', ''m'')"
  using thread_identity_roundtrip [of pool_swarm "''m''" pool_plan pool_root "JObj []" "''s2''"] by (simp add: pool_swarm_def)

theorem swarm_within_budget_witness:
  "length (sw_members pool_swarm) = 2 \<and> sw_notificationCount pool_swarm = 1 \<and> sum_list (map (\<lambda>g. length (sg_notifications g)) (sw_messages pool_swarm)) = 1 \<and>
   has_pending pool_swarm"
proof -
  have "length (sw_members pool_swarm) = 2" "sw_notificationCount pool_swarm = 1" "sw_pending pool_swarm" by (simp_all add: pool_swarm_def)
  then show ?thesis using swarm_within_budget [OF pool_history, of "''s1''" pool_swarm] by (simp add: pool_row)
qed

theorem swarm_write_fenced_witness:
  "\<exists>r s e. sa_run (se_authority pool_env) ''r1'' = Some r \<and> run_status r = Running \<and> run_leaseToken r = Some ''t1'' \<and> run_leaseExpiresAt r = Some e \<and> 30 < e \<and>
    sa_session (se_authority pool_env) ''s1'' = Some s \<and> sv_scopeId s = ''personal:u1''"
proof -
  have "pl_auth pool_plan = pool_auth" "au_sessionId pool_auth = ''s1''" "cl_runId pool_claims = Some ''r1''" "cl_runLeaseToken pool_claims = Some ''t1''"
    "cl_scopeId pool_claims = ''personal:u1''" by (simp_all add: pool_defs)
  moreover from this have "pool_table \<in> caller_writes pool_env pool_auth 20 30 []" unfolding caller_writes_def pool_table_def by blast
  moreover have "pool_table \<noteq> []" "(10 :: int) < 1000" by (simp_all add: pool_row)
  ultimately show ?thesis
    using swarm_write_fenced [OF pool_authority [of 10], of pool_table pool_env 20 30 "[]"] by auto
qed

lemma pool_authority_again: "t < 1000 \<Longrightarrow> authority pool_env (AgentCaller pool_claims) t pool_table = Inr (pool_auth, Some pool_swarm)"
  by (simp add: authority_def Let_def pool_lookups pool_fence pool_identity pool_row swarm_admits_def rosterMatches_def uniq_def)
    (simp add: pool_auth_def pool_swarm_def pool_root_def root_member_def pool_session_def)

theorem spawn_request_once_witness:
  "map_of (snd (spawn_more pool_env pool_plan 40 41 pool_fresh pool_table)) = map_of pool_table \<and>
   (\<exists>ms. fst (spawn pool_env (AgentCaller pool_claims) pool_input 40 41 pool_fresh pool_table) = Inr ms \<and> map sm_id ms = [''m''])"
proof -
  let ?more = "spawn_more pool_env pool_plan 40 41 pool_fresh pool_table" and ?call = "spawn pool_env (AgentCaller pool_claims) pool_input 40 41 pool_fresh pool_table"
  have recorded: "map_of (sw_spawnRequests pool_swarm) ''h'' = Some ([''m''], ''h'')" by (simp add: pool_swarm_def)
  have root: "au_rootId (pl_auth pool_plan) = ''s1''" "pl_key pool_plan = ''h''" "au_rootId pool_auth = ''s1''" by (simp_all add: pool_defs)
  have key: "request_key pool_env pool_auth (AgentCaller pool_claims) (sp_requestId pool_input) = ''h''" by (simp add: request_key_def swarm_signature_def pool_lookups)
  have "boundedText (sp_requestId pool_input) 128 ''requestId'' = Inr ()" by (simp add: boundedText_def pool_input_def trim_def is_space_def)
  then have "\<exists>ms. fst ?call = Inr ms"
    by (simp add: spawn_def spawn_begin_def pool_authority_again key recorded) (simp add: swarm_signature_def pool_lookups)
  then show ?thesis
    using spawn_request_once [OF pool_history, of pool_table "''s1''" pool_swarm "''h''" "[''m'']" "''h''" pool_plan pool_env 40 41 pool_fresh
      "fst ?more" "snd ?more" "AgentCaller pool_claims" pool_auth "Some pool_swarm" pool_input "fst ?call" "snd ?call"] recorded root key pool_authority_again [of 40]
    by (auto simp: pool_row)
qed

definition pool_ready :: swarm_db where
  "pool_ready = snd (mark_ready ''s1'' ''m'' ''s2'' 1000 40 pool_table)"

definition pool_worker :: swarm_member where
  "pool_worker = (last (sw_members pool_swarm))\<lparr>sm_state := MemberReady, sm_sessionId := Some ''s2''\<rparr>"

lemma pool_ready_row: "pool_ready = [(''s1'', pool_swarm\<lparr>sw_members := [pool_root, pool_worker]\<rparr>)]"
  by (simp add: pool_ready_def mark_ready_def sw_update_def write_row_def sw_apply_def pool_row)
    (simp add: pool_swarm_def pool_worker_def assertSwarmOpen_def change_member_def find_member_def pool_root_def root_member_def pool_session_def has_pending_def
      map_values_def pending_note_def)

definition pool_turn :: swarm_input where
  "pool_turn = (dispatchRequest pool_swarm (hd (sw_messages pool_swarm)) pool_worker)\<lparr>si_runId := Some ''r2''\<rparr>"

lemma pool_bound: "binding pool_env pool_turn 50 pool_ready = Inr (Some (binding_of (pool_swarm\<lparr>sw_members := [pool_root, pool_worker]\<rparr>) pool_worker))"
proof -
  let ?sw = "pool_swarm\<lparr>sw_members := [pool_root, pool_worker]\<rparr>"
  have turn: "si_turn pool_turn = Some \<lparr>st_swarmId = ''s1'', st_messageId = ''mx'', st_recipientId = ''m''\<rparr>" "c_threadRef (oi_conversation pool_turn) = ''swarm:s1:m''"
    by (simp_all add: pool_turn_def dispatchRequest_def pool_swarm_def pool_worker_def)
  have "matchesDispatch pool_turn (dispatchRequest ?sw (hd (sw_messages pool_swarm)) pool_worker)"
    by (simp add: matchesDispatch_def dispatchContract_def pool_turn_def dispatchRequest_def present_keys_def) (simp add: pool_swarm_def swarm_template_def Let_def)
  moreover have "find_message ''mx'' ?sw = Some (hd (sw_messages pool_swarm))" by (simp add: find_message_def pool_swarm_def)
  ultimately have "\<not> forged pool_env pool_turn \<lparr>st_swarmId = ''s1'', st_messageId = ''mx'', st_recipientId = ''m''\<rparr> ?sw pool_worker"
    by (simp add: forged_def) (simp add: pool_swarm_def pool_worker_def swarm_dedupKey_def pool_lookups pool_turn_def dispatchRequest_def swarm_template_def Let_def
        pool_run_def pool_request_def pool_person_def)
  moreover have "still_authorized pool_env pool_turn (pool_session ''s2'' ''swarm:s1:m'') ?sw"
    by (simp add: still_authorized_def pool_lookups rosterMatches_def uniq_def) (simp add: pool_swarm_def pool_turn_def dispatchRequest_def swarm_template_def Let_def
        pool_request_def pool_person_def conversationScope_def scopeId_def kind_name_def)
  moreover have "find_member ''m'' ?sw = Some pool_worker" "sm_state pool_worker = MemberReady" "sm_sessionId pool_worker = Some ''s2''" "sw_scopeId ?sw = ''personal:u1''"
    "sw_expiresAt ?sw = 3600020"
    by (simp_all add: find_member_def pool_root_def root_member_def pool_session_def pool_worker_def pool_swarm_def)
  ultimately show ?thesis by (simp add: binding_def turn pool_lookups pool_identity pool_ready_row assertSwarmOpen_def)
qed


end
