(* ===== verification/Usage_Limits.thy ===== *)
theory Usage_Limits
  imports Complex_Main Durable_Map
begin

text \<open>
  Limits on what a principal may do: the fixed-window rate limiter (\<^verbatim>\<open>src/src/ratelimit/rate-limiter.ts\<close>,
  \<^verbatim>\<open>postgres-rate-limiter.ts\<close>), the spending budget (\<^verbatim>\<open>budget.ts\<close>, \<^verbatim>\<open>postgres-budget.ts\<close>), the replay filter for
  signed events (\<^verbatim>\<open>src/src/auth/replay-dedupe.ts\<close>) and the idempotency store
  (\<^verbatim>\<open>src/src/idempotency/idempotency-store.ts\<close>). The clock is an argument of each operation. Both rate limiters
  implement the interface \<open>rate_limiter\<close>, in which the bound on the number of admitted requests is proved
  once. Amounts of money are exact numbers; \<open>None\<close> stands for the limit \<open>Infinity\<close>.
\<close>

subsection \<open>Rate limiters\<close>

record rate_decision =
  rd_allowed :: bool
  rd_retryAfterMs :: "time option"

record rate_options =
  ro_maxPerWindow :: int
  ro_windowMs :: time

record rate_window =
  rw_windowStart :: time
  rw_count :: int

definition rl_check :: "rate_options \<Rightarrow> time \<Rightarrow> string \<Rightarrow> rate_window js_map \<Rightarrow> rate_decision \<times> rate_window js_map" where
  "rl_check opts t principalId state =
     (let opened = (\<lparr>rd_allowed = True, rd_retryAfterMs = None\<rparr>,
                    AList.update principalId \<lparr>rw_windowStart = t, rw_count = 1\<rparr> state) in
      case map_of state principalId of
        None \<Rightarrow> opened
      | Some s \<Rightarrow>
          if t - rw_windowStart s \<ge> ro_windowMs opts then opened
          else if rw_count s \<ge> ro_maxPerWindow opts
          then (\<lparr>rd_allowed = False, rd_retryAfterMs = Some (ro_windowMs opts - (t - rw_windowStart s))\<rparr>, state)
          else (\<lparr>rd_allowed = True, rd_retryAfterMs = None\<rparr>,
                AList.update principalId (s\<lparr>rw_count := rw_count s + 1\<rparr>) state))"

text \<open>The upsert of the Postgres limiter is one statement: it inserts the row or rewrites both columns, and returns the row.\<close>

definition pg_rate_upsert :: "rate_options \<Rightarrow> time \<Rightarrow> string \<Rightarrow> rate_window js_map \<Rightarrow> rate_window" where
  "pg_rate_upsert opts now principalId rows =
     (case map_of rows principalId of
        None \<Rightarrow> \<lparr>rw_windowStart = now, rw_count = 1\<rparr>
      | Some r \<Rightarrow>
          \<lparr>rw_windowStart = (if now - rw_windowStart r \<ge> ro_windowMs opts then now else rw_windowStart r),
           rw_count = (if now - rw_windowStart r \<ge> ro_windowMs opts then 1 else rw_count r + 1)\<rparr>)"

definition pg_rl_check :: "rate_options \<Rightarrow> time \<Rightarrow> string \<Rightarrow> rate_window js_map \<Rightarrow> rate_decision \<times> rate_window js_map" where
  "pg_rl_check opts now principalId rows =
     (let row = pg_rate_upsert opts now principalId rows in
      (if rw_count row \<le> ro_maxPerWindow opts
       then \<lparr>rd_allowed = True, rd_retryAfterMs = None\<rparr>
       else \<lparr>rd_allowed = False, rd_retryAfterMs = Some (max 0 (ro_windowMs opts - (now - rw_windowStart row)))\<rparr>,
       AList.update principalId row rows))"

text \<open>A trace of requests, each a time and a principal, and the decisions it gets.\<close>

fun rate_run :: "(time \<Rightarrow> string \<Rightarrow> 's \<Rightarrow> rate_decision \<times> 's) \<Rightarrow> (time \<times> string) list \<Rightarrow> 's \<Rightarrow> rate_decision list" where
  "rate_run check [] st = []"
| "rate_run check ((t, p) # reqs) st = (let (d, st') = check t p st in d # rate_run check reqs st')"

definition admitted :: "string \<Rightarrow> time \<Rightarrow> time \<Rightarrow> (time \<times> string) list \<Rightarrow> rate_decision list \<Rightarrow> nat" where
  "admitted p a b reqs ds = length (filter (\<lambda>((t, q), d). q = p \<and> a \<le> t \<and> t < b \<and> rd_allowed d) (zip reqs ds))"

lemma admitted_Nil [simp]: "admitted p a b [] ds = 0"
  by (simp add: admitted_def)

lemma admitted_Cons [simp]:
  "admitted p a b ((t, q) # reqs) (d # ds) = (if q = p \<and> a \<le> t \<and> t < b \<and> rd_allowed d then 1 else 0) + admitted p a b reqs ds"
  by (simp add: admitted_def)

text \<open>The interface of a rate limiter: the window of each principal, and what a request does to it.\<close>

locale rate_limiter =
  fixes mx :: int and win :: time
    and check :: "time \<Rightarrow> string \<Rightarrow> 's \<Rightarrow> rate_decision \<times> 's"
    and window :: "'s \<Rightarrow> string \<Rightarrow> (time \<times> int) option"
  assumes check_open: "1 \<le> mx \<Longrightarrow> window st p = None \<or> (\<exists>s c. window st p = Some (s, c) \<and> win \<le> t - s) \<Longrightarrow>
      check t p st = (d, st') \<Longrightarrow> d = \<lparr>rd_allowed = True, rd_retryAfterMs = None\<rparr> \<and> window st' = (window st)(p \<mapsto> (t, 1))"
    and check_full: "1 \<le> mx \<Longrightarrow> window st p = Some (s, c) \<Longrightarrow> t - s < win \<Longrightarrow> mx \<le> c \<Longrightarrow>
      check t p st = (d, st') \<Longrightarrow> d = \<lparr>rd_allowed = False, rd_retryAfterMs = Some (win - (t - s))\<rparr> \<and> window st' = window st"
    and check_count: "1 \<le> mx \<Longrightarrow> window st p = Some (s, c) \<Longrightarrow> t - s < win \<Longrightarrow> c < mx \<Longrightarrow>
      check t p st = (d, st') \<Longrightarrow> d = \<lparr>rd_allowed = True, rd_retryAfterMs = None\<rparr> \<and> window st' = (window st)(p \<mapsto> (s, c + 1))"
begin

lemma check_cases:
  assumes "1 \<le> mx" and "check t p st = (d, st')"
  obtains (opened) "window st p = None \<or> (\<exists>s c. window st p = Some (s, c) \<and> win \<le> t - s)"
      "d = \<lparr>rd_allowed = True, rd_retryAfterMs = None\<rparr>" "window st' = (window st)(p \<mapsto> (t, 1))"
  | (full) s c where "window st p = Some (s, c)" "t - s < win" "mx \<le> c"
      "d = \<lparr>rd_allowed = False, rd_retryAfterMs = Some (win - (t - s))\<rparr>" "window st' = window st"
  | (counted) s c where "window st p = Some (s, c)" "t - s < win" "c < mx"
      "d = \<lparr>rd_allowed = True, rd_retryAfterMs = None\<rparr>" "window st' = (window st)(p \<mapsto> (s, c + 1))"
proof (cases "window st p")
  case None
  then show thesis using check_open [OF assms(1) _ assms(2)] opened by blast
next
  case (Some w)
  obtain s c where w: "w = (s, c)" by (cases w)
  consider "win \<le> t - s" | "t - s < win" "mx \<le> c" | "t - s < win" "c < mx" by linarith
  then show thesis
  proof cases
    case 1
    then show thesis using check_open [OF assms(1) _ assms(2)] Some w opened by blast
  next
    case 2
    then show thesis using check_full [OF assms(1) _ _ _ assms(2)] Some w full by blast
  next
    case 3
    then show thesis using check_count [OF assms(1) _ _ _ assms(2)] Some w counted by blast
  qed
qed

text \<open>What is left of a window for requests from \<open>a\<close> on, in an interval one window long.\<close>

definition allowance :: "time \<Rightarrow> (time \<times> int) option \<Rightarrow> int" where
  "allowance a w =
     (case w of None \<Rightarrow> mx
      | Some (s, c) \<Rightarrow> if s < a then (mx - c) + mx else if s < a + win then mx - c else 0)"

lemma admitted_from:
  assumes "1 \<le> mx" and "0 < win"
  shows "sorted (map fst reqs) \<Longrightarrow> \<forall>(t, q) \<in> set reqs. a \<le> t \<Longrightarrow>
    (\<forall>s c. window st p = Some (s, c) \<longrightarrow> 1 \<le> c \<and> c \<le> mx \<and> (\<forall>(t, q) \<in> set reqs. s \<le> t)) \<Longrightarrow>
    int (admitted p a (a + win) reqs (rate_run check reqs st)) \<le> allowance a (window st p)"
proof (induction reqs arbitrary: st)
  case Nil
  then show ?case using assms by (auto simp: allowance_def split: option.splits)
next
  case (Cons r reqs)
  obtain t q where r: "r = (t, q)" by (cases r)
  obtain d st' where d: "check t q st = (d, st')" by (cases "check t q st")
  have later: "\<forall>(u, q) \<in> set reqs. t \<le> u" and a: "a \<le> t" and from_a: "\<forall>(t, q) \<in> set reqs. a \<le> t"
    and ordered: "sorted (map fst reqs)"
    using Cons.prems(1,2) by (auto simp: r)
  note IH = Cons.IH [OF ordered from_a, of st']
  have run: "rate_run check (r # reqs) st = d # rate_run check reqs st'" by (simp add: r d)
  show ?case
  proof (cases "q = p")
    case False
    have "window st' p = window st p" using assms(1) d False by (cases rule: check_cases) auto
    then show ?thesis using IH Cons.prems(3) False unfolding run by (auto simp: r)
  next
    case True
    from assms(1) d show ?thesis
    proof (cases rule: check_cases)
      case opened
      have "int (admitted p a (a + win) reqs (rate_run check reqs st')) \<le> allowance a (Some (t, 1))"
        using IH opened True assms later by auto
      then show ?thesis
        using opened True a assms Cons.prems(3) unfolding run by (auto simp: r allowance_def split: option.splits if_splits)
    next
      case (full s c)
      then show ?thesis using IH Cons.prems(3) True unfolding run by (simp add: r)
    next
      case (counted s c)
      have "int (admitted p a (a + win) reqs (rate_run check reqs st')) \<le> allowance a (Some (s, c + 1))"
        using IH counted True Cons.prems(3) by (simp add: r)
      then show ?thesis
        using counted True a Cons.prems(3) unfolding run by (auto simp: r allowance_def split: if_splits)
    qed
  qed
qed

lemma window_ok_step:
  assumes "1 \<le> mx" and "check t q st = (d, st')"
    and "\<forall>s c. window st p = Some (s, c) \<longrightarrow> 1 \<le> c \<and> c \<le> mx \<and> s \<le> t"
  shows "\<forall>s c. window st' p = Some (s, c) \<longrightarrow> 1 \<le> c \<and> c \<le> mx \<and> s \<le> t"
  using assms(1,2) by (cases rule: check_cases) (use assms(1,3) in \<open>auto split: if_splits\<close>)

lemma admitted_bound:
  assumes "1 \<le> mx" and "0 < win"
  shows "sorted (map fst reqs) \<Longrightarrow>
    (\<forall>s c. window st p = Some (s, c) \<longrightarrow> 1 \<le> c \<and> c \<le> mx \<and> (\<forall>(t, q) \<in> set reqs. s \<le> t)) \<Longrightarrow>
    int (admitted p a (a + win) reqs (rate_run check reqs st)) \<le> 2 * mx"
proof (induction reqs arbitrary: st)
  case Nil
  then show ?case using assms by simp
next
  case (Cons r reqs)
  obtain t q where r: "r = (t, q)" by (cases r)
  obtain d st' where d: "check t q st = (d, st')" by (cases "check t q st")
  have later: "\<forall>(u, q) \<in> set reqs. t \<le> u" and ordered: "sorted (map fst reqs)" using Cons.prems(1) by (auto simp: r)
  show ?case
  proof (cases "a \<le> t")
    case True
    then have "\<forall>(u, q) \<in> set (r # reqs). a \<le> u" using later by (auto simp: r)
    from admitted_from [OF assms Cons.prems(1) this Cons.prems(2)]
    show ?thesis using Cons.prems(2) assms by (fastforce simp: allowance_def split: option.splits if_splits)
  next
    case False
    have "\<forall>s c. window st' p = Some (s, c) \<longrightarrow> 1 \<le> c \<and> c \<le> mx \<and> s \<le> t"
      using Cons.prems(2) by (intro window_ok_step [OF assms(1) d]) (auto simp: r)
    then have "\<forall>s c. window st' p = Some (s, c) \<longrightarrow> 1 \<le> c \<and> c \<le> mx \<and> (\<forall>(u, q) \<in> set reqs. s \<le> u)"
      using later by fastforce
    from Cons.IH [OF ordered this] show ?thesis using False by (simp add: r d)
  qed
qed

end

lemma rate_limiters_agree:
  assumes "rate_limiter mx win check window" and "rate_limiter mx win check' window'" and "1 \<le> mx"
  shows "window st = window' st' \<Longrightarrow> rate_run check reqs st = rate_run check' reqs st'"
proof (induction reqs arbitrary: st st')
  case (Cons r reqs)
  obtain t p where r: "r = (t, p)" by (cases r)
  obtain d s1 where d: "check t p st = (d, s1)" by (cases "check t p st")
  obtain d' s1' where d': "check' t p st' = (d', s1')" by (cases "check' t p st'")
  have "d' = d \<and> window s1 = window' s1'"
    using assms(3) d
  proof (cases rule: rate_limiter.check_cases [OF assms(1), consumes 2, case_names opened full counted])
    case opened
    then show ?thesis using rate_limiter.check_open [OF assms(2,3) _ d'] Cons.prems by auto
  next
    case (full s c)
    then show ?thesis using rate_limiter.check_full [OF assms(2,3) _ _ _ d'] Cons.prems by auto
  next
    case (counted s c)
    then show ?thesis using rate_limiter.check_count [OF assms(2,3) _ _ _ d'] Cons.prems by auto
  qed
  then show ?case using Cons.IH by (simp add: r d d')
qed simp

definition rl_window :: "rate_window js_map \<Rightarrow> string \<Rightarrow> (time \<times> int) option" where
  "rl_window st p = map_option (\<lambda>w. (rw_windowStart w, rw_count w)) (map_of st p)"

definition pg_rl_window :: "int \<Rightarrow> rate_window js_map \<Rightarrow> string \<Rightarrow> (time \<times> int) option" where
  "pg_rl_window mx st p = map_option (\<lambda>w. (rw_windowStart w, min mx (rw_count w))) (map_of st p)"

interpretation rl: rate_limiter "ro_maxPerWindow opts" "ro_windowMs opts" "rl_check opts" rl_window
  for opts :: rate_options
  by unfold_locales
    (auto simp: rl_check_def rl_window_def Let_def fun_eq_iff js_map_simps split: option.splits if_splits)

interpretation pgrl: rate_limiter "ro_maxPerWindow opts" "ro_windowMs opts" "pg_rl_check opts"
    "pg_rl_window (ro_maxPerWindow opts)"
  for opts :: rate_options
  by unfold_locales
    (auto simp: pg_rl_check_def pg_rate_upsert_def pg_rl_window_def Let_def fun_eq_iff js_map_simps min_def max_def
      split: option.splits if_splits)



subsection \<open>Budgets\<close>

record spend_entry =
  se_at :: time
  se_usd :: real

record budget_check =
  bc_allowed :: bool
  bc_spentUsd :: real
  bc_limitUsd :: "real option"

record budget_options =
  bo_limitUsd :: "real option"
  bo_orgLimitUsd :: "real option"
  bo_windowMs :: time

definition DEFAULT_BUDGET_WINDOW_MS :: time where "DEFAULT_BUDGET_WINDOW_MS = 86400000"

definition budget_options_of :: "real option \<Rightarrow> real option \<Rightarrow> time option \<Rightarrow> budget_options" where
  "budget_options_of limitUsd orgLimitUsd windowMs =
     \<lparr>bo_limitUsd = limitUsd, bo_orgLimitUsd = orgLimitUsd,
      bo_windowMs = (case windowMs of None \<Rightarrow> DEFAULT_BUDGET_WINDOW_MS | Some w \<Rightarrow> w)\<rparr>"

definition estimateCostUsd :: "real \<Rightarrow> real \<Rightarrow> real" where
  "estimateCostUsd inputTokens usdPerMTok = inputTokens / 1000000 * usdPerMTok"

definition orgKey :: string where "orgKey = ''@org''"

definition at_limit :: "real option \<Rightarrow> real \<Rightarrow> bool" where
  "at_limit limit spent = (case limit of None \<Rightarrow> False | Some l \<Rightarrow> spent \<ge> l)"

definition spent_since :: "time \<Rightarrow> spend_entry list \<Rightarrow> real" where
  "spent_since cutoff es = sum_list (map se_usd (filter (\<lambda>e. se_at e \<ge> cutoff) es))"

definition entries_of :: "string \<Rightarrow> spend_entry list js_map \<Rightarrow> spend_entry list" where
  "entries_of p spend = (case map_of spend p of None \<Rightarrow> [] | Some es \<Rightarrow> es)"

definition spentIn :: "budget_options \<Rightarrow> string \<Rightarrow> time \<Rightarrow> spend_entry list js_map \<Rightarrow> real \<times> spend_entry list js_map" where
  "spentIn opts principalId now spend =
     (let kept = filter (\<lambda>e. se_at e \<ge> now - bo_windowMs opts) (entries_of principalId spend) in
      (sum_list (map se_usd kept), AList.update principalId kept spend))"

definition budget_check_mem :: "budget_options \<Rightarrow> string \<Rightarrow> time \<Rightarrow> spend_entry list js_map \<Rightarrow> budget_check \<times> spend_entry list js_map" where
  "budget_check_mem opts principalId now spend =
     (let (spentUsd, spend) = spentIn opts principalId now spend in
      if at_limit (bo_limitUsd opts) spentUsd
      then (\<lparr>bc_allowed = False, bc_spentUsd = spentUsd, bc_limitUsd = bo_limitUsd opts\<rparr>, spend)
      else let (orgSpent, spend) = spentIn opts orgKey now spend in
           (\<lparr>bc_allowed = \<not> at_limit (bo_orgLimitUsd opts) orgSpent, bc_spentUsd = orgSpent,
             bc_limitUsd = bo_orgLimitUsd opts\<rparr>, spend))"

definition push_spend :: "time \<Rightarrow> real \<Rightarrow> string \<Rightarrow> spend_entry list js_map \<Rightarrow> spend_entry list js_map" where
  "push_spend now costUsd key spend = AList.update key (entries_of key spend @ [\<lparr>se_at = now, se_usd = costUsd\<rparr>]) spend"

definition budget_record_mem :: "string \<Rightarrow> real \<Rightarrow> time \<Rightarrow> spend_entry list js_map \<Rightarrow> spend_entry list js_map" where
  "budget_record_mem principalId costUsd now spend = fold (push_spend now costUsd) [principalId, orgKey] spend"

text \<open>The Postgres tracker keeps one row per record. The statement of \<open>record\<close> inserts the row and deletes the expired
  rows of the key it saw before the insertion.\<close>

definition rows_of :: "string \<Rightarrow> (string \<times> spend_entry) list \<Rightarrow> spend_entry list" where
  "rows_of p rows = map snd (filter (\<lambda>(q, e). q = p) rows)"

definition pg_budget_check :: "budget_options \<Rightarrow> string \<Rightarrow> time \<Rightarrow> (string \<times> spend_entry) list \<Rightarrow> budget_check" where
  "pg_budget_check opts principalId now rows =
     (let spentUsd = spent_since (now - bo_windowMs opts) (rows_of principalId rows) in
      if at_limit (bo_limitUsd opts) spentUsd
      then \<lparr>bc_allowed = False, bc_spentUsd = spentUsd, bc_limitUsd = bo_limitUsd opts\<rparr>
      else let orgSpent = spent_since (now - bo_windowMs opts) (rows_of orgKey rows) in
           \<lparr>bc_allowed = \<not> at_limit (bo_orgLimitUsd opts) orgSpent, bc_spentUsd = orgSpent,
            bc_limitUsd = bo_orgLimitUsd opts\<rparr>)"

definition pg_spend :: "budget_options \<Rightarrow> time \<Rightarrow> real \<Rightarrow> string \<Rightarrow> (string \<times> spend_entry) list \<Rightarrow> (string \<times> spend_entry) list" where
  "pg_spend opts now costUsd key rows =
     filter (\<lambda>(q, e). \<not> (q = key \<and> se_at e < now - bo_windowMs opts)) rows @ [(key, \<lparr>se_at = now, se_usd = costUsd\<rparr>)]"

definition pg_budget_record :: "budget_options \<Rightarrow> string \<Rightarrow> real \<Rightarrow> time \<Rightarrow> (string \<times> spend_entry) list \<Rightarrow> (string \<times> spend_entry) list" where
  "pg_budget_record opts principalId costUsd now rows = fold (pg_spend opts now costUsd) [principalId, orgKey] rows"

text \<open>The reference keeps everything ever recorded and sums it up at each check.\<close>

definition verdict :: "budget_options \<Rightarrow> time \<Rightarrow> spend_entry list \<Rightarrow> spend_entry list \<Rightarrow> budget_check" where
  "verdict opts now own org =
     (if at_limit (bo_limitUsd opts) (spent_since (now - bo_windowMs opts) own)
      then \<lparr>bc_allowed = False, bc_spentUsd = spent_since (now - bo_windowMs opts) own, bc_limitUsd = bo_limitUsd opts\<rparr>
      else \<lparr>bc_allowed = \<not> at_limit (bo_orgLimitUsd opts) (spent_since (now - bo_windowMs opts) org),
            bc_spentUsd = spent_since (now - bo_windowMs opts) org, bc_limitUsd = bo_orgLimitUsd opts\<rparr>)"

definition spent_on :: "string \<Rightarrow> string \<Rightarrow> spend_entry \<Rightarrow> spend_entry list" where
  "spent_on p k e = concat (map (\<lambda>q. if q = k then [e] else []) [p, orgKey])"

datatype budget_op = Check string time | Record string real time

fun op_time :: "budget_op \<Rightarrow> time" where
  "op_time (Check p t) = t"
| "op_time (Record p c t) = t"

fun reference_checks :: "budget_options \<Rightarrow> (string \<Rightarrow> spend_entry list) \<Rightarrow> budget_op list \<Rightarrow> budget_check list" where
  "reference_checks opts hist [] = []"
| "reference_checks opts hist (Check p t # ops) = verdict opts t (hist p) (hist orgKey) # reference_checks opts hist ops"
| "reference_checks opts hist (Record p c t # ops) =
     reference_checks opts (\<lambda>k. hist k @ spent_on p k \<lparr>se_at = t, se_usd = c\<rparr>) ops"

fun budget_checks ::
  "(string \<Rightarrow> time \<Rightarrow> 's \<Rightarrow> budget_check \<times> 's) \<Rightarrow> (string \<Rightarrow> real \<Rightarrow> time \<Rightarrow> 's \<Rightarrow> 's) \<Rightarrow> 's \<Rightarrow> budget_op list \<Rightarrow> budget_check list" where
  "budget_checks chk rec st [] = []"
| "budget_checks chk rec st (Check p t # ops) = (let (r, st') = chk p t st in r # budget_checks chk rec st' ops)"
| "budget_checks chk rec st (Record p c t # ops) = budget_checks chk rec (rec p c t st) ops"

text \<open>The interface of a tracker: it may forget what has left the window, and nothing else.\<close>

locale budget_tracker =
  fixes opts :: budget_options
    and chk :: "string \<Rightarrow> time \<Rightarrow> 's \<Rightarrow> budget_check \<times> 's"
    and rec :: "string \<Rightarrow> real \<Rightarrow> time \<Rightarrow> 's \<Rightarrow> 's"
    and spends :: "'s \<Rightarrow> string \<Rightarrow> spend_entry list"
  assumes chk_verdict: "fst (chk p t st) = verdict opts t (spends st p) (spends st orgKey)"
    and chk_keeps: "t - bo_windowMs opts \<le> c \<Longrightarrow>
      filter (\<lambda>e. c \<le> se_at e) (spends (snd (chk p t st)) k) = filter (\<lambda>e. c \<le> se_at e) (spends st k)"
    and rec_adds: "t - bo_windowMs opts \<le> c \<Longrightarrow>
      filter (\<lambda>e. c \<le> se_at e) (spends (rec p usd t st) k) =
      filter (\<lambda>e. c \<le> se_at e) (spends st k @ spent_on p k \<lparr>se_at = t, se_usd = usd\<rparr>)"
begin

lemma spent_since_cong:
  "filter (\<lambda>e. c \<le> se_at e) xs = filter (\<lambda>e. c \<le> se_at e) ys \<Longrightarrow> spent_since c xs = spent_since c ys"
  by (simp add: spent_since_def)

lemma refines_reference:
  assumes "sorted (map op_time ops)" and "\<forall>op \<in> set ops. c0 \<le> op_time op - bo_windowMs opts"
    and "\<And>c k. c0 \<le> c \<Longrightarrow> filter (\<lambda>e. c \<le> se_at e) (spends st k) = filter (\<lambda>e. c \<le> se_at e) (hist k)"
  shows "budget_checks chk rec st ops = reference_checks opts hist ops"
  using assms
proof (induction ops arbitrary: st hist c0)
  case (Cons op ops)
  define c1 where "c1 = op_time op - bo_windowMs opts"
  have ord: "sorted (map op_time ops)" and later: "\<forall>x \<in> set ops. c1 \<le> op_time x - bo_windowMs opts"
    and c1: "c0 \<le> c1"
    using Cons.prems(1,2) by (auto simp: c1_def)
  note same = Cons.prems(3) [OF order_trans [OF c1]]
  show ?case
  proof (cases op)
    case (Check p t)
    obtain r st' where r: "chk p t st = (r, st')" by (cases "chk p t st")
    have "verdict opts t (spends st p) (spends st orgKey) = verdict opts t (hist p) (hist orgKey)"
      using same [of c1] unfolding verdict_def by (simp add: c1_def Check spent_since_def)
    moreover have "budget_checks chk rec st' ops = reference_checks opts hist ops"
    proof (rule Cons.IH [OF ord later])
      fix c k assume "c1 \<le> c"
      then show "filter (\<lambda>e. c \<le> se_at e) (spends st' k) = filter (\<lambda>e. c \<le> se_at e) (hist k)"
        using chk_keeps [of t c p st k] same [of c k] by (simp add: c1_def Check r)
    qed
    ultimately show ?thesis using chk_verdict [of p t st] by (simp add: Check r)
  next
    case (Record p usd t)
    have "budget_checks chk rec (rec p usd t st) ops = reference_checks opts (\<lambda>k. hist k @ spent_on p k \<lparr>se_at = t, se_usd = usd\<rparr>) ops"
    proof (rule Cons.IH [OF ord later])
      fix c k assume "c1 \<le> c"
      then show "filter (\<lambda>e. c \<le> se_at e) (spends (rec p usd t st) k) =
          filter (\<lambda>e. c \<le> se_at e) (hist k @ spent_on p k \<lparr>se_at = t, se_usd = usd\<rparr>)"
        using rec_adds [of t c p usd st k] same [of c k] by (simp add: c1_def Record)
    qed
    then show ?thesis by (simp add: Record)
  qed
qed simp

lemma refines_reference_from_start:
  assumes "sorted (map op_time ops)" and "\<And>k. spends st k = []"
  shows "budget_checks chk rec st ops = reference_checks opts (\<lambda>_. []) ops"
proof (cases ops)
  case (Cons op rest)
  show ?thesis
    using assms(1) by (intro refines_reference [where ?c0.0 = "op_time op - bo_windowMs opts"]) (auto simp: Cons assms(2))
qed simp

end

lemma entries_of_update [simp]: "entries_of k (AList.update p es spend) = (if k = p then es else entries_of k spend)"
  by (simp add: entries_of_def map_of_AList_update)

lemma filter_live: "c0 \<le> c \<Longrightarrow> filter (\<lambda>e. c0 \<le> se_at e \<and> c \<le> se_at e) es = filter (\<lambda>e. c \<le> se_at e) es"
  by (induction es) auto

interpretation mem_budget: budget_tracker opts "budget_check_mem opts" budget_record_mem "\<lambda>spend k. entries_of k spend"
  for opts :: budget_options
proof
  fix p t and st :: "spend_entry list js_map" and c k usd
  let ?cut = "t - bo_windowMs opts"
  have trim: "filter (\<lambda>e. ?cut \<le> se_at e) (filter (\<lambda>e. ?cut \<le> se_at e) es) = filter (\<lambda>e. ?cut \<le> se_at e) es" for es
    by (simp add: conj_commute)
  show "fst (budget_check_mem opts p t st) = verdict opts t (entries_of p st) (entries_of orgKey st)"
    by (simp add: budget_check_mem_def spentIn_def verdict_def spent_since_def Let_def)
  assume c: "?cut \<le> c"
  show "filter (\<lambda>e. c \<le> se_at e) (entries_of k (snd (budget_check_mem opts p t st))) = filter (\<lambda>e. c \<le> se_at e) (entries_of k st)"
    by (simp add: budget_check_mem_def spentIn_def Let_def filter_live [OF c])
  show "filter (\<lambda>e. c \<le> se_at e) (entries_of k (budget_record_mem p usd t st)) =
      filter (\<lambda>e. c \<le> se_at e) (entries_of k st @ spent_on p k \<lparr>se_at = t, se_usd = usd\<rparr>)"
    by (simp add: budget_record_mem_def push_spend_def spent_on_def)
qed

lemma rows_of_spend:
  "t - bo_windowMs opts \<le> c \<Longrightarrow> filter (\<lambda>e. c \<le> se_at e) (rows_of k (pg_spend opts t usd q rows)) =
     filter (\<lambda>e. c \<le> se_at e) (rows_of k rows @ (if q = k then [\<lparr>se_at = t, se_usd = usd\<rparr>] else []))"
  by (induction rows) (auto simp: rows_of_def pg_spend_def split: if_splits)

interpretation pg_budget: budget_tracker opts "\<lambda>p t rows. (pg_budget_check opts p t rows, rows)" "pg_budget_record opts" "\<lambda>rows k. rows_of k rows"
  for opts :: budget_options
proof
  fix p t and st :: "(string \<times> spend_entry) list" and c k usd
  show "fst (pg_budget_check opts p t st, st) = verdict opts t (rows_of p st) (rows_of orgKey st)"
    by (simp add: pg_budget_check_def verdict_def Let_def)
  assume c: "t - bo_windowMs opts \<le> c"
  show "filter (\<lambda>e. c \<le> se_at e) (rows_of k (pg_budget_record opts p usd t st)) =
      filter (\<lambda>e. c \<le> se_at e) (rows_of k st @ spent_on p k \<lparr>se_at = t, se_usd = usd\<rparr>)"
    by (simp add: pg_budget_record_def rows_of_spend [OF c] spent_on_def)
qed simp

text \<open>Both budget trackers answer every check as if they had kept everything ever spent: over any sequence of checks and
  records in the order of the clock, a check is refused exactly when the recorded costs of the principal
  within the window reach its limit or those of the organisation reach the organisation's limit, and the amount
  reported is that sum. Discarding old entries in memory and deleting rows in Postgres is never visible.\<close>

lemma budget_trackers_exact:
  assumes "sorted (map op_time ops)"
  shows "budget_checks (budget_check_mem opts) budget_record_mem [] ops = reference_checks opts (\<lambda>_. []) ops \<and>
    budget_checks (\<lambda>p t rows. (pg_budget_check opts p t rows, rows)) (pg_budget_record opts) [] ops = reference_checks opts (\<lambda>_. []) ops"
  using mem_budget.refines_reference_from_start [OF assms, of "[]" opts]
    pg_budget.refines_reference_from_start [OF assms, of "[]" opts]
  by (simp add: entries_of_def rows_of_def)

lemma budget_trackers_exact_witness:
  "map bc_allowed (budget_checks (budget_check_mem (budget_options_of (Some 2) None (Some 10))) budget_record_mem []
     [Record ''ann'' 3 0, Check ''ann'' 5, Check ''bob'' 6, Check ''ann'' 11]) = [False, True, True]"
proof -
  let ?ops = "[Record ''ann'' 3 0, Check ''ann'' 5, Check ''bob'' 6, Check ''ann'' 11]"
  have eq: "budget_checks (budget_check_mem (budget_options_of (Some 2) None (Some 10))) budget_record_mem [] ?ops =
      reference_checks (budget_options_of (Some 2) None (Some 10)) (\<lambda>_. []) ?ops"
    using budget_trackers_exact [of ?ops "budget_options_of (Some 2) None (Some 10)"] by simp
  show ?thesis
    unfolding eq by (simp add: verdict_def budget_options_of_def spent_on_def spent_since_def at_limit_def orgKey_def)
qed

subsection \<open>Replayed events\<close>

definition PRUNE_INTERVAL_MS :: time where "PRUNE_INTERVAL_MS = 60000"

record replay_memory =
  rp_seen :: "time js_map"
  rp_nextPruneAt :: "time option"  \<comment> \<open>\<open>None\<close> is \<open>NEGATIVE_INFINITY\<close>\<close>

definition prune_due :: "time \<Rightarrow> time option \<Rightarrow> bool" where
  "prune_due t nextPruneAt = (case nextPruneAt of None \<Rightarrow> True | Some n \<Rightarrow> t \<ge> n)"

definition drop_expired :: "time \<Rightarrow> time js_map \<Rightarrow> time js_map" where
  "drop_expired t seen = filter (\<lambda>(i, expires). \<not> expires < t) seen"

definition replay_claim :: "time \<Rightarrow> string \<Rightarrow> time \<Rightarrow> replay_memory \<Rightarrow> bool \<times> replay_memory" where
  "replay_claim t eventId expiresAtMs st =
     (let st = (if prune_due t (rp_nextPruneAt st)
                then \<lparr>rp_seen = drop_expired t (rp_seen st), rp_nextPruneAt = Some (t + PRUNE_INTERVAL_MS)\<rparr> else st) in
      case map_of (rp_seen st) eventId of
        Some existing \<Rightarrow>
          if existing \<ge> t then (False, st)
          else (True, st\<lparr>rp_seen := AList.update eventId expiresAtMs (rp_seen st)\<rparr>)
      | None \<Rightarrow> (True, st\<lparr>rp_seen := AList.update eventId expiresAtMs (rp_seen st)\<rparr>))"

text \<open>The Postgres filter: the table is shared, each process has its own \<open>nextPruneAt\<close>.\<close>

record replay_table =
  rt_rows :: "time js_map"
  rt_nextPruneAt :: "string \<Rightarrow> time option"

definition pg_replay_claim :: "string \<Rightarrow> time \<Rightarrow> string \<Rightarrow> time \<Rightarrow> replay_table \<Rightarrow> bool \<times> replay_table" where
  "pg_replay_claim process t eventId expiresAtMs st =
     (let st = (if prune_due t (rt_nextPruneAt st process)
                then \<lparr>rt_rows = drop_expired t (rt_rows st),
                      rt_nextPruneAt = (rt_nextPruneAt st)(process := Some (t + PRUNE_INTERVAL_MS))\<rparr> else st) in
      case map_of (rt_rows st) eventId of
        Some _ \<Rightarrow> (False, st)
      | None \<Rightarrow> (True, st\<lparr>rt_rows := rt_rows st @ [(eventId, expiresAtMs)]\<rparr>))"

fun claim_run :: "('p \<Rightarrow> time \<Rightarrow> string \<Rightarrow> time \<Rightarrow> 's \<Rightarrow> bool \<times> 's) \<Rightarrow> ('p \<times> time \<times> string \<times> time) list \<Rightarrow> 's \<Rightarrow> bool list" where
  "claim_run claim [] st = []"
| "claim_run claim ((p, t, i, e) # reqs) st = (let (b, st') = claim p t i e st in b # claim_run claim reqs st')"

locale replay_filter =
  fixes claim :: "'p \<Rightarrow> time \<Rightarrow> string \<Rightarrow> time \<Rightarrow> 's \<Rightarrow> bool \<times> 's"
    and inv :: "'s \<Rightarrow> bool"
    and held :: "'s \<Rightarrow> string \<Rightarrow> time option"
  assumes claim_inv: "inv st \<Longrightarrow> inv (snd (claim p t i e st))"
    and claim_held: "inv st \<Longrightarrow> held st i = Some e' \<Longrightarrow> t \<le> e' \<Longrightarrow> \<not> fst (claim p t i e st)"
    and claim_keeps: "inv st \<Longrightarrow> held st j = Some e' \<Longrightarrow> t \<le> e' \<Longrightarrow> held (snd (claim p t i e st)) j = Some e'"
    and claim_takes: "inv st \<Longrightarrow> fst (claim p t i e st) \<Longrightarrow> held (snd (claim p t i e st)) i = Some e"
begin

lemma held_refused:
  assumes "inv st" and "held st i = Some e" and "\<forall>(p, t, j, e') \<in> set reqs. t \<le> e"
  shows "list_all2 (\<lambda>(p, t, j, e') b. j = i \<longrightarrow> \<not> b) reqs (claim_run claim reqs st)"
  using assms
proof (induction reqs arbitrary: st)
  case (Cons r reqs)
  obtain p t j e' where r: "r = (p, t, j, e')" by (cases r) auto
  obtain b st' where c: "claim p t j e' st = (b, st')" by (cases "claim p t j e' st")
  have "inv st'" "held st' i = Some e" "j = i \<longrightarrow> \<not> b"
    using claim_inv [OF Cons.prems(1), of p t j e'] claim_keeps [OF Cons.prems(1,2), of t p j e']
      claim_held [OF Cons.prems(1), of i e t p e'] Cons.prems(2,3) c by (auto simp: r)
  then show ?case using Cons.IH Cons.prems(3) by (simp add: r c)
qed simp

lemma accepted_once:
  assumes "inv st" and "fst (claim p t i e st)" and "\<forall>(p, t, j, e') \<in> set reqs. t \<le> e"
  shows "list_all2 (\<lambda>(p, t, j, e') b. j = i \<longrightarrow> \<not> b) reqs (claim_run claim reqs (snd (claim p t i e st)))"
  by (rule held_refused [OF claim_inv [OF assms(1)] claim_takes [OF assms(1,2)] assms(3)])

end

lemma map_of_drop_expired:
  "distinct (map fst seen) \<Longrightarrow> map_of (drop_expired t seen) i = Option.bind (map_of seen i) (\<lambda>e. if e < t then None else Some e)"
proof (induction seen)
  case (Cons x seen)
  then have "map_of seen (fst x) = None" by (simp add: map_of_eq_None_iff)
  with Cons show ?case by (cases x) (auto simp: drop_expired_def simp del: map_of_eq_Some_iff)
qed (simp add: drop_expired_def)

lemma distinct_drop_expired: "distinct (map fst seen) \<Longrightarrow> distinct (map fst (drop_expired t seen))"
  by (induction seen) (auto simp: drop_expired_def)

interpretation replay_mem: replay_filter "\<lambda>p :: unit. replay_claim" "\<lambda>st. distinct (map fst (rp_seen st))" "\<lambda>st. map_of (rp_seen st)"
  by unfold_locales
    (auto simp: replay_claim_def Let_def js_map_simps map_of_drop_expired distinct_drop_expired distinct_update
      simp del: map_of_eq_Some_iff split: option.splits if_splits Option.bind_splits)

interpretation replay_pg: replay_filter pg_replay_claim "\<lambda>st. distinct (map fst (rt_rows st))" "\<lambda>st. map_of (rt_rows st)"
proof
  fix st :: replay_table and p t i e e' j
  assume inv: "distinct (map fst (rt_rows st))"
  show "distinct (map fst (rt_rows (snd (pg_replay_claim p t i e st))))"
    using inv by (auto simp: pg_replay_claim_def Let_def distinct_drop_expired map_of_eq_None_iff split: option.splits)
  show "\<not> fst (pg_replay_claim p t i e st)" if "map_of (rt_rows st) i = Some e'" "t \<le> e'"
    using that inv by (auto simp: pg_replay_claim_def Let_def map_of_drop_expired simp del: map_of_eq_Some_iff split: option.splits)
  show "map_of (rt_rows (snd (pg_replay_claim p t i e st))) j = Some e'" if "map_of (rt_rows st) j = Some e'" "t \<le> e'"
    using that inv by (auto simp: pg_replay_claim_def Let_def map_of_drop_expired map_add_def simp del: map_of_eq_Some_iff split: option.splits)
  show "map_of (rt_rows (snd (pg_replay_claim p t i e st))) i = Some e" if "fst (pg_replay_claim p t i e st)"
    using that inv by (auto simp: pg_replay_claim_def Let_def map_of_drop_expired map_add_def simp del: map_of_eq_Some_iff split: option.splits if_splits)
qed

text \<open>A signed event is accepted at most once while it is valid. Once a claim of an event identifier is accepted, every
  further claim of it is refused as long as the clock has not passed the expiry given with it, whatever other
  events are claimed and pruned in between; with the Postgres filter this holds across all processes that share the table.\<close>

lemma replay_accepted_once:
  assumes "distinct (map fst (rp_seen st))" and "fst (replay_claim t i e st)" and "\<forall>(p, t, j, e') \<in> set reqs. t \<le> e"
    and "distinct (map fst (rt_rows tb))" and "fst (pg_replay_claim q t i e tb)" and "\<forall>(p, t, j, e') \<in> set reqs'. t \<le> e"
  shows "list_all2 (\<lambda>(p, t, j, e') b. j = i \<longrightarrow> \<not> b) reqs (claim_run (\<lambda>p :: unit. replay_claim) reqs (snd (replay_claim t i e st))) \<and>
    list_all2 (\<lambda>(p, t, j, e') b. j = i \<longrightarrow> \<not> b) reqs' (claim_run pg_replay_claim reqs' (snd (pg_replay_claim q t i e tb)))"
  using replay_mem.accepted_once [OF assms(1-3)] replay_pg.accepted_once [OF assms(4-6)] by simp

lemma replay_accepted_once_witness:
  "\<not> fst (replay_claim 70000 ''ev'' 100000 (snd (replay_claim 5 ''ev'' 90000 \<lparr>rp_seen = [], rp_nextPruneAt = None\<rparr>)))"
proof -
  let ?m = "\<lparr>rp_seen = [], rp_nextPruneAt = None\<rparr>" and ?t = "\<lparr>rt_rows = [], rt_nextPruneAt = \<lambda>_. None\<rparr>"
  have "fst (replay_claim 5 ''ev'' 90000 ?m)" "fst (pg_replay_claim ''a'' 5 ''ev'' 90000 ?t)"
    by (simp_all add: replay_claim_def pg_replay_claim_def prune_due_def drop_expired_def)
  then show ?thesis
    using replay_accepted_once [of ?m 5 "''ev''" 90000 "[((), 70000, ''ev'', 100000)]" ?t "''a''" "[]"]
    by (simp add: case_prod_beta list_all2_Cons1)
qed

subsection \<open>Idempotency\<close>

text \<open>
  \<open>once key fn\<close> runs \<open>fn\<close> unless the key is in flight or was committed within the retention time. The argument
  \<open>fn\<close> of the model maps the store to the outcome of the callback (\<open>None\<close> when it throws, otherwise the
  clock when it has returned) and the store as other calls have left it by then. The background pruning of the
  backing map is taken to finish at once. The result is \<open>Inl ()\<close> for a call that throws.
\<close>

record idem_record =
  ir_key :: string
  ir_at :: time

record idem_options =
  io_retentionMs :: time
  io_pruneIntervalMs :: time

definition default_idem_options :: idem_options where
  "default_idem_options = \<lparr>io_retentionMs = 14 * 24 * 60 * 60000, io_pruneIntervalMs = 60 * 60000\<rparr>"

record idem_store =
  id_done :: "time js_map"
  id_inflight :: "string list"
  id_lastPruneAt :: time
  id_backing :: "idem_record js_map option"

definition pruneIfDue :: "idem_options \<Rightarrow> time \<Rightarrow> idem_store \<Rightarrow> idem_store" where
  "pruneIfDue opts t st =
     (if t - id_lastPruneAt st < io_pruneIntervalMs opts then st
      else st\<lparr>id_lastPruneAt := t,
              id_done := filter (\<lambda>(key, at'). \<not> at' < t - io_retentionMs opts) (id_done st),
              id_backing := map_option
                (\<lambda>m. fold mm_delete (map ir_key (filter (\<lambda>r. ir_at r < t - io_retentionMs opts) (mm_all m))) m) (id_backing st)\<rparr>)"

definition isCommitted :: "idem_options \<Rightarrow> time \<Rightarrow> string \<Rightarrow> idem_store \<Rightarrow> bool \<times> idem_store" where
  "isCommitted opts t key st =
     (let cutoff = t - io_retentionMs opts in
      if (case map_of (id_done st) key of None \<Rightarrow> False | Some cached \<Rightarrow> cached \<ge> cutoff) then (True, st)
      else case Option.bind (id_backing st) (mm_get key) of
             None \<Rightarrow> (False, st)
           | Some r \<Rightarrow>
               if ir_at r \<ge> cutoff then (True, st\<lparr>id_done := AList.update (ir_key r) (ir_at r) (id_done st)\<rparr>)
               else (False, st))"

definition leave :: "string \<Rightarrow> idem_store \<Rightarrow> idem_store" where
  "leave key st = st\<lparr>id_inflight := filter (\<lambda>k. k \<noteq> key) (id_inflight st)\<rparr>"

definition commit_key :: "idem_options \<Rightarrow> string \<Rightarrow> time \<Rightarrow> idem_store \<Rightarrow> idem_store" where
  "commit_key opts key t st =
     pruneIfDue opts t
       (st\<lparr>id_backing := map_option (mm_put key \<lparr>ir_key = key, ir_at = t\<rparr>) (id_backing st),
           id_done := AList.update key t (id_done st)\<rparr>)"

definition once ::
  "idem_options \<Rightarrow> time \<Rightarrow> string \<Rightarrow> (idem_store \<Rightarrow> time option \<times> idem_store) \<Rightarrow> idem_store \<Rightarrow> (unit + bool) \<times> idem_store" where
  "once opts t key fn st =
     (if key \<in> set (id_inflight st) then (Inr False, st)
      else
        let (committed, st) = isCommitted opts t key (st\<lparr>id_inflight := id_inflight st @ [key]\<rparr>) in
        if committed then (Inr False, leave key st)
        else case fn st of
               (None, st) \<Rightarrow> (Inl (), leave key st)
             | (Some t', st) \<Rightarrow> (Inr True, leave key (commit_key opts key t' st)))"

text \<open>Calls by the clock: \<open>Once key t outcome\<close> starts at \<open>t\<close>; its callback throws or returns at the given time.\<close>

datatype idem_call = Once string time "time option" | Committed string time

fun idem_apply :: "idem_options \<Rightarrow> idem_call \<Rightarrow> idem_store \<Rightarrow> (unit + bool) \<times> idem_store" where
  "idem_apply opts (Once key t outcome) st = once opts t key (\<lambda>st. (outcome, st)) st"
| "idem_apply opts (Committed key t) st = (let (b, st) = isCommitted opts t key st in (Inr b, st))"

fun idem_run :: "idem_options \<Rightarrow> idem_call list \<Rightarrow> idem_store \<Rightarrow> (unit + bool) list" where
  "idem_run opts [] st = []"
| "idem_run opts (c # cs) st = (let (r, st') = idem_apply opts c st in r # idem_run opts cs st')"

fun before :: "time \<Rightarrow> idem_call \<Rightarrow> bool" where
  "before e (Once key t None) \<longleftrightarrow> t \<le> e"
| "before e (Once key t (Some t')) \<longleftrightarrow> t \<le> e \<and> t' \<le> e"
| "before e (Committed key t) \<longleftrightarrow> t \<le> e"

definition backing_ok :: "idem_store \<Rightarrow> bool" where
  "backing_ok st \<longleftrightarrow> distinct (map fst (id_done st)) \<and> (\<forall>m. id_backing st = Some m \<longrightarrow> all_stored (\<lambda>k r. ir_key r = k) m)"

definition held_since :: "string \<Rightarrow> time \<Rightarrow> idem_store \<Rightarrow> bool" where
  "held_since key a st \<longleftrightarrow> (\<exists>a' \<ge> a. map_of (id_done st) key = Some a')"

lemma isCommitted_held:
  assumes "held_since key a st" and "t \<le> a + io_retentionMs opts"
  shows "isCommitted opts t key st = (True, st)"
  using assms by (auto simp: isCommitted_def held_since_def Let_def split: option.splits)

lemma isCommitted_keeps:
  assumes "held_since key a st" and "backing_ok st" and "t \<le> a + io_retentionMs opts"
  shows "held_since key a (snd (isCommitted opts t k st)) \<and> backing_ok (snd (isCommitted opts t k st))"
proof (cases "k = key")
  case True
  then show ?thesis using isCommitted_held [OF assms(1,3)] assms by simp
next
  case False
  have "ir_key r = k" if "Option.bind (id_backing st) (mm_get k) = Some r" for r
    using that assms(2) by (cases "id_backing st") (auto simp: backing_ok_def dest: all_storedD)
  with False assms(1,2) show ?thesis
    by (auto simp: isCommitted_def Let_def held_since_def backing_ok_def js_map_simps distinct_update
      simp del: map_of_eq_Some_iff split: option.splits)
qed

lemma leave_keeps [simp]: "held_since key a (leave k s) = held_since key a s" "backing_ok (leave k s) = backing_ok s"
  by (simp_all add: held_since_def backing_ok_def leave_def)

lemma all_stored_deletes: "all_stored P m \<Longrightarrow> all_stored P (fold mm_delete ks m)"
  by (induction ks arbitrary: m) (auto intro: all_stored_delete)

lemma map_of_filter_value:
  "distinct (map fst m) \<Longrightarrow> map_of m k = Some v \<Longrightarrow> P k v \<Longrightarrow> map_of (filter (\<lambda>(k, v). P k v) m) k = Some v"
  by (induction m) (auto split: if_splits)

lemma pruneIfDue_keeps:
  assumes "held_since key a st" and "backing_ok st" and "t \<le> a + io_retentionMs opts"
  shows "held_since key a (pruneIfDue opts t st) \<and> backing_ok (pruneIfDue opts t st)"
proof -
  obtain a' where a': "a \<le> a'" "map_of (id_done st) key = Some a'" using assms(1) by (auto simp: held_since_def)
  have d: "distinct (map fst (id_done st))" using assms(2) by (simp add: backing_ok_def)
  have "map_of (filter (\<lambda>(key, at'). \<not> at' < t - io_retentionMs opts) (id_done st)) key = Some a'"
    using a' assms(3) by (intro map_of_filter_value [OF d]) auto
  moreover have "distinct (map fst (filter (\<lambda>(key, at'). \<not> at' < t - io_retentionMs opts) (id_done st)))"
    using d by (induction "id_done st") (auto simp: distinct_map intro: inj_on_subset)
  ultimately show ?thesis
    using assms(1,2) a' by (auto simp: pruneIfDue_def held_since_def backing_ok_def intro: all_stored_deletes)
qed

lemma commit_keeps:
  assumes "held_since key a st \<or> k = key \<and> a \<le> t" and "backing_ok st" and "t \<le> a + io_retentionMs opts" and "a \<le> t \<or> k \<noteq> key"
  shows "held_since key a (commit_key opts k t st) \<and> backing_ok (commit_key opts k t st)"
  unfolding commit_key_def using assms
  by (intro pruneIfDue_keeps)
    (auto simp: held_since_def backing_ok_def js_map_simps distinct_update intro: all_stored_put)

lemma idem_apply_keeps:
  assumes "held_since key a st" and "backing_ok st" and "before (a + io_retentionMs opts) c"
  shows "held_since key a (snd (idem_apply opts c st)) \<and> backing_ok (snd (idem_apply opts c st))"
proof (cases c)
  case (Committed k t)
  then show ?thesis using isCommitted_keeps [OF assms(1,2), of t opts k] assms(3) by (simp add: split_def Let_def)
next
  case (Once k t outcome)
  let ?st = "st\<lparr>id_inflight := id_inflight st @ [k]\<rparr>"
  have t: "t \<le> a + io_retentionMs opts" using assms(3) Once by (cases outcome) auto
  have st: "held_since key a ?st" "backing_ok ?st" using assms by (simp_all add: held_since_def backing_ok_def)
  obtain b st1 where c: "isCommitted opts t k ?st = (b, st1)" by (cases "isCommitted opts t k ?st")
  have st1: "held_since key a st1" "backing_ok st1" using isCommitted_keeps [OF st t, of k] c by simp_all
  have other: "k \<noteq> key" if "\<not> b" using that isCommitted_held [OF st(1) t] c by auto
  show ?thesis
  proof (cases "k \<in> set (id_inflight st) \<or> b \<or> outcome = None")
    case True
    then show ?thesis using assms st1 by (auto simp: Once once_def c split: option.splits)
  next
    case False
    then obtain t' where t': "outcome = Some t'" by auto
    have "held_since key a (commit_key opts k t' st1) \<and> backing_ok (commit_key opts k t' st1)"
      using st1 other False assms(3) by (intro commit_keeps) (auto simp: Once t')
    then show ?thesis using False by (simp add: Once once_def c t')
  qed
qed

lemma held_refuses:
  assumes "held_since key a st" and "backing_ok st" and "\<forall>c \<in> set cs. before (a + io_retentionMs opts) c"
  shows "list_all2 (\<lambda>c r. case c of Once k t out \<Rightarrow> k = key \<longrightarrow> r = Inr False | Committed k t \<Rightarrow> k = key \<longrightarrow> r = Inr True)
    cs (idem_run opts cs st)"
  using assms
proof (induction cs arbitrary: st)
  case (Cons c cs)
  obtain r st' where r: "idem_apply opts c st = (r, st')" by (cases "idem_apply opts c st")
  have "held_since key a st' \<and> backing_ok st'" using idem_apply_keeps [OF Cons.prems(1,2), of opts c] Cons.prems(3) r by simp
  moreover have "case c of Once k t out \<Rightarrow> k = key \<longrightarrow> r = Inr False | Committed k t \<Rightarrow> k = key \<longrightarrow> r = Inr True"
  proof (cases c)
    case (Once k t outcome)
    have t: "t \<le> a + io_retentionMs opts" using Cons.prems(3) Once by (cases outcome) auto
    have "held_since key a (st\<lparr>id_inflight := id_inflight st @ [k]\<rparr>)" using Cons.prems(1) by (simp add: held_since_def)
    from isCommitted_held [OF this t] show ?thesis using r Once by (auto simp: once_def split: if_splits)
  next
    case (Committed k t)
    then show ?thesis using isCommitted_held [OF Cons.prems(1), of t opts] Cons.prems(3) r by auto
  qed
  ultimately show ?case using Cons.IH Cons.prems(3) r by simp
qed simp

text \<open>An effect guarded by the idempotency store takes place at most once per key within the retention time. While a
  callback for the key is in flight every further call is refused at once; after a callback returned
  normally at time \<open>a\<close>, every call for its key up to \<open>a\<close> plus the retention time returns \<open>false\<close> without running its
  callback, and \<open>committed\<close> reports the key, whatever other keys are used and pruned in between. A callback
  that throws leaves the key free.\<close>

lemma idempotent_once:
  assumes "backing_ok st" and "key \<notin> set (id_inflight st)" and "fst (isCommitted opts t key st) = False"
    and "\<And>s. backing_ok s \<Longrightarrow> backing_ok (snd (fn s))" and "0 \<le> io_retentionMs opts"
  shows "(key \<in> set (id_inflight st') \<longrightarrow> once opts t' key fn' st' = (Inr False, st')) \<and>
    (fst (fn (st\<lparr>id_inflight := id_inflight st @ [key]\<rparr>)) = Some a \<and> (\<forall>c \<in> set cs. before (a + io_retentionMs opts) c) \<longrightarrow>
       fst (once opts t key fn st) = Inr True \<and>
       list_all2 (\<lambda>c r. case c of Once k t out \<Rightarrow> k = key \<longrightarrow> r = Inr False | Committed k t \<Rightarrow> k = key \<longrightarrow> r = Inr True)
         cs (idem_run opts cs (snd (once opts t key fn st)))) \<and>
    (fst (fn (st\<lparr>id_inflight := id_inflight st @ [key]\<rparr>)) = None \<longrightarrow>
       fst (once opts t key fn st) = Inl () \<and> key \<notin> set (id_inflight (snd (once opts t key fn st))) \<and>
       id_done (snd (once opts t key fn st)) = id_done (snd (fn (st\<lparr>id_inflight := id_inflight st @ [key]\<rparr>))))"
proof -
  let ?st = "st\<lparr>id_inflight := id_inflight st @ [key]\<rparr>"
  have c: "isCommitted opts t key ?st = (False, ?st)"
    using assms(3) by (auto simp: isCommitted_def Let_def split: option.splits if_splits)
  define st1 where "st1 = snd (fn ?st)"
  have fn: "fn ?st = (fst (fn ?st), st1)" by (simp add: st1_def)
  have ok: "backing_ok st1" using assms(1) unfolding st1_def by (intro assms(4)) (simp add: backing_ok_def)
  have commit: "held_since key a (commit_key opts key a st1) \<and> backing_ok (commit_key opts key a st1)" for a
    using ok assms(5) by (intro commit_keeps) auto
  have run: "once opts t key fn st =
      (case fst (fn ?st) of None \<Rightarrow> (Inl (), leave key st1) | Some a \<Rightarrow> (Inr True, leave key (commit_key opts key a st1)))"
    using assms(2) c fn by (auto simp: once_def split: option.splits)
  have refused: "list_all2 (\<lambda>c r. case c of Once k t out \<Rightarrow> k = key \<longrightarrow> r = Inr False | Committed k t \<Rightarrow> k = key \<longrightarrow> r = Inr True)
      cs (idem_run opts cs (leave key (commit_key opts key a st1)))" if "\<forall>c \<in> set cs. before (a + io_retentionMs opts) c"
    using held_refuses [of key a "leave key (commit_key opts key a st1)" cs opts] commit [of a] that by simp
  show ?thesis
    using refused by (auto simp: run once_def [of opts t' key fn' st'] leave_def st1_def)
qed

lemma idempotent_once_witness:
  "idem_run default_idem_options [Once ''k'' 7 (Some 8), Committed ''k'' 9]
     (snd (once default_idem_options 0 ''k'' (\<lambda>st. (Some 5, st)) \<lparr>id_done = [], id_inflight = [], id_lastPruneAt = 0, id_backing = Some []\<rparr>)) =
   [Inr False, Inr True]"
proof -
  let ?st = "\<lparr>id_done = [], id_inflight = [], id_lastPruneAt = 0, id_backing = Some []\<rparr>"
  have "backing_ok ?st" "fst (isCommitted default_idem_options 0 ''k'' ?st) = False"
    by (simp_all add: backing_ok_def isCommitted_def mm_get_def)
  then show ?thesis
    using idempotent_once [of ?st "''k''" default_idem_options 0 "\<lambda>st. (Some 5, st)" ?st 0 "\<lambda>st. (None, st)" 5
        "[Once ''k'' 7 (Some 8), Committed ''k'' 9]"]
    by (auto simp: default_idem_options_def list_all2_Cons1)
qed

end
