(* ===== verification/Delivery.thy ===== *)
theory Delivery
  imports Core_Types Turn_Origin
begin

text \<open>
  The outbox of messages to people and surfaces: \<^verbatim>\<open>src/src/delivery/delivery-store.ts\<close>. The store keeps the
  deliveries, an index from idempotency key to identifier, the end of each claim, and wakes its listeners when a
  visible delivery is added. Every operation is one synchronous block.
\<close>

subsection \<open>Data\<close>

record delivery =
  dl_id :: string
  dl_destination :: destination
  dl_text :: string
  dl_attachments :: "outgoing_attachment list option"
  dl_provenance :: "delivery_provenance option"
  dl_idempotencyKey :: string
  dl_createdAt :: time
  dl_deliveredAt :: "time option"
  dl_expiredAt :: "time option"
  dl_shadow :: bool
  dl_recipientThreadRef :: "string option"
  dl_deliverLatencyMs :: "time option"
  dl_slackApiMs :: "time option"

record delivery_input =
  din_destination :: destination
  din_text :: string
  din_attachments :: "outgoing_attachment list option"
  din_provenance :: "delivery_provenance option"
  din_idempotencyKey :: string
  din_shadow :: bool

record delivery_store =
  ds_deliveries :: "delivery js_map"
  ds_byKey :: "string js_map"
  ds_claimedUntil :: "time js_map"
  ds_wakeups :: nat

definition DELIVERY_MAX_AGE_MS :: time where "DELIVERY_MAX_AGE_MS = 6 * 3600000"

definition turnDeliveryProvenance ::
  "turn_origin \<Rightarrow> string option \<Rightarrow> string \<Rightarrow> scope_id \<Rightarrow> string \<Rightarrow> string option \<Rightarrow> int option \<Rightarrow> int option \<Rightarrow>
     delivery_provenance" where
  "turnDeliveryProvenance orig surface fireKey sourceScopeId sourceThreadRef sourceSessionId sourceUserSeq
     sourceAssistantEntrySeq =
     \<lparr>dp_sourceTitle = None,
      dp_trigger = (case orig of AutomationOrigin _ _ _ \<Rightarrow> (case surface of None \<Rightarrow> ''wake'' | Some s \<Rightarrow> s)
                    | _ \<Rightarrow> ''conversation''),
      dp_surface = (case surface of None \<Rightarrow> ''unknown'' | Some s \<Rightarrow> s),
      dp_fireKey = fireKey, dp_sourceScopeId = sourceScopeId, dp_sourceThreadRef = sourceThreadRef,
      dp_sourceSessionId = sourceSessionId, dp_sourceUserSeq = sourceUserSeq,
      dp_sourceAssistantEntrySeq = sourceAssistantEntrySeq\<rparr>"

subsection \<open>Operations\<close>

definition claimed_until :: "string \<Rightarrow> delivery_store \<Rightarrow> time" where
  "claimed_until i s = (case map_of (ds_claimedUntil s) i of None \<Rightarrow> 0 | Some t \<Rightarrow> t)"

definition overaged :: "time \<Rightarrow> time \<Rightarrow> delivery_store \<Rightarrow> delivery \<Rightarrow> bool" where
  "overaged maxAgeMs now s d \<longleftrightarrow>
     \<not> (dl_deliveredAt d \<noteq> None \<or> dl_shadow d \<or> dl_expiredAt d \<noteq> None) \<and>
     \<not> claimed_until (dl_id d) s > now \<and> \<not> now - dl_createdAt d < maxAgeMs"

definition expireOveraged :: "time \<Rightarrow> time \<Rightarrow> delivery_store \<Rightarrow> delivery_store" where
  "expireOveraged maxAgeMs now s =
     s\<lparr>ds_deliveries := map (\<lambda>(i, d). (i, if overaged maxAgeMs now s d then d\<lparr>dl_expiredAt := Some now\<rparr> else d)) (ds_deliveries s)\<rparr>"

definition listed_attachments :: "outgoing_attachment list option \<Rightarrow> outgoing_attachment list option" where
  "listed_attachments a = (case a of None \<Rightarrow> None | Some [] \<Rightarrow> None | Some xs \<Rightarrow> Some xs)"

definition revive :: "delivery_input \<Rightarrow> time \<Rightarrow> delivery \<Rightarrow> delivery" where
  "revive input now d =
     d\<lparr>dl_destination := din_destination input, dl_text := din_text input,
       dl_attachments := listed_attachments (din_attachments input), dl_provenance := din_provenance input,
       dl_createdAt := now, dl_expiredAt := None, dl_shadow := din_shadow input\<rparr>"

definition new_delivery :: "string \<Rightarrow> delivery_input \<Rightarrow> time \<Rightarrow> delivery" where
  "new_delivery uuid input now =
     \<lparr>dl_id = uuid, dl_destination = din_destination input, dl_text = din_text input,
      dl_attachments = listed_attachments (din_attachments input), dl_provenance = din_provenance input,
      dl_idempotencyKey = din_idempotencyKey input, dl_createdAt = now, dl_deliveredAt = None, dl_expiredAt = None,
      dl_shadow = din_shadow input, dl_recipientThreadRef = None, dl_deliverLatencyMs = None, dl_slackApiMs = None\<rparr>"

definition wake :: "bool \<Rightarrow> delivery_store \<Rightarrow> delivery_store" where
  "wake shadow s = (if shadow then s else s\<lparr>ds_wakeups := Suc (ds_wakeups s)\<rparr>)"

text \<open>The index never holds an empty identifier and points at a stored delivery, so the lookup of a known key
  succeeds; an unknown identifier behind a key is unreachable and treated as an unknown key.\<close>

definition delivery_for_key :: "string \<Rightarrow> delivery_store \<Rightarrow> delivery option" where
  "delivery_for_key key s =
     (case map_of (ds_byKey s) key of None \<Rightarrow> None | Some i \<Rightarrow> if i = [] then None else map_of (ds_deliveries s) i)"

definition enqueue_delivery :: "string \<Rightarrow> delivery_input \<Rightarrow> time \<Rightarrow> delivery_store \<Rightarrow> delivery \<times> delivery_store" where
  "enqueue_delivery uuid input now s =
     (case delivery_for_key (din_idempotencyKey input) s of
        Some existing \<Rightarrow>
          if dl_deliveredAt existing = None \<and> dl_expiredAt existing \<noteq> None
          then let revived = revive input now existing in
               (revived, wake (din_shadow input)
                  (s\<lparr>ds_deliveries := map_modify (dl_id existing) (\<lambda>_. revived) (ds_deliveries s),
                     ds_claimedUntil := AList.delete (dl_id existing) (ds_claimedUntil s)\<rparr>))
          else (existing, s)
      | None \<Rightarrow>
          let d = new_delivery uuid input now in
          (d, wake (din_shadow input)
             (s\<lparr>ds_deliveries := AList.update uuid d (ds_deliveries s),
                ds_byKey := AList.update (din_idempotencyKey input) uuid (ds_byKey s)\<rparr>)))"

definition is_pending :: "string \<Rightarrow> delivery \<Rightarrow> bool" where
  "is_pending ty d \<longleftrightarrow>
     dl_deliveredAt d = None \<and> dl_expiredAt d = None \<and> \<not> dl_shadow d \<and> d_type (dl_destination d) = ty"

definition pending_deliveries :: "string \<Rightarrow> delivery_store \<Rightarrow> delivery list" where
  "pending_deliveries ty s = filter (is_pending ty) (map_values (ds_deliveries s))"

definition claimPending :: "time \<Rightarrow> string \<Rightarrow> time \<Rightarrow> time \<Rightarrow> delivery_store \<Rightarrow> delivery list \<times> delivery_store" where
  "claimPending maxAgeMs ty ttlMs now s =
     (let s1 = expireOveraged maxAgeMs now s;
          rows = filter (\<lambda>d. is_pending ty d \<and> claimed_until (dl_id d) s1 \<le> now) (map_values (ds_deliveries s1))
      in (rows, s1\<lparr>ds_claimedUntil := fold (\<lambda>d. AList.update (dl_id d) (now + ttlMs)) rows (ds_claimedUntil s1)\<rparr>))"

definition limit_of :: "int \<Rightarrow> int option \<Rightarrow> nat" where
  "limit_of def limit = nat (max 1 (case limit of None \<Rightarrow> def | Some l \<Rightarrow> l))"

definition listShadow :: "int option \<Rightarrow> delivery_store \<Rightarrow> delivery list" where
  "listShadow limit s =
     take (limit_of 100 limit) (sort_key (\<lambda>d. - dl_createdAt d)
       (filter (\<lambda>d. dl_shadow d \<and> dl_deliveredAt d = None) (map_values (ds_deliveries s))))"

definition settle_delivery :: "time \<Rightarrow> delivery \<Rightarrow> delivery" where
  "settle_delivery t d = (if dl_deliveredAt d = None then d\<lparr>dl_deliveredAt := Some t, dl_expiredAt := None\<rparr> else d)"

definition ack :: "string \<Rightarrow> time \<Rightarrow> time option \<Rightarrow> delivery_store \<Rightarrow> delivery_store" where
  "ack i t slackApiMs s =
     s\<lparr>ds_deliveries := map_modify i (\<lambda>d.
         if dl_deliveredAt d = None
         then (settle_delivery t d)\<lparr>dl_deliverLatencyMs := Some (max 0 (t - dl_createdAt d)),
                 dl_slackApiMs := (case slackApiMs of None \<Rightarrow> dl_slackApiMs d | Some m \<Rightarrow> Some m)\<rparr>
         else d) (ds_deliveries s)\<rparr>"

definition tombstone :: "string \<Rightarrow> string \<Rightarrow> time \<Rightarrow> delivery" where
  "tombstone uuid key t =
     \<lparr>dl_id = uuid, dl_destination = bare_destination ''ack-tombstone'' [], dl_text = [], dl_attachments = None,
      dl_provenance = None, dl_idempotencyKey = key, dl_createdAt = t, dl_deliveredAt = Some t, dl_expiredAt = None,
      dl_shadow = False, dl_recipientThreadRef = None, dl_deliverLatencyMs = None, dl_slackApiMs = None\<rparr>"

definition ackByKey :: "string \<Rightarrow> string \<Rightarrow> time \<Rightarrow> delivery_store \<Rightarrow> delivery_store" where
  "ackByKey uuid key t s =
     (case delivery_for_key key s of
        Some d \<Rightarrow> s\<lparr>ds_deliveries := map_modify (dl_id d) (settle_delivery t) (ds_deliveries s)\<rparr>
      | None \<Rightarrow> s\<lparr>ds_deliveries := AList.update uuid (tombstone uuid key t) (ds_deliveries s),
                  ds_byKey := AList.update key uuid (ds_byKey s)\<rparr>)"

definition setEditRefByKey :: "string \<Rightarrow> string \<Rightarrow> delivery_store \<Rightarrow> delivery_store" where
  "setEditRefByKey key editRef s =
     (case delivery_for_key key s of
        None \<Rightarrow> s
      | Some d \<Rightarrow>
          if dl_deliveredAt d = None
          then s\<lparr>ds_deliveries := map_modify (dl_id d)
                  (\<lambda>d. d\<lparr>dl_destination := (dl_destination d)\<lparr>d_editRef := Some editRef\<rparr>\<rparr>) (ds_deliveries s)\<rparr>
          else s)"

definition recordRecipientThread :: "string \<Rightarrow> string \<Rightarrow> time \<Rightarrow> delivery_store \<Rightarrow> delivery_store" where
  "recordRecipientThread i recipientThreadRef t s =
     s\<lparr>ds_deliveries := map_modify i (\<lambda>d.
         if d_type (dl_destination d) \<noteq> ''principal'' then d
         else settle_delivery t (d\<lparr>dl_recipientThreadRef := Some recipientThreadRef\<rparr>)) (ds_deliveries s)\<rparr>"

definition latest :: "nat \<Rightarrow> delivery list \<Rightarrow> delivery list" where
  "latest n ds = (let xs = sort_key dl_createdAt ds in drop (length xs - n) xs)"

definition listByRecipientThread :: "string \<Rightarrow> int option \<Rightarrow> delivery_store \<Rightarrow> delivery list" where
  "listByRecipientThread ref limit s =
     latest (limit_of 20 limit)
       (filter (\<lambda>d. dl_recipientThreadRef d = Some ref \<and> d_type (dl_destination d) = ''principal'') (map_values (ds_deliveries s)))"

definition listBySourceSession :: "string \<Rightarrow> string \<Rightarrow> int option \<Rightarrow> delivery_store \<Rightarrow> delivery list" where
  "listBySourceSession sourceSessionId sourceThreadRef limit s =
     latest (limit_of 20 limit)
       (filter (\<lambda>d. case dl_provenance d of None \<Rightarrow> False
          | Some p \<Rightarrow> dp_sourceSessionId p = Some sourceSessionId \<or> dp_sourceThreadRef p = sourceThreadRef)
         (map_values (ds_deliveries s)))"

definition counted :: "delivery \<Rightarrow> bool" where
  "counted d \<longleftrightarrow> \<not> dl_shadow d \<and> dl_expiredAt d = None"

definition source_session :: "(string \<times> string) list \<Rightarrow> delivery \<Rightarrow> string option" where
  "source_session sources d =
     (case dl_provenance d of
        None \<Rightarrow> None
      | Some p \<Rightarrow>
          if truthy (dp_sourceSessionId p)
          then if the (dp_sourceSessionId p) \<in> fst ` set sources then dp_sourceSessionId p else None
          else if dp_sourceThreadRef p \<noteq> []
          then map_of (rev (map (\<lambda>(sid, ref). (ref, sid)) sources)) (dp_sourceThreadRef p)
          else None)"

text \<open>\<open>sources\<close> are pairs of session identifier and thread reference; the last pair of a thread wins.\<close>

definition sentCountsBySourceSessions :: "(string \<times> string) list \<Rightarrow> delivery_store \<Rightarrow> nat js_map" where
  "sentCountsBySourceSessions sources s =
     fold (\<lambda>d counts. case source_session sources d of
         None \<Rightarrow> counts
       | Some i \<Rightarrow> if i = [] then counts
           else AList.update i (Suc (case map_of counts i of None \<Rightarrow> 0 | Some n \<Rightarrow> n)) counts)
       (filter counted (map_values (ds_deliveries s))) []"

text \<open>\<open>cronIdOf\<close> of \<^verbatim>\<open>src/src/sessions/session-store.ts\<close>: the stable form of a cron's thread reference, then the older one.
  A dot of a pattern does not match a line break.\<close>

definition line_break :: "char \<Rightarrow> bool" where
  "line_break c \<longleftrightarrow> c = CHR 0x0A \<or> c = CHR 0x0D"

definition cronIdOf :: "string option \<Rightarrow> string option" where
  "cronIdOf threadRef =
     (let ref = (case threadRef of None \<Rightarrow> [] | Some r \<Rightarrow> r);
          stable = drop 16 ref;
          legacy = drop 5 ref;
          i = takeWhile (\<lambda>c. c \<noteq> CHR '':'') legacy;
          rest = dropWhile (\<lambda>c. c \<noteq> CHR '':'') legacy
      in if starts_with ''agent:main:cron:'' ref \<and> stable \<noteq> [] \<and> CHR '':'' \<notin> set stable then Some stable
         else if starts_with ''cron:'' ref \<and> i \<noteq> [] \<and>
                 (rest = [] \<or> tl rest \<noteq> [] \<and> \<not> list_ex line_break (tl rest)) then Some i
         else None)"

definition sentRunCountsByCron :: "string list \<Rightarrow> delivery_store \<Rightarrow> nat js_map" where
  "sentRunCountsByCron cronIds s =
     (let runs = fold (\<lambda>d acc.
            case dl_provenance d of
              None \<Rightarrow> acc
            | Some p \<Rightarrow>
                (case cronIdOf (Some (dp_sourceThreadRef p)) of
                   None \<Rightarrow> acc
                 | Some c \<Rightarrow>
                     if dp_sourceThreadRef p = [] \<or> c \<notin> set cronIds then acc
                     else let member = (case dp_sourceSessionId p of None \<Rightarrow> dp_sourceThreadRef p | Some i \<Rightarrow> i)
                          in AList.update c (uniq ((case map_of acc c of None \<Rightarrow> [] | Some ms \<Rightarrow> ms) @ [member])) acc))
          (filter counted (map_values (ds_deliveries s))) []
      in map (\<lambda>(c, members). (c, length members)) runs)"

subsection \<open>Steps and the invariant\<close>

definition empty_deliveries :: delivery_store where
  "empty_deliveries = \<lparr>ds_deliveries = [], ds_byKey = [], ds_claimedUntil = [], ds_wakeups = 0\<rparr>"

text \<open>A new identifier is not empty and not in use.\<close>

definition fresh_delivery_id :: "string \<Rightarrow> delivery_store \<Rightarrow> bool" where
  "fresh_delivery_id uuid s \<longleftrightarrow> uuid \<noteq> [] \<and> map_of (ds_deliveries s) uuid = None"

inductive delivery_step :: "time \<Rightarrow> delivery_store \<Rightarrow> delivery_store \<Rightarrow> bool" for maxAgeMs where
  dst_enqueue: "fresh_delivery_id uuid s \<Longrightarrow> delivery_step maxAgeMs s (snd (enqueue_delivery uuid input now s))"
| dst_claim: "delivery_step maxAgeMs s (snd (claimPending maxAgeMs ty ttlMs now s))"
| dst_ack: "delivery_step maxAgeMs s (ack i t slackApiMs s)"
| dst_ackByKey: "fresh_delivery_id uuid s \<Longrightarrow> delivery_step maxAgeMs s (ackByKey uuid key t s)"
| dst_editRef: "delivery_step maxAgeMs s (setEditRefByKey key editRef s)"
| dst_recipient: "delivery_step maxAgeMs s (recordRecipientThread i ref t s)"

inductive delivery_reachable :: "time \<Rightarrow> delivery_store \<Rightarrow> bool" for maxAgeMs where
  dr_empty: "delivery_reachable maxAgeMs empty_deliveries"
| dr_next: "delivery_reachable maxAgeMs s \<Longrightarrow> delivery_step maxAgeMs s s' \<Longrightarrow> delivery_reachable maxAgeMs s'"

definition deliveries_ok :: "delivery_store \<Rightarrow> bool" where
  "deliveries_ok s \<longleftrightarrow> well_keyed dl_id (ds_deliveries s) \<and> map_of (ds_deliveries s) [] = None \<and>
     (\<forall>k i. map_of (ds_byKey s) k = Some i \<longleftrightarrow> (\<exists>d. map_of (ds_deliveries s) i = Some d \<and> dl_idempotencyKey d = k))"

lemma deliveries_ok_key:
  assumes "deliveries_ok s"
  shows "delivery_for_key key s = Some d \<longleftrightarrow> map_of (ds_deliveries s) (dl_id d) = Some d \<and> dl_idempotencyKey d = key"
proof
  assume "delivery_for_key key s = Some d"
  then obtain i where i: "map_of (ds_byKey s) key = Some i" "map_of (ds_deliveries s) i = Some d"
    by (auto simp: delivery_for_key_def split: option.splits if_splits)
  then obtain e where "map_of (ds_deliveries s) i = Some e" "dl_idempotencyKey e = key"
    using assms unfolding deliveries_ok_def by blast
  with i assms show "map_of (ds_deliveries s) (dl_id d) = Some d \<and> dl_idempotencyKey d = key"
    using well_keyed_lookup [of dl_id "ds_deliveries s" i d] by (simp add: deliveries_ok_def)
next
  assume d: "map_of (ds_deliveries s) (dl_id d) = Some d \<and> dl_idempotencyKey d = key"
  then have "map_of (ds_byKey s) key = Some (dl_id d)"
    using assms unfolding deliveries_ok_def by blast
  moreover have "dl_id d \<noteq> []" using d assms unfolding deliveries_ok_def by fastforce
  ultimately show "delivery_for_key key s = Some d" using d by (simp add: delivery_for_key_def)
qed

lemma deliveries_ok_no_key:
  assumes "deliveries_ok s" and "delivery_for_key key s = None"
  shows "map_of (ds_byKey s) key = None"
proof (rule ccontr)
  assume "map_of (ds_byKey s) key \<noteq> None"
  then obtain i d where "map_of (ds_deliveries s) i = Some d" "dl_idempotencyKey d = key"
    using assms(1) unfolding deliveries_ok_def by blast
  then have "map_of (ds_deliveries s) (dl_id d) = Some d \<and> dl_idempotencyKey d = key"
    using well_keyed_lookup [of dl_id "ds_deliveries s" i d] assms(1) by (simp add: deliveries_ok_def)
  with deliveries_ok_key [OF assms(1)] assms(2) show False by (metis option.distinct(1))
qed

text \<open>Rewriting stored deliveries without touching their identifier and key keeps the invariant.\<close>

lemma deliveries_ok_modify:
  assumes "deliveries_ok s" and "\<And>d. dl_id (f d) = dl_id d \<and> dl_idempotencyKey (f d) = dl_idempotencyKey d"
  shows "deliveries_ok (s\<lparr>ds_deliveries := map_modify i f (ds_deliveries s)\<rparr>)"
  using assms unfolding deliveries_ok_def
  by (auto simp: map_of_modify intro!: well_keyed_modify)

lemma deliveries_ok_insert:
  assumes "deliveries_ok s" and "fresh_delivery_id uuid s" and "delivery_for_key key s = None"
    and "dl_id d = uuid" and "dl_idempotencyKey d = key"
  shows "deliveries_ok (s\<lparr>ds_deliveries := AList.update uuid d (ds_deliveries s), ds_byKey := AList.update key uuid (ds_byKey s)\<rparr>)"
proof -
  have none: "map_of (ds_byKey s) key = None" by (rule deliveries_ok_no_key [OF assms(1,3)])
  have iff: "map_of (ds_byKey s) k = Some j \<longleftrightarrow> (\<exists>e. map_of (ds_deliveries s) j = Some e \<and> dl_idempotencyKey e = k)" for k j
    using assms(1) unfolding deliveries_ok_def by blast
  have "\<not> (\<exists>e. map_of (ds_deliveries s) j = Some e \<and> dl_idempotencyKey e = key)" for j
    using none iff by (metis option.distinct(1))
  moreover have "map_of (ds_deliveries s) uuid = None" "uuid \<noteq> []" using assms(2) by (simp_all add: fresh_delivery_id_def)
  ultimately show ?thesis
    using assms(1,4,5) iff
    by (auto simp: deliveries_ok_def js_map_simps well_keyed_update)
qed

lemma deliveries_ok_cong:
  "deliveries_ok s \<Longrightarrow> ds_deliveries t = ds_deliveries s \<Longrightarrow> ds_byKey t = ds_byKey s \<Longrightarrow> deliveries_ok t"
  by (simp add: deliveries_ok_def)

lemma wake_fields [simp]:
  "ds_deliveries (wake b s) = ds_deliveries s" "ds_byKey (wake b s) = ds_byKey s" "ds_claimedUntil (wake b s) = ds_claimedUntil s"
  by (simp_all add: wake_def)

lemma map_of_expire:
  "map_of (ds_deliveries (expireOveraged maxAgeMs now s)) i =
     map_option (\<lambda>d. if overaged maxAgeMs now s d then d\<lparr>dl_expiredAt := Some now\<rparr> else d) (map_of (ds_deliveries s) i)"
  by (simp add: expireOveraged_def map_of_map)

lemma expire_ok:
  assumes "deliveries_ok s"
  shows "deliveries_ok (expireOveraged maxAgeMs now s)"
proof -
  have "well_keyed dl_id (ds_deliveries (expireOveraged maxAgeMs now s))"
    using assms by (auto simp: deliveries_ok_def well_keyed_def expireOveraged_def comp_def split_def)
  moreover have "ds_byKey (expireOveraged maxAgeMs now s) = ds_byKey s" by (simp add: expireOveraged_def)
  moreover have "(\<exists>e. map_of (ds_deliveries (expireOveraged maxAgeMs now s)) i = Some e \<and> dl_idempotencyKey e = k) \<longleftrightarrow>
      (\<exists>d. map_of (ds_deliveries s) i = Some d \<and> dl_idempotencyKey d = k)" for i k
    by (cases "map_of (ds_deliveries s) i") (simp_all add: map_of_expire)
  ultimately show ?thesis
    using assms by (simp add: deliveries_ok_def map_of_expire)
qed

lemma settle_fields [simp]:
  "dl_id (settle_delivery t d) = dl_id d" "dl_idempotencyKey (settle_delivery t d) = dl_idempotencyKey d"
  by (simp_all add: settle_delivery_def)

lemma enqueue_delivery_ok:
  assumes "deliveries_ok s" and "fresh_delivery_id uuid s"
  shows "deliveries_ok (snd (enqueue_delivery uuid input now s))"
proof (cases "delivery_for_key (din_idempotencyKey input) s")
  case None
  show ?thesis
    using deliveries_ok_insert [OF assms None, of "new_delivery uuid input now"]
    by (auto simp: enqueue_delivery_def None Let_def new_delivery_def intro: deliveries_ok_cong)
next
  case (Some d)
  have stored: "map_of (ds_deliveries s) (dl_id d) = Some d" using Some deliveries_ok_key [OF assms(1)] by blast
  have same: "map_modify (dl_id d) (\<lambda>_. revive input now d) (ds_deliveries s) = map_modify (dl_id d) (revive input now) (ds_deliveries s)"
    using assms(1) stored unfolding map_modify_def deliveries_ok_def well_keyed_def
    by (auto simp: map_of_eq_Some_iff dest: eq_key_imp_eq_value)
  have "deliveries_ok (s\<lparr>ds_deliveries := map_modify (dl_id d) (revive input now) (ds_deliveries s)\<rparr>)"
    using assms(1) by (rule deliveries_ok_modify) (simp add: revive_def)
  then show ?thesis
    using assms(1) by (auto simp: enqueue_delivery_def Some Let_def same intro: deliveries_ok_cong)
qed

lemma claimPending_ok:
  assumes "deliveries_ok s"
  shows "deliveries_ok (snd (claimPending maxAgeMs ty ttl now s))"
  using expire_ok [OF assms, of maxAgeMs now]
  by (simp add: claimPending_def Let_def) (erule deliveries_ok_cong, simp_all)

lemma ack_ok: "deliveries_ok s \<Longrightarrow> deliveries_ok (ack i t ms s)"
  unfolding ack_def by (erule deliveries_ok_modify) simp

lemma ackByKey_ok: "deliveries_ok s \<Longrightarrow> fresh_delivery_id uuid s \<Longrightarrow> deliveries_ok (ackByKey uuid key t s)"
  by (auto simp: ackByKey_def tombstone_def intro!: deliveries_ok_modify deliveries_ok_insert split: option.split)

lemma setEditRef_ok: "deliveries_ok s \<Longrightarrow> deliveries_ok (setEditRefByKey key ref s)"
  by (auto simp: setEditRefByKey_def intro!: deliveries_ok_modify split: option.split)

lemma recordRecipient_ok: "deliveries_ok s \<Longrightarrow> deliveries_ok (recordRecipientThread i ref t s)"
  unfolding recordRecipientThread_def by (erule deliveries_ok_modify) simp

lemma delivery_step_ok: "delivery_step maxAgeMs s s' \<Longrightarrow> deliveries_ok s \<Longrightarrow> deliveries_ok s'"
  by (induction rule: delivery_step.induct)
    (simp_all add: enqueue_delivery_ok claimPending_ok ack_ok ackByKey_ok setEditRef_ok recordRecipient_ok)

lemma delivery_reachable_ok: "delivery_reachable maxAgeMs s \<Longrightarrow> deliveries_ok s"
proof (induction rule: delivery_reachable.induct)
  case dr_empty
  show ?case by (simp add: deliveries_ok_def empty_deliveries_def)
qed (rule delivery_step_ok)

subsection \<open>A delivered message stays delivered\<close>

text \<open>How one step may change a stored delivery.\<close>

definition keeps_delivered :: "delivery_store \<Rightarrow> delivery_store \<Rightarrow> bool" where
  "keeps_delivered s s' \<longleftrightarrow> (\<forall>i d t. map_of (ds_deliveries s) i = Some d \<longrightarrow> dl_deliveredAt d = Some t \<longrightarrow>
     (\<exists>d'. map_of (ds_deliveries s') i = Some d' \<and> dl_deliveredAt d' = Some t \<and> dl_idempotencyKey d' = dl_idempotencyKey d))"

lemma keeps_delivered_modify:
  "(\<And>d. dl_deliveredAt d \<noteq> None \<Longrightarrow> dl_deliveredAt (f d) = dl_deliveredAt d \<and> dl_idempotencyKey (f d) = dl_idempotencyKey d) \<Longrightarrow>
   ds_deliveries s' = map_modify j f (ds_deliveries s) \<Longrightarrow> keeps_delivered s s'"
  by (auto simp: keeps_delivered_def map_of_modify)

lemma keeps_delivered_insert:
  "map_of (ds_deliveries s) uuid = None \<Longrightarrow> ds_deliveries s' = AList.update uuid d (ds_deliveries s) \<Longrightarrow> keeps_delivered s s'"
  by (auto simp: keeps_delivered_def js_map_simps)

lemma keeps_delivered_same: "ds_deliveries s' = ds_deliveries s \<Longrightarrow> keeps_delivered s s'"
  by (auto simp: keeps_delivered_def)

lemma keeps_delivered_expire: "ds_deliveries s' = ds_deliveries (expireOveraged maxAgeMs now s) \<Longrightarrow> keeps_delivered s s'"
  by (auto simp: keeps_delivered_def map_of_expire overaged_def)

lemma keeps_delivered_enqueue:
  assumes "deliveries_ok s" and "fresh_delivery_id uuid s"
  shows "keeps_delivered s (snd (enqueue_delivery uuid input now s))"
proof (cases "delivery_for_key (din_idempotencyKey input) s")
  case None
  with assms(2) show ?thesis
    by (intro keeps_delivered_insert [of _ uuid]) (auto simp: enqueue_delivery_def fresh_delivery_id_def Let_def)
next
  case (Some e)
  have e: "map_of (ds_deliveries s) (dl_id e) = Some e" using Some deliveries_ok_key [OF assms(1)] by blast
  then show ?thesis
    by (auto simp: enqueue_delivery_def Some Let_def keeps_delivered_def map_of_modify)
qed

lemma delivery_step_keeps: "delivery_step maxAgeMs s s' \<Longrightarrow> deliveries_ok s \<Longrightarrow> keeps_delivered s s'"
proof (induction rule: delivery_step.induct)
  case (dst_claim s ty ttlMs now)
  show ?case by (rule keeps_delivered_expire [of _ maxAgeMs now]) (simp add: claimPending_def Let_def)
next
  case (dst_ack s i t ms)
  show ?case unfolding ack_def by (rule keeps_delivered_modify) auto
next
  case (dst_ackByKey uuid s key t)
  show ?case
  proof (cases "delivery_for_key key s")
    case None
    with dst_ackByKey show ?thesis
      by (auto simp: ackByKey_def fresh_delivery_id_def intro: keeps_delivered_insert)
  next
    case (Some d)
    have "keeps_delivered s (s\<lparr>ds_deliveries := map_modify (dl_id d) (settle_delivery t) (ds_deliveries s)\<rparr>)"
      by (rule keeps_delivered_modify [of "settle_delivery t" _ "dl_id d"]) (auto simp: settle_delivery_def)
    with Some show ?thesis by (simp add: ackByKey_def)
  qed
next
  case (dst_editRef s key ref)
  have edit: "keeps_delivered s (s\<lparr>ds_deliveries := map_modify i (\<lambda>d. d\<lparr>dl_destination := (dl_destination d)\<lparr>d_editRef := Some ref\<rparr>\<rparr>)
      (ds_deliveries s)\<rparr>)" for i
    by (rule keeps_delivered_modify [where j = i and f = "\<lambda>d. d\<lparr>dl_destination := (dl_destination d)\<lparr>d_editRef := Some ref\<rparr>\<rparr>"]) auto
  then show ?case
    by (auto simp: setEditRefByKey_def intro: keeps_delivered_same split: option.split)
next
  case (dst_recipient s i ref t)
  show ?case unfolding recordRecipientThread_def by (rule keeps_delivered_modify) (auto simp: settle_delivery_def)
qed (rule keeps_delivered_enqueue)

lemma keeps_delivered_trans: "keeps_delivered s t \<Longrightarrow> keeps_delivered t u \<Longrightarrow> keeps_delivered s u"
  unfolding keeps_delivered_def by metis

lemma delivery_steps_keep:
  assumes "(delivery_step maxAgeMs)\<^sup>*\<^sup>* s s'" and "delivery_reachable maxAgeMs s"
  shows "delivery_reachable maxAgeMs s' \<and> keeps_delivered s s'"
  using assms
proof (induction rule: rtranclp_induct)
  case base
  then show ?case by (simp add: keeps_delivered_same)
next
  case (step t u)
  then show ?case
    using delivery_step_keeps [OF step(2) delivery_reachable_ok] by (blast intro: dr_next keeps_delivered_trans)
qed

lemma expire_claims [simp]:
  "ds_claimedUntil (expireOveraged maxAgeMs now s) = ds_claimedUntil s"
  "claimed_until i (expireOveraged maxAgeMs now s) = claimed_until i s"
  by (simp_all add: expireOveraged_def claimed_until_def)

lemma claimPending_rows:
  assumes "claimPending maxAgeMs ty ttl now s = (rows, s1)"
  shows "set rows = {d. d \<in> snd ` set (ds_deliveries (expireOveraged maxAgeMs now s)) \<and> is_pending ty d \<and>
           claimed_until (dl_id d) s \<le> now}"
    and "ds_deliveries s1 = ds_deliveries (expireOveraged maxAgeMs now s)"
    and "ds_claimedUntil s1 = fold (\<lambda>d. AList.update (dl_id d) (now + ttl)) rows (ds_claimedUntil s)"
  using assms by (auto simp: claimPending_def Let_def) force

text \<open>A message that was delivered is never handed out again. Once a delivery is marked as delivered, whatever
  operations follow, it keeps its delivery time, no claim and no listing of pending messages returns a
  delivery with its identifier, and enqueueing its idempotency key again returns it without any
  effect.\<close>

lemma delivered_never_resent:
  assumes "delivery_reachable maxAgeMs s" and "map_of (ds_deliveries s) i = Some d" and "dl_deliveredAt d = Some t"
    and "(delivery_step maxAgeMs)\<^sup>*\<^sup>* s s'"
  shows "(\<exists>d'. map_of (ds_deliveries s') i = Some d' \<and> dl_deliveredAt d' = Some t) \<and>
    (\<forall>ty. i \<notin> dl_id ` set (pending_deliveries ty s')) \<and>
    (\<forall>ty ttl now. i \<notin> dl_id ` set (fst (claimPending maxAgeMs ty ttl now s'))) \<and>
    (\<forall>uuid input now. din_idempotencyKey input = dl_idempotencyKey d \<longrightarrow>
       snd (enqueue_delivery uuid input now s') = s' \<and> dl_id (fst (enqueue_delivery uuid input now s')) = i)"
proof -
  note st = delivery_steps_keep [OF assms(4,1)]
  then obtain d' where d': "map_of (ds_deliveries s') i = Some d'" "dl_deliveredAt d' = Some t"
    "dl_idempotencyKey d' = dl_idempotencyKey d"
    using assms(2,3) unfolding keeps_delivered_def by blast
  have ok: "deliveries_ok s'" using st delivery_reachable_ok by blast
  then have wk: "well_keyed dl_id (ds_deliveries s')" by (simp add: deliveries_ok_def)
  have id: "dl_id d' = i" by (rule well_keyed_lookup [OF wk d'(1)])
  have stored: "map_of (ds_deliveries s') (dl_id e) = Some e" if "e \<in> snd ` set (ds_deliveries s')" for e
    using well_keyed_mem [OF wk that] .
  have "i \<notin> dl_id ` set (pending_deliveries ty s')" for ty
    using stored d'(1,2) by (fastforce simp: pending_deliveries_def is_pending_def)
  moreover have "i \<notin> dl_id ` set (fst (claimPending maxAgeMs ty ttl now s'))" for ty ttl now
  proof
    assume "i \<in> dl_id ` set (fst (claimPending maxAgeMs ty ttl now s'))"
    then obtain e where e: "e \<in> snd ` set (ds_deliveries (expireOveraged maxAgeMs now s'))" "dl_id e = i" "is_pending ty e"
      using claimPending_rows(1) [OF prod.collapse [symmetric]] by fastforce
    have "well_keyed dl_id (ds_deliveries (expireOveraged maxAgeMs now s'))"
      using expire_ok [OF ok] by (simp add: deliveries_ok_def)
    from well_keyed_mem [OF this e(1)] e(2) d'(1) have "e = (if overaged maxAgeMs now s' d' then d'\<lparr>dl_expiredAt := Some now\<rparr> else d')"
      by (simp add: map_of_expire)
    with d'(2) e(3) show False by (simp add: is_pending_def split: if_splits)
  qed
  moreover have "delivery_for_key (dl_idempotencyKey d) s' = Some d'"
    using deliveries_ok_key [OF ok, of "dl_idempotencyKey d" d'] d' id by simp
  then have "snd (enqueue_delivery uuid input now s') = s' \<and> dl_id (fst (enqueue_delivery uuid input now s')) = i"
    if "din_idempotencyKey input = dl_idempotencyKey d" for uuid input now
    using that d'(2) id by (simp add: enqueue_delivery_def)
  ultimately show ?thesis using d' by blast
qed

subsection \<open>Claims are exclusive\<close>

lemma map_of_fold_claims:
  "map_of (fold (\<lambda>d. AList.update (dl_id d) v) ds m) i = (if i \<in> dl_id ` set ds then Some v else map_of m i)"
  by (induction ds arbitrary: m) (auto simp: js_map_simps)

text \<open>C18: A sender's claim on pending messages is exclusive and complete. \<open>claimPending\<close> returns exactly the visible
  undelivered messages of its type that are neither claimed nor overaged; until the claim runs out, no
  other claim returns any of them and none of them expires.\<close>

theorem claim_pending_exclusive:
  assumes "delivery_reachable maxAgeMs s" and "claimPending maxAgeMs ty ttl now s = (rows, s1)"
  shows "set rows = {d. d \<in> set (map_values (ds_deliveries s)) \<and> is_pending ty d \<and> claimed_until (dl_id d) s \<le> now \<and>
           now - dl_createdAt d < maxAgeMs} \<and>
    (\<forall>d \<in> set rows. \<forall>later < now + ttl. \<forall>ty' ttl'.
       dl_id d \<notin> dl_id ` set (fst (claimPending maxAgeMs ty' ttl' later s1)) \<and>
       map_of (ds_deliveries (snd (claimPending maxAgeMs ty' ttl' later s1))) (dl_id d) = Some d)"
proof -
  have ok: "deliveries_ok s" by (rule delivery_reachable_ok [OF assms(1)])
  note rows = claimPending_rows [OF assms(2)]
  have wk1: "well_keyed dl_id (ds_deliveries s1)" using expire_ok [OF ok] rows(2) by (simp add: deliveries_ok_def)
  have "set rows = {d. d \<in> set (map_values (ds_deliveries s)) \<and> is_pending ty d \<and> claimed_until (dl_id d) s \<le> now \<and>
           now - dl_createdAt d < maxAgeMs}"
    unfolding rows(1)
    by (force simp: expireOveraged_def is_pending_def overaged_def split: if_splits)
  moreover have "dl_id d \<notin> dl_id ` set (fst (claimPending maxAgeMs ty' ttl' later s1)) \<and>
       map_of (ds_deliveries (snd (claimPending maxAgeMs ty' ttl' later s1))) (dl_id d) = Some d"
    if "d \<in> set rows" "later < now + ttl" for d later ty' ttl'
  proof -
    have held: "claimed_until (dl_id d) s1 = now + ttl"
      using that(1) by (simp add: claimed_until_def rows(3) map_of_fold_claims)
    have "map_of (ds_deliveries s1) (dl_id d) = Some d"
      using well_keyed_mem [OF wk1, of d] that(1) rows(1,2) by auto
    moreover have "\<not> overaged maxAgeMs later s1 d" using held that(2) by (simp add: overaged_def)
    ultimately have "map_of (ds_deliveries (snd (claimPending maxAgeMs ty' ttl' later s1))) (dl_id d) = Some d"
      by (simp add: claimPending_def Let_def map_of_expire)
    moreover have "dl_id d \<notin> dl_id ` set (fst (claimPending maxAgeMs ty' ttl' later s1))"
      using claimPending_rows(1) [OF prod.collapse [symmetric], of maxAgeMs ty' ttl' later s1] held that(2) by force
    ultimately show ?thesis by blast
  qed
  ultimately show ?thesis by blast
qed

definition demo_delivery_input :: delivery_input where
  "demo_delivery_input = \<lparr>din_destination = bare_destination ''slack'' ''C1'', din_text = ''hi'', din_attachments = None,
     din_provenance = None, din_idempotencyKey = ''run:1'', din_shadow = False\<rparr>"

definition demo_deliveries :: delivery_store where
  "demo_deliveries = snd (enqueue_delivery ''D1'' demo_delivery_input 10 empty_deliveries)"

lemma demo_deliveries_reachable: "delivery_reachable DELIVERY_MAX_AGE_MS demo_deliveries"
  unfolding demo_deliveries_def
  by (rule dr_next [OF dr_empty dst_enqueue]) (simp add: fresh_delivery_id_def empty_deliveries_def)

lemma delivered_never_resent_witness:
  "fst (claimPending DELIVERY_MAX_AGE_MS ''slack'' 60 99 demo_deliveries) \<noteq> [] \<and>
   ''D1'' \<notin> dl_id ` set (pending_deliveries ''slack'' (ack ''D1'' 20 None demo_deliveries))"
proof -
  have r: "delivery_reachable DELIVERY_MAX_AGE_MS (ack ''D1'' 20 None demo_deliveries)"
    by (rule dr_next [OF demo_deliveries_reachable dst_ack])
  have "\<exists>d. map_of (ds_deliveries (ack ''D1'' 20 None demo_deliveries)) ''D1'' = Some d \<and> dl_deliveredAt d = Some 20"
    by (simp add: demo_deliveries_def ack_def enqueue_delivery_def delivery_for_key_def empty_deliveries_def new_delivery_def
        demo_delivery_input_def wake_def Let_def settle_delivery_def)
  then obtain d where d: "map_of (ds_deliveries (ack ''D1'' 20 None demo_deliveries)) ''D1'' = Some d" "dl_deliveredAt d = Some 20"
    by blast
  have "fst (claimPending DELIVERY_MAX_AGE_MS ''slack'' 60 99 demo_deliveries) \<noteq> []" by code_simp
  with delivered_never_resent [OF r d rtranclp.rtrancl_refl] show ?thesis by blast
qed

theorem claim_pending_exclusive_witness:
  "map dl_id (fst (claimPending DELIVERY_MAX_AGE_MS ''slack'' 60 99 demo_deliveries)) = [''D1''] \<and>
   ''D1'' \<notin> dl_id ` set (fst (claimPending DELIVERY_MAX_AGE_MS ''slack'' 60 100
     (snd (claimPending DELIVERY_MAX_AGE_MS ''slack'' 60 99 demo_deliveries))))"
proof -
  have ids: "map dl_id (fst (claimPending DELIVERY_MAX_AGE_MS ''slack'' 60 99 demo_deliveries)) = [''D1'']" by code_simp
  then obtain d where "fst (claimPending DELIVERY_MAX_AGE_MS ''slack'' 60 99 demo_deliveries) = [d]" "dl_id d = ''D1''"
    by auto
  then have "dl_id d \<notin> dl_id ` set (fst (claimPending DELIVERY_MAX_AGE_MS ''slack'' 60 100
     (snd (claimPending DELIVERY_MAX_AGE_MS ''slack'' 60 99 demo_deliveries))))"
    by (intro conjunct2 [OF claim_pending_exclusive [OF demo_deliveries_reachable prod.collapse [symmetric]],
          THEN bspec, THEN spec, THEN mp, THEN spec, THEN spec, THEN conjunct1]) simp_all
  with ids \<open>dl_id d = ''D1''\<close> show ?thesis by simp
qed

end
