(* ===== verification/Trigger_Run.thy ===== *)
theory Trigger_Run
  imports Scope_Access Usage_Limits Delivery
begin

text \<open>
  The firing of a trigger (\<^verbatim>\<open>src/src/triggers/run-trigger.ts\<close>), shared by crons, webhooks and monitors: who the run
  acts as, whether that person still belongs to the home of the trigger, whether the recipient consented and
  the destination is visible, the run itself under the idempotency store and what is put into the delivery
  queue (\<open>reachEnqueue\<close> of \<^verbatim>\<open>src/src/reach/reach.ts\<close>, \<open>isVisible\<close> of \<^verbatim>\<open>src/src/directory/visibility.ts\<close>).
  The directory, the identity service, the roster of current members and the turn that is run are parameters;
  a lookup that rejects where the code has no handler makes the call reject before anything is done, so that
  the model gives those lookups plain answers.
  The effects of a fire are the list of turns it runs and deliveries it enqueues, in order.
\<close>

subsection \<open>What a fire depends on\<close>

record trigger_directory =
  dd_channelMember :: "string \<Rightarrow> string \<Rightarrow> bool"
  dd_groupMember :: "string \<Rightarrow> string \<Rightarrow> bool"
  dd_listChannelsFor :: "(string \<Rightarrow> string list) option"
  dd_get :: "string \<Rightarrow> string option reply"        \<comment> \<open>the display name of a member\<close>
  dd_channelPrivacy :: "(string \<Rightarrow> bool option) option"
  dd_groupMembership :: "(string \<Rightarrow> string \<Rightarrow> bool option reply) option"
  dd_conversationMembers :: "(scope_kind \<Rightarrow> string \<Rightarrow> string list option reply) option"

datatype fire_as = AsOwner | AsScopeFloor | AsScopeShared

datatype trigger_note =
    MembershipSkip | UnknownHomeSkip | NoInternalMembers | OwnerNotInternal | OwnerNotMember
  | NotVisible | RecipientDeclined | AwaitingConsent | ApprovalFailedClosed | NoReply
  | StatusNote turn_status "string option"

datatype notice_argument = NoticeUser string | NoticeNote trigger_note | NoticeStatus turn_status

record trigger_spec =
  ts_title :: "string option"
  ts_owner :: string
  ts_ownerScopeId :: scope_id
  ts_input :: string
  ts_securityScreenData :: "string option"
  ts_fireKey :: string
  ts_surface :: string
  ts_destination :: "destination option"
  ts_message :: "string option"
  ts_threadRef :: "string option"
  ts_runAs :: fire_as
  ts_unattendedGrants :: "string list option"
  ts_members :: "principal list option"
  ts_recipientConsent :: "recipient_consent option"
  ts_recipientConsentRequired :: bool
  ts_shadow :: bool
  ts_thinkingLevel :: "string option"
  ts_readOnly :: bool
  ts_turnWallClockMs :: "int option"
  ts_errorNotice :: "(notice_argument \<Rightarrow> string) option"
  ts_onClaimed :: "unit reply option"
  ts_deferWhenBusy :: bool

record turn_request =
  tq_surface :: string
  tq_actor :: string
  tq_conversation :: conversation
  tq_text :: string
  tq_securityScreenData :: "string option"
  tq_unattendedGrants :: "string list option"
  tq_thinkingLevel :: string
  tq_fastMode :: bool
  tq_readOnly :: bool
  tq_turnWallClockMs :: "int option"
  tq_triggerDestination :: "destination option"
  tq_surfaceTools :: bool
  tq_ownerKeychainUnion :: bool
  tq_idempotencyKey :: string

record trigger_deps =
  td_classify :: "string \<Rightarrow> classification"
  td_run :: "turn_request \<Rightarrow> turn_result reply"
  td_currentScopeMembers :: "(scope_id \<Rightarrow> principal list option reply) option"
  td_directory :: "trigger_directory option"
  td_sessions :: "(string \<Rightarrow> scope_id list reply) option"
  td_render :: "trigger_note \<Rightarrow> string"        \<comment> \<open>the wording of the notes\<close>

record trigger_outcome =
  to_authzFailed :: bool
  to_ran :: bool
  to_deferred :: bool
  to_status :: "turn_status option"
  to_note :: "trigger_note option"
  to_userNote :: "string option"
  to_reply :: "string option"
  to_sessionId :: "string option"

datatype trigger_effect = Runs turn_request | Enqueues delivery_input

definition refused_outcome :: "trigger_note \<Rightarrow> trigger_outcome" where
  "refused_outcome n =
     \<lparr>to_authzFailed = True, to_ran = False, to_deferred = False, to_status = None, to_note = Some n,
      to_userNote = None, to_reply = None, to_sessionId = None\<rparr>"

subsection \<open>Visibility and membership\<close>

datatype visibility_target =
    DmTarget string | GroupTarget string | ChannelTarget string "bool option"

definition isVisible :: "(string \<Rightarrow> string option) \<Rightarrow> trigger_directory \<Rightarrow> string \<Rightarrow> visibility_target \<Rightarrow> bool" where
  "isVisible links dir actorId target =
     (case target of
        DmTarget ownerId \<Rightarrow> samePerson links (Some actorId) (Some ownerId)
      | GroupTarget g \<Rightarrow> dd_groupMember dir g actorId
      | ChannelTarget c isPrivate \<Rightarrow>
          (case isPrivate of
             Some True \<Rightarrow> dd_channelMember dir c actorId
           | Some False \<Rightarrow> True
           | None \<Rightarrow> (case dd_listChannelsFor dir of None \<Rightarrow> False | Some list_for \<Rightarrow> c \<in> set (list_for actorId))))"

definition participatesInScope :: "trigger_deps \<Rightarrow> string \<Rightarrow> scope_id \<Rightarrow> bool" where
  "participatesInScope deps actorId scope =
     (case td_sessions deps of
        None \<Rightarrow> False
      | Some listing \<Rightarrow> (case listing actorId of Reply scopes \<Rightarrow> scope \<in> set scopes | Rejects \<Rightarrow> False))"

definition allowed_or :: "trigger_note \<Rightarrow> bool \<Rightarrow> trigger_note option" where
  "allowed_or n ok = (if ok then None else Some n)"

text \<open>\<open>None\<close> is \<open>{ ok: true }\<close>, \<open>Some\<close> the note of a refusal.\<close>

definition actorMayReadScope ::
  "(string \<Rightarrow> string option) \<Rightarrow> trigger_deps \<Rightarrow> string \<Rightarrow> scope_kind option \<Rightarrow> string \<Rightarrow> scope_id \<Rightarrow> bool \<Rightarrow> trigger_note option" where
  "actorMayReadScope links deps actorId kind ref scope snapshotGap =
     (if ref = [] then Some MembershipSkip
      else if kind = Some Personal then allowed_or MembershipSkip (samePerson links (Some actorId) (Some ref))
      else
        (case td_directory deps of
           None \<Rightarrow> allowed_or MembershipSkip (kind \<noteq> Some Group \<and> kind \<noteq> Some Channel)
         | Some dir \<Rightarrow>
             if kind = Some Group then
               (if isVisible links dir actorId (GroupTarget ref) then None
                else if snapshotGap then allowed_or UnknownHomeSkip (participatesInScope deps actorId scope)
                else
                  (let known = (case dd_groupMembership dir of
                                  None \<Rightarrow> None
                                | Some f \<Rightarrow> (case f ref actorId of Reply k \<Rightarrow> k | Rejects \<Rightarrow> None)) in
                   allowed_or MembershipSkip (known = None \<and> participatesInScope deps actorId scope)))
             else if kind \<noteq> Some Channel then None
             else
               (case Option.bind (dd_channelPrivacy dir) (\<lambda>f. f ref) of
                  None \<Rightarrow> allowed_or UnknownHomeSkip (participatesInScope deps actorId scope)
                | Some isPrivate \<Rightarrow> allowed_or MembershipSkip (isVisible links dir actorId (ChannelTarget ref (Some isPrivate))))))"

definition target_id :: "string \<Rightarrow> string" where
  "target_id t = takeWhile (\<lambda>c. c \<noteq> CHR '':'') t"

definition destinationVisible :: "(string \<Rightarrow> string option) \<Rightarrow> trigger_deps \<Rightarrow> string \<Rightarrow> destination \<Rightarrow> bool" where
  "destinationVisible links deps actorId d =
     (case td_directory deps of
        None \<Rightarrow> True
      | Some dir \<Rightarrow>
          if d_type d = ''slack'' then
            (let audience = (if truthy (d_audienceScopeId d) then Some (parseScopeId (the (d_audienceScopeId d))) else None) in
             case audience of
               Some (Some Personal, ref) \<Rightarrow> isVisible links dir actorId (DmTarget ref)
             | Some (Some Group, _) \<Rightarrow> isVisible links dir actorId (GroupTarget (target_id (d_target d)))
             | _ \<Rightarrow> isVisible links dir actorId (ChannelTarget (target_id (d_target d)) None))
          else if d_type d = ''group'' then isVisible links dir actorId (GroupTarget (target_id (d_target d)))
          else True)"

subsection \<open>Enqueueing\<close>

definition principalDestination :: "string \<Rightarrow> string \<Rightarrow> destination" where
  "principalDestination target onBehalfOf =
     (bare_destination ''principal'' target)\<lparr>d_audienceScopeId := Some (scopeId Personal target), d_onBehalfOf := Some onBehalfOf\<rparr>"

definition isThirdPartyRelay :: "destination \<Rightarrow> string option \<Rightarrow> bool" where
  "isThirdPartyRelay d attributeAs \<longleftrightarrow>
     attributeAs \<noteq> None \<and> (d_type d = ''group'' \<or> d_type d = ''principal'' \<and> d_onBehalfOf d \<noteq> Some (d_target d))"

definition relay_sender :: "destination \<Rightarrow> string option \<Rightarrow> string option" where
  "relay_sender d attributeAs =
     (if isThirdPartyRelay d attributeAs
      then (case map_option trim attributeAs of Some n \<Rightarrow> if n = [] then None else Some n | None \<Rightarrow> None)
      else None)"

definition reachEnqueue ::
  "destination \<Rightarrow> string \<Rightarrow> outgoing_attachment list option \<Rightarrow> string \<Rightarrow> delivery_provenance option \<Rightarrow> string option \<Rightarrow> bool \<Rightarrow> delivery_input" where
  "reachEnqueue d body attachments key provenance attributeAs shadow =
     (if d_react d \<noteq> None \<or> truthy (d_delete d) then
        \<lparr>din_destination = d, din_text = [], din_attachments = None, din_provenance = provenance,
         din_idempotencyKey = key, din_shadow = shadow\<rparr>
      else
        \<lparr>din_destination = (case relay_sender d attributeAs of Some n \<Rightarrow> d\<lparr>d_relaySender := Some n\<rparr> | None \<Rightarrow> d),
         din_text = body, din_attachments = listed_attachments attachments, din_provenance = provenance,
         din_idempotencyKey = key, din_shadow = shadow\<rparr>)"

definition deliveryProvenance :: "trigger_spec \<Rightarrow> string \<Rightarrow> turn_result option \<Rightarrow> delivery_provenance" where
  "deliveryProvenance spec threadRef res =
     \<lparr>dp_sourceTitle = (if truthy (ts_title spec) then ts_title spec else None),
      dp_trigger = ts_surface spec, dp_surface = ts_surface spec, dp_fireKey = ts_fireKey spec,
      dp_sourceScopeId = ts_ownerScopeId spec, dp_sourceThreadRef = threadRef,
      dp_sourceSessionId = (case Option.bind res tr_sessionId of Some s \<Rightarrow> if s = [] then None else Some s | None \<Rightarrow> None),
      dp_sourceUserSeq = Option.bind res tr_sourceUserSeq,
      dp_sourceAssistantEntrySeq = Option.bind res tr_sourceAssistantEntrySeq\<rparr>"

definition relayAttribution :: "trigger_deps \<Rightarrow> trigger_spec \<Rightarrow> string option" where
  "relayAttribution deps spec =
     (if ts_message spec = None then None
      else case td_directory deps of
        None \<Rightarrow> None
      | Some dir \<Rightarrow> (case dd_get dir (ts_owner spec) of Reply n \<Rightarrow> n | Rejects \<Rightarrow> None))"

definition GENERIC_FAILURE_CLAUSE :: string where
  "GENERIC_FAILURE_CLAUSE = ''something went wrong on my end''"

definition SESSION_BUSY_CLAUSE :: string where
  "SESSION_BUSY_CLAUSE = ''the conversation was busy with another task''"

definition SECURITY_QUARANTINE_REFUSAL_TEXT :: string where
  "SECURITY_QUARANTINE_REFUSAL_TEXT =
     ''I couldn't act because my security screen flagged part of this message or its conversation context. '' @
     ''Please retry without the flagged context, or ask an admin to review the quarantine.''"

definition userFacingFailureClause :: "turn_result \<Rightarrow> string" where
  "userFacingFailureClause res =
     (if tr_refusalKind res = Some SecurityQuarantine then SECURITY_QUARANTINE_REFUSAL_TEXT
      else if tr_refusalKind res = Some SessionBusy then SESSION_BUSY_CLAUSE
      else if tr_status res = TFailed \<or> \<not> truthy (tr_reason res) then GENERIC_FAILURE_CLAUSE
      else the (tr_reason res))"

subsection \<open>Firing\<close>

text \<open>Who the run acts as, or why it may not run.\<close>

definition internal_members :: "trigger_deps \<Rightarrow> principal list \<Rightarrow> principal list" where
  "internal_members deps members =
     filter (\<lambda>m. p_type m = Internal \<and> cf_type (td_classify deps (p_id m)) = Some ''internal'') members"

definition acting_person ::
  "(string \<Rightarrow> string option) \<Rightarrow> trigger_deps \<Rightarrow> trigger_spec \<Rightarrow> principal list option \<Rightarrow> trigger_note + string" where
  "acting_person links deps spec currentMembers =
     (let members = (case currentMembers of Some ms \<Rightarrow> ms | None \<Rightarrow> (case ts_members spec of Some ms \<Rightarrow> ms | None \<Rightarrow> []));
          owner = ts_owner spec in
      if ts_runAs spec = AsScopeFloor then
        (let internal = internal_members deps members in
         case internal of
           [] \<Rightarrow> Inl NoInternalMembers
         | m # _ \<Rightarrow>
             Inr (if list_ex (\<lambda>m. samePerson links (Some (p_id m)) (Some owner)) internal then owner else p_id m))
      else if cf_type (td_classify deps owner) \<noteq> Some ''internal'' then Inl OwnerNotInternal
      else if ts_runAs spec = AsScopeShared \<and>
        (case currentMembers of Some ms \<Rightarrow> \<not> list_ex (\<lambda>m. samePerson links (Some (p_id m)) (Some owner)) ms | None \<Rightarrow> False)
      then Inl OwnerNotMember
      else Inr owner)"

definition home_access ::
  "(string \<Rightarrow> string option) \<Rightarrow> trigger_deps \<Rightarrow> trigger_spec \<Rightarrow> principal list option \<Rightarrow> string \<Rightarrow> trigger_note option" where
  "home_access links deps spec currentMembers actorId =
     (case currentMembers of
        Some ms \<Rightarrow> allowed_or MembershipSkip (list_ex (\<lambda>m. samePerson links (Some (p_id m)) (Some actorId)) ms)
      | None \<Rightarrow>
          (case td_directory deps of
             None \<Rightarrow> None
           | Some _ \<Rightarrow>
               (let (kind, ref) = parseScopeId (ts_ownerScopeId spec) in
                actorMayReadScope links deps actorId kind ref (ts_ownerScopeId spec) (td_currentScopeMembers deps \<noteq> None))))"

definition fire_deliverable ::
  "(string \<Rightarrow> string option) \<Rightarrow> trigger_deps \<Rightarrow> trigger_spec \<Rightarrow> string \<Rightarrow> trigger_note option \<Rightarrow> bool" where
  "fire_deliverable links deps spec actorId home =
     (case ts_destination spec of
        None \<Rightarrow> True
      | Some d \<Rightarrow>
          (d_audienceScopeId d = Some (ts_ownerScopeId spec) \<and> home = None) \<or> destinationVisible links deps actorId d)"

definition fire_consented :: "(string \<Rightarrow> string option) \<Rightarrow> trigger_spec \<Rightarrow> bool" where
  "fire_consented links spec =
     recipientConsentSatisfied links (ts_recipientConsent spec)
       (consentRequiredRecipient links (ts_owner spec) (ts_recipientConsentRequired spec) (ts_destination spec))"

definition consent_note :: "trigger_spec \<Rightarrow> trigger_note" where
  "consent_note spec =
     (if map_option rc_status (ts_recipientConsent spec) = Some ConsentDeclined then RecipientDeclined else AwaitingConsent)"

definition err_key :: "string \<Rightarrow> string" where
  "err_key k = k @ '':err''"

definition owner_skip_notice :: "trigger_deps \<Rightarrow> trigger_spec \<Rightarrow> string \<Rightarrow> delivery_input" where
  "owner_skip_notice deps spec threadRef =
     \<lparr>din_destination = principalDestination (ts_owner spec) (ts_owner spec),
      din_text = ''Scheduled delivery skipped: '' @ td_render deps (consent_note spec),
      din_attachments = None, din_provenance = Some (deliveryProvenance spec threadRef None),
      din_idempotencyKey = err_key (ts_fireKey spec), din_shadow = ts_shadow spec\<rparr>"

definition fire_conversation :: "trigger_deps \<Rightarrow> trigger_spec \<Rightarrow> principal list \<Rightarrow> string \<Rightarrow> conversation" where
  "fire_conversation deps spec members threadRef =
     (let shared = ts_runAs spec = AsScopeFloor \<or> ts_runAs spec = AsScopeShared;
          audience = (if shared then members else []);
          named = (\<lambda>k ref kind.
             \<lparr>c_kind = kind, c_threadRef = threadRef, c_channelRef = Some ref, c_channelName = None,
              c_audience = map (\<lambda>m. m\<lparr>p_displayName := None\<rparr>) audience, c_isPrivate = None, c_isMpim = None,
              c_publishMembers =
                (case Option.bind (td_directory deps) dd_conversationMembers of
                   None \<Rightarrow> None
                 | Some f \<Rightarrow>
                     (case f k ref of
                        Reply (Some ids) \<Rightarrow>
                          Some (map (\<lambda>i. \<lparr>p_id = i, p_type = Internal, p_teamIds = None, p_displayName = None\<rparr>) ids)
                      | _ \<Rightarrow> None))\<rparr>) in
      case parseScopeId (ts_ownerScopeId spec) of
        (Some Channel, ref) \<Rightarrow> named Channel ref ChannelConversation
      | (Some Group, ref) \<Rightarrow> named Group ref GroupConversation
      | _ \<Rightarrow> \<lparr>c_kind = DmConversation, c_threadRef = threadRef, c_channelRef = None, c_channelName = None, c_audience = [],
               c_isPrivate = None, c_isMpim = None, c_publishMembers = None\<rparr>)"

definition fire_request :: "trigger_deps \<Rightarrow> trigger_spec \<Rightarrow> principal list \<Rightarrow> string \<Rightarrow> string \<Rightarrow> bool \<Rightarrow> turn_request" where
  "fire_request deps spec members threadRef actorId liveDelivery =
     \<lparr>tq_surface = ts_surface spec, tq_actor = actorId,
      tq_conversation = fire_conversation deps spec members threadRef,
      tq_text = ts_input spec, tq_securityScreenData = ts_securityScreenData spec,
      tq_unattendedGrants = (if ts_runAs spec = AsOwner then ts_unattendedGrants spec else None),
      tq_thinkingLevel = (case ts_thinkingLevel spec of Some l \<Rightarrow> if l = [] then ''xhigh'' else l | None \<Rightarrow> ''xhigh''),
      tq_fastMode = False, tq_readOnly = ts_readOnly spec, tq_turnWallClockMs = ts_turnWallClockMs spec,
      tq_triggerDestination = ts_destination spec, tq_surfaceTools = liveDelivery,
      tq_ownerKeychainUnion = (ts_runAs spec = AsScopeShared), tq_idempotencyKey = ts_fireKey spec\<rparr>"


datatype fire_result =
    FireThrew
  | FireDeferred
  | FireDone "turn_status option" "trigger_note option" "string option" "string option" "string option"

text \<open>What is decided before the fire is claimed.\<close>

record fire_plan =
  fp_actorId :: string
  fp_members :: "principal list"
  fp_threadRef :: string
  fp_home :: "trigger_note option"
  fp_consented :: bool
  fp_deliverable :: bool
  fp_live :: bool

definition message_body :: "trigger_deps \<Rightarrow> trigger_spec \<Rightarrow> fire_plan \<Rightarrow> string \<Rightarrow> fire_result \<times> trigger_effect list" where
  "message_body deps spec plan msg =
     (case ts_destination spec of
        None \<Rightarrow> (FireDone (Some TOk) None None None None, [])
      | Some d \<Rightarrow>
          if \<not> fp_consented plan then
            (FireDone (Some TRefused) (Some (consent_note spec)) None None None,
             [Enqueues (owner_skip_notice deps spec (fp_threadRef plan))])
          else if \<not> fp_deliverable plan then (FireDone (Some TRefused) (Some NotVisible) None None None, [])
          else
            (FireDone (Some TOk) None None None None,
             [Enqueues (reachEnqueue d msg None (ts_fireKey spec)
                (Some (deliveryProvenance spec (fp_threadRef plan) None)) (relayAttribution deps spec) (ts_shadow spec))]))"

definition result_body :: "trigger_deps \<Rightarrow> trigger_spec \<Rightarrow> fire_plan \<Rightarrow> turn_result \<Rightarrow> fire_result \<times> trigger_effect list" where
  "result_body deps spec plan res =
     (let done_as = (\<lambda>status note userNote. FireDone (Some status) note userNote (tr_reply res) (tr_sessionId res)) in
      if ts_deferWhenBusy spec \<and> tr_refusalKind res = Some SessionBusy then (FireDeferred, [])
      else if tr_status res = TSilent then (done_as TSilent None None, [])
      else if tr_status res = TPendingApproval then (done_as TPendingApproval (Some ApprovalFailedClosed) None, [])
      else if tr_status res = TOk \<and> (truthy (tr_reply res) \<or> listed_attachments (tr_attachments res) \<noteq> None) then
        (case ts_destination spec of
           None \<Rightarrow> (done_as TOk None None, [])
         | Some d \<Rightarrow>
             if fp_live plan then (done_as TOk None None, [])
             else if \<not> fp_consented plan then
               (done_as TRefused (Some (consent_note spec)) None, [Enqueues (owner_skip_notice deps spec (fp_threadRef plan))])
             else if \<not> fp_deliverable plan then (done_as TRefused (Some NotVisible) None, [])
             else
               (done_as TOk None None,
                [Enqueues (reachEnqueue d (case tr_reply res of Some r \<Rightarrow> r | None \<Rightarrow> []) (tr_attachments res) (ts_fireKey spec)
                   (Some (deliveryProvenance spec (fp_threadRef plan) (Some res))) None (ts_shadow spec))]))
      else if tr_status res = TOk then (done_as TOk (Some NoReply) None, [])
      else
        (done_as (tr_status res)
           (Some (StatusNote (tr_status res) (if truthy (tr_reason res) then tr_reason res else None)))
           (Some (userFacingFailureClause res)), []))"

definition trigger_body :: "trigger_deps \<Rightarrow> trigger_spec \<Rightarrow> fire_plan \<Rightarrow> fire_result \<times> trigger_effect list" where
  "trigger_body deps spec plan =
     (if ts_onClaimed spec = Some Rejects then (FireThrew, [])
      else
        (case ts_message spec of
           Some msg \<Rightarrow> message_body deps spec plan msg
         | None \<Rightarrow>
             (case fp_home plan of
                Some n \<Rightarrow> (FireDone None (Some n) None None None, [])
              | None \<Rightarrow>
                  (let req = fire_request deps spec (fp_members plan) (fp_threadRef plan) (fp_actorId plan) (fp_live plan) in
                   case td_run deps req of
                     Rejects \<Rightarrow> (FireThrew, [Runs req])
                   | Reply res \<Rightarrow>
                       (let (r, es) = result_body deps spec plan res in (r, Runs req # es))))))"

definition isTriggerFailure :: "trigger_outcome \<Rightarrow> bool" where
  "isTriggerFailure o' \<longleftrightarrow>
     to_ran o' \<and> to_status o' \<noteq> None \<and> to_status o' \<noteq> Some TOk \<and> to_status o' \<noteq> Some TSilent"

definition nonempty :: "string option \<Rightarrow> string option" where
  "nonempty t = (case t of Some s \<Rightarrow> if s = [] then None else Some s | None \<Rightarrow> None)"

text \<open>The outcome, given whether the callback ran to its end.\<close>

definition fire_outcome :: "bool \<Rightarrow> bool \<Rightarrow> fire_result \<Rightarrow> trigger_outcome" where
  "fire_outcome finished deferred r =
     (case r of
        FireDone status n userNote reply sessionId \<Rightarrow>
          \<lparr>to_authzFailed = False, to_ran = finished, to_deferred = deferred, to_status = status, to_note = n,
           to_userNote = nonempty userNote, to_reply = reply, to_sessionId = nonempty sessionId\<rparr>
      | _ \<Rightarrow>
          \<lparr>to_authzFailed = False, to_ran = finished, to_deferred = deferred, to_status = None, to_note = None,
           to_userNote = None, to_reply = None, to_sessionId = None\<rparr>)"

definition notice_argument_of :: "fire_result \<Rightarrow> trigger_outcome \<Rightarrow> notice_argument" where
  "notice_argument_of r o' =
     (case r of
        FireDone status n userNote _ _ \<Rightarrow>
          (case userNote of
             Some u \<Rightarrow> NoticeUser u
           | None \<Rightarrow> (case n of Some m \<Rightarrow> NoticeNote m | None \<Rightarrow> NoticeStatus (the status)))
      | _ \<Rightarrow> NoticeStatus TFailed)"

definition error_notice :: "trigger_spec \<Rightarrow> fire_plan \<Rightarrow> fire_result \<Rightarrow> trigger_outcome \<Rightarrow> trigger_effect list" where
  "error_notice spec plan r o' =
     (case (ts_errorNotice spec, ts_destination spec) of
        (Some notice, Some d) \<Rightarrow>
          if fp_consented plan \<and> fp_deliverable plan \<and> isTriggerFailure o' then
            [Enqueues \<lparr>din_destination = d, din_text = notice (notice_argument_of r o'), din_attachments = None,
               din_provenance = Some (deliveryProvenance spec (fp_threadRef plan) None),
               din_idempotencyKey = err_key (ts_fireKey spec), din_shadow = ts_shadow spec\<rparr>]
          else []
      | _ \<Rightarrow> [])"

definition fire_plan_for ::
  "(string \<Rightarrow> string option) \<Rightarrow> trigger_deps \<Rightarrow> trigger_spec \<Rightarrow> principal list option \<Rightarrow> string \<Rightarrow> fire_plan" where
  "fire_plan_for links deps spec currentMembers actorId =
     (let home = home_access links deps spec currentMembers actorId;
          deliverable = fire_deliverable links deps spec actorId home;
          consented = fire_consented links spec in
      \<lparr>fp_actorId = actorId,
       fp_members = (case currentMembers of Some ms \<Rightarrow> ms | None \<Rightarrow> (case ts_members spec of Some ms \<Rightarrow> ms | None \<Rightarrow> [])),
       fp_threadRef = (case ts_threadRef spec of Some t \<Rightarrow> t | None \<Rightarrow> ts_fireKey spec),
       fp_home = home, fp_consented = consented, fp_deliverable = deliverable,
       fp_live = (ts_surface spec = ''monitor'' \<and> ts_destination spec \<noteq> None \<and> consented \<and> deliverable)\<rparr>)"

text \<open>
  The call: its outcome (\<open>None\<close> when it rejects), its effects and the idempotency store. It starts at \<open>t\<close>; a
  callback that returns does so at \<open>t'\<close>. The callback runs exactly when \<open>once\<close> does not refuse.
\<close>

definition runTrigger ::
  "(string \<Rightarrow> string option) \<Rightarrow> idem_options \<Rightarrow> time \<Rightarrow> time \<Rightarrow> trigger_deps \<Rightarrow> trigger_spec \<Rightarrow> idem_store \<Rightarrow>
   trigger_outcome option \<times> trigger_effect list \<times> idem_store" where
  "runTrigger links opts t t' deps spec idem =
     (case (case td_currentScopeMembers deps of None \<Rightarrow> Reply None | Some f \<Rightarrow> f (ts_ownerScopeId spec)) of
        Rejects \<Rightarrow> (None, [], idem)
      | Reply currentMembers \<Rightarrow>
          (case acting_person links deps spec currentMembers of
             Inl n \<Rightarrow> (Some (refused_outcome n), [], idem)
           | Inr actorId \<Rightarrow>
               (let plan = fire_plan_for links deps spec currentMembers actorId;
                    (r, effects) = trigger_body deps spec plan;
                    finish = (case r of FireDone _ _ _ _ _ \<Rightarrow> Some t' | _ \<Rightarrow> None);
                    (outcome, idem') = once opts t (ts_fireKey spec) (\<lambda>st. (finish, st)) idem in
                case outcome of
                  Inr True \<Rightarrow>
                    (let o' = fire_outcome True False r in (Some o', effects @ error_notice spec plan r o', idem'))
                | Inr False \<Rightarrow> (Some (fire_outcome False False FireThrew), [], idem')
                | Inl _ \<Rightarrow>
                    if r = FireDeferred then (Some (fire_outcome False True FireThrew), effects, idem')
                    else (None, effects, idem'))))"

subsection \<open>Who a fire acts for\<close>

definition known_members :: "trigger_spec \<Rightarrow> principal list option \<Rightarrow> principal list" where
  "known_members spec cm = (case cm of Some ms \<Rightarrow> ms | None \<Rightarrow> (case ts_members spec of Some ms \<Rightarrow> ms | None \<Rightarrow> []))"

text \<open>
  A fire on the floor of a scope acts as its owner or as a member, either of them a member who is an internal
  person; every other fire acts as its owner, who is an internal person and, for a fire shared with the scope,
  among the current members if these are known.
\<close>

definition fire_authority ::
  "(string \<Rightarrow> string option) \<Rightarrow> trigger_deps \<Rightarrow> trigger_spec \<Rightarrow> principal list option \<Rightarrow> string \<Rightarrow> bool" where
  "fire_authority links deps spec cm a \<longleftrightarrow>
     (if ts_runAs spec = AsScopeFloor then
        (\<exists>m \<in> set (known_members spec cm). p_type m = Internal \<and> cf_type (td_classify deps (p_id m)) = Some ''internal'' \<and>
           (a = p_id m \<or> a = ts_owner spec \<and> samePerson links (Some (p_id m)) (Some a)))
      else
        a = ts_owner spec \<and> cf_type (td_classify deps a) = Some ''internal'' \<and>
        (ts_runAs spec = AsScopeShared \<longrightarrow>
           (\<forall>ms. cm = Some ms \<longrightarrow> (\<exists>m \<in> set ms. samePerson links (Some (p_id m)) (Some a)))))"

lemma acting_person_authority:
  assumes "acting_person links deps spec cm = Inr a"
  shows "fire_authority links deps spec cm a"
proof (cases "ts_runAs spec = AsScopeFloor")
  case True
  let ?ms = "internal_members deps (known_members spec cm)"
  have sub: "m \<in> set (known_members spec cm) \<and> p_type m = Internal \<and> cf_type (td_classify deps (p_id m)) = Some ''internal''"
    if "m \<in> set ?ms" for m
    using that by (simp add: internal_members_def)
  obtain m ms where ms: "?ms = m # ms"
    and a: "a = (if list_ex (\<lambda>m. samePerson links (Some (p_id m)) (Some (ts_owner spec))) ?ms then ts_owner spec else p_id m)"
    using assms True by (auto simp: acting_person_def known_members_def Let_def split: list.splits)
  have "\<exists>x \<in> set ?ms. a = p_id x \<or> a = ts_owner spec \<and> samePerson links (Some (p_id x)) (Some a)"
    using a ms by (auto simp: list_ex_iff split: if_splits)
  then show ?thesis using True sub by (auto simp: fire_authority_def)
next
  case False
  then show ?thesis
    using assms by (auto simp: acting_person_def fire_authority_def Let_def list_ex_iff split: if_splits option.splits)
qed

definition delivered_to :: "destination \<Rightarrow> delivery_input \<Rightarrow> bool" where
  "delivered_to d i \<longleftrightarrow> din_destination i = d\<lparr>d_relaySender := d_relaySender (din_destination i)\<rparr>"

lemma reachEnqueue_destination: "delivered_to d (reachEnqueue d body att key prov attr shadow)"
  by (simp add: delivered_to_def reachEnqueue_def split: option.splits)

definition permitted_effect :: "trigger_deps \<Rightarrow> trigger_spec \<Rightarrow> fire_plan \<Rightarrow> trigger_effect \<Rightarrow> bool" where
  "permitted_effect deps spec plan e \<longleftrightarrow>
     (case e of
        Runs req \<Rightarrow>
          tq_actor req = fp_actorId plan \<and> fp_home plan = None \<and> tq_idempotencyKey req = ts_fireKey spec \<and>
          (tq_unattendedGrants req \<noteq> None \<longrightarrow> ts_runAs spec = AsOwner)
      | Enqueues i \<Rightarrow>
          din_destination i = principalDestination (ts_owner spec) (ts_owner spec) \<and> \<not> fp_consented plan \<or>
          (\<exists>d. ts_destination spec = Some d \<and> fp_consented plan \<and> fp_deliverable plan \<and> delivered_to d i))"

lemma result_body_permitted: "list_all (permitted_effect deps spec plan) (snd (result_body deps spec plan res))"
  by (auto simp: result_body_def permitted_effect_def owner_skip_notice_def reachEnqueue_destination Let_def
      split: option.splits)

lemma message_body_permitted: "list_all (permitted_effect deps spec plan) (snd (message_body deps spec plan msg))"
  by (auto simp: message_body_def permitted_effect_def owner_skip_notice_def reachEnqueue_destination split: option.splits)

lemma trigger_body_permitted: "list_all (permitted_effect deps spec plan) (snd (trigger_body deps spec plan))"
  using message_body_permitted [of deps spec plan] result_body_permitted [of deps spec plan]
  by (auto simp: trigger_body_def Let_def permitted_effect_def [of _ _ _ "Runs _"] fire_request_def
      split: option.splits reply.splits prod.splits) (metis snd_conv)+

lemma error_notice_permitted: "list_all (permitted_effect deps spec plan) (error_notice spec plan r out)"
  by (auto simp: error_notice_def permitted_effect_def delivered_to_def split: option.splits)

lemma runTrigger_effects:
  assumes "runTrigger links opts t t' deps spec idem = (out, effects, idem')" "e \<in> set effects"
  obtains cm a where
    "acting_person links deps spec cm = Inr a" "permitted_effect deps spec (fire_plan_for links deps spec cm a) e"
    "(case td_currentScopeMembers deps of None \<Rightarrow> Reply None | Some f \<Rightarrow> f (ts_ownerScopeId spec)) = Reply cm"
proof -
  obtain cm where cm: "(case td_currentScopeMembers deps of None \<Rightarrow> Reply None | Some f \<Rightarrow> f (ts_ownerScopeId spec)) = Reply cm"
    using assms by (cases "case td_currentScopeMembers deps of None \<Rightarrow> Reply None | Some f \<Rightarrow> f (ts_ownerScopeId spec)")
      (auto simp: runTrigger_def)
  obtain a where a: "acting_person links deps spec cm = Inr a"
    using assms cm by (cases "acting_person links deps spec cm") (auto simp: runTrigger_def)
  let ?plan = "fire_plan_for links deps spec cm a"
  obtain r es where body: "trigger_body deps spec ?plan = (r, es)" by fastforce
  have "e \<in> set es \<or> (\<exists>o'. e \<in> set (error_notice spec ?plan r o'))"
    using assms by (auto simp: runTrigger_def cm a body Let_def split: prod.splits sum.splits bool.splits if_splits)
  then have "permitted_effect deps spec ?plan e"
    using trigger_body_permitted [of deps spec ?plan] error_notice_permitted [of deps spec ?plan r] body
    by (auto simp: list_all_iff)
  then show thesis using that a cm by blast
qed


definition demo_trigger :: trigger_spec where
  "demo_trigger =
     \<lparr>ts_title = None, ts_owner = ''ann'', ts_ownerScopeId = ''personal:ann'', ts_input = ''go'', ts_securityScreenData = None,
      ts_fireKey = ''k'', ts_surface = ''cron'', ts_destination = Some (bare_destination ''principal'' ''bob''), ts_message = Some ''hi'',
      ts_threadRef = None, ts_runAs = AsOwner, ts_unattendedGrants = None, ts_members = None,
      ts_recipientConsent = Some \<lparr>rc_recipientId = ''bob'', rc_status = ConsentAccepted, rc_decidedAt = Some 1\<rparr>,
      ts_recipientConsentRequired = True, ts_shadow = False, ts_thinkingLevel = None, ts_readOnly = False,
      ts_turnWallClockMs = None, ts_errorNotice = None, ts_onClaimed = None, ts_deferWhenBusy = False\<rparr>"

definition demo_trigger_deps :: trigger_deps where
  "demo_trigger_deps =
     \<lparr>td_classify = (\<lambda>i. \<lparr>cf_type = Some ''internal'', cf_teamIds = None\<rparr>), td_run = (\<lambda>_. Rejects),
      td_currentScopeMembers = None, td_directory = None, td_sessions = None, td_render = (\<lambda>_. [])\<rparr>"

definition demo_idem :: idem_store where
  "demo_idem = \<lparr>id_done = [], id_inflight = [], id_lastPruneAt = 0, id_backing = None\<rparr>"

definition demo_fire :: "trigger_outcome option \<times> trigger_effect list \<times> idem_store" where
  "demo_fire = runTrigger (\<lambda>_. None) default_idem_options 5 6 demo_trigger_deps demo_trigger demo_idem"

lemma demo_fire_effects: "length (fst (snd demo_fire)) = 1" "map_option to_ran (fst demo_fire) = Some True"
  by code_simp+


subsection \<open>A fire happens once\<close>

definition idem_after :: "idem_options \<Rightarrow> idem_call list \<Rightarrow> idem_store \<Rightarrow> idem_store" where
  "idem_after opts cs st = fold (\<lambda>c st. snd (idem_apply opts c st)) cs st"

lemma idem_after_held:
  "held_since key a st \<Longrightarrow> backing_ok st \<Longrightarrow> \<forall>c \<in> set cs. before (a + io_retentionMs opts) c \<Longrightarrow>
   held_since key a (idem_after opts cs st) \<and> backing_ok (idem_after opts cs st)"
  by (induction cs arbitrary: st) (auto simp: idem_after_def dest: idem_apply_keeps)

lemma once_held:
  assumes "held_since key a st" "t \<le> a + io_retentionMs opts"
  shows "fst (once opts t key fn st) = Inr False"
proof -
  have "held_since key a (st\<lparr>id_inflight := id_inflight st @ [key]\<rparr>)" using assms(1) by (simp add: held_since_def)
  from isCommitted_held [OF this assms(2)] show ?thesis by (simp add: once_def)
qed

lemma isCommitted_ok: "backing_ok st \<Longrightarrow> backing_ok (snd (isCommitted opts t key st))"
  by (auto simp: isCommitted_def backing_ok_def Let_def distinct_update split: option.splits)

lemma once_commits:
  assumes "once opts t key (\<lambda>st. (finish, st)) st = (Inr True, st')" "backing_ok st" "0 \<le> io_retentionMs opts"
  obtains a where "finish = Some a" "held_since key a st'" "backing_ok st'"
proof -
  obtain b st1 where c: "isCommitted opts t key (st\<lparr>id_inflight := id_inflight st @ [key]\<rparr>) = (b, st1)" by fastforce
  have "backing_ok (st\<lparr>id_inflight := id_inflight st @ [key]\<rparr>)" using assms(2) by (simp add: backing_ok_def)
  then have ok: "backing_ok st1" using isCommitted_ok c by (metis snd_conv)
  obtain a where a: "finish = Some a" "st' = leave key (commit_key opts key a st1)"
    using assms(1) c by (auto simp: once_def split: if_splits option.splits)
  have "held_since key a (commit_key opts key a st1) \<and> backing_ok (commit_key opts key a st1)"
    using ok assms(3) by (intro commit_keeps) auto
  then show thesis using that a by simp
qed

lemma runTrigger_committed:
  assumes "runTrigger links opts t t' deps spec idem = (Some out, effects, idem')" "to_ran out" "backing_ok idem"
    "0 \<le> io_retentionMs opts"
  shows "held_since (ts_fireKey spec) t' idem' \<and> backing_ok idem'"
proof -
  obtain cm a where cm: "(case td_currentScopeMembers deps of None \<Rightarrow> Reply None | Some f \<Rightarrow> f (ts_ownerScopeId spec)) = Reply cm"
    and a: "acting_person links deps spec cm = Inr a"
    using assms(1,2) by (auto simp: runTrigger_def refused_outcome_def split: reply.splits sum.splits)
  let ?plan = "fire_plan_for links deps spec cm a"
  obtain r es where body: "trigger_body deps spec ?plan = (r, es)" by fastforce
  let ?finish = "case r of FireDone _ _ _ _ _ \<Rightarrow> Some t' | _ \<Rightarrow> None"
  obtain res st' where res: "once opts t (ts_fireKey spec) (\<lambda>st. (?finish, st)) idem = (res, st')" by fastforce
  have ran_true: "res = Inr True" "idem' = st'"
    using assms(1,2) by (auto simp: runTrigger_def cm a body res Let_def fire_outcome_def
        split: sum.splits bool.splits if_splits)
  obtain c where c: "?finish = Some c" "held_since (ts_fireKey spec) c st'" "backing_ok st'"
    using once_commits [of opts t "ts_fireKey spec" ?finish idem st'] res ran_true(1) assms(3,4) by auto
  then have "c = t'" by (auto split: fire_result.splits)
  then show ?thesis using c ran_true(2) by simp
qed

lemma runTrigger_refused:
  assumes refused: "\<And>fn. fst (once opts t (ts_fireKey spec) fn idem) = Inr False"
  shows "fst (snd (runTrigger links opts t t' deps spec idem)) = []"
proof (cases "case td_currentScopeMembers deps of None \<Rightarrow> Reply None | Some f \<Rightarrow> f (ts_ownerScopeId spec)")
  case (Reply cm)
  show ?thesis
  proof (cases "acting_person links deps spec cm")
    case (Inr a)
    obtain r es where body: "trigger_body deps spec (fire_plan_for links deps spec cm a) = (r, es)" by fastforce
    let ?fn = "\<lambda>st :: idem_store. (case r of FireDone _ _ _ _ _ \<Rightarrow> Some t' | _ \<Rightarrow> None, st)"
    obtain st' where "once opts t (ts_fireKey spec) ?fn idem = (Inr False, st')"
      using refused [of ?fn] by (metis prod.collapse)
    then show ?thesis by (simp add: runTrigger_def Reply Inr body Let_def)
  qed (simp add: runTrigger_def Reply)
qed (simp add: runTrigger_def)

text \<open>A trigger fires once per fire key. After a fire ran to its end at some time, every later fire with the same key within the retention time of the idempotency store runs no turn and enqueues no delivery, whatever else the idempotency store was used for in between and whatever the later fire is made of.\<close>

lemma trigger_fires_once:
  assumes "runTrigger links opts t t' deps spec idem = (Some out, effects, idem1)" "to_ran out"
    and "backing_ok idem" "0 \<le> io_retentionMs opts"
    and "\<forall>c \<in> set cs. before (t' + io_retentionMs opts) c"
    and "ts_fireKey spec2 = ts_fireKey spec" "t2 \<le> t' + io_retentionMs opts"
  shows "fst (snd (runTrigger links2 opts t2 t2' deps2 spec2 (idem_after opts cs idem1))) = []"
proof -
  let ?st = "idem_after opts cs idem1"
  have "held_since (ts_fireKey spec2) t' ?st"
    using idem_after_held [of "ts_fireKey spec" t' idem1 cs opts] runTrigger_committed [OF assms(1-4)] assms(5,6) by simp
  then have "fst (once opts t2 (ts_fireKey spec2) fn ?st) = Inr False" for fn
    using once_held assms(7) by blast
  then show ?thesis by (rule runTrigger_refused)
qed

lemma trigger_fires_once_witness:
  "fst (snd (runTrigger (\<lambda>_. None) default_idem_options 100 101 demo_trigger_deps demo_trigger (snd (snd demo_fire)))) = []"
proof -
  obtain out where out: "fst demo_fire = Some out" "to_ran out" using demo_fire_effects(2) by auto
  have "runTrigger (\<lambda>_. None) default_idem_options 5 6 demo_trigger_deps demo_trigger demo_idem =
      (Some out, fst (snd demo_fire), snd (snd demo_fire))"
    using out(1) unfolding demo_fire_def by (metis prod.collapse)
  from trigger_fires_once [OF this out(2), of "[]" demo_trigger 100] show ?thesis
    by (simp add: backing_ok_def demo_idem_def default_idem_options_def idem_after_def)
qed

end
