(* ===== verification/Loop_Outputs.thy ===== *)
theory Loop_Outputs
  imports Durable_Map Json Core_Types
begin

text \<open>
  The outputs a loop produces and ships: \<^verbatim>\<open>src/src/loops/output-store.ts\<close>. Each operation on one output is an
  atomic update (\<open>applyIf\<close>); operations on several outputs list them first and then update one by one.
\<close>

subsection \<open>Data\<close>

datatype output_state = OStaged | OReady | OShipping | OUnconfirmed | OShipped | OReturned | OSuperseded | OExpired

datatype captured_by = CapLedger | CapClassifier | CapAgent

record ship_result =
  sr_status :: "turn_status option"
  sr_note :: "string option"
  sr_reply :: "string option"
  sr_sessionId :: "string option"

record loop_output =
  lo_id :: string
  lo_loopId :: string
  lo_itemId :: string
  lo_attemptId :: string
  lo_shipAction :: string
  lo_label :: "string option"
  lo_externalRef :: "string option"
  lo_title :: string
  lo_summary :: "string option"
  lo_state :: output_state
  lo_capturedBy :: captured_by
  lo_createdAt :: time
  lo_updatedAt :: time
  lo_decidedBy :: "string option"
  lo_decidedAt :: "time option"
  lo_decisionNote :: "string option"
  lo_claimedAt :: "time option"
  lo_claimToken :: "string option"
  lo_shipFireKey :: "string option"
  lo_shipResult :: "ship_result option"
  lo_supersedesOutputIds :: "string list option"
  lo_supersededByOutputIds :: "string list option"

record capture_input =
  ci_loopId :: string
  ci_itemId :: string
  ci_attemptId :: string
  ci_ordinal :: "nat option"
  ci_shipAction :: string
  ci_title :: string
  ci_capturedBy :: captured_by
  ci_label :: "string option"
  ci_externalRef :: "string option"
  ci_summary :: "string option"

record classify_input =
  cl_title :: "string option"
  cl_summary :: "string option"
  cl_label :: "string option"
  cl_externalRef :: "string option"

record decide_input =
  de_actorId :: string
  de_note :: "string option"

definition loopOutputId ::
  "(string \<Rightarrow> string) \<Rightarrow> string \<Rightarrow> string \<Rightarrow> string \<Rightarrow> string \<Rightarrow> nat \<Rightarrow> string option \<Rightarrow> string" where
  "loopOutputId sha loopId itemId attemptId shipAction ordinal externalRef =
     hashId sha [contentPart (Some (JStr loopId)), contentPart (Some (JStr itemId)), contentPart (Some (JStr attemptId)),
       contentPart (Some (JStr shipAction)), contentPart (Some (JNum (int ordinal))),
       contentPart (map_option JStr externalRef)] 16"

definition SHIP_LEASE_MS :: time where "SHIP_LEASE_MS = 600000"

definition isDecided :: "loop_output \<Rightarrow> bool" where
  "isDecided output \<longleftrightarrow> lo_state output \<in> {OShipped, OReturned}"

definition unresolvedOutput :: "loop_output \<Rightarrow> bool" where
  "unresolvedOutput output \<longleftrightarrow>
     lo_state output = OReady \<or> lo_state output = OShipping \<or> lo_state output = OUnconfirmed"

subsection \<open>The store\<close>

text \<open>\<open>os_events\<close> are the outputs passed to \<open>onEvent\<close>, which also hears of updates whose guard declined.\<close>

record output_store =
  os_outputs :: "loop_output js_map"
  os_events :: "loop_output list"

definition os_forLoop :: "string \<Rightarrow> output_store \<Rightarrow> loop_output list" where
  "os_forLoop loopId s = filter (\<lambda>output. lo_loopId output = loopId) (mm_all (os_outputs s))"

definition byAttempt :: "string \<Rightarrow> string \<Rightarrow> output_store \<Rightarrow> loop_output list" where
  "byAttempt itemId attemptId s =
     filter (\<lambda>output. lo_itemId output = itemId \<and> lo_attemptId output = attemptId) (mm_all (os_outputs s))"

definition os_notify :: "loop_output option \<Rightarrow> output_store \<Rightarrow> output_store" where
  "os_notify output s = (case output of None \<Rightarrow> s | Some out \<Rightarrow> s\<lparr>os_events := os_events s @ [out]\<rparr>)"

definition os_update :: "string \<Rightarrow> (loop_output \<Rightarrow> loop_output) \<Rightarrow> output_store \<Rightarrow> loop_output option \<times> output_store" where
  "os_update i change s =
     (let (output, outs) = mm_update i change (os_outputs s)
      in (output, os_notify output (s\<lparr>os_outputs := outs\<rparr>)))"

definition applyIf ::
  "string \<Rightarrow> (loop_output \<Rightarrow> bool) \<Rightarrow> (loop_output \<Rightarrow> loop_output) \<Rightarrow> output_store \<Rightarrow> loop_output option \<times> output_store" where
  "applyIf i guard change s =
     (let (after, s') = os_update i (\<lambda>out. if \<not> guard out then out else change out) s;
          applied = (case mm_get i (os_outputs s) of None \<Rightarrow> False | Some out \<Rightarrow> guard out)
      in (if applied then after else None, s'))"

definition rebindItem :: "string \<Rightarrow> string \<Rightarrow> string \<Rightarrow> output_store \<Rightarrow> output_store" where
  "rebindItem itemId from to s =
     fold (\<lambda>output acc. if lo_itemId output \<noteq> itemId then acc
             else snd (os_update (lo_id output)
                    (\<lambda>current. if lo_loopId current = from then current\<lparr>lo_loopId := to\<rparr> else current) acc))
       (mm_select (Some (\<lambda>output. Some (lo_itemId output), [itemId])) None None (\<lambda>output. output) (os_outputs s)) s"

definition prior_outputs :: "capture_input \<Rightarrow> output_store \<Rightarrow> loop_output list" where
  "prior_outputs input s =
     filter (\<lambda>output. lo_itemId output = ci_itemId input \<and> lo_attemptId output \<noteq> ci_attemptId input \<and>
         lo_shipAction output = ci_shipAction input \<and> lo_externalRef output = ci_externalRef input)
       (os_forLoop (ci_loopId input) s)"

definition capture_id :: "(string \<Rightarrow> string) \<Rightarrow> capture_input \<Rightarrow> string" where
  "capture_id sha input =
     loopOutputId sha (ci_loopId input) (ci_itemId input) (ci_attemptId input) (ci_shipAction input)
       (case ci_ordinal input of None \<Rightarrow> 0 | Some n \<Rightarrow> n) (ci_externalRef input)"

definition capture_candidate :: "string \<Rightarrow> capture_input \<Rightarrow> time \<Rightarrow> loop_output list \<Rightarrow> loop_output" where
  "capture_candidate i input now prior =
     \<lparr>lo_id = i, lo_loopId = ci_loopId input, lo_itemId = ci_itemId input, lo_attemptId = ci_attemptId input,
      lo_shipAction = ci_shipAction input, lo_label = ci_label input, lo_externalRef = ci_externalRef input,
      lo_title = ci_title input, lo_summary = ci_summary input, lo_state = OStaged,
      lo_capturedBy = ci_capturedBy input, lo_createdAt = now, lo_updatedAt = now, lo_decidedBy = None,
      lo_decidedAt = None, lo_decisionNote = None, lo_claimedAt = None, lo_claimToken = None,
      lo_shipFireKey = None, lo_shipResult = None,
      lo_supersedesOutputIds = (if prior \<noteq> [] then Some (map lo_id prior) else None),
      lo_supersededByOutputIds = None\<rparr>"

definition capture :: "(string \<Rightarrow> string) \<Rightarrow> capture_input \<Rightarrow> time \<Rightarrow> time \<Rightarrow> output_store \<Rightarrow> loop_output \<times> output_store" where
  "capture sha input now now' s =
     (let i = capture_id sha input;
          prior = prior_outputs input s;
          (captured, outs) = mm_putIfAbsent i (capture_candidate i input now prior) (os_outputs s);
          s1 = fold (\<lambda>output acc. snd (os_update (lo_id output)
                 (\<lambda>current. current\<lparr>lo_supersededByOutputIds :=
                     Some (uniq ((case lo_supersededByOutputIds current of None \<Rightarrow> [] | Some ids \<Rightarrow> ids) @ [lo_id captured])),
                   lo_updatedAt := now'\<rparr>) acc)) prior (s\<lparr>os_outputs := outs\<rparr>)
      in (captured, os_notify (Some captured) s1))"

definition awaitingReview :: "string \<Rightarrow> output_store \<Rightarrow> loop_output list" where
  "awaitingReview loopId s =
     sort_key lo_createdAt (filter (\<lambda>output. lo_state output = OReady) (os_forLoop loopId s))"

definition byItem :: "string \<Rightarrow> output_store \<Rightarrow> loop_output list" where
  "byItem itemId s = filter (\<lambda>output. lo_itemId output = itemId) (mm_all (os_outputs s))"

definition classify :: "string \<Rightarrow> classify_input \<Rightarrow> time \<Rightarrow> output_store \<Rightarrow> loop_output option \<times> output_store" where
  "classify i input now =
     os_update i (\<lambda>output. output\<lparr>
       lo_title := (case cl_title input of None \<Rightarrow> lo_title output | Some t \<Rightarrow> t),
       lo_summary := (case cl_summary input of None \<Rightarrow> lo_summary output | Some t \<Rightarrow> Some t),
       lo_label := (case cl_label input of None \<Rightarrow> lo_label output | Some t \<Rightarrow> Some t),
       lo_externalRef := (case cl_externalRef input of None \<Rightarrow> lo_externalRef output | Some t \<Rightarrow> Some t),
       lo_updatedAt := now\<rparr>)"

text \<open>The three bulk transitions: each output that was listed is moved if it still qualifies.\<close>

fun apply_each ::
  "(loop_output \<Rightarrow> bool) \<Rightarrow> output_state \<Rightarrow> time \<Rightarrow> loop_output list \<Rightarrow> output_store \<Rightarrow> loop_output list \<times> output_store" where
  "apply_each guard st now [] s = ([], s)"
| "apply_each guard st now (output # rest) s =
     (let (after, s1) = applyIf (lo_id output) guard (\<lambda>current. current\<lparr>lo_state := st, lo_updatedAt := now\<rparr>) s;
          (others, s2) = apply_each guard st now rest s1
      in (case after of None \<Rightarrow> others | Some a \<Rightarrow> a # others, s2))"

definition promoteAttempt :: "string \<Rightarrow> string \<Rightarrow> time \<Rightarrow> output_store \<Rightarrow> loop_output list \<times> output_store" where
  "promoteAttempt itemId attemptId now s =
     apply_each (\<lambda>current. lo_state current = OStaged) OReady now (byAttempt itemId attemptId s) s"

definition supersedeAttempt :: "string \<Rightarrow> string \<Rightarrow> time \<Rightarrow> output_store \<Rightarrow> loop_output list \<times> output_store" where
  "supersedeAttempt itemId attemptId now s =
     apply_each (\<lambda>current. lo_state current = OStaged \<or> lo_state current = OReady) OSuperseded now
       (byAttempt itemId attemptId s) s"

definition supersedeActiveSiblings :: "string \<Rightarrow> string \<Rightarrow> time \<Rightarrow> output_store \<Rightarrow> loop_output list \<times> output_store" where
  "supersedeActiveSiblings itemId exceptOutputId now s =
     apply_each (\<lambda>current. lo_state current = OStaged \<or> unresolvedOutput current) OSuperseded now
       (filter (\<lambda>c. lo_itemId c = itemId \<and> lo_id c \<noteq> exceptOutputId \<and> (lo_state c = OStaged \<or> unresolvedOutput c))
         (mm_all (os_outputs s))) s"

definition expireOlderThan :: "string \<Rightarrow> time \<Rightarrow> time \<Rightarrow> output_store \<Rightarrow> loop_output list \<times> output_store" where
  "expireOlderThan loopId cutoff now s =
     apply_each (\<lambda>current. lo_state current = OReady) OExpired now
       (filter (\<lambda>output. lo_state output = OReady \<and> lo_createdAt output < cutoff) (os_forLoop loopId s)) s"

subsection \<open>Shipping\<close>

definition ship_claimable :: "time \<Rightarrow> loop_output \<Rightarrow> bool" where
  "ship_claimable claimedAt output \<longleftrightarrow>
     lo_state output = OReady \<or>
     lo_state output = OShipping \<and> (case lo_claimedAt output of None \<Rightarrow> 0 | Some t \<Rightarrow> t) + SHIP_LEASE_MS \<le> claimedAt"

definition holds_claim :: "string \<Rightarrow> loop_output \<Rightarrow> bool" where
  "holds_claim claimToken output \<longleftrightarrow> lo_state output = OShipping \<and> lo_claimToken output = Some claimToken"

definition claimShipping :: "string \<Rightarrow> string \<Rightarrow> time \<Rightarrow> output_store \<Rightarrow> loop_output option \<times> output_store" where
  "claimShipping uuid i claimedAt =
     applyIf i (ship_claimable claimedAt)
       (\<lambda>output. output\<lparr>lo_state := OShipping, lo_claimedAt := Some claimedAt, lo_claimToken := Some uuid,
          lo_updatedAt := claimedAt\<rparr>)"

definition beginShipAttempt :: "string \<Rightarrow> string \<Rightarrow> string \<Rightarrow> time \<Rightarrow> output_store \<Rightarrow> loop_output option \<times> output_store" where
  "beginShipAttempt i claimToken shipFireKey now =
     applyIf i (holds_claim claimToken) (\<lambda>output. output\<lparr>lo_shipFireKey := Some shipFireKey, lo_updatedAt := now\<rparr>)"

definition markUnconfirmed :: "string \<Rightarrow> string \<Rightarrow> time \<Rightarrow> output_store \<Rightarrow> loop_output option \<times> output_store" where
  "markUnconfirmed i claimToken now =
     applyIf i (holds_claim claimToken)
       (\<lambda>output. output\<lparr>lo_state := OUnconfirmed, lo_claimedAt := None, lo_claimToken := None, lo_updatedAt := now\<rparr>)"

definition decide :: "output_state \<Rightarrow> decide_input \<Rightarrow> time \<Rightarrow> loop_output \<Rightarrow> loop_output" where
  "decide st input now output =
     output\<lparr>lo_state := st, lo_decidedBy := Some (de_actorId input), lo_decidedAt := Some now, lo_updatedAt := now,
       lo_decisionNote := (case de_note input of None \<Rightarrow> lo_decisionNote output | Some n \<Rightarrow> Some n)\<rparr>"

definition confirmShipped :: "string \<Rightarrow> decide_input \<Rightarrow> time \<Rightarrow> output_store \<Rightarrow> loop_output option \<times> output_store" where
  "confirmShipped i input now = applyIf i (\<lambda>output. lo_state output = OUnconfirmed) (decide OShipped input now)"

definition completeShipping ::
  "string \<Rightarrow> string \<Rightarrow> decide_input \<Rightarrow> ship_result \<Rightarrow> time \<Rightarrow> output_store \<Rightarrow> loop_output option \<times> output_store" where
  "completeShipping i claimToken input result now =
     applyIf i (holds_claim claimToken)
       (\<lambda>output. (decide OShipped input now output)\<lparr>lo_shipResult := Some result, lo_claimedAt := None,
          lo_claimToken := None\<rparr>)"

definition failShipping :: "string \<Rightarrow> string \<Rightarrow> time \<Rightarrow> output_store \<Rightarrow> loop_output option \<times> output_store" where
  "failShipping i claimToken now =
     applyIf i (holds_claim claimToken)
       (\<lambda>output. output\<lparr>lo_state := OReady, lo_claimedAt := None, lo_claimToken := None, lo_updatedAt := now\<rparr>)"

definition returnToLoop :: "string \<Rightarrow> decide_input \<Rightarrow> time \<Rightarrow> output_store \<Rightarrow> loop_output option \<times> output_store" where
  "returnToLoop i input now =
     applyIf i (\<lambda>output. lo_state output = OReady \<or> lo_state output = OUnconfirmed) (decide OReturned input now)"

definition os_deleteByLoop :: "string \<Rightarrow> output_store \<Rightarrow> output_store" where
  "os_deleteByLoop loopId s =
     s\<lparr>os_outputs := fold (\<lambda>output. mm_delete (lo_id output)) (os_forLoop loopId s) (os_outputs s)\<rparr>"

end
