(* ===== verification/Loop_Items.thy ===== *)
theory Loop_Items
  imports Durable_Map Json
begin

text \<open>
  The work items of a loop: \<^verbatim>\<open>src/src/loops/ledger-view.ts\<close> and \<^verbatim>\<open>src/src/loops/item-ledger.ts\<close>.
  The ledger keeps its items in a \<open>DurableMap\<close>; every operation on one item is one atomic
  \<open>update\<close> of that map, so an operation is its callback (the \<open>_change\<close> functions, \<open>None\<close> when
  the callback declines) under \<open>update_if\<close>. Operations that span several map calls are the
  sequence of those calls.
\<close>

subsection \<open>Data\<close>

type_synonym payload = "json js_map"

datatype item_status = IQueued | IInProgress | IReady | IShipped | IFailed | ISkipped

datatype draft_author = ByAgent | ByHuman

record loop_proposal =
  lp_data :: payload
  lp_summary :: "string option"
  lp_by :: draft_author
  lp_at :: time
  lp_sessionId :: "string option"

datatype thread_role = RoleHuman | RoleAgent | RoleSystem

record thread_message =
  tm_id :: string
  tm_role :: thread_role
  tm_text :: string
  tm_at :: time
  tm_actorId :: "string option"

record loop_item =
  li_previousLoopId :: "string option"
  li_inboxPreview :: "payload option"
  li_id :: string
  li_loopId :: string
  li_sourceKey :: string
  li_sourceSummary :: "string option"
  li_source :: "string option"
  li_sourcePayload :: "payload option"
  li_sourceAt :: "time option"
  li_proposal :: "loop_proposal option"
  li_agentDrafts :: "loop_proposal list option"
  li_agentMentionKeys :: "string list option"
  li_thread :: "thread_message list option"
  li_status :: item_status
  li_attempts :: nat
  li_runIds :: "string list"
  li_outputIds :: "string list"
  li_parkedReason :: "string option"
  li_guidance :: "string option"
  li_actedAt :: "time option"
  li_actionKind :: "string option"
  li_actionResult :: "string option"
  li_claimedAt :: "time option"
  li_claimToken :: "string option"
  li_decisionAt :: "time option"
  li_decisionToken :: "string option"
  li_createdAt :: time
  li_updatedAt :: time

text \<open>The value of an optional number with \<open>?? d\<close>.\<close>

abbreviation or_else :: "'a option \<Rightarrow> 'a \<Rightarrow> 'a" where
  "or_else x d \<equiv> (case x of None \<Rightarrow> d | Some v \<Rightarrow> v)"

subsection \<open>Ledger view\<close>

datatype ledger_state = LPending | LProcessed | LHeld | LActioned | LDismissed | LFailed

definition ledgerState :: "loop_item \<Rightarrow> ledger_state" where
  "ledgerState item =
     (case li_status item of IQueued \<Rightarrow> LPending | IInProgress \<Rightarrow> LProcessed | IReady \<Rightarrow> LHeld
      | IShipped \<Rightarrow> LActioned | ISkipped \<Rightarrow> LDismissed | IFailed \<Rightarrow> LFailed)"

definition ledger_states :: "(string \<times> ledger_state) list" where
  "ledger_states = [(''pending'', LPending), (''processed'', LProcessed), (''held'', LHeld),
     (''actioned'', LActioned), (''dismissed'', LDismissed), (''failed'', LFailed)]"

definition isLedgerState :: "string \<Rightarrow> ledger_state option" where
  "isLedgerState value = map_of ledger_states value"

definition isResolved :: "loop_item \<Rightarrow> bool" where
  "isResolved item = (let state = ledgerState item in state = LActioned \<or> state = LDismissed)"

record ledger_item_view =
  lv_id :: string
  lv_loopId :: string
  lv_dedupeKey :: string
  lv_state :: ledger_state
  lv_source :: "string option"
  lv_summary :: "string option"
  lv_sourcePayload :: payload
  lv_sourceAt :: "time option"
  lv_proposal :: "loop_proposal option"
  lv_thread :: "thread_message list"
  lv_attempts :: nat
  lv_parkedReason :: "string option"
  lv_guidance :: "string option"
  lv_actedAt :: "time option"
  lv_actionKind :: "string option"
  lv_actionResult :: "string option"
  lv_outputIds :: "string list"
  lv_createdAt :: time
  lv_updatedAt :: time

definition ledgerItemView :: "loop_item \<Rightarrow> ledger_item_view" where
  "ledgerItemView item =
     \<lparr>lv_id = li_id item, lv_loopId = li_loopId item, lv_dedupeKey = li_sourceKey item,
      lv_state = ledgerState item, lv_source = li_source item, lv_summary = li_sourceSummary item,
      lv_sourcePayload = or_else (li_sourcePayload item) [], lv_sourceAt = li_sourceAt item,
      lv_proposal = li_proposal item, lv_thread = or_else (li_thread item) [],
      lv_attempts = li_attempts item, lv_parkedReason = li_parkedReason item,
      lv_guidance = li_guidance item, lv_actedAt = li_actedAt item,
      lv_actionKind = li_actionKind item, lv_actionResult = li_actionResult item,
      lv_outputIds = li_outputIds item, lv_createdAt = li_createdAt item,
      lv_updatedAt = li_updatedAt item\<rparr>"

definition ledger_sort_key :: "loop_item \<Rightarrow> int list" where
  "ledger_sort_key item =
     [if isResolved item then 1 else 0, - or_else (li_sourceAt item) (li_createdAt item)]"

definition sortLedgerItems :: "loop_item list \<Rightarrow> loop_item list" where
  "sortLedgerItems items = sort_key ledger_sort_key items"

subsection \<open>Mention keys of a draft\<close>

text \<open>
  \<open>wireMentionKeys\<close> of \<^verbatim>\<open>src/src/slack/mrkdwn.ts\<close>: the mentions
  \<^verbatim>\<open><@U123>\<close>, \<^verbatim>\<open><!here>\<close>, \<^verbatim>\<open><!channel>\<close>, \<^verbatim>\<open><!everyone>\<close> and
  \<^verbatim>\<open><!subteam^S1>\<close>, each with an optional label, case-insensitively. \<open>wire_match\<close> matches the
  pattern behind a \<open><\<close> and returns the captured kind and what follows the match.
\<close>

definition is_word :: "char \<Rightarrow> bool" where
  "is_word c = (let n = of_char c :: nat in
     (48 \<le> n \<and> n \<le> 57) \<or> (65 \<le> n \<and> n \<le> 90) \<or> (97 \<le> n \<and> n \<le> 122) \<or> n = 95)"

definition wire_close :: "string \<Rightarrow> string option" where
  "wire_close s =
     (case s of
        [] \<Rightarrow> None
      | c # r \<Rightarrow>
          if c = CHR ''>'' then Some r
          else if c = CHR ''|'' then
            (case dropWhile (\<lambda>d. d \<noteq> CHR ''>'') r of [] \<Rightarrow> None | _ # t \<Rightarrow> Some t)
          else None)"

definition wire_words :: "string \<Rightarrow> string \<Rightarrow> (string \<times> string) option" where
  "wire_words prefix s =
     (let body = drop (length prefix) s; word = takeWhile is_word body in
      if toLowerCase (take (length prefix) s) = prefix \<and> word \<noteq> []
      then map_option (Pair (take (length prefix) s @ word)) (wire_close (dropWhile is_word body))
      else None)"

definition wire_fixed :: "string \<Rightarrow> string \<Rightarrow> (string \<times> string) option" where
  "wire_fixed name s =
     (if toLowerCase (take (length name) s) = name
      then map_option (Pair (take (length name) s)) (wire_close (drop (length name) s)) else None)"

definition wire_match :: "string \<Rightarrow> (string \<times> string) option" where
  "wire_match s =
     (case List.find (\<lambda>r. r \<noteq> None)
        [wire_words ''@u'' s, wire_words ''@w'' s, wire_fixed ''!here'' s, wire_fixed ''!channel'' s,
         wire_fixed ''!everyone'' s, wire_words ''!subteam^'' s] of
        None \<Rightarrow> None | Some r \<Rightarrow> r)"

lemma wire_close_shorter: "wire_close s = Some r \<Longrightarrow> length r < length s"
  using length_dropWhile_le [of "\<lambda>d. d \<noteq> CHR ''>''" "tl s"]
  by (auto simp: wire_close_def split: list.splits if_splits)

lemma wire_words_shorter: "wire_words p s = Some (k, r) \<Longrightarrow> length r < length s"
  using length_dropWhile_le [of is_word "drop (length p) s"] wire_close_shorter [of "dropWhile is_word (drop (length p) s)" r]
  by (simp add: wire_words_def Let_def split: if_splits)

lemma wire_fixed_shorter: "wire_fixed p s = Some (k, r) \<Longrightarrow> length r < length s"
  using wire_close_shorter [of "drop (length p) s" r]
  by (simp add: wire_fixed_def split: if_splits)

lemma find_present_mem:
  "(case List.find (\<lambda>r. r \<noteq> None) xs of None \<Rightarrow> None | Some r \<Rightarrow> r) = Some y \<Longrightarrow> Some y \<in> set xs"
  by (induction xs) (auto split: if_splits)

lemma wire_match_shorter:
  assumes "wire_match s = Some (k, r)"
  shows "length r < length s"
proof -
  have "Some (k, r) \<in> set [wire_words ''@u'' s, wire_words ''@w'' s, wire_fixed ''!here'' s,
      wire_fixed ''!channel'' s, wire_fixed ''!everyone'' s, wire_words ''!subteam^'' s]"
    using assms unfolding wire_match_def by (rule find_present_mem)
  then show ?thesis
    by (simp only: set_simps insert_iff empty_iff simp_thms)
      (elim disjE; drule sym; erule wire_words_shorter wire_fixed_shorter)
qed

function wire_scan :: "string \<Rightarrow> string list" where
  "wire_scan [] = []"
| "wire_scan (c # s) =
     (if c = CHR ''<'' then
        (case wire_match s of None \<Rightarrow> wire_scan s | Some (kind, rest) \<Rightarrow> toLowerCase kind # wire_scan rest)
      else wire_scan s)"
  by pat_completeness auto

termination wire_scan
  by (relation "measure length") (auto dest: wire_match_shorter)

definition wireMentionKeys :: "string \<Rightarrow> string list" where
  "wireMentionKeys text = uniq (wire_scan text)"

subsection \<open>Constants, drafts and previews\<close>

definition CLAIM_LEASE_MS :: time where "CLAIM_LEASE_MS = 600000"

definition LEDGER_THREAD_MAX :: nat where "LEDGER_THREAD_MAX = 200"

definition DECISION_LEASE_MS :: time where "DECISION_LEASE_MS = 300000"

definition AGENT_DRAFT_HISTORY :: nat where "AGENT_DRAFT_HISTORY = 10"

definition loopItemId :: "(string \<Rightarrow> string) \<Rightarrow> string \<Rightarrow> string \<Rightarrow> string" where
  "loopItemId sha loopId sourceKey =
     hashId sha [contentPart (Some (JStr loopId)), contentPart (Some (JStr sourceKey))] 16"

text \<open>\<open>xs.slice(-n)\<close>.\<close>

definition last_n :: "nat \<Rightarrow> 'a list \<Rightarrow> 'a list" where
  "last_n n xs = drop (length xs - n) xs"

definition last_opt :: "'a list \<Rightarrow> 'a option" where
  "last_opt xs = (if xs = [] then None else Some (last xs))"

definition nextIngestStatus :: "loop_item \<Rightarrow> loop_proposal option \<Rightarrow> item_status" where
  "nextIngestStatus item proposal =
     (if li_status item = IInProgress then IInProgress
      else if proposal \<noteq> None then IReady
      else if isResolved item then IQueued else li_status item)"

definition sameDraft :: "loop_proposal option \<Rightarrow> loop_proposal \<Rightarrow> bool" where
  "sameDraft a b =
     (case a of None \<Rightarrow> False
      | Some p \<Rightarrow> canonicalJson (Some (JObj (lp_data p))) = canonicalJson (Some (JObj (lp_data b))))"

definition agentDraftsOf :: "loop_proposal option \<Rightarrow> loop_proposal list option \<Rightarrow> loop_proposal list" where
  "agentDraftsOf proposal drafts =
     (let kept = or_else drafts [] in
      case proposal of
        None \<Rightarrow> kept
      | Some p \<Rightarrow> if lp_by p \<noteq> ByAgent \<or> sameDraft (last_opt kept) p then kept else kept @ [p])"

definition agentDraftOf :: "loop_item \<Rightarrow> loop_proposal option" where
  "agentDraftOf item = last_opt (agentDraftsOf (li_proposal item) (li_agentDrafts item))"

text \<open>\<open>withAgentDraft\<close> returns the new \<open>agentDrafts\<close> and \<open>agentMentionKeys\<close>.\<close>

definition withAgentDraft ::
  "loop_proposal option \<Rightarrow> loop_proposal list option \<Rightarrow> string list option \<Rightarrow> loop_proposal option \<Rightarrow>
     loop_proposal list \<times> string list" where
  "withAgentDraft cur kept keys proposal =
     (let drafts = agentDraftsOf cur kept;
          next_ds = (case proposal of
             Some p \<Rightarrow> if lp_by p = ByAgent \<and> \<not> sameDraft (last_opt drafts) p then drafts @ [p] else drafts
           | None \<Rightarrow> drafts);
          mentioned = concat (map (\<lambda>d. wireMentionKeys (canonicalJson (Some (JObj (lp_data d))))) next_ds)
      in (last_n AGENT_DRAFT_HISTORY next_ds, uniq (or_else keys [] @ mentioned)))"

definition preview_keys :: "string list" where
  "preview_keys = [''title'', ''from'', ''fromDetail'', ''snippet'', ''receivedAt'', ''probablyResolved'', ''sentChat'']"

definition inboxPreview :: "payload option \<Rightarrow> payload" where
  "inboxPreview payload =
     (case payload of None \<Rightarrow> []
      | Some p \<Rightarrow> List.map_filter (\<lambda>k. map_option (Pair k) (map_of p k)) preview_keys)"

subsection \<open>Inputs\<close>

record proposal_input =
  pi_data :: payload
  pi_summary :: "string option"
  pi_by :: draft_author
  pi_sessionId :: "string option"

definition stamp :: "proposal_input \<Rightarrow> time \<Rightarrow> loop_proposal" where
  "stamp p now = \<lparr>lp_data = pi_data p, lp_summary = pi_summary p, lp_by = pi_by p, lp_at = now,
     lp_sessionId = pi_sessionId p\<rparr>"

record ingest_entry =
  ie_loopId :: string
  ie_dedupeKey :: string
  ie_source :: "string option"
  ie_summary :: "string option"
  ie_sourcePayload :: payload
  ie_sourceAt :: "time option"
  ie_proposal :: "proposal_input option"

record ingest_outcome =
  io_created :: nat
  io_updated :: nat
  io_skipped :: nat

datatype action_outcome = Actioned | Dismissed

record record_action_input =
  ra_kind :: string
  ra_result :: "string option"
  ra_actorId :: "string option"
  ra_outcome :: action_outcome

record loop_queue_stats =
  qs_queued :: nat
  qs_inProgress :: nat
  qs_ready :: nat
  qs_failed :: nat
  qs_oldestQueuedAgeMs :: "time option"

subsection \<open>Merging an ingested entry\<close>

text \<open>\<open>Inl\<close> is the thrown error, \<open>Inr None\<close> the declined merge. \<open>uuid\<close> is the identifier of the message that
  keeps a replaced human draft.\<close>

definition newer_source :: "loop_item \<Rightarrow> ingest_entry \<Rightarrow> bool" where
  "newer_source item entry =
     (case ie_sourceAt entry of None \<Rightarrow> False | Some t \<Rightarrow> t > or_else (li_sourceAt item) 0)"

definition decision_active :: "loop_item \<Rightarrow> time \<Rightarrow> bool" where
  "decision_active item now \<longleftrightarrow>
     truthy (li_decisionToken item) \<and> or_else (li_decisionAt item) 0 + DECISION_LEASE_MS > now"

definition by_human :: "loop_item \<Rightarrow> bool" where
  "by_human item = (case li_proposal item of None \<Rightarrow> False | Some p \<Rightarrow> lp_by p = ByHuman)"

definition by_agent :: "loop_item \<Rightarrow> bool" where
  "by_agent item = (case li_proposal item of None \<Rightarrow> False | Some p \<Rightarrow> lp_by p = ByAgent)"

definition merged_proposal :: "loop_item \<Rightarrow> ingest_entry \<Rightarrow> time \<Rightarrow> loop_proposal option" where
  "merged_proposal item entry now =
     (let incoming = (case ie_proposal entry of Some p \<Rightarrow> Some (stamp p now) | None \<Rightarrow> li_proposal item)
      in if by_human item \<and> \<not> newer_source item entry \<or>
            (case incoming of None \<Rightarrow> False | Some p \<Rightarrow> by_agent item \<and> sameDraft (li_proposal item) p)
         then li_proposal item else incoming)"

definition kept_draft_text :: "loop_proposal \<Rightarrow> string" where
  "kept_draft_text p =
     ''Previous draft before a newer message arrived:'' @ [CHR 0x0A] @ stringify (JObj (lp_data p))"

definition mergeIngest ::
  "string \<Rightarrow> loop_item \<Rightarrow> ingest_entry \<Rightarrow> time \<Rightarrow> string + loop_item option" where
  "mergeIngest uuid item entry now =
     (let newerSource = newer_source item entry in
      if isResolved item \<and> \<not> newerSource then Inr None
      else if \<not> isResolved item \<and> \<not> newerSource \<and> ie_proposal entry = None then Inr None
      else
        let proposal = merged_proposal item entry now;
            refresh = newerSource \<and> ie_proposal entry = None
        in
        if refresh \<and> decision_active item now
        then Inl ''Item has an active decision; retry the source update''
        else
          let (drafts, keys) = withAgentDraft (li_proposal item) (li_agentDrafts item) (li_agentMentionKeys item) proposal;
              merged = item\<lparr>
                li_status := (if refresh then IQueued else nextIngestStatus item proposal),
                li_agentDrafts := Some drafts,
                li_agentMentionKeys := Some keys,
                li_sourcePayload := Some (ie_sourcePayload entry),
                li_inboxPreview := Some (inboxPreview (Some (ie_sourcePayload entry))),
                li_sourceAt := (case ie_sourceAt entry of Some t \<Rightarrow> Some t | None \<Rightarrow> li_sourceAt item),
                li_actedAt := None, li_actionKind := None, li_actionResult := None, li_parkedReason := None,
                li_updatedAt := now,
                li_source := (case ie_source entry of Some s \<Rightarrow> Some s | None \<Rightarrow> li_source item),
                li_sourceSummary := (case ie_summary entry of Some s \<Rightarrow> Some s | None \<Rightarrow> li_sourceSummary item),
                li_proposal := proposal\<rparr>
          in Inr (Some (if refresh then merged\<lparr>
                li_proposal := None, li_outputIds := [], li_claimToken := None, li_claimedAt := None,
                li_attempts := 0,
                li_thread := (case li_proposal item of
                    Some p \<Rightarrow> if lp_by p = ByHuman
                      then Some (or_else (li_thread item) [] @
                        [\<lparr>tm_id = uuid, tm_role = RoleHuman, tm_text = kept_draft_text p, tm_at = now, tm_actorId = None\<rparr>])
                      else li_thread item
                  | None \<Rightarrow> li_thread item)\<rparr>
              else merged)))"

subsection \<open>The ledger\<close>

datatype ledger_event_op = EvIngest | EvProposal | EvAnnotate | EvThread | EvAction | EvReopen | EvReady
  | EvShipped | EvReturned | EvParked | EvSkipped

record ledger_event =
  le_loopId :: string
  le_itemId :: string
  le_op :: ledger_event_op
  le_at :: time

record ledger =
  lg_items :: "loop_item js_map"
  lg_events :: "ledger_event list"

definition emit :: "loop_item option \<Rightarrow> ledger_event_op \<Rightarrow> time \<Rightarrow> ledger \<Rightarrow> ledger" where
  "emit item op now s =
     (case item of None \<Rightarrow> s
      | Some i \<Rightarrow> s\<lparr>lg_events := lg_events s @ [\<lparr>le_loopId = li_loopId i, le_itemId = li_id i, le_op = op, le_at = now\<rparr>]\<rparr>)"

definition update_if ::
  "string \<Rightarrow> (loop_item \<Rightarrow> loop_item option) \<Rightarrow> ledger \<Rightarrow> loop_item option \<times> ledger" where
  "update_if i change s =
     (let (after, items) = mm_update_if i change (lg_items s) in (after, s\<lparr>lg_items := items\<rparr>))"

definition update_emit ::
  "string \<Rightarrow> (loop_item \<Rightarrow> loop_item option) \<Rightarrow> ledger_event_op \<Rightarrow> time \<Rightarrow> ledger \<Rightarrow> loop_item option \<times> ledger" where
  "update_emit i change op now s =
     (let (after, s') = update_if i change s in (after, emit after op now s'))"

definition transition_change ::
  "item_status list \<Rightarrow> (loop_item \<Rightarrow> loop_item) \<Rightarrow> string option \<Rightarrow> loop_item \<Rightarrow> loop_item option" where
  "transition_change allowed change claimToken item =
     (if li_status item \<notin> set allowed then None
      else if li_status item = IInProgress \<and> li_claimToken item \<noteq> claimToken then None
      else Some (change item))"

definition transition ::
  "string \<Rightarrow> item_status list \<Rightarrow> (loop_item \<Rightarrow> loop_item) \<Rightarrow> string option \<Rightarrow> ledger_event_op option \<Rightarrow>
     time \<Rightarrow> ledger \<Rightarrow> loop_item option \<times> ledger" where
  "transition i allowed change claimToken op now s =
     (case op of
        None \<Rightarrow> update_if i (transition_change allowed change claimToken) s
      | Some ev \<Rightarrow> update_emit i (transition_change allowed change claimToken) ev now s)"

definition forLoop :: "string \<Rightarrow> ledger \<Rightarrow> loop_item list" where
  "forLoop loopId s = filter (\<lambda>item. li_loopId item = loopId) (mm_all (lg_items s))"

definition omit_body :: "loop_item \<Rightarrow> loop_item" where
  "omit_body item = item\<lparr>li_sourcePayload := None, li_proposal := None, li_agentDrafts := None, li_thread := None\<rparr>"

definition idFor :: "(string \<Rightarrow> string) \<Rightarrow> string \<Rightarrow> string \<Rightarrow> ledger \<Rightarrow> string" where
  "idFor sha loopId sourceKey s =
     (let i = loopItemId sha loopId sourceKey in
      if mm_get i (lg_items s) \<noteq> None then i
      else case List.find (\<lambda>item. li_loopId item = loopId \<and> li_sourceKey item = sourceKey)
             (mm_select (Some (\<lambda>item. Some (li_loopId item), [loopId])) None None omit_body (lg_items s)) of
             Some item \<Rightarrow> li_id item
           | None \<Rightarrow> i)"

definition new_item :: "string \<Rightarrow> string \<Rightarrow> string \<Rightarrow> time \<Rightarrow> loop_item" where
  "new_item i loopId sourceKey now =
     \<lparr>li_previousLoopId = None, li_inboxPreview = None, li_id = i, li_loopId = loopId, li_sourceKey = sourceKey,
      li_sourceSummary = None, li_source = None, li_sourcePayload = None, li_sourceAt = None, li_proposal = None,
      li_agentDrafts = None, li_agentMentionKeys = None, li_thread = None, li_status = IQueued, li_attempts = 0,
      li_runIds = [], li_outputIds = [], li_parkedReason = None, li_guidance = None, li_actedAt = None,
      li_actionKind = None, li_actionResult = None, li_claimedAt = None, li_claimToken = None,
      li_decisionAt = None, li_decisionToken = None, li_createdAt = now, li_updatedAt = now\<rparr>"

definition enqueue_item ::
  "(string \<Rightarrow> string) \<Rightarrow> string \<Rightarrow> string \<Rightarrow> string option \<Rightarrow> time \<Rightarrow> ledger \<Rightarrow> (loop_item \<times> bool) \<times> ledger" where
  "enqueue_item sha loopId sourceKey sourceSummary now s =
     (let i = idFor sha loopId sourceKey s;
          candidate = (new_item i loopId sourceKey now)\<lparr>li_sourceSummary := sourceSummary\<rparr>;
          (created, items) = mm_insertIfAbsent i candidate (lg_items s);
          s' = s\<lparr>lg_items := items\<rparr>
      in ((if created then candidate else or_else (mm_get i items) candidate, created), s'))"

definition ingest_candidate :: "string \<Rightarrow> ingest_entry \<Rightarrow> time \<Rightarrow> loop_item" where
  "ingest_candidate i entry now =
     (let proposal = map_option (\<lambda>p. stamp p now) (ie_proposal entry);
          (drafts, keys) = withAgentDraft None (Some []) None proposal
      in (new_item i (ie_loopId entry) (ie_dedupeKey entry) now)\<lparr>
           li_status := (if ie_proposal entry \<noteq> None then IReady else IQueued),
           li_sourcePayload := Some (ie_sourcePayload entry),
           li_inboxPreview := Some (inboxPreview (Some (ie_sourcePayload entry))),
           li_source := ie_source entry, li_sourceSummary := ie_summary entry,
           li_sourceAt := ie_sourceAt entry, li_proposal := proposal,
           li_agentDrafts := Some drafts, li_agentMentionKeys := Some keys\<rparr>)"

text \<open>One round of the \<open>ingest\<close> loop; \<open>now'\<close> is the clock reading of the update's callback.\<close>

datatype ingest_result = IngestCreated | IngestUpdated | IngestSkipped

definition ingest_one ::
  "(string \<Rightarrow> string) \<Rightarrow> string \<Rightarrow> time \<Rightarrow> time \<Rightarrow> ingest_entry \<Rightarrow> ledger \<Rightarrow> (string + ingest_result) \<times> ledger" where
  "ingest_one sha uuid now now' entry s =
     (let i = idFor sha (ie_loopId entry) (ie_dedupeKey entry) s;
          candidate = ingest_candidate i entry now;
          (inserted, items) = mm_insertIfAbsent i candidate (lg_items s);
          s1 = s\<lparr>lg_items := items\<rparr>
      in if inserted then (Inr IngestCreated, emit (Some candidate) EvIngest now s1)
         else case mm_get i items of
             None \<Rightarrow> (Inr IngestSkipped, s1)
           | Some item \<Rightarrow>
               (case mergeIngest uuid item entry now' of
                  Inl e \<Rightarrow> (Inl e, s1)
                | Inr None \<Rightarrow> (Inr IngestSkipped, s1)
                | Inr (Some merged) \<Rightarrow>
                    let s2 = s1\<lparr>lg_items := snd (mm_update i (\<lambda>_. merged) items)\<rparr>
                    in (Inr IngestUpdated, emit (mm_get i (lg_items s2)) EvIngest now' s2)))"

definition count_result :: "ingest_result \<Rightarrow> ingest_outcome \<Rightarrow> ingest_outcome" where
  "count_result r out =
     (case r of
        IngestCreated \<Rightarrow> out\<lparr>io_created := Suc (io_created out)\<rparr>
      | IngestUpdated \<Rightarrow> out\<lparr>io_updated := Suc (io_updated out)\<rparr>
      | IngestSkipped \<Rightarrow> out\<lparr>io_skipped := Suc (io_skipped out)\<rparr>)"

fun ingest_from ::
  "(string \<Rightarrow> string) \<Rightarrow> (ingest_entry \<times> string \<times> time \<times> time) list \<Rightarrow> ingest_outcome \<Rightarrow> ledger \<Rightarrow>
     (string + ingest_outcome) \<times> ledger" where
  "ingest_from sha [] out s = (Inr out, s)"
| "ingest_from sha ((entry, uuid, now, now') # rest) out s =
     (case ingest_one sha uuid now now' entry s of
        (Inl e, s') \<Rightarrow> (Inl e, s')
      | (Inr r, s') \<Rightarrow> ingest_from sha rest (count_result r out) s')"

definition ingest ::
  "(string \<Rightarrow> string) \<Rightarrow> (ingest_entry \<times> string \<times> time \<times> time) list \<Rightarrow> ledger \<Rightarrow>
     (string + ingest_outcome) \<times> ledger" where
  "ingest sha entries s = ingest_from sha entries \<lparr>io_created = 0, io_updated = 0, io_skipped = 0\<rparr> s"

text \<open>One round of the \<open>moveSource\<close> loop is the callback; the candidates are read before the loop.\<close>

definition move_change :: "string \<Rightarrow> string \<Rightarrow> string \<Rightarrow> time \<Rightarrow> loop_item \<Rightarrow> loop_item option" where
  "move_change from to source now current =
     (if li_loopId current \<noteq> from \<or> li_status current = IInProgress \<or> decision_active current now then None
      else Some (current\<lparr>li_source := Some source, li_loopId := to, li_previousLoopId := Some from,
        li_inboxPreview := Some (inboxPreview (li_sourcePayload current))\<rparr>))"

definition item_source :: "loop_item \<Rightarrow> json option" where
  "item_source item =
     (case li_source item of
        Some src \<Rightarrow> Some (JStr src)
      | None \<Rightarrow> (case li_sourcePayload item of None \<Rightarrow> None | Some p \<Rightarrow> map_of p ''source''))"

definition moveable :: "string \<Rightarrow> loop_item list \<Rightarrow> loop_item \<Rightarrow> bool" where
  "moveable source targets item \<longleftrightarrow>
     item_source item = Some (JStr source) \<and>
     \<not> list_ex (\<lambda>t. li_sourceKey t = li_sourceKey item \<and> li_id t \<noteq> li_id item) targets"

definition moveSource :: "string \<Rightarrow> string \<Rightarrow> string \<Rightarrow> time \<Rightarrow> ledger \<Rightarrow> ledger" where
  "moveSource from to source now s =
     (let targets = forLoop to s in
      fold (\<lambda>item acc. if moveable source targets item
              then snd (update_if (li_id item) (move_change from to source now) acc) else acc)
        (forLoop from s) s)"

definition setProposal_change ::
  "proposal_input \<Rightarrow> time option \<Rightarrow> string option \<Rightarrow> time \<Rightarrow> loop_item \<Rightarrow> loop_item option" where
  "setProposal_change proposal expectedAt expectedClaimToken now item =
     (if li_status item = IShipped then None
      else if expectedClaimToken \<noteq> None \<and> li_claimToken item \<noteq> expectedClaimToken then None
      else if expectedAt \<noteq> None \<and> map_option lp_at (li_proposal item) \<noteq> expectedAt then None
      else
        let stamped = stamp proposal now;
            (drafts, keys) = withAgentDraft (li_proposal item) (li_agentDrafts item) (li_agentMentionKeys item) (Some stamped)
        in Some (item\<lparr>li_proposal := Some stamped, li_agentDrafts := Some drafts, li_agentMentionKeys := Some keys,
             li_status := (if li_status item = IQueued then IReady else li_status item), li_updatedAt := now\<rparr>))"

definition setProposal ::
  "string \<Rightarrow> proposal_input \<Rightarrow> time option \<Rightarrow> string option \<Rightarrow> time \<Rightarrow> ledger \<Rightarrow> loop_item option \<times> ledger" where
  "setProposal i proposal expectedAt expectedClaimToken now =
     update_emit i (setProposal_change proposal expectedAt expectedClaimToken now) EvProposal now"

definition annotate_change :: "payload \<Rightarrow> string option \<Rightarrow> time \<Rightarrow> loop_item \<Rightarrow> loop_item option" where
  "annotate_change patch summary now item =
     Some (item\<lparr>li_sourcePayload := Some (fold (\<lambda>(k, v). AList.update k v) patch (or_else (li_sourcePayload item) [])),
       li_sourceSummary := (case summary of Some t \<Rightarrow> Some t | None \<Rightarrow> li_sourceSummary item), li_updatedAt := now\<rparr>)"

definition annotate :: "string \<Rightarrow> payload \<Rightarrow> string option \<Rightarrow> time \<Rightarrow> ledger \<Rightarrow> loop_item option \<times> ledger" where
  "annotate i patch summary now = update_emit i (annotate_change patch summary now) EvAnnotate now"

text \<open>The messages carry the identifiers drawn for them; their time is the callback's clock reading.\<close>

definition appendThread_change :: "thread_message list \<Rightarrow> time \<Rightarrow> loop_item \<Rightarrow> loop_item option" where
  "appendThread_change messages now item =
     (let thread = or_else (li_thread item) [] @ map (\<lambda>m. m\<lparr>tm_at := now\<rparr>) messages
      in Some (item\<lparr>li_thread := Some (if length thread > LEDGER_THREAD_MAX
             then drop (length thread - LEDGER_THREAD_MAX) thread else thread), li_updatedAt := now\<rparr>))"

definition appendThread :: "string \<Rightarrow> thread_message list \<Rightarrow> time \<Rightarrow> ledger \<Rightarrow> loop_item option \<times> ledger" where
  "appendThread i messages now s =
     (if messages = [] then (mm_get i (lg_items s), s)
      else update_emit i (appendThread_change messages now) EvThread now s)"

definition recordAction_change :: "record_action_input \<Rightarrow> time \<Rightarrow> loop_item \<Rightarrow> loop_item option" where
  "recordAction_change input now item =
     (if li_status item = IShipped then None
      else Some (item\<lparr>li_status := (if ra_outcome input = Actioned then IShipped else ISkipped),
        li_actionKind := Some (ra_kind input), li_actedAt := Some now, li_claimedAt := None, li_claimToken := None,
        li_parkedReason := None, li_updatedAt := now,
        li_actionResult := (case ra_result input of Some r \<Rightarrow> Some r | None \<Rightarrow> li_actionResult item)\<rparr>))"

definition recordAction :: "string \<Rightarrow> record_action_input \<Rightarrow> time \<Rightarrow> ledger \<Rightarrow> loop_item option \<times> ledger" where
  "recordAction i input now = update_emit i (recordAction_change input now) EvAction now"

definition sent_reply :: "bool option \<Rightarrow> loop_item \<Rightarrow> bool" where
  "sent_reply opt item \<longleftrightarrow>
     opt = Some True \<and> li_source item = Some ''gmail'' \<and>
     (case li_sourcePayload item of None \<Rightarrow> False | Some p \<Rightarrow> map_of p ''sentChat'' = Some (JBool True))"

definition reopen_change :: "bool option \<Rightarrow> time \<Rightarrow> loop_item \<Rightarrow> loop_item option" where
  "reopen_change opt now item =
     (let sentReply = sent_reply opt item in
      if li_status item \<noteq> ISkipped \<and> li_status item \<noteq> IFailed \<and> \<not> (sentReply \<and> li_status item = IShipped) then None
      else Some (item\<lparr>li_status := (if sentReply \<or> li_proposal item \<noteq> None then IReady else IQueued),
        li_proposal := (if sentReply
          then Some \<lparr>lp_data = [(''body'', JStr [])], lp_summary = None, lp_by = ByHuman,
                 lp_at = max now (or_else (map_option lp_at (li_proposal item)) 0 + 1), lp_sessionId = None\<rparr>
          else li_proposal item),
        li_actedAt := None, li_actionKind := None, li_actionResult := None, li_parkedReason := None,
        li_updatedAt := now\<rparr>))"

definition reopen :: "string \<Rightarrow> bool option \<Rightarrow> time \<Rightarrow> ledger \<Rightarrow> loop_item option \<times> ledger" where
  "reopen i sentReply now = update_emit i (reopen_change sentReply now) EvReopen now"

definition settled_at :: "loop_item \<Rightarrow> time" where
  "settled_at item = or_else (li_actedAt item) (li_updatedAt item)"

definition prune_doomed :: "string \<Rightarrow> nat \<Rightarrow> time \<Rightarrow> time \<Rightarrow> ledger \<Rightarrow> loop_item js_map" where
  "prune_doomed loopId maxItems retentionMs now s =
     (let items = forLoop loopId s;
          expired = filter (\<lambda>item. isResolved item \<and> now - settled_at item \<ge> retentionMs) items;
          doomed = fold (\<lambda>item. AList.update (li_id item) item) expired [];
          surviving = filter (\<lambda>item. map_of doomed (li_id item) = None) items
      in if length surviving > maxItems
         then fold (\<lambda>item. AList.update (li_id item) item)
                (take (length surviving - maxItems) (sort_key settled_at (filter isResolved surviving))) doomed
         else doomed)"

definition prune :: "string \<Rightarrow> nat \<Rightarrow> time \<Rightarrow> time \<Rightarrow> ledger \<Rightarrow> nat \<times> ledger" where
  "prune loopId maxItems retentionMs now s =
     (let doomed = prune_doomed loopId maxItems retentionMs now s
      in (length doomed, s\<lparr>lg_items := fold mm_delete (map fst doomed) (lg_items s)\<rparr>))"

definition claim_stale :: "time \<Rightarrow> loop_item \<Rightarrow> bool" where
  "claim_stale now item \<longleftrightarrow> li_status item = IInProgress \<and> or_else (li_claimedAt item) 0 + CLAIM_LEASE_MS \<le> now"

definition queued :: "string \<Rightarrow> nat option \<Rightarrow> time \<Rightarrow> ledger \<Rightarrow> loop_item list" where
  "queued loopId limit now s =
     (let q = sort_key li_createdAt
            (filter (\<lambda>item. li_status item = IQueued \<or> claim_stale now item) (forLoop loopId s))
      in case limit of None \<Rightarrow> q | Some n \<Rightarrow> take n q)"

definition claim_change :: "string \<Rightarrow> time \<Rightarrow> string option \<Rightarrow> loop_item \<Rightarrow> loop_item option" where
  "claim_change uuid now expectedLoopId item =
     (if expectedLoopId \<noteq> None \<and> expectedLoopId \<noteq> Some (li_loopId item) then None
      else if li_status item \<noteq> IQueued \<and> \<not> claim_stale now item then None
      else Some (item\<lparr>li_status := IInProgress, li_attempts := li_attempts item + 1, li_claimedAt := Some now,
        li_claimToken := Some uuid, li_parkedReason := None, li_updatedAt := now\<rparr>))"

definition claim_item :: "string \<Rightarrow> string \<Rightarrow> time \<Rightarrow> string option \<Rightarrow> ledger \<Rightarrow> loop_item option \<times> ledger" where
  "claim_item uuid i now expectedLoopId = update_if i (claim_change uuid now expectedLoopId)"

definition acquireDecision_change :: "string \<Rightarrow> time \<Rightarrow> loop_item \<Rightarrow> loop_item option" where
  "acquireDecision_change uuid decisionAt item =
     (if decision_active item decisionAt then None
      else Some (item\<lparr>li_decisionAt := Some decisionAt, li_decisionToken := Some uuid, li_updatedAt := decisionAt\<rparr>))"

definition acquireDecision :: "string \<Rightarrow> string \<Rightarrow> time \<Rightarrow> ledger \<Rightarrow> string option \<times> ledger" where
  "acquireDecision uuid i decisionAt s =
     (let (after, s') = update_if i (acquireDecision_change uuid decisionAt) s
      in (map_option (\<lambda>_. uuid) after, s'))"

definition releaseDecision_change :: "string \<Rightarrow> time \<Rightarrow> loop_item \<Rightarrow> loop_item option" where
  "releaseDecision_change token now item =
     (if li_decisionToken item \<noteq> Some token then None
      else Some (item\<lparr>li_decisionAt := None, li_decisionToken := None, li_updatedAt := now\<rparr>))"

definition releaseDecision :: "string \<Rightarrow> string \<Rightarrow> time \<Rightarrow> ledger \<Rightarrow> bool \<times> ledger" where
  "releaseDecision i token now s =
     (let (after, s') = update_if i (releaseDecision_change token now) s in (after \<noteq> None, s'))"

definition recordRun :: "string \<Rightarrow> string \<Rightarrow> string \<Rightarrow> time \<Rightarrow> ledger \<Rightarrow> loop_item option \<times> ledger" where
  "recordRun i runId claimToken now =
     transition i [IInProgress] (\<lambda>item. item\<lparr>li_runIds := uniq (li_runIds item @ [runId]), li_updatedAt := now\<rparr>)
       (Some claimToken) None now"

definition markReady :: "string \<Rightarrow> string list \<Rightarrow> string \<Rightarrow> time \<Rightarrow> ledger \<Rightarrow> loop_item option \<times> ledger" where
  "markReady i outputIds claimToken now =
     transition i [IInProgress]
       (\<lambda>item. item\<lparr>li_status := IReady, li_outputIds := uniq (li_outputIds item @ outputIds), li_claimedAt := None,
          li_claimToken := None, li_updatedAt := now\<rparr>)
       (Some claimToken) (Some EvReady) now"

definition markShipped :: "string \<Rightarrow> string option \<Rightarrow> time \<Rightarrow> ledger \<Rightarrow> loop_item option \<times> ledger" where
  "markShipped i claimToken now =
     transition i [IReady, IInProgress]
       (\<lambda>item. item\<lparr>li_status := IShipped, li_claimedAt := None, li_claimToken := None, li_updatedAt := now\<rparr>)
       claimToken (Some EvShipped) now"

definition returnToWork :: "string \<Rightarrow> string \<Rightarrow> string option \<Rightarrow> time \<Rightarrow> ledger \<Rightarrow> loop_item option \<times> ledger" where
  "returnToWork i guidance claimToken now =
     transition i [IReady, IInProgress]
       (\<lambda>item. item\<lparr>li_status := IQueued, li_guidance := Some guidance, li_claimedAt := None, li_claimToken := None,
          li_updatedAt := now\<rparr>)
       claimToken (Some EvReturned) now"

definition park :: "string \<Rightarrow> string \<Rightarrow> string option \<Rightarrow> time \<Rightarrow> ledger \<Rightarrow> loop_item option \<times> ledger" where
  "park i reason claimToken now =
     transition i [IQueued, IInProgress, IReady]
       (\<lambda>item. item\<lparr>li_status := (if li_status item = IReady then IReady else IFailed), li_parkedReason := Some reason,
          li_claimedAt := None, li_claimToken := None, li_updatedAt := now\<rparr>)
       claimToken (Some EvParked) now"

definition skip :: "string \<Rightarrow> string \<Rightarrow> time \<Rightarrow> ledger \<Rightarrow> loop_item option \<times> ledger" where
  "skip i reason now =
     transition i [IQueued, IInProgress]
       (\<lambda>item. item\<lparr>li_status := ISkipped, li_parkedReason := Some reason, li_claimedAt := None, li_updatedAt := now\<rparr>)
       None (Some EvSkipped) now"

definition has_status :: "item_status \<Rightarrow> loop_item \<Rightarrow> bool" where
  "has_status st item \<longleftrightarrow> li_status item = st"

definition stats :: "string \<Rightarrow> time \<Rightarrow> ledger \<Rightarrow> loop_queue_stats" where
  "stats loopId now s =
     (let items = forLoop loopId s;
          waiting = filter (has_status IQueued) items;
          oldest = fold (\<lambda>item acc. case acc of
               None \<Rightarrow> Some (li_createdAt item)
             | Some t \<Rightarrow> if li_createdAt item < t then Some (li_createdAt item) else Some t) waiting None
      in \<lparr>qs_queued = length waiting, qs_inProgress = length (filter (has_status IInProgress) items),
          qs_ready = length (filter (has_status IReady) items),
          qs_failed = length (filter (has_status IFailed) items),
          qs_oldestQueuedAgeMs = map_option (\<lambda>t. max 0 (now - t)) oldest\<rparr>)"

definition deleteByLoop :: "string \<Rightarrow> ledger \<Rightarrow> ledger" where
  "deleteByLoop loopId s =
     s\<lparr>lg_items := fold (\<lambda>item. mm_delete (li_id item)) (forLoop loopId s) (lg_items s)\<rparr>"

definition summaries :: "string list \<Rightarrow> ledger \<Rightarrow> loop_item list" where
  "summaries loopIds s =
     mm_select (Some (\<lambda>item. Some (li_loopId item), loopIds)) None None omit_body (lg_items s)"

subsection \<open>Coordinated intake\<close>

text \<open>
  With a coordination, intake runs under one advisory lock per loop: \<open>intake_locks\<close> are the lock names in
  the order they are acquired, \<open>guarded\<close> the check that every loop still accepts intake.
\<close>

definition intake_locks :: "string list \<Rightarrow> string list" where
  "intake_locks ids =
     fold (\<lambda>i held. (''loop-intake:'' @ i) # held) (rev (sort_key (\<lambda>i. i) (uniq ids))) []"

definition guarded :: "(string \<Rightarrow> bool) \<Rightarrow> bool \<Rightarrow> string list \<Rightarrow> (ledger \<Rightarrow> (string + 'r) \<times> ledger) \<Rightarrow> ledger \<Rightarrow> (string + 'r) \<times> ledger" where
  "guarded accepts check ids fn s =
     (if check \<and> list_ex (\<lambda>i. \<not> accepts i) ids then (Inl ''This Loop no longer accepts intake'', s) else fn s)"

definition guarded_enqueue where
  "guarded_enqueue accepts sha loopId sourceKey sourceSummary now =
     guarded accepts True [loopId]
       (\<lambda>s. let (r, s') = enqueue_item sha loopId sourceKey sourceSummary now s in (Inr r, s'))"

definition guarded_moveSource where
  "guarded_moveSource accepts from to source now =
     guarded accepts False [from, to] (\<lambda>s. (Inr (), moveSource from to source now s))"

fun guarded_ingest ::
  "(string \<Rightarrow> bool) \<Rightarrow> (string \<Rightarrow> string) \<Rightarrow> (ingest_entry \<times> string \<times> time \<times> time) list \<Rightarrow> ingest_outcome \<Rightarrow>
     ledger \<Rightarrow> (string + ingest_outcome) \<times> ledger" where
  "guarded_ingest accepts sha [] result s = (Inr result, s)"
| "guarded_ingest accepts sha (e # rest) result s =
     (case guarded accepts True [ie_loopId (fst e)] (ingest sha [e]) s of
        (Inl err, s') \<Rightarrow> (Inl err, s')
      | (Inr nxt, s') \<Rightarrow> guarded_ingest accepts sha rest
           \<lparr>io_created = io_created result + io_created nxt, io_updated = io_updated result + io_updated nxt,
            io_skipped = io_skipped result + io_skipped nxt\<rparr> s')"

end
