(* ===== verification/Loop_Store.thy ===== *)
theory Loop_Store
  imports Complex_Main Triggers Loop_Outputs Loop_Items
begin

text \<open>
  Loops and their governance: \<^verbatim>\<open>src/src/loops/loop-store.ts\<close>, \<^verbatim>\<open>src/src/loops/ship-gate.ts\<close>,
  \<^verbatim>\<open>src/src/loops/ship-grant-store.ts\<close> and \<^verbatim>\<open>src/src/loops/governor.ts\<close>. The validity of an icon and the content
  identifier hashed from a creation input are parameters of \<open>create_loop\<close>; a rate is an exact fraction.
  The texts of governor reasons and recommendations are constructors carrying their numbers.
\<close>

subsection \<open>Data\<close>

datatype loop_state = LoopEnabled | LoopPaused | LoopQuarantined | LoopArchived

datatype loop_health = Healthy | Degraded | Failing | Quarantined

datatype ship_gate = GateHold | GateAuto

record ship_action_policy =
  sap_action :: string
  sap_gate :: ship_gate

record loop_caps =
  lc_maxItemsPerFire :: "nat option"
  lc_maxOpenOutputs :: "nat option"
  lc_maxItemAttempts :: "nat option"

record loop_governor_config =
  gc_maxConsecutiveFailedFires :: "nat option"
  gc_maxQueueDepth :: "nat option"
  gc_maxQueueAgeMs :: "time option"
  gc_maxReturnRate :: "rat option"
  gc_returnRateMinDecisions :: "nat option"
  gc_staleFireMs :: "time option"

record playbook_revision =
  pr_version :: nat
  pr_at :: time
  pr_by :: string
  pr_note :: "string option"

datatype run_as = RunAsOwner | RunAsScopeFloor | RunAsScopeShared

record loop = trigger_base +
  l_name :: string
  l_icon :: "string option"
  l_purpose :: "string option"
  l_surface :: "string option"
  l_sources :: "string list option"
  l_playbook :: string
  l_playbookVersion :: nat
  l_playbookHistory :: "playbook_revision list"
  l_policyVersion :: "nat option"
  l_successCondition :: string
  l_successChecks :: "string list option"
  l_shipActions :: "ship_action_policy list"
  l_caps :: "loop_caps option"
  l_governor :: "loop_governor_config option"
  l_state :: loop_state
  l_health :: loop_health
  l_healthReason :: "string option"
  l_throttle :: "bool option"
  l_cronId :: "string option"
  l_runAs :: "run_as option"
  l_consecutiveFailedFires :: "nat option"
  l_quarantineClearedBy :: "string option"
  l_quarantineClearedAt :: "time option"

record ship_grant =
  sg_id :: string
  sg_loopId :: string
  sg_shipAction :: string
  sg_label :: "string option"
  sg_actorId :: string
  sg_policyVersion :: nat
  sg_createdAt :: time
  sg_revokedAt :: "time option"
  sg_revokedBy :: "string option"
  sg_revocationHistory :: "(time \<times> string) list option"

subsection \<open>Normalisation\<close>

definition isRunnable :: "loop \<Rightarrow> bool" where
  "isRunnable lp \<longleftrightarrow> l_state lp = LoopEnabled"

text \<open>\<open>replace(/\s+/g, " ")\<close>.\<close>

fun collapse_space :: "string \<Rightarrow> string" where
  "collapse_space [] = []"
| "collapse_space [c] = (if is_space c then '' '' else [c])"
| "collapse_space (c # d # s) =
     (if is_space c then if is_space d then collapse_space (d # s) else CHR '' '' # collapse_space (d # s)
      else c # collapse_space (d # s))"

definition normalizeName :: "string \<Rightarrow> string + string" where
  "normalizeName name =
     (let trimmed = collapse_space (trim name) in
      if trimmed = [] then Inl ''a loop needs a name''
      else Inr (if length trimmed > 80 then take 79 trimmed @ ''...'' else trimmed))"

definition normalizeIcon :: "(string \<Rightarrow> bool) \<Rightarrow> string option \<Rightarrow> string + string option" where
  "normalizeIcon validIcon value =
     (case value of
        None \<Rightarrow> Inr None
      | Some v \<Rightarrow> if \<not> validIcon v then Inl ''LOOP_ICON_ERROR'' else Inr (Some v))"

definition normalizeShipActions :: "ship_action_policy list option \<Rightarrow> ship_action_policy list" where
  "normalizeShipActions actions =
     map_values (fold (\<lambda>policy m.
         let action = trim (sap_action policy) in
         if action \<noteq> [] then AList.update action \<lparr>sap_action = action, sap_gate = sap_gate policy\<rparr> m else m)
       (case actions of None \<Rightarrow> [] | Some as \<Rightarrow> as) [])"

definition with_state :: "loop_state \<Rightarrow> loop \<Rightarrow> loop" where
  "with_state st lp = lp\<lparr>l_state := st, tb_enabled := (st = LoopEnabled)\<rparr>"

subsection \<open>The loop store\<close>

record create_loop_input = create_trigger_input +
  cli_name :: string
  cli_icon :: "string option option"
  cli_surface :: "string option"
  cli_sources :: "string list option"
  cli_playbook :: string
  cli_successCondition :: string
  cli_purpose :: "string option"
  cli_successChecks :: "string list option"
  cli_shipActions :: "ship_action_policy list option"
  cli_caps :: "loop_caps option"
  cli_governor :: "loop_governor_config option"
  cli_cronId :: "string option"
  cli_runAs :: "run_as option"

definition loop_candidate :: "create_loop_input \<Rightarrow> string \<Rightarrow> string \<Rightarrow> string option \<Rightarrow> time \<Rightarrow> loop" where
  "loop_candidate input contentId name icon now =
     with_state LoopEnabled
       (trigger_base.extend (buildTriggerBase (create_trigger_input.truncate input) contentId now)
         (loop.fields name icon (cli_purpose input) (cli_surface input) (cli_sources input) (cli_playbook input) 1
            [\<lparr>pr_version = 1, pr_at = now, pr_by = ct_createdBy input, pr_note = None\<rparr>] (Some 1)
            (cli_successCondition input) (cli_successChecks input) (normalizeShipActions (cli_shipActions input))
            (cli_caps input) (cli_governor input) LoopEnabled Healthy None None
            (if truthy (cli_cronId input) then cli_cronId input else None) (cli_runAs input) None None None))"

definition create_loop ::
  "(string \<Rightarrow> string option) \<Rightarrow> (string \<Rightarrow> bool) \<Rightarrow> (create_loop_input \<Rightarrow> string \<Rightarrow> string) \<Rightarrow> create_loop_input \<Rightarrow> time \<Rightarrow>
     loop js_map \<Rightarrow> (string + loop \<times> bool) \<times> loop js_map" where
  "create_loop links validIcon contentIdOf input now backing =
     (if \<not> assertNoEscalation links (ct_owner input) (ct_createdBy input) (ct_ownerConsentedAt input)
      then (Inl ''assigning a different owner requires that owner's consent'', backing)
      else case normalizeName (cli_name input) of
        Inl e \<Rightarrow> (Inl e, backing)
      | Inr name \<Rightarrow>
          let contentId = contentIdOf input name in
          case (case cli_icon input of None \<Rightarrow> Inr None | Some ic \<Rightarrow> normalizeIcon validIcon ic) of
            Inl e \<Rightarrow> (Inl e, backing)
          | Inr icon \<Rightarrow>
              let candidate = loop_candidate input contentId name icon now;
                  (created, backing') = mm_insertIfAbsent contentId candidate backing
              in (Inr (if created then candidate
                       else (case mm_get contentId backing' of None \<Rightarrow> candidate | Some lp \<Rightarrow> lp), created), backing'))"

definition byCron :: "string \<Rightarrow> loop js_map \<Rightarrow> loop option" where
  "byCron cronId backing = List.find (\<lambda>lp. l_cronId lp = Some cronId) (mm_all backing)"

record playbook_edit =
  pe_playbook :: string
  pe_by :: string
  pe_note :: "string option"

record loop_patch =
  pt_name :: "string option"
  pt_icon :: "string option option"
  pt_purpose :: "string option"
  pt_successCondition :: "string option"
  pt_successChecks :: "string list option"
  pt_destination :: "destination option option"
  pt_recipientConsent :: "recipient_consent option option"
  pt_shipActions :: "ship_action_policy list option"
  pt_caps :: "loop_caps option"
  pt_governor :: "loop_governor_config option"
  pt_cronId :: "string option"
  pt_runAs :: "run_as option"
  pt_state :: "loop_state option"
  pt_playbookEdit :: "playbook_edit option"
  pt_restore :: "loop option"
  pt_quarantineClearedBy :: "string option"
  pt_quarantineClearedAt :: "time option"

definition empty_patch :: loop_patch where
  "empty_patch = \<lparr>pt_name = None, pt_icon = None, pt_purpose = None, pt_successCondition = None, pt_successChecks = None,
     pt_destination = None, pt_recipientConsent = None, pt_shipActions = None, pt_caps = None, pt_governor = None,
     pt_cronId = None, pt_runAs = None, pt_state = None, pt_playbookEdit = None, pt_restore = None,
     pt_quarantineClearedBy = None, pt_quarantineClearedAt = None\<rparr>"

definition gate_name :: "ship_gate \<Rightarrow> string" where
  "gate_name g = (case g of GateHold \<Rightarrow> ''hold'' | GateAuto \<Rightarrow> ''auto'')"

definition actions_json :: "ship_action_policy list \<Rightarrow> json" where
  "actions_json as = JArr (map (\<lambda>p. JObj [(''action'', JStr (sap_action p)), (''gate'', JStr (gate_name (sap_gate p)))]) as)"

text \<open>A patched property replaces the current one when it is present.\<close>

abbreviation patched :: "'a option \<Rightarrow> 'a \<Rightarrow> 'a" where
  "patched new old \<equiv> (case new of None \<Rightarrow> old | Some v \<Rightarrow> v)"

abbreviation patched_opt :: "'a option \<Rightarrow> 'a option \<Rightarrow> 'a option" where
  "patched_opt new old \<equiv> (case new of None \<Rightarrow> old | Some v \<Rightarrow> Some v)"

definition edits_playbook :: "loop_patch \<Rightarrow> loop \<Rightarrow> bool" where
  "edits_playbook patch lp = (case pt_playbookEdit patch of None \<Rightarrow> False | Some e \<Rightarrow> pe_playbook e \<noteq> l_playbook lp)"

definition policy_changed :: "loop_patch \<Rightarrow> loop \<Rightarrow> bool" where
  "policy_changed patch lp \<longleftrightarrow>
     (case pt_shipActions patch of
        None \<Rightarrow> False
      | Some as \<Rightarrow> canonicalJson (Some (actions_json (normalizeShipActions (Some as)))) \<noteq>
                  canonicalJson (Some (actions_json (l_shipActions lp)))) \<or>
     edits_playbook patch lp"

definition patch_fields :: "loop_patch \<Rightarrow> string option \<Rightarrow> string \<Rightarrow> time \<Rightarrow> loop \<Rightarrow> loop" where
  "patch_fields patch icon name now lp =
     (let base = lp\<lparr>
          l_icon := icon, l_name := name,
          l_purpose := patched_opt (pt_purpose patch) (l_purpose lp),
          l_successCondition := patched (pt_successCondition patch) (l_successCondition lp),
          l_successChecks := patched_opt (pt_successChecks patch) (l_successChecks lp),
          tb_destination := patched (pt_destination patch) (tb_destination lp),
          tb_recipientConsent := patched (pt_recipientConsent patch) (tb_recipientConsent lp),
          l_shipActions := (case pt_shipActions patch of None \<Rightarrow> l_shipActions lp | Some as \<Rightarrow> normalizeShipActions (Some as)),
          l_caps := patched_opt (pt_caps patch) (l_caps lp),
          l_governor := patched_opt (pt_governor patch) (l_governor lp),
          l_cronId := patched_opt (pt_cronId patch) (l_cronId lp),
          l_runAs := patched_opt (pt_runAs patch) (l_runAs lp),
          l_quarantineClearedBy := patched_opt (pt_quarantineClearedBy patch) (l_quarantineClearedBy lp),
          l_quarantineClearedAt := patched_opt (pt_quarantineClearedAt patch) (l_quarantineClearedAt lp)\<rparr>;
        stated = (case pt_state patch of None \<Rightarrow> base | Some st \<Rightarrow> with_state st base);
        edited = (case pt_playbookEdit patch of
            None \<Rightarrow> stated
          | Some e \<Rightarrow>
              if pe_playbook e = l_playbook lp then stated
              else stated\<lparr>l_playbook := pe_playbook e, l_playbookVersion := l_playbookVersion lp + 1,
                 l_playbookHistory := l_playbookHistory lp @
                   [\<lparr>pr_version = l_playbookVersion lp + 1, pr_at = now, pr_by = pe_by e, pr_note = pe_note e\<rparr>]\<rparr>)
      in if policy_changed patch lp
         then edited\<lparr>l_policyVersion := Some ((case l_policyVersion lp of None \<Rightarrow> 1 | Some v \<Rightarrow> v) + 1)\<rparr> else edited)"

definition apply_loop_patch :: "(string \<Rightarrow> bool) \<Rightarrow> loop_patch \<Rightarrow> time \<Rightarrow> loop \<Rightarrow> string + loop" where
  "apply_loop_patch validIcon patch now lp =
     (case pt_restore patch of
        Some r \<Rightarrow> Inr r
      | None \<Rightarrow>
          (case (case pt_icon patch of None \<Rightarrow> Inr (l_icon lp) | Some ic \<Rightarrow> normalizeIcon validIcon ic) of
             Inl e \<Rightarrow> Inl e
           | Inr icon \<Rightarrow>
               (case (case pt_name patch of None \<Rightarrow> Inr (l_name lp) | Some n \<Rightarrow> normalizeName n) of
                  Inl e \<Rightarrow> Inl e
                | Inr name \<Rightarrow> Inr (patch_fields patch icon name now lp))))"

definition update_loop ::
  "(string \<Rightarrow> bool) \<Rightarrow> string \<Rightarrow> loop_patch \<Rightarrow> time \<Rightarrow> loop js_map \<Rightarrow> (string + loop option) \<times> loop js_map" where
  "update_loop validIcon i patch now backing =
     (case mm_get i backing of
        None \<Rightarrow> (Inr None, backing)
      | Some lp \<Rightarrow>
          (case apply_loop_patch validIcon patch now lp of
             Inl e \<Rightarrow> (Inl e, backing)
           | Inr lp' \<Rightarrow> (Inr (Some lp'), snd (mm_update i (\<lambda>_. lp') backing))))"

definition editPlaybook where
  "editPlaybook validIcon i edit = update_loop validIcon i (empty_patch\<lparr>pt_playbookEdit := Some edit\<rparr>)"

definition setState :: "string \<Rightarrow> loop_state \<Rightarrow> loop js_map \<Rightarrow> loop option \<times> loop js_map" where
  "setState i st = mm_update i (with_state st)"

definition setHealth ::
  "string \<Rightarrow> loop_health \<Rightarrow> string option \<Rightarrow> bool \<Rightarrow> loop js_map \<Rightarrow> loop option \<times> loop js_map" where
  "setHealth i health reason throttle =
     mm_update i (\<lambda>lp. lp\<lparr>l_health := health, l_healthReason := reason, l_throttle := (if throttle then Some True else None)\<rparr>)"

definition recordFireOutcome :: "string \<Rightarrow> bool \<Rightarrow> time \<Rightarrow> loop js_map \<Rightarrow> loop option \<times> loop js_map" where
  "recordFireOutcome i failed now =
     mm_update i (\<lambda>lp. lp\<lparr>l_consecutiveFailedFires :=
         Some (if failed then (case l_consecutiveFailedFires lp of None \<Rightarrow> 0 | Some n \<Rightarrow> n) + 1 else 0),
       tb_lastFiredAt := Some now\<rparr>)"

subsection \<open>The ship gate\<close>

datatype ship_decision = AutoByPolicy | AutoByGrant string | HoldShip | Undeclared

record ship_candidate =
  sc_shipAction :: string
  sc_label :: "string option"

definition policy_version :: "loop \<Rightarrow> nat" where
  "policy_version lp = (case l_policyVersion lp of None \<Rightarrow> 1 | Some v \<Rightarrow> v)"

definition declaredGate :: "loop \<Rightarrow> string \<Rightarrow> ship_gate option" where
  "declaredGate lp shipAction =
     map_option sap_gate (List.find (\<lambda>policy. sap_action policy = shipAction) (l_shipActions lp))"

definition grantCovers :: "ship_grant \<Rightarrow> loop \<Rightarrow> ship_candidate \<Rightarrow> bool" where
  "grantCovers grant lp candidate =
     (if sg_loopId grant \<noteq> tb_id lp \<or> sg_policyVersion grant \<noteq> policy_version lp \<or> sg_revokedAt grant \<noteq> None \<or>
         sg_shipAction grant \<noteq> sc_shipAction candidate
      then False
      else sg_label grant = None \<or> sg_label grant = sc_label candidate)"

definition decideShip :: "loop \<Rightarrow> ship_candidate \<Rightarrow> ship_grant list \<Rightarrow> ship_decision" where
  "decideShip lp candidate grants =
     (case declaredGate lp (sc_shipAction candidate) of
        None \<Rightarrow> Undeclared
      | Some GateAuto \<Rightarrow> AutoByPolicy
      | Some GateHold \<Rightarrow>
          (case List.find (\<lambda>g. grantCovers g lp candidate) grants of
             Some grant \<Rightarrow> AutoByGrant (sg_id grant)
           | None \<Rightarrow> HoldShip))"

definition graduationAllowed :: "approval_grant_modes option \<Rightarrow> bool" where
  "graduationAllowed modes = (case modes of None \<Rightarrow> True | Some m \<Rightarrow> agm_always m)"

definition buildShipGrant ::
  "(string \<Rightarrow> string) \<Rightarrow> string \<Rightarrow> string \<Rightarrow> string \<Rightarrow> nat \<Rightarrow> string option \<Rightarrow> approval_grant_modes option \<Rightarrow> time \<Rightarrow>
     string + ship_grant" where
  "buildShipGrant sha loopId shipAction actorId policyVersion label modes now =
     (if \<not> graduationAllowed modes then Inl ''standing ship grants are disabled for this org''
      else Inr \<lparr>sg_id = hashId sha [contentPart (Some (JStr loopId)), contentPart (Some (JNum (int policyVersion))),
                  contentPart (Some (JStr shipAction)), contentPart (map_option JStr label)] 16,
             sg_loopId = loopId, sg_shipAction = shipAction, sg_label = label, sg_actorId = actorId,
             sg_policyVersion = policyVersion, sg_createdAt = now, sg_revokedAt = None, sg_revokedBy = None,
             sg_revocationHistory = None\<rparr>)"

definition outputCandidate :: "loop_output \<Rightarrow> ship_candidate" where
  "outputCandidate output = \<lparr>sc_shipAction = lo_shipAction output, sc_label = lo_label output\<rparr>"

definition undeclaredShipActions :: "loop \<Rightarrow> loop_output list \<Rightarrow> string list" where
  "undeclaredShipActions lp outputs =
     (let declared = map sap_action (l_shipActions lp)
      in uniq (filter (\<lambda>action. action \<notin> set declared) (map lo_shipAction outputs)))"

subsection \<open>Standing grants\<close>

definition reactivate :: "ship_grant \<Rightarrow> ship_grant \<Rightarrow> ship_grant" where
  "reactivate grant current =
     (case sg_revokedAt current of
        None \<Rightarrow> current
      | Some when \<Rightarrow> current\<lparr>sg_revokedAt := None, sg_revokedBy := None, sg_actorId := sg_actorId grant,
           sg_createdAt := sg_createdAt grant,
           sg_revocationHistory := Some ((case sg_revocationHistory current of None \<Rightarrow> [] | Some h \<Rightarrow> h) @
             [(when, case sg_revokedBy current of None \<Rightarrow> ''unknown'' | Some b \<Rightarrow> b)])\<rparr>)"

definition put_grant :: "ship_grant \<Rightarrow> ship_grant js_map \<Rightarrow> ship_grant \<times> ship_grant js_map" where
  "put_grant grant backing =
     (let (existing, backing1) = mm_putIfAbsent (sg_id grant) grant backing in
      if sg_revokedAt existing = None then (existing, backing1)
      else let (after, backing2) = mm_update (sg_id grant) (reactivate grant) backing1
           in (case after of None \<Rightarrow> grant | Some g \<Rightarrow> g, backing2))"

definition grants_byLoop :: "string \<Rightarrow> ship_grant js_map \<Rightarrow> ship_grant list" where
  "grants_byLoop loopId backing = filter (\<lambda>grant. sg_loopId grant = loopId) (mm_all backing)"

definition revoke_grant :: "string \<Rightarrow> string \<Rightarrow> time \<Rightarrow> ship_grant js_map \<Rightarrow> ship_grant option \<times> ship_grant js_map" where
  "revoke_grant i actorId now =
     mm_update i (\<lambda>grant. if sg_revokedAt grant = None
        then grant\<lparr>sg_revokedAt := Some now, sg_revokedBy := Some actorId\<rparr> else grant)"

definition grants_deleteByLoop :: "string \<Rightarrow> ship_grant js_map \<Rightarrow> ship_grant js_map" where
  "grants_deleteByLoop loopId backing = fold (\<lambda>grant. mm_delete (sg_id grant)) (grants_byLoop loopId backing) backing"

subsection \<open>The governor\<close>

record loop_vitals =
  v_queue :: loop_queue_stats
  v_openOutputs :: nat
  v_decidedOutputs :: nat
  v_returnedOutputs :: nat
  v_undeclaredShipActions :: "string list option"

datatype governor_reason =
    UndeclaredAction "string list"
  | ConsecutiveFailedFires nat
  | ReturnedPercent int
  | ItemsQueued nat
  | OldestQueuedMinutes int
  | NoFireMinutes int
  | OutputsWaiting nat

datatype governor_action_type = ActQuarantine | ActThrottle | ActPing

datatype recommendation = DeclareAction | InspectLatestRun | RevisePlaybook | IntakeOutrunsWork | WorkNotDraining
  | TriggerLooksDead | ReviewerSaturation

record governor_action =
  ga_type :: governor_action_type
  ga_reason :: governor_reason
  ga_recommendation :: recommendation

record governor_verdict =
  gv_health :: loop_health
  gv_reason :: "governor_reason option"
  gv_actions :: "governor_action list"
  gv_throttle :: bool
  gv_escalate :: bool

definition severity :: "loop_health \<Rightarrow> nat" where
  "severity h = (case h of Healthy \<Rightarrow> 0 | Degraded \<Rightarrow> 1 | Failing \<Rightarrow> 2 | Quarantined \<Rightarrow> 3)"

definition healthWorsened :: "loop_health \<Rightarrow> loop_health \<Rightarrow> bool" where
  "healthWorsened previous nxt \<longleftrightarrow> severity nxt > severity previous"

definition returnRate :: "loop_vitals \<Rightarrow> rat" where
  "returnRate vitals =
     (if v_decidedOutputs vitals = 0 then 0 else of_nat (v_returnedOutputs vitals) / of_nat (v_decidedOutputs vitals))"

text \<open>\<open>Math.round\<close> of a fraction of a positive denominator.\<close>

definition round_div :: "int \<Rightarrow> int \<Rightarrow> int" where
  "round_div a b = (2 * a + b) div (2 * b)"

text \<open>
  One finding of the evaluation: the action it pushes, if any, and the health it raises with its
  reason. \<open>governor_findings\<close> lists the checks in the order of the code.
\<close>

type_synonym finding = "(governor_action_type \<times> recommendation) option \<times> loop_health \<times> governor_reason"

definition config_of :: "('a \<Rightarrow> 'b option) \<Rightarrow> 'b \<Rightarrow> 'a option \<Rightarrow> 'b" where
  "config_of field def g = (case Option.bind g field of None \<Rightarrow> def | Some v \<Rightarrow> v)"

definition fires_finding :: "loop \<Rightarrow> finding list" where
  "fires_finding lp =
     (let failedFires = (case l_consecutiveFailedFires lp of None \<Rightarrow> 0 | Some n \<Rightarrow> n) in
      if failedFires \<ge> config_of gc_maxConsecutiveFailedFires 3 (l_governor lp)
      then [(Some (ActQuarantine, InspectLatestRun), Quarantined, ConsecutiveFailedFires failedFires)]
      else if failedFires \<ge> 2 then [(None, Failing, ConsecutiveFailedFires failedFires)] else [])"

definition since_fire :: "loop \<Rightarrow> time \<Rightarrow> time" where
  "since_fire lp now = now - (case tb_lastFiredAt lp of None \<Rightarrow> tb_createdAt lp | Some t \<Rightarrow> t)"

definition governor_findings :: "loop \<Rightarrow> loop_vitals \<Rightarrow> time \<Rightarrow> finding list" where
  "governor_findings lp vitals now =
     (let undeclared = (case v_undeclaredShipActions vitals of None \<Rightarrow> [] | Some as \<Rightarrow> as);
          rate = returnRate vitals;
          queue = v_queue vitals;
          age = (case qs_oldestQueuedAgeMs queue of None \<Rightarrow> 0 | Some a \<Rightarrow> a)
      in (if undeclared \<noteq> [] then [(Some (ActQuarantine, DeclareAction), Quarantined, UndeclaredAction undeclared)] else []) @
         fires_finding lp @
         (if v_decidedOutputs vitals \<ge> config_of gc_returnRateMinDecisions 4 (l_governor lp) \<and>
             rate > config_of gc_maxReturnRate (1 / 2) (l_governor lp)
          then [(Some (ActThrottle, RevisePlaybook), Failing,
                 ReturnedPercent (round_div (100 * int (v_returnedOutputs vitals)) (int (v_decidedOutputs vitals))))] else []) @
         (case Option.bind (l_governor lp) gc_maxQueueDepth of
            Some depth \<Rightarrow> if qs_queued queue > depth
              then [(Some (ActThrottle, IntakeOutrunsWork), Degraded, ItemsQueued (qs_queued queue))] else []
          | None \<Rightarrow> []) @
         (case Option.bind (l_governor lp) gc_maxQueueAgeMs of
            Some limit \<Rightarrow> if age > limit
              then [(Some (ActPing, WorkNotDraining), Degraded, OldestQueuedMinutes (round_div age 60000))] else []
          | None \<Rightarrow> []) @
         (case Option.bind (l_governor lp) gc_staleFireMs of
            Some limit \<Rightarrow> if since_fire lp now > limit
              then [(Some (ActPing, TriggerLooksDead), Degraded, NoFireMinutes (round_div (since_fire lp now) 60000))] else []
          | None \<Rightarrow> []) @
         (case Option.bind (l_caps lp) lc_maxOpenOutputs of
            Some limit \<Rightarrow> if v_openOutputs vitals \<ge> limit
              then [(Some (ActPing, ReviewerSaturation), Degraded, OutputsWaiting (v_openOutputs vitals))] else []
          | None \<Rightarrow> []))"

definition raise_health :: "finding \<Rightarrow> loop_health \<times> governor_reason option \<Rightarrow> loop_health \<times> governor_reason option" where
  "raise_health f cur =
     (case f of (_, nxt, why) \<Rightarrow> if severity nxt > severity (fst cur) then (nxt, Some why) else cur)"

definition evaluateGovernor :: "loop \<Rightarrow> loop_vitals \<Rightarrow> time \<Rightarrow> governor_verdict" where
  "evaluateGovernor lp vitals now =
     (let findings = governor_findings lp vitals now;
          (health, reason) = fold raise_health findings (Healthy, None);
          actions = List.map_filter (\<lambda>(act, _, why). map_option (\<lambda>(ty, rec).
             \<lparr>ga_type = ty, ga_reason = why, ga_recommendation = rec\<rparr>) act) findings
      in \<lparr>gv_health = health, gv_reason = reason, gv_actions = actions,
          gv_throttle = list_ex (\<lambda>a. ga_type a = ActThrottle) actions,
          gv_escalate = healthWorsened (l_health lp) health\<rparr>)"

definition collectVitals :: "loop \<Rightarrow> ledger \<Rightarrow> output_store \<Rightarrow> time \<Rightarrow> loop_vitals" where
  "collectVitals lp items outputs now =
     (let outs = os_forLoop (tb_id lp) outputs;
          decided = filter isDecided outs;
          undeclared = undeclaredShipActions lp (filter (\<lambda>out. lo_state out = OStaged \<or> unresolvedOutput out) outs)
      in \<lparr>v_queue = stats (tb_id lp) now items,
          v_openOutputs = length (filter unresolvedOutput outs),
          v_decidedOutputs = length decided,
          v_returnedOutputs = length (filter (\<lambda>out. lo_state out = OReturned) decided),
          v_undeclaredShipActions = (if undeclared \<noteq> [] then Some undeclared else None)\<rparr>)"

end
