(* ===== verification/Cron_Schedule.thy ===== *)
theory Cron_Schedule
  imports Complex_Main Triggers
begin

text \<open>
  Schedules of crons, \<^verbatim>\<open>src/src/cron/schedule.ts\<close>. A JavaScript number that comes from outside is a \<open>js_number\<close>; the checks
  turn it into a safe integer or throw. The cron library \<open>croner\<close> and the table of time zones of \<open>Intl\<close> are
  parameters: \<open>croner expression timezone after\<close> is what \<open>nextRun\<close> returns (\<open>Inl\<close> when the expression is
  refused), \<open>knownZone\<close> whether the zone is accepted. An error is a value of \<open>schedule_error\<close>.
\<close>

datatype js_number = Fin rat | PosInf | NegInf | NaN

datatype schedule_error =
    BadTimestamp string | BadInterval string | BadTimezone string | NotFiveFields | EmptyCron | CronMissing | CronCombined
  | NoFutureFire | TimezoneWithoutCron | IntervalOfADay | IntervalTooShort | FireInThePast | CronerRefused string

type_synonym 'a schedule_result = "schedule_error + 'a"
type_synonym croner = "string \<Rightarrow> string \<Rightarrow> time \<Rightarrow> string + time option"

record cron_schedule =
  cs_cron :: "string option"
  cs_timezone :: "string option"
  cs_everyMs :: "js_number option"
  cs_firstFireAt :: "js_number option"

definition DEFAULT_CRON_TIMEZONE :: string where "DEFAULT_CRON_TIMEZONE = ''America/Los_Angeles''"
definition DAY_MS :: int where "DAY_MS = 24 * 60 * 60 * 1000"
definition MIN_RECURRING_CRON_MS :: int where "MIN_RECURRING_CRON_MS = 60000"
definition PAST_FIRE_GRACE_MS :: int where "PAST_FIRE_GRACE_MS = 5 * 60000"

definition safe_integer :: "js_number \<Rightarrow> int option" where
  "safe_integer v =
     (case v of
        Fin q \<Rightarrow> if q = of_int \<lfloor>q\<rfloor> \<and> \<bar>\<lfloor>q\<rfloor>\<bar> \<le> 9007199254740991 then Some \<lfloor>q\<rfloor> else None
      | _ \<Rightarrow> None)"

definition num :: "int \<Rightarrow> js_number" where
  "num n = Fin (of_int n)"

fun number_ge :: "js_number \<Rightarrow> int \<Rightarrow> bool" where
  "number_ge (Fin q) n \<longleftrightarrow> q \<ge> of_int n"
| "number_ge PosInf n = True"
| "number_ge NegInf n = False"
| "number_ge NaN n = False"

fun number_lt :: "js_number \<Rightarrow> int \<Rightarrow> bool" where
  "number_lt (Fin q) n \<longleftrightarrow> q < of_int n"
| "number_lt PosInf n = False"
| "number_lt NegInf n = True"
| "number_lt NaN n = False"

subsection \<open>Bodies of requests\<close>

datatype body_value = BString string | BNumber js_number | BOther

definition userScheduleFromBody :: "string \<Rightarrow> (string \<times> body_value) list option \<Rightarrow> cron_schedule option" where
  "userScheduleFromBody defaultTimezone body =
     (case body of None \<Rightarrow> None
      | Some props \<Rightarrow>
          let cron = map_of props ''cron''; tz = map_of props ''timezone'';
              everyMs = map_of props ''everyMs''; firstFireAt = map_of props ''firstFireAt'' in
          case cron of
            Some c \<Rightarrow>
              (case c of
                 BString expression \<Rightarrow>
                   if everyMs \<noteq> None \<or> firstFireAt \<noteq> None then None
                   else (case tz of
                           None \<Rightarrow> Some \<lparr>cs_cron = Some expression, cs_timezone = Some defaultTimezone, cs_everyMs = None, cs_firstFireAt = None\<rparr>
                         | Some (BString z) \<Rightarrow> Some \<lparr>cs_cron = Some expression, cs_timezone = Some z, cs_everyMs = None, cs_firstFireAt = None\<rparr>
                         | Some _ \<Rightarrow> None)
               | _ \<Rightarrow> None)
          | None \<Rightarrow>
              if tz \<noteq> None \<or> (everyMs = None \<and> firstFireAt = None) then None
              else (case (everyMs, firstFireAt) of
                      (None, Some (BNumber f)) \<Rightarrow> Some \<lparr>cs_cron = None, cs_timezone = None, cs_everyMs = None, cs_firstFireAt = Some f\<rparr>
                    | (Some (BNumber e), None) \<Rightarrow> Some \<lparr>cs_cron = None, cs_timezone = None, cs_everyMs = Some e, cs_firstFireAt = None\<rparr>
                    | (Some (BNumber e), Some (BNumber f)) \<Rightarrow>
                        Some \<lparr>cs_cron = None, cs_timezone = None, cs_everyMs = Some e, cs_firstFireAt = Some f\<rparr>
                    | _ \<Rightarrow> None))"

subsection \<open>Checks\<close>

definition isCalendarSchedule :: "cron_schedule \<Rightarrow> bool" where
  "isCalendarSchedule s \<longleftrightarrow> cs_cron s \<noteq> None"

definition finiteEpochMs :: "string \<Rightarrow> js_number option \<Rightarrow> int option schedule_result" where
  "finiteEpochMs name v =
     (case v of None \<Rightarrow> Inr None
      | Some x \<Rightarrow> (case safe_integer x of None \<Rightarrow> Inl (BadTimestamp name) | Some n \<Rightarrow> Inr (Some n)))"

definition finitePositiveMs :: "string \<Rightarrow> js_number option \<Rightarrow> int option schedule_result" where
  "finitePositiveMs name v =
     (case v of None \<Rightarrow> Inr None
      | Some x \<Rightarrow> (case safe_integer x of None \<Rightarrow> Inl (BadInterval name)
                   | Some n \<Rightarrow> if n \<le> 0 then Inl (BadInterval name) else Inr (Some n)))"

definition normalizeTimezone :: "(string \<Rightarrow> bool) \<Rightarrow> string option \<Rightarrow> string \<Rightarrow> string schedule_result" where
  "normalizeTimezone knownZone input fallback =
     (let chosen = (case input of None \<Rightarrow> fallback | Some s \<Rightarrow> if trim s = [] then fallback else trim s); tz = trim chosen in
      if knownZone tz then Inr tz else Inl (BadTimezone tz))"

text \<open>\<open>input.trim().replace(/\\s+/g, " ")\<close> and its fields.\<close>

function (sequential) collapse :: "string \<Rightarrow> string" where
  "collapse [] = []"
| "collapse (c # cs) = (if is_space c then CHR '' '' # collapse (dropWhile is_space cs) else c # collapse cs)"
  by pat_completeness auto
termination
  by (relation "measure length") (auto simp: le_imp_less_Suc length_dropWhile_le)

definition field_count :: "string \<Rightarrow> nat" where
  "field_count s = Suc (length (filter (\<lambda>c. c = CHR '' '') s))"

definition normalizeCronExpression :: "string \<Rightarrow> string schedule_result" where
  "normalizeCronExpression input =
     (let cron = collapse (trim input) in if field_count cron \<noteq> 5 then Inl NotFiveFields else Inr cron)"

definition nextCalendarFireAfter :: "(string \<Rightarrow> bool) \<Rightarrow> croner \<Rightarrow> cron_schedule \<Rightarrow> time \<Rightarrow> time option schedule_result" where
  "nextCalendarFireAfter knownZone croner s after =
     (case cs_cron s of
        None \<Rightarrow> Inl CronMissing
      | Some expression \<Rightarrow>
          if expression = [] then Inl CronMissing
          else and_then (normalizeTimezone knownZone (cs_timezone s) DEFAULT_CRON_TIMEZONE) (\<lambda>tz.
            case croner expression tz after of Inl e \<Rightarrow> Inl (CronerRefused e) | Inr next \<Rightarrow> Inr next))"

definition normalizeSchedule ::
  "(string \<Rightarrow> bool) \<Rightarrow> croner \<Rightarrow> cron_schedule \<Rightarrow> time \<Rightarrow> string \<Rightarrow> (cron_schedule \<times> time option) schedule_result" where
  "normalizeSchedule knownZone croner input now defaultTimezone =
     (case cs_cron input of
        Some expression \<Rightarrow>
          if trim expression = [] then Inl EmptyCron
          else if cs_everyMs input \<noteq> None \<or> cs_firstFireAt input \<noteq> None then Inl CronCombined
          else
            and_then (normalizeCronExpression expression) (\<lambda>cron.
            and_then (normalizeTimezone knownZone (cs_timezone input) defaultTimezone) (\<lambda>tz.
            let schedule = \<lparr>cs_cron = Some cron, cs_timezone = Some tz, cs_everyMs = None, cs_firstFireAt = None\<rparr> in
            and_then (nextCalendarFireAfter knownZone croner schedule now) (\<lambda>next.
            case next of None \<Rightarrow> Inl NoFutureFire | Some t \<Rightarrow> Inr (schedule, Some t))))
      | None \<Rightarrow>
          if cs_timezone input \<noteq> None then Inl TimezoneWithoutCron
          else if (case cs_everyMs input of None \<Rightarrow> False | Some e \<Rightarrow> number_ge e DAY_MS) then Inl IntervalOfADay
          else
            and_then (finitePositiveMs ''schedule.everyMs'' (cs_everyMs input)) (\<lambda>everyMs.
            and_then (finiteEpochMs ''schedule.firstFireAt'' (cs_firstFireAt input)) (\<lambda>first.
            let firstFireAt = (case first of Some f \<Rightarrow> f | None \<Rightarrow> (case everyMs of Some e \<Rightarrow> now + e | None \<Rightarrow> now)) in
            Inr (\<lparr>cs_cron = None, cs_timezone = None, cs_everyMs = map_option num everyMs, cs_firstFireAt = Some (num firstFireAt)\<rparr>,
                 Some firstFireAt))))"

definition validateUserSchedule :: "cron_schedule \<Rightarrow> time \<Rightarrow> unit schedule_result" where
  "validateUserSchedule s now =
     (if (case cs_everyMs s of None \<Rightarrow> False | Some e \<Rightarrow> number_lt e MIN_RECURRING_CRON_MS) then Inl IntervalTooShort
      else if (case cs_firstFireAt s of None \<Rightarrow> False | Some f \<Rightarrow> number_lt f (now - PAST_FIRE_GRACE_MS)) then Inl FireInThePast
      else Inr ())"

definition recoverNextFireAt ::
  "(string \<Rightarrow> bool) \<Rightarrow> croner \<Rightarrow> cron_schedule \<Rightarrow> time \<Rightarrow> time option \<Rightarrow> time option \<Rightarrow> time option schedule_result" where
  "recoverNextFireAt knownZone croner s createdAt lastFiredAt nextFireAt =
     (case nextFireAt of
        Some n \<Rightarrow> finiteEpochMs ''nextFireAt'' (Some (num n))
      | None \<Rightarrow>
          if isCalendarSchedule s
          then nextCalendarFireAfter knownZone croner s (case lastFiredAt of Some t \<Rightarrow> t | None \<Rightarrow> createdAt)
          else (case lastFiredAt of
                  None \<Rightarrow>
                    and_then (finiteEpochMs ''schedule.firstFireAt'' (cs_firstFireAt s)) (\<lambda>f.
                    Inr (Some (case f of Some t \<Rightarrow> t | None \<Rightarrow> createdAt)))
                | Some t \<Rightarrow>
                    and_then (finitePositiveMs ''schedule.everyMs'' (cs_everyMs s)) (\<lambda>e. Inr (map_option (\<lambda>e. t + e) e))))"

definition advanceNextFireAt :: "(string \<Rightarrow> bool) \<Rightarrow> croner \<Rightarrow> cron_schedule \<Rightarrow> time \<Rightarrow> time option schedule_result" where
  "advanceNextFireAt knownZone croner s firedAt =
     (if isCalendarSchedule s then nextCalendarFireAfter knownZone croner s firedAt
      else and_then (finitePositiveMs ''schedule.everyMs'' (cs_everyMs s)) (\<lambda>e. Inr (map_option (\<lambda>e. firedAt + e) e)))"

subsection \<open>Normal forms\<close>

lemma is_space_blank [simp]: "is_space CHR '' ''"
  by (simp add: is_space_def)

lemma safe_num: "\<bar>n\<bar> \<le> 9007199254740991 \<Longrightarrow> safe_integer (num n) = Some n"
  by (simp add: safe_integer_def num_def)

lemma num_inj: "num a = num b \<longleftrightarrow> a = b"
  by (simp add: num_def)

lemma safe_integer_bound: "safe_integer v = Some n \<Longrightarrow> \<bar>n\<bar> \<le> 9007199254740991 \<and> v = num n"
  by (auto simp: safe_integer_def num_def split: js_number.splits if_splits)

lemma collapse_blanks: "collapse (dropWhile is_space s) = dropWhile is_space (collapse (dropWhile is_space s))"
  by (induction s) auto

lemma collapse_idem: "collapse (collapse s) = collapse s"
proof (induction s rule: collapse.induct)
  case (2 c cs)
  show ?case
  proof (cases "is_space c")
    case True
    then show ?thesis using 2(1) by (simp flip: collapse_blanks)
  qed (use 2(2) in simp)
qed simp

text \<open>A trimmed string neither begins nor ends with white space, and collapsing keeps it that way.\<close>

definition trimmed :: "string \<Rightarrow> bool" where
  "trimmed s \<longleftrightarrow> s = [] \<or> (\<not> is_space (hd s) \<and> \<not> is_space (last s))"

lemma trim_trimmed: "trimmed s \<Longrightarrow> trim s = s"
proof (cases "s = []")
  case False
  assume "trimmed s"
  then have "dropWhile is_space s = s" "dropWhile is_space (rev s) = rev s"
    using False by (auto simp: trimmed_def dropWhile_eq_self_iff hd_rev)
  then show ?thesis by (simp add: trim_def)
qed (simp add: trim_def)

lemma trimmed_trim: "trimmed (trim s)"
proof -
  let ?t = "dropWhile is_space s" and ?u = "dropWhile is_space (rev (dropWhile is_space s))"
  show ?thesis
  proof (cases "?u = []")
    case False
    then have "\<not> is_space (hd ?u)" by (metis hd_dropWhile dropWhile_eq_Nil_conv)
    moreover have "\<not> is_space (last ?u)"
    proof -
      have ne: "?t \<noteq> []" using False by (metis dropWhile.simps(1) rev.simps(1))
      have "last ?u = last (rev ?t)" using False by (metis last_appendR takeWhile_dropWhile_id)
      also have "\<dots> = hd ?t" using ne by (simp add: last_rev)
      finally show ?thesis using ne hd_dropWhile by metis
    qed
    ultimately show ?thesis using False by (simp add: trimmed_def trim_def hd_rev last_rev)
  qed (simp add: trimmed_def trim_def)
qed

lemma collapse_eq_Nil [simp]: "collapse s = [] \<longleftrightarrow> s = []"
  by (cases s) auto

lemma last_collapse: "s \<noteq> [] \<Longrightarrow> \<not> is_space (last s) \<Longrightarrow> last (collapse s) = last s"
proof (induction s rule: collapse.induct)
  case (2 c cs)
  show ?case
  proof (cases "is_space c")
    case True
    then have ne: "cs \<noteq> []" using 2(4) by auto
    have "\<not> (\<forall>x \<in> set cs. is_space x)" using 2(4) ne by (auto simp: True)
    then have dw: "dropWhile is_space cs \<noteq> []" by (simp add: dropWhile_eq_Nil_conv)
    have "last (dropWhile is_space cs) = last cs" using dw by (metis last_appendR takeWhile_dropWhile_id)
    then have "last (collapse (dropWhile is_space cs)) = last cs" using 2(1) [OF True dw] 2(4) ne by simp
    moreover have "collapse (dropWhile is_space cs) \<noteq> []" using dw by (simp only: collapse_eq_Nil not_False_eq_True)
    ultimately show ?thesis using ne True by (simp del: collapse_eq_Nil)
  next
    case False
    then show ?thesis using 2(2) [OF False] 2(4) by (cases "cs = []") auto
  qed
qed simp

lemma trimmed_collapse: "trimmed s \<Longrightarrow> trimmed (collapse s)"
  using last_collapse [of s] by (cases s) (auto simp: trimmed_def)

lemma normalizeCronExpression_stable: "normalizeCronExpression x = Inr c \<Longrightarrow> normalizeCronExpression c = Inr c \<and> c = collapse (trim x)"
  using trim_trimmed [OF trimmed_collapse [OF trimmed_trim [of x]]]
  by (auto simp: normalizeCronExpression_def Let_def collapse_idem split: if_splits)

lemma normalizeTimezone_stable:
  "normalizeTimezone kz x fallback = Inr tz \<Longrightarrow> \<not> kz [] \<Longrightarrow> normalizeTimezone kz (Some tz) fallback' = Inr tz"
  using trim_trimmed [OF trimmed_trim] by (auto simp: normalizeTimezone_def Let_def split: if_splits option.splits)

lemma finitePositiveMs_num: "finitePositiveMs name v = Inr e \<Longrightarrow> finitePositiveMs name (map_option num e) = Inr e \<and> (\<forall>n. e = Some n \<longrightarrow> 0 < n \<and> v = Some (num n))"
  by (auto simp: finitePositiveMs_def safe_num num_inj dest!: safe_integer_bound split: option.splits if_splits)

text \<open>Schedules have a normal form, and every accepted schedule is in it. \<open>normalizeSchedule\<close> returns either a five-field
  cron expression with a known time zone and no interval, or an interval schedule with a first fire time, a whole number of
  milliseconds of less than a day between fires if it recurs and no zone; the next fire time is always set. Normalizing
  the result again, with whatever default zone, changes nothing.\<close>

lemma normalized_schedule_stable:
  assumes "normalizeSchedule kz cr input now dz = Inr (s, n)" and "\<not> kz []" and "\<bar>now\<bar> \<le> 8640000000000000"
  shows "normalizeSchedule kz cr s now dz' = Inr (s, n) \<and> n \<noteq> None \<and>
    (case cs_cron s of
       Some c \<Rightarrow> field_count c = 5 \<and> (\<exists>tz. cs_timezone s = Some tz \<and> kz tz) \<and> cs_everyMs s = None \<and> cs_firstFireAt s = None
     | None \<Rightarrow> cs_timezone s = None \<and> (\<exists>f. cs_firstFireAt s = Some (num f) \<and> n = Some f) \<and>
         (\<forall>e. cs_everyMs s = Some e \<longrightarrow> (\<exists>k. e = num k \<and> 0 < k \<and> k < DAY_MS)))"
proof (cases "cs_cron input")
  case (Some x)
  then obtain c tz t where c: "normalizeCronExpression x = Inr c" and tz: "normalizeTimezone kz (cs_timezone input) dz = Inr tz"
    and next_fire: "nextCalendarFireAfter kz cr \<lparr>cs_cron = Some c, cs_timezone = Some tz, cs_everyMs = None, cs_firstFireAt = None\<rparr> now = Inr (Some t)"
    and s: "s = \<lparr>cs_cron = Some c, cs_timezone = Some tz, cs_everyMs = None, cs_firstFireAt = None\<rparr>" "n = Some t" and ne: "trim x \<noteq> []"
    using assms(1) by (auto simp: normalizeSchedule_def and_then_Inr Let_def split: if_splits option.splits)
  have stable: "normalizeCronExpression c = Inr c" "trim c \<noteq> []" "field_count c = 5"
    using normalizeCronExpression_stable [OF c] trim_trimmed [OF trimmed_collapse [OF trimmed_trim [of x]]] ne c
    by (auto simp: normalizeCronExpression_def Let_def split: if_splits)
  have "kz tz" using tz by (auto simp: normalizeTimezone_def Let_def split: if_splits)
  then show ?thesis
    using stable normalizeTimezone_stable [OF tz assms(2), of dz'] next_fire by (simp add: s normalizeSchedule_def)
next
  case None
  then obtain e f where e: "finitePositiveMs ''schedule.everyMs'' (cs_everyMs input) = Inr e"
    and f: "finiteEpochMs ''schedule.firstFireAt'' (cs_firstFireAt input) = Inr f"
    and day: "\<forall>v. cs_everyMs input = Some v \<longrightarrow> \<not> number_ge v DAY_MS"
    and sn: "(s, n) = (let t = (case f of Some f \<Rightarrow> f | None \<Rightarrow> (case e of Some e \<Rightarrow> now + e | None \<Rightarrow> now)) in
      (\<lparr>cs_cron = None, cs_timezone = None, cs_everyMs = map_option num e, cs_firstFireAt = Some (num t)\<rparr>, Some t))"
    using assms(1) by (auto simp: normalizeSchedule_def and_then_Inr Let_def split: if_splits option.splits)
  have e': "finitePositiveMs ''schedule.everyMs'' (map_option num e) = Inr e" "\<forall>n. e = Some n \<longrightarrow> 0 < n \<and> n < DAY_MS"
    using finitePositiveMs_num [OF e] day by (auto simp: num_def)
  define t where "t = (case f of Some f \<Rightarrow> f | None \<Rightarrow> (case e of Some e \<Rightarrow> now + e | None \<Rightarrow> now))"
  have "\<bar>t\<bar> \<le> 9007199254740991"
    using f assms(3) e'(2)
    by (auto simp: t_def finiteEpochMs_def DAY_MS_def dest!: safe_integer_bound split: option.splits)
  then have t: "finiteEpochMs ''schedule.firstFireAt'' (Some (num t)) = Inr (Some t)" by (simp add: finiteEpochMs_def safe_num)
  have s: "s = \<lparr>cs_cron = None, cs_timezone = None, cs_everyMs = map_option num e, cs_firstFireAt = Some (num t)\<rparr>" "n = Some t"
    using sn by (simp_all add: Let_def t_def)
  show ?thesis
    using e' t by (cases e) (auto simp: s normalizeSchedule_def num_def)
qed

lemma normalized_schedule_stable_witness:
  "normalizeSchedule (\<lambda>z. z \<noteq> []) (\<lambda>_ _ after. Inr (Some (after + 1)))
     \<lparr>cs_cron = None, cs_timezone = None, cs_everyMs = Some (num 60000), cs_firstFireAt = Some (num 61000)\<rparr> 1000 ''UTC''
   = Inr (\<lparr>cs_cron = None, cs_timezone = None, cs_everyMs = Some (num 60000), cs_firstFireAt = Some (num 61000)\<rparr>, Some 61000)"
proof -
  have "normalizeSchedule (\<lambda>z. z \<noteq> []) (\<lambda>_ _ after. Inr (Some (after + 1)))
     \<lparr>cs_cron = None, cs_timezone = None, cs_everyMs = Some (num 60000), cs_firstFireAt = None\<rparr> 1000 ''UTC''
   = Inr (\<lparr>cs_cron = None, cs_timezone = None, cs_everyMs = Some (num 60000), cs_firstFireAt = Some (num 61000)\<rparr>, Some 61000)"
    by (simp add: normalizeSchedule_def finitePositiveMs_def finiteEpochMs_def safe_num DAY_MS_def) (simp add: num_def)
  from normalized_schedule_stable [OF this] show ?thesis by simp
qed

end
