(* ===== verification/Cron_Fires.thy ===== *)
theory Cron_Fires
  imports Durable_Map "HOL-Library.Product_Lexorder"
begin

text \<open>
  The log of cron fires, \<^verbatim>\<open>src/src/cron/fire-store.ts\<close>: in memory a map of maps, in Postgres the table \<open>cron_fires\<close> with the
  primary key \<open>(cron_id, fire_key)\<close>. Both implement the interface \<open>fire_log\<close>, in which the exclusiveness of fires is proved once.
  \<open>pgTextSafe\<close> makes notes and replies acceptable to Postgres and is a parameter of the table; \<open>collate\<close> is the
  sort key of its collation.
\<close>

record fire_entry =
  fe_fireKey :: string
  fe_threadRef :: string
  fe_firedAt :: time
  fe_scheduledAt :: "time option"
  fe_status :: "string option"
  fe_endedAt :: "time option"
  fe_note :: "string option"
  fe_reply :: "string option"
  fe_sessionId :: "string option"

datatype begin_result = Begun | Refused "fire_entry option"

definition running :: "fire_entry \<Rightarrow> bool" where
  "running e \<longleftrightarrow> fe_status e = Some ''running''"

definition fireOrder :: "fire_entry \<Rightarrow> time \<times> string" where
  "fireOrder e = (fe_firedAt e, fe_fireKey e)"

definition backfillMayReplace :: "fire_entry \<Rightarrow> fire_entry \<Rightarrow> bool" where
  "backfillMayReplace existing incoming \<longleftrightarrow>
     \<not> fe_firedAt incoming < fe_firedAt existing \<and> (fe_endedAt existing = None \<or> fe_endedAt incoming \<noteq> None)"

definition blocks :: "fire_entry \<Rightarrow> time \<Rightarrow> fire_entry \<Rightarrow> bool" where
  "blocks entry staleRunningMs e \<longleftrightarrow>
     fe_fireKey e \<noteq> fe_fireKey entry \<and> running e \<and> fe_firedAt entry - fe_firedAt e < staleRunningMs"

definition stranded :: "time \<Rightarrow> time \<Rightarrow> fire_entry \<Rightarrow> bool" where
  "stranded now staleRunningMs e \<longleftrightarrow> \<not> (\<not> running e \<or> now - fe_firedAt e < staleRunningMs)"

definition strand :: "time \<Rightarrow> string \<Rightarrow> fire_entry \<Rightarrow> fire_entry" where
  "strand now note e = e\<lparr>fe_status := Some ''failed'', fe_endedAt := Some now, fe_note := Some note\<rparr>"

definition ended_before :: "time \<Rightarrow> fire_entry \<Rightarrow> bool" where
  "ended_before t e = (case fe_endedAt e of None \<Rightarrow> False | Some d \<Rightarrow> \<not> d \<ge> t)"

definition find_last :: "('a \<Rightarrow> bool) \<Rightarrow> 'a list \<Rightarrow> 'a option" where
  "find_last P xs = List.find P (rev xs)"

subsection \<open>In memory\<close>

type_synonym memory_fires = "fire_entry js_map js_map"

definition firesOf :: "string \<Rightarrow> memory_fires \<Rightarrow> fire_entry js_map" where
  "firesOf cronId byCron = (case map_of byCron cronId of None \<Rightarrow> [] | Some fires \<Rightarrow> fires)"

definition mf_record :: "string \<Rightarrow> fire_entry \<Rightarrow> memory_fires \<Rightarrow> memory_fires" where
  "mf_record cronId entry byCron = AList.update cronId (AList.update (fe_fireKey entry) entry (firesOf cronId byCron)) byCron"

definition mf_beginExclusive :: "string \<Rightarrow> fire_entry \<Rightarrow> time \<Rightarrow> memory_fires \<Rightarrow> begin_result \<times> memory_fires" where
  "mf_beginExclusive cronId entry staleRunningMs byCron =
     (let fires = firesOf cronId byCron in
      case find_last (blocks entry staleRunningMs) (sort_key fireOrder (map_values fires)) of
        Some r \<Rightarrow> (Refused (Some r), AList.update cronId fires byCron)
      | None \<Rightarrow> (Begun, AList.update cronId (AList.update (fe_fireKey entry) entry fires) byCron))"

definition mf_sweepStranded :: "time \<Rightarrow> time \<Rightarrow> string \<Rightarrow> memory_fires \<Rightarrow> nat \<times> memory_fires" where
  "mf_sweepStranded now staleRunningMs note byCron =
     (sum_list (map (\<lambda>(c, fires). length (filter (stranded now staleRunningMs) (map_values fires))) byCron),
      map (\<lambda>(c, fires). (c, map (\<lambda>(k, e). (k, if stranded now staleRunningMs e then strand now note e else e)) fires)) byCron)"

definition mf_doomed :: "time \<Rightarrow> int \<Rightarrow> fire_entry js_map \<Rightarrow> fire_entry list" where
  "mf_doomed endedBefore keepPerCron fires =
     filter (ended_before endedBefore) (drop (nat (max keepPerCron 0)) (rev (sort_key fireOrder (map_values fires))))"

definition mf_pruneEnded :: "time \<Rightarrow> int \<Rightarrow> memory_fires \<Rightarrow> nat \<times> memory_fires" where
  "mf_pruneEnded endedBefore keepPerCron byCron =
     (sum_list (map (\<lambda>(c, fires). length (mf_doomed endedBefore keepPerCron fires)) byCron),
      map (\<lambda>(c, fires). (c, fold (\<lambda>e. AList.delete (fe_fireKey e)) (mf_doomed endedBefore keepPerCron fires) fires)) byCron)"

definition backfill_entry :: "fire_entry \<Rightarrow> fire_entry js_map \<Rightarrow> fire_entry js_map" where
  "backfill_entry entry fires =
     (case map_of fires (fe_fireKey entry) of
        None \<Rightarrow> AList.update (fe_fireKey entry) entry fires
      | Some existing \<Rightarrow> if \<not> backfillMayReplace existing entry then fires else AList.update (fe_fireKey entry) entry fires)"

definition mf_backfill :: "string \<Rightarrow> fire_entry list \<Rightarrow> memory_fires \<Rightarrow> memory_fires" where
  "mf_backfill cronId entries byCron = AList.update cronId (fold backfill_entry entries (firesOf cronId byCron)) byCron"

definition last_entries :: "int option \<Rightarrow> 'a list \<Rightarrow> 'a list" where
  "last_entries limit xs =
     (case limit of None \<Rightarrow> xs | Some n \<Rightarrow> if n > 0 then drop (length xs - nat n) xs else [])"

definition mf_listByCron :: "string \<Rightarrow> int option \<Rightarrow> memory_fires \<Rightarrow> fire_entry list \<times> nat" where
  "mf_listByCron cronId limit byCron =
     (let everything = sort_key fireOrder (map_values (firesOf cronId byCron)) in (last_entries limit everything, length everything))"

definition mf_listByThreadRefs :: "string list \<Rightarrow> memory_fires \<Rightarrow> (string \<times> fire_entry) list" where
  "mf_listByThreadRefs threadRefs byCron =
     sort_key (\<lambda>(c, e). fireOrder e)
       (concat (map (\<lambda>(c, fires). map (\<lambda>e. (c, e)) (filter (\<lambda>e. fe_threadRef e \<in> set threadRefs) (map_values fires))) byCron))"

definition mf_latestForThread :: "string \<Rightarrow> string \<Rightarrow> memory_fires \<Rightarrow> fire_entry option" where
  "mf_latestForThread cronId threadRef byCron =
     (let matches = sort_key fireOrder (filter (\<lambda>e. fe_threadRef e = threadRef) (map_values (firesOf cronId byCron))) in
      if matches = [] then None else Some (last matches))"

subsection \<open>In Postgres\<close>

type_synonym fire_rows = "(string \<times> fire_entry) list"

definition store_row :: "(string \<Rightarrow> string) \<Rightarrow> fire_entry \<Rightarrow> fire_entry" where
  "store_row pgTextSafe e = e\<lparr>fe_note := map_option pgTextSafe (fe_note e), fe_reply := map_option pgTextSafe (fe_reply e)\<rparr>"

definition has_key :: "string \<Rightarrow> string \<Rightarrow> string \<times> fire_entry \<Rightarrow> bool" where
  "has_key cronId fireKey row \<longleftrightarrow> fst row = cronId \<and> fe_fireKey (snd row) = fireKey"

definition pf_lookup :: "fire_rows \<Rightarrow> string \<Rightarrow> string \<Rightarrow> fire_entry option" where
  "pf_lookup rows cronId fireKey = map_option snd (List.find (has_key cronId fireKey) rows)"

definition pf_upsert :: "(string \<Rightarrow> string) \<Rightarrow> string \<Rightarrow> fire_entry \<Rightarrow> fire_rows \<Rightarrow> fire_rows" where
  "pf_upsert pgTextSafe cronId entry rows =
     (if list_ex (has_key cronId (fe_fireKey entry)) rows
      then map (\<lambda>r. if has_key cronId (fe_fireKey entry) r then (cronId, store_row pgTextSafe entry) else r) rows
      else rows @ [(cronId, store_row pgTextSafe entry)])"

definition row_order :: "(string \<Rightarrow> string) \<Rightarrow> string \<times> fire_entry \<Rightarrow> time \<times> string" where
  "row_order collate r = (fe_firedAt (snd r), collate (fe_fireKey (snd r)))"

definition pf_beginExclusive ::
  "(string \<Rightarrow> string) \<Rightarrow> (string \<Rightarrow> string) \<Rightarrow> string \<Rightarrow> fire_entry \<Rightarrow> time \<Rightarrow> fire_rows \<Rightarrow> begin_result \<times> fire_rows" where
  "pf_beginExclusive pgTextSafe collate cronId entry staleRunningMs rows =
     (let found = filter (\<lambda>r. fst r = cronId \<and> fe_fireKey (snd r) \<noteq> fe_fireKey entry \<and> running (snd r) \<and>
                            fe_firedAt (snd r) > fe_firedAt entry - staleRunningMs) rows in
      case rev (sort_key (row_order collate) found) of
        row # _ \<Rightarrow> (Refused (Some (snd row)), rows)
      | [] \<Rightarrow> (Begun, pf_upsert pgTextSafe cronId entry rows))"

definition pf_sweepStranded :: "(string \<Rightarrow> string) \<Rightarrow> time \<Rightarrow> time \<Rightarrow> string \<Rightarrow> fire_rows \<Rightarrow> nat \<times> fire_rows" where
  "pf_sweepStranded pgTextSafe now staleRunningMs note rows =
     (let hit = (\<lambda>r. running (snd r) \<and> fe_firedAt (snd r) \<le> now - staleRunningMs) in
      (length (filter hit rows), map (\<lambda>r. if hit r then (fst r, strand now (pgTextSafe note) (snd r)) else r) rows))"

definition row_number :: "(string \<Rightarrow> string) \<Rightarrow> fire_rows \<Rightarrow> string \<times> fire_entry \<Rightarrow> nat" where
  "row_number collate rows r =
     length (takeWhile (\<lambda>x. x \<noteq> r) (rev (sort_key (row_order collate) (filter (\<lambda>x. fst x = fst r) rows)))) + 1"

definition pf_pruned :: "(string \<Rightarrow> string) \<Rightarrow> time \<Rightarrow> int \<Rightarrow> fire_rows \<Rightarrow> string \<times> fire_entry \<Rightarrow> bool" where
  "pf_pruned collate endedBefore keepPerCron rows r \<longleftrightarrow>
     int (row_number collate rows r) > keepPerCron \<and> (case fe_endedAt (snd r) of None \<Rightarrow> False | Some t \<Rightarrow> t < endedBefore)"

definition pf_pruneEnded :: "(string \<Rightarrow> string) \<Rightarrow> time \<Rightarrow> int \<Rightarrow> fire_rows \<Rightarrow> nat \<times> fire_rows" where
  "pf_pruneEnded collate endedBefore keepPerCron rows =
     (length (filter (pf_pruned collate endedBefore keepPerCron rows) rows),
      filter (\<lambda>r. \<not> pf_pruned collate endedBefore keepPerCron rows r) rows)"

text \<open>One \<open>INSERT ... ON CONFLICT DO UPDATE\<close> per chunk of entries: a statement that names a key twice is refused by the database.\<close>

definition BACKFILL_CHUNK :: nat where "BACKFILL_CHUNK = 500"

definition pf_backfill_entry :: "(string \<Rightarrow> string) \<Rightarrow> string \<Rightarrow> fire_entry \<Rightarrow> fire_rows \<Rightarrow> fire_rows" where
  "pf_backfill_entry pgTextSafe cronId entry rows =
     (case pf_lookup rows cronId (fe_fireKey entry) of
        None \<Rightarrow> pf_upsert pgTextSafe cronId entry rows
      | Some existing \<Rightarrow>
          if fe_firedAt entry \<ge> fe_firedAt existing \<and> (fe_endedAt existing = None \<or> fe_endedAt entry \<noteq> None)
          then pf_upsert pgTextSafe cronId entry rows else rows)"

function pf_backfill :: "(string \<Rightarrow> string) \<Rightarrow> string \<Rightarrow> fire_entry list \<Rightarrow> fire_rows \<Rightarrow> (string + unit) \<times> fire_rows" where
  "pf_backfill pgTextSafe cronId entries rows =
     (if entries = [] then (Inr (), rows)
      else if \<not> distinct (map fe_fireKey (take BACKFILL_CHUNK entries))
      then (Inl ''ON CONFLICT DO UPDATE command cannot affect row a second time'', rows)
      else pf_backfill pgTextSafe cronId (drop BACKFILL_CHUNK entries)
             (fold (pf_backfill_entry pgTextSafe cronId) (take BACKFILL_CHUNK entries) rows))"
  by pat_completeness auto
termination
  by (relation "measure (\<lambda>(p, c, entries, rows). length entries)") (auto simp: BACKFILL_CHUNK_def)

declare pf_backfill.simps [simp del]

definition rows_of_cron :: "string \<Rightarrow> fire_rows \<Rightarrow> fire_rows" where
  "rows_of_cron cronId rows = filter (\<lambda>r. fst r = cronId) rows"

definition pf_listByCron :: "(string \<Rightarrow> string) \<Rightarrow> string \<Rightarrow> int option \<Rightarrow> fire_rows \<Rightarrow> fire_entry list \<times> nat" where
  "pf_listByCron collate cronId limit rows =
     (let mine = rows_of_cron cronId rows in
      case limit of
        None \<Rightarrow> (map snd (sort_key (row_order collate) mine), length mine)
      | Some n \<Rightarrow>
          if n \<le> 0 then ([], length mine)
          else (let newest = take (nat n) (rev (sort_key (row_order collate) mine)) in
                (rev (map snd newest), if newest = [] then 0 else length mine)))"

definition pf_listByThreadRefs :: "(string \<Rightarrow> string) \<Rightarrow> string list \<Rightarrow> fire_rows \<Rightarrow> (string \<times> fire_entry) list" where
  "pf_listByThreadRefs collate threadRefs rows =
     (if threadRefs = [] then []
      else sort_key (row_order collate) (filter (\<lambda>r. fe_threadRef (snd r) \<in> set threadRefs) rows))"

definition pf_latestForThread :: "(string \<Rightarrow> string) \<Rightarrow> string \<Rightarrow> string \<Rightarrow> fire_rows \<Rightarrow> fire_entry option" where
  "pf_latestForThread collate cronId threadRef rows =
     (case rev (sort_key (row_order collate) (filter (\<lambda>r. fe_threadRef (snd r) = threadRef) (rows_of_cron cronId rows))) of
        [] \<Rightarrow> None | r # _ \<Rightarrow> Some (snd r))"

subsection \<open>The interface of a fire log\<close>

definition recorded :: "string \<Rightarrow> fire_entry \<Rightarrow> (string \<Rightarrow> string \<Rightarrow> fire_entry option) \<Rightarrow> string \<Rightarrow> string \<Rightarrow> fire_entry option" where
  "recorded cronId e look = (\<lambda>c k. if c = cronId \<and> k = fe_fireKey e then Some e else look c k)"

locale fire_log =
  fixes inv :: "'s \<Rightarrow> bool"
    and look :: "'s \<Rightarrow> string \<Rightarrow> string \<Rightarrow> fire_entry option"
    and clean :: "fire_entry \<Rightarrow> fire_entry"
    and record_fire :: "string \<Rightarrow> fire_entry \<Rightarrow> 's \<Rightarrow> 's"
    and begin_fire :: "string \<Rightarrow> fire_entry \<Rightarrow> time \<Rightarrow> 's \<Rightarrow> begin_result \<times> 's"
    and sweep :: "time \<Rightarrow> time \<Rightarrow> string \<Rightarrow> 's \<Rightarrow> nat \<times> 's"
    and prune_fires :: "time \<Rightarrow> int \<Rightarrow> 's \<Rightarrow> nat \<times> 's"
  assumes look_key: "inv st \<Longrightarrow> look st c k = Some e \<Longrightarrow> fe_fireKey e = k"
    and clean_keeps: "fe_fireKey (clean e) = fe_fireKey e" "fe_firedAt (clean e) = fe_firedAt e"
      "fe_status (clean e) = fe_status e" "fe_endedAt (clean e) = fe_endedAt e"
    and record_inv: "inv st \<Longrightarrow> inv (record_fire c e st)"
    and record_look: "inv st \<Longrightarrow> look (record_fire c e st) = recorded c (clean e) (look st)"
    and begin_inv: "inv st \<Longrightarrow> inv (snd (begin_fire c e stale st))"
    and begin_refused: "inv st \<Longrightarrow> begin_fire c e stale st = (Refused r, st') \<Longrightarrow>
      look st' = look st \<and> (\<exists>x k. r = Some x \<and> look st c k = Some x \<and> blocks e stale x)"
    and begin_begun: "inv st \<Longrightarrow> begin_fire c e stale st = (Begun, st') \<Longrightarrow>
      look st' = recorded c (clean e) (look st) \<and> (\<forall>k x. look st c k = Some x \<longrightarrow> \<not> blocks e stale x)"
    and sweep_inv: "inv st \<Longrightarrow> inv (snd (sweep now stale note st))"
    and sweep_look: "inv st \<Longrightarrow> \<exists>note'. \<forall>c k. look (snd (sweep now stale note st)) c k =
      map_option (\<lambda>e. if stranded now stale e then strand now note' e else e) (look st c k)"
    and prune_inv: "inv st \<Longrightarrow> inv (snd (prune_fires t keep st))"
    and prune_look: "inv st \<Longrightarrow> look (snd (prune_fires t keep st)) c k = look st c k \<or>
      (look (snd (prune_fires t keep st)) c k = None \<and> (\<exists>e. look st c k = Some e \<and> ended_before t e))"
begin

definition spaced :: "time \<Rightarrow> 's \<Rightarrow> bool" where
  "spaced stale st \<longleftrightarrow>
     (\<forall>c k k' e e'. look st c k = Some e \<and> look st c k' = Some e' \<and> k \<noteq> k' \<and> running e \<and> running e' \<longrightarrow>
        stale \<le> \<bar>fe_firedAt e - fe_firedAt e'\<bar>)"

lemma running_clean: "running (clean e) = running e"
  by (simp add: running_def clean_keeps)

lemma spaced_begin:
  assumes "inv st" and "spaced stale st"
  shows "spaced stale (snd (begin_fire c e stale st))"
proof (cases "begin_fire c e stale st")
  case (Pair r st')
  show ?thesis
  proof (cases r)
    case Begun
    then have look: "look st' = recorded c (clean e) (look st)" and free: "\<And>k x. look st c k = Some x \<Longrightarrow> \<not> blocks e stale x"
      using begin_begun [OF assms(1)] Pair by blast+
    have far: "stale \<le> fe_firedAt e - fe_firedAt x" if "look st c k = Some x" "k \<noteq> fe_fireKey e" "running x" for k x
      using free [OF that(1)] look_key [OF assms(1) that(1)] that(2,3) by (auto simp: blocks_def)
    show ?thesis
      unfolding spaced_def
    proof (intro allI impI)
      fix c' k k' x x'
      assume a: "look (snd (begin_fire c e stale st)) c' k = Some x \<and> look (snd (begin_fire c e stale st)) c' k' = Some x' \<and>
        k \<noteq> k' \<and> running x \<and> running x'"
      consider "c' = c" "k = fe_fireKey e" | "c' = c" "k' = fe_fireKey e" "k \<noteq> fe_fireKey e" | "c' \<noteq> c \<or> (k \<noteq> fe_fireKey e \<and> k' \<noteq> fe_fireKey e)"
        by blast
      then show "stale \<le> \<bar>fe_firedAt x - fe_firedAt x'\<bar>"
      proof cases
        case 1
        then have "x = clean e" "look st c k' = Some x'" "k' \<noteq> fe_fireKey e" using a look Pair by (auto simp: recorded_def clean_keeps)
        then show ?thesis using far [of k' x'] a by (simp add: clean_keeps)
      next
        case 2
        then have "x' = clean e" "look st c k = Some x" using a look Pair by (auto simp: recorded_def clean_keeps)
        then show ?thesis using far [of k x] a 2 by (simp add: clean_keeps)
      next
        case 3
        then have "look st c' k = Some x" "look st c' k' = Some x'" using a look Pair by (auto simp: recorded_def clean_keeps)
        then show ?thesis using assms(2) a unfolding spaced_def by blast
      qed
    qed
  next
    case (Refused x)
    then show ?thesis using begin_refused [OF assms(1)] Pair assms(2) by (fastforce simp: spaced_def)
  qed
qed

lemma spaced_mono:
  assumes "spaced stale st"
    and "\<And>c k e. look st' c k = Some e \<Longrightarrow> running e \<Longrightarrow> \<exists>e0. look st c k = Some e0 \<and> running e0 \<and> fe_firedAt e0 = fe_firedAt e"
  shows "spaced stale st'"
  unfolding spaced_def
proof (intro allI impI)
  fix c k k' e e'
  assume a: "look st' c k = Some e \<and> look st' c k' = Some e' \<and> k \<noteq> k' \<and> running e \<and> running e'"
  obtain e0 where e0: "look st c k = Some e0" "running e0" "fe_firedAt e0 = fe_firedAt e" using assms(2) a by blast
  obtain e1 where e1: "look st c k' = Some e1" "running e1" "fe_firedAt e1 = fe_firedAt e'" using assms(2) a by blast
  show "stale \<le> \<bar>fe_firedAt e - fe_firedAt e'\<bar>" using assms(1) e0 e1 a unfolding spaced_def by metis
qed

lemma spaced_record: "inv st \<Longrightarrow> spaced stale st \<Longrightarrow> \<not> running e \<Longrightarrow> spaced stale (record_fire c e st)"
  by (rule spaced_mono) (auto simp: record_look recorded_def running_clean split: if_splits)

lemma spaced_sweep:
  assumes "inv st" and "spaced stale st"
  shows "spaced stale (snd (sweep now stale' nt st))"
proof -
  obtain nt' where look: "\<And>c k. look (snd (sweep now stale' nt st)) c k =
      map_option (\<lambda>e. if stranded now stale' e then strand now nt' e else e) (look st c k)"
    using sweep_look [OF assms(1)] by blast
  show ?thesis using assms(2) by (rule spaced_mono) (auto simp: look strand_def running_def split: if_splits)
qed

lemma spaced_prune:
  assumes "inv st" and "spaced stale st"
  shows "spaced stale (snd (prune_fires t keep st))"
proof (rule spaced_mono [OF assms(2)])
  fix c k e
  assume e: "look (snd (prune_fires t keep st)) c k = Some e" "running e"
  then have "look st c k = Some e" using prune_look [OF assms(1), of t keep c k] by auto
  then show "\<exists>e0. look st c k = Some e0 \<and> running e0 \<and> fe_firedAt e0 = fe_firedAt e" using e(2) by blast
qed

end

text \<open>What happens to a log: exclusive begins, the recording of fires that are over, sweeps and pruning, in any order.\<close>

inductive fire_step ::
  "(string \<Rightarrow> fire_entry \<Rightarrow> 's \<Rightarrow> 's) \<Rightarrow> (string \<Rightarrow> fire_entry \<Rightarrow> time \<Rightarrow> 's \<Rightarrow> begin_result \<times> 's) \<Rightarrow>
   (time \<Rightarrow> time \<Rightarrow> string \<Rightarrow> 's \<Rightarrow> nat \<times> 's) \<Rightarrow> (time \<Rightarrow> int \<Rightarrow> 's \<Rightarrow> nat \<times> 's) \<Rightarrow> time \<Rightarrow> 's \<Rightarrow> 's \<Rightarrow> bool"
  for rec bg sw pr stale where
  begin_step: "fire_step rec bg sw pr stale st (snd (bg c e stale st))"
| finish_step: "\<not> running e \<Longrightarrow> fire_step rec bg sw pr stale st (rec c e st)"
| sweep_step: "fire_step rec bg sw pr stale st (snd (sw now stale nt st))"
| prune_step: "fire_step rec bg sw pr stale st (snd (pr t keep st))"

context fire_log
begin

lemma steps_spaced:
  assumes "(fire_step record_fire begin_fire sweep prune_fires stale)\<^sup>*\<^sup>* st st'" and "inv st" and "spaced stale st"
  shows "inv st' \<and> spaced stale st'"
  using assms
proof (induction rule: rtranclp_induct)
  case (step y z)
  then have y: "inv y" "spaced stale y" by auto
  from step(2) show ?case
    by cases (auto intro: y begin_inv spaced_begin record_inv spaced_record sweep_inv spaced_sweep prune_inv spaced_prune)
qed simp

lemma exclusive_fires:
  assumes "(fire_step record_fire begin_fire sweep prune_fires stale)\<^sup>*\<^sup>* st st'" and "inv st" and "\<And>c k. look st c k = None"
    and "look st' c k = Some e" and "look st' c k' = Some e'" and "k \<noteq> k'" and "running e" and "running e'"
  shows "stale \<le> \<bar>fe_firedAt e - fe_firedAt e'\<bar>"
proof -
  have "spaced stale st" using assms(3) by (simp add: spaced_def)
  then have "spaced stale st'" using steps_spaced [OF assms(1,2)] by blast
  then show ?thesis using assms(4-8) unfolding spaced_def by blast
qed

end

subsection \<open>Both logs implement it\<close>

definition mf_ok :: "memory_fires \<Rightarrow> bool" where
  "mf_ok byCron \<longleftrightarrow> distinct (map fst byCron) \<and> (\<forall>(c, fires) \<in> set byCron. well_keyed fe_fireKey fires)"

definition mf_look :: "memory_fires \<Rightarrow> string \<Rightarrow> string \<Rightarrow> fire_entry option" where
  "mf_look byCron c k = map_of (firesOf c byCron) k"

lemma firesOf_update [simp]: "firesOf c (AList.update c' f byCron) = (if c = c' then f else firesOf c byCron)"
  by (simp add: firesOf_def map_of_AList_update)

lemma mf_ok_fires: "mf_ok byCron \<Longrightarrow> well_keyed fe_fireKey (firesOf c byCron)"
  by (auto simp: mf_ok_def firesOf_def dest: map_of_SomeD split: option.splits)

lemma update_mem: "(c', f') \<in> set (AList.update c f m) \<Longrightarrow> f' = f \<or> (c', f') \<in> set m"
  by (induction m) (auto split: if_splits)

lemma mf_ok_update: "mf_ok byCron \<Longrightarrow> well_keyed fe_fireKey f \<Longrightarrow> mf_ok (AList.update c f byCron)"
  by (auto simp: mf_ok_def distinct_update dest!: update_mem)

lemma mf_ok_map:
  assumes "mf_ok byCron" and "\<And>f. well_keyed fe_fireKey f \<Longrightarrow> well_keyed fe_fireKey (g f)"
  shows "mf_ok (map (\<lambda>(c, f). (c, g f)) byCron)"
  using assms by (auto simp: mf_ok_def comp_def case_prod_beta)

lemma firesOf_map: "firesOf c (map (\<lambda>(c, f). (c, g f)) byCron) = (if map_of byCron c = None then [] else g (firesOf c byCron))"
  by (simp add: firesOf_def map_of_map split: option.splits)

lemma well_keyed_map:
  assumes "well_keyed key f" and "\<And>e. key (g e) = key e"
  shows "well_keyed key (map (\<lambda>(k, e). (k, g e)) f)"
  using assms by (auto simp: well_keyed_def comp_def case_prod_beta)

lemma map_of_deletes: "map_of (fold (\<lambda>e. AList.delete (key e)) es m) k = (if k \<in> key ` set es then None else map_of m k)"
  by (induction es arbitrary: m) (auto simp: map_of_AList_delete)

lemma well_keyed_deletes: "well_keyed key m \<Longrightarrow> well_keyed key (fold (\<lambda>e. AList.delete (key' e)) es m)"
  by (induction es arbitrary: m) (auto intro: well_keyed_delete)

lemma find_last_Some: "find_last P xs = Some x \<Longrightarrow> x \<in> set xs \<and> P x"
  unfolding find_last_def by (auto dest: find_Some_mem)

lemma find_last_None: "find_last P xs = None \<longleftrightarrow> (\<forall>x \<in> set xs. \<not> P x)"
  by (simp add: find_last_def find_None_iff_all)

interpretation mf: fire_log mf_ok mf_look "\<lambda>e. e" mf_record mf_beginExclusive mf_sweepStranded mf_pruneEnded
proof
  fix st :: memory_fires and c k e stale r st' now nt t keep
  assume ok: "mf_ok st"
  note keyed = mf_ok_fires [OF ok]
  show "fe_fireKey e = k" if "mf_look st c k = Some e" using that well_keyed_lookup [OF keyed] by (simp add: mf_look_def)
  show "mf_ok (mf_record c e st)" using keyed by (simp add: mf_record_def ok mf_ok_update well_keyed_update)
  show "mf_look (mf_record c e st) = recorded c e (mf_look st)"
    by (auto simp: fun_eq_iff mf_look_def mf_record_def recorded_def js_map_simps)
  show "mf_ok (snd (mf_beginExclusive c e stale st))"
    using keyed by (auto simp: mf_beginExclusive_def Let_def ok intro!: mf_ok_update well_keyed_update split: option.splits)
  show "mf_look st' = mf_look st \<and> (\<exists>x k. r = Some x \<and> mf_look st c k = Some x \<and> blocks e stale x)"
    if refused: "mf_beginExclusive c e stale st = (Refused r, st')"
  proof -
    obtain x where x: "find_last (blocks e stale) (sort_key fireOrder (map_values (firesOf c st))) = Some x" "r = Some x"
      and st': "st' = AList.update c (firesOf c st) st"
      using refused by (auto simp: mf_beginExclusive_def Let_def split: option.splits)
    have "x \<in> snd ` set (firesOf c st)" "blocks e stale x" using find_last_Some [OF x(1)] by simp_all
    then have "mf_look st c (fe_fireKey x) = Some x" using well_keyed_mem [OF keyed] by (simp add: mf_look_def)
    moreover have "mf_look st' = mf_look st" by (auto simp: fun_eq_iff mf_look_def st')
    ultimately show ?thesis using x(2) \<open>blocks e stale x\<close> by blast
  qed
  show "mf_look st' = recorded c e (mf_look st) \<and> (\<forall>k x. mf_look st c k = Some x \<longrightarrow> \<not> blocks e stale x)"
    if "mf_beginExclusive c e stale st = (Begun, st')"
  proof -
    have none: "find_last (blocks e stale) (sort_key fireOrder (map_values (firesOf c st))) = None"
      and st': "st' = AList.update c (AList.update (fe_fireKey e) e (firesOf c st)) st"
      using that by (auto simp: mf_beginExclusive_def Let_def split: option.splits)
    have "\<not> blocks e stale x" if "mf_look st c k = Some x" for k x
      using none map_of_SomeD [of "firesOf c st" k x] that by (force simp: find_last_None mf_look_def)
    moreover have "mf_look st' = recorded c e (mf_look st)" by (auto simp: fun_eq_iff mf_look_def st' recorded_def js_map_simps)
    ultimately show ?thesis by blast
  qed
  let ?g = "\<lambda>e. if stranded now stale e then strand now nt e else e"

  show "mf_ok (snd (mf_sweepStranded now stale nt st))"
    unfolding mf_sweepStranded_def snd_conv by (rule mf_ok_map [OF ok], rule well_keyed_map) (auto simp: strand_def)
  have "mf_look (snd (mf_sweepStranded now stale nt st)) c k = map_option ?g (mf_look st c k)" for c k
    by (simp add: mf_sweepStranded_def mf_look_def firesOf_map map_of_map firesOf_def split: option.splits)
  then show "\<exists>note'. \<forall>c k. mf_look (snd (mf_sweepStranded now stale nt st)) c k =
      map_option (\<lambda>e. if stranded now stale e then strand now note' e else e) (mf_look st c k)" by blast
  show "mf_ok (snd (mf_pruneEnded t keep st))"
    unfolding mf_pruneEnded_def snd_conv by (rule mf_ok_map [OF ok]) (rule well_keyed_deletes)
  show "mf_look (snd (mf_pruneEnded t keep st)) c k = mf_look st c k \<or>
      (mf_look (snd (mf_pruneEnded t keep st)) c k = None \<and> (\<exists>e. mf_look st c k = Some e \<and> ended_before t e))"
  proof -
    have "\<exists>e. map_of (firesOf c st) k = Some e \<and> ended_before t e" if doomed: "k \<in> fe_fireKey ` set (mf_doomed t keep (firesOf c st))"
    proof -
      obtain x where x: "x \<in> set (mf_doomed t keep (firesOf c st))" "k = fe_fireKey x" using doomed by blast
      then have "ended_before t x" "x \<in> snd ` set (firesOf c st)"
        using in_set_dropD [of x] by (fastforce simp: mf_doomed_def)+
      then show ?thesis using well_keyed_mem [OF keyed] x(2) by blast
    qed
    moreover have "mf_look (snd (mf_pruneEnded t keep st)) c k =
        (if map_of st c = None \<or> k \<in> fe_fireKey ` set (mf_doomed t keep (firesOf c st)) then None else map_of (firesOf c st) k)"
      by (simp add: mf_look_def mf_pruneEnded_def firesOf_map map_of_deletes)
    moreover have "mf_look st c k = None" if "map_of st c = None" using that by (simp add: mf_look_def firesOf_def)
    ultimately show ?thesis by (auto simp: mf_look_def)
  qed
qed simp_all

definition row_key :: "string \<times> fire_entry \<Rightarrow> string \<times> string" where
  "row_key r = (fst r, fe_fireKey (snd r))"

definition pf_ok :: "fire_rows \<Rightarrow> bool" where
  "pf_ok rows \<longleftrightarrow> distinct (map row_key rows)"

lemma has_key_iff: "has_key c k r \<longleftrightarrow> row_key r = (c, k)"
  by (auto simp: has_key_def row_key_def)

lemma pf_lookup_iff: "pf_ok rows \<Longrightarrow> pf_lookup rows c k = Some e \<longleftrightarrow> (c, e) \<in> set rows \<and> fe_fireKey e = k"
proof (induction rows)
  case (Cons r rows)
  then show ?case by (cases r) (force simp: pf_lookup_def pf_ok_def has_key_def row_key_def)
qed (simp add: pf_lookup_def)

lemma pf_ok_upsert: "pf_ok rows \<Longrightarrow> pf_ok (pf_upsert safe c e rows)"
proof -
  assume ok: "pf_ok rows"
  let ?f = "\<lambda>r. if has_key c (fe_fireKey e) r then (c, store_row safe e) else r"
  have "row_key (?f r) = row_key r" for r by (auto simp: has_key_iff row_key_def store_row_def)
  then have "map row_key (map ?f rows) = map row_key rows" by simp
  then have "pf_ok (map ?f rows)" using ok by (simp only: pf_ok_def)
  moreover have "pf_ok (rows @ [(c, store_row safe e)])" if "\<not> list_ex (has_key c (fe_fireKey e)) rows"
  proof -
    have "row_key (c, store_row safe e) = (c, fe_fireKey e)" by (simp add: row_key_def store_row_def)
    moreover have "(c, fe_fireKey e) \<notin> row_key ` set rows" using that by (force simp: list_ex_iff has_key_iff)
    ultimately show ?thesis using ok by (simp add: pf_ok_def)
  qed
  ultimately show ?thesis by (simp add: pf_upsert_def)
qed

lemma find_map_same: "(\<And>x. P (f x) = P x) \<Longrightarrow> List.find P (map f xs) = map_option f (List.find P xs)"
  by (induction xs) auto

lemma find_append: "List.find P (xs @ ys) = (case List.find P xs of None \<Rightarrow> List.find P ys | Some x \<Rightarrow> Some x)"
  by (induction xs) auto

lemma pf_lookup_upsert: "pf_lookup (pf_upsert safe c e rows) = recorded c (store_row safe e) (pf_lookup rows)"
proof (intro ext)
  fix c' k
  let ?f = "\<lambda>r. if has_key c (fe_fireKey e) r then (c, store_row safe e) else r"
  have same: "has_key c' k (?f r) = has_key c' k r" for r by (auto simp: has_key_iff row_key_def store_row_def)
  show "pf_lookup (pf_upsert safe c e rows) c' k = recorded c (store_row safe e) (pf_lookup rows) c' k"
  proof (cases "list_ex (has_key c (fe_fireKey e)) rows")
    case True
    then have "List.find (has_key c (fe_fireKey e)) rows \<noteq> None" by (auto simp: find_None_iff_all list_ex_iff)
    moreover have "List.find (has_key c' k) (map ?f rows) = map_option ?f (List.find (has_key c' k) rows)"
      by (rule find_map_same) (rule same)
    then have "pf_lookup (pf_upsert safe c e rows) c' k = map_option (\<lambda>r. snd (?f r)) (List.find (has_key c' k) rows)"
      using True by (simp only: pf_upsert_def if_True pf_lookup_def option.map_comp comp_def)
    ultimately show ?thesis
      using find_Some_mem [of "has_key c' k" rows]
      by (cases "List.find (has_key c' k) rows") (auto simp: pf_lookup_def recorded_def store_row_def has_key_def)
  next
    case False
    then have "List.find (has_key c (fe_fireKey e)) rows = None" by (auto simp: find_None_iff_all list_ex_iff)
    then show ?thesis
      using False by (auto simp: pf_upsert_def pf_lookup_def find_append recorded_def store_row_def has_key_def split: option.splits)
  qed
qed

lemma pf_lookup_map:
  assumes "\<And>r. row_key (f r) = row_key r"
  shows "pf_lookup (map f rows) c k = map_option (\<lambda>e. snd (f (c, e))) (pf_lookup rows c k)"
proof -
  have "has_key c k (f r) = has_key c k r" for r by (simp add: has_key_iff assms)
  then show ?thesis
    using find_Some_mem [of "has_key c k" rows]
    by (cases "List.find (has_key c k) rows") (auto simp: pf_lookup_def find_map_same has_key_def)
qed

lemma snd_case_list: "snd (case xs of [] \<Rightarrow> (a, b) | y # ys \<Rightarrow> (f y, d)) \<in> {b, d}"
  by (cases xs) auto

definition blocking_rows :: "string \<Rightarrow> fire_entry \<Rightarrow> time \<Rightarrow> fire_rows \<Rightarrow> fire_rows" where
  "blocking_rows c e stale rows =
     filter (\<lambda>r. fst r = c \<and> fe_fireKey (snd r) \<noteq> fe_fireKey e \<and> running (snd r) \<and> fe_firedAt (snd r) > fe_firedAt e - stale) rows"

lemma blocking_rows_iff: "row \<in> set (blocking_rows c e stale rows) \<longleftrightarrow> (\<exists>x. row = (c, x) \<and> (c, x) \<in> set rows \<and> blocks e stale x)"
  by (cases row) (auto simp: blocks_def blocking_rows_def)

lemma pf_begin_cases:
  assumes "pf_beginExclusive safe collate c e stale st = (b, st')"
  obtains (free) "blocking_rows c e stale st = []" "b = Begun" "st' = pf_upsert safe c e st"
  | (busy) row where "row \<in> set (blocking_rows c e stale st)" "b = Refused (Some (snd row))" "st' = st"
proof (cases "rev (sort_key (row_order collate) (blocking_rows c e stale st))")
  case Nil
  then have "sort_key (row_order collate) (blocking_rows c e stale st) = []" by (simp only: rev_is_Nil_conv)
  then have "set (blocking_rows c e stale st) = {}" by (metis set_empty set_sort)
  then have "blocking_rows c e stale st = []" by (simp only: set_empty)
  moreover have "(b, st') = (Begun, pf_upsert safe c e st)"
    using assms unfolding pf_beginExclusive_def Let_def blocking_rows_def [symmetric] Nil by simp
  ultimately show thesis using free by blast
next
  case (Cons row rest)
  have "row \<in> set (rev (sort_key (row_order collate) (blocking_rows c e stale st)))" unfolding Cons by simp
  then have "row \<in> set (blocking_rows c e stale st)" by simp
  moreover have "(b, st') = (Refused (Some (snd row)), st)"
    using assms unfolding pf_beginExclusive_def Let_def blocking_rows_def [symmetric] Cons by simp
  ultimately show thesis using busy by blast
qed

lemma pf_begin_state: "snd (pf_beginExclusive safe collate c e stale st) \<in> {pf_upsert safe c e st, st}"
  unfolding pf_beginExclusive_def Let_def by (rule snd_case_list)

interpretation pf: fire_log pf_ok pf_lookup "store_row safe" "pf_upsert safe" "pf_beginExclusive safe collate" "pf_sweepStranded safe" "pf_pruneEnded collate"
  for safe collate :: "string \<Rightarrow> string"
proof
  fix st :: fire_rows and c k e stale r st' now nt t keep
  show "fe_fireKey (store_row safe e) = fe_fireKey e" "fe_firedAt (store_row safe e) = fe_firedAt e"
    "fe_status (store_row safe e) = fe_status e" "fe_endedAt (store_row safe e) = fe_endedAt e" by (simp_all add: store_row_def)
  assume ok: "pf_ok st"
  show "fe_fireKey e = k" if "pf_lookup st c k = Some e" using that pf_lookup_iff [OF ok] by blast
  show "pf_ok (pf_upsert safe c e st)" using ok by (rule pf_ok_upsert)
  show "pf_lookup (pf_upsert safe c e st) = recorded c (store_row safe e) (pf_lookup st)" by (rule pf_lookup_upsert)
  show "pf_ok (snd (pf_beginExclusive safe collate c e stale st))"
    using ok pf_ok_upsert [OF ok, of safe c e] pf_begin_state [of safe collate c e stale st] by auto
  show "pf_lookup st' = pf_lookup st \<and> (\<exists>x k. r = Some x \<and> pf_lookup st c k = Some x \<and> blocks e stale x)"
    if refused: "pf_beginExclusive safe collate c e stale st = (Refused r, st')"
    using refused
  proof (cases rule: pf_begin_cases)
    case (busy row)
    then obtain x where "row = (c, x)" "(c, x) \<in> set st" "blocks e stale x" by (auto simp: blocking_rows_iff)
    then show ?thesis using busy pf_lookup_iff [OF ok, of c "fe_fireKey x" x] by auto
  qed simp
  show "pf_lookup st' = recorded c (store_row safe e) (pf_lookup st) \<and> (\<forall>k x. pf_lookup st c k = Some x \<longrightarrow> \<not> blocks e stale x)"
    if begun: "pf_beginExclusive safe collate c e stale st = (Begun, st')"
    using begun
  proof (cases rule: pf_begin_cases)
    case free
    then have "\<not> blocks e stale x" if "(c, x) \<in> set st" for x
      using that blocking_rows_iff [of "(c, x)" c e stale st] by auto
    then show ?thesis using free pf_lookup_iff [OF ok] by (auto simp: pf_lookup_upsert)
  qed simp
  let ?hit = "\<lambda>r. running (snd r) \<and> fe_firedAt (snd r) \<le> now - stale"
  let ?g = "\<lambda>r. if ?hit r then (fst r, strand now (safe nt) (snd r)) else r"
  have key: "row_key (?g r) = row_key r" for r by (simp add: row_key_def strand_def)
  then have keys: "map row_key (map ?g st) = map row_key st" by simp
  show "pf_ok (snd (pf_sweepStranded safe now stale nt st))" using ok keys by (simp only: pf_ok_def pf_sweepStranded_def Let_def snd_conv)
  have "pf_lookup (snd (pf_sweepStranded safe now stale nt st)) c k =
      map_option (\<lambda>e. if stranded now stale e then strand now (safe nt) e else e) (pf_lookup st c k)" for c k
  proof -
    have "snd (?g (c, x)) = (if stranded now stale x then strand now (safe nt) x else x)" for x
      by (auto simp: stranded_def)
    then show ?thesis unfolding pf_sweepStranded_def Let_def snd_conv pf_lookup_map [OF key] by (intro arg_cong2 [where f = map_option]) auto
  qed
  then show "\<exists>note'. \<forall>c k. pf_lookup (snd (pf_sweepStranded safe now stale nt st)) c k =
      map_option (\<lambda>e. if stranded now stale e then strand now note' e else e) (pf_lookup st c k)" by blast
  show ok': "pf_ok (snd (pf_pruneEnded collate t keep st))"
    using ok by (simp add: pf_ok_def pf_pruneEnded_def distinct_map_filter)
  show "pf_lookup (snd (pf_pruneEnded collate t keep st)) c k = pf_lookup st c k \<or>
      (pf_lookup (snd (pf_pruneEnded collate t keep st)) c k = None \<and> (\<exists>e. pf_lookup st c k = Some e \<and> ended_before t e))"
  proof (cases "pf_lookup st c k")
    case None
    then have "\<And>x. \<not> ((c, x) \<in> set st \<and> fe_fireKey x = k)" using pf_lookup_iff [OF ok] by (metis option.distinct(1))
    then have "pf_lookup (snd (pf_pruneEnded collate t keep st)) c k \<noteq> Some x" for x
      unfolding pf_lookup_iff [OF ok'] by (auto simp: pf_pruneEnded_def)
    then show ?thesis using None by (cases "pf_lookup (snd (pf_pruneEnded collate t keep st)) c k") auto
  next
    case (Some x)
    then have x: "(c, x) \<in> set st" "fe_fireKey x = k" using pf_lookup_iff [OF ok] by auto
    show ?thesis
    proof (cases "pf_pruned collate t keep st (c, x)")
      case False
      then have "pf_lookup (snd (pf_pruneEnded collate t keep st)) c k = Some x"
        unfolding pf_lookup_iff [OF ok'] using x by (simp add: pf_pruneEnded_def)
      then show ?thesis using Some by simp
    next
      case True
      have "y = x" if "(c, y) \<in> set st" "fe_fireKey y = k" for y
        using that x pf_lookup_iff [OF ok] by (metis option.inject)
      then have "pf_lookup (snd (pf_pruneEnded collate t keep st)) c k \<noteq> Some y" for y
        unfolding pf_lookup_iff [OF ok'] using True by (auto simp: pf_pruneEnded_def)
      moreover have "ended_before t x" using True by (auto simp: pf_pruned_def ended_before_def split: option.splits)
      ultimately show ?thesis using Some by (cases "pf_lookup (snd (pf_pruneEnded collate t keep st)) c k") auto
    qed
  qed
qed

text \<open>C26: A cron has one fire at a time. Starting from an empty log, after any sequence of exclusive begins, recordings of fires that
  are over, sweeps and prunings, any two fires of a cron that are still marked running were begun at least the staleness
  limit apart; in the in-memory log and in the Postgres log alike.\<close>

theorem one_fire_at_a_time:
  assumes "(fire_step mf_record mf_beginExclusive mf_sweepStranded mf_pruneEnded stale)\<^sup>*\<^sup>* [] mem"
    and "(fire_step (pf_upsert safe) (pf_beginExclusive safe collate) (pf_sweepStranded safe) (pf_pruneEnded collate) stale)\<^sup>*\<^sup>* [] rows"
    and "mf_look mem c k = Some e \<and> mf_look mem c k' = Some e' \<or> pf_lookup rows c k = Some e \<and> pf_lookup rows c k' = Some e'"
    and "k \<noteq> k'" and "running e" and "running e'"
  shows "stale \<le> \<bar>fe_firedAt e - fe_firedAt e'\<bar>"
  using assms(3)
proof
  assume m: "mf_look mem c k = Some e \<and> mf_look mem c k' = Some e'"
  show ?thesis
    by (rule mf.exclusive_fires [OF assms(1) _ _ conjunct1 [OF m] conjunct2 [OF m] assms(4-6)])
      (simp_all add: mf_ok_def mf_look_def firesOf_def)
next
  assume p: "pf_lookup rows c k = Some e \<and> pf_lookup rows c k' = Some e'"
  show ?thesis
    by (rule pf.exclusive_fires [OF assms(2) _ _ conjunct1 [OF p] conjunct2 [OF p] assms(4-6)])
      (simp_all add: pf_ok_def pf_lookup_def)
qed

definition demo_fire :: "string \<Rightarrow> time \<Rightarrow> fire_entry" where
  "demo_fire key t = \<lparr>fe_fireKey = key, fe_threadRef = ''cron:c:fire:x'', fe_firedAt = t, fe_scheduledAt = None,
     fe_status = Some ''running'', fe_endedAt = None, fe_note = None, fe_reply = None, fe_sessionId = None\<rparr>"

definition demo_log :: memory_fires where
  "demo_log = snd (mf_beginExclusive ''c'' (demo_fire ''b'' 100) 50 (snd (mf_beginExclusive ''c'' (demo_fire ''a'' 10) 50 [])))"

theorem one_fire_at_a_time_witness:
  "mf_look demo_log ''c'' ''a'' = Some (demo_fire ''a'' 10) \<and> mf_look demo_log ''c'' ''b'' = Some (demo_fire ''b'' 100) \<and>
   50 \<le> \<bar>fe_firedAt (demo_fire ''a'' 10) - fe_firedAt (demo_fire ''b'' 100)\<bar>"
proof -
  have mem: "(fire_step mf_record mf_beginExclusive mf_sweepStranded mf_pruneEnded 50)\<^sup>*\<^sup>* [] demo_log"
    unfolding demo_log_def by (rule rtranclp.rtrancl_into_rtrancl, rule r_into_rtranclp) (rule fire_step.begin_step)+
  have look: "mf_look demo_log ''c'' ''a'' = Some (demo_fire ''a'' 10) \<and> mf_look demo_log ''c'' ''b'' = Some (demo_fire ''b'' 100)"
    by code_simp
  have "50 \<le> \<bar>fe_firedAt (demo_fire ''a'' 10) - fe_firedAt (demo_fire ''b'' 100)\<bar>"
    by (rule one_fire_at_a_time [OF mem rtranclp.rtrancl_refl disjI1 [OF look]]) (simp_all add: demo_fire_def running_def)
  with look show ?thesis by blast
qed

end
