(* ===== verification/Cron_Store.thy ===== *)
theory Cron_Store
  imports Loop_Store Cron_Schedule Cron_Fires
begin

text \<open>
  The store of crons, \<^verbatim>\<open>src/src/cron/cron-store.ts\<close>, over the in-memory map and the in-memory fire log. A patch merged into a
  cron is an update of its record, in which an absent property is \<open>None\<close>; the branches for a backing map without
  \<open>update\<close>, which neither implementation of the map has, are left out. A schedule that the checks
  refuse makes an operation throw before it writes, the value \<open>Inl\<close>. The cron library, the table of
  time zones, the digest and the JSON images of nested records are parameters.
\<close>

subsection \<open>Data\<close>

record cron_fire_note =
  fn_text :: string
  fn_at :: time
  fn_by :: "string option"

record cron = trigger_base +
  cn_schedule :: cron_schedule
  cn_nextFireAt :: "time option"
  cn_lastAttemptAt :: "time option"
  cn_deferUntil :: "time option"
  cn_title :: "string option"
  cn_archived :: "bool option"
  cn_action :: "string option"
  cn_message :: "string option"
  cn_loopId :: "string option"
  cn_runAs :: "run_as option"
  cn_members :: "principal list option"
  cn_unattendedGrants :: "string list option"
  cn_fireLog :: "fire_entry list option"
  cn_lastFireNote :: "cron_fire_note option"

record create_cron_input = create_trigger_input +
  cci_enabled :: "bool option"
  cci_schedule :: cron_schedule
  cci_title :: "string option"
  cci_action :: "string option"
  cci_message :: "string option"
  cci_runAs :: "run_as option"
  cci_members :: "principal list option"
  cci_unattendedGrants :: "string list option"
  cci_loopId :: "string option"

record cron_patch =
  cpa_title :: "string option"
  cpa_action :: "string option"
  cpa_message :: "string option"
  cpa_schedule :: "cron_schedule option"
  cpa_enabled :: "bool option"
  cpa_archived :: "bool option"
  cpa_destination :: "destination option"
  cpa_members :: "principal list option"
  cpa_runAs :: "run_as option"
  cpa_unattendedGrants :: "string list option"

record cron_store =
  cr_backing :: "cron js_map"
  cr_fires :: memory_fires
  cr_staleRunningMs :: time

datatype cron_error = Escalation | BadSchedule schedule_error

definition DEFAULT_FIRE_RUNNING_STALE_MS :: time where "DEFAULT_FIRE_RUNNING_STALE_MS = 24 * 60 * 60 * 1000"
definition STRANDED_FIRE_NOTE :: string where
  "STRANDED_FIRE_NOTE = ''fire never completed '' @ map char_of [0xE2 :: nat, 0x80, 0x94] @ '' stranded by a restart or crash''"
definition FIRE_RETENTION_MS :: time where "FIRE_RETENTION_MS = 90 * 24 * 60 * 60 * 1000"
definition FIRE_RETENTION_KEEP_PER_CRON :: int where "FIRE_RETENTION_KEEP_PER_CRON = 100"

definition new_cron_store :: "time option \<Rightarrow> cron_store" where
  "new_cron_store staleRunningMs =
     \<lparr>cr_backing = [], cr_fires = [],
      cr_staleRunningMs = (case staleRunningMs of None \<Rightarrow> DEFAULT_FIRE_RUNNING_STALE_MS | Some ms \<Rightarrow> ms)\<rparr>"

definition isDeferred :: "cron \<Rightarrow> time \<Rightarrow> bool" where
  "isDeferred c now \<longleftrightarrow> (case cn_deferUntil c of None \<Rightarrow> False | Some t \<Rightarrow> now < t)"

definition normalizeTitle :: "string option \<Rightarrow> string option" where
  "normalizeTitle title =
     (case title of
        None \<Rightarrow> None
      | Some t \<Rightarrow> let trimmed = collapse (trim t) in
          if trimmed = [] then None else Some (if length trimmed > 80 then take 79 trimmed @ ''...'' else trimmed))"

definition modify_cron :: "string \<Rightarrow> (cron \<Rightarrow> cron) \<Rightarrow> cron_store \<Rightarrow> cron_store" where
  "modify_cron i f st = st\<lparr>cr_backing := snd (mm_update i f (cr_backing st))\<rparr>"

subsection \<open>Creating and editing\<close>

definition text_list :: "string list \<Rightarrow> json" where
  "text_list xs = JArr (map JStr xs)"

fun run_as_text :: "run_as \<Rightarrow> string" where
  "run_as_text RunAsOwner = ''owner''"
| "run_as_text RunAsScopeFloor = ''scopeFloor''"
| "run_as_text RunAsScopeShared = ''scopeShared''"

definition cron_content_id ::
  "(string \<Rightarrow> string) \<Rightarrow> (cron_schedule \<Rightarrow> json) \<Rightarrow> (destination \<Rightarrow> json) \<Rightarrow> (principal list \<Rightarrow> json) \<Rightarrow> create_cron_input \<Rightarrow>
     string option \<Rightarrow> string" where
  "cron_content_id sha scheduleJson destinationJson membersJson input title =
     hashId sha
       ([contentPart (Some (JStr (ct_owner input))), contentPart (Some (JStr (ct_ownerScopeId input))),
         contentPart (Some (scheduleJson (cci_schedule input))), contentPart (map_option JStr (cci_action input)),
         contentPart (map_option JStr (cci_message input)), contentPart (map_option destinationJson (ct_destination input)),
         contentPart (map_option (\<lambda>r. JStr (run_as_text r)) (cci_runAs input)),
         contentPart (map_option membersJson (cci_members input)),
         contentPart (map_option text_list (cci_unattendedGrants input)), contentPart (map_option JStr title)] @
        (if cci_loopId input \<noteq> None then [contentPart (map_option JStr (cci_loopId input))] else [])) 16"

definition cron_candidate :: "create_cron_input \<Rightarrow> cron_schedule \<Rightarrow> time option \<Rightarrow> string option \<Rightarrow> time \<Rightarrow> string \<Rightarrow> cron" where
  "cron_candidate input schedule nextFireAt title now i =
     (trigger_base.extend (buildTriggerBase (create_trigger_input.truncate input) i now)
       (cron.fields schedule nextFireAt None None title None (cci_action input) (cci_message input)
          (if truthy (cci_loopId input) then cci_loopId input else None) (cci_runAs input) (cci_members input)
          (cci_unattendedGrants input) None None))\<lparr>tb_enabled := cci_enabled input \<noteq> Some False\<rparr>"

definition create_cron ::
  "(string \<Rightarrow> string option) \<Rightarrow> (string \<Rightarrow> bool) \<Rightarrow> croner \<Rightarrow> (create_cron_input \<Rightarrow> string option \<Rightarrow> string) \<Rightarrow> create_cron_input \<Rightarrow>
     time \<Rightarrow> cron_store \<Rightarrow> (cron_error + cron) \<times> cron_store" where
  "create_cron links knownZone croner contentIdOf input now st =
     (if \<not> assertNoEscalation links (ct_owner input) (ct_createdBy input) (ct_ownerConsentedAt input) then (Inl Escalation, st)
      else
        let title = normalizeTitle (cci_title input) in
        case normalizeSchedule knownZone croner (cci_schedule input) now DEFAULT_CRON_TIMEZONE of
          Inl e \<Rightarrow> (Inl (BadSchedule e), st)
        | Inr (schedule, nextFireAt) \<Rightarrow>
            let (c, backing) = createDeduped (contentIdOf input title) (cron_candidate input schedule nextFireAt title now) (cr_backing st)
            in (Inr c, st\<lparr>cr_backing := backing\<rparr>))"

definition get_cron :: "string \<Rightarrow> cron_store \<Rightarrow> cron option" where
  "get_cron i st = mm_get i (cr_backing st)"

definition list_crons :: "cron_store \<Rightarrow> cron list" where
  "list_crons st = mm_all (cr_backing st)"

definition patch_cron :: "cron_patch \<Rightarrow> (cron_schedule \<times> time option) option \<Rightarrow> cron \<Rightarrow> cron" where
  "patch_cron p normalized c =
     c\<lparr>cn_title := (if cpa_title p \<noteq> None then normalizeTitle (cpa_title p) else cn_title c),
       cn_action := (if cpa_action p \<noteq> None then cpa_action p else cn_action c),
       cn_message := (if cpa_message p \<noteq> None then cpa_message p else cn_message c),
       cn_schedule := (case normalized of None \<Rightarrow> cn_schedule c | Some (s, n) \<Rightarrow> s),
       cn_nextFireAt := (case normalized of None \<Rightarrow> cn_nextFireAt c | Some (s, n) \<Rightarrow> n),
       tb_enabled := (if cpa_archived p = Some True then False else case cpa_enabled p of None \<Rightarrow> tb_enabled c | Some b \<Rightarrow> b),
       cn_archived := (if cpa_archived p \<noteq> None then cpa_archived p else cn_archived c),
       tb_destination := (if cpa_destination p \<noteq> None then cpa_destination p else tb_destination c),
       cn_members := (if cpa_members p \<noteq> None then cpa_members p else cn_members c),
       cn_runAs := (if cpa_runAs p \<noteq> None then cpa_runAs p else cn_runAs c),
       cn_unattendedGrants := (if cpa_unattendedGrants p \<noteq> None then cpa_unattendedGrants p else cn_unattendedGrants c)\<rparr>"

definition update_cron ::
  "(string \<Rightarrow> bool) \<Rightarrow> croner \<Rightarrow> string \<Rightarrow> cron_patch \<Rightarrow> time \<Rightarrow> cron_store \<Rightarrow> cron option schedule_result \<times> cron_store" where
  "update_cron knownZone croner i p now st =
     (case (case cpa_schedule p of
              None \<Rightarrow> Inr None
            | Some s \<Rightarrow> and_then (normalizeSchedule knownZone croner s now DEFAULT_CRON_TIMEZONE) (\<lambda>n. Inr (Some n))) of
        Inl e \<Rightarrow> (Inl e, st)
      | Inr normalized \<Rightarrow>
          let (c, backing) = mm_update i (patch_cron p normalized) (cr_backing st) in (Inr c, st\<lparr>cr_backing := backing\<rparr>))"

definition delete_cron :: "string \<Rightarrow> cron_store \<Rightarrow> cron_store" where
  "delete_cron i st = st\<lparr>cr_backing := mm_delete i (cr_backing st)\<rparr>"

definition setEnabled :: "string \<Rightarrow> bool \<Rightarrow> cron_store \<Rightarrow> cron_store" where
  "setEnabled i enabled st =
     modify_cron i (\<lambda>c. c\<lparr>tb_enabled := enabled, cn_archived := (if enabled then Some False else cn_archived c)\<rparr>) st"

definition setDestination :: "string \<Rightarrow> destination option \<Rightarrow> cron_store \<Rightarrow> cron_store" where
  "setDestination i d st = modify_cron i (\<lambda>c. c\<lparr>tb_destination := d\<rparr>) st"

definition setRecipientConsent :: "string \<Rightarrow> recipient_consent \<Rightarrow> cron_store \<Rightarrow> cron_store" where
  "setRecipientConsent i consent st = st\<lparr>cr_backing := setTriggerRecipientConsent i consent (cr_backing st)\<rparr>"

subsection \<open>The fire log of a cron\<close>

definition beginFire :: "string \<Rightarrow> fire_entry \<Rightarrow> bool \<Rightarrow> cron_store \<Rightarrow> begin_result \<times> cron_store" where
  "beginFire i entry exclusive st =
     (if get_cron i st = None then (Refused None, st)
      else if exclusive then
        (let (r, fires) = mf_beginExclusive i entry (cr_staleRunningMs st) (cr_fires st) in (r, st\<lparr>cr_fires := fires\<rparr>))
      else (Begun, st\<lparr>cr_fires := mf_record i entry (cr_fires st)\<rparr>))"

definition sweepStrandedFires :: "time \<Rightarrow> cron_store \<Rightarrow> nat \<times> cron_store" where
  "sweepStrandedFires now st =
     (let (n, fires) = mf_sweepStranded now (cr_staleRunningMs st) STRANDED_FIRE_NOTE (cr_fires st) in (n, st\<lparr>cr_fires := fires\<rparr>))"

definition pruneFires :: "time \<Rightarrow> cron_store \<Rightarrow> nat \<times> cron_store" where
  "pruneFires now st =
     (let (n, fires) = mf_pruneEnded (now - FIRE_RETENTION_MS) FIRE_RETENTION_KEEP_PER_CRON (cr_fires st) in (n, st\<lparr>cr_fires := fires\<rparr>))"

definition recordFire :: "string \<Rightarrow> fire_entry \<Rightarrow> cron_store \<Rightarrow> cron_store" where
  "recordFire i entry st = st\<lparr>cr_fires := mf_record i entry (cr_fires st)\<rparr>"

fun backfill_loop :: "(string \<times> cron) list \<Rightarrow> cron_store \<Rightarrow> nat \<times> cron_store" where
  "backfill_loop [] st = (0, st)"
| "backfill_loop ((i, c) # rest) st =
     (case cn_fireLog c of
        None \<Rightarrow> backfill_loop rest st
      | Some logged \<Rightarrow>
          let st = (if logged = [] then st else st\<lparr>cr_fires := mf_backfill i logged (cr_fires st)\<rparr>);
              (n, st) = backfill_loop rest (modify_cron i (\<lambda>c. c\<lparr>cn_fireLog := None\<rparr>) st)
          in (length logged + n, st))"

definition backfillFires :: "cron_store \<Rightarrow> nat \<times> cron_store" where
  "backfillFires st = backfill_loop (sortedEntries (cr_backing st)) st"

datatype note_outcome = Applied | Superseded | Missing

definition note_applies :: "cron_fire_note \<Rightarrow> cron \<Rightarrow> bool" where
  "note_applies n c \<longleftrightarrow> (case cn_lastFireNote c of None \<Rightarrow> True | Some l \<Rightarrow> \<not> fn_at l > fn_at n)"

definition setFireNote :: "string \<Rightarrow> cron_fire_note \<Rightarrow> cron_store \<Rightarrow> note_outcome \<times> cron_store" where
  "setFireNote i n st =
     (case get_cron i st of
        None \<Rightarrow> (Missing, st)
      | Some c \<Rightarrow> (if note_applies n c then Applied else Superseded,
          modify_cron i (\<lambda>c. if note_applies n c then c\<lparr>cn_lastFireNote := Some n\<rparr> else c) st))"

subsection \<open>Slots\<close>

definition next_slot :: "(string \<Rightarrow> bool) \<Rightarrow> croner \<Rightarrow> cron \<Rightarrow> time option schedule_result" where
  "next_slot knownZone croner c =
     recoverNextFireAt knownZone croner (cn_schedule c) (tb_createdAt c) (tb_lastFiredAt c) (cn_nextFireAt c)"

definition inactive :: "cron \<Rightarrow> bool" where
  "inactive c \<longleftrightarrow> cn_archived c = Some True \<or> \<not> tb_enabled c"

definition markFired ::
  "(string \<Rightarrow> bool) \<Rightarrow> croner \<Rightarrow> string \<Rightarrow> time \<Rightarrow> time option \<Rightarrow> cron_store \<Rightarrow> unit schedule_result \<times> cron_store" where
  "markFired knownZone croner i firedAt scheduledAt st =
     (case get_cron i st of
        None \<Rightarrow> (Inr (), st)
      | Some c \<Rightarrow>
          let advanceFrom = (if isCalendarSchedule (cn_schedule c) then (case scheduledAt of Some s \<Rightarrow> s | None \<Rightarrow> firedAt) else firedAt) in
          case advanceNextFireAt knownZone croner (cn_schedule c) advanceFrom of
            Inl e \<Rightarrow> (Inl e, st)
          | Inr next \<Rightarrow>
              (Inr (), modify_cron i (\<lambda>c. c\<lparr>tb_lastFiredAt := Some firedAt, cn_nextFireAt := next, cn_deferUntil := None\<rparr>) st))"

definition claim_transform :: "(string \<Rightarrow> bool) \<Rightarrow> croner \<Rightarrow> time \<Rightarrow> time \<Rightarrow> cron \<Rightarrow> (bool \<times> cron) schedule_result" where
  "claim_transform knownZone croner scheduledAt claimedAt c =
     (if inactive c then Inr (False, c)
      else and_then (next_slot knownZone croner c) (\<lambda>slot.
        if slot \<noteq> Some scheduledAt then Inr (False, c)
        else
          let advanceFrom = (if isCalendarSchedule (cn_schedule c) then scheduledAt else claimedAt) in
          and_then (advanceNextFireAt knownZone croner (cn_schedule c) advanceFrom) (\<lambda>next.
          Inr (True, c\<lparr>tb_lastFiredAt := Some claimedAt, cn_nextFireAt := next, cn_deferUntil := None\<rparr>))))"

definition claimSlot ::
  "(string \<Rightarrow> bool) \<Rightarrow> croner \<Rightarrow> string \<Rightarrow> time \<Rightarrow> time \<Rightarrow> cron_store \<Rightarrow> bool schedule_result \<times> cron_store" where
  "claimSlot knownZone croner i scheduledAt claimedAt st =
     (case get_cron i st of
        None \<Rightarrow> (Inr False, st)
      | Some c \<Rightarrow>
          case claim_transform knownZone croner scheduledAt claimedAt c of
            Inl e \<Rightarrow> (Inl e, st)
          | Inr (claimed, c') \<Rightarrow> (Inr claimed, modify_cron i (\<lambda>_. c') st))"

definition unclaimSlot :: "string \<Rightarrow> time \<Rightarrow> time \<Rightarrow> time option \<Rightarrow> cron_store \<Rightarrow> cron_store" where
  "unclaimSlot i scheduledAt claimedAt priorLastFiredAt st =
     modify_cron i (\<lambda>c. if tb_lastFiredAt c \<noteq> Some claimedAt then c
                        else c\<lparr>tb_lastFiredAt := priorLastFiredAt, cn_nextFireAt := Some scheduledAt\<rparr>) st"

definition markAttempted :: "string \<Rightarrow> time \<Rightarrow> cron_store \<Rightarrow> cron_store" where
  "markAttempted i attemptedAt st = modify_cron i (\<lambda>c. c\<lparr>cn_lastAttemptAt := Some attemptedAt\<rparr>) st"

definition defer_cron :: "string \<Rightarrow> time \<Rightarrow> cron_store \<Rightarrow> cron_store" where
  "defer_cron i until st = modify_cron i (\<lambda>c. c\<lparr>cn_deferUntil := Some until\<rparr>) st"

fun due_loop :: "(string \<Rightarrow> bool) \<Rightarrow> croner \<Rightarrow> time \<Rightarrow> cron list \<Rightarrow> (cron \<times> time) list schedule_result" where
  "due_loop knownZone croner now [] = Inr []"
| "due_loop knownZone croner now (c # cs) =
     (if inactive c \<or> isDeferred c now then due_loop knownZone croner now cs
      else and_then (next_slot knownZone croner c) (\<lambda>slot.
        and_then (due_loop knownZone croner now cs) (\<lambda>rest.
        Inr (case slot of
               Some s \<Rightarrow> if now \<ge> s then (c\<lparr>cn_nextFireAt := Some s\<rparr>, s) # rest else rest
             | None \<Rightarrow> rest))))"

definition due :: "(string \<Rightarrow> bool) \<Rightarrow> croner \<Rightarrow> time \<Rightarrow> cron_store \<Rightarrow> (cron \<times> time) list schedule_result" where
  "due knownZone croner now st = due_loop knownZone croner now (list_crons st)"

subsection \<open>A slot is claimed once\<close>

text \<open>What is used of the cron library: the next run after a time is later than that time.\<close>

definition croner_future :: "croner \<Rightarrow> bool" where
  "croner_future croner \<longleftrightarrow> (\<forall>expression tz after t. croner expression tz after = Inr (Some t) \<longrightarrow> after < t)"

definition later_than :: "(string \<Rightarrow> bool) \<Rightarrow> croner \<Rightarrow> time \<Rightarrow> cron \<Rightarrow> bool" where
  "later_than knownZone croner s c \<longleftrightarrow> (\<forall>t. next_slot knownZone croner c = Inr (Some t) \<longrightarrow> s < t)"

definition same_slot :: "cron \<Rightarrow> cron \<Rightarrow> bool" where
  "same_slot c d \<longleftrightarrow> cn_schedule d = cn_schedule c \<and> tb_createdAt d = tb_createdAt c \<and> tb_lastFiredAt d = tb_lastFiredAt c \<and>
     cn_nextFireAt d = cn_nextFireAt c"

definition past_slot :: "(string \<Rightarrow> bool) \<Rightarrow> croner \<Rightarrow> string \<Rightarrow> time \<Rightarrow> cron_store \<Rightarrow> bool" where
  "past_slot knownZone croner i s st \<longleftrightarrow> (\<exists>c. get_cron i st = Some c \<and> later_than knownZone croner s c)"

lemma same_slot_later: "same_slot c d \<Longrightarrow> later_than kz cr s c \<Longrightarrow> later_than kz cr s d"
  by (simp add: same_slot_def later_than_def next_slot_def)

lemma nextCalendar_later: "croner_future cr \<Longrightarrow> nextCalendarFireAfter kz cr s a = Inr (Some t) \<Longrightarrow> a < t"
proof -
  assume future: "croner_future cr" and "nextCalendarFireAfter kz cr s a = Inr (Some t)"
  then obtain e tz where "(case cr e tz a of Inl e \<Rightarrow> Inl (CronerRefused e) | Inr next \<Rightarrow> Inr next) = Inr (Some t)"
    by (auto simp: nextCalendarFireAfter_def and_then_Inr split: option.splits if_splits)
  then show "a < t" using future by (cases "cr e tz a") (auto simp: croner_future_def)
qed

lemma advance_later: "croner_future cr \<Longrightarrow> advanceNextFireAt kz cr s a = Inr (Some t) \<Longrightarrow> a < t"
  by (auto simp: advanceNextFireAt_def and_then_Inr nextCalendar_later dest: finitePositiveMs_num split: if_splits)

lemma advanced_later:
  assumes "croner_future cr" and "advanceNextFireAt kz cr (cn_schedule c) a = Inr n" and "s \<le> a" and "s \<le> f"
  shows "later_than kz cr s (c\<lparr>tb_lastFiredAt := Some f, cn_nextFireAt := n, cn_deferUntil := None\<rparr>)"
proof (cases n)
  case (Some t)
  then have "s < t" using advance_later [OF assms(1)] assms(2,3) by force
  then show ?thesis
    using Some by (auto simp: later_than_def next_slot_def recoverNextFireAt_def finiteEpochMs_def dest: safe_integer_bound
      simp: num_inj split: option.splits)
next
  case None
  have "t > f" if "recoverNextFireAt kz cr (cn_schedule c) (tb_createdAt c) (Some f) None = Inr (Some t)" for t
    using that by (auto simp: recoverNextFireAt_def and_then_Inr nextCalendar_later [OF assms(1)]
      dest: finitePositiveMs_num split: if_splits)
  then show ?thesis using None assms(4) by (force simp: later_than_def next_slot_def)
qed

lemma get_modify_cron: "get_cron j (modify_cron i f st) = (if j = i then map_option f (get_cron i st) else get_cron j st)"
  by (simp add: get_cron_def modify_cron_def mm_get_def mm_update_def map_of_AList_update split: option.split)

lemma get_cr_fires [simp]: "get_cron i (st\<lparr>cr_fires := fs\<rparr>) = get_cron i st"
  by (simp add: get_cron_def)

lemma past_slot_modify:
  assumes "past_slot kz cr i s st" and "\<And>c. later_than kz cr s c \<Longrightarrow> later_than kz cr s (f c)"
  shows "past_slot kz cr i s (modify_cron j f st)"
  using assms by (auto simp: past_slot_def get_modify_cron)

lemma past_slot_keep:
  assumes "past_slot kz cr i s st" and "\<And>c. same_slot c (f c)"
  shows "past_slot kz cr i s (modify_cron j f st)"
  using past_slot_modify [OF assms(1)] same_slot_later [OF assms(2)] by blast

lemma past_slot_frame: "past_slot kz cr i s st \<Longrightarrow> get_cron i st' = get_cron i st \<Longrightarrow> past_slot kz cr i s st'"
  by (simp add: past_slot_def)

lemma past_slot_backfill: "past_slot kz cr i s st \<Longrightarrow> past_slot kz cr i s (snd (backfill_loop es st))"
proof (induction es st rule: backfill_loop.induct)
  case (2 j c rest st)
  show ?case
  proof (cases "cn_fireLog c")
    case (Some logged)
    let ?st = "if logged = [] then st else st\<lparr>cr_fires := mf_backfill j logged (cr_fires st)\<rparr>"
    have "past_slot kz cr i s ?st" using 2(3) by (auto intro: past_slot_frame)
    then have "past_slot kz cr i s (modify_cron j (\<lambda>c. c\<lparr>cn_fireLog := None\<rparr>) ?st)"
      by (rule past_slot_keep) (simp add: same_slot_def)
    from 2(2) [OF Some refl this] show ?thesis using Some by (simp add: Let_def split_def)
  qed (use 2 in simp)
qed simp

text \<open>Everything callers do to a store after slot \<open>s\<close> of cron \<open>i\<close> was claimed, short of replacing its schedule, deleting it or
  taking the claim back: any call concerning other crons; claims made when their slot is due; records of
  later fires; edits, notes, attempts, deferrals; the withdrawal of the claim of a later slot; the upkeep of the fire log.\<close>

inductive cron_step :: "(string \<Rightarrow> bool) \<Rightarrow> croner \<Rightarrow> string \<Rightarrow> time \<Rightarrow> cron_store \<Rightarrow> cron_store \<Rightarrow> bool"
  for kz cr i s where
  Claim: "s' \<le> f \<Longrightarrow> cron_step kz cr i s st (snd (claimSlot kz cr j s' f st))"
| Unclaim: "j = i \<longrightarrow> s < s' \<Longrightarrow> cron_step kz cr i s st (unclaimSlot j s' f prior st)"
| Fired: "j = i \<longrightarrow> s \<le> f \<and> (\<forall>s'. sched = Some s' \<longrightarrow> s \<le> s') \<Longrightarrow> cron_step kz cr i s st (snd (markFired kz cr j f sched st))"
| Create: "cron_step kz cr i s st (snd (create_cron links kz cr idOf input now st))"
| Update: "j = i \<longrightarrow> cpa_schedule p = None \<Longrightarrow> cron_step kz cr i s st (snd (update_cron kz cr j p now st))"
| Delete: "j \<noteq> i \<Longrightarrow> cron_step kz cr i s st (delete_cron j st)"
| Enabled: "cron_step kz cr i s st (setEnabled j b st)"
| Destination: "cron_step kz cr i s st (setDestination j d st)"
| Consent: "cron_step kz cr i s st (setRecipientConsent j consent st)"
| Attempted: "cron_step kz cr i s st (markAttempted j f st)"
| Deferred: "cron_step kz cr i s st (defer_cron j f st)"
| Noted: "cron_step kz cr i s st (snd (setFireNote j n st))"
| Begin: "cron_step kz cr i s st (snd (beginFire j entry exclusive st))"
| Record: "cron_step kz cr i s st (recordFire j entry st)"
| Sweep: "cron_step kz cr i s st (snd (sweepStrandedFires now st))"
| Prune: "cron_step kz cr i s st (snd (pruneFires now st))"
| Backfill: "cron_step kz cr i s st (snd (backfillFires st))"

lemma claim_transform_cases:
  assumes "claim_transform kz cr s' f c = Inr (claimed, c')"
  obtains "\<not> claimed" "c' = c"
  | n where "claimed" "\<not> inactive c" "next_slot kz cr c = Inr (Some s')"
      "advanceNextFireAt kz cr (cn_schedule c) (if isCalendarSchedule (cn_schedule c) then s' else f) = Inr n"
      "c' = c\<lparr>tb_lastFiredAt := Some f, cn_nextFireAt := n, cn_deferUntil := None\<rparr>"
  using assms by (auto simp: claim_transform_def and_then_Inr Let_def split: if_splits)

lemma claim_keeps_past:
  assumes "croner_future cr" and "past_slot kz cr i s st" and "s' \<le> f"
  shows "past_slot kz cr i s (snd (claimSlot kz cr j s' f st))"
proof (cases "get_cron j st")
  case (Some c)
  show ?thesis
  proof (cases "claim_transform kz cr s' f c")
    case (Inr r)
    then obtain claimed c' where r: "claim_transform kz cr s' f c = Inr (claimed, c')" by (cases r) simp
    have "later_than kz cr s c'" if "j = i"
    proof -
      have past: "later_than kz cr s c" using assms(2) Some that by (simp add: past_slot_def)
      show ?thesis using r
      proof (cases rule: claim_transform_cases)
        case (2 n)
        then have "s < s'" using past by (simp add: later_than_def)
        then show ?thesis using advanced_later [OF assms(1) 2(4), of s f] assms(3) 2(5) by auto
      qed (use past in simp)
    qed
    then show ?thesis using assms(2) Some r by (auto simp: claimSlot_def past_slot_def get_modify_cron)
  qed (use assms(2) Some in \<open>simp add: claimSlot_def\<close>)
qed (use assms(2) in \<open>simp add: claimSlot_def\<close>)

lemma fired_keeps_past:
  assumes "croner_future cr" and "past_slot kz cr i s st" and "j = i \<longrightarrow> s \<le> f \<and> (\<forall>s'. sched = Some s' \<longrightarrow> s \<le> s')"
  shows "past_slot kz cr i s (snd (markFired kz cr j f sched st))"
proof (cases "get_cron j st")
  case (Some c)
  let ?a = "if isCalendarSchedule (cn_schedule c) then (case sched of Some s \<Rightarrow> s | None \<Rightarrow> f) else f"
  show ?thesis
  proof (cases "advanceNextFireAt kz cr (cn_schedule c) ?a")
    case (Inr n)
    have "later_than kz cr s (c\<lparr>tb_lastFiredAt := Some f, cn_nextFireAt := n, cn_deferUntil := None\<rparr>)" if "j = i"
      using advanced_later [OF assms(1) Inr, of s f] assms(3) that by (auto split: option.splits)
    then show ?thesis using assms(2) Some Inr by (auto simp: markFired_def past_slot_def get_modify_cron Let_def)
  qed (use assms(2) Some in \<open>simp add: markFired_def Let_def\<close>)
qed (use assms(2) in \<open>simp add: markFired_def\<close>)

lemma create_keeps_past: "past_slot kz cr i s st \<Longrightarrow> past_slot kz cr i s (snd (create_cron links kz cr idOf input now st))"
  by (auto simp: create_cron_def createDeduped_def mm_putIfAbsent_def past_slot_def get_cron_def mm_get_def
      map_of_AList_update Let_def split: option.splits sum.splits prod.splits)

lemma update_keeps_past:
  assumes "past_slot kz cr i s st" and "j = i \<longrightarrow> cpa_schedule p = None"
  shows "past_slot kz cr i s (snd (update_cron kz cr j p now st))"
proof (cases "cpa_schedule p")
  case None
  then have "snd (update_cron kz cr j p now st) = modify_cron j (patch_cron p None) st"
    by (simp add: update_cron_def modify_cron_def split_def Let_def)
  moreover have "same_slot c (patch_cron p None c)" for c by (simp add: same_slot_def patch_cron_def)
  ultimately show ?thesis using past_slot_keep [OF assms(1)] by simp
next
  case (Some x)
  then have "get_cron i (snd (update_cron kz cr j p now st)) = get_cron i st"
    using assms(2) by (auto simp: update_cron_def get_cron_def mm_get_def mm_update_def map_of_AList_update split_def Let_def
      split: sum.splits option.splits)
  with assms(1) show ?thesis by (rule past_slot_frame)
qed

lemma unclaim_keeps_past:
  assumes "past_slot kz cr i s st" and "j = i \<longrightarrow> s < s'"
  shows "past_slot kz cr i s (unclaimSlot j s' f prior st)"
proof (cases "j = i")
  case True
  then have "later_than kz cr s (c\<lparr>tb_lastFiredAt := prior, cn_nextFireAt := Some s'\<rparr>)" for c
    using assms(2) by (auto simp: later_than_def next_slot_def recoverNextFireAt_def finiteEpochMs_def num_inj
      dest: safe_integer_bound split: option.splits)
  then show ?thesis unfolding unclaimSlot_def by (intro past_slot_modify [OF assms(1)]) simp
next
  case False
  then show ?thesis by (intro past_slot_frame [OF assms(1)]) (simp add: unclaimSlot_def get_modify_cron)
qed

lemma cron_step_past:
  assumes "cron_step kz cr i s st st'" and "croner_future cr" and "past_slot kz cr i s st"
  shows "past_slot kz cr i s st'"
  using assms
proof (induction rule: cron_step.induct)
  case (Claim s' f st j)
  then show ?case using claim_keeps_past by blast
next
  case (Fired j f sched st)
  then show ?case using fired_keeps_past by blast
next
  case (Unclaim j s' st f prior)
  then show ?case using unclaim_keeps_past by blast
next
  case (Update j p st now)
  then show ?case using update_keeps_past by blast
next
  case (Delete j st)
  then show ?case by (auto intro: past_slot_frame simp: delete_cron_def get_cron_def mm_get_def mm_delete_def map_of_AList_delete)
next
  case (Consent st j consent)
  have "setRecipientConsent j consent st = modify_cron j (\<lambda>c. c\<lparr>tb_recipientConsent := Some consent\<rparr>) st"
    by (simp add: setRecipientConsent_def setTriggerRecipientConsent_def modify_cron_def)
  then show ?case using Consent by (auto intro: past_slot_keep simp: same_slot_def)
next
  case (Noted st j n)
  then show ?case by (auto simp: setFireNote_def same_slot_def intro: past_slot_keep split: option.splits)
next
  case (Backfill st)
  then show ?case by (simp add: backfillFires_def past_slot_backfill)
qed (auto intro: past_slot_keep past_slot_frame create_keeps_past simp: same_slot_def setEnabled_def setDestination_def
  markAttempted_def defer_cron_def beginFire_def recordFire_def sweepStrandedFires_def pruneFires_def Let_def split_def)

lemma claimed_past:
  assumes "croner_future cr" and "claimSlot kz cr i s f st = (Inr True, st')" and "s \<le> f"
  shows "past_slot kz cr i s st'"
proof -
  obtain c c' where c: "get_cron i st = Some c" and c': "claim_transform kz cr s f c = Inr (True, c')"
    and st': "st' = modify_cron i (\<lambda>_. c') st"
    using assms(2) by (auto simp: claimSlot_def split: option.splits sum.splits)
  from c' have "later_than kz cr s c'"
    by (cases rule: claim_transform_cases) (use assms(1,3) in \<open>auto intro: advanced_later\<close>)
  then show ?thesis using c by (simp add: st' past_slot_def get_modify_cron)
qed

lemma past_not_claimable: "past_slot kz cr i s st \<Longrightarrow> fst (claimSlot kz cr i s f st) \<noteq> Inr True"
  by (auto simp: claimSlot_def past_slot_def later_than_def elim!: claim_transform_cases split: sum.splits)

lemma unclaimed_claimable:
  assumes "claimSlot kz cr i s f st = (Inr True, st')" and "\<bar>s\<bar> \<le> 9007199254740991"
  shows "fst (claimSlot kz cr i s f' (unclaimSlot i s f prior st')) = Inr True"
proof -
  obtain c c' where c: "get_cron i st = Some c" and c': "claim_transform kz cr s f c = Inr (True, c')"
    and st': "st' = modify_cron i (\<lambda>_. c') st"
    using assms(1) by (auto simp: claimSlot_def split: option.splits sum.splits)
  from c' show ?thesis
  proof (cases rule: claim_transform_cases)
    case (2 n)
    have "\<exists>n'. advanceNextFireAt kz cr (cn_schedule c) (if isCalendarSchedule (cn_schedule c) then s else f') = Inr n'"
      using 2(4) by (auto simp: advanceNextFireAt_def and_then_Inr split: if_splits)
    then obtain n' where n': "advanceNextFireAt kz cr (cn_schedule c) (if isCalendarSchedule (cn_schedule c) then s else f') = Inr n'" ..
    have "get_cron i (unclaimSlot i s f prior st') = Some (c'\<lparr>tb_lastFiredAt := prior, cn_nextFireAt := Some s\<rparr>)"
      using c 2(5) by (simp add: st' unclaimSlot_def get_modify_cron)
    then show ?thesis
      using n' 2(2,5) assms(2)
      by (simp add: claimSlot_def claim_transform_def inactive_def next_slot_def recoverNextFireAt_def finiteEpochMs_def safe_num)
  qed simp
qed

text \<open>C25: A slot of a cron is claimed once. After a claim of slot \<open>s\<close>, made when the slot was due, no further claim
  of it succeeds, whatever the callers of the store do in between short of replacing the schedule, deleting the cron or taking
  that claim back: other claims, records of fires, edits, notes, attempts, deferrals, withdrawn claims of later slots
  and the upkeep of the log. Taking the claim back makes the slot claimable again.\<close>

theorem slot_claimed_once:
  assumes "croner_future cr" and "claimSlot kz cr i s f st = (Inr True, st')" and "s \<le> f"
    and "(cron_step kz cr i s)\<^sup>*\<^sup>* st' st''" and "\<bar>s\<bar> \<le> 9007199254740991"
  shows "fst (claimSlot kz cr i s f' st'') \<noteq> Inr True \<and>
    fst (claimSlot kz cr i s f' (unclaimSlot i s f prior st')) = Inr True"
proof -
  have "past_slot kz cr i s st''" using assms(4)
    by induction (use claimed_past [OF assms(1-3)] cron_step_past assms(1) in blast)+
  then show ?thesis using past_not_claimable unclaimed_claimable [OF assms(2,5)] by blast
qed

definition demo_schedule :: cron_schedule where
  "demo_schedule = \<lparr>cs_cron = None, cs_timezone = None, cs_everyMs = Some (num 60000), cs_firstFireAt = Some (num 5000)\<rparr>"

definition demo_crons :: cron_store where
  "demo_crons =
     (new_cron_store None)\<lparr>cr_backing :=
       [(''c'', \<lparr>tb_id = ''c'', tb_ownerScopeId = ''user:ann'', tb_owner = ''ann'', tb_createdBy = ''ann'', tb_ownerConsentedAt = None,
           tb_destination = None, tb_enabled = True, tb_createdAt = 0, tb_lastFiredAt = None, tb_recipientConsent = None,
           cn_schedule = demo_schedule, cn_nextFireAt = Some 5000, cn_lastAttemptAt = None, cn_deferUntil = None, cn_title = None,
           cn_archived = None, cn_action = Some ''digest'', cn_message = None, cn_loopId = None, cn_runAs = None,
           cn_members = None, cn_unattendedGrants = None, cn_fireLog = None, cn_lastFireNote = None\<rparr>)]\<rparr>"

definition demo_croner :: croner where
  "demo_croner expression tz after = Inr (Some (after + 1))"

lemmas demo_cron_simps = demo_crons_def new_cron_store_def demo_schedule_def claimSlot_def get_cron_def mm_get_def mm_update_def
  claim_transform_def inactive_def next_slot_def recoverNextFireAt_def finiteEpochMs_def safe_num isCalendarSchedule_def
  advanceNextFireAt_def finitePositiveMs_def modify_cron_def defer_cron_def markAttempted_def unclaimSlot_def

theorem slot_claimed_once_witness:
  "\<exists>st'. claimSlot (\<lambda>_. True) demo_croner ''c'' 5000 6000 demo_crons = (Inr True, st') \<and>
     fst (claimSlot (\<lambda>_. True) demo_croner ''c'' 5000 7000 (defer_cron ''c'' 9000 (markAttempted ''c'' 6500 st'))) \<noteq> Inr True \<and>
     fst (claimSlot (\<lambda>_. True) demo_croner ''c'' 5000 7000 (unclaimSlot ''c'' 5000 6000 None st')) = Inr True"
proof -
  obtain st' where st': "claimSlot (\<lambda>_. True) demo_croner ''c'' 5000 6000 demo_crons = (Inr True, st')"
    by (simp add: demo_cron_simps)
  have "(cron_step (\<lambda>_. True) demo_croner ''c'' 5000)\<^sup>*\<^sup>* st' (defer_cron ''c'' 9000 (markAttempted ''c'' 6500 st'))"
    by (meson Attempted Deferred converse_rtranclp_into_rtranclp r_into_rtranclp)
  moreover have "croner_future demo_croner" by (simp add: croner_future_def demo_croner_def)
  ultimately show ?thesis using st' slot_claimed_once [OF _ st'] by simp
qed

end
