(* ===== verification/Cron_Scheduler.thy ===== *)
theory Cron_Scheduler
  imports Cron_Store Trigger_Run Wake_Envelope
begin

text \<open>
  The scheduler of crons, \<^verbatim>\<open>src/src/cron/scheduler.ts\<close> with \<^verbatim>\<open>src/src/cron/authority.ts\<close>: what a fire of a cron is made of, how
  its end is recorded, and the two drivers of fires, the tick over all crons that are due and the job of one slot. It
  composes the cron store, the firing of triggers and the idempotency store. The job queue is the list of jobs handed to it; the
  leader lease, the lifecycle lock and the admission of work only delay or skip calls and are left out, as are timers. A
  fire is one step, except that other callers may change the store while its turn runs.
\<close>

subsection \<open>The text of a fire\<close>

definition CRON_FIRE_REPLY_MAX_CHARS :: nat where "CRON_FIRE_REPLY_MAX_CHARS = 2000"
definition STRANDED_SWEEP_INTERVAL_MS :: time where "STRANDED_SWEEP_INTERVAL_MS = 10 * 60000"
definition FIRE_GC_INTERVAL_MS :: time where "FIRE_GC_INTERVAL_MS = 6 * 60 * 60000"
definition BUSY_DEFER_MS :: time where "BUSY_DEFER_MS = 30000"
definition BUSY_DEFER_MAX_LATE_MS :: time where "BUSY_DEFER_MAX_LATE_MS = 10 * 60000"
definition CRON_MENTION_ROSTER_MAX :: nat where "CRON_MENTION_ROSTER_MAX = 40"

definition truncate_text :: "string \<Rightarrow> nat \<Rightarrow> string" where
  "truncate_text s maxChars = (if length s \<le> maxChars then s else take (maxChars - 3) s @ ''...'')"

definition CRON_CONTEXT_MARKERS :: "string list" where
  "CRON_CONTEXT_MARKERS = [''[Cron runtime context]'', ''[End cron runtime context]'']"

definition echoesCronContextMarkers :: "string \<Rightarrow> bool" where
  "echoesCronContextMarkers s = list_ex (\<lambda>marker. contains_text marker s) CRON_CONTEXT_MARKERS"

definition cronFireLogReply :: "string \<Rightarrow> string" where
  "cronFireLogReply s =
     (if echoesCronContextMarkers s then ''[reply echoed cron runtime context; omitted]''
      else truncate_text s CRON_FIRE_REPLY_MAX_CHARS)"

definition isOneShotSchedule :: "cron_schedule \<Rightarrow> bool" where
  "isOneShotSchedule s \<longleftrightarrow> cs_everyMs s = None \<and> cs_cron s = None"

definition cron_task :: "cron \<Rightarrow> string" where
  "cron_task c = (case cn_action c of Some a \<Rightarrow> a | None \<Rightarrow> [])"

definition spaced_after :: "string \<Rightarrow> string \<Rightarrow> bool" where
  "spaced_after w s \<longleftrightarrow> starts_with w s \<and> (case drop (length w) s of c # _ \<Rightarrow> is_space c | [] \<Rightarrow> False)"

definition shell_task :: "string \<Rightarrow> bool" where
  "shell_task task \<longleftrightarrow> (let s = dropWhile is_space task in spaced_after ''!run'' s \<or> spaced_after ''!scratch'' s)"

definition cronFireReadsNotes :: "cron \<Rightarrow> bool" where
  "cronFireReadsNotes c \<longleftrightarrow>
     \<not> (truthy (cn_loopId c) \<or> trim (cron_task c) = [] \<or> shell_task (cron_task c)) \<and> \<not> isOneShotSchedule (cn_schedule c)"

definition flattenFireNote :: "string \<Rightarrow> string" where
  "flattenFireNote s = trim (collapse s)"

definition fireNoteLine :: "(time \<Rightarrow> string) \<Rightarrow> cron_fire_note option \<Rightarrow> string list" where
  "fireNoteLine utcMinute n =
     (case n of
        None \<Rightarrow> []
      | Some n \<Rightarrow>
          (let flat = flattenFireNote (fn_text n) in
           if flat = [] \<or> echoesCronContextMarkers flat then []
           else if truthy (fn_by n)
           then [''Note left for this fire by '' @ the (fn_by n) @ '' ('' @ utcMinute (fn_at n) @ ''): '' @ flat]
           else [''Notes from last fire agent ('' @ utcMinute (fn_at n) @ ''): '' @ flat]))"

definition cronFireThreadRef :: "(string \<Rightarrow> string) \<Rightarrow> string \<Rightarrow> string \<Rightarrow> string" where
  "cronFireThreadRef sha cronId fireKey = ''cron:'' @ cronId @ '':fire:'' @ hashId sha [fireKey] 12"

record directory_member =
  dm_principalId :: string
  dm_displayName :: string
  dm_internal :: bool
  dm_slackId :: "string option"

definition alphanumeric :: "char \<Rightarrow> bool" where
  "alphanumeric c \<longleftrightarrow> (CHR ''A'' \<le> c \<and> c \<le> CHR ''Z'') \<or> (CHR ''a'' \<le> c \<and> c \<le> CHR ''z'') \<or> (CHR ''0'' \<le> c \<and> c \<le> CHR ''9'')"

definition mentionable :: "directory_member \<Rightarrow> string" where
  "mentionable m =
     (let mentionId = (case dm_slackId m of
            Some s \<Rightarrow> Some s
          | None \<Rightarrow> if dm_principalId m \<noteq> [] \<and> list_all alphanumeric (dm_principalId m) then Some (dm_principalId m) else None) in
      ''@'' @ dm_displayName m @ (if truthy mentionId then '' (<@'' @ the mentionId @ ''>)'' else []))"

text \<open>\<open>directory\<close> is absent when none is wired, and rejects when its listing fails; a later entry of an identifier wins.\<close>

definition cronMentionRoster :: "directory_member list reply option \<Rightarrow> cron \<Rightarrow> string option" where
  "cronMentionRoster directory c =
     (case directory of
        None \<Rightarrow> None
      | Some listing \<Rightarrow>
          (case Option.bind (tb_destination c) d_audienceScopeId of
             None \<Rightarrow> None
           | Some scope \<Rightarrow>
               (let members = (case cn_members c of Some ms \<Rightarrow> ms | None \<Rightarrow> []) in
                if scope = [] \<or> fst (parseScopeId scope) \<notin> {Some Channel, Some Group} \<or> members = [] \<or>
                   length members > CRON_MENTION_ROSTER_MAX
                then None
                else
                  (let known = (case listing of Reply ds \<Rightarrow> ds | Rejects \<Rightarrow> []);
                       byId = map_of (rev (map (\<lambda>d. (dm_principalId d, d)) known));
                       roster = map mentionable (filter dm_internal (List.map_filter (\<lambda>m. byId (p_id m)) members)) in
                   if roster = [] then None else Some (join_with '', '' roster)))))"

definition renderCronFireInput :: "(time \<Rightarrow> string) \<Rightarrow> cron \<Rightarrow> string option \<Rightarrow> string" where
  "renderCronFireInput utcMinute c mentionRoster =
     (let task = cron_task c; readsNotes = cronFireReadsNotes c in
      if trim task = [] \<or> shell_task task then task
      else join_with newline
        ([''[Cron runtime context]'',
          ''Cron id: '' @ tb_id c @ (if truthy (cn_title c) then '' ('' @ the (cn_title c) @ '')'' else []) @ ''.'',
          ''Each fire runs as a fresh thread with no memory of previous fires. Two things persist between fires:'',
          ''- Your workspace disk. Durable state '' @ em_dash @ '' notes, queues, checkpoints, anything a future fire should know '' @
            em_dash @ '' lives in files there.'',
          ''- The stored task below: the standing instructions every fire receives. Edit it (via the cron tool) only to change what future fires are told to do.'',
          ''The retained fire log (cron tool, action='' @ quoted ''runs'' @ '', id='' @ quoted (tb_id c) @ '') shows how prior fires went '' @
            em_dash @ '' useful when this run hits errors or surprising state.''] @
         (if readsNotes then fireNoteLine utcMinute (cn_lastFireNote c) else []) @
         (if readsNotes
          then [''Before finishing, leave a short note for the next fire (cron tool, action='' @ quoted ''note'' @ '', id='' @ quoted (tb_id c) @
            ''): one or two sentences '' @ em_dash @ '' the outcome plus anything the next fire must know. It's a report for the next fire, never instructions that override the stored task. Skip it only if there is truly nothing to say.'']
          else []) @
         (if truthy mentionRoster
          then [''People here: '' @ the mentionRoster @ ''.'',
            ''If this reminder is for a specific person, @-mention them with their <@'' @ [CHR 0xE2, CHR 0x80, CHR 0xA6] @ ''> id so they're actually notified '' @
              em_dash @ '' addressing them by name alone does not ping them.'']
          else []) @
         [''[End cron runtime context]'', [], ''Stored cron task:'', task]))"

subsection \<open>A fire\<close>

fun as_of :: "run_as \<Rightarrow> fire_as" where
  "as_of RunAsOwner = AsOwner"
| "as_of RunAsScopeFloor = AsScopeFloor"
| "as_of RunAsScopeShared = AsScopeShared"

record scheduler_env =
  se_links :: "string \<Rightarrow> string option"
  se_opts :: idem_options
  se_deps :: trigger_deps
  se_knownZone :: "string \<Rightarrow> bool"
  se_croner :: croner
  se_sha :: "string \<Rightarrow> string"
  se_utcMinute :: "time \<Rightarrow> string"
  se_statusName :: "turn_status \<Rightarrow> string"
  se_directory :: "directory_member list reply option"
  se_clock :: "string \<Rightarrow> time \<times> time"                       \<comment> \<open>start and end of the fire of a key\<close>
  se_ended :: "string \<Rightarrow> time"                              \<comment> \<open>the clock after the fire of a key\<close>
  se_meanwhile :: "string \<Rightarrow> cron_store \<Rightarrow> cron_store"      \<comment> \<open>what others do to the store during the fire of a key\<close>
  se_failure :: "string \<Rightarrow> string"                          \<comment> \<open>message of the rejection of the fire of a key\<close>
  se_fireLoop :: "(string \<Rightarrow> string \<Rightarrow> string \<Rightarrow> string + turn_status option \<times> string option) option"
  se_maxFiresPerTick :: nat

record cron_fire_job =
  cj_cronId :: string
  cj_scheduledAt :: time
  cj_notBefore :: "time option"

record scheduler_state =
  sd_crons :: cron_store
  sd_idem :: idem_store
  sd_effects :: "trigger_effect list"
  sd_jobs :: "cron_fire_job list"
  sd_lastStrandedSweep :: time
  sd_lastFireGc :: time

datatype fire_end = Fired | AuthzFailed | FireDeferredUntil | FireRejected

definition in_crons :: "(cron_store \<Rightarrow> cron_store) \<Rightarrow> scheduler_state \<Rightarrow> scheduler_state" where
  "in_crons f st = st\<lparr>sd_crons := f (sd_crons st)\<rparr>"

definition running_entry :: "string \<Rightarrow> string \<Rightarrow> time \<Rightarrow> time option \<Rightarrow> fire_entry" where
  "running_entry fireKey threadRef t scheduledAt =
     \<lparr>fe_fireKey = fireKey, fe_threadRef = threadRef, fe_firedAt = t, fe_scheduledAt = scheduledAt, fe_status = Some ''running'',
      fe_endedAt = None, fe_note = None, fe_reply = None, fe_sessionId = None\<rparr>"

definition ended_entry :: "fire_entry \<Rightarrow> time \<Rightarrow> string \<Rightarrow> string option \<Rightarrow> fire_entry" where
  "ended_entry e endedAt status n =
     e\<lparr>fe_endedAt := Some endedAt, fe_status := Some status, fe_note := map_option (\<lambda>s. truncate_text s CRON_FIRE_REPLY_MAX_CHARS) n\<rparr>"

definition cron_spec :: "scheduler_env \<Rightarrow> cron \<Rightarrow> time \<Rightarrow> string \<Rightarrow> string \<Rightarrow> time option \<Rightarrow> trigger_spec" where
  "cron_spec env c t fireKey threadRef scheduledAt =
     \<lparr>ts_title = nonempty (cn_title c), ts_owner = tb_owner c, ts_ownerScopeId = tb_ownerScopeId c,
      ts_input = renderCronFireInput (se_utcMinute env) c (cronMentionRoster (se_directory env) c),
      ts_securityScreenData = None, ts_fireKey = fireKey, ts_surface = ''cron'', ts_destination = tb_destination c,
      ts_message = cn_message c, ts_threadRef = Some threadRef,
      ts_runAs = (case cn_runAs c of Some r \<Rightarrow> as_of r | None \<Rightarrow> AsOwner), ts_unattendedGrants = cn_unattendedGrants c,
      ts_members = cn_members c, ts_recipientConsent = tb_recipientConsent c,
      ts_recipientConsentRequired = (cs_everyMs (cn_schedule c) \<noteq> None \<or> cs_cron (cn_schedule c) \<noteq> None),
      ts_shadow = False, ts_thinkingLevel = None, ts_readOnly = False, ts_turnWallClockMs = None, ts_errorNotice = None,
      ts_onClaimed = Some (Reply ()),
      ts_deferWhenBusy = (case scheduledAt of Some s \<Rightarrow> t - s \<le> BUSY_DEFER_MAX_LATE_MS | None \<Rightarrow> False)\<rparr>"

text \<open>Whether the callback of the trigger was entered, which first begins the fire in the log.\<close>

definition was_claimed :: "scheduler_env \<Rightarrow> trigger_spec \<Rightarrow> trigger_outcome option \<Rightarrow> bool" where
  "was_claimed env spec outcome \<longleftrightarrow>
     (case outcome of
        Some o' \<Rightarrow> to_ran o' \<or> to_deferred o'
      | None \<Rightarrow> (case td_currentScopeMembers (se_deps env) of None \<Rightarrow> True | Some f \<Rightarrow> f (ts_ownerScopeId spec) \<noteq> Rejects))"

definition loop_end :: "scheduler_env \<Rightarrow> cron \<Rightarrow> string \<Rightarrow> string \<times> string option" where
  "loop_end env c fireKey =
     (case se_fireLoop env of
        None \<Rightarrow> (''failed'', Some ''loop service unavailable'')
      | Some f \<Rightarrow>
          (case f (the (cn_loopId c)) fireKey (tb_id c) of
             Inl msg \<Rightarrow> (''failed'', nonempty (Some msg))
           | Inr (status, n) \<Rightarrow> (case status of Some s \<Rightarrow> se_statusName env s | None \<Rightarrow> ''ok'', nonempty n)))"

definition disable_one_shot :: "cron \<Rightarrow> cron_store \<Rightarrow> cron_store" where
  "disable_one_shot c st = (if isOneShotSchedule (cn_schedule c) then setEnabled (tb_id c) False st else st)"

definition fire_loop_cron :: "scheduler_env \<Rightarrow> cron \<Rightarrow> string \<Rightarrow> fire_entry \<Rightarrow> scheduler_state \<Rightarrow> fire_end \<times> scheduler_state" where
  "fire_loop_cron env c fireKey entry st =
     (let i = tb_id c;
          st = in_crons (\<lambda>s. se_meanwhile env fireKey (snd (beginFire i entry False s))) st;
          (status, n) = loop_end env c fireKey in
      (Fired, in_crons (\<lambda>s. disable_one_shot c (recordFire i (ended_entry entry (se_ended env fireKey) status n) s)) st))"

definition outcome_entry :: "scheduler_env \<Rightarrow> fire_entry \<Rightarrow> string \<Rightarrow> trigger_outcome \<Rightarrow> fire_entry" where
  "outcome_entry env entry fireKey o' =
     (ended_entry entry (se_ended env fireKey)
        (case to_status o' of Some s \<Rightarrow> se_statusName env s | None \<Rightarrow> if to_authzFailed o' then ''refused'' else ''ok'')
        (nonempty (map_option (td_render (se_deps env)) (to_note o'))))
     \<lparr>fe_reply := map_option cronFireLogReply (to_reply o'), fe_sessionId := nonempty (to_sessionId o')\<rparr>"

definition settle_outcome :: "scheduler_env \<Rightarrow> cron \<Rightarrow> string \<Rightarrow> fire_entry \<Rightarrow> trigger_outcome \<Rightarrow> scheduler_state \<Rightarrow> fire_end \<times> scheduler_state" where
  "settle_outcome env c fireKey entry o' st =
     (let i = tb_id c in
      if to_deferred o' then
        (let deferUntil = se_ended env fireKey + BUSY_DEFER_MS;
             e = (ended_entry entry (se_ended env fireKey) ''deferred'' None)
               \<lparr>fe_note := Some (''session busy '' @ em_dash @ '' retrying at '' @ se_utcMinute env deferUntil)\<rparr> in
         (FireDeferredUntil, in_crons (\<lambda>s. defer_cron i deferUntil (recordFire i e s)) st))
      else
        (let st = (if to_ran o' \<or> to_authzFailed o' then in_crons (recordFire i (outcome_entry env entry fireKey o')) st else st) in
         if to_authzFailed o' then (AuthzFailed, in_crons (setEnabled i False) st)
         else (Fired, in_crons (disable_one_shot c) st)))"

definition fireEnabled :: "scheduler_env \<Rightarrow> cron \<Rightarrow> time \<Rightarrow> string \<Rightarrow> time option \<Rightarrow> scheduler_state \<Rightarrow> fire_end \<times> scheduler_state" where
  "fireEnabled env c t fireKey scheduledAt st =
     (let i = tb_id c;
          threadRef = cronFireThreadRef (se_sha env) i fireKey;
          entry = running_entry fireKey threadRef t scheduledAt in
      if truthy (cn_loopId c) then fire_loop_cron env c fireKey entry st
      else
        (let spec = cron_spec env c t fireKey threadRef scheduledAt;
             (start, finish) = se_clock env fireKey;
             (outcome, effects, idem) = runTrigger (se_links env) (se_opts env) start finish (se_deps env) spec (sd_idem st);
             begun = (if was_claimed env spec outcome then in_crons (\<lambda>s. snd (beginFire i entry False s)) st else st);
             st = (in_crons (se_meanwhile env fireKey) begun)\<lparr>sd_idem := idem, sd_effects := sd_effects st @ effects\<rparr> in
         case outcome of
           None \<Rightarrow>
             (FireRejected, in_crons (recordFire i (ended_entry entry (se_ended env fireKey) ''failed'' (Some (se_failure env fireKey)))) st)
         | Some o' \<Rightarrow> settle_outcome env c fireKey entry o' st))"

definition disabled_entry :: "scheduler_env \<Rightarrow> string \<Rightarrow> string \<Rightarrow> time \<Rightarrow> fire_entry" where
  "disabled_entry env i fireKey t =
     (running_entry fireKey (cronFireThreadRef (se_sha env) i fireKey) t None)
     \<lparr>fe_endedAt := Some (se_ended env fireKey), fe_status := Some ''silent'', fe_note := Some ''Cron is no longer enabled''\<rparr>"

definition fire_cron :: "scheduler_env \<Rightarrow> string \<Rightarrow> time \<Rightarrow> string \<Rightarrow> time option \<Rightarrow> scheduler_state \<Rightarrow> fire_end \<times> scheduler_state" where
  "fire_cron env i t fireKey scheduledAt st =
     (case get_cron i (sd_crons st) of
        None \<Rightarrow> (AuthzFailed, in_crons (recordFire i (disabled_entry env i fireKey t)) st)
      | Some current \<Rightarrow>
          if inactive current then (AuthzFailed, in_crons (recordFire i (disabled_entry env i fireKey t)) st)
          else fireEnabled env current t fireKey scheduledAt st)"

subsection \<open>Drivers\<close>

text \<open>\<open>stop\<close> tells whether the scheduler has been stopped when the loop comes to a cron.\<close>

definition slot_key :: "string \<Rightarrow> time \<Rightarrow> string" where
  "slot_key i slot = ''cron:'' @ i @ '':'' @ int_text slot"

definition tick_batch :: "nat \<Rightarrow> (cron \<times> time) list \<Rightarrow> (cron \<times> time) list" where
  "tick_batch maxFires due_crons =
     (if length due_crons > maxFires
      then take maxFires (sort_key (\<lambda>(c, s). case cn_lastAttemptAt c of Some t \<Rightarrow> t | None \<Rightarrow> 0) due_crons)
      else due_crons)"

fun fire_batch :: "scheduler_env \<Rightarrow> (string \<Rightarrow> bool) \<Rightarrow> time \<Rightarrow> (cron \<times> time) list \<Rightarrow> scheduler_state \<Rightarrow> scheduler_state" where
  "fire_batch env stop t [] st = st"
| "fire_batch env stop t ((c, slot) # batch) st =
     (if stop (tb_id c) then st
      else
        (let (r, st) = fire_cron env (tb_id c) t (slot_key (tb_id c) slot) (Some slot) st in
         fire_batch env stop t batch
           (if r = Fired then in_crons (\<lambda>s. snd (markFired (se_knownZone env) (se_croner env) (tb_id c) t (Some slot) s)) st else st)))"

text \<open>The tick rejects (\<open>None\<close>) when a schedule cannot be read.\<close>

definition fireDue :: "scheduler_env \<Rightarrow> (string \<Rightarrow> bool) \<Rightarrow> time \<Rightarrow> scheduler_state \<Rightarrow> unit option \<times> scheduler_state" where
  "fireDue env stop t st =
     (case due (se_knownZone env) (se_croner env) t (sd_crons st) of
        Inl _ \<Rightarrow> (None, st)
      | Inr due_crons \<Rightarrow>
          (let batch = tick_batch (se_maxFiresPerTick env) due_crons;
               st = (if length due_crons > se_maxFiresPerTick env
                     then in_crons (fold (\<lambda>(c, s). markAttempted (tb_id c) t) batch) st else st) in
           (Some (), fire_batch env stop t batch st)))"

definition sweepStranded :: "time \<Rightarrow> scheduler_state \<Rightarrow> scheduler_state" where
  "sweepStranded t st =
     (if t - sd_lastStrandedSweep st < STRANDED_SWEEP_INTERVAL_MS then st
      else in_crons (\<lambda>s. snd (sweepStrandedFires t s)) (st\<lparr>sd_lastStrandedSweep := t\<rparr>))"

definition gcFires :: "time \<Rightarrow> scheduler_state \<Rightarrow> scheduler_state" where
  "gcFires t st =
     (if t - sd_lastFireGc st < FIRE_GC_INTERVAL_MS then st
      else in_crons (\<lambda>s. snd (pruneFires t s)) (st\<lparr>sd_lastFireGc := t\<rparr>))"

definition tick :: "scheduler_env \<Rightarrow> (string \<Rightarrow> bool) \<Rightarrow> time \<Rightarrow> scheduler_state \<Rightarrow> unit option \<times> scheduler_state" where
  "tick env stop t st =
     (case fireDue env stop t st of
        (None, st) \<Rightarrow> (None, st)
      | (Some _, st) \<Rightarrow> (Some (), gcFires t (sweepStranded t st)))"

definition nextJob :: "scheduler_env \<Rightarrow> cron \<Rightarrow> cron_fire_job option schedule_result" where
  "nextJob env c =
     and_then (next_slot (se_knownZone env) (se_croner env) c) (\<lambda>slot.
     Inr (map_option (\<lambda>s. \<lparr>cj_cronId = tb_id c, cj_scheduledAt = s, cj_notBefore = cn_deferUntil c\<rparr>) slot))"

definition enqueueFire :: "cron_fire_job \<Rightarrow> scheduler_state \<Rightarrow> scheduler_state" where
  "enqueueFire job st = st\<lparr>sd_jobs := sd_jobs st @ [job]\<rparr>"

definition enqueueNext :: "scheduler_env \<Rightarrow> string \<Rightarrow> scheduler_state \<Rightarrow> unit schedule_result \<times> scheduler_state" where
  "enqueueNext env i st =
     (case get_cron i (sd_crons st) of
        None \<Rightarrow> (Inr (), st)
      | Some c \<Rightarrow>
          if inactive c then (Inr (), st)
          else (case nextJob env c of
                  Inl e \<Rightarrow> (Inl e, st)
                | Inr None \<Rightarrow> (Inr (), st)
                | Inr (Some job) \<Rightarrow> (Inr (), enqueueFire job st)))"

text \<open>
  The job of one slot at time \<open>t\<close>; the scheduler may have been stopped before (\<open>stop1\<close>) or after (\<open>stop2\<close>) the claim. The job rejects with the
  error of a schedule that cannot be read.
\<close>

definition fireJob ::
  "scheduler_env \<Rightarrow> bool \<Rightarrow> bool \<Rightarrow> time \<Rightarrow> cron_fire_job \<Rightarrow> scheduler_state \<Rightarrow> unit schedule_result \<times> scheduler_state" where
  "fireJob env stop1 stop2 t job st =
     (let i = cj_cronId job in
      case get_cron i (sd_crons st) of
        None \<Rightarrow> (Inr (), st)
      | Some c \<Rightarrow>
          if inactive c then (Inr (), st)
          else case next_slot (se_knownZone env) (se_croner env) c of
            Inl e \<Rightarrow> (Inl e, st)
          | Inr slot \<Rightarrow>
              if slot \<noteq> Some (cj_scheduledAt job) then (Inr (), st)
              else
                (let slot = cj_scheduledAt job in
                 if t < slot then (Inr (), enqueueFire job st)
                 else if isDeferred c t then (Inr (), enqueueFire (job\<lparr>cj_notBefore := cn_deferUntil c\<rparr>) st)
                 else if stop1 then (Inr (), st)
                 else case claimSlot (se_knownZone env) (se_croner env) i slot t (sd_crons st) of
                   (Inl e, crons) \<Rightarrow> (Inl e, st\<lparr>sd_crons := crons\<rparr>)
                 | (Inr False, crons) \<Rightarrow> (Inr (), st\<lparr>sd_crons := crons\<rparr>)
                 | (Inr True, crons) \<Rightarrow>
                     (let st = st\<lparr>sd_crons := crons\<rparr>;
                          unclaim = in_crons (unclaimSlot i slot t (tb_lastFiredAt c)) in
                      if stop2 then (Inr (), unclaim st)
                      else case fire_cron env (tb_id c) t (slot_key (tb_id c) slot) (Some slot) st of
                        (Fired, st) \<Rightarrow> enqueueNext env i st
                      | (FireDeferredUntil, st) \<Rightarrow> enqueueNext env i (unclaim st)
                      | (AuthzFailed, st) \<Rightarrow> (Inr (), unclaim st)
                      | (FireRejected, st) \<Rightarrow> (Inr (), unclaim st))))"

text \<open>The jobs of all active crons in their order, up to the first whose schedule cannot be read.\<close>

fun reconcile_jobs :: "scheduler_env \<Rightarrow> cron list \<Rightarrow> scheduler_state \<Rightarrow> scheduler_state" where
  "reconcile_jobs env [] st = st"
| "reconcile_jobs env (c # cs) st =
     (if inactive c then reconcile_jobs env cs st
      else case nextJob env c of
        Inl _ \<Rightarrow> st
      | Inr None \<Rightarrow> reconcile_jobs env cs st
      | Inr (Some job) \<Rightarrow> reconcile_jobs env cs (enqueueFire job st))"

definition reconcile :: "scheduler_env \<Rightarrow> time \<Rightarrow> scheduler_state \<Rightarrow> scheduler_state" where
  "reconcile env t st = gcFires t (sweepStranded t (reconcile_jobs env (list_crons (sd_crons st)) st))"

datatype run_now_result = Started string | Unavailable | AlreadyRunning fire_entry

definition manual_key :: "string \<Rightarrow> string \<Rightarrow> string" where
  "manual_key i uuid = ''cron:'' @ i @ '':manual:'' @ uuid"

text \<open>The answer of \<open>runNow\<close>; the fire it starts in the background is \<open>fire_cron\<close> under the key of the answer.\<close>

definition runNow :: "scheduler_env \<Rightarrow> time \<Rightarrow> string \<Rightarrow> string \<Rightarrow> scheduler_state \<Rightarrow> run_now_result \<times> scheduler_state" where
  "runNow env t uuid i st =
     (case get_cron i (sd_crons st) of
        None \<Rightarrow> (Unavailable, st)
      | Some c \<Rightarrow>
          if inactive c then (Unavailable, st)
          else
            (let fireKey = manual_key (tb_id c) uuid;
                 (begun, crons) = beginFire i (running_entry fireKey (cronFireThreadRef (se_sha env) (tb_id c) fireKey) t None) True (sd_crons st);
                 st = st\<lparr>sd_crons := crons\<rparr> in
             case begun of
               Begun \<Rightarrow> (Started fireKey, st)
             | Refused (Some e) \<Rightarrow> (AlreadyRunning e, st)
             | Refused None \<Rightarrow> (Unavailable, st)))"

definition describeRunNowRefusal :: "string \<Rightarrow> run_now_result \<Rightarrow> time \<Rightarrow> (string \<times> string) option" where
  "describeRunNowRefusal i r now =
     (case r of
        Started _ \<Rightarrow> None
      | AlreadyRunning e \<Rightarrow>
          (let ageMin = (2 * (now - fe_firedAt e) + 60000) div 120000 in
           Some (''already_running'', ''cron '' @ i @ '' is already firing (fire '' @ fe_fireKey e @ '', started '' @ int_text ageMin @
             ''m ago) '' @ em_dash @ '' wait for it to finish instead of firing again''))
      | Unavailable \<Rightarrow> Some (''bad_request'', ''cron '' @ i @ '' can't be fired on demand right now''))"

subsection \<open>Unattended grants\<close>

definition unattendedGrantRefusal ::
  "(string \<Rightarrow> string \<Rightarrow> bool) \<Rightarrow> (string \<Rightarrow> bool option) \<Rightarrow> string \<Rightarrow> scope_id \<Rightarrow> run_as option \<Rightarrow> string \<Rightarrow> bool \<Rightarrow> string option" where
  "unattendedGrantRefusal same isAdmin owner ownerScopeId runAs actorId liveActor =
     (if \<not> liveActor then Some ''unattended grants require a live turn started by the cron owner''
      else if \<not> same owner actorId then Some ''only the cron owner may set unattended grants''
      else if \<not> starts_with ''personal:'' ownerScopeId \<or> (runAs \<noteq> None \<and> runAs \<noteq> Some RunAsOwner)
      then Some ''unattended grants require a personal-scope cron that runs as its owner''
      else if isAdmin actorId \<noteq> Some True then Some ''unattended grants require the cron owner to be a current org admin''
      else None)"

subsection \<open>A slot has its effects once\<close>

lemma get_cron_in_crons [simp]: "sd_crons (in_crons f st) = f (sd_crons st)" "sd_idem (in_crons f st) = sd_idem st"
  "sd_effects (in_crons f st) = sd_effects st" "sd_jobs (in_crons f st) = sd_jobs st"
  by (simp_all add: in_crons_def)

lemma settle_outcome_idem [simp]:
  "sd_idem (snd (settle_outcome env c k e o' st)) = sd_idem st" "sd_effects (snd (settle_outcome env c k e o' st)) = sd_effects st"
  "sd_jobs (snd (settle_outcome env c k e o' st)) = sd_jobs st"
  by (simp_all add: settle_outcome_def Let_def)

text \<open>What a fire of a cron that is not driven by a loop does to the idempotency store and to the world: what its trigger does.\<close>

definition cron_trigger ::
  "scheduler_env \<Rightarrow> cron \<Rightarrow> time \<Rightarrow> string \<Rightarrow> time option \<Rightarrow> scheduler_state \<Rightarrow> trigger_outcome option \<times> trigger_effect list \<times> idem_store" where
  "cron_trigger env c t k s st =
     runTrigger (se_links env) (se_opts env) (fst (se_clock env k)) (snd (se_clock env k)) (se_deps env)
       (cron_spec env c t k (cronFireThreadRef (se_sha env) (tb_id c) k) s) (sd_idem st)"

lemma fireEnabled_trigger:
  assumes "\<not> truthy (cn_loopId c)" "cron_trigger env c t k s st = (outcome, effects, idem)"
  shows "sd_idem (snd (fireEnabled env c t k s st)) = idem" "sd_effects (snd (fireEnabled env c t k s st)) = sd_effects st @ effects"
    and "fst (fireEnabled env c t k s st) = (case outcome of None \<Rightarrow> FireRejected
      | Some o' \<Rightarrow> if to_deferred o' then FireDeferredUntil else if to_authzFailed o' then AuthzFailed else Fired)"
  using assms by (auto simp: fireEnabled_def cron_trigger_def settle_outcome_def Let_def split_def split: option.splits)

lemma fireEnabled_loop:
  "truthy (cn_loopId c) \<Longrightarrow> sd_idem (snd (fireEnabled env c t k s st)) = sd_idem st \<and> sd_effects (snd (fireEnabled env c t k s st)) = sd_effects st \<and>
     fst (fireEnabled env c t k s st) = Fired"
  by (simp add: fireEnabled_def fire_loop_cron_def Let_def split_def)

lemma fire_cron_cases:
  obtains "fire_cron env i t k s st = (AuthzFailed, in_crons (recordFire i (disabled_entry env i k t)) st)"
    "get_cron i (sd_crons st) = None \<or> (\<exists>c. get_cron i (sd_crons st) = Some c \<and> inactive c)"
  | c where "get_cron i (sd_crons st) = Some c" "\<not> inactive c" "fire_cron env i t k s st = fireEnabled env c t k s st"
proof (cases "get_cron i (sd_crons st)")
  case None
  then show thesis using that(1) by (simp add: fire_cron_def)
next
  case (Some c)
  then show thesis using that by (cases "inactive c") (auto simp: fire_cron_def)
qed

lemma runTrigger_effects_ran:
  assumes "runTrigger links opts t t' deps spec idem = (Some o', effects, idem')" "effects \<noteq> []" "\<not> to_deferred o'"
  shows "to_ran o'"
  using assms
  by (auto simp: runTrigger_def refused_outcome_def fire_outcome_def Let_def
      split: reply.splits sum.splits bool.splits prod.splits if_splits fire_result.splits)

text \<open>C38: A slot of a cron has its effects once. After a fire of a slot that ran a turn or sent a delivery and ended, every later fire of that slot within the retention time of the idempotency store, whether by the tick, by its job or after a restart, runs no turn and sends nothing, whatever else happened to the crons and to the idempotency store in between. Crons that drive a loop are apart: their fires do not pass the idempotency store.\<close>

theorem cron_slot_effects_once:
  assumes "fire_cron env i t (slot_key i slot) (Some slot) st = (Fired, st1)" "sd_effects st1 \<noteq> sd_effects st"
    and "backing_ok (sd_idem st)" "0 \<le> io_retentionMs (se_opts env)"
    and "\<forall>c \<in> set calls. before (snd (se_clock env (slot_key i slot)) + io_retentionMs (se_opts env)) c"
    and "sd_idem st2 = idem_after (se_opts env) calls (sd_idem st1)" "se_opts env2 = se_opts env"
    and "fst (se_clock env2 (slot_key i slot)) \<le> snd (se_clock env (slot_key i slot)) + io_retentionMs (se_opts env)"
    and "\<And>c. get_cron i (sd_crons st2) = Some c \<Longrightarrow> \<not> truthy (cn_loopId c)"
  shows "sd_effects (snd (fire_cron env2 i t2 (slot_key i slot) s2 st2)) = sd_effects st2"
proof -
  let ?k = "slot_key i slot"
  obtain c where c: "fire_cron env i t ?k (Some slot) st = fireEnabled env c t ?k (Some slot) st"
    using fire_cron_cases [of env i t ?k "Some slot" st] assms(1) by fastforce
  have loop: "\<not> truthy (cn_loopId c)" using assms(1,2) c fireEnabled_loop [of c env t ?k "Some slot" st] by auto
  obtain outcome effects idem where run: "cron_trigger env c t ?k (Some slot) st = (outcome, effects, idem)" by (metis prod.collapse)
  note first = fireEnabled_trigger [OF loop run]
  obtain o' where o': "outcome = Some o'" "\<not> to_deferred o'" "effects \<noteq> []" "idem = sd_idem st1"
    using first assms(1,2) c by (auto split: option.splits if_splits)
  let ?spec = "cron_spec env c t ?k (cronFireThreadRef (se_sha env) (tb_id c) ?k) (Some slot)"
  have run': "runTrigger (se_links env) (se_opts env) (fst (se_clock env ?k)) (snd (se_clock env ?k)) (se_deps env) ?spec (sd_idem st) =
      (Some o', effects, sd_idem st1)" using run o' by (simp add: cron_trigger_def)
  have "to_ran o'" using runTrigger_effects_ran [OF run' o'(3,2)] .
  have key: "ts_fireKey ?spec = ?k" by (simp add: cron_spec_def)
  have "held_since ?k (snd (se_clock env ?k)) (sd_idem st2)"
    using runTrigger_committed [OF run' \<open>to_ran o'\<close> assms(3,4)] idem_after_held [of ?k] assms(5,6) key by simp
  then have refused: "fst (once (se_opts env2) (fst (se_clock env2 ?k)) ?k fn (sd_idem st2)) = Inr False" for fn
    using once_held assms(7,8) by metis
  show ?thesis
  proof (rule fire_cron_cases [of env2 i t2 ?k s2 st2])
    fix c2 assume c2: "get_cron i (sd_crons st2) = Some c2" "fire_cron env2 i t2 ?k s2 st2 = fireEnabled env2 c2 t2 ?k s2 st2"
    obtain outcome2 effects2 idem2 where run2: "cron_trigger env2 c2 t2 ?k s2 st2 = (outcome2, effects2, idem2)" by (metis prod.collapse)
    have "effects2 = []"
      using runTrigger_refused [of "se_opts env2" "fst (se_clock env2 ?k)"
          "cron_spec env2 c2 t2 ?k (cronFireThreadRef (se_sha env2) (tb_id c2) ?k) s2" "sd_idem st2"] refused run2
      by (simp add: cron_trigger_def cron_spec_def) (metis fst_conv snd_conv)
    then show ?thesis using fireEnabled_trigger(2) [OF assms(9) [OF c2(1)] run2] c2(2) by simp
  qed simp
qed

subsection \<open>Every fire is closed in the log\<close>

definition fire_look :: "string \<Rightarrow> string \<Rightarrow> cron_store \<Rightarrow> fire_entry option" where
  "fire_look i k st = mf_look (cr_fires st) i k"

lemma cr_fires_writes [simp]:
  "cr_fires (setEnabled i b st) = cr_fires st" "cr_fires (defer_cron i u st) = cr_fires st" "cr_fires (modify_cron i f st) = cr_fires st"
  "cr_fires (disable_one_shot c st) = cr_fires st" "cr_fires (unclaimSlot i s t p st) = cr_fires st"
  by (simp_all add: setEnabled_def defer_cron_def modify_cron_def disable_one_shot_def unclaimSlot_def)

lemma fire_look_simps [simp]:
  "fire_look i k (setEnabled j b st) = fire_look i k st" "fire_look i k (defer_cron j u st) = fire_look i k st"
  "fire_look i k (disable_one_shot c st) = fire_look i k st"
  "fire_look i k (recordFire i e st) = (if k = fe_fireKey e then Some e else fire_look i k st)"
  by (simp_all add: fire_look_def recordFire_def mf_record_def mf_look_def map_of_AList_update)

lemma ended_entry_fields [simp]:
  "fe_fireKey (ended_entry e t s n) = fe_fireKey e" "fe_endedAt (ended_entry e t s n) = Some t"
  "fe_fireKey (outcome_entry env e k o') = fe_fireKey e" "fe_endedAt (outcome_entry env e k o') = Some (se_ended env k)"
  "fe_fireKey (running_entry k th t sch) = k" "fe_fireKey (disabled_entry env i k t) = k"
  "fe_endedAt (disabled_entry env i k t) = Some (se_ended env k)"
  by (simp_all add: ended_entry_def outcome_entry_def running_entry_def disabled_entry_def)

lemma settle_outcome_log:
  assumes "to_deferred o' \<or> to_ran o' \<or> to_authzFailed o'" "tb_id c = i" "fe_fireKey e = k"
  shows "\<exists>e'. fire_look i k (sd_crons (snd (settle_outcome env c k e o' st))) = Some e' \<and> fe_endedAt e' = Some (se_ended env k)"
  using assms by (auto simp: settle_outcome_def Let_def)

lemma fireEnabled_log:
  assumes "tb_id c = i"
  shows "(\<exists>e. fire_look i k (sd_crons (snd (fireEnabled env c t k s st))) = Some e \<and> fe_endedAt e = Some (se_ended env k)) \<or>
    fst (fireEnabled env c t k s st) = Fired \<and> sd_effects (snd (fireEnabled env c t k s st)) = sd_effects st \<and>
    (\<exists>o'. fst (cron_trigger env c t k s st) = Some o' \<and> \<not> to_ran o' \<and> \<not> to_deferred o' \<and> \<not> to_authzFailed o')"
proof (cases "truthy (cn_loopId c)")
  case True
  then show ?thesis using assms by (auto simp: fireEnabled_def fire_loop_cron_def Let_def split_def)
next
  case False
  obtain outcome effects idem where run: "cron_trigger env c t k s st = (outcome, effects, idem)" by (metis prod.collapse)
  show ?thesis
  proof (cases outcome)
    case None
    then show ?thesis using False run assms by (auto simp: fireEnabled_def cron_trigger_def Let_def split_def)
  next
    case (Some o')
    show ?thesis
    proof (cases "to_deferred o' \<or> to_ran o' \<or> to_authzFailed o'")
      case True
      then show ?thesis
        using False run assms Some settle_outcome_log [OF True assms] by (auto simp: fireEnabled_def cron_trigger_def Let_def split_def)
    next
      case noop: False
      then have "effects = []" using runTrigger_effects_ran run Some by (fastforce simp: cron_trigger_def)
      then show ?thesis using noop fireEnabled_trigger [OF False run] Some run by auto
    qed
  qed
qed

text \<open>No fire is left running in the log. Whatever becomes of a fire - it ends, is refused, deferred or skipped, or its turn throws - afterwards the log of the cron holds an entry under the key of the fire with the time of its end; the only exception is a fire that the idempotency store turned away as a duplicate, which did nothing.\<close>

lemma fire_closed_in_log:
  assumes "all_stored (\<lambda>i c. tb_id c = i) (cr_backing (sd_crons st))" "fire_cron env i t k s st = (r, st1)"
  shows "(\<exists>e. fire_look i k (sd_crons st1) = Some e \<and> fe_endedAt e = Some (se_ended env k)) \<or>
    r = Fired \<and> sd_effects st1 = sd_effects st \<and>
    (\<exists>c o'. get_cron i (sd_crons st) = Some c \<and> fst (cron_trigger env c t k s st) = Some o' \<and>
       \<not> to_ran o' \<and> \<not> to_deferred o' \<and> \<not> to_authzFailed o')"
proof (rule fire_cron_cases [of env i t k s st])
  fix c assume c: "get_cron i (sd_crons st) = Some c" "fire_cron env i t k s st = fireEnabled env c t k s st"
  have "tb_id c = i" using assms(1) c(1) by (auto simp: get_cron_def dest: all_storedD)
  moreover have "fireEnabled env c t k s st = (r, st1)" using assms(2) c(2) by simp
  ultimately show ?thesis using fireEnabled_log [of c i k env t s st] c(1) by auto
qed (use assms(2) in auto)

subsection \<open>What a fire disables\<close>

lemma get_disabled:
  "get_cron i (setEnabled j b st) = map_option (\<lambda>c. if i = j then c\<lparr>tb_enabled := b, cn_archived := (if b then Some False else cn_archived c)\<rparr> else c) (get_cron i st)"
  by (simp add: setEnabled_def get_modify_cron) (simp add: option.map_ident)

lemma get_cron_recordFire [simp]: "get_cron i (recordFire j e st) = get_cron i st"
  by (simp add: get_cron_def recordFire_def)

text \<open>A fire that is refused, and a fire of a one-shot cron that ends, leave the cron inactive, so that no later fire of it does anything until someone enables it again.\<close>

lemma fire_disables:
  assumes "all_stored (\<lambda>i c. tb_id c = i) (cr_backing (sd_crons st))" "fire_cron env i t k s st = (r, st1)"
    and "r = AuthzFailed \<or> r = Fired \<and> (\<exists>c. get_cron i (sd_crons st) = Some c \<and> isOneShotSchedule (cn_schedule c))"
  shows "(case get_cron i (sd_crons st1) of None \<Rightarrow> True | Some c \<Rightarrow> inactive c) \<and>
    fst (fire_cron env2 i t2 k2 s2 (st2\<lparr>sd_crons := sd_crons st1\<rparr>)) = AuthzFailed \<and>
    sd_effects (snd (fire_cron env2 i t2 k2 s2 (st2\<lparr>sd_crons := sd_crons st1\<rparr>))) = sd_effects st2"
proof -
  have off: "case get_cron i (sd_crons st1) of None \<Rightarrow> True | Some c \<Rightarrow> inactive c"
  proof (rule fire_cron_cases [of env i t k s st])
    fix c assume c: "get_cron i (sd_crons st) = Some c" "fire_cron env i t k s st = fireEnabled env c t k s st"
    have "tb_id c = i" using assms(1) c(1) by (auto simp: get_cron_def dest: all_storedD)
    then show ?thesis
      using assms(2,3) c
      by (auto simp: fireEnabled_def fire_loop_cron_def settle_outcome_def disable_one_shot_def Let_def get_disabled inactive_def
          split: prod.splits option.splits if_splits)
  qed (use assms(2) in auto)
  then show ?thesis by (auto simp: fire_cron_def split: option.splits)
qed

subsection \<open>A slot deferred for a busy session is tried again\<close>

lemma deferred_fire:
  assumes "get_cron i (sd_crons st) = Some c" "tb_id c = i" "se_meanwhile env k = id"
    and "fire_cron env i t k s st = (FireDeferredUntil, st1)"
  shows "get_cron i (sd_crons st1) = Some (c\<lparr>cn_deferUntil := Some (se_ended env k + BUSY_DEFER_MS)\<rparr>) \<and> sd_jobs st1 = sd_jobs st \<and>
    (\<exists>sl. s = Some sl \<and> t - sl \<le> BUSY_DEFER_MAX_LATE_MS)"
proof -
  have fire: "fireEnabled env c t k s st = (FireDeferredUntil, st1)"
    using assms(1,4) by (auto simp: fire_cron_def split: if_splits)
  have loop: "\<not> truthy (cn_loopId c)" using fire fireEnabled_loop [of c env t k s st] by auto
  obtain outcome effects idem where run: "cron_trigger env c t k s st = (outcome, effects, idem)" by (metis prod.collapse)
  obtain o' where o': "outcome = Some o'" "to_deferred o'"
    using fireEnabled_trigger(3) [OF loop run] fire by (auto split: option.splits if_splits)
  have "ts_deferWhenBusy (cron_spec env c t k (cronFireThreadRef (se_sha env) (tb_id c) k) s)"
    using run o'
    by (auto simp: cron_trigger_def runTrigger_def refused_outcome_def fire_outcome_def trigger_body_def message_body_def result_body_def Let_def
        split: reply.splits sum.splits bool.splits prod.splits if_splits option.splits fire_result.splits)
  moreover have "get_cron i (snd (beginFire i e False (sd_crons st))) = get_cron i (sd_crons st)" for e
    by (simp add: beginFire_def)
  ultimately show ?thesis
    using fire loop run o' assms(1-3)
    by (auto simp: fireEnabled_def cron_trigger_def settle_outcome_def defer_cron_def get_modify_cron cron_spec_def Let_def split_def
        split: option.splits if_splits)
qed

text \<open>C39: A slot that finds its session busy is not lost. When the fire of a claimed slot is deferred, which happens only within ten minutes of the slot, the job takes its claim back and queues the same slot again for thirty seconds later; until then the slot is only queued anew, afterwards it can be claimed again.\<close>

theorem busy_slot_retried:
  assumes "claimSlot (se_knownZone env) (se_croner env) i slot t (sd_crons st) = (Inr True, crons)"
    and "fire_cron env i t (slot_key i slot) (Some slot) (st\<lparr>sd_crons := crons\<rparr>) = (FireDeferredUntil, st')"
    and "fireJob env False False t \<lparr>cj_cronId = i, cj_scheduledAt = slot, cj_notBefore = nb\<rparr> st = (r, st1)"
    and "get_cron i (sd_crons st) = Some c" "tb_id c = i" "\<not> isDeferred c t" "slot \<le> t" "\<bar>slot\<bar> \<le> 9007199254740991"
    and "se_meanwhile env (slot_key i slot) = id"
  defines "until \<equiv> se_ended env (slot_key i slot) + BUSY_DEFER_MS"
  shows "t - slot \<le> BUSY_DEFER_MAX_LATE_MS \<and> r = Inr () \<and>
    sd_jobs st1 = sd_jobs st @ [\<lparr>cj_cronId = i, cj_scheduledAt = slot, cj_notBefore = Some until\<rparr>] \<and>
    (t2 < until \<longrightarrow> slot \<le> t2 \<longrightarrow>
       fireJob env stop1 stop2 t2 \<lparr>cj_cronId = i, cj_scheduledAt = slot, cj_notBefore = nb2\<rparr> st1 =
         (Inr (), enqueueFire \<lparr>cj_cronId = i, cj_scheduledAt = slot, cj_notBefore = Some until\<rparr> st1)) \<and>
    fst (claimSlot (se_knownZone env) (se_croner env) i slot t2 (sd_crons st1)) = Inr True"
proof -
  let ?kz = "se_knownZone env" and ?cr = "se_croner env" and ?k = "slot_key i slot"
  obtain c' where c': "claim_transform ?kz ?cr slot t c = Inr (True, c')" "crons = modify_cron i (\<lambda>_. c') (sd_crons st)"
    using assms(1,4) by (auto simp: claimSlot_def split: sum.splits)
  from c'(1) show ?thesis
  proof (cases rule: claim_transform_cases)
    case (2 n)
    have c: "\<not> inactive c" "next_slot ?kz ?cr c = Inr (Some slot)"
      using c'(1) by (auto simp: claim_transform_def and_then_Inr split: if_splits)
    have claimed: "get_cron i crons = Some c'" using c'(2) assms(4) by (simp add: get_modify_cron)
    have id': "tb_id c' = i" "\<not> inactive c'" "tb_lastFiredAt c' = Some t" using 2 assms(5) c(1) by (auto simp: inactive_def)
    have def: "get_cron i (sd_crons st') = Some (c'\<lparr>cn_deferUntil := Some until\<rparr>)" "sd_jobs st' = sd_jobs st"
      "t - slot \<le> BUSY_DEFER_MAX_LATE_MS"
      using deferred_fire [of i "st\<lparr>sd_crons := crons\<rparr>" c' env ?k t "Some slot" st'] claimed id' assms(2,9) by (auto simp: until_def)
    let ?c = "c'\<lparr>cn_deferUntil := Some until, tb_lastFiredAt := tb_lastFiredAt c, cn_nextFireAt := Some slot\<rparr>"
    let ?st = "in_crons (unclaimSlot i slot t (tb_lastFiredAt c)) st'"
    have after: "get_cron i (sd_crons ?st) = Some ?c" using def(1) id'(3) by (simp add: unclaimSlot_def get_modify_cron)
    have act: "\<not> inactive ?c" using id'(2) by (simp add: inactive_def)
    have nxt: "next_slot ?kz ?cr ?c = Inr (Some slot)"
      using assms(8) by (simp add: next_slot_def recoverNextFireAt_def finiteEpochMs_def safe_num)
    have "enqueueNext env i ?st = (Inr (), enqueueFire \<lparr>cj_cronId = i, cj_scheduledAt = slot, cj_notBefore = Some until\<rparr> ?st)"
      using after act nxt id'(1) by (simp add: enqueueNext_def nextJob_def)
    moreover have "fireJob env False False t \<lparr>cj_cronId = i, cj_scheduledAt = slot, cj_notBefore = nb\<rparr> st = enqueueNext env i ?st"
      using assms(1,2,4-7) c by (simp add: fireJob_def)
    ultimately have fin: "r = Inr ()" "st1 = enqueueFire \<lparr>cj_cronId = i, cj_scheduledAt = slot, cj_notBefore = Some until\<rparr> ?st"
      using assms(3) by auto
    have crons1: "sd_crons st1 = sd_crons ?st" by (simp add: fin(2) enqueueFire_def)
    obtain n' where "advanceNextFireAt ?kz ?cr (cn_schedule c) (if isCalendarSchedule (cn_schedule c) then slot else t2) = Inr n'"
      using 2(4) by (auto simp: advanceNextFireAt_def and_then_Inr split: if_splits)
    then have "fst (claimSlot ?kz ?cr i slot t2 (sd_crons st1)) = Inr True"
      using after act nxt 2 by (simp add: crons1 claimSlot_def claim_transform_def)
    moreover have "fireJob env stop1 stop2 t2 \<lparr>cj_cronId = i, cj_scheduledAt = slot, cj_notBefore = nb2\<rparr> st1 =
        (Inr (), enqueueFire \<lparr>cj_cronId = i, cj_scheduledAt = slot, cj_notBefore = Some until\<rparr> st1)" if "t2 < until" "slot \<le> t2"
      using that after act nxt by (simp add: fireJob_def crons1 isDeferred_def)
    ultimately show ?thesis using def(2,3) fin by (auto simp: enqueueFire_def)
  qed simp
qed

definition demo_env :: "(turn_request \<Rightarrow> turn_result reply) \<Rightarrow> scheduler_env" where
  "demo_env run' =
     \<lparr>se_links = (\<lambda>_. None), se_opts = default_idem_options, se_deps = demo_trigger_deps\<lparr>td_run := run'\<rparr>, se_knownZone = (\<lambda>_. True),
      se_croner = demo_croner, se_sha = (\<lambda>s. s), se_utcMinute = (\<lambda>_. []), se_statusName = (\<lambda>_. []), se_directory = None,
      se_clock = (\<lambda>_. (6000, 6500)), se_ended = (\<lambda>_. 7000), se_meanwhile = (\<lambda>_. id), se_failure = (\<lambda>_. []), se_fireLoop = None,
      se_maxFiresPerTick = 100\<rparr>"

definition demo_reminder :: cron where
  "demo_reminder =
     \<lparr>tb_id = ''c'', tb_ownerScopeId = ''personal:ann'', tb_owner = ''ann'', tb_createdBy = ''ann'', tb_ownerConsentedAt = None,
      tb_destination = Some (bare_destination ''principal'' ''ann''), tb_enabled = True, tb_createdAt = 0, tb_lastFiredAt = None,
      tb_recipientConsent = None, cn_schedule = \<lparr>cs_cron = None, cs_timezone = None, cs_everyMs = None, cs_firstFireAt = None\<rparr>,
      cn_nextFireAt = Some 5000, cn_lastAttemptAt = None, cn_deferUntil = None, cn_title = None, cn_archived = None, cn_action = None,
      cn_message = Some ''stand up'', cn_loopId = None, cn_runAs = None, cn_members = None, cn_unattendedGrants = None, cn_fireLog = None,
      cn_lastFireNote = None\<rparr>"

definition demo_scheduler :: "cron \<Rightarrow> scheduler_state" where
  "demo_scheduler c =
     \<lparr>sd_crons = (new_cron_store None)\<lparr>cr_backing := [(''c'', c)]\<rparr>, sd_idem = demo_idem, sd_effects = [], sd_jobs = [],
      sd_lastStrandedSweep = 0, sd_lastFireGc = 0\<rparr>"

definition demo_reminded :: "fire_end \<times> scheduler_state" where
  "demo_reminded = fire_cron (demo_env (\<lambda>_. Rejects)) ''c'' 6000 (slot_key ''c'' 5000) (Some 5000) (demo_scheduler demo_reminder)"

lemma demo_reminded_facts:
  "fst demo_reminded = Fired" "length (sd_effects (snd demo_reminded)) = 1" "backing_ok (sd_idem (demo_scheduler c))"
  "map_option cn_loopId (get_cron ''c'' (sd_crons (snd demo_reminded))) = Some None"
proof -
  have "case demo_reminded of (outcome, st) \<Rightarrow>
      outcome = Fired \<and> length (sd_effects st) = 1 \<and> map_option cn_loopId (get_cron ''c'' (sd_crons st)) = Some None" by code_simp
  then show "fst demo_reminded = Fired" "length (sd_effects (snd demo_reminded)) = 1"
    "map_option cn_loopId (get_cron ''c'' (sd_crons (snd demo_reminded))) = Some None"
    unfolding case_prod_beta by blast+
  show "backing_ok (sd_idem (demo_scheduler c))" by (simp add: demo_scheduler_def demo_idem_def backing_ok_def)
qed

lemma demo_keyed: "tb_id c = ''c'' \<Longrightarrow> all_stored (\<lambda>i c. tb_id c = i) (cr_backing (sd_crons (demo_scheduler c)))"
  by (simp add: all_stored_def demo_scheduler_def mm_inv_def mm_get_def)

theorem cron_slot_effects_once_witness:
  "sd_effects (snd (fire_cron (demo_env (\<lambda>_. Rejects)) ''c'' 9000 (slot_key ''c'' 5000) (Some 5000) (snd demo_reminded))) =
     sd_effects (snd demo_reminded)"
proof -
  have "fire_cron (demo_env (\<lambda>_. Rejects)) ''c'' 6000 (slot_key ''c'' 5000) (Some 5000) (demo_scheduler demo_reminder) = (Fired, snd demo_reminded)"
    using demo_reminded_facts(1) unfolding demo_reminded_def by (metis prod.collapse)
  moreover have "sd_effects (snd demo_reminded) \<noteq> sd_effects (demo_scheduler demo_reminder)"
    using demo_reminded_facts(2) by (auto simp: demo_scheduler_def)
  ultimately show ?thesis
    using cron_slot_effects_once [of "demo_env (\<lambda>_. Rejects)" "''c''" 6000 5000 "demo_scheduler demo_reminder" "snd demo_reminded" "[]"
        "snd demo_reminded" "demo_env (\<lambda>_. Rejects)" 9000 "Some 5000"] demo_reminded_facts(3,4)
    by (auto simp: idem_after_def demo_env_def default_idem_options_def)
qed

lemma fire_closed_in_log_witness:
  "map_option fe_endedAt (fire_look ''c'' (slot_key ''c'' 5000) (sd_crons (snd demo_reminded))) = Some (Some 7000)"
proof -
  have "fire_cron (demo_env (\<lambda>_. Rejects)) ''c'' 6000 (slot_key ''c'' 5000) (Some 5000) (demo_scheduler demo_reminder) =
      (fst demo_reminded, snd demo_reminded)" by (simp add: demo_reminded_def)
  moreover have "sd_effects (snd demo_reminded) \<noteq> sd_effects (demo_scheduler demo_reminder)"
    using demo_reminded_facts(2) by (auto simp: demo_scheduler_def)
  moreover have "all_stored (\<lambda>i c. tb_id c = i) (cr_backing (sd_crons (demo_scheduler demo_reminder)))"
    by (rule demo_keyed) (simp add: demo_reminder_def)
  ultimately show ?thesis
    using fire_closed_in_log [of "demo_scheduler demo_reminder" "demo_env (\<lambda>_. Rejects)" "''c''" 6000 "slot_key ''c'' 5000" "Some 5000"]
    by (fastforce simp: demo_env_def)
qed

lemma fire_disables_witness:
  "fst (fire_cron (demo_env (\<lambda>_. Rejects)) ''c'' 8000 ''k'' None ((demo_scheduler demo_reminder)\<lparr>sd_crons := sd_crons (snd demo_reminded)\<rparr>)) = AuthzFailed"
proof -
  have "fire_cron (demo_env (\<lambda>_. Rejects)) ''c'' 6000 (slot_key ''c'' 5000) (Some 5000) (demo_scheduler demo_reminder) = (Fired, snd demo_reminded)"
    using demo_reminded_facts(1) unfolding demo_reminded_def by (metis prod.collapse)
  moreover have "get_cron ''c'' (sd_crons (demo_scheduler demo_reminder)) = Some demo_reminder"
    by (simp add: demo_scheduler_def get_cron_def mm_get_def)
  moreover have "isOneShotSchedule (cn_schedule demo_reminder)" by (simp add: demo_reminder_def isOneShotSchedule_def)
  moreover have "all_stored (\<lambda>i c. tb_id c = i) (cr_backing (sd_crons (demo_scheduler demo_reminder)))"
    by (rule demo_keyed) (simp add: demo_reminder_def)
  ultimately show ?thesis using fire_disables by blast
qed

definition demo_busy :: "turn_request \<Rightarrow> turn_result reply" where
  "demo_busy _ = Reply ((bare_result TRefused)\<lparr>tr_refusalKind := Some SessionBusy\<rparr>)"

definition demo_digest :: cron where
  "demo_digest = demo_reminder\<lparr>cn_message := None, cn_action := Some ''!run x''\<rparr>"

definition demo_claimed :: cron_store where
  "demo_claimed = (new_cron_store None)\<lparr>cr_backing := [(''c'', demo_digest\<lparr>tb_lastFiredAt := Some 6000, cn_nextFireAt := None\<rparr>)]\<rparr>"

theorem busy_slot_retried_witness:
  "\<exists>st1. fireJob (demo_env demo_busy) False False 6000 \<lparr>cj_cronId = ''c'', cj_scheduledAt = 5000, cj_notBefore = None\<rparr>
       (demo_scheduler demo_digest) = (Inr (), st1) \<and>
     sd_jobs st1 = [\<lparr>cj_cronId = ''c'', cj_scheduledAt = 5000, cj_notBefore = Some 37000\<rparr>]"
proof -
  let ?env = "demo_env demo_busy" and ?st = "demo_scheduler demo_digest"
  have claim: "claimSlot (se_knownZone ?env) (se_croner ?env) ''c'' 5000 6000 (sd_crons ?st) = (Inr True, demo_claimed)"
    by (simp add: demo_env_def demo_scheduler_def demo_digest_def demo_reminder_def demo_claimed_def demo_cron_simps)
  have "fst (fire_cron ?env ''c'' 6000 (slot_key ''c'' 5000) (Some 5000) (?st\<lparr>sd_crons := demo_claimed\<rparr>)) = FireDeferredUntil"
    by code_simp
  then obtain st' where fire: "fire_cron ?env ''c'' 6000 (slot_key ''c'' 5000) (Some 5000) (?st\<lparr>sd_crons := demo_claimed\<rparr>) = (FireDeferredUntil, st')"
    by (metis prod.collapse)
  obtain r st1 where job: "fireJob ?env False False 6000 \<lparr>cj_cronId = ''c'', cj_scheduledAt = 5000, cj_notBefore = None\<rparr> ?st = (r, st1)"
    by fastforce
  have c: "get_cron ''c'' (sd_crons ?st) = Some demo_digest" "tb_id demo_digest = ''c''" "\<not> isDeferred demo_digest 6000"
    by (simp_all add: demo_scheduler_def get_cron_def mm_get_def demo_digest_def demo_reminder_def isDeferred_def)
  show ?thesis
    using busy_slot_retried [OF claim fire job c] job by (auto simp: demo_env_def demo_scheduler_def BUSY_DEFER_MS_def)
qed

end
