(* ===== verification/Delivery_Postgres.thy ===== *)
theory Delivery_Postgres
  imports Delivery
begin

text \<open>
  The outbox as a table, \<^verbatim>\<open>src/src/delivery/postgres-delivery-store.ts\<close>, and its equivalence with the in-memory store. A row
  is a delivery with the end of its claim and the cron it came from. Each statement is atomic and reads the clock once; the table keeps its rows in the
  order of insertion, in which ties of \<open>ORDER BY\<close> are broken. The clock of the database and that of the process are one.
\<close>

subsection \<open>Table\<close>

record delivery_row =
  dr_delivery :: delivery
  dr_sourceCronId :: "string option"
  dr_claimExpiresAt :: "time option"

record delivery_table =
  dt_rows :: "delivery_row list"
  dt_wakeups :: nat

definition update_rows :: "(delivery \<Rightarrow> bool) \<Rightarrow> (delivery_row \<Rightarrow> delivery_row) \<Rightarrow> delivery_table \<Rightarrow> delivery_table" where
  "update_rows P f tb = tb\<lparr>dt_rows := map (\<lambda>r. if P (dr_delivery r) then f r else r) (dt_rows tb)\<rparr>"

definition on_delivery :: "(delivery \<Rightarrow> delivery) \<Rightarrow> delivery_row \<Rightarrow> delivery_row" where
  "on_delivery f r = r\<lparr>dr_delivery := f (dr_delivery r)\<rparr>"

definition table_deliveries :: "delivery_table \<Rightarrow> delivery list" where
  "table_deliveries tb = map dr_delivery (dt_rows tb)"

definition unclaimed_row :: "time \<Rightarrow> delivery_row \<Rightarrow> bool" where
  "unclaimed_row now r \<longleftrightarrow> (case dr_claimExpiresAt r of None \<Rightarrow> True | Some t \<Rightarrow> t \<le> now)"

subsection \<open>Operations\<close>

text \<open>\<open>cronIdExpr\<close> is the pattern of a cron's thread reference as the database evaluates it.\<close>

definition backfillDeliverySourceCronIdBatch :: "(string \<Rightarrow> string option) \<Rightarrow> nat \<Rightarrow> delivery_table \<Rightarrow> nat \<times> delivery_table" where
  "backfillDeliverySourceCronIdBatch cronIdExpr limit tb =
     (let cron_of = (\<lambda>r. Option.bind (dl_provenance (dr_delivery r)) (\<lambda>p. cronIdExpr (dp_sourceThreadRef p)));
          batch = take limit (filter (\<lambda>r. dr_sourceCronId r = None \<and> cron_of r \<noteq> None) (dt_rows tb));
          ids = map (\<lambda>r. dl_id (dr_delivery r)) batch in
      (length batch, tb\<lparr>dt_rows := map (\<lambda>r. if dl_id (dr_delivery r) \<in> set ids then r\<lparr>dr_sourceCronId := cron_of r\<rparr> else r) (dt_rows tb)\<rparr>))"

definition pd_expireOveraged :: "time \<Rightarrow> time \<Rightarrow> delivery_table \<Rightarrow> delivery_table" where
  "pd_expireOveraged maxAgeMs now tb =
     tb\<lparr>dt_rows := map (\<lambda>r. let d = dr_delivery r in
         if dl_deliveredAt d = None \<and> dl_expiredAt d = None \<and> \<not> dl_shadow d \<and> dl_createdAt d \<le> now - maxAgeMs \<and> unclaimed_row now r
         then on_delivery (\<lambda>d. d\<lparr>dl_expiredAt := Some now\<rparr>) r else r) (dt_rows tb)\<rparr>"

definition source_cron :: "delivery_input \<Rightarrow> string option" where
  "source_cron input = cronIdOf (map_option dp_sourceThreadRef (din_provenance input))"

definition pd_wake :: "bool \<Rightarrow> delivery_table \<Rightarrow> delivery_table" where
  "pd_wake shadow tb = (if shadow then tb else tb\<lparr>dt_wakeups := Suc (dt_wakeups tb)\<rparr>)"

definition pd_row :: "string \<Rightarrow> delivery_table \<Rightarrow> delivery option" where
  "pd_row key tb = List.find (\<lambda>d. dl_idempotencyKey d = key) (table_deliveries tb)"

text \<open>The statement inserts, revives an expired row of the key, or leaves the row of the key alone.\<close>

definition pd_enqueue :: "string \<Rightarrow> delivery_input \<Rightarrow> time \<Rightarrow> delivery_table \<Rightarrow> delivery \<times> delivery_table" where
  "pd_enqueue uuid input now tb =
     (case pd_row (din_idempotencyKey input) tb of
        None \<Rightarrow>
          (let d = new_delivery uuid input now in
           (d, pd_wake (din_shadow input)
                 (tb\<lparr>dt_rows := dt_rows tb @ [\<lparr>dr_delivery = d, dr_sourceCronId = source_cron input, dr_claimExpiresAt = None\<rparr>]\<rparr>)))
      | Some existing \<Rightarrow>
          if dl_deliveredAt existing = None \<and> dl_expiredAt existing \<noteq> None
          then (revive input now existing, pd_wake (din_shadow input)
                 (update_rows (\<lambda>d. dl_idempotencyKey d = din_idempotencyKey input)
                    (\<lambda>r. (on_delivery (revive input now) r)\<lparr>dr_sourceCronId := source_cron input, dr_claimExpiresAt := None\<rparr>) tb))
          else (existing, tb))"

definition pd_pending :: "string \<Rightarrow> delivery_table \<Rightarrow> delivery list" where
  "pd_pending ty tb = sort_key dl_createdAt (filter (is_pending ty) (table_deliveries tb))"

definition pd_claimPending :: "time \<Rightarrow> string \<Rightarrow> time \<Rightarrow> time \<Rightarrow> delivery_table \<Rightarrow> delivery list \<times> delivery_table" where
  "pd_claimPending maxAgeMs ty ttlMs now tb =
     (let tb = pd_expireOveraged maxAgeMs now tb;
          mine = (\<lambda>r. is_pending ty (dr_delivery r) \<and> unclaimed_row now r) in
      (sort_key dl_createdAt (map dr_delivery (filter mine (dt_rows tb))),
       tb\<lparr>dt_rows := map (\<lambda>r. if mine r then r\<lparr>dr_claimExpiresAt := Some (now + ttlMs)\<rparr> else r) (dt_rows tb)\<rparr>))"

definition pd_listShadow :: "int option \<Rightarrow> delivery_table \<Rightarrow> delivery list" where
  "pd_listShadow limit tb =
     take (limit_of 100 limit) (sort_key (\<lambda>d. - dl_createdAt d) (filter (\<lambda>d. dl_shadow d \<and> dl_deliveredAt d = None) (table_deliveries tb)))"

definition pd_ack :: "string \<Rightarrow> time \<Rightarrow> time option \<Rightarrow> delivery_table \<Rightarrow> delivery_table" where
  "pd_ack i t slackApiMs tb =
     update_rows (\<lambda>d. dl_id d = i \<and> dl_deliveredAt d = None)
       (on_delivery (\<lambda>d. d\<lparr>dl_deliveredAt := Some t, dl_expiredAt := None, dl_deliverLatencyMs := Some (max 0 (t - dl_createdAt d)),
          dl_slackApiMs := (case slackApiMs of None \<Rightarrow> dl_slackApiMs d | Some m \<Rightarrow> Some m)\<rparr>)) tb"

definition pd_ackByKey :: "string \<Rightarrow> string \<Rightarrow> time \<Rightarrow> delivery_table \<Rightarrow> delivery_table" where
  "pd_ackByKey uuid key t tb =
     (case pd_row key tb of
        None \<Rightarrow> tb\<lparr>dt_rows := dt_rows tb @ [\<lparr>dr_delivery = tombstone uuid key t, dr_sourceCronId = None, dr_claimExpiresAt = None\<rparr>]\<rparr>
      | Some _ \<Rightarrow>
          update_rows (\<lambda>d. dl_idempotencyKey d = key)
            (on_delivery (\<lambda>d. d\<lparr>dl_deliveredAt := (case dl_deliveredAt d of Some a \<Rightarrow> Some a | None \<Rightarrow> Some t),
               dl_expiredAt := (if dl_deliveredAt d = None then None else dl_expiredAt d)\<rparr>)) tb)"

definition pd_setEditRefByKey :: "string \<Rightarrow> string \<Rightarrow> delivery_table \<Rightarrow> delivery_table" where
  "pd_setEditRefByKey key editRef tb =
     update_rows (\<lambda>d. dl_idempotencyKey d = key \<and> dl_deliveredAt d = None)
       (on_delivery (\<lambda>d. d\<lparr>dl_destination := (dl_destination d)\<lparr>d_editRef := Some editRef\<rparr>\<rparr>)) tb"

definition pd_get :: "string \<Rightarrow> delivery_table \<Rightarrow> delivery option" where
  "pd_get i tb = List.find (\<lambda>d. dl_id d = i) (table_deliveries tb)"

definition pd_recordRecipientThread :: "string \<Rightarrow> string \<Rightarrow> time \<Rightarrow> delivery_table \<Rightarrow> delivery_table" where
  "pd_recordRecipientThread i ref t tb =
     update_rows (\<lambda>d. dl_id d = i \<and> d_type (dl_destination d) = ''principal'')
       (on_delivery (\<lambda>d. d\<lparr>dl_recipientThreadRef := Some ref,
          dl_expiredAt := (if dl_deliveredAt d = None then None else dl_expiredAt d),
          dl_deliveredAt := (case dl_deliveredAt d of Some a \<Rightarrow> Some a | None \<Rightarrow> Some t)\<rparr>)) tb"

definition latest_rows :: "nat \<Rightarrow> delivery list \<Rightarrow> delivery list" where
  "latest_rows n ds = rev (take n (sort_key (\<lambda>d. - dl_createdAt d) ds))"

definition pd_listByRecipientThread :: "string \<Rightarrow> int option \<Rightarrow> delivery_table \<Rightarrow> delivery list" where
  "pd_listByRecipientThread ref limit tb =
     latest_rows (limit_of 20 limit)
       (filter (\<lambda>d. dl_recipientThreadRef d = Some ref \<and> d_type (dl_destination d) = ''principal'') (table_deliveries tb))"

definition pd_listBySourceSession :: "string \<Rightarrow> string \<Rightarrow> int option \<Rightarrow> delivery_table \<Rightarrow> delivery list" where
  "pd_listBySourceSession sourceSessionId sourceThreadRef limit tb =
     latest_rows (limit_of 20 limit)
       (filter (\<lambda>d. case dl_provenance d of None \<Rightarrow> False
          | Some p \<Rightarrow> dp_sourceSessionId p = Some sourceSessionId \<or> dp_sourceThreadRef p = sourceThreadRef) (table_deliveries tb))"

subsection \<open>Simulation\<close>

text \<open>The table holds the deliveries of the store in the same order, with the same claims.\<close>

definition claim_of :: "delivery_row \<Rightarrow> time" where
  "claim_of r = (case dr_claimExpiresAt r of None \<Rightarrow> 0 | Some t \<Rightarrow> t)"

definition same_deliveries :: "delivery_store \<Rightarrow> delivery_table \<Rightarrow> bool" where
  "same_deliveries s tb \<longleftrightarrow>
     deliveries_ok s \<and> (\<forall>i. map_of (ds_claimedUntil s) i \<noteq> None \<longrightarrow> map_of (ds_deliveries s) i \<noteq> None) \<and>
     table_deliveries tb = map_values (ds_deliveries s) \<and>
     list_all (\<lambda>r. claim_of r = claimed_until (dl_id (dr_delivery r)) s) (dt_rows tb) \<and> dt_wakeups tb = ds_wakeups s"

lemma values_keyed: "deliveries_ok s \<Longrightarrow> (i, d) \<in> set (ds_deliveries s) \<Longrightarrow> dl_id d = i"
  by (auto simp: deliveries_ok_def well_keyed_def)

lemma stored_value:
  assumes "deliveries_ok s"
  shows "d \<in> set (map_values (ds_deliveries s)) \<longleftrightarrow> map_of (ds_deliveries s) (dl_id d) = Some d"
proof -
  have keyed: "well_keyed dl_id (ds_deliveries s)" using assms by (simp add: deliveries_ok_def)
  show ?thesis
  proof
    assume "d \<in> set (map_values (ds_deliveries s))"
    then show "map_of (ds_deliveries s) (dl_id d) = Some d" using well_keyed_mem [OF keyed, of d] by simp
  next
    assume "map_of (ds_deliveries s) (dl_id d) = Some d"
    then have "(dl_id d, d) \<in> set (ds_deliveries s)" by (rule map_of_SomeD)
    then show "d \<in> set (map_values (ds_deliveries s))" by force
  qed
qed

lemma id_unique:
  "map_of m (dl_id d) = Some d \<Longrightarrow> map_of m (dl_id e) = Some e \<Longrightarrow> dl_id d = dl_id e \<Longrightarrow> d = e"
  by (metis option.inject)

lemma find_unique:
  "(\<And>x y. x \<in> set xs \<Longrightarrow> y \<in> set xs \<Longrightarrow> P x \<Longrightarrow> P y \<Longrightarrow> x = y) \<Longrightarrow> List.find P xs = Some x \<longleftrightarrow> x \<in> set xs \<and> P x"
  by (induction xs) auto

lemma key_unique:
  assumes "deliveries_ok s" "d \<in> set (map_values (ds_deliveries s))" "e \<in> set (map_values (ds_deliveries s))"
    and "dl_idempotencyKey d = dl_idempotencyKey e"
  shows "d = e"
proof -
  have "delivery_for_key (dl_idempotencyKey d) s = Some d" "delivery_for_key (dl_idempotencyKey d) s = Some e"
    using assms deliveries_ok_key [OF assms(1)] stored_value [OF assms(1)] by auto
  then show ?thesis by simp
qed

lemma same_row:
  assumes "same_deliveries s tb"
  shows "pd_row key tb = delivery_for_key key s"
proof -
  have ok: "deliveries_ok s" and vals: "table_deliveries tb = map_values (ds_deliveries s)"
    using assms by (simp_all add: same_deliveries_def)
  have "pd_row key tb = Some d \<longleftrightarrow> delivery_for_key key s = Some d" for d
    using find_unique [of "map_values (ds_deliveries s)" "\<lambda>d. dl_idempotencyKey d = key" d] key_unique [OF ok]
      deliveries_ok_key [OF ok, of key d] stored_value [OF ok, of d] by (auto simp: pd_row_def vals)
  then show ?thesis by (metis option.exhaust)
qed

lemma same_delivery_get:
  assumes "same_deliveries s tb"
  shows "pd_get i tb = map_of (ds_deliveries s) i"
proof -
  have ok: "deliveries_ok s" and vals: "table_deliveries tb = map_values (ds_deliveries s)"
    using assms by (simp_all add: same_deliveries_def)
  have "d = e" if "d \<in> set (map_values (ds_deliveries s))" "e \<in> set (map_values (ds_deliveries s))" "dl_id d = dl_id e" for d e
    using that stored_value [OF ok] by (metis option.inject)
  then have "pd_get i tb = Some d \<longleftrightarrow> map_of (ds_deliveries s) i = Some d" for d
    using find_unique [of "map_values (ds_deliveries s)" "\<lambda>d. dl_id d = i" d] stored_value [OF ok, of d]
      well_keyed_lookup [of dl_id "ds_deliveries s" i d] ok by (auto simp: pd_get_def vals deliveries_ok_def)
  then show ?thesis by (metis option.exhaust)
qed

subsection \<open>Every operation keeps the two stores in step\<close>

text \<open>An operation that rewrites every delivery by \<open>h\<close>, which keeps identifiers, and every row accordingly.\<close>

lemma same_rewrite:
  assumes same: "same_deliveries s tb" and ok: "deliveries_ok s'"
    and store: "ds_deliveries s' = map (\<lambda>(k, d). (k, h d)) (ds_deliveries s)" and ids: "\<And>d. dl_id (h d) = dl_id d"
    and rows: "dt_rows tb' = map u (dt_rows tb)"
    and row: "\<And>r. r \<in> set (dt_rows tb) \<Longrightarrow> dr_delivery (u r) = h (dr_delivery r)"
    and claim: "\<And>r. r \<in> set (dt_rows tb) \<Longrightarrow> claim_of (u r) = claimed_until (dl_id (dr_delivery r)) s'"
    and known: "\<And>i. map_of (ds_claimedUntil s') i \<noteq> None \<Longrightarrow> map_of (ds_deliveries s) i \<noteq> None"
    and wakes: "dt_wakeups tb' = ds_wakeups s'"
  shows "same_deliveries s' tb'"
proof -
  have "map_values (ds_deliveries s') = map h (map_values (ds_deliveries s))"
    by (simp add: store map_values_def split_def comp_def)
  moreover have "table_deliveries tb' = map h (table_deliveries tb)"
    using row by (simp add: table_deliveries_def rows)
  moreover have "list_all (\<lambda>r. claim_of r = claimed_until (dl_id (dr_delivery r)) s') (dt_rows tb')"
    using row claim ids by (simp add: rows list_all_iff)
  moreover have "map_of (ds_deliveries s') i \<noteq> None" if "map_of (ds_claimedUntil s') i \<noteq> None" for i
    using known [OF that] by (auto simp: store map_of_map)
  ultimately show ?thesis using same ok wakes by (simp add: same_deliveries_def)
qed

lemma modify_keyed:
  "deliveries_ok s \<Longrightarrow>
     map_modify i f (ds_deliveries s) = map (\<lambda>(k, d). (k, if dl_id d = i then f d else d)) (ds_deliveries s)"
  unfolding map_modify_def deliveries_ok_def well_keyed_def by auto

lemma same_ok: "same_deliveries s tb \<Longrightarrow> deliveries_ok s"
  by (simp add: same_deliveries_def)

lemma same_claim: "same_deliveries s tb \<Longrightarrow> r \<in> set (dt_rows tb) \<Longrightarrow> claim_of r = claimed_until (dl_id (dr_delivery r)) s"
  by (simp add: same_deliveries_def list_all_iff)

lemma same_stored:
  assumes "same_deliveries s tb" and "r \<in> set (dt_rows tb)"
  shows "map_of (ds_deliveries s) (dl_id (dr_delivery r)) = Some (dr_delivery r)"
proof -
  have "dr_delivery r \<in> set (table_deliveries tb)" using assms(2) by (simp add: table_deliveries_def)
  also have "table_deliveries tb = map_values (ds_deliveries s)" using assms(1) by (simp add: same_deliveries_def)
  finally show ?thesis using stored_value [OF same_ok [OF assms(1)]] by blast
qed

lemma same_known: "same_deliveries s tb \<Longrightarrow> map_of (ds_claimedUntil s) i \<noteq> None \<Longrightarrow> map_of (ds_deliveries s) i \<noteq> None"
  by (simp add: same_deliveries_def)

text \<open>An update of one stored delivery.\<close>

lemma same_modify:
  assumes same: "same_deliveries s tb" and keeps: "\<And>d. dl_id (f d) = dl_id d \<and> dl_idempotencyKey (f d) = dl_idempotencyKey d"
    and row: "\<And>d. map_of (ds_deliveries s) (dl_id d) = Some d \<Longrightarrow> (if P d then g d else d) = (if dl_id d = i then f d else d)"
  shows "same_deliveries (s\<lparr>ds_deliveries := map_modify i f (ds_deliveries s)\<rparr>) (update_rows P (on_delivery g) tb)"
proof (rule same_rewrite [OF same deliveries_ok_modify [OF same_ok [OF same] keeps]])
  show "ds_deliveries (s\<lparr>ds_deliveries := map_modify i f (ds_deliveries s)\<rparr>) =
      map (\<lambda>(k, d). (k, if dl_id d = i then f d else d)) (ds_deliveries s)"
    using modify_keyed [OF same_ok [OF same]] by simp
  show "dt_rows (update_rows P (on_delivery g) tb) = map (\<lambda>r. if P (dr_delivery r) then on_delivery g r else r) (dt_rows tb)"
    by (simp add: update_rows_def)
  fix r assume r: "r \<in> set (dt_rows tb)"
  show "dr_delivery (if P (dr_delivery r) then on_delivery g r else r) = (if dl_id (dr_delivery r) = i then f (dr_delivery r) else dr_delivery r)"
    using row [OF same_stored [OF same r]] by (auto simp: on_delivery_def)
  have "claim_of (if P (dr_delivery r) then on_delivery g r else r) = claim_of r" by (simp add: on_delivery_def claim_of_def)
  then show "claim_of (if P (dr_delivery r) then on_delivery g r else r) =
      claimed_until (dl_id (dr_delivery r)) (s\<lparr>ds_deliveries := map_modify i f (ds_deliveries s)\<rparr>)"
    using same_claim [OF same r] by (simp add: claimed_until_def)
next
  show "dt_wakeups (update_rows P (on_delivery g) tb) = ds_wakeups (s\<lparr>ds_deliveries := map_modify i f (ds_deliveries s)\<rparr>)"
    using same by (simp add: update_rows_def same_deliveries_def)
qed (use keeps same_known [OF same] in auto)

lemma same_insert:
  assumes same: "same_deliveries s tb" and fresh: "fresh_delivery_id uuid s" and none: "delivery_for_key key s = None"
    and d: "dl_id d = uuid" "dl_idempotencyKey d = key"
  shows "same_deliveries (s\<lparr>ds_deliveries := AList.update uuid d (ds_deliveries s), ds_byKey := AList.update key uuid (ds_byKey s)\<rparr>)
    (tb\<lparr>dt_rows := dt_rows tb @ [\<lparr>dr_delivery = d, dr_sourceCronId = c, dr_claimExpiresAt = None\<rparr>]\<rparr>)"
proof -
  have absent: "map_of (ds_deliveries s) uuid = None" using fresh by (simp add: fresh_delivery_id_def)
  then have "map_of (ds_claimedUntil s) uuid = None" using same_known [OF same] by blast
  then show ?thesis
    using same deliveries_ok_insert [OF same_ok [OF same] fresh none d] d
    by (auto simp: same_deliveries_def table_deliveries_def map_values_def update_absent [OF absent] list_all_iff claim_of_def claimed_until_def)
qed

lemma unclaimed_iff: "0 \<le> now \<Longrightarrow> unclaimed_row now r \<longleftrightarrow> claim_of r \<le> now"
  by (simp add: unclaimed_row_def claim_of_def split: option.split)

lemma same_expire:
  assumes same: "same_deliveries s tb" and now: "0 \<le> now"
  shows "same_deliveries (expireOveraged maxAgeMs now s) (pd_expireOveraged maxAgeMs now tb)"
proof (rule same_rewrite [OF same expire_ok [OF same_ok [OF same]]])
  let ?h = "\<lambda>d. if overaged maxAgeMs now s d then d\<lparr>dl_expiredAt := Some now\<rparr> else d"
  let ?u = "\<lambda>r. let d = dr_delivery r in
         if dl_deliveredAt d = None \<and> dl_expiredAt d = None \<and> \<not> dl_shadow d \<and> dl_createdAt d \<le> now - maxAgeMs \<and> unclaimed_row now r
         then on_delivery (\<lambda>d. d\<lparr>dl_expiredAt := Some now\<rparr>) r else r"
  show "ds_deliveries (expireOveraged maxAgeMs now s) = map (\<lambda>(k, d). (k, ?h d)) (ds_deliveries s)"
    by (simp add: expireOveraged_def)
  show "dt_rows (pd_expireOveraged maxAgeMs now tb) = map ?u (dt_rows tb)" by (simp add: pd_expireOveraged_def)
  show "dl_id (?h d) = dl_id d" for d by simp
  fix r assume r: "r \<in> set (dt_rows tb)"
  show "dr_delivery (?u r) = ?h (dr_delivery r)"
    using same_claim [OF same r] unclaimed_iff [OF now, of r] by (auto simp: Let_def on_delivery_def overaged_def)
  have "claim_of (?u r) = claim_of r" by (simp add: Let_def on_delivery_def claim_of_def)
  then show "claim_of (?u r) = claimed_until (dl_id (dr_delivery r)) (expireOveraged maxAgeMs now s)"
    using same_claim [OF same r] by (simp add: claimed_until_def expireOveraged_def)
next
  show "dt_wakeups (pd_expireOveraged maxAgeMs now tb) = ds_wakeups (expireOveraged maxAgeMs now s)"
    using same by (simp add: pd_expireOveraged_def expireOveraged_def same_deliveries_def)
qed (use same_known [OF same] in \<open>auto simp: expireOveraged_def\<close>)

lemma claims_set:
  "map_of (fold (\<lambda>d. AList.update (dl_id d) t) ds m) i = (if i \<in> dl_id ` set ds then Some t else map_of m i)"
  by (induction ds arbitrary: m) (auto simp: map_of_AList_update)

text \<open>The two stores hand over the same deliveries, and extend the same claims.\<close>

lemma same_claimed:
  assumes same: "same_deliveries s tb" and now: "0 \<le> now"
  shows "map dr_delivery (filter (\<lambda>r. is_pending ty (dr_delivery r) \<and> unclaimed_row now r) (dt_rows tb)) =
    filter (\<lambda>d. is_pending ty d \<and> claimed_until (dl_id d) s \<le> now) (map_values (ds_deliveries s))"
proof -
  have "filter (\<lambda>r. is_pending ty (dr_delivery r) \<and> unclaimed_row now r) (dt_rows tb) =
      filter ((\<lambda>d. is_pending ty d \<and> claimed_until (dl_id d) s \<le> now) \<circ> dr_delivery) (dt_rows tb)"
    using same_claim [OF same] unclaimed_iff [OF now] by (intro filter_cong) auto
  moreover have "map_values (ds_deliveries s) = map dr_delivery (dt_rows tb)"
    using same by (simp add: same_deliveries_def table_deliveries_def)
  ultimately show ?thesis by (simp add: filter_map)
qed

lemma same_claimPending:
  assumes same: "same_deliveries s tb" and now: "0 \<le> now"
  shows "fst (pd_claimPending maxAgeMs ty ttlMs now tb) = sort_key dl_createdAt (fst (claimPending maxAgeMs ty ttlMs now s))"
    and "same_deliveries (snd (claimPending maxAgeMs ty ttlMs now s)) (snd (pd_claimPending maxAgeMs ty ttlMs now tb))"
proof -
  let ?s = "expireOveraged maxAgeMs now s" and ?tb = "pd_expireOveraged maxAgeMs now tb"
  let ?mine = "\<lambda>r. is_pending ty (dr_delivery r) \<and> unclaimed_row now r"
  have same': "same_deliveries ?s ?tb" by (rule same_expire [OF same now])
  show "fst (pd_claimPending maxAgeMs ty ttlMs now tb) = sort_key dl_createdAt (fst (claimPending maxAgeMs ty ttlMs now s))"
    by (simp add: pd_claimPending_def claimPending_def Let_def same_claimed [OF same' now])
  have handed: "set (fst (claimPending maxAgeMs ty ttlMs now s)) = dr_delivery ` {r \<in> set (dt_rows ?tb). ?mine r}"
    using arg_cong [OF same_claimed [OF same' now, of ty], of set] by (simp add: claimPending_def Let_def)
  have stored: "map_of (ds_deliveries ?s) (dl_id d) \<noteq> None" if "d \<in> set (fst (claimPending maxAgeMs ty ttlMs now s))" for d
    using that same_stored [OF same'] by (auto simp: handed)
  show "same_deliveries (snd (claimPending maxAgeMs ty ttlMs now s)) (snd (pd_claimPending maxAgeMs ty ttlMs now tb))"
  proof (rule same_rewrite [OF same' claimPending_ok [OF same_ok [OF same]], where h = "\<lambda>d. d"])
    let ?u = "\<lambda>r. if ?mine r then r\<lparr>dr_claimExpiresAt := Some (now + ttlMs)\<rparr> else r"
    show "dt_rows (snd (pd_claimPending maxAgeMs ty ttlMs now tb)) = map ?u (dt_rows ?tb)" by (simp add: pd_claimPending_def Let_def)
    fix r assume r: "r \<in> set (dt_rows ?tb)"
    have "?mine r \<longleftrightarrow> dl_id (dr_delivery r) \<in> dl_id ` set (fst (claimPending maxAgeMs ty ttlMs now s))"
    proof
      assume "dl_id (dr_delivery r) \<in> dl_id ` set (fst (claimPending maxAgeMs ty ttlMs now s))"
      then obtain q where q: "q \<in> set (dt_rows ?tb)" "?mine q" "dl_id (dr_delivery q) = dl_id (dr_delivery r)"
        unfolding handed by auto
      then have "dr_delivery q = dr_delivery r" using same_stored [OF same' r] same_stored [OF same' q(1)] by simp
      moreover have "claim_of q = claim_of r" using same_claim [OF same' r] same_claim [OF same' q(1)] q(3) by simp
      ultimately show "?mine r" using q(2) unclaimed_iff [OF now] by simp
    qed (use r handed in auto)
    then show "claim_of (?u r) = claimed_until (dl_id (dr_delivery r)) (snd (claimPending maxAgeMs ty ttlMs now s))"
      using same_claim [OF same' r] by (simp add: claim_of_def claimed_until_def claimPending_def Let_def claims_set)
  next
    fix i assume "map_of (ds_claimedUntil (snd (claimPending maxAgeMs ty ttlMs now s))) i \<noteq> None"
    then show "map_of (ds_deliveries ?s) i \<noteq> None"
      using stored same_known [OF same', of i]
      by (auto simp: claimPending_def Let_def claims_set split: if_splits)
  next
    show "dt_wakeups (snd (pd_claimPending maxAgeMs ty ttlMs now tb)) = ds_wakeups (snd (claimPending maxAgeMs ty ttlMs now s))"
      using same' by (simp add: pd_claimPending_def claimPending_def Let_def same_deliveries_def)
  qed (simp_all add: claimPending_def Let_def)
qed

lemma same_wake: "same_deliveries s tb \<Longrightarrow> same_deliveries (wake b s) (pd_wake b tb)"
  by (auto simp: same_deliveries_def wake_def pd_wake_def table_deliveries_def deliveries_ok_def claimed_until_def)

lemma modify_const:
  assumes "well_keyed key m" and "map_of m k = Some v"
  shows "map_modify k (\<lambda>_. f v) m = map_modify k f m"
proof -
  have "map_of m k' = Some w" if "(k', w) \<in> set m" for k' w
    using that assms(1) by (simp add: well_keyed_def)
  then have "w = v" if "(k, w) \<in> set m" for w using that assms(2) by fastforce
  then show ?thesis by (auto simp: map_modify_def)
qed

lemma same_revive:
  assumes same: "same_deliveries s tb" and e: "delivery_for_key (din_idempotencyKey input) s = Some e"
  shows "same_deliveries (s\<lparr>ds_deliveries := map_modify (dl_id e) (\<lambda>_. revive input now e) (ds_deliveries s),
        ds_claimedUntil := AList.delete (dl_id e) (ds_claimedUntil s)\<rparr>)
      (update_rows (\<lambda>d. dl_idempotencyKey d = din_idempotencyKey input)
        (\<lambda>r. (on_delivery (revive input now) r)\<lparr>dr_sourceCronId := source_cron input, dr_claimExpiresAt := None\<rparr>) tb)"
    (is "same_deliveries ?s ?tb")
proof -
  have ok: "deliveries_ok s" by (rule same_ok [OF same])
  have stored: "map_of (ds_deliveries s) (dl_id e) = Some e" and key: "dl_idempotencyKey e = din_idempotencyKey input"
    using deliveries_ok_key [OF ok] e by blast+
  have mine: "dl_idempotencyKey (dr_delivery r) = din_idempotencyKey input \<longleftrightarrow> dl_id (dr_delivery r) = dl_id e"
    if "r \<in> set (dt_rows tb)" for r
  proof
    assume "dl_idempotencyKey (dr_delivery r) = din_idempotencyKey input"
    then have "delivery_for_key (din_idempotencyKey input) s = Some (dr_delivery r)"
      using deliveries_ok_key [OF ok] same_stored [OF same that] by blast
    with e show "dl_id (dr_delivery r) = dl_id e" by simp
  next
    assume "dl_id (dr_delivery r) = dl_id e"
    then have "dr_delivery r = e" by (rule id_unique [OF same_stored [OF same that] stored])
    with key show "dl_idempotencyKey (dr_delivery r) = din_idempotencyKey input" by simp
  qed
  have const: "map_modify (dl_id e) (\<lambda>_. revive input now e) (ds_deliveries s) = map_modify (dl_id e) (revive input now) (ds_deliveries s)"
    using ok stored by (intro modify_const [of dl_id]) (simp_all add: deliveries_ok_def)
  have "deliveries_ok (s\<lparr>ds_deliveries := map_modify (dl_id e) (revive input now) (ds_deliveries s)\<rparr>)"
    by (rule deliveries_ok_modify [OF ok]) (simp add: revive_def)
  then have ok': "deliveries_ok ?s" by (rule deliveries_ok_cong) (simp_all add: const)
  show ?thesis
  proof (rule same_rewrite [OF same ok', where h = "\<lambda>d. if dl_id d = dl_id e then revive input now d else d"])
    show "ds_deliveries ?s = map (\<lambda>(k, d). (k, if dl_id d = dl_id e then revive input now d else d)) (ds_deliveries s)"
      using trans [OF const modify_keyed [OF ok]] by simp
    show "dt_rows ?tb = map (\<lambda>r. if dl_idempotencyKey (dr_delivery r) = din_idempotencyKey input
        then (on_delivery (revive input now) r)\<lparr>dr_sourceCronId := source_cron input, dr_claimExpiresAt := None\<rparr> else r) (dt_rows tb)"
      by (simp add: update_rows_def)
    show "dt_wakeups ?tb = ds_wakeups ?s" using same by (simp add: same_deliveries_def update_rows_def)
  qed (use mine same_claim [OF same] same_known [OF same] in
      \<open>auto simp: on_delivery_def revive_def claim_of_def claimed_until_def map_of_AList_delete split: if_splits\<close>)
qed

lemma same_enqueue:
  assumes same: "same_deliveries s tb" and fresh: "fresh_delivery_id uuid s"
  shows "fst (pd_enqueue uuid input now tb) = fst (enqueue_delivery uuid input now s) \<and>
    same_deliveries (snd (enqueue_delivery uuid input now s)) (snd (pd_enqueue uuid input now tb))"
proof (cases "delivery_for_key (din_idempotencyKey input) s")
  case None
  then show ?thesis
    using same_wake [OF same_insert [OF same fresh None, of "new_delivery uuid input now" "source_cron input"], of "din_shadow input"]
      same_row [OF same, of "din_idempotencyKey input"]
    by (simp add: enqueue_delivery_def pd_enqueue_def Let_def new_delivery_def)
next
  case (Some e)
  then show ?thesis
    using same_wake [OF same_revive [OF same Some, of now], of "din_shadow input"] same
      same_row [OF same, of "din_idempotencyKey input"]
    by (simp add: enqueue_delivery_def pd_enqueue_def Let_def)
qed

lemma same_ack: "same_deliveries s tb \<Longrightarrow> same_deliveries (ack i t ms s) (pd_ack i t ms tb)"
  unfolding ack_def pd_ack_def by (rule same_modify) (auto simp: settle_delivery_def)

lemma same_recipient: "same_deliveries s tb \<Longrightarrow> same_deliveries (recordRecipientThread i ref t s) (pd_recordRecipientThread i ref t tb)"
  unfolding recordRecipientThread_def pd_recordRecipientThread_def
  by (rule same_modify) (auto simp: settle_delivery_def split: option.split)

lemma key_is_id:
  assumes "same_deliveries s tb" and "delivery_for_key key s = Some e" and "map_of (ds_deliveries s) (dl_id d) = Some d"
  shows "dl_idempotencyKey d = key \<longleftrightarrow> d = e" and "dl_id d = dl_id e \<longleftrightarrow> d = e"
proof -
  note lookup = deliveries_ok_key [OF same_ok [OF assms(1)], of key]
  show "dl_idempotencyKey d = key \<longleftrightarrow> d = e" using lookup [of d] lookup [of e] assms(2,3) by auto
  have "map_of (ds_deliveries s) (dl_id e) = Some e" using lookup [of e] assms(2) by blast
  then show "dl_id d = dl_id e \<longleftrightarrow> d = e" using id_unique [OF assms(3)] by blast
qed

lemma same_update_none:
  assumes "same_deliveries s tb" and "\<And>r. r \<in> set (dt_rows tb) \<Longrightarrow> \<not> P (dr_delivery r)"
  shows "update_rows P f tb = tb"
  using assms(2) by (simp add: update_rows_def map_idI)

lemma same_ackByKey:
  assumes same: "same_deliveries s tb" and fresh: "fresh_delivery_id uuid s"
  shows "same_deliveries (ackByKey uuid key t s) (pd_ackByKey uuid key t tb)"
proof (cases "delivery_for_key key s")
  case None
  then show ?thesis
    using same_insert [OF same fresh None, of "tombstone uuid key t" None] same_row [OF same, of key]
    by (simp add: ackByKey_def pd_ackByKey_def tombstone_def)
next
  case (Some e)
  have "same_deliveries (s\<lparr>ds_deliveries := map_modify (dl_id e) (settle_delivery t) (ds_deliveries s)\<rparr>)
    (update_rows (\<lambda>d. dl_idempotencyKey d = key)
            (on_delivery (\<lambda>d. d\<lparr>dl_deliveredAt := (case dl_deliveredAt d of Some a \<Rightarrow> Some a | None \<Rightarrow> Some t),
               dl_expiredAt := (if dl_deliveredAt d = None then None else dl_expiredAt d)\<rparr>)) tb)"
    by (rule same_modify [OF same]) (auto simp: settle_delivery_def key_is_id [OF same Some] split: option.split)
  then show ?thesis using same_row [OF same, of key] Some by (simp add: ackByKey_def pd_ackByKey_def)
qed

lemma same_editRef:
  assumes same: "same_deliveries s tb"
  shows "same_deliveries (setEditRefByKey key ref s) (pd_setEditRefByKey key ref tb)"
proof (cases "\<exists>e. delivery_for_key key s = Some e \<and> dl_deliveredAt e = None")
  case True
  then obtain e where e: "delivery_for_key key s = Some e" "dl_deliveredAt e = None" by blast
  have "same_deliveries (s\<lparr>ds_deliveries := map_modify (dl_id e)
        (\<lambda>d. d\<lparr>dl_destination := (dl_destination d)\<lparr>d_editRef := Some ref\<rparr>\<rparr>) (ds_deliveries s)\<rparr>) (pd_setEditRefByKey key ref tb)"
    unfolding pd_setEditRefByKey_def by (rule same_modify [OF same]) (use e in \<open>auto simp: key_is_id [OF same e(1)]\<close>)
  with e show ?thesis by (simp add: setEditRefByKey_def)
next
  case False
  have "pd_setEditRefByKey key ref tb = tb" unfolding pd_setEditRefByKey_def
    by (rule same_update_none [OF same])
      (use False deliveries_ok_key [OF same_ok [OF same]] same_stored [OF same] in blast)
  moreover have "setEditRefByKey key ref s = s" using False by (auto simp: setEditRefByKey_def split: option.split)
  ultimately show ?thesis using same by simp
qed

subsection \<open>Runs of calls\<close>

datatype delivery_call =
  Call_enqueue string delivery_input time
| Call_pending string
| Call_claimPending string time time
| Call_listShadow "int option"
| Call_ack string time "time option"
| Call_ackByKey string string time
| Call_setEditRefByKey string string
| Call_get string
| Call_recordRecipientThread string string time

datatype delivery_answer = Done | One "delivery option" | Many "delivery list"

fun memory_call :: "time \<Rightarrow> delivery_call \<Rightarrow> delivery_store \<Rightarrow> delivery_answer \<times> delivery_store" where
  "memory_call maxAgeMs (Call_enqueue uuid input now) s = (let (d, s') = enqueue_delivery uuid input now s in (One (Some d), s'))"
| "memory_call maxAgeMs (Call_pending ty) s = (Many (pending_deliveries ty s), s)"
| "memory_call maxAgeMs (Call_claimPending ty ttlMs now) s = (let (ds, s') = claimPending maxAgeMs ty ttlMs now s in (Many ds, s'))"
| "memory_call maxAgeMs (Call_listShadow limit) s = (Many (listShadow limit s), s)"
| "memory_call maxAgeMs (Call_ack i t ms) s = (Done, ack i t ms s)"
| "memory_call maxAgeMs (Call_ackByKey uuid key t) s = (Done, ackByKey uuid key t s)"
| "memory_call maxAgeMs (Call_setEditRefByKey key ref) s = (Done, setEditRefByKey key ref s)"
| "memory_call maxAgeMs (Call_get i) s = (One (map_of (ds_deliveries s) i), s)"
| "memory_call maxAgeMs (Call_recordRecipientThread i ref t) s = (Done, recordRecipientThread i ref t s)"

fun table_call :: "time \<Rightarrow> delivery_call \<Rightarrow> delivery_table \<Rightarrow> delivery_answer \<times> delivery_table" where
  "table_call maxAgeMs (Call_enqueue uuid input now) tb = (let (d, tb') = pd_enqueue uuid input now tb in (One (Some d), tb'))"
| "table_call maxAgeMs (Call_pending ty) tb = (Many (pd_pending ty tb), tb)"
| "table_call maxAgeMs (Call_claimPending ty ttlMs now) tb = (let (ds, tb') = pd_claimPending maxAgeMs ty ttlMs now tb in (Many ds, tb'))"
| "table_call maxAgeMs (Call_listShadow limit) tb = (Many (pd_listShadow limit tb), tb)"
| "table_call maxAgeMs (Call_ack i t ms) tb = (Done, pd_ack i t ms tb)"
| "table_call maxAgeMs (Call_ackByKey uuid key t) tb = (Done, pd_ackByKey uuid key t tb)"
| "table_call maxAgeMs (Call_setEditRefByKey key ref) tb = (Done, pd_setEditRefByKey key ref tb)"
| "table_call maxAgeMs (Call_get i) tb = (One (pd_get i tb), tb)"
| "table_call maxAgeMs (Call_recordRecipientThread i ref t) tb = (Done, pd_recordRecipientThread i ref t tb)"

fun memory_calls :: "time \<Rightarrow> delivery_call list \<Rightarrow> delivery_store \<Rightarrow> delivery_answer list" where
  "memory_calls maxAgeMs [] s = []"
| "memory_calls maxAgeMs (c # cs) s = (let (a, s') = memory_call maxAgeMs c s in a # memory_calls maxAgeMs cs s')"

fun table_calls :: "time \<Rightarrow> delivery_call list \<Rightarrow> delivery_table \<Rightarrow> delivery_answer list" where
  "table_calls maxAgeMs [] tb = []"
| "table_calls maxAgeMs (c # cs) tb = (let (a, tb') = table_call maxAgeMs c tb in a # table_calls maxAgeMs cs tb')"

definition empty_table :: delivery_table where
  "empty_table = \<lparr>dt_rows = [], dt_wakeups = 0\<rparr>"

text \<open>The table answers a listing of waiting deliveries in the order of creation.\<close>

fun by_creation :: "delivery_call \<Rightarrow> delivery_answer \<Rightarrow> delivery_answer" where
  "by_creation (Call_pending ty) (Many ds) = Many (sort_key dl_createdAt ds)"
| "by_creation (Call_claimPending ty ttlMs now) (Many ds) = Many (sort_key dl_createdAt ds)"
| "by_creation c a = a"

text \<open>The identifiers the calls draw; the clock is past the epoch.\<close>

fun drawn :: "delivery_call \<Rightarrow> string list" where
  "drawn (Call_enqueue uuid input now) = [uuid]"
| "drawn (Call_ackByKey uuid key t) = [uuid]"
| "drawn c = []"

fun clock_ok :: "delivery_call \<Rightarrow> bool" where
  "clock_ok (Call_claimPending ty ttlMs now) = (0 \<le> now)"
| "clock_ok c = True"

definition fresh_calls :: "delivery_call list \<Rightarrow> delivery_store \<Rightarrow> bool" where
  "fresh_calls cs s \<longleftrightarrow> distinct (concat (map drawn cs)) \<and> list_all (\<lambda>u. fresh_delivery_id u s) (concat (map drawn cs))"

lemma keys_of_call:
  assumes "map_of (ds_deliveries s) u = None" and "u \<notin> set (drawn c)"
  shows "map_of (ds_deliveries (snd (memory_call maxAgeMs c s))) u = None"
proof (cases c)
  case (Call_enqueue uuid input now)
  then show ?thesis using assms
    by (auto simp: enqueue_delivery_def Let_def split_def js_map_simps map_of_modify split: option.split)
next
  case (Call_claimPending ty ttlMs now)
  then show ?thesis using assms(1) by (simp add: claimPending_def Let_def split_def map_of_expire)
next
  case (Call_ackByKey uuid key t)
  then show ?thesis using assms by (auto simp: ackByKey_def js_map_simps map_of_modify split: option.split)
next
  case (Call_setEditRefByKey key ref)
  then show ?thesis using assms(1) by (auto simp: setEditRefByKey_def map_of_modify split: option.split)
qed (use assms(1) in \<open>auto simp: ack_def recordRecipientThread_def map_of_modify\<close>)

lemma fresh_calls_next: "fresh_calls (c # cs) s \<Longrightarrow> fresh_calls cs (snd (memory_call maxAgeMs c s))"
  using keys_of_call [of s _ c maxAgeMs] by (auto simp: fresh_calls_def list_all_iff fresh_delivery_id_def)

lemma same_listing:
  assumes "same_deliveries s tb"
  shows "pd_pending ty tb = sort_key dl_createdAt (pending_deliveries ty s)" and "pd_listShadow limit tb = listShadow limit s"
  using assms by (simp_all add: pd_pending_def pending_deliveries_def pd_listShadow_def listShadow_def same_deliveries_def)

lemma same_delivery_call:
  assumes same: "same_deliveries s tb" and fresh: "list_all (\<lambda>u. fresh_delivery_id u s) (drawn c)" and "clock_ok c"
  shows "fst (table_call maxAgeMs c tb) = by_creation c (fst (memory_call maxAgeMs c s)) \<and>
    same_deliveries (snd (memory_call maxAgeMs c s)) (snd (table_call maxAgeMs c tb))"
proof (cases c)
  case (Call_enqueue uuid input now)
  then show ?thesis using same_enqueue [OF same, of uuid input now] fresh by (simp add: split_def Let_def)
next
  case (Call_claimPending ty ttlMs now)
  then show ?thesis using same_claimPending [OF same, of now maxAgeMs ty ttlMs] assms(3) by (simp add: split_def Let_def)
next
  case (Call_ackByKey uuid key t)
  then show ?thesis using same_ackByKey [OF same] fresh by simp
qed (simp_all add: same same_listing [OF same] same_delivery_get [OF same] same_ack same_editRef same_recipient)

lemma same_calls:
  "same_deliveries s tb \<Longrightarrow> fresh_calls cs s \<Longrightarrow> list_all clock_ok cs \<Longrightarrow>
     table_calls maxAgeMs cs tb = map2 by_creation cs (memory_calls maxAgeMs cs s)"
proof (induction cs arbitrary: s tb)
  case (Cons c cs)
  have "list_all (\<lambda>u. fresh_delivery_id u s) (drawn c)" "clock_ok c"
    using Cons.prems(2,3) by (simp_all add: fresh_calls_def)
  note step = same_delivery_call [OF Cons.prems(1) this, of maxAgeMs]
  have "table_calls maxAgeMs cs (snd (table_call maxAgeMs c tb)) = map2 by_creation cs (memory_calls maxAgeMs cs (snd (memory_call maxAgeMs c s)))"
    using Cons.IH step fresh_calls_next [OF Cons.prems(2)] Cons.prems(3) by simp
  with step show ?case by (simp add: split_def Let_def)
qed simp

lemma same_empty_outbox: "same_deliveries empty_deliveries empty_table"
  by (simp add: same_deliveries_def empty_deliveries_def empty_table_def deliveries_ok_def table_deliveries_def map_values_def)


definition sample_input :: delivery_input where
  "sample_input = \<lparr>din_destination = bare_destination ''slack'' ''C1'', din_text = ''hello'', din_attachments = None, din_provenance = None,
     din_idempotencyKey = ''k'', din_shadow = False\<rparr>"

definition sample_calls :: "delivery_call list" where
  "sample_calls = [Call_enqueue ''u1'' sample_input 5, Call_claimPending ''slack'' 10 6, Call_claimPending ''slack'' 10 7,
     Call_claimPending ''slack'' 10 40, Call_enqueue ''u2'' sample_input 41, Call_claimPending ''slack'' 10 42, Call_ackByKey ''u3'' ''k'' 43,
     Call_get ''u1'']"


subsection \<open>The latest deliveries of a thread\<close>

lemma sort_key_uminus:
  fixes f :: "'a \<Rightarrow> int"
  assumes "distinct (map f xs)"
  shows "sort_key (\<lambda>x. - f x) xs = rev (sort_key f xs)"
proof (rule map_sorted_distinct_set_unique [where f = "\<lambda>x. - f x"])
  have inj: "inj_on f (set xs)" and dist: "distinct xs" using assms by (simp_all add: distinct_map)
  then show "inj_on (\<lambda>x. - f x) (set (sort_key (\<lambda>x. - f x) xs) \<union> set (rev (sort_key f xs)))" by (simp add: inj_on_def)
  then show "distinct (map (\<lambda>x. - f x) (sort_key (\<lambda>x. - f x) xs))" "distinct (map (\<lambda>x. - f x) (rev (sort_key f xs)))"
    using dist by (simp_all add: distinct_map)
  have "sorted_wrt (\<lambda>x y. f x \<le> f y) (sort_key f xs)" using sorted_sort_key [of f xs] by (simp add: sorted_wrt_map)
  then show "sorted (map (\<lambda>x. - f x) (rev (sort_key f xs)))" by (simp add: sorted_wrt_map sorted_wrt_rev)
qed simp_all

lemma latest_agree:
  assumes "distinct (map dl_createdAt ds)"
  shows "latest_rows n ds = latest n ds"
  by (simp add: latest_rows_def latest_def Let_def sort_key_uminus [OF assms] take_rev)

lemma thread_listings_agree:
  assumes "same_deliveries s tb" and "distinct (map dl_createdAt (map_values (ds_deliveries s)))"
  shows "pd_listByRecipientThread ref limit tb = listByRecipientThread ref limit s"
    and "pd_listBySourceSession sid ref limit tb = listBySourceSession sid ref limit s"
  using assms
  by (simp_all add: pd_listByRecipientThread_def listByRecipientThread_def pd_listBySourceSession_def listBySourceSession_def
      same_deliveries_def latest_agree distinct_map_filter)

end
