(* ===== verification/Postgres_Map.thy ===== *)
theory Postgres_Map
  imports Durable_Map
begin

text \<open>
  \<open>createPostgresMap\<close> of \<^verbatim>\<open>src/src/persistence/durable-map.ts\<close>. Every writer runs in one
  transaction that first bumps the table's version row; the row lock serialises the writers of a
  table, so a write is one step. \<open>all\<close> and \<open>entries\<close> read the version and the rows in two separate
  statements and keep the rows in a cache, which other writers overlap with.

  \<open>stored\<close> is the JSONB round trip of a value and \<open>collate\<close> the sort key of the database's
  collation; both are parameters. Version 0 stands for the absent version row, which the first
  bump creates with version 1.
\<close>

record 'v pg_map =
  pg_rows :: "'v js_map"
  pg_version :: nat

definition withBump :: "('v js_map \<Rightarrow> 'r \<times> 'v js_map) \<Rightarrow> 'v pg_map \<Rightarrow> 'r \<times> 'v pg_map" where
  "withBump f m =
     (let (r, rows) = f (pg_rows m) in (r, \<lparr>pg_rows = rows, pg_version = Suc (pg_version m)\<rparr>))"

definition pg_get :: "string \<Rightarrow> 'v pg_map \<Rightarrow> 'v option" where
  "pg_get i m = map_of (pg_rows m) i"

definition pg_put :: "('v \<Rightarrow> 'v) \<Rightarrow> string \<Rightarrow> 'v \<Rightarrow> 'v pg_map \<Rightarrow> 'v pg_map" where
  "pg_put stored i v m = snd (withBump (\<lambda>rows. ((), AList.update i (stored v) rows)) m)"

definition pg_putIfAbsent :: "('v \<Rightarrow> 'v) \<Rightarrow> string \<Rightarrow> 'v \<Rightarrow> 'v pg_map \<Rightarrow> 'v \<times> 'v pg_map" where
  "pg_putIfAbsent stored i v =
     withBump (\<lambda>rows. case map_of rows i of
        Some json \<Rightarrow> (json, AList.update i json rows)
      | None \<Rightarrow> (stored v, AList.update i (stored v) rows))"

definition pg_insertIfAbsent :: "('v \<Rightarrow> 'v) \<Rightarrow> string \<Rightarrow> 'v \<Rightarrow> 'v pg_map \<Rightarrow> bool \<times> 'v pg_map" where
  "pg_insertIfAbsent stored i v =
     withBump (\<lambda>rows. case map_of rows i of
        Some _ \<Rightarrow> (False, rows)
      | None \<Rightarrow> (True, AList.update i (stored v) rows))"

text \<open>\<open>(json - removeKeys) || set\<close>: the removed keys are dropped, then the set keys are written.\<close>

definition jsonb_merge :: "'a option js_map \<Rightarrow> 'a js_map \<Rightarrow> 'a js_map" where
  "jsonb_merge patch json =
     (let removeKeys = map fst (filter (\<lambda>(_, v). v = None) patch);
          sets = map (\<lambda>(k, v). (k, the v)) (filter (\<lambda>(_, v). v \<noteq> None) patch)
      in fold (\<lambda>(k, v). AList.update k v) sets (filter (\<lambda>(k, _). k \<notin> set removeKeys) json))"

definition pg_merge ::
  "('a \<Rightarrow> 'a) \<Rightarrow> string \<Rightarrow> 'a option js_map \<Rightarrow> 'a js_map pg_map \<Rightarrow> 'a js_map option \<times> 'a js_map pg_map" where
  "pg_merge stored i patch =
     withBump (\<lambda>rows. case map_of rows i of
        None \<Rightarrow> (None, rows)
      | Some json \<Rightarrow>
          let merged = jsonb_merge (map (\<lambda>(k, v). (k, map_option stored v)) patch) json
          in (Some merged, AList.update i merged rows))"

definition pg_update :: "('v \<Rightarrow> 'v) \<Rightarrow> string \<Rightarrow> ('v \<Rightarrow> 'v) \<Rightarrow> 'v pg_map \<Rightarrow> 'v option \<times> 'v pg_map" where
  "pg_update stored i f =
     withBump (\<lambda>rows. case map_of rows i of
        None \<Rightarrow> (None, rows)
      | Some json \<Rightarrow> (Some (f json), AList.update i (stored (f json)) rows))"

definition pg_deleteIf :: "string \<Rightarrow> ('v \<Rightarrow> bool) \<Rightarrow> 'v pg_map \<Rightarrow> bool \<times> 'v pg_map" where
  "pg_deleteIf i P =
     withBump (\<lambda>rows. case map_of rows i of
        None \<Rightarrow> (False, rows)
      | Some json \<Rightarrow> if \<not> P json then (False, rows) else (True, AList.delete i rows))"

definition pg_delete :: "string \<Rightarrow> 'v pg_map \<Rightarrow> 'v pg_map" where
  "pg_delete i m = snd (withBump (\<lambda>rows. ((), AList.delete i rows)) m)"

definition pg_take :: "string \<Rightarrow> 'v pg_map \<Rightarrow> 'v option \<times> 'v pg_map" where
  "pg_take i = withBump (\<lambda>rows. (map_of rows i, AList.delete i rows))"

definition pg_ordered :: "(string \<Rightarrow> string) \<Rightarrow> 'v js_map \<Rightarrow> (string \<times> 'v) list" where
  "pg_ordered collate rows = sort_key (collate \<circ> fst) rows"

text \<open>\<open>select\<close>: the filter, the projection and the limit are the ones \<open>selectValues\<close> applies in memory.\<close>

definition pg_select ::
  "(string \<Rightarrow> string) \<Rightarrow> (('v \<Rightarrow> string option) \<times> string list) option \<Rightarrow> nat option \<Rightarrow> string option \<Rightarrow>
     ('v \<Rightarrow> 'w) \<Rightarrow> 'v pg_map \<Rightarrow> 'w list" where
  "pg_select collate wh limit afterId project m =
     (let hits = filter (\<lambda>(i, v).
            (case wh of None \<Rightarrow> True | Some (field, anyOf) \<Rightarrow> fold_matches field anyOf v) \<and>
            (case afterId of None \<Rightarrow> True | Some a \<Rightarrow> collate i > collate a)) (pg_rows m);
          sorted_hits = pg_ordered collate hits
      in map (project \<circ> snd) (case limit of None \<Rightarrow> sorted_hits | Some l \<Rightarrow> take l sorted_hits))"

definition pg_inv :: "'v pg_map \<Rightarrow> bool" where
  "pg_inv m \<longleftrightarrow> distinct (map fst (pg_rows m))"

lemmas pg_defs = pg_get_def pg_put_def pg_putIfAbsent_def pg_insertIfAbsent_def pg_update_def
  pg_deleteIf_def pg_delete_def pg_take_def pg_inv_def withBump_def Let_def

lemma pg_ordered_get:
  "pg_inv m \<Longrightarrow> (k, v) \<in> set (pg_ordered collate (pg_rows m)) \<longleftrightarrow> pg_get k m = Some v"
  by (simp add: pg_ordered_def pg_inv_def pg_get_def)

lemma pg_ordered_distinct: "pg_inv m \<Longrightarrow> distinct (map fst (pg_ordered collate (pg_rows m)))"
  by (simp add: pg_ordered_def pg_inv_def distinct_sort_key_fst)

interpretation pg: durable_map pg_get "pg_put stored" "pg_putIfAbsent stored" "pg_insertIfAbsent stored"
  "pg_update stored" pg_deleteIf pg_delete pg_take "\<lambda>m. pg_ordered collate (pg_rows m)" stored pg_inv
  for stored :: "'v \<Rightarrow> 'v" and collate :: "string \<Rightarrow> string"
  by unfold_locales
    (auto simp: pg_ordered_get pg_ordered_distinct,
     auto simp: pg_defs js_map_simps distinct_update distinct_delete
      simp del: map_of_eq_Some_iff Some_eq_map_of_iff split: option.splits if_splits)

subsection \<open>Merging patches\<close>

lemma map_of_Some_key: "map_of m k = Some v \<Longrightarrow> k \<in> fst ` set m"
  by (drule map_of_SomeD) force

lemma map_of_applyPatch:
  "distinct (map fst patch) \<Longrightarrow>
   map_of (applyPatch obj patch) k = (case map_of patch k of None \<Rightarrow> map_of obj k | Some v \<Rightarrow> v)"
  by (induction obj patch rule: applyPatch.induct)
    (auto simp: js_map_simps split: option.splits simp del: map_of_eq_Some_iff dest: map_of_Some_key)

lemma map_of_fold_update:
  "distinct (map fst kvs) \<Longrightarrow>
   map_of (fold (\<lambda>(k, v). AList.update k v) kvs m) k = (case map_of kvs k of None \<Rightarrow> map_of m k | Some v \<Rightarrow> Some v)"
  by (induction kvs arbitrary: m)
    (auto simp: js_map_simps split: option.splits simp del: map_of_eq_Some_iff dest: map_of_Some_key)

lemma map_of_sets:
  "distinct (map fst patch) \<Longrightarrow>
   map_of (map (\<lambda>(k, v). (k, the v)) (filter (\<lambda>(_, v). v \<noteq> None) patch)) k = Option.bind (map_of patch k) id"
  by (induction patch) (auto simp: map_of_eq_None_iff [THEN iffD2])

lemma map_of_jsonb_merge:
  assumes "distinct (map fst patch)"
  shows "map_of (jsonb_merge patch json) k = (case map_of patch k of None \<Rightarrow> map_of json k | Some v \<Rightarrow> v)"
proof -
  have removed: "k \<in> fst ` {x \<in> set patch. case x of (_, v) \<Rightarrow> v = None} \<longleftrightarrow> map_of patch k = Some None"
    using assms by force
  have keys: "distinct (map fst (map (\<lambda>(k, v). (k, the v)) (filter (\<lambda>(_, v). v \<noteq> None) patch)))"
    using assms by (induction patch) force+
  have kept: "map_of (filter (\<lambda>(k, _). k \<notin> A) json) k = (if k \<in> A then None else map_of json k)" for A
    by (induction json) auto
  show ?thesis
    using map_of_fold_update [OF keys] map_of_sets [OF assms, of k] removed
    by (auto simp: jsonb_merge_def Let_def kept split: option.splits simp del: map_of_eq_Some_iff)
qed

text \<open>\<open>merge\<close> of the Postgres map, written as a JSONB expression, agrees with \<open>merge\<close> of the
  in-memory map: for a patch with distinct keys both report an absent identifier in the same way,
  and otherwise the merged values have the same property at every key, a property that the patch
  sets to \<open>undefined\<close> being removed.\<close>

lemma merge_agrees:
  assumes "distinct (map fst patch)" and "\<And>v. stored v = v"
    and "pg_rows m = rows"
  shows "(fst (pg_merge stored i patch m) = None \<longleftrightarrow> fst (mm_merge i patch rows) = None) \<and>
    (\<forall>a b. fst (pg_merge stored i patch m) = Some a \<longrightarrow> fst (mm_merge i patch rows) = Some b \<longrightarrow>
       (\<forall>k. map_of a k = map_of b k)) \<and>
    (\<forall>a k. fst (mm_merge i patch rows) = Some a \<longrightarrow> map_of patch k = Some None \<longrightarrow> map_of a k = None)"
proof -
  have "stored = id" using assms(2) by auto
  then have "(\<lambda>(k, v). (k, map_option stored v)) = (id :: string \<times> 'a option \<Rightarrow> _)"
    by (auto simp: option.map_id)
  then show ?thesis
    using assms(1,3)
    by (auto simp: pg_merge_def mm_merge_def withBump_def map_of_jsonb_merge map_of_applyPatch Let_def
        split: option.splits simp del: map_of_eq_Some_iff)
qed

lemma merge_agrees_witness:
  "map_of (the (fst (pg_merge (\<lambda>v. v) ''a'' [(''x'', Some (2 :: nat)), (''y'', None)]
       \<lparr>pg_rows = [(''a'', [(''x'', 1), (''y'', 5)])], pg_version = 3\<rparr>))) ''y'' = None"
  using merge_agrees [of "[(''x'', Some (2 :: nat)), (''y'', None)]" "\<lambda>v. v"
      "\<lparr>pg_rows = [(''a'', [(''x'', 1), (''y'', 5)])], pg_version = 3\<rparr>" "[(''a'', [(''x'', 1), (''y'', 5)])]" "''a''"]
  by (simp add: pg_merge_def mm_merge_def withBump_def jsonb_merge_def)

subsection \<open>The cached snapshot\<close>

definition CACHE_MAX_AGE_MS :: time where
  "CACHE_MAX_AGE_MS = 15000"

record 'v pg_cache =
  pc_v :: nat
  pc_fetchedAt :: time
  pc_entries :: "(string \<times> 'v) list"

text \<open>
  \<open>snapshot\<close> in its three synchronous pieces: the version read, the test of the cache when the
  version has arrived, and the refill when the rows have arrived. \<open>None\<close> is a miss.
\<close>

definition snapshot_version :: "'v pg_map \<Rightarrow> nat" where
  "snapshot_version m = pg_version m"

definition snapshot_check :: "nat \<Rightarrow> time \<Rightarrow> 'v pg_cache option \<Rightarrow> (string \<times> 'v) list option" where
  "snapshot_check v now cache =
     (case cache of
        None \<Rightarrow> None
      | Some c \<Rightarrow> if pc_v c \<noteq> v \<or> now - pc_fetchedAt c > CACHE_MAX_AGE_MS then None else Some (pc_entries c))"

definition snapshot_refill :: "(string \<Rightarrow> string) \<Rightarrow> nat \<Rightarrow> time \<Rightarrow> 'v pg_map \<Rightarrow> 'v pg_cache" where
  "snapshot_refill collate v now m =
     \<lparr>pc_v = v, pc_fetchedAt = now, pc_entries = pg_ordered collate (pg_rows m)\<rparr>"

text \<open>
  One process's cache beside a table that any process may write. \<open>cm_reading\<close> and \<open>cm_fetching\<close>
  are the snapshot calls that have read the version and those that wait for the rows, each by the
  version it read; \<open>cm_returned\<close> collects what the calls returned. \<open>cm_history ! w\<close> is the table
  at version \<open>w\<close>.
\<close>

record 'v cached_map =
  cm_db :: "'v pg_map"
  cm_cache :: "'v pg_cache option"
  cm_reading :: "nat list"
  cm_fetching :: "nat list"
  cm_returned :: "(nat \<times> (string \<times> 'v) list) list"
  cm_history :: "'v js_map list"

definition cm_fresh :: "'v cached_map" where
  "cm_fresh = \<lparr>cm_db = \<lparr>pg_rows = [], pg_version = 0\<rparr>, cm_cache = None, cm_reading = [], cm_fetching = [],
     cm_returned = [], cm_history = [[]]\<rparr>"

datatype 'v pg_write = WPut string 'v | WPutIfAbsent string 'v | WInsertIfAbsent string 'v
  | WUpdate string "'v \<Rightarrow> 'v" | WDeleteIf string "'v \<Rightarrow> bool" | WDelete string | WTake string

fun pg_exec :: "('v \<Rightarrow> 'v) \<Rightarrow> 'v pg_write \<Rightarrow> 'v pg_map \<Rightarrow> 'v pg_map" where
  "pg_exec stored (WPut i v) m = pg_put stored i v m"
| "pg_exec stored (WPutIfAbsent i v) m = snd (pg_putIfAbsent stored i v m)"
| "pg_exec stored (WInsertIfAbsent i v) m = snd (pg_insertIfAbsent stored i v m)"
| "pg_exec stored (WUpdate i f) m = snd (pg_update stored i f m)"
| "pg_exec stored (WDeleteIf i P) m = snd (pg_deleteIf i P m)"
| "pg_exec stored (WDelete i) m = pg_delete i m"
| "pg_exec stored (WTake i) m = snd (pg_take i m)"

lemma pg_exec_version [simp]: "pg_version (pg_exec stored w m) = Suc (pg_version m)"
  by (cases w) (simp_all add: pg_defs split: prod.splits)

lemma pg_exec_inv: "pg_inv m \<Longrightarrow> pg_inv (pg_exec stored w m)"
  by (cases w) (simp_all add: pg.inv_put pg.inv_putIfAbsent pg.inv_insert pg.inv_update pg.inv_deleteIf
      pg.inv_delete pg.inv_take)

inductive cm_step :: "(string \<Rightarrow> string) \<Rightarrow> 'v cached_map \<Rightarrow> 'v cached_map \<Rightarrow> bool" for collate where
  cm_write: "pg_exec stored w (cm_db s) = db \<Longrightarrow>
     cm_step collate s (s\<lparr>cm_db := db, cm_history := cm_history s @ [pg_rows db]\<rparr>)"
| cm_begin: "cm_step collate s (s\<lparr>cm_reading := snapshot_version (cm_db s) # cm_reading s\<rparr>)"
| cm_hit: "v \<in> set (cm_reading s) \<Longrightarrow> snapshot_check v now (cm_cache s) = Some es \<Longrightarrow>
     cm_step collate s (s\<lparr>cm_reading := remove1 v (cm_reading s), cm_returned := (v, es) # cm_returned s\<rparr>)"
| cm_miss: "v \<in> set (cm_reading s) \<Longrightarrow> snapshot_check v now (cm_cache s) = None \<Longrightarrow>
     cm_step collate s (s\<lparr>cm_reading := remove1 v (cm_reading s), cm_fetching := v # cm_fetching s\<rparr>)"
| cm_fetch: "v \<in> set (cm_fetching s) \<Longrightarrow> snapshot_refill collate v now (cm_db s) = c \<Longrightarrow>
     cm_step collate s (s\<lparr>cm_fetching := remove1 v (cm_fetching s), cm_cache := Some c,
       cm_returned := (v, pc_entries c) # cm_returned s\<rparr>)"
| cm_restart: "cm_step collate s (s\<lparr>cm_reading := [], cm_fetching := [], cm_cache := None\<rparr>)"

inductive cm_reachable :: "(string \<Rightarrow> string) \<Rightarrow> 'v cached_map \<Rightarrow> bool" for collate where
  cm_init: "cm_reachable collate cm_fresh"
| cm_next: "cm_reachable collate s \<Longrightarrow> cm_step collate s s' \<Longrightarrow> cm_reachable collate s'"

text \<open>Entries are current at version \<open>v\<close> when they are the table at \<open>v\<close> or a later version.\<close>

definition as_of :: "(string \<Rightarrow> string) \<Rightarrow> 'v js_map list \<Rightarrow> nat \<Rightarrow> (string \<times> 'v) list \<Rightarrow> bool" where
  "as_of collate hist v es \<longleftrightarrow> (\<exists>w < length hist. v \<le> w \<and> es = pg_ordered collate (hist ! w))"

definition cm_ok :: "(string \<Rightarrow> string) \<Rightarrow> 'v cached_map \<Rightarrow> bool" where
  "cm_ok collate s \<longleftrightarrow>
     length (cm_history s) = Suc (pg_version (cm_db s)) \<and>
     last (cm_history s) = pg_rows (cm_db s) \<and>
     list_all (\<lambda>v. v \<le> pg_version (cm_db s)) (cm_reading s @ cm_fetching s) \<and>
     (\<forall>c. cm_cache s = Some c \<longrightarrow> as_of collate (cm_history s) (pc_v c) (pc_entries c)) \<and>
     list_all (\<lambda>(v, es). as_of collate (cm_history s) v es) (cm_returned s)"

lemma as_of_extend: "as_of collate hist v es \<Longrightarrow> as_of collate (hist @ later) v es"
proof -
  assume "as_of collate hist v es"
  then obtain w where "w < length hist" "v \<le> w" "es = pg_ordered collate (hist ! w)"
    by (auto simp: as_of_def)
  then show ?thesis
    by (auto simp: as_of_def nth_append intro!: exI [of _ w])
qed

lemma as_of_last: "hist \<noteq> [] \<Longrightarrow> v < length hist \<Longrightarrow> as_of collate hist v (pg_ordered collate (last hist))"
  by (auto simp: as_of_def last_conv_nth intro!: exI [of _ "length hist - 1"])

lemma snapshot_check_hit:
  "snapshot_check v now cache = Some es \<Longrightarrow> \<exists>c. cache = Some c \<and> pc_v c = v \<and> pc_entries c = es"
  by (auto simp: snapshot_check_def split: option.splits if_splits)

lemma cm_step_ok:
  assumes "cm_step collate s s'" and "cm_ok collate s"
  shows "cm_ok collate s'"
  using assms
proof (cases rule: cm_step.cases)
  case (cm_write stored w db)
  then have "pg_version db = Suc (pg_version (cm_db s))" by auto
  with cm_write assms(2) show ?thesis
    by (auto simp: cm_ok_def list_all_iff intro: as_of_extend le_SucI)
next
  case (cm_hit v now es)
  with assms(2) show ?thesis
    by (auto simp: cm_ok_def list_all_iff dest!: snapshot_check_hit dest: set_remove1_subset [THEN subsetD])
next
  case (cm_fetch v now c)
  have "v < length (cm_history s)" "cm_history s \<noteq> []"
    using assms(2) cm_fetch by (auto simp: cm_ok_def list_all_iff less_Suc_eq_le)
  then have "as_of collate (cm_history s) v (pg_ordered collate (pg_rows (cm_db s)))"
    using assms(2) as_of_last [of "cm_history s" v collate] by (simp add: cm_ok_def)
  with cm_fetch assms(2) show ?thesis
    by (auto simp: cm_ok_def list_all_iff snapshot_refill_def dest: set_remove1_subset [THEN subsetD])
qed (auto simp: cm_ok_def list_all_iff snapshot_version_def dest: set_remove1_subset [THEN subsetD])

lemma cm_reachable_ok: "cm_reachable collate s \<Longrightarrow> cm_ok collate s"
proof (induction rule: cm_reachable.induct)
  case cm_init
  show ?case by (simp add: cm_ok_def cm_fresh_def)
qed (rule cm_step_ok)

text \<open>C17: A cached listing never misses a committed write: whatever the interleaving of the snapshot's
  two reads with other calls and other writers, what \<open>entries\<close> returns is the whole table as of
  the version the call read first or a later one, in collation order.\<close>

theorem snapshot_sees_committed_writes:
  assumes "cm_reachable collate s" and "(v, es) \<in> set (cm_returned s)"
  shows "\<exists>w. v \<le> w \<and> w \<le> pg_version (cm_db s) \<and> es = pg_ordered collate (cm_history s ! w) \<and>
    (w = pg_version (cm_db s) \<longrightarrow> cm_history s ! w = pg_rows (cm_db s))"
proof -
  note ok = cm_reachable_ok [OF assms(1)]
  then have "as_of collate (cm_history s) v es"
    using assms(2) by (auto simp: cm_ok_def list_all_iff)
  moreover have "cm_history s ! pg_version (cm_db s) = pg_rows (cm_db s)"
    using ok last_conv_nth [of "cm_history s"] by (fastforce simp: cm_ok_def)
  ultimately show ?thesis
    using ok by (auto simp: cm_ok_def as_of_def less_Suc_eq_le)
qed

definition cm_demo :: "nat cached_map" where
  "cm_demo = \<lparr>cm_db = \<lparr>pg_rows = [(''b'', 7)], pg_version = 1\<rparr>,
     cm_cache = Some \<lparr>pc_v = 0, pc_fetchedAt = 5, pc_entries = [(''b'', 7)]\<rparr>,
     cm_reading = [], cm_fetching = [], cm_returned = [(0, [(''b'', 7)])], cm_history = [[], [(''b'', 7)]]\<rparr>"

lemma cm_demo_reachable: "cm_reachable (\<lambda>i. i) cm_demo"
proof -
  let ?s1 = "cm_fresh\<lparr>cm_reading := [0]\<rparr> :: nat cached_map"
  let ?s2 = "?s1\<lparr>cm_reading := [], cm_fetching := [0]\<rparr>"
  let ?s3 = "?s2\<lparr>cm_db := \<lparr>pg_rows = [(''b'', 7)], pg_version = 1\<rparr>, cm_history := [[], [(''b'', 7)]]\<rparr>"
  have "cm_step (\<lambda>i. i) cm_fresh ?s1"
    using cm_begin [of "\<lambda>i. i" "cm_fresh :: nat cached_map"] by (simp add: cm_fresh_def snapshot_version_def)
  moreover have "cm_step (\<lambda>i. i) ?s1 ?s2"
    using cm_miss [of 0 ?s1 0 "\<lambda>i. i"] by (simp add: cm_fresh_def snapshot_check_def)
  moreover have "cm_step (\<lambda>i. i) ?s2 ?s3"
    using cm_write [of "\<lambda>v. v" "WPut ''b'' 7" ?s2 _ "\<lambda>i. i", OF refl]
    by (simp add: cm_fresh_def withBump_def pg_put_def)
  moreover have "cm_step (\<lambda>i. i) ?s3 cm_demo"
    using cm_fetch [of 0 ?s3 "\<lambda>i. i" 5, OF _ refl]
    by (simp add: cm_fresh_def snapshot_refill_def pg_ordered_def cm_demo_def)
  ultimately show ?thesis
    by (meson cm_init cm_next)
qed

theorem snapshot_sees_committed_writes_witness:
  "\<exists>w \<le> 1. [(''b'', 7 :: nat)] = pg_ordered (\<lambda>i. i) (cm_history cm_demo ! w)"
  using snapshot_sees_committed_writes [OF cm_demo_reachable, of 0 "[(''b'', 7)]"]
  by (auto simp: cm_demo_def)

end
