(* ===== verification/Loop_Shipping.thy ===== *)
theory Loop_Shipping
  imports Loop_Outputs
begin

text \<open>
  Properties of the output store. \<open>out_step\<close> is one atomic update by any caller; every operation of the store,
  the ones that touch several outputs included, is a run of such steps.
\<close>

subsection \<open>Lookups after an update\<close>

lemma os_notify_outputs [simp]: "os_outputs (os_notify x s) = os_outputs s"
  by (simp add: os_notify_def split: option.split)

lemma os_update_outputs: "os_outputs (snd (os_update i f s)) = snd (mm_update i f (os_outputs s))"
  by (simp add: os_update_def split_def Let_def)

lemma applyIf_outputs:
  "os_outputs (snd (applyIf i guard change s)) = snd (mm_update i (\<lambda>out. if \<not> guard out then out else change out) (os_outputs s))"
  by (simp add: applyIf_def split_def Let_def os_update_outputs)

lemma applyIf_result:
  "mm_inv (os_outputs s) \<Longrightarrow> fst (applyIf i guard change s) =
     (case mm_get i (os_outputs s) of None \<Rightarrow> None | Some out \<Rightarrow> if guard out then Some (change out) else None)"
  using mm.update_result [of "os_outputs s" i]
  by (simp add: applyIf_def os_update_def split_def Let_def split: option.split)

lemma applyIf_get:
  "mm_inv (os_outputs s) \<Longrightarrow> mm_get k (os_outputs (snd (applyIf i guard change s))) =
     (if k = i then map_option (\<lambda>out. if guard out then change out else out) (mm_get i (os_outputs s))
      else mm_get k (os_outputs s))"
  by (cases "mm_get i (os_outputs s)") (simp_all add: applyIf_outputs mm.get_update)

subsection \<open>Invariant and life cycle\<close>

definition out_ok :: "string \<Rightarrow> loop_output \<Rightarrow> bool" where
  "out_ok i out \<longleftrightarrow> lo_id out = i \<and>
     (lo_state out = OShipping \<longrightarrow> lo_claimToken out \<noteq> None \<and> lo_claimedAt out \<noteq> None) \<and>
     (lo_state out \<notin> {OShipping, OSuperseded} \<longrightarrow> lo_claimToken out = None \<and> lo_claimedAt out = None) \<and>
     (lo_decidedBy out \<noteq> None \<longleftrightarrow> isDecided out) \<and> (lo_decidedAt out \<noteq> None \<longleftrightarrow> isDecided out)"

definition output_edges :: "(output_state \<times> output_state) set" where
  "output_edges = {(OStaged, OReady), (OStaged, OSuperseded), (OReady, OShipping), (OReady, OReturned),
     (OReady, OExpired), (OReady, OSuperseded), (OShipping, OShipped), (OShipping, OReady),
     (OShipping, OUnconfirmed), (OShipping, OSuperseded), (OUnconfirmed, OShipped), (OUnconfirmed, OReturned),
     (OUnconfirmed, OSuperseded)}"

definition final_output :: "loop_output \<Rightarrow> bool" where
  "final_output out \<longleftrightarrow> lo_state out \<in> {OShipped, OReturned, OSuperseded, OExpired}"

definition evolves :: "loop_output \<Rightarrow> loop_output \<Rightarrow> bool" where
  "evolves out out' \<longleftrightarrow>
     (lo_state out = lo_state out' \<or> (lo_state out, lo_state out') \<in> output_edges) \<and>
     (final_output out \<longrightarrow> lo_decidedBy out' = lo_decidedBy out \<and> lo_decidedAt out' = lo_decidedAt out \<and>
        lo_decisionNote out' = lo_decisionNote out \<and> lo_shipResult out' = lo_shipResult out)"

lemma evolves_refl [simp]: "evolves out out"
  by (simp add: evolves_def)

lemma evolves_final: "evolves out out' \<Longrightarrow> final_output out \<Longrightarrow> lo_state out' = lo_state out"
  by (auto simp: evolves_def final_output_def output_edges_def)

text \<open>The atomic updates of the store: the callbacks with their guards.\<close>

inductive out_change :: "(loop_output \<Rightarrow> bool) \<Rightarrow> (loop_output \<Rightarrow> loop_output) \<Rightarrow> bool" where
  oc_rebind: "out_change (\<lambda>c. lo_loopId c = a) (\<lambda>c. c\<lparr>lo_loopId := b\<rparr>)"
| oc_superseded_by: "out_change (\<lambda>_. True) (\<lambda>c. c\<lparr>lo_supersededByOutputIds := Some (f c), lo_updatedAt := now\<rparr>)"
| oc_classify: "out_change (\<lambda>_. True)
     (\<lambda>c. c\<lparr>lo_title := t c, lo_summary := sm c, lo_label := lb c, lo_externalRef := er c, lo_updatedAt := now\<rparr>)"
| oc_promote: "out_change (\<lambda>c. lo_state c = OStaged) (\<lambda>c. c\<lparr>lo_state := OReady, lo_updatedAt := now\<rparr>)"
| oc_supersede: "out_change (\<lambda>c. lo_state c = OStaged \<or> lo_state c = OReady)
     (\<lambda>c. c\<lparr>lo_state := OSuperseded, lo_updatedAt := now\<rparr>)"
| oc_supersede_active: "out_change (\<lambda>c. lo_state c = OStaged \<or> unresolvedOutput c)
     (\<lambda>c. c\<lparr>lo_state := OSuperseded, lo_updatedAt := now\<rparr>)"
| oc_expire: "out_change (\<lambda>c. lo_state c = OReady) (\<lambda>c. c\<lparr>lo_state := OExpired, lo_updatedAt := now\<rparr>)"
| oc_claim: "out_change (ship_claimable at)
     (\<lambda>c. c\<lparr>lo_state := OShipping, lo_claimedAt := Some at, lo_claimToken := Some uuid, lo_updatedAt := at\<rparr>)"
| oc_begin: "out_change (holds_claim token) (\<lambda>c. c\<lparr>lo_shipFireKey := Some key, lo_updatedAt := now\<rparr>)"
| oc_unconfirmed: "out_change (holds_claim token)
     (\<lambda>c. c\<lparr>lo_state := OUnconfirmed, lo_claimedAt := None, lo_claimToken := None, lo_updatedAt := now\<rparr>)"
| oc_confirm: "out_change (\<lambda>c. lo_state c = OUnconfirmed) (decide OShipped input now)"
| oc_complete: "out_change (holds_claim token)
     (\<lambda>c. (decide OShipped input now c)\<lparr>lo_shipResult := Some res, lo_claimedAt := None, lo_claimToken := None\<rparr>)"
| oc_fail: "out_change (holds_claim token)
     (\<lambda>c. c\<lparr>lo_state := OReady, lo_claimedAt := None, lo_claimToken := None, lo_updatedAt := now\<rparr>)"
| oc_return: "out_change (\<lambda>c. lo_state c = OReady \<or> lo_state c = OUnconfirmed) (decide OReturned input now)"

lemma out_change_ok:
  "out_change guard change \<Longrightarrow> guard out \<Longrightarrow> out_ok i out \<Longrightarrow> out_ok i (change out) \<and> evolves out (change out)"
  by (induction rule: out_change.induct; cases "lo_state out";
      simp add: out_ok_def evolves_def output_edges_def final_output_def isDecided_def unresolvedOutput_def
      ship_claimable_def holds_claim_def decide_def)

inductive out_step :: "(string \<Rightarrow> string) \<Rightarrow> output_store \<Rightarrow> output_store \<Rightarrow> bool" for sha where
  os_change: "out_change guard change \<Longrightarrow> os_outputs s' = os_outputs (snd (applyIf i guard change s)) \<Longrightarrow> out_step sha s s'"
| os_capture: "i = capture_id sha input \<Longrightarrow>
     os_outputs s' = snd (mm_putIfAbsent i (capture_candidate i input now prior) (os_outputs s)) \<Longrightarrow> out_step sha s s'"
| os_delete: "os_outputs s' = mm_delete i (os_outputs s) \<Longrightarrow> out_step sha s s'"
| os_notice: "os_outputs s' = os_outputs s \<Longrightarrow> out_step sha s s'"

inductive out_reachable :: "(string \<Rightarrow> string) \<Rightarrow> output_store \<Rightarrow> bool" for sha where
  out_empty: "os_outputs s = [] \<Longrightarrow> out_reachable sha s"
| out_next: "out_reachable sha s \<Longrightarrow> out_step sha s s' \<Longrightarrow> out_reachable sha s'"

lemma out_step_ok:
  assumes "out_step sha s s'" and "all_stored out_ok (os_outputs s)"
  shows "all_stored out_ok (os_outputs s')"
  using assms
proof (induction rule: out_step.induct)
  case (os_change guard change s' i s)
  then show ?case using out_change_ok [OF os_change(1)]
    by (auto simp: applyIf_outputs intro!: all_stored_update)
next
  case (os_capture i input s' now prior s)
  then show ?case
    by (auto simp: out_ok_def capture_candidate_def isDecided_def intro!: all_stored_putIfAbsent)
qed (simp_all add: all_stored_delete)

lemma out_reachable_ok: "out_reachable sha s \<Longrightarrow> all_stored out_ok (os_outputs s)"
  by (induction rule: out_reachable.induct) (auto intro: out_step_ok)

lemma out_reachable_inv: "out_reachable sha s \<Longrightarrow> mm_inv (os_outputs s)"
  by (blast dest: out_reachable_ok all_stored_inv)

subsection \<open>Operations on several outputs are runs of steps\<close>

lemma os_update_step:
  assumes "out_change (\<lambda>_. True) change"
  shows "out_step sha s (snd (os_update i change s))"
  using assms by (rule os_change) (simp add: os_update_outputs applyIf_outputs)

lemma applyIf_step: "out_change guard change \<Longrightarrow> out_step sha s (snd (applyIf i guard change s))"
  by (rule os_change) auto

lemma apply_each_steps:
  assumes "\<And>now. out_change guard (\<lambda>c. c\<lparr>lo_state := st, lo_updatedAt := now\<rparr>)"
  shows "(out_step sha)\<^sup>*\<^sup>* s (snd (apply_each guard st now outs s))"
  by (induction outs arbitrary: s)
    (auto simp: split_def Let_def intro: converse_rtranclp_into_rtranclp applyIf_step [OF assms])

lemma fold_steps:
  assumes "\<And>x acc. (out_step sha)\<^sup>*\<^sup>* acc (f x acc)"
  shows "(out_step sha)\<^sup>*\<^sup>* s (fold f xs s)"
  by (induction xs arbitrary: s) (auto intro: rtranclp_trans assms)

lemma bulk_steps:
  "(out_step sha)\<^sup>*\<^sup>* s (snd (promoteAttempt itemId attemptId now s))"
  "(out_step sha)\<^sup>*\<^sup>* s (snd (supersedeAttempt itemId attemptId now s))"
  "(out_step sha)\<^sup>*\<^sup>* s (snd (supersedeActiveSiblings itemId except now s))"
  "(out_step sha)\<^sup>*\<^sup>* s (snd (expireOlderThan loopId cutoff now s))"
  unfolding promoteAttempt_def supersedeAttempt_def supersedeActiveSiblings_def expireOlderThan_def
  by (rule apply_each_steps; rule out_change.intros)+

lemma rebindItem_steps: "(out_step sha)\<^sup>*\<^sup>* s (rebindItem itemId from to s)"
proof -
  have "out_step sha acc (snd (os_update i (\<lambda>c. if lo_loopId c = from then c\<lparr>lo_loopId := to\<rparr> else c) acc))" for i acc
    by (rule os_change [OF oc_rebind [of "from" to], where i = i])
      (simp add: os_update_outputs applyIf_outputs if_not_P cong: if_cong, meson)
  then show ?thesis unfolding rebindItem_def by (intro fold_steps) auto
qed

lemma capture_steps: "(out_step sha)\<^sup>*\<^sup>* s (snd (capture sha input now now' s))"
proof -
  let ?i = "capture_id sha input"
  let ?r = "mm_putIfAbsent ?i (capture_candidate ?i input now (prior_outputs input s)) (os_outputs s)"
  let ?f = "\<lambda>output acc. snd (os_update (lo_id output)
                 (\<lambda>current. current\<lparr>lo_supersededByOutputIds :=
                     Some (uniq ((case lo_supersededByOutputIds current of None \<Rightarrow> [] | Some ids \<Rightarrow> ids) @ [lo_id (fst ?r)])),
                   lo_updatedAt := now'\<rparr>) acc)"
  let ?s1 = "s\<lparr>os_outputs := snd ?r\<rparr>"
  have "out_step sha s ?s1" by (rule os_capture [OF refl]) simp
  moreover have "(out_step sha)\<^sup>*\<^sup>* ?s1 (fold ?f (prior_outputs input s) ?s1)"
    by (intro fold_steps r_into_rtranclp os_update_step oc_superseded_by)
  moreover have "out_step sha x (os_notify y x)" for x y
    by (rule os_notice) simp
  ultimately show ?thesis
    by (simp add: capture_def split_def Let_def) (meson converse_rtranclp_into_rtranclp rtranclp.rtrancl_into_rtrancl)
qed

lemma steps_reachable: "(out_step sha)\<^sup>*\<^sup>* s s' \<Longrightarrow> out_reachable sha s \<Longrightarrow> out_reachable sha s'"
  by (induction rule: rtranclp_induct) (auto intro: out_next)

subsection \<open>Demonstration store\<close>

definition demo_capture :: capture_input where
  "demo_capture = \<lparr>ci_loopId = ''L'', ci_itemId = ''I'', ci_attemptId = ''A'', ci_ordinal = None, ci_shipAction = ''email.send'',
     ci_title = ''Reply'', ci_capturedBy = CapAgent, ci_label = None, ci_externalRef = None, ci_summary = None\<rparr>"

definition demo_out :: string where
  "demo_out = capture_id (\<lambda>t. t) demo_capture"

definition demo_outputs :: output_store where
  "demo_outputs = snd (promoteAttempt ''I'' ''A'' 20
     (snd (capture (\<lambda>t. t) demo_capture 10 10 \<lparr>os_outputs = [], os_events = []\<rparr>)))"

lemma demo_outputs_reachable: "out_reachable (\<lambda>t. t) demo_outputs"
  unfolding demo_outputs_def
  by (rule steps_reachable [OF bulk_steps(1)], rule steps_reachable [OF capture_steps], rule out_empty) simp

lemma demo_outputs_eq:
  "os_outputs demo_outputs = [(demo_out, (capture_candidate demo_out demo_capture 10 [])\<lparr>lo_state := OReady, lo_updatedAt := 20\<rparr>)]"
  by (simp add: demo_outputs_def promoteAttempt_def capture_def prior_outputs_def os_forLoop_def mm_all_def sortedEntries_def
      byAttempt_def capture_candidate_def demo_capture_def mm_putIfAbsent_def Let_def os_notify_def applyIf_def os_update_def
      mm_update_def split_def demo_out_def)

subsection \<open>Life cycle\<close>



text \<open>C15: An output is shipped by one claim at a time and at most once. After \<open>claimShipping\<close> succeeds, no other claim
  succeeds before the ten-minute lease has run out and the holder alone can begin, complete, fail or
  leave unconfirmed the attempt; once it completes, the output is shipped with that result, the
  decision names the actor, and no later claim, completion, confirmation or return is accepted.\<close>

theorem ship_at_most_once:
  assumes "out_reachable sha s" and "claimShipping t i at s = (Some out, s1)"
  shows "(\<forall>t' at'. at' < at + SHIP_LEASE_MS \<longrightarrow> fst (claimShipping t' i at' s1) = None) \<and>
    (\<forall>t' key input res now. t' \<noteq> t \<longrightarrow> fst (beginShipAttempt i t' key now s1) = None \<and>
       fst (markUnconfirmed i t' now s1) = None \<and> fst (completeShipping i t' input res now s1) = None \<and>
       fst (failShipping i t' now s1) = None) \<and>
    (\<forall>input res now. \<exists>fin s2. completeShipping i t input res now s1 = (Some fin, s2) \<and>
       mm_get i (os_outputs s2) = Some fin \<and> lo_state fin = OShipped \<and> lo_shipResult fin = Some res \<and>
       lo_decidedBy fin = Some (de_actorId input) \<and>
       (\<forall>t' at' input' res' now'. fst (claimShipping t' i at' s2) = None \<and>
          fst (completeShipping i t' input' res' now' s2) = None \<and> fst (confirmShipped i input' now' s2) = None \<and>
          fst (returnToLoop i input' now' s2) = None))"
proof -
  note inv = out_reachable_inv [OF assms(1)]
  have s1: "s1 = snd (claimShipping t i at s)" and out: "fst (claimShipping t i at s) = Some out"
    using assms(2) by simp_all
  have step: "out_step sha s s1" unfolding s1 claimShipping_def by (rule applyIf_step [OF oc_claim])
  have r1: "out_reachable sha s1" using assms(1) step by (rule out_next)
  note inv1 = out_reachable_inv [OF r1]
  have get: "mm_get i (os_outputs s1) = Some out" "lo_state out = OShipping" "lo_claimToken out = Some t"
    "lo_claimedAt out = Some at"
    using out by (auto simp: s1 claimShipping_def applyIf_get [OF inv] applyIf_result [OF inv] split: option.splits if_splits)
  have lease: "fst (claimShipping t' i at' s1) = None" if "at' < at + SHIP_LEASE_MS" for t' at'
    using that get by (simp add: claimShipping_def applyIf_result [OF inv1] ship_claimable_def)
  have other: "fst (applyIf i (holds_claim t') change s1) = None" if "t' \<noteq> t" for t' change
    using that get by (simp add: applyIf_result [OF inv1] holds_claim_def)
  have complete: "\<exists>fin s2. completeShipping i t input res now s1 = (Some fin, s2) \<and>
       mm_get i (os_outputs s2) = Some fin \<and> lo_state fin = OShipped \<and> lo_shipResult fin = Some res \<and>
       lo_decidedBy fin = Some (de_actorId input) \<and>
       (\<forall>t' at' input' res' now'. fst (claimShipping t' i at' s2) = None \<and>
          fst (completeShipping i t' input' res' now' s2) = None \<and> fst (confirmShipped i input' now' s2) = None \<and>
          fst (returnToLoop i input' now' s2) = None)" for input res now
  proof -
    let ?d = "(decide OShipped input now out)\<lparr>lo_shipResult := Some res, lo_claimedAt := None, lo_claimToken := None\<rparr>"
    define s2 where "s2 = snd (completeShipping i t input res now s1)"
    have "out_step sha s1 s2" unfolding s2_def completeShipping_def by (rule applyIf_step [OF oc_complete])
    with r1 have inv2: "mm_inv (os_outputs s2)" by (blast intro: out_next out_reachable_inv)
    have fin: "completeShipping i t input res now s1 = (Some ?d, s2)"
      using get by (intro prod_eqI) (simp_all add: s2_def completeShipping_def applyIf_result [OF inv1] holds_claim_def)
    have g2: "mm_get i (os_outputs s2) = Some ?d" "lo_state ?d = OShipped"
      using get by (simp_all add: s2_def completeShipping_def applyIf_get [OF inv1] holds_claim_def decide_def)
    have over: "fst (claimShipping t' i at' s2) = None \<and>
          fst (completeShipping i t' input' res' now' s2) = None \<and> fst (confirmShipped i input' now' s2) = None \<and>
          fst (returnToLoop i input' now' s2) = None" for t' at' input' res' now'
      using g2 unfolding claimShipping_def completeShipping_def confirmShipped_def returnToLoop_def applyIf_result [OF inv2]
      by (simp add: ship_claimable_def holds_claim_def)
    have "lo_shipResult ?d = Some res" "lo_decidedBy ?d = Some (de_actorId input)"
      by (simp_all add: decide_def)
    with fin g2 over show ?thesis by blast
  qed
  show ?thesis
    using lease other complete
    unfolding beginShipAttempt_def markUnconfirmed_def failShipping_def by (simp add: completeShipping_def)
qed

theorem ship_at_most_once_witness:
  "\<exists>out s1. claimShipping ''t'' demo_out 30 demo_outputs = (Some out, s1) \<and> fst (claimShipping ''u'' demo_out 40 s1) = None"
proof -
  obtain out s1 where c: "claimShipping ''t'' demo_out 30 demo_outputs = (Some out, s1)"
    by (cases "claimShipping ''t'' demo_out 30 demo_outputs")
      (auto simp: claimShipping_def applyIf_def os_update_def mm_update_def mm_get_def demo_outputs_eq ship_claimable_def)
  then show ?thesis
    using ship_at_most_once [OF demo_outputs_reachable c] by (simp add: SHIP_LEASE_MS_def)
qed

end
