(* ===== verification/Loop_Ledger.thy ===== *)
theory Loop_Ledger
  imports Loop_Items
begin

text \<open>
  Properties of the item ledger. \<open>item_ok\<close> and \<open>ledger_ok\<close> are its invariants; \<open>keeps\<close> is what the callback of
  an atomic update has to respect, and one lemma per operation shows that it does. The step relation
  \<open>ledger_step\<close> runs the operations of any number of callers in any order.
\<close>

subsection \<open>Invariants\<close>

definition item_ok :: "loop_item \<Rightarrow> bool" where
  "item_ok item \<longleftrightarrow>
     (li_claimToken item \<noteq> None \<longleftrightarrow> li_status item = IInProgress) \<and>
     (li_claimedAt item \<noteq> None \<longleftrightarrow> li_status item = IInProgress) \<and>
     (li_status item = IInProgress \<longrightarrow> li_attempts item \<ge> 1) \<and>
     length (or_else (li_agentDrafts item) []) \<le> AGENT_DRAFT_HISTORY \<and>
     distinct (li_runIds item) \<and> distinct (li_outputIds item)"

definition source_id :: "loop_item \<Rightarrow> string \<times> string" where
  "source_id item = (li_loopId item, li_sourceKey item)"

definition ledger_ok :: "ledger \<Rightarrow> bool" where
  "ledger_ok s \<longleftrightarrow>
     well_keyed li_id (lg_items s) \<and>
     (\<forall>i item. mm_get i (lg_items s) = Some item \<longrightarrow> item_ok item) \<and>
     (\<forall>i j a b. mm_get i (lg_items s) = Some a \<longrightarrow> mm_get j (lg_items s) = Some b \<longrightarrow>
        source_id a = source_id b \<longrightarrow> i = j)"

definition keeps :: "(loop_item \<Rightarrow> loop_item option) \<Rightarrow> bool" where
  "keeps change \<longleftrightarrow> (\<forall>item item'. item_ok item \<longrightarrow> change item = Some item' \<longrightarrow>
     item_ok item' \<and> li_id item' = li_id item \<and> source_id item' = source_id item)"

lemma ledger_ok_keyed: "ledger_ok s \<Longrightarrow> mm_inv (lg_items s)"
  by (simp add: ledger_ok_def well_keyed_def mm_inv_def)

lemma ledger_ok_id: "ledger_ok s \<Longrightarrow> mm_get i (lg_items s) = Some item \<Longrightarrow> li_id item = i"
  by (auto simp: ledger_ok_def mm_get_def dest: well_keyed_lookup)

lemma ledger_ok_item: "ledger_ok s \<Longrightarrow> mm_get i (lg_items s) = Some item \<Longrightarrow> item_ok item"
  by (simp add: ledger_ok_def)

lemma ledger_ok_source:
  "ledger_ok s \<Longrightarrow> mm_get i (lg_items s) = Some a \<Longrightarrow> mm_get j (lg_items s) = Some b \<Longrightarrow>
   source_id a = source_id b \<Longrightarrow> i = j"
  unfolding ledger_ok_def by blast

lemma ledger_okI:
  assumes "mm_inv (lg_items s)"
    and "\<And>i item. mm_get i (lg_items s) = Some item \<Longrightarrow> li_id item = i \<and> item_ok item"
    and "\<And>i j a b. mm_get i (lg_items s) = Some a \<Longrightarrow> mm_get j (lg_items s) = Some b \<Longrightarrow>
      source_id a = source_id b \<Longrightarrow> i = j"
  shows "ledger_ok s"
proof -
  have "well_keyed li_id (lg_items s)"
    using assms(1,2) by (auto simp: well_keyed_def mm_inv_def mm_get_def)
  with assms show ?thesis unfolding ledger_ok_def by blast
qed

text \<open>The lookups after an update.\<close>

lemma update_if_get:
  assumes "ledger_ok s"
  shows "mm_get k (lg_items (snd (update_if i change s))) =
    (if k = i then map_option (\<lambda>item. or_else (change item) item) (mm_get i (lg_items s)) else mm_get k (lg_items s))"
  using mm_update_if_get [OF ledger_ok_keyed [OF assms], of k i]
  by (simp add: update_if_def split_def Let_def)

lemma update_if_inv: "ledger_ok s \<Longrightarrow> mm_inv (lg_items (snd (update_if i change s)))"
  using mm_update_if_inv [OF ledger_ok_keyed, of s i]
  by (simp add: update_if_def split_def Let_def)

lemma update_if_result:
  assumes "ledger_ok s"
  shows "fst (update_if i change s) = Option.bind (mm_get i (lg_items s)) change"
  using mm_update_if_result [OF ledger_ok_keyed [OF assms], of i]
  by (simp add: update_if_def split_def Let_def)

lemma update_if_declined:
  assumes "Option.bind (mm_get i (lg_items s)) change = None"
  shows "snd (update_if i change s) = s"
  using assms by (simp add: update_if_def mm_update_if_declined)

lemma emit_items [simp]: "lg_items (emit x op now s) = lg_items s"
  by (simp add: emit_def split: option.split)

lemma emit_None [simp]: "emit None op now s = s"
  by (simp add: emit_def)

lemma ledger_ok_items: "lg_items s = lg_items t \<Longrightarrow> ledger_ok s \<longleftrightarrow> ledger_ok t"
  by (simp add: ledger_ok_def)

lemma update_emit_result [simp]: "fst (update_emit i change op now s) = fst (update_if i change s)"
  by (simp add: update_emit_def split: prod.splits)

lemma update_emit_items [simp]:
  "lg_items (snd (update_emit i change op now s)) = lg_items (snd (update_if i change s))"
  by (simp add: update_emit_def split: prod.splits)

lemma transition_result [simp]:
  "fst (transition i allowed change token op now s) = fst (update_if i (transition_change allowed change token) s)"
  by (simp add: transition_def split: option.splits)

lemma transition_items [simp]:
  "lg_items (snd (transition i allowed change token op now s)) =
     lg_items (snd (update_if i (transition_change allowed change token) s))"
  by (simp add: transition_def split: option.splits)

lemma update_if_ok:
  assumes "ledger_ok s" and "keeps change"
  shows "ledger_ok (snd (update_if i change s))"
proof (rule ledger_okI)
  let ?s = "snd (update_if i change s)"
  have old: "\<exists>old. mm_get k (lg_items s) = Some old \<and> item_ok item \<and> li_id item = k \<and> source_id item = source_id old"
    if "mm_get k (lg_items ?s) = Some item" for k item
    using that assms(2) ledger_ok_id [OF assms(1)] ledger_ok_item [OF assms(1)]
    unfolding update_if_get [OF assms(1)] keeps_def
    by (fastforce split: if_splits option.splits)
  show "mm_inv (lg_items ?s)" by (rule update_if_inv [OF assms(1)])
  show "li_id item = k \<and> item_ok item" if "mm_get k (lg_items ?s) = Some item" for k item
    using old [OF that] by blast
  show "k = j" if "mm_get k (lg_items ?s) = Some a" "mm_get j (lg_items ?s) = Some b" "source_id a = source_id b"
    for k j a b
    using old [OF that(1)] old [OF that(2)] that(3) ledger_ok_source [OF assms(1)] by metis
qed

lemma update_emit_ok: "ledger_ok s \<Longrightarrow> keeps change \<Longrightarrow> ledger_ok (snd (update_emit i change op now s))"
  using update_if_ok ledger_ok_items update_emit_items by metis

lemma transition_ok:
  "ledger_ok s \<Longrightarrow> keeps (transition_change allowed change token) \<Longrightarrow>
   ledger_ok (snd (transition i allowed change token op now s))"
  using update_if_ok ledger_ok_items transition_items by metis

subsection \<open>Every operation keeps the invariant\<close>

named_theorems keeps_intro "callbacks that keep the item invariant"

lemmas keeps_unfold = keeps_def item_ok_def source_id_def

lemma last_n_length [simp]: "length (last_n n xs) \<le> n"
  by (simp add: last_n_def)

lemma withAgentDraft_length: "length (fst (withAgentDraft cur kept keys p)) \<le> AGENT_DRAFT_HISTORY"
  by (simp add: withAgentDraft_def Let_def)

lemma keeps_setProposal [keeps_intro]: "keeps (setProposal_change p at tok now)"
  using withAgentDraft_length
  by (fastforce simp: keeps_unfold setProposal_change_def Let_def split_def split: if_splits)

lemma keeps_annotate [keeps_intro]: "keeps (annotate_change patch summary now)"
  by (auto simp: keeps_unfold annotate_change_def)

lemma keeps_appendThread [keeps_intro]: "keeps (appendThread_change ms now)"
  by (auto simp: keeps_unfold appendThread_change_def Let_def)

lemma keeps_recordAction [keeps_intro]: "keeps (recordAction_change input now)"
  by (auto simp: keeps_unfold recordAction_change_def)

lemma keeps_reopen [keeps_intro]: "keeps (reopen_change opt now)"
  by (auto simp: keeps_unfold reopen_change_def Let_def)

lemma keeps_claim [keeps_intro]: "keeps (claim_change uuid now lp)"
  by (auto simp: keeps_unfold claim_change_def)

lemma keeps_acquireDecision [keeps_intro]: "keeps (acquireDecision_change uuid at)"
  by (auto simp: keeps_unfold acquireDecision_change_def)

lemma keeps_releaseDecision [keeps_intro]: "keeps (releaseDecision_change token now)"
  by (auto simp: keeps_unfold releaseDecision_change_def)

lemma keeps_recordRun [keeps_intro]:
  "keeps (transition_change [IInProgress]
     (\<lambda>item. item\<lparr>li_runIds := uniq (li_runIds item @ [runId]), li_updatedAt := now\<rparr>) token)"
  by (auto simp: keeps_unfold transition_change_def split: if_splits)

lemma keeps_markReady [keeps_intro]:
  "keeps (transition_change [IInProgress]
     (\<lambda>item. item\<lparr>li_status := IReady, li_outputIds := uniq (li_outputIds item @ outputIds), li_claimedAt := None,
        li_claimToken := None, li_updatedAt := now\<rparr>) token)"
  by (auto simp: keeps_unfold transition_change_def split: if_splits)

lemma keeps_markShipped [keeps_intro]:
  "keeps (transition_change [IReady, IInProgress]
     (\<lambda>item. item\<lparr>li_status := IShipped, li_claimedAt := None, li_claimToken := None, li_updatedAt := now\<rparr>) token)"
  by (auto simp: keeps_unfold transition_change_def split: if_splits)

lemma keeps_returnToWork [keeps_intro]:
  "keeps (transition_change [IReady, IInProgress]
     (\<lambda>item. item\<lparr>li_status := IQueued, li_guidance := Some guidance, li_claimedAt := None, li_claimToken := None,
        li_updatedAt := now\<rparr>) token)"
  by (auto simp: keeps_unfold transition_change_def split: if_splits)

lemma keeps_park [keeps_intro]:
  "keeps (transition_change [IQueued, IInProgress, IReady]
     (\<lambda>item. item\<lparr>li_status := (if li_status item = IReady then IReady else IFailed), li_parkedReason := Some reason,
        li_claimedAt := None, li_claimToken := None, li_updatedAt := now\<rparr>) token)"
  by (auto simp: keeps_unfold transition_change_def split: if_splits)

lemma keeps_skip [keeps_intro]:
  "keeps (transition_change [IQueued, IInProgress]
     (\<lambda>item. item\<lparr>li_status := ISkipped, li_parkedReason := Some reason, li_claimedAt := None, li_updatedAt := now\<rparr>) None)"
  by (auto simp: keeps_unfold transition_change_def split: if_splits)

definition merge_change :: "string \<Rightarrow> ingest_entry \<Rightarrow> time \<Rightarrow> loop_item \<Rightarrow> loop_item option" where
  "merge_change uuid entry now item = (case mergeIngest uuid item entry now of Inr m \<Rightarrow> m | Inl _ \<Rightarrow> None)"

lemma nextIngestStatus_progress: "nextIngestStatus item p = IInProgress \<longleftrightarrow> li_status item = IInProgress"
  by (auto simp: nextIngestStatus_def)

lemma keeps_merge [keeps_intro]: "keeps (merge_change uuid entry now)"
  using withAgentDraft_length
  by (auto simp: keeps_unfold merge_change_def mergeIngest_def Let_def split_def nextIngestStatus_progress
      split: if_splits sum.splits)

lemmas update_ops = setProposal_def annotate_def appendThread_def recordAction_def reopen_def claim_item_def
  acquireDecision_def releaseDecision_def recordRun_def markReady_def markShipped_def returnToWork_def park_def skip_def

subsection \<open>Intake finds the item of its source\<close>

lemma omit_body_fields [simp]:
  "li_id (omit_body item) = li_id item" "li_loopId (omit_body item) = li_loopId item"
  "li_sourceKey (omit_body item) = li_sourceKey item"
  by (simp_all add: omit_body_def)

lemma idFor_finds:
  assumes ok: "ledger_ok s" and item: "mm_get j (lg_items s) = Some item"
    and src: "li_loopId item = loopId" "li_sourceKey item = sourceKey"
  shows "mm_get (idFor sha loopId sourceKey s) (lg_items s) \<noteq> None"
proof (cases "mm_get (loopItemId sha loopId sourceKey) (lg_items s)")
  case (Some x)
  then show ?thesis by (simp add: idFor_def)
next
  case None
  let ?sel = "mm_select (Some (\<lambda>item. Some (li_loopId item), [loopId])) None None omit_body (lg_items s)"
  have "item \<in> set (mm_all (lg_items s))"
    using item set_mm_all [OF ledger_ok_keyed [OF ok]] by blast
  then have "omit_body item \<in> set ?sel"
    using src by (auto simp: mm_select_unlimited fold_matches_def)
  with src have "List.find (\<lambda>item. li_loopId item = loopId \<and> li_sourceKey item = sourceKey) ?sel \<noteq> None"
    unfolding find_None_iff_all by (metis omit_body_fields(2,3))
  then obtain y where y: "List.find (\<lambda>item. li_loopId item = loopId \<and> li_sourceKey item = sourceKey) ?sel = Some y"
    by blast
  then have "y \<in> set ?sel" by (blast dest: find_Some_mem)
  then obtain z where "z \<in> set (mm_all (lg_items s))" "y = omit_body z"
    by (auto simp: mm_select_unlimited)
  then have "mm_get (li_id y) (lg_items s) = Some z"
    using set_mm_all [OF ledger_ok_keyed [OF ok]] ledger_ok_id [OF ok] by fastforce
  with None y show ?thesis by (simp add: idFor_def)
qed

lemma insert_item_ok:
  assumes ok: "ledger_ok s" and i: "i = idFor sha (li_loopId item) (li_sourceKey item) s"
    and item: "item_ok item" "li_id item = i"
  shows "ledger_ok (s\<lparr>lg_items := snd (mm_insertIfAbsent i item (lg_items s))\<rparr>)"
proof (rule ledger_okI; clarsimp)
  note inv = ledger_ok_keyed [OF ok]
  note get = mm.get_insert [OF inv]
  show "mm_inv (snd (mm_insertIfAbsent i item (lg_items s)))" by (rule mm.inv_insert [OF inv])
  show "li_id a = k \<and> item_ok a" if "mm_get k (snd (mm_insertIfAbsent i item (lg_items s))) = Some a" for k a
    using that item ledger_ok_id [OF ok] ledger_ok_item [OF ok] by (auto simp: get split: if_splits)
  have fresh: "source_id b \<noteq> source_id item" if "mm_get i (lg_items s) = None" "mm_get j (lg_items s) = Some b" for j b
    using idFor_finds [OF ok that(2), of "li_loopId item" "li_sourceKey item" sha] that(1) i
    by (auto simp: source_id_def)
  show "k = j" if "mm_get k (snd (mm_insertIfAbsent i item (lg_items s))) = Some a"
    "mm_get j (snd (mm_insertIfAbsent i item (lg_items s))) = Some b" "source_id a = source_id b" for k j a b
    using that ledger_ok_source [OF ok] fresh by (auto simp: get split: if_splits) (metis)+
qed

lemma new_item_ok: "item_ok (new_item i loopId key now)"
  by (simp add: item_ok_def new_item_def AGENT_DRAFT_HISTORY_def)

lemma enqueue_item_ok: "ledger_ok s \<Longrightarrow> ledger_ok (snd (enqueue_item sha loopId key summary now s))"
  using insert_item_ok [of s _ sha "(new_item _ loopId key now)\<lparr>li_sourceSummary := summary\<rparr>"] new_item_ok
  by (simp add: enqueue_item_def Let_def split_def) (simp add: item_ok_def new_item_def)

lemma ingest_candidate_fields:
  "li_id (ingest_candidate i entry now) = i" "li_loopId (ingest_candidate i entry now) = ie_loopId entry"
  "li_sourceKey (ingest_candidate i entry now) = ie_dedupeKey entry" "item_ok (ingest_candidate i entry now)"
  using withAgentDraft_length
  by (auto simp: ingest_candidate_def new_item_def item_ok_def Let_def split_def)

text \<open>What a round of \<open>ingest\<close> does to the items.\<close>

lemma ingest_one_items:
  assumes "ledger_ok s" and i: "i = idFor sha (ie_loopId entry) (ie_dedupeKey entry) s"
  shows "lg_items (snd (ingest_one sha uuid now now' entry s)) =
    (case mm_get i (lg_items s) of
       None \<Rightarrow> snd (mm_insertIfAbsent i (ingest_candidate i entry now) (lg_items s))
     | Some item \<Rightarrow> lg_items (snd (update_if i (merge_change uuid entry now') s)))"
proof (cases "mm_get i (lg_items s)")
  case None
  then show ?thesis
    by (simp add: ingest_one_def Let_def split_def i [symmetric] mm_insertIfAbsent_def mm_get_def)
next
  case (Some item)
  then have same: "mm_insertIfAbsent i (ingest_candidate i entry now) (lg_items s) = (False, lg_items s)"
    by (simp add: mm_insertIfAbsent_def mm_get_def)
  show ?thesis
    using Some
    by (cases "mergeIngest uuid item entry now'"; cases "projr (mergeIngest uuid item entry now')")
      (auto simp: ingest_one_def Let_def same i [symmetric] merge_change_def mm_get_def update_if_def
        mm_update_if_def mm_update_def update_same split: sum.splits option.splits)
qed

lemma ingest_one_ok:
  assumes "ledger_ok s"
  shows "ledger_ok (snd (ingest_one sha uuid now now' entry s))"
proof -
  define i where "i = idFor sha (ie_loopId entry) (ie_dedupeKey entry) s"
  note items = ingest_one_items [OF assms i_def, of uuid now now']
  show ?thesis
  proof (cases "mm_get i (lg_items s)")
    case None
    have "ledger_ok (s\<lparr>lg_items := snd (mm_insertIfAbsent i (ingest_candidate i entry now) (lg_items s))\<rparr>)"
      using assms by (rule insert_item_ok) (simp_all add: ingest_candidate_fields i_def)
    with items None show ?thesis by (subst ledger_ok_items) simp_all
  next
    case (Some item)
    have "ledger_ok (snd (update_if i (merge_change uuid entry now') s))"
      using assms keeps_merge by (rule update_if_ok)
    with items Some show ?thesis by (subst ledger_ok_items) simp_all
  qed
qed

lemma delete_item_ok:
  assumes "ledger_ok s"
  shows "ledger_ok (s\<lparr>lg_items := mm_delete i (lg_items s)\<rparr>)"
  using mm.get_delete [OF ledger_ok_keyed [OF assms]] mm.inv_delete [OF ledger_ok_keyed [OF assms]]
    ledger_ok_id [OF assms] ledger_ok_item [OF assms] ledger_ok_source [OF assms]
  by (intro ledger_okI) (auto split: if_splits)

text \<open>While a source is moved, every item keeps its source key and sits in its old loop or in the new one.\<close>

definition moved :: "string \<Rightarrow> string \<Rightarrow> ledger \<Rightarrow> ledger \<Rightarrow> bool" where
  "moved from to s acc \<longleftrightarrow> ledger_ok acc \<and>
     (\<forall>j a. mm_get j (lg_items acc) = Some a \<longrightarrow>
        (\<exists>b. mm_get j (lg_items s) = Some b \<and> li_sourceKey a = li_sourceKey b \<and>
          (li_loopId a = li_loopId b \<or> li_loopId b = from \<and> li_loopId a = to)))"

lemma move_change_Some:
  "move_change from to source now c = Some c' \<longleftrightarrow>
     li_loopId c = from \<and> li_status c \<noteq> IInProgress \<and> \<not> decision_active c now \<and>
     c' = c\<lparr>li_source := Some source, li_loopId := to, li_previousLoopId := Some from,
        li_inboxPreview := Some (inboxPreview (li_sourcePayload c))\<rparr>"
  by (auto simp: move_change_def)

lemma move_one:
  assumes ok: "ledger_ok s" and acc: "moved from to s acc"
    and x: "mm_get (li_id x) (lg_items s) = Some x" "li_loopId x = from" "moveable source (forLoop to s) x"
  shows "moved from to s (snd (update_if (li_id x) (move_change from to source now) acc))"
proof (cases "Option.bind (mm_get (li_id x) (lg_items acc)) (move_change from to source now)")
  case None
  then show ?thesis using acc update_if_declined by metis
next
  case (Some c')
  then obtain c where c: "mm_get (li_id x) (lg_items acc) = Some c" "move_change from to source now c = Some c'"
    by (auto simp: bind_eq_Some_conv)
  have accok: "ledger_ok acc" and rel: "\<And>j a. mm_get j (lg_items acc) = Some a \<Longrightarrow>
      \<exists>b. mm_get j (lg_items s) = Some b \<and> li_sourceKey a = li_sourceKey b \<and>
          (li_loopId a = li_loopId b \<or> li_loopId b = from \<and> li_loopId a = to)"
    using acc unfolding moved_def by blast+
  note c' = c(2) [unfolded move_change_Some]
  have key: "li_sourceKey c = li_sourceKey x" using rel [OF c(1)] x(1) by auto
  let ?acc = "snd (update_if (li_id x) (move_change from to source now) acc)"
  have get: "mm_get k (lg_items ?acc) = (if k = li_id x then Some c' else mm_get k (lg_items acc))" for k
    using c by (simp add: update_if_get [OF accok])
  have clash: "j = li_id x" if j: "mm_get j (lg_items acc) = Some a" and src: "source_id a = source_id c'" for j a
  proof -
    obtain b where b: "mm_get j (lg_items s) = Some b" "li_sourceKey a = li_sourceKey b"
      "li_loopId a = li_loopId b \<or> li_loopId b = from \<and> li_loopId a = to" using rel [OF j] by blast
    have ak: "li_sourceKey b = li_sourceKey x" "li_loopId a = to"
      using src c' key b(2) by (auto simp: source_id_def)
    show ?thesis
    proof (cases "li_loopId b = from")
      case True
      with ak x ledger_ok_source [OF ok b(1) x(1)] show ?thesis by (simp add: source_id_def)
    next
      case False
      with b(3) ak have "b \<in> set (forLoop to s)"
        using b(1) set_mm_all [OF ledger_ok_keyed [OF ok]] by (auto simp: forLoop_def)
      with x(3) ak ledger_ok_id [OF ok b(1)] show ?thesis by (auto simp: moveable_def list_ex_iff)
    qed
  qed
  have "ledger_ok ?acc"
  proof (rule ledger_okI)
    show "mm_inv (lg_items ?acc)" by (rule update_if_inv [OF accok])
    show "li_id a = k \<and> item_ok a" if "mm_get k (lg_items ?acc) = Some a" for k a
    proof (cases "k = li_id x")
      case True
      then show ?thesis
        using that c' ledger_ok_id [OF accok c(1)] ledger_ok_item [OF accok c(1)] by (auto simp: get item_ok_def)
    next
      case False
      then show ?thesis
        using that ledger_ok_id [OF accok] ledger_ok_item [OF accok] by (simp add: get)
    qed
    show "k = j" if "mm_get k (lg_items ?acc) = Some a" "mm_get j (lg_items ?acc) = Some b" "source_id a = source_id b"
      for k j a b
      using that clash ledger_ok_source [OF accok] by (auto simp: get split: if_splits)
  qed
  moreover have "\<exists>b. mm_get j (lg_items s) = Some b \<and> li_sourceKey a = li_sourceKey b \<and>
      (li_loopId a = li_loopId b \<or> li_loopId b = from \<and> li_loopId a = to)"
    if "mm_get j (lg_items ?acc) = Some a" for j a
    using that rel x key c' by (cases "j = li_id x") (auto simp: get)
  ultimately show ?thesis by (simp add: moved_def)
qed

lemma moveSource_ok:
  assumes "ledger_ok s"
  shows "ledger_ok (moveSource from to source now s)"
proof -
  have fold_moved: "moved from to s acc \<Longrightarrow> \<forall>x \<in> set xs. mm_get (li_id x) (lg_items s) = Some x \<and> li_loopId x = from \<Longrightarrow>
      moved from to s (fold (\<lambda>item acc. if moveable source (forLoop to s) item
        then snd (update_if (li_id item) (move_change from to source now) acc) else acc) xs acc)" for xs acc
    by (induction xs arbitrary: acc) (auto intro: move_one [OF assms])
  have "mm_get (li_id x) (lg_items s) = Some x \<and> li_loopId x = from" if "x \<in> set (forLoop from s)" for x
    using that set_mm_all [OF ledger_ok_keyed [OF assms]] ledger_ok_id [OF assms] by (fastforce simp: forLoop_def)
  moreover have "moved from to s s" using assms by (simp add: moved_def)
  ultimately show ?thesis using fold_moved [of s "forLoop from s"] by (simp add: moveSource_def moved_def)
qed

subsection \<open>Reachable ledgers\<close>

inductive ledger_step :: "(string \<Rightarrow> string) \<Rightarrow> ledger \<Rightarrow> ledger \<Rightarrow> bool" for sha where
  ls_enqueue: "ledger_step sha s (snd (enqueue_item sha loopId key summary now s))"
| ls_ingest: "ledger_step sha s (snd (ingest_one sha uuid now now' entry s))"
| ls_move: "ledger_step sha s (moveSource from to source now s)"
| ls_propose: "ledger_step sha s (snd (setProposal i p expectedAt expectedToken now s))"
| ls_annotate: "ledger_step sha s (snd (annotate i patch summary now s))"
| ls_thread: "ledger_step sha s (snd (appendThread i messages now s))"
| ls_action: "ledger_step sha s (snd (recordAction i input now s))"
| ls_reopen: "ledger_step sha s (snd (reopen i sentReply now s))"
| ls_claim: "ledger_step sha s (snd (claim_item uuid i now lp s))"
| ls_acquire: "ledger_step sha s (snd (acquireDecision uuid i now s))"
| ls_release: "ledger_step sha s (snd (releaseDecision i token now s))"
| ls_run: "ledger_step sha s (snd (recordRun i runId token now s))"
| ls_ready: "ledger_step sha s (snd (markReady i outputs token now s))"
| ls_shipped: "ledger_step sha s (snd (markShipped i tok now s))"
| ls_return: "ledger_step sha s (snd (returnToWork i guidance tok now s))"
| ls_park: "ledger_step sha s (snd (park i reason tok now s))"
| ls_skip: "ledger_step sha s (snd (skip i reason now s))"
| ls_delete: "ledger_step sha s (s\<lparr>lg_items := mm_delete i (lg_items s)\<rparr>)"

inductive ledger_reachable :: "(string \<Rightarrow> string) \<Rightarrow> ledger \<Rightarrow> bool" for sha where
  ledger_empty: "ledger_reachable sha \<lparr>lg_items = [], lg_events = []\<rparr>"
| ledger_next: "ledger_reachable sha s \<Longrightarrow> ledger_step sha s s' \<Longrightarrow> ledger_reachable sha s'"

lemma ledger_step_ok: "ledger_step sha s s' \<Longrightarrow> ledger_ok s \<Longrightarrow> ledger_ok s'"
  by (induction rule: ledger_step.induct)
    (simp_all add: enqueue_item_ok ingest_one_ok moveSource_ok delete_item_ok update_ops update_if_ok
      update_emit_ok transition_ok keeps_intro split_def Let_def)

lemma ledger_reachable_ok: "ledger_reachable sha s \<Longrightarrow> ledger_ok s"
proof (induction rule: ledger_reachable.induct)
  case ledger_empty
  show ?case by (simp add: ledger_ok_def mm_get_def)
qed (rule ledger_step_ok)

text \<open>Deleting the items of a loop, and pruning, are runs of single deletions.\<close>

lemma delete_many_reachable:
  "ledger_reachable sha s \<Longrightarrow> ledger_reachable sha (s\<lparr>lg_items := fold mm_delete ids (lg_items s)\<rparr>)"
proof (induction ids arbitrary: s)
  case (Cons i ids)
  have "ledger_reachable sha (s\<lparr>lg_items := mm_delete i (lg_items s)\<rparr>)"
    using Cons.prems ls_delete by (rule ledger_next)
  then show ?case using Cons.IH by fastforce
qed simp

lemma prune_reachable: "ledger_reachable sha s \<Longrightarrow> ledger_reachable sha (snd (prune l m r now s))"
  by (simp add: prune_def Let_def delete_many_reachable)

lemma deleteByLoop_reachable: "ledger_reachable sha s \<Longrightarrow> ledger_reachable sha (deleteByLoop l s)"
  using delete_many_reachable [of sha s "map li_id (forLoop l s)"]
  by (simp add: deleteByLoop_def fold_map comp_def)

text \<open>A ledger with one queued item.\<close>

definition demo_sha :: "string \<Rightarrow> string" where
  "demo_sha s = s"

definition demo_entry :: ingest_entry where
  "demo_entry = \<lparr>ie_loopId = ''L'', ie_dedupeKey = ''k'', ie_source = Some ''gmail'', ie_summary = None,
     ie_sourcePayload = [(''title'', JStr ''Hi'')], ie_sourceAt = Some 100, ie_proposal = None\<rparr>"

definition demo_ledger :: ledger where
  "demo_ledger = snd (ingest_one demo_sha ''m1'' 1000 1000 demo_entry \<lparr>lg_items = [], lg_events = []\<rparr>)"

definition demo_id :: string where
  "demo_id = loopItemId demo_sha ''L'' ''k''"

lemma demo_ledger_reachable: "ledger_reachable demo_sha demo_ledger"
  unfolding demo_ledger_def using ledger_empty ls_ingest by (rule ledger_next)

lemma demo_ledger_get: "mm_get demo_id (lg_items demo_ledger) = Some (ingest_candidate demo_id demo_entry 1000)"
  by (simp add: demo_ledger_def ingest_one_def demo_id_def idFor_def mm_get_def mm_insertIfAbsent_def
      mm_select_def sortedEntries_def demo_entry_def Let_def)

subsection \<open>Consistency of the stored items\<close>



subsection \<open>Claims\<close>

lemma update_emit_declined:
  "Option.bind (mm_get i (lg_items s)) change = None \<Longrightarrow> ledger_ok s \<Longrightarrow> update_emit i change op now s = (None, s)"
  using update_if_declined [of i s change] update_if_result [of s i change]
  by (cases "update_if i change s") (simp add: update_emit_def)

lemma update_if_declined_pair:
  "Option.bind (mm_get i (lg_items s)) change = None \<Longrightarrow> ledger_ok s \<Longrightarrow> update_if i change s = (None, s)"
  using update_if_declined [of i s change] update_if_result [of s i change]
  by (cases "update_if i change s") simp

lemma transition_refused:
  assumes "ledger_ok s" and "mm_get i (lg_items s) = Some item" and "li_status item = IInProgress"
    and "li_claimToken item \<noteq> token"
  shows "transition i allowed change token op now s = (None, s)"
  using assms update_emit_declined [of i s "transition_change allowed change token"]
    update_if_declined_pair [of i s "transition_change allowed change token"]
  by (simp add: transition_def transition_change_def split: option.split)

lemma transition_accepted:
  assumes "ledger_ok s" and "mm_get i (lg_items s) = Some item" and "li_status item \<in> set allowed"
    and "li_status item = IInProgress \<longrightarrow> li_claimToken item = token"
  shows "fst (transition i allowed change token op now s) = Some (change item)"
  using assms by (auto simp: update_if_result transition_change_def)

lemma claim_item_Some:
  assumes "ledger_ok s" and "claim_item t i now lp s = (Some item, s')"
  shows "ledger_ok s'" and "mm_get i (lg_items s') = Some item" and "li_status item = IInProgress"
    and "li_claimToken item = Some t" and "li_claimedAt item = Some now"
proof -
  from assms(2) have s': "s' = snd (update_if i (claim_change t now lp) s)" and
    r: "fst (update_if i (claim_change t now lp) s) = Some item"
    by (simp_all add: claim_item_def)
  show "ledger_ok s'" unfolding s' using assms(1) keeps_claim by (rule update_if_ok)
  from r obtain old where old: "mm_get i (lg_items s) = Some old" "claim_change t now lp old = Some item"
    by (auto simp: update_if_result [OF assms(1)] bind_eq_Some_conv)
  then show "mm_get i (lg_items s') = Some item" by (simp add: s' update_if_get [OF assms(1)])
  show "li_status item = IInProgress" "li_claimToken item = Some t" "li_claimedAt item = Some now"
    using old(2) by (auto simp: claim_change_def split: if_splits)
qed



subsection \<open>The work queue\<close>

lemma distinct_item_ids:
  assumes "ledger_ok s"
  shows "distinct (map li_id (mm_all (lg_items s)))"
proof -
  have "map li_id (mm_all (lg_items s)) = map fst (sortedEntries (lg_items s))"
    using ledger_ok_id [OF assms] sortedEntries_get [OF ledger_ok_keyed [OF assms]]
    by (auto simp: mm_all_def comp_def)
  with sortedEntries_sorted [OF ledger_ok_keyed [OF assms]] show ?thesis by simp
qed

lemma distinct_items: "ledger_ok s \<Longrightarrow> distinct (mm_all (lg_items s))"
  using distinct_item_ids by (blast dest: distinct_map [THEN iffD1])

text \<open>\<open>queued\<close> lists exactly the items of the loop that a claim would take at that time (waiting items, and
  items whose claim has lapsed), each once and in the order of creation.\<close>

lemma queued_is_claimable:
  assumes "ledger_reachable sha s"
  shows "set (queued loopId None now s) =
      {item. \<exists>i. mm_get i (lg_items s) = Some item \<and> fst (claim_item t i now (Some loopId) s) \<noteq> None} \<and>
    sorted (map li_createdAt (queued loopId None now s)) \<and> distinct (queued loopId None now s) \<and>
    (\<forall>n. queued loopId (Some n) now s = take n (queued loopId None now s))"
proof -
  note ok = ledger_reachable_ok [OF assms]
  have "set (queued loopId None now s) =
      {item. \<exists>i. mm_get i (lg_items s) = Some item \<and> fst (claim_item t i now (Some loopId) s) \<noteq> None}"
    using set_mm_all [OF ledger_ok_keyed [OF ok]]
    by (auto simp: queued_def forLoop_def claim_item_def update_if_result [OF ok] claim_change_def bind_eq_Some_conv
        split: if_splits)
  then show ?thesis using distinct_items [OF ok] by (simp add: queued_def forLoop_def Let_def)
qed

lemma queued_is_claimable_witness:
  "ingest_candidate demo_id demo_entry 1000 \<in> set (queued ''L'' None 5000 demo_ledger)"
proof -
  have "fst (claim_item ''t'' demo_id 5000 (Some ''L'') demo_ledger) \<noteq> None"
    by (simp add: claim_item_def update_if_result [OF ledger_reachable_ok [OF demo_ledger_reachable]] demo_ledger_get
        claim_change_def ingest_candidate_def new_item_def demo_entry_def Let_def split_def)
  then show ?thesis
    using queued_is_claimable [OF demo_ledger_reachable, of "''L''" 5000 "''t''"] demo_ledger_get by blast
qed

subsection \<open>Ingesting a source\<close>

lemma mergeIngest_keeps_human:
  assumes "mergeIngest uuid item entry now = Inr (Some m)" and "by_human item" and "\<not> newer_source item entry"
  shows "li_proposal m = li_proposal item"
  using assms by (auto simp: mergeIngest_def Let_def split_def merged_proposal_def split: if_splits)

lemma mergeIngest_refresh:
  assumes "mergeIngest uuid item entry now = Inr (Some m)" and "li_proposal item = Some p" and "lp_by p = ByHuman"
    and "newer_source item entry" and "ie_proposal entry = None"
  shows "li_status m = IQueued \<and> li_claimToken m = None \<and>
    li_thread m = Some (or_else (li_thread item) [] @
      [\<lparr>tm_id = uuid, tm_role = RoleHuman, tm_text = kept_draft_text p, tm_at = now, tm_actorId = None\<rparr>])"
  using assms by (auto simp: mergeIngest_def Let_def split_def split: if_splits)

lemma ingest_one_present:
  assumes "mm_get i (lg_items s) = Some item" and i: "i = idFor sha (ie_loopId entry) (ie_dedupeKey entry) s"
  shows "ingest_one sha uuid now now' entry s =
    (case mergeIngest uuid item entry now' of
       Inl e \<Rightarrow> (Inl e, s)
     | Inr None \<Rightarrow> (Inr IngestSkipped, s)
     | Inr (Some m) \<Rightarrow> (Inr IngestUpdated,
         emit (Some m) EvIngest now' (s\<lparr>lg_items := AList.update i m (lg_items s)\<rparr>)))"
  using assms(1)
  by (auto simp: ingest_one_def i [symmetric] mm_insertIfAbsent_def mm_get_def mm_update_def Let_def js_map_simps
      split: sum.splits option.splits)

text \<open>Ingesting an entry whose source already has an item respects what people decided. A resolved item is
  left alone unless the source is newer. A draft written by a human is not replaced unless the source
  is newer; when a newer message without a proposal arrives, the item goes back to the queue without a
  claim and the human draft is kept as the last message of the thread, or, while somebody is
  deciding on the item, the ingest fails and changes nothing.\<close>

lemma ingest_respects_people:
  assumes "ledger_reachable sha s" and "mm_get i (lg_items s) = Some item"
    and "i = idFor sha (ie_loopId entry) (ie_dedupeKey entry) s"
    and "ingest_one sha uuid now now' entry s = (r, s')"
  shows "(isResolved item \<and> \<not> newer_source item entry \<longrightarrow> r = Inr IngestSkipped \<and> s' = s) \<and>
    (by_human item \<and> \<not> newer_source item entry \<longrightarrow>
       map_option li_proposal (mm_get i (lg_items s')) = Some (li_proposal item)) \<and>
    (newer_source item entry \<and> ie_proposal entry = None \<and> decision_active item now' \<longrightarrow>
       (\<exists>e. r = Inl e) \<and> s' = s) \<and>
    (\<forall>p. li_proposal item = Some p \<and> lp_by p = ByHuman \<and> newer_source item entry \<and> ie_proposal entry = None \<and>
       \<not> decision_active item now' \<longrightarrow>
       (\<exists>m. mm_get i (lg_items s') = Some m \<and> li_status m = IQueued \<and> li_claimToken m = None \<and>
          tm_text (last (or_else (li_thread m) [])) = kept_draft_text p))"
proof -
  note one = ingest_one_present [OF assms(2,3), of uuid now now'] assms(4)
  have a: "r = Inr IngestSkipped \<and> s' = s" if "isResolved item" "\<not> newer_source item entry"
    using one that by (simp add: mergeIngest_def)
  have d: "(\<exists>e. r = Inl e) \<and> s' = s"
    if "newer_source item entry" "ie_proposal entry = None" "decision_active item now'"
    using one that by (auto simp: mergeIngest_def)
  have b: "map_option li_proposal (mm_get i (lg_items s')) = Some (li_proposal item)"
    if "by_human item" "\<not> newer_source item entry"
    using one that assms(2) mergeIngest_keeps_human [of uuid item entry now']
    by (auto simp: mm_get_def js_map_simps split: sum.splits option.splits)
  have c: "\<exists>m. mm_get i (lg_items s') = Some m \<and> li_status m = IQueued \<and> li_claimToken m = None \<and>
          tm_text (last (or_else (li_thread m) [])) = kept_draft_text p"
    if "li_proposal item = Some p" "lp_by p = ByHuman" "newer_source item entry" "ie_proposal entry = None"
      "\<not> decision_active item now'" for p
  proof -
    have "\<exists>m. mergeIngest uuid item entry now' = Inr (Some m)"
      using that by (simp add: mergeIngest_def Let_def split_def)
    then obtain m where m: "mergeIngest uuid item entry now' = Inr (Some m)" ..
    have "mm_get i (lg_items s') = Some m"
      using one by (auto simp: m mm_get_def js_map_simps)
    with mergeIngest_refresh [OF m that(1-4)] show ?thesis by simp
  qed
  show ?thesis using a b c d by blast
qed

definition demo_closed :: ledger where
  "demo_closed = snd (recordAction demo_id
     \<lparr>ra_kind = ''archive'', ra_result = None, ra_actorId = None, ra_outcome = Dismissed\<rparr> 2000 demo_ledger)"

lemma demo_closed_reachable: "ledger_reachable demo_sha demo_closed"
  unfolding demo_closed_def using demo_ledger_reachable ls_action by (rule ledger_next)

lemma ingest_respects_people_witness:
  "ingest_one demo_sha ''m2'' 3000 3000 demo_entry demo_closed = (Inr IngestSkipped, demo_closed)"
proof -
  obtain item where item: "mm_get demo_id (lg_items demo_closed) = Some item" "isResolved item"
      "\<not> newer_source item demo_entry"
    by (auto simp: demo_closed_def recordAction_def update_if_get [OF ledger_reachable_ok [OF demo_ledger_reachable]]
        demo_ledger_get recordAction_change_def ingest_candidate_def new_item_def demo_entry_def Let_def split_def
        isResolved_def ledgerState_def newer_source_def)
  have "demo_id = idFor demo_sha (ie_loopId demo_entry) (ie_dedupeKey demo_entry) demo_closed"
    using item(1) by (simp add: idFor_def demo_id_def demo_entry_def)
  with ingest_respects_people [OF demo_closed_reachable item(1), of demo_entry "''m2''" 3000 3000] item(2,3)
  show ?thesis by (cases "ingest_one demo_sha ''m2'' 3000 3000 demo_entry demo_closed") simp
qed

subsection \<open>Pruning\<close>

lemma fold_delete_filter: "fold mm_delete ids m = filter (\<lambda>(k, _). k \<notin> set ids) m"
  by (induction ids arbitrary: m) (auto simp: mm_delete_def AList.delete_eq filter_filter split_def intro!: filter_cong)

lemma forLoop_deleted:
  assumes "ledger_ok s"
  shows "forLoop loopId (s\<lparr>lg_items := fold mm_delete ids (lg_items s)\<rparr>) =
    filter (\<lambda>item. li_id item \<notin> set ids) (forLoop loopId s)"
proof -
  have id: "li_id v = k" if "(k, v) \<in> set (sortedEntries (lg_items s))" for k v
    using that ledger_ok_id [OF assms] sortedEntries_get [OF ledger_ok_keyed [OF assms]] by blast
  have "mm_all (fold mm_delete ids (lg_items s)) =
      map snd (filter (\<lambda>(k, _). k \<notin> set ids) (sortedEntries (lg_items s)))"
    by (simp add: mm_all_def sortedEntries_def fold_delete_filter filter_sort)
  also have "\<dots> = map snd (filter (\<lambda>e. li_id (snd e) \<notin> set ids) (sortedEntries (lg_items s)))"
    using id by (intro arg_cong [where f = "map snd"] filter_cong) auto
  also have "\<dots> = filter (\<lambda>v. li_id v \<notin> set ids) (mm_all (lg_items s))"
    by (simp add: mm_all_def filter_map comp_def)
  finally show ?thesis by (simp add: forLoop_def filter_filter conj_commute)
qed

lemma length_filter_removed:
  assumes "distinct (map f xs)" and "distinct (map f ys)" and "set ys \<subseteq> set xs"
  shows "length (filter (\<lambda>x. f x \<notin> f ` set ys) xs) + length ys = length xs"
proof -
  have inj: "inj_on f (set xs)" using assms(1) by (simp add: distinct_map)
  have "filter (\<lambda>x. f x \<in> f ` set ys) xs = filter (\<lambda>x. x \<in> set ys) xs"
    using inj assms(3) by (intro filter_cong) (auto dest: inj_onD)
  then have "length (filter (\<lambda>x. f x \<in> f ` set ys) xs) = card (set xs \<inter> set ys)"
    using assms(1) by (simp add: distinct_map flip: distinct_card) (simp add: Int_def)
  also have "\<dots> = length ys"
    using assms(2,3) by (simp add: distinct_map distinct_card Int_absorb1)
  finally show ?thesis using sum_length_filter_compl [of "\<lambda>x. f x \<in> f ` set ys" xs] by simp
qed

lemma fold_update_new:
  assumes "distinct (map li_id xs)" and "fst ` set m \<inter> li_id ` set xs = {}"
  shows "map fst (fold (\<lambda>item. AList.update (li_id item) item) xs m) = map fst m @ map li_id xs"
  using assms
proof (induction xs arbitrary: m)
  case (Cons x xs)
  have "map_of m (li_id x) = None" using Cons.prems(2) by (simp add: map_of_eq_None_iff)
  then have "map fst (AList.update (li_id x) x m) = map fst m @ [li_id x]" by (simp add: update_absent)
  moreover have "fst ` set (AList.update (li_id x) x m) \<inter> li_id ` set xs = {}"
    using Cons.prems by (auto simp: update_absent \<open>map_of m (li_id x) = None\<close>)
  ultimately show ?case using Cons.IH [of "AList.update (li_id x) x m"] Cons.prems(1) by simp
qed simp

text \<open>The identifiers \<open>prune\<close> deletes: the expired items, then the longest settled of the surviving resolved ones.\<close>

lemma prune_doomed_ids:
  fixes loopId :: string and maxItems :: nat and retentionMs now :: time
  assumes "ledger_ok s"
  defines "items \<equiv> forLoop loopId s"
  defines "expired \<equiv> filter (\<lambda>item. isResolved item \<and> now - settled_at item \<ge> retentionMs) items"
  defines "surviving \<equiv> filter (\<lambda>item. \<not> (isResolved item \<and> now - settled_at item \<ge> retentionMs)) items"
  defines "dropped \<equiv> take (length surviving - maxItems) (sort_key settled_at (filter isResolved surviving))"
  shows "map fst (prune_doomed loopId maxItems retentionMs now s) = map li_id (expired @ dropped)"
    and "distinct (map li_id (expired @ dropped))" and "set dropped \<subseteq> set surviving" and "distinct (map li_id items)"
proof -
  have d: "distinct (map li_id items)"
    using distinct_item_ids [OF assms(1)] by (simp add: items_def forLoop_def distinct_map_filter)
  have dropped_sub: "set dropped \<subseteq> set (filter isResolved surviving)"
    unfolding dropped_def using set_take_subset by fastforce
  have inj: "inj_on li_id (set items)" using d by (simp add: distinct_map)
  have d_dropped: "distinct (map li_id dropped)"
  proof -
    have "distinct (map li_id (filter isResolved surviving))"
      using d by (simp add: surviving_def distinct_map_filter)
    then show ?thesis by (simp add: dropped_def distinct_map inj_on_subset [OF _ set_take_subset] flip: take_map)
  qed
  have disj: "li_id ` set expired \<inter> li_id ` set surviving = {}"
    using inj by (auto simp: expired_def surviving_def dest: inj_onD)
  have d_exp: "distinct (map li_id expired)" using d by (simp add: expired_def distinct_map_filter)
  let ?doomed = "fold (\<lambda>item. AList.update (li_id item) item) expired []"
  have ids: "map fst ?doomed = map li_id expired" using fold_update_new [OF d_exp, of "[]"] by simp
  have keys: "fst ` set ?doomed = li_id ` set expired" using ids by (metis set_map)
  have "map_of ?doomed (li_id item) = None \<longleftrightarrow> item \<notin> set expired" if "item \<in> set items" for item
    using inj_on_image_mem_iff [OF inj that, of "set expired"] keys
    by (auto simp: map_of_eq_None_iff expired_def)
  then have surv: "filter (\<lambda>item. map_of ?doomed (li_id item) = None) items = surviving"
    unfolding surviving_def by (intro filter_cong) (auto simp: expired_def)
  have "fst ` set ?doomed \<inter> li_id ` set dropped = {}"
  proof -
    have "set dropped \<subseteq> set surviving" using dropped_sub by auto
    with disj show ?thesis unfolding keys by blast
  qed
  note more = fold_update_new [OF d_dropped this]
  show "map fst (prune_doomed loopId maxItems retentionMs now s) = map li_id (expired @ dropped)"
    using more ids surv unfolding prune_doomed_def Let_def items_def [symmetric] expired_def [symmetric]
    by (simp add: dropped_def)
  show "distinct (map li_id (expired @ dropped))"
  proof -
    have "set dropped \<subseteq> set surviving" using dropped_sub by auto
    with disj have "li_id ` set expired \<inter> li_id ` set dropped = {}" by blast
    with d_exp d_dropped show ?thesis by simp
  qed
  show "set dropped \<subseteq> set surviving" "distinct (map li_id items)" using dropped_sub d by auto
qed

text \<open>\<open>prune\<close> removes only resolved items of its loop and reports how many: every open item and every item
  of another loop stays as it is, no resolved item of the loop past its retention remains, and
  afterwards the loop has at most \<open>maxItems\<close> items or has open items only.\<close>

lemma prune_keeps_open_items:
  assumes "ledger_reachable sha s" and "prune loopId maxItems retentionMs now s = (n, s')"
  shows "(\<forall>i item. mm_get i (lg_items s) = Some item \<and> (li_loopId item \<noteq> loopId \<or> \<not> isResolved item) \<longrightarrow>
      mm_get i (lg_items s') = Some item) \<and>
    set (forLoop loopId s') \<subseteq> set (forLoop loopId s) \<and>
    (\<forall>item \<in> set (forLoop loopId s'). isResolved item \<longrightarrow> now - settled_at item < retentionMs) \<and>
    (length (forLoop loopId s') \<le> maxItems \<or> (\<forall>item \<in> set (forLoop loopId s'). \<not> isResolved item)) \<and>
    n + length (forLoop loopId s') = length (forLoop loopId s)"
proof -
  note ok = ledger_reachable_ok [OF assms(1)]
  define items where "items = forLoop loopId s"
  define due where "due = (\<lambda>item. isResolved item \<and> now - settled_at item \<ge> retentionMs)"
  define surviving where "surviving = filter (\<lambda>item. \<not> due item) items"
  define dropped where "dropped = take (length surviving - maxItems) (sort_key settled_at (filter isResolved surviving))"
  define gone where "gone = filter due items @ dropped"
  note unfolds = gone_def dropped_def surviving_def due_def items_def
  have ids: "map fst (prune_doomed loopId maxItems retentionMs now s) = map li_id gone"
    "distinct (map li_id gone)" "set dropped \<subseteq> set surviving" "distinct (map li_id items)"
    unfolding unfolds by (rule prune_doomed_ids [OF ok])+
  have s': "s' = s\<lparr>lg_items := fold mm_delete (map li_id gone) (lg_items s)\<rparr>" and n: "n = length gone"
    using assms(2) ids(1) by (auto simp: prune_def Let_def) (metis length_map)
  have gone_sub: "set gone \<subseteq> set items" and resolved: "\<forall>x \<in> set gone. isResolved x"
    using ids(3) set_take_subset [of _ "sort_key settled_at (filter isResolved surviving)"]
    by (auto simp: gone_def due_def dropped_def surviving_def)
  have left: "forLoop loopId s' = filter (\<lambda>item. li_id item \<notin> li_id ` set gone) items"
    unfolding s' forLoop_deleted [OF ok] by (simp add: items_def)
  have rest: "filter (\<lambda>item. li_id item \<notin> li_id ` set gone) items = filter (\<lambda>item. item \<notin> set gone) items"
    using ids(4) gone_sub by (intro filter_cong) (auto simp: distinct_map dest: inj_onD)
  have count: "n + length (forLoop loopId s') = length items"
    using length_filter_removed [OF ids(4,2) gone_sub] by (simp add: left n)
  have kept: "mm_get i (lg_items s') = Some item"
    if "mm_get i (lg_items s) = Some item" "li_loopId item \<noteq> loopId \<or> \<not> isResolved item" for i item
  proof -
    have "i \<notin> li_id ` set gone"
    proof
      assume "i \<in> li_id ` set gone"
      then obtain x where x: "x \<in> set gone" "li_id x = i" by auto
      with gone_sub obtain j where "mm_get j (lg_items s) = Some x" "li_loopId x = loopId"
        using set_mm_all [OF ledger_ok_keyed [OF ok]] by (auto simp: items_def forLoop_def)
      with x that resolved show False using ledger_ok_id [OF ok] by fastforce
    qed
    then show ?thesis
      using that(1) by (auto simp: s' fold_delete_filter mm_get_def map_of_filter_in simp flip: set_map)
  qed
  have small: "length (forLoop loopId s') \<le> maxItems \<or> (\<forall>item \<in> set (forLoop loopId s'). \<not> isResolved item)"
  proof (cases "length (filter isResolved surviving) \<le> length surviving - maxItems")
    case True
    then have "set (filter isResolved surviving) \<subseteq> set dropped" by (simp add: dropped_def)
    then show ?thesis unfolding left rest by (auto simp: gone_def surviving_def due_def)
  next
    case False
    then have "length dropped = length surviving - maxItems" by (simp add: dropped_def)
    moreover have "length (filter due items) + length surviving = length items"
      unfolding surviving_def by (rule sum_length_filter_compl)
    ultimately have "length (forLoop loopId s') \<le> maxItems"
      using count False by (simp add: n gone_def)
    then show ?thesis ..
  qed
  have "\<forall>item \<in> set (forLoop loopId s'). isResolved item \<longrightarrow> now - settled_at item < retentionMs"
    unfolding left rest by (auto simp: gone_def due_def)
  with kept small count left show ?thesis unfolding items_def by auto
qed

lemma prune_keeps_open_items_witness:
  "mm_get demo_id (lg_items (snd (prune ''L'' 0 5000 9000 demo_ledger))) = Some (ingest_candidate demo_id demo_entry 1000)"
proof -
  obtain n s' where p: "prune ''L'' 0 5000 9000 demo_ledger = (n, s')" by force
  show ?thesis
    using prune_keeps_open_items [OF demo_ledger_reachable p] demo_ledger_get p
    by (auto simp: ingest_candidate_def new_item_def demo_entry_def isResolved_def ledgerState_def Let_def split_def)
qed

end
