(* ===== verification/Loop_Governance.thy ===== *)
theory Loop_Governance
  imports Loop_Store Loop_Shipping Loop_Ledger
begin

text \<open>
  Properties of loop records, of the ship gate with its standing grants, and of the governor, across
  the item ledger and the output store.
\<close>

subsection \<open>Loop records\<close>

definition loop_ok :: "string \<Rightarrow> loop \<Rightarrow> bool" where
  "loop_ok i lp \<longleftrightarrow> tb_id lp = i \<and> (tb_enabled lp \<longleftrightarrow> isRunnable lp) \<and>
     map pr_version (l_playbookHistory lp) = [1..<Suc (l_playbookVersion lp)] \<and> l_playbookVersion lp \<ge> 1 \<and>
     distinct (map sap_action (l_shipActions lp)) \<and> [] \<notin> sap_action ` set (l_shipActions lp)"

lemma normalizeShipActions_distinct:
  "distinct (map sap_action (normalizeShipActions as)) \<and> [] \<notin> sap_action ` set (normalizeShipActions as)"
proof -
  let ?f = "\<lambda>policy m. let action = trim (sap_action policy) in
         if action \<noteq> [] then AList.update action \<lparr>sap_action = action, sap_gate = sap_gate policy\<rparr> m else m"
  let ?P = "\<lambda>m. well_keyed sap_action m \<and> map_of m [] = None"
  have step: "?P m \<Longrightarrow> ?P (?f x m)" for x m
    by (simp add: Let_def well_keyed_update js_map_simps)
  have "?P m \<Longrightarrow> ?P (fold ?f xs m)" for xs m
    by (induction xs arbitrary: m) (simp_all only: fold_simps step)
  from this [of "[]"] have P: "?P (fold ?f xs [])" for xs by simp
  have "map sap_action (map_values m) = map fst m" if "well_keyed sap_action m" for m
    using that by (auto simp: map_values_def well_keyed_def)
  then have "distinct (map sap_action (map_values m)) \<and> [] \<notin> sap_action ` set (map_values m)" if "?P m" for m
    using that well_keyed_distinct [of sap_action m] by (metis list.set_map map_of_eq_None_iff)
  with P show ?thesis unfolding normalizeShipActions_def by blast
qed

inductive loop_step :: "loop js_map \<Rightarrow> loop js_map \<Rightarrow> bool" where
  lp_create: "loop_step m (snd (create_loop links validIcon contentIdOf input now m))"
| lp_update: "(\<forall>r. pt_restore patch = Some r \<longrightarrow> loop_ok i r) \<Longrightarrow> loop_step m (snd (update_loop validIcon i patch now m))"
| lp_state: "loop_step m (snd (setState i st m))"
| lp_health: "loop_step m (snd (setHealth i h why throttle m))"
| lp_fire: "loop_step m (snd (recordFireOutcome i failed now m))"
| lp_delete: "loop_step m (mm_delete i m)"

inductive loop_reachable :: "loop js_map \<Rightarrow> bool" where
  lp_empty: "loop_reachable []"
| lp_next: "loop_reachable m \<Longrightarrow> loop_step m m' \<Longrightarrow> loop_reachable m'"

lemma loop_candidate_ok: "loop_ok i (loop_candidate input i name icon now)"
  using normalizeShipActions_distinct
  by (simp add: loop_ok_def loop_candidate_def with_state_def isRunnable_def buildTriggerBase_def
      trigger_base.defs loop.defs create_trigger_input.defs)

lemma patch_fields_ok: "loop_ok i lp \<Longrightarrow> loop_ok i (patch_fields patch icon name now lp)"
  using normalizeShipActions_distinct
  by (auto simp: loop_ok_def patch_fields_def Let_def with_state_def isRunnable_def split: option.splits)

lemma apply_loop_patch_ok:
  "apply_loop_patch validIcon patch now lp = Inr lp' \<Longrightarrow> loop_ok i lp \<Longrightarrow>
   \<forall>r. pt_restore patch = Some r \<longrightarrow> loop_ok i r \<Longrightarrow> loop_ok i lp'"
  by (auto simp: apply_loop_patch_def patch_fields_ok split: option.splits sum.splits)

lemma loop_ok_fields:
  "loop_ok i lp \<Longrightarrow> loop_ok i (with_state st lp)"
  "loop_ok i lp \<Longrightarrow> loop_ok i (lp\<lparr>l_health := h, l_healthReason := why, l_throttle := th\<rparr>)"
  "loop_ok i lp \<Longrightarrow> loop_ok i (lp\<lparr>l_consecutiveFailedFires := n, tb_lastFiredAt := t\<rparr>)"
  by (simp_all add: loop_ok_def with_state_def isRunnable_def)

lemma create_loop_ok:
  "all_stored loop_ok m \<Longrightarrow> all_stored loop_ok (snd (create_loop links validIcon contentIdOf input now m))"
  by (simp add: create_loop_def Let_def split_def all_stored_insert loop_candidate_ok split: sum.split)

lemma loop_step_ok: "loop_step m m' \<Longrightarrow> all_stored loop_ok m \<Longrightarrow> all_stored loop_ok m'"
proof (induction rule: loop_step.induct)
  case (lp_update patch i m validIcon now)
  then show ?case
    using apply_loop_patch_ok [of validIcon patch now]
    by (auto simp: update_loop_def split: option.split sum.split intro!: all_stored_update)
next
  case (lp_state m i st)
  then show ?case unfolding setState_def by (intro all_stored_update loop_ok_fields)
next
  case (lp_health m i h why throttle)
  then show ?case unfolding setHealth_def by (intro all_stored_update loop_ok_fields)
next
  case (lp_fire m i failed now)
  then show ?case unfolding recordFireOutcome_def by (intro all_stored_update loop_ok_fields)
qed (simp_all add: create_loop_ok all_stored_delete)

lemma loop_reachable_ok: "loop_reachable m \<Longrightarrow> all_stored loop_ok m"
  by (induction rule: loop_reachable.induct) (auto intro: loop_step_ok)

text \<open>In every reachable loop store a loop is stored under its own identifier, is enabled as a trigger exactly when
  its state is runnable, and its playbook history is the unbroken sequence of versions up to the
  current one; no ship action is declared twice or has an empty name. Restoring a loop is assumed to
  restore a consistent record.\<close>

lemma loop_record_consistent:
  assumes "loop_reachable m" and "mm_get i m = Some lp"
  shows "tb_id lp = i \<and> (tb_enabled lp \<longleftrightarrow> isRunnable lp) \<and>
    map pr_version (l_playbookHistory lp) = [1..<Suc (l_playbookVersion lp)] \<and>
    distinct (map sap_action (l_shipActions lp)) \<and> (\<forall>p \<in> set (l_shipActions lp). sap_action p \<noteq> [])"
  using all_storedD [OF loop_reachable_ok [OF assms(1)] assms(2)] unfolding loop_ok_def by force

definition demo_loop_input :: create_loop_input where
  "demo_loop_input = \<lparr>ct_ownerScopeId = ''personal:ann'', ct_owner = ''ann'', ct_createdBy = ''ann'', ct_destination = None,
     ct_ownerConsentedAt = None, ct_recipientConsent = None, cli_name = ''  Inbox   triage '', cli_icon = None,
     cli_surface = None, cli_sources = None, cli_playbook = ''reply'', cli_successCondition = ''empty'', cli_purpose = None,
     cli_successChecks = None,
     cli_shipActions = Some [\<lparr>sap_action = ''email.send'', sap_gate = GateAuto\<rparr>, \<lparr>sap_action = '' email.send '', sap_gate = GateHold\<rparr>],
     cli_caps = None, cli_governor = None, cli_cronId = None, cli_runAs = None\<rparr>"

definition demo_loop :: loop where
  "demo_loop = loop_candidate demo_loop_input ''L'' ''Inbox triage'' None 5"

definition demo_loops :: "loop js_map" where
  "demo_loops = snd (create_loop (\<lambda>_. None) (\<lambda>_. True) (\<lambda>_ _. ''L'') demo_loop_input 5 [])"

lemma demo_loops_reachable: "loop_reachable demo_loops"
  unfolding demo_loops_def by (rule lp_next [OF lp_empty lp_create])

lemma demo_loops_get: "mm_get ''L'' demo_loops = Some demo_loop"
  unfolding demo_loops_def demo_loop_def by code_simp

lemma loop_record_consistent_witness:
  "distinct (map sap_action (l_shipActions demo_loop)) \<and> tb_enabled demo_loop"
  using loop_record_consistent [OF demo_loops_reachable demo_loops_get]
  by (simp add: isRunnable_def demo_loop_def loop_candidate_def with_state_def loop.defs trigger_base.defs)

subsection \<open>The ship gate\<close>

lemma actions_json_inject:
  "canonicalJson (Some (actions_json as)) = canonicalJson (Some (actions_json bs)) \<longleftrightarrow> as = bs"
proof
  assume "canonicalJson (Some (actions_json as)) = canonicalJson (Some (actions_json bs))"
  then have "map (\<lambda>p. (sap_action p, gate_name (sap_gate p))) as = map (\<lambda>p. (sap_action p, gate_name (sap_gate p))) bs"
    unfolding canonicalJson_inject actions_json_def by (simp add: comp_def) (induction as bs rule: list_induct2'; simp)
  moreover have "gate_name g = gate_name h \<longleftrightarrow> g = h" for g h
    by (cases g; cases h) (simp_all add: gate_name_def)
  then have "inj (\<lambda>p :: ship_action_policy. (sap_action p, gate_name (sap_gate p)))"
    by (auto intro!: injI ship_action_policy.equality)
  ultimately show "as = bs" by (metis inj_map_eq_map)
qed simp

lemma policy_changed_iff:
  "policy_changed patch lp \<longleftrightarrow>
     (\<exists>as. pt_shipActions patch = Some as \<and> normalizeShipActions (Some as) \<noteq> l_shipActions lp) \<or> edits_playbook patch lp"
  by (auto simp: policy_changed_def actions_json_inject split: option.splits)

lemma find_grant: "List.find (\<lambda>g. grantCovers g lp c) gs = Some g \<Longrightarrow> grantCovers g lp c"
  by (blast dest: find_Some_mem)

text \<open>Standing ship grants end with the policy they were given under. An update that edits the playbook or changes
  the normalised ship actions raises the policy version by one, any other update (restoring apart)
  keeps it; and under the raised version no grant issued up to the old version ever lets an output
  ship automatically.\<close>

lemma policy_change_voids_grants:
  assumes "apply_loop_patch validIcon patch now lp = Inr lp'" and "pt_restore patch = None"
    and "edits_playbook patch lp \<or> (\<exists>as. pt_shipActions patch = Some as \<and> normalizeShipActions (Some as) \<noteq> l_shipActions lp)"
    and "\<forall>g \<in> set grants. sg_policyVersion g \<le> policy_version lp"
  shows "policy_version lp' = policy_version lp + 1 \<and> (\<forall>c g. decideShip lp' c grants \<noteq> AutoByGrant g)"
proof -
  obtain icon name where lp': "lp' = patch_fields patch icon name now lp"
    using assms(1,2) by (auto simp: apply_loop_patch_def split: option.splits sum.splits)
  have "policy_changed patch lp" using assms(3) by (auto simp: policy_changed_iff)
  then have v: "policy_version lp' = policy_version lp + 1"
    by (simp add: lp' policy_version_def patch_fields_def Let_def split: option.split)
  have "List.find (\<lambda>g. grantCovers g lp' c) grants = None" for c
    using assms(4) v by (auto simp: find_None_iff_all grantCovers_def)
  with v show ?thesis by (simp add: decideShip_def split: option.split ship_gate.split)
qed

lemma policy_change_voids_grants_witness:
  "\<exists>lp'. apply_loop_patch (\<lambda>_. True) (empty_patch\<lparr>pt_playbookEdit := Some \<lparr>pe_playbook = ''new'', pe_by = ''ann'', pe_note = None\<rparr>\<rparr>) 9 demo_loop
      = Inr lp' \<and> policy_version lp' = 2"
proof -
  let ?p = "empty_patch\<lparr>pt_playbookEdit := Some \<lparr>pe_playbook = ''new'', pe_by = ''ann'', pe_note = None\<rparr>\<rparr>"
  have "\<exists>lp'. apply_loop_patch (\<lambda>_. True) ?p 9 demo_loop = Inr lp'"
    by (simp add: apply_loop_patch_def empty_patch_def)
  then obtain lp' where lp': "apply_loop_patch (\<lambda>_. True) ?p 9 demo_loop = Inr lp'" ..
  have "edits_playbook ?p demo_loop" "policy_version demo_loop = 1" unfolding demo_loop_def by code_simp+
  then show ?thesis
    using policy_change_voids_grants [OF lp', of "[]"] lp' by (simp add: empty_patch_def)
qed

subsection \<open>Standing grants\<close>

definition grant_ok :: "string \<Rightarrow> ship_grant \<Rightarrow> bool" where
  "grant_ok i g \<longleftrightarrow> sg_id g = i"

inductive grants_reachable :: "ship_grant js_map \<Rightarrow> bool" where
  gr_empty: "grants_reachable []"
| gr_put: "grants_reachable m \<Longrightarrow> grants_reachable (snd (put_grant g m))"
| gr_revoke: "grants_reachable m \<Longrightarrow> grants_reachable (snd (revoke_grant i actor now m))"
| gr_delete: "grants_reachable m \<Longrightarrow> grants_reachable (mm_delete i m)"

lemma put_grant_ok: "all_stored grant_ok m \<Longrightarrow> all_stored grant_ok (snd (put_grant g m))"
  by (auto simp: put_grant_def Let_def split_def grant_ok_def reactivate_def split: option.splits
      intro!: all_stored_putIfAbsent all_stored_update)

lemma grants_reachable_ok: "grants_reachable m \<Longrightarrow> all_stored grant_ok m"
proof (induction rule: grants_reachable.induct)
  case (gr_revoke m i actor now)
  then show ?case by (auto simp: revoke_grant_def grant_ok_def intro!: all_stored_update)
qed (simp_all add: put_grant_ok all_stored_delete)

lemma decideShip_AutoByGrant:
  "decideShip lp c gs = AutoByGrant i \<Longrightarrow> \<exists>g \<in> set gs. sg_id g = i \<and> grantCovers g lp c"
  by (auto simp: decideShip_def split: option.splits ship_gate.splits dest: find_Some_mem)

text \<open>A revoked grant ships nothing until it is given again, and giving it again keeps the record of the revocation.
  After \<open>revoke\<close>, no candidate of any loop is decided automatically by that grant; after a later \<open>put\<close> of
  a grant with the same identifier the stored grant is active, belongs to the new actor, covers the
  same action, and its history ends with the revocation.\<close>

lemma revoked_grant_ships_nothing:
  assumes "grants_reachable m" and "mm_get i m = Some g" and "sg_revokedAt g = None"
    and "revoke_grant i actor now m = (r, m1)"
  shows "(\<forall>lp c loopId. decideShip lp c (grants_byLoop loopId m1) \<noteq> AutoByGrant i) \<and>
    (\<forall>g'. sg_id g' = i \<longrightarrow> (\<exists>g2. fst (put_grant g' m1) = g2 \<and> mm_get i (snd (put_grant g' m1)) = Some g2 \<and>
       sg_revokedAt g2 = None \<and> sg_actorId g2 = sg_actorId g' \<and> sg_shipAction g2 = sg_shipAction g \<and>
       sg_policyVersion g2 = sg_policyVersion g \<and>
       sg_revocationHistory g2 = Some (or_else (sg_revocationHistory g) [] @ [(now, actor)])))"
proof -
  note inv = all_stored_inv [OF grants_reachable_ok [OF assms(1)]]
  have m1: "m1 = snd (revoke_grant i actor now m)" using assms(4) by simp
  let ?g1 = "g\<lparr>sg_revokedAt := Some now, sg_revokedBy := Some actor\<rparr>"
  have get: "mm_get i m1 = Some ?g1"
    using assms(2,3) by (simp add: m1 revoke_grant_def mm.get_update [OF inv])
  have ok1: "all_stored grant_ok m1"
    unfolding m1 by (rule grants_reachable_ok [OF gr_revoke [OF assms(1)]])
  note inv1 = all_stored_inv [OF ok1]
  have "decideShip lp c (grants_byLoop loopId m1) \<noteq> AutoByGrant i" for lp c loopId
  proof
    assume "decideShip lp c (grants_byLoop loopId m1) = AutoByGrant i"
    then obtain h where h: "h \<in> set (mm_all m1)" "sg_id h = i" "grantCovers h lp c"
      by (auto simp: grants_byLoop_def dest!: decideShip_AutoByGrant)
    then have "mm_get i m1 = Some h" using all_stored_mem [OF ok1 h(1)] by (auto simp: grant_ok_def)
    with get h(3) show False by (simp add: grantCovers_def split: if_splits)
  qed
  moreover have "put_grant g' m1 = (reactivate g' ?g1, snd (mm_update i (reactivate g') m1))" if "sg_id g' = i" for g'
    using get that by (simp add: put_grant_def mm_putIfAbsent_def mm_get_def mm_update_def Let_def)
  moreover have "mm_get i (snd (mm_update i (reactivate g') m1)) = Some (reactivate g' ?g1)" for g'
    using get by (simp add: mm.get_update [OF inv1])
  ultimately show ?thesis by (simp add: reactivate_def)
qed

definition demo_grant :: ship_grant where
  "demo_grant = \<lparr>sg_id = ''G'', sg_loopId = ''L'', sg_shipAction = ''email.send'', sg_label = None, sg_actorId = ''ann'',
     sg_policyVersion = 1, sg_createdAt = 1, sg_revokedAt = None, sg_revokedBy = None, sg_revocationHistory = None\<rparr>"

lemma revoked_grant_ships_nothing_witness:
  "decideShip demo_loop \<lparr>sc_shipAction = ''email.send'', sc_label = None\<rparr> [demo_grant] = AutoByGrant ''G'' \<and>
   decideShip demo_loop \<lparr>sc_shipAction = ''email.send'', sc_label = None\<rparr>
     (grants_byLoop ''L'' (snd (revoke_grant ''G'' ''bob'' 7 (snd (put_grant demo_grant []))))) \<noteq> AutoByGrant ''G''"
proof -
  have "mm_get ''G'' (snd (put_grant demo_grant [])) = Some demo_grant" "sg_revokedAt demo_grant = None"
    by code_simp+
  from revoked_grant_ships_nothing [OF gr_put [OF gr_empty] this prod.collapse [symmetric], of "''bob''" 7]
  have "decideShip demo_loop \<lparr>sc_shipAction = ''email.send'', sc_label = None\<rparr>
     (grants_byLoop ''L'' (snd (revoke_grant ''G'' ''bob'' 7 (snd (put_grant demo_grant []))))) \<noteq> AutoByGrant ''G''" by blast
  moreover have "decideShip demo_loop \<lparr>sc_shipAction = ''email.send'', sc_label = None\<rparr> [demo_grant] = AutoByGrant ''G''"
    unfolding demo_loop_def by code_simp
  ultimately show ?thesis by simp
qed

subsection \<open>The governor\<close>

definition finding_health :: "finding \<Rightarrow> loop_health" where
  "finding_health f = fst (snd f)"

lemma severity_inject: "severity a = severity b \<longleftrightarrow> a = b"
  by (cases a; cases b) (simp_all add: severity_def)

lemma severity_zero: "severity a = 0 \<longleftrightarrow> a = Healthy"
  by (cases a) (simp_all add: severity_def)

text \<open>Raising keeps the worst health seen, with the reason of the first finding that reached it.\<close>

lemma raise_health_fold:
  assumes "fold raise_health fs (h0, r0) = (h, r)"
  shows "severity h0 \<le> severity h \<and> (\<forall>f \<in> set fs. severity (finding_health f) \<le> severity h) \<and>
    (if h = h0 then r = r0 else \<exists>f \<in> set fs. finding_health f = h \<and> r = Some (snd (snd f)))"
  using assms
proof (induction fs arbitrary: h0 r0)
  case (Cons f fs)
  obtain act nxt why where f: "f = (act, nxt, why)" by (cases f)
  show ?case
  proof (cases "severity nxt > severity h0")
    case True
    then have "raise_health f (h0, r0) = (nxt, Some why)" by (simp add: raise_health_def f)
    with Cons.prems have "fold raise_health fs (nxt, Some why) = (h, r)" by simp
    from Cons.IH [OF this] True show ?thesis
      by (auto simp: f finding_health_def severity_inject split: if_splits)
  next
    case False
    then have "raise_health f (h0, r0) = (h0, r0)" by (simp add: raise_health_def f)
    with Cons.prems have "fold raise_health fs (h0, r0) = (h, r)" by simp
    from Cons.IH [OF this] False show ?thesis by (auto simp: f finding_health_def)
  qed
qed simp

lemma findings_not_healthy: "f \<in> set (governor_findings lp vitals now) \<Longrightarrow> finding_health f \<noteq> Healthy"
  by (auto simp: governor_findings_def fires_finding_def finding_health_def Let_def split: if_splits option.splits)

lemma findings_quarantine:
  "(\<exists>f \<in> set (governor_findings lp vitals now). finding_health f = Quarantined) \<longleftrightarrow>
     or_else (v_undeclaredShipActions vitals) [] \<noteq> [] \<or>
     or_else (l_consecutiveFailedFires lp) 0 \<ge> config_of gc_maxConsecutiveFailedFires 3 (l_governor lp)"
  by (auto simp: governor_findings_def fires_finding_def finding_health_def Let_def split: if_splits option.splits)

text \<open>The governor's verdict is the worst health any of its checks found, with the reason of a check that found
  it: it is healthy exactly when no check fired, and then it takes no action and gives no reason; it
  quarantines exactly for undeclared ship actions or for too many consecutive failed fires; it
  escalates exactly when the health got worse than the recorded one.\<close>

lemma governor_verdict_sound:
  assumes v_def: "v = evaluateGovernor lp vitals now"
  shows "(\<forall>f \<in> set (governor_findings lp vitals now). severity (finding_health f) \<le> severity (gv_health v)) \<and>
    (gv_health v = Healthy \<longleftrightarrow> governor_findings lp vitals now = []) \<and>
    (gv_health v = Healthy \<longrightarrow> gv_actions v = [] \<and> gv_reason v = None) \<and>
    (gv_health v \<noteq> Healthy \<longrightarrow> (\<exists>f \<in> set (governor_findings lp vitals now).
       finding_health f = gv_health v \<and> gv_reason v = Some (snd (snd f)))) \<and>
    (gv_health v = Quarantined \<longleftrightarrow> or_else (v_undeclaredShipActions vitals) [] \<noteq> [] \<or>
       or_else (l_consecutiveFailedFires lp) 0 \<ge> config_of gc_maxConsecutiveFailedFires 3 (l_governor lp)) \<and>
    (gv_escalate v \<longleftrightarrow> severity (gv_health v) > severity (l_health lp))"
proof -
  let ?fs = "governor_findings lp vitals now"
  obtain h r where hr: "fold raise_health ?fs (Healthy, None) = (h, r)" by force
  have v: "gv_health v = h" "gv_reason v = r" "gv_escalate v \<longleftrightarrow> severity h > severity (l_health lp)"
    "?fs = [] \<longrightarrow> gv_actions v = []"
    by (simp_all add: v_def evaluateGovernor_def hr healthWorsened_def Let_def)
  note fold = raise_health_fold [OF hr]
  have healthy: "h = Healthy \<longleftrightarrow> ?fs = []"
  proof
    assume "h = Healthy"
    then have "severity h = 0" by (simp add: severity_zero)
    then have "\<forall>f \<in> set ?fs. finding_health f = Healthy" using fold by (metis le_zero_eq severity_zero)
    then show "?fs = []" using findings_not_healthy by (metis list.set_intros(1) neq_Nil_conv)
  qed (use hr in simp)
  have "h = Quarantined \<longleftrightarrow> (\<exists>f \<in> set ?fs. finding_health f = Quarantined)"
  proof
    assume "\<exists>f \<in> set ?fs. finding_health f = Quarantined"
    then have "severity Quarantined \<le> severity h" using fold by metis
    then show "h = Quarantined" by (cases h) (simp_all add: severity_def)
  qed (use fold in \<open>auto split: if_splits\<close>)
  with fold healthy v show ?thesis by (auto simp: findings_quarantine split: if_splits)
qed

lemma governor_verdict_sound_witness:
  "gv_health (evaluateGovernor demo_loop
     \<lparr>v_queue = \<lparr>qs_queued = 0, qs_inProgress = 0, qs_ready = 0, qs_failed = 0, qs_oldestQueuedAgeMs = None\<rparr>,
      v_openOutputs = 0, v_decidedOutputs = 0, v_returnedOutputs = 0, v_undeclaredShipActions = Some [''x'']\<rparr> 9) = Quarantined"
  using governor_verdict_sound [OF refl, of demo_loop
     "\<lparr>v_queue = \<lparr>qs_queued = 0, qs_inProgress = 0, qs_ready = 0, qs_failed = 0, qs_oldestQueuedAgeMs = None\<rparr>,
      v_openOutputs = 0, v_decidedOutputs = 0, v_returnedOutputs = 0, v_undeclaredShipActions = Some [''x'']\<rparr>" 9]
  by simp

text \<open>An output with an undeclared ship action stops its loop. Whatever the other vitals are, while the output
  store holds a staged or unresolved output of the loop whose action the loop does not declare, the
  ship gate decides it as undeclared and the governor's verdict on the collected vitals is quarantine.\<close>

lemma undeclared_output_quarantines:
  assumes "out_reachable sha outs" and "mm_get i (os_outputs outs) = Some out" and "lo_loopId out = tb_id lp"
    and "lo_state out = OStaged \<or> unresolvedOutput out" and "lo_shipAction out \<notin> sap_action ` set (l_shipActions lp)"
  shows "decideShip lp (outputCandidate out) grants = Undeclared \<and>
    gv_health (evaluateGovernor lp (collectVitals lp items outs now) now) = Quarantined"
proof -
  have "out \<in> set (mm_all (os_outputs outs))"
    using set_mm_all [OF out_reachable_inv [OF assms(1)]] assms(2) by blast
  then have "lo_shipAction out \<in> set (undeclaredShipActions lp
      (filter (\<lambda>out. lo_state out = OStaged \<or> unresolvedOutput out) (os_forLoop (tb_id lp) outs)))"
    using assms(3-5) by (auto simp: undeclaredShipActions_def os_forLoop_def Let_def)
  then have "or_else (v_undeclaredShipActions (collectVitals lp items outs now)) [] \<noteq> []"
    by (auto simp: collectVitals_def Let_def)
  then have "\<exists>f \<in> set (governor_findings lp (collectVitals lp items outs now) now). finding_health f = Quarantined"
    unfolding findings_quarantine by blast
  then have "severity Quarantined \<le> severity (gv_health (evaluateGovernor lp (collectVitals lp items outs now) now))"
    using raise_health_fold [OF prod.collapse [symmetric]]
    by (fastforce simp: evaluateGovernor_def split_def Let_def)
  then have "gv_health (evaluateGovernor lp (collectVitals lp items outs now) now) = Quarantined"
    by (cases "gv_health (evaluateGovernor lp (collectVitals lp items outs now) now)") (simp_all add: severity_def)
  moreover have "declaredGate lp (lo_shipAction out) = None"
    using assms(5) by (simp add: declaredGate_def find_None_iff_all) force
  ultimately show ?thesis by (simp add: decideShip_def outputCandidate_def)
qed

lemma undeclared_output_quarantines_witness:
  "gv_health (evaluateGovernor (demo_loop\<lparr>l_shipActions := []\<rparr>)
     (collectVitals (demo_loop\<lparr>l_shipActions := []\<rparr>) demo_ledger demo_outputs 50) 50) = Quarantined"
proof -
  let ?out = "(capture_candidate demo_out demo_capture 10 [])\<lparr>lo_state := OReady, lo_updatedAt := 20\<rparr>"
  have "mm_get demo_out (os_outputs demo_outputs) = Some ?out" by (simp add: mm_get_def demo_outputs_eq)
  moreover have "lo_loopId ?out = tb_id (demo_loop\<lparr>l_shipActions := []\<rparr>)"
    by (simp add: capture_candidate_def demo_capture_def demo_loop_def loop_candidate_def with_state_def loop.defs
        trigger_base.defs buildTriggerBase_def)
  ultimately show ?thesis
    using undeclared_output_quarantines [OF demo_outputs_reachable, of demo_out ?out "demo_loop\<lparr>l_shipActions := []\<rparr>" "[]"]
    by (simp add: unresolvedOutput_def)
qed

end
