(* ===== verification/Js_Regex.thy ===== *)
theory Js_Regex
  imports Prelude
begin

text \<open>
  JavaScript strings as lists of UTF-16 code units, with the string operations and the regular expressions the
  command policy is written with. Matching follows the backtracking semantics of ECMAScript: the
  results of a pattern at a position are listed in the order in which the matcher tries them, so that
  the first one is the match. A repetition stops when an iteration consumes nothing, so as many
  iterations as there are characters left are enough.
\<close>

type_synonym code = int
type_synonym js = "code list"

definition lit :: "string \<Rightarrow> js" where
  "lit s = map of_char s"

lemma lit_Nil [simp]: "lit [] = []"
  by (simp add: lit_def)

lemma lit_Cons [simp]: "lit (c # s) = of_char c # lit s"
  by (simp add: lit_def)

lemma lit_append: "lit (s @ t) = lit s @ lit t"
  by (simp add: lit_def)

definition has_prefix :: "js \<Rightarrow> js \<Rightarrow> bool" where
  "has_prefix p s \<longleftrightarrow> take (length p) s = p"

fun js_join :: "js \<Rightarrow> js list \<Rightarrow> js" where
  "js_join sep [] = []"
| "js_join sep [s] = s"
| "js_join sep (s # t # ss) = s @ sep @ js_join sep (t # ss)"

subsection \<open>Character classes\<close>

definition is_space :: "code \<Rightarrow> bool" where
  "is_space c \<longleftrightarrow> c \<in> {9, 10, 11, 12, 13, 32, 160, 5760, 8232, 8233, 8239, 8287, 12288, 65279} \<or> (8192 \<le> c \<and> c \<le> 8202)"

definition digit_code :: "code \<Rightarrow> bool" where
  "digit_code c \<longleftrightarrow> 48 \<le> c \<and> c \<le> 57"

definition is_upper :: "code \<Rightarrow> bool" where
  "is_upper c \<longleftrightarrow> 65 \<le> c \<and> c \<le> 90"

definition is_lower :: "code \<Rightarrow> bool" where
  "is_lower c \<longleftrightarrow> 97 \<le> c \<and> c \<le> 122"

definition is_word_char :: "code \<Rightarrow> bool" where
  "is_word_char c \<longleftrightarrow> digit_code c \<or> is_upper c \<or> is_lower c \<or> c = 95"

definition is_name_start :: "code \<Rightarrow> bool" where
  "is_name_start c \<longleftrightarrow> is_upper c \<or> is_lower c \<or> c = 95"

definition line_terminator :: "code \<Rightarrow> bool" where
  "line_terminator c \<longleftrightarrow> c = 10 \<or> c = 13 \<or> c = 8232 \<or> c = 8233"

definition js_trim :: "js \<Rightarrow> js" where
  "js_trim s = rev (dropWhile is_space (rev (dropWhile is_space s)))"

subsection \<open>Patterns\<close>

datatype rx =
    Chars "code \<Rightarrow> bool"
  | Eps
  | Seq rx rx
  | Alt rx rx
  | Star rx          \<comment> \<open>greedy\<close>
  | LazyStar rx
  | Group nat rx
  | Backref nat
  | Bol              \<comment> \<open>\<open>^\<close> with the flag \<open>m\<close>\<close>
  | Eol              \<comment> \<open>\<open>$\<close> with the flag \<open>m\<close>\<close>
  | Start            \<comment> \<open>\<open>^\<close> without it\<close>
  | Finish           \<comment> \<open>\<open>$\<close> without it\<close>
  | WordBoundary

record rx_state =
  rs_before :: js    \<comment> \<open>what is to the left, last character first\<close>
  rs_rest :: js
  rs_groups :: "(nat \<times> js) list"

definition group_of :: "nat \<Rightarrow> rx_state \<Rightarrow> js" where
  "group_of n s = (case map_of (rs_groups s) n of None \<Rightarrow> [] | Some t \<Rightarrow> t)"

definition consume :: "nat \<Rightarrow> rx_state \<Rightarrow> rx_state" where
  "consume n s = s\<lparr>rs_before := rev (take n (rs_rest s)) @ rs_before s, rs_rest := drop n (rs_rest s)\<rparr>"

definition consumed :: "rx_state \<Rightarrow> rx_state \<Rightarrow> js" where
  "consumed s s' = take (length (rs_rest s) - length (rs_rest s')) (rs_rest s)"

primrec star_from :: "(rx_state \<Rightarrow> rx_state list) \<Rightarrow> nat \<Rightarrow> rx_state \<Rightarrow> rx_state list" where
  "star_from f 0 s = [s]"
| "star_from f (Suc n) s =
     concat (map (star_from f n) (filter (\<lambda>s'. length (rs_rest s') < length (rs_rest s)) (f s))) @ [s]"

primrec lazy_star_from :: "(rx_state \<Rightarrow> rx_state list) \<Rightarrow> nat \<Rightarrow> rx_state \<Rightarrow> rx_state list" where
  "lazy_star_from f 0 s = [s]"
| "lazy_star_from f (Suc n) s =
     s # concat (map (lazy_star_from f n) (filter (\<lambda>s'. length (rs_rest s') < length (rs_rest s)) (f s)))"

definition at_line_start :: "js \<Rightarrow> bool" where
  "at_line_start left = (case left of [] \<Rightarrow> True | c # _ \<Rightarrow> line_terminator c)"

definition word_at :: "js \<Rightarrow> bool" where
  "word_at s = (case s of [] \<Rightarrow> False | c # _ \<Rightarrow> is_word_char c)"

primrec rx_matches :: "rx \<Rightarrow> rx_state \<Rightarrow> rx_state list" where
  "rx_matches (Chars P) s = (case rs_rest s of [] \<Rightarrow> [] | c # _ \<Rightarrow> if P c then [consume 1 s] else [])"
| "rx_matches Eps s = [s]"
| "rx_matches (Seq r1 r2) s = concat (map (rx_matches r2) (rx_matches r1 s))"
| "rx_matches (Alt r1 r2) s = rx_matches r1 s @ rx_matches r2 s"
| "rx_matches (Star r) s = star_from (rx_matches r) (length (rs_rest s)) s"
| "rx_matches (LazyStar r) s = lazy_star_from (rx_matches r) (length (rs_rest s)) s"
| "rx_matches (Group n r) s = map (\<lambda>s'. s'\<lparr>rs_groups := AList.update n (consumed s s') (rs_groups s')\<rparr>) (rx_matches r s)"
| "rx_matches (Backref n) s =
     (if has_prefix (group_of n s) (rs_rest s) then [consume (length (group_of n s)) s] else [])"
| "rx_matches Bol s = (if at_line_start (rs_before s) then [s] else [])"
| "rx_matches Eol s = (if at_line_start (rs_rest s) then [s] else [])"
| "rx_matches Start s = (if rs_before s = [] then [s] else [])"
| "rx_matches Finish s = (if rs_rest s = [] then [s] else [])"
| "rx_matches WordBoundary s = (if word_at (rs_before s) \<noteq> word_at (rs_rest s) then [s] else [])"

text \<open>Matching at one position, the first match from a position on, and the iteration over all matches: after an empty
  match the search goes on one character further.\<close>

definition rx_at :: "rx \<Rightarrow> js \<Rightarrow> js \<Rightarrow> rx_state option" where
  "rx_at r left rest =
     (case rx_matches r \<lparr>rs_before = left, rs_rest = rest, rs_groups = []\<rparr> of [] \<Rightarrow> None | s # _ \<Rightarrow> Some s)"

fun rx_exec_from :: "rx \<Rightarrow> js \<Rightarrow> js \<Rightarrow> (js \<times> rx_state) option" where
  "rx_exec_from r left [] = map_option (\<lambda>s. ([], s)) (rx_at r left [])"
| "rx_exec_from r left (c # cs) =
     (case rx_at r left (c # cs) of
        Some s \<Rightarrow> Some (c # cs, s)
      | None \<Rightarrow> rx_exec_from r (c # left) cs)"

definition rx_test :: "rx \<Rightarrow> js \<Rightarrow> bool" where
  "rx_test r s \<longleftrightarrow> rx_exec_from r [] s \<noteq> None"

text \<open>The pieces of a string under a global search: \<open>Inl c\<close> a character outside the matches, \<open>Inr (m, s)\<close> a match.\<close>

function (sequential) rx_pieces :: "rx \<Rightarrow> js \<Rightarrow> js \<Rightarrow> (code + js \<times> rx_state) list" where
  "rx_pieces r left [] = (case rx_at r left [] of None \<Rightarrow> [] | Some s \<Rightarrow> [Inr ([], s)])"
| "rx_pieces r left (c # cs) =
     (case rx_at r left (c # cs) of
        None \<Rightarrow> Inl c # rx_pieces r (c # left) cs
      | Some s \<Rightarrow>
          if length (rs_rest s) < length (c # cs)
          then Inr (take (length (c # cs) - length (rs_rest s)) (c # cs), s) # rx_pieces r (rs_before s) (rs_rest s)
          else Inr ([], s) # Inl c # rx_pieces r (c # left) cs)"
  by pat_completeness auto
termination
  by (relation "measure (\<lambda>(r, left, rest). length rest)") auto

definition rx_replace_all :: "rx \<Rightarrow> (js \<Rightarrow> rx_state \<Rightarrow> js) \<Rightarrow> js \<Rightarrow> js" where
  "rx_replace_all r f s = concat (map (\<lambda>p. case p of Inl c \<Rightarrow> [c] | Inr (m, st) \<Rightarrow> f m st) (rx_pieces r [] s))"

definition rx_match_all :: "rx \<Rightarrow> js \<Rightarrow> (js \<times> rx_state) list" where
  "rx_match_all r s = concat (map (\<lambda>p. case p of Inl c \<Rightarrow> [] | Inr m \<Rightarrow> [m]) (rx_pieces r [] s))"

subsection \<open>Derived patterns\<close>

definition chr :: "code \<Rightarrow> rx" where
  "chr c = Chars (\<lambda>x. x = c)"

definition any_but :: "code list \<Rightarrow> rx" where
  "any_but cs = Chars (\<lambda>c. c \<notin> set cs)"

definition dot :: rx where
  "dot = Chars (\<lambda>c. \<not> line_terminator c)"

definition text_of :: "js \<Rightarrow> rx" where
  "text_of s = foldr (\<lambda>c r. Seq (chr c) r) s Eps"

definition opt :: "rx \<Rightarrow> rx" where
  "opt r = Alt r Eps"

definition plus1 :: "rx \<Rightarrow> rx" where
  "plus1 r = Seq r (Star r)"

definition up_to :: "nat \<Rightarrow> rx \<Rightarrow> rx" where
  "up_to n r = ((\<lambda>q. opt (Seq r q)) ^^ n) Eps"

fun rx_seq :: "rx list \<Rightarrow> rx" where
  "rx_seq [] = Eps"
| "rx_seq [r] = r"
| "rx_seq (r # rs) = Seq r (rx_seq rs)"

fun rx_alt :: "rx list \<Rightarrow> rx" where
  "rx_alt [] = Chars (\<lambda>_. False)"
| "rx_alt [r] = r"
| "rx_alt (r # rs) = Alt r (rx_alt rs)"

definition rx_replace_all_result :: "rx \<Rightarrow> (js \<Rightarrow> rx_state \<Rightarrow> 'e + js) \<Rightarrow> js \<Rightarrow> 'e + js" where
  "rx_replace_all_result r f s =
     and_then (map_result (\<lambda>p. case p of Inl c \<Rightarrow> Inr [c] | Inr (m, st) \<Rightarrow> f m st) (rx_pieces r [] s)) (\<lambda>ts. Inr (concat ts))"

subsection \<open>What matching consumes\<close>

definition advances :: "rx_state \<Rightarrow> rx_state \<Rightarrow> bool" where
  "advances s s' \<longleftrightarrow> (\<exists>t. rs_rest s = t @ rs_rest s' \<and> rs_before s' = rev t @ rs_before s)"

lemma advances_refl [simp]: "advances s s"
  by (simp add: advances_def)

lemma advances_trans: "advances s s' \<Longrightarrow> advances s' s'' \<Longrightarrow> advances s s''"
  by (fastforce simp: advances_def)

lemma advances_consume: "advances s (consume n s)"
  by (auto simp: advances_def consume_def)

lemma advances_length: "advances s s' \<Longrightarrow> length (rs_rest s') \<le> length (rs_rest s)"
  by (auto simp: advances_def)

primrec min_len :: "rx \<Rightarrow> nat" where
  "min_len (Chars P) = 1"
| "min_len Eps = 0"
| "min_len (Seq r1 r2) = min_len r1 + min_len r2"
| "min_len (Alt r1 r2) = min (min_len r1) (min_len r2)"
| "min_len (Star r) = 0"
| "min_len (LazyStar r) = 0"
| "min_len (Group n r) = min_len r"
| "min_len (Backref n) = 0"
| "min_len Bol = 0"
| "min_len Eol = 0"
| "min_len Start = 0"
| "min_len Finish = 0"
| "min_len WordBoundary = 0"

lemma star_from_advances:
  assumes "\<And>s s'. s' \<in> set (f s) \<Longrightarrow> advances s s'"
  shows "s' \<in> set (star_from f n s) \<Longrightarrow> advances s s'"
  using assms by (induction n arbitrary: s) (auto intro: advances_trans)

lemma lazy_star_from_advances:
  assumes "\<And>s s'. s' \<in> set (f s) \<Longrightarrow> advances s s'"
  shows "s' \<in> set (lazy_star_from f n s) \<Longrightarrow> advances s s'"
  using assms by (induction n arbitrary: s) (auto intro: advances_trans)

lemma rx_matches_advances: "s' \<in> set (rx_matches r s) \<Longrightarrow> advances s s'"
proof (induction r arbitrary: s s')
  case (Group n r)
  then obtain q where "q \<in> set (rx_matches r s)" "rs_rest s' = rs_rest q" "rs_before s' = rs_before q" by auto
  with Group.IH show ?case by (auto simp: advances_def)
next
  case (Seq r1 r2)
  then show ?case by (force intro: advances_trans)
qed (auto intro: advances_consume advances_trans dest: star_from_advances [rotated] lazy_star_from_advances [rotated]
  split: list.splits if_splits)

lemma rx_matches_min_len: "s' \<in> set (rx_matches r s) \<Longrightarrow> length (rs_rest s') + min_len r \<le> length (rs_rest s)"
proof (induction r arbitrary: s s')
  case (Seq r1 r2)
  then show ?case by fastforce
next
  case (Star r)
  then show ?case using advances_length [OF rx_matches_advances [of s' "Star r" s]] by simp
next
  case (LazyStar r)
  then show ?case using advances_length [OF rx_matches_advances [of s' "LazyStar r" s]] by simp
next
  case (Chars P)
  then show ?case by (cases "rs_rest s") (auto simp: consume_def split: if_splits)
next
  case (Alt r1 r2)
  then show ?case by (fastforce simp: min_def)
qed (auto simp: consume_def split: list.splits if_splits)

lemma rx_at_advances: "rx_at r b s = Some st \<Longrightarrow> \<exists>t. s = t @ rs_rest st \<and> rs_before st = rev t @ b \<and> min_len r \<le> length t"
  using rx_matches_advances [of st r "\<lparr>rs_before = b, rs_rest = s, rs_groups = []\<rparr>"]
    rx_matches_min_len [of st r "\<lparr>rs_before = b, rs_rest = s, rs_groups = []\<rparr>"]
  by (auto simp: rx_at_def advances_def split: list.splits)

definition piece_text :: "code + js \<times> rx_state \<Rightarrow> js" where
  "piece_text p = (case p of Inl c \<Rightarrow> [c] | Inr (m, st) \<Rightarrow> m)"

lemma rx_pieces_text: "concat (map piece_text (rx_pieces r b s)) = s"
proof (induction r b s rule: rx_pieces.induct)
  case (1 r b)
  then show ?case by (auto simp: piece_text_def split: option.splits)
next
  case (2 r b c cs)
  show ?case
  proof (cases "rx_at r b (c # cs)")
    case None
    then show ?thesis using 2(1) by (simp add: piece_text_def)
  next
    case (Some st)
    then obtain t where t: "c # cs = t @ rs_rest st" using rx_at_advances by blast
    then have tk: "take (length (c # cs) - length (rs_rest st)) (c # cs) = t" by (metis append_eq_conv_conj diff_add_inverse2 length_append)
    show ?thesis
    proof (cases "length (rs_rest st) < length (c # cs)")
      case True
      then have "rx_pieces r b (c # cs) = Inr (t, st) # rx_pieces r (rs_before st) (rs_rest st)"
        using Some tk by (simp del: length_Cons)
      then show ?thesis using 2(2) [OF Some True] t by (simp add: piece_text_def)
    next
      case False
      then show ?thesis using 2(3) [OF Some False] Some by (simp add: piece_text_def)
    qed
  qed
qed

lemma rx_pieces_min_len: "Inr (m, st) \<in> set (rx_pieces r b s) \<Longrightarrow> min_len r \<le> length m"
proof (induction r b s rule: rx_pieces.induct)
  case (1 r b)
  then show ?case using rx_at_advances [of r b "[]"] by (cases "rx_at r b []") auto
next
  case (2 r b c cs)
  show ?case
  proof (cases "rx_at r b (c # cs)")
    case None
    then show ?thesis using 2(1,4) by simp
  next
    case (Some s)
    then obtain t where t: "c # cs = t @ rs_rest s" "min_len r \<le> length t" using rx_at_advances by blast
    then have tk: "take (length (c # cs) - length (rs_rest s)) (c # cs) = t" by (metis append_eq_conv_conj diff_add_inverse2 length_append)
    show ?thesis
    proof (cases "length (rs_rest s) < length (c # cs)")
      case True
      then have "rx_pieces r b (c # cs) = Inr (t, s) # rx_pieces r (rs_before s) (rs_rest s)"
        using Some tk by (simp del: length_Cons)
      then show ?thesis using 2(2) [OF Some True] 2(4) t(2) by auto
    next
      case False
      have "length (c # cs) = length t + length (rs_rest s)" unfolding t(1) by simp
      then have "t = []" using False by simp
      then show ?thesis using 2(3) [OF Some False] 2(4) False Some t(2) by auto
    qed
  qed
qed

text \<open>Replacing every match by something no longer than the shortest match never makes a string longer.\<close>

lemma rx_replace_all_result_length:
  assumes "\<And>m st t. f m st = Inr t \<Longrightarrow> length t \<le> min_len r" and "rx_replace_all_result r f s = Inr t"
  shows "length t \<le> length s"
proof -
  let ?g = "\<lambda>p. case p of Inl c \<Rightarrow> Inr [c] | Inr (m, st) \<Rightarrow> f m st"
  have shorter: "length (concat ts) \<le> length (concat (map piece_text ps))"
    if "list_all2 (\<lambda>p t. ?g p = Inr t) ps ts" "\<forall>m st. Inr (m, st) \<in> set ps \<longrightarrow> min_len r \<le> length m" for ps ts
    using that
  proof (induction ps ts rule: list_all2_induct)
    case (Cons p ps t ts)
    have "length t \<le> length (piece_text p)"
      using Cons.hyps(1) Cons.prems assms(1) by (fastforce simp: piece_text_def split: sum.splits prod.splits intro: order_trans)
    moreover have "length (concat ts) \<le> length (concat (map piece_text ps))" using Cons.prems by (intro Cons.IH) auto
    ultimately show ?case by simp
  qed simp
  obtain ts where ts: "list_all2 (\<lambda>p t. ?g p = Inr t) (rx_pieces r [] s) ts" "t = concat ts"
    using assms(2) by (auto simp: rx_replace_all_result_def and_then_Inr map_result_Inr)
  have "length (concat ts) \<le> length (concat (map piece_text (rx_pieces r [] s)))"
    using rx_pieces_min_len by (intro shorter [OF ts(1)]) blast
  then show ?thesis using ts(2) by (simp add: rx_pieces_text)
qed

end
