(* ===== verification/Shell_Scan.thy ===== *)
theory Shell_Scan
  imports Js_Regex
begin

text \<open>
  The shell scanner of the command policy, \<^verbatim>\<open>src/src/policy/command-policy.ts\<close> (lines 102 to 384): the decoding of
  ANSI-C quotes, the splitting of a command line into words and nested substitutions, and the
  splitting into pipelines. The index \<open>i\<close> of a loop is the rest of the input from there on. A thrown
  exception is a value of \<open>policy_error\<close>: \<open>String.fromCodePoint\<close> throws above U+10FFFF, and so does every
  function that decodes such an escape.
\<close>

datatype policy_error = RangeError | TypeError

type_synonym 'a policy_result = "policy_error + 'a"

subsection \<open>Quoting\<close>

definition hex_digit :: "code \<Rightarrow> bool" where
  "hex_digit c \<longleftrightarrow> digit_code c \<or> (97 \<le> c \<and> c \<le> 102) \<or> (65 \<le> c \<and> c \<le> 70)"

definition hex_value :: "code \<Rightarrow> int" where
  "hex_value c = (if digit_code c then c - 48 else if 97 \<le> c then c - 87 else c - 55)"

definition parse_hex :: "js \<Rightarrow> int" where
  "parse_hex s = foldl (\<lambda>n c. 16 * n + hex_value c) 0 s"

definition parse_octal :: "js \<Rightarrow> int" where
  "parse_octal s = foldl (\<lambda>n c. 8 * n + (c - 48)) 0 s"

definition fromCodePoint :: "int \<Rightarrow> js policy_result" where
  "fromCodePoint n =
     (if n > 1114111 then Inl RangeError
      else if n \<le> 65535 then Inr [n]
      else Inr [55296 + (n - 65536) div 1024, 56320 + (n - 65536) mod 1024])"

definition escape_value :: "code \<Rightarrow> code" where
  "escape_value c =
     (case map_of (zip (lit ''abefnrtv'') [7, 8, 27, 12, 10, 13, 9, 11]) c of None \<Rightarrow> c | Some v \<Rightarrow> v)"

definition hex_escape :: "char \<Rightarrow> rx \<Rightarrow> rx" where
  "hex_escape c digits = rx_seq [chr 92, chr (of_char c), Group 1 digits]"

definition decode_hex :: "rx \<Rightarrow> js \<Rightarrow> js policy_result" where
  "decode_hex r = rx_replace_all_result r (\<lambda>m st. fromCodePoint (parse_hex (group_of 1 st)))"

definition times_rx :: "nat \<Rightarrow> rx \<Rightarrow> rx" where
  "times_rx n r = rx_seq (replicate n r)"

definition rx_x :: rx where
  "rx_x = hex_escape CHR ''x'' (Seq (Chars hex_digit) (opt (Chars hex_digit)))"

definition rx_u :: rx where
  "rx_u = hex_escape CHR ''u'' (times_rx 4 (Chars hex_digit))"

definition rx_U :: rx where
  "rx_U = hex_escape CHR ''U'' (times_rx 8 (Chars hex_digit))"

definition rx_octal :: rx where
  "rx_octal = Seq (chr 92) (Group 1 (Seq (Chars (\<lambda>c. 48 \<le> c \<and> c \<le> 55)) (up_to 2 (Chars (\<lambda>c. 48 \<le> c \<and> c \<le> 55)))))"

definition rx_escape :: rx where
  "rx_escape = Seq (chr 92) (Group 1 (Chars (\<lambda>c. c = 92 \<or> c = 39 \<or> c = 34 \<or> c \<in> set (lit ''abefnrtv''))))"

definition decodeAnsiC :: "js \<Rightarrow> js policy_result" where
  "decodeAnsiC value =
     and_then (decode_hex rx_x value) (\<lambda>value.
     and_then (decode_hex rx_u value) (\<lambda>value.
     and_then (decode_hex rx_U value) (\<lambda>value.
     and_then (rx_replace_all_result rx_octal (\<lambda>m st. fromCodePoint (parse_octal (group_of 1 st))) value) (\<lambda>value.
     rx_replace_all_result rx_escape (\<lambda>m st. Inr [escape_value (hd (group_of 1 st))]) value))))"

definition bare_char :: "code \<Rightarrow> bool" where
  "bare_char c \<longleftrightarrow> is_word_char c \<or> c \<in> set (lit ''@%+=:,./-'')"

definition unquoteBareWord :: "js \<Rightarrow> js option" where
  "unquoteBareWord inner = (if list_all bare_char inner then Some inner else None)"

subsection \<open>Words\<close>

record shell_scan =
  sc_commands :: "js list list"
  sc_nested :: "js list"

definition separator :: "code \<Rightarrow> bool" where
  "separator c \<longleftrightarrow> c \<in> set (lit '';|&(){}'')"

text \<open>The end of a command substitution: the body up to the matching parenthesis, and what follows it.\<close>

fun commandSubstitution :: "nat \<Rightarrow> code option \<Rightarrow> js \<Rightarrow> js \<Rightarrow> (js \<times> js) option" where
  "commandSubstitution depth q body [] = None"
| "commandSubstitution depth q body (c # cs) =
     (if c = 92 then (case cs of [] \<Rightarrow> None | d # ds \<Rightarrow> commandSubstitution depth q (body @ [c, d]) ds)
      else case q of
        Some q' \<Rightarrow> commandSubstitution depth (if c = q' then None else q) (body @ [c]) cs
      | None \<Rightarrow>
          if c = 39 \<or> c = 34 then commandSubstitution depth (Some c) (body @ [c]) cs
          else if c = 36 \<and> (case cs of [] \<Rightarrow> False | d # _ \<Rightarrow> d = 40)
          then commandSubstitution (depth + 1) None (body @ [c, 40]) (tl cs)
          else if c = 41 then
            (if depth = 1 then Some (body, cs) else commandSubstitution (depth - 1) None (body @ [c]) cs)
          else commandSubstitution depth None (body @ [c]) cs)"

lemma commandSubstitution_length:
  "commandSubstitution depth q body s = Some (b, r) \<Longrightarrow> length b + length r + 1 = length body + length s"
  by (induction depth q body s arbitrary: b r rule: commandSubstitution.induct)
    (auto split: if_splits option.splits list.splits)

definition upto_char :: "code \<Rightarrow> js \<Rightarrow> (js \<times> js) option" where
  "upto_char c s = (if c \<in> set s then Some (takeWhile (\<lambda>x. x \<noteq> c) s, tl (dropWhile (\<lambda>x. x \<noteq> c) s)) else None)"

lemma upto_char_length: "upto_char c s = Some (a, b) \<Longrightarrow> length a + length b + 1 = length s"
proof -
  assume *: "upto_char c s = Some (a, b)"
  then have "c \<in> set s" by (auto simp: upto_char_def split: if_splits)
  then have "dropWhile (\<lambda>x. x \<noteq> c) s \<noteq> []" by (simp add: dropWhile_eq_Nil_conv)
  moreover have "length (takeWhile (\<lambda>x. x \<noteq> c) s) + length (dropWhile (\<lambda>x. x \<noteq> c) s) = length s"
    by (metis length_append takeWhile_dropWhile_id)
  ultimately show ?thesis using * by (cases "dropWhile (\<lambda>x. x \<noteq> c) s") (auto simp: upto_char_def split: if_splits)
qed

text \<open>Inside double quotes: the word so far, the substitutions found, and the input after the closing quote.\<close>

function (sequential) read_dquote :: "js \<Rightarrow> js list \<Rightarrow> js \<Rightarrow> js \<times> js list \<times> js" where
  "read_dquote word nested [] = (word, nested, [])"
| "read_dquote word nested (c # cs) =
     (if c = 34 then (word, nested, cs)
      else if c = 92 \<and> cs \<noteq> [] then read_dquote (word @ [hd cs]) nested (tl cs)
      else if c = 36 \<and> (case cs of [] \<Rightarrow> False | d # _ \<Rightarrow> d = 40) then
        (case commandSubstitution 1 None [] (tl cs) of
           None \<Rightarrow> read_dquote (word @ [c]) nested cs
         | Some (body, rest) \<Rightarrow> read_dquote word (nested @ [body]) rest)
      else if c = 96 then
        (case upto_char 96 cs of
           None \<Rightarrow> read_dquote word nested cs
         | Some (body, rest) \<Rightarrow> read_dquote word (nested @ [body]) rest)
      else read_dquote (word @ [c]) nested cs)"
  by pat_completeness auto
termination
  by (relation "measure (\<lambda>(word, nested, rest). length rest)")
    (auto dest!: commandSubstitution_length upto_char_length split: list.splits)

lemma read_dquote_length: "read_dquote word nested s = (w, n, r) \<Longrightarrow> length w + length r \<le> length word + length s \<and> length r \<le> length s"
proof (induction word nested s arbitrary: w n r rule: read_dquote.induct)
  case (2 word nested c cs)
  consider "c = 34" | "c = 92 \<and> cs \<noteq> []" "c \<noteq> 34" | (sub) "c = 36 \<and> (case cs of [] \<Rightarrow> False | d # _ \<Rightarrow> d = 40)"
    | (bq) "c = 96" | (plain) "c \<noteq> 34" "\<not> (c = 92 \<and> cs \<noteq> [])" "\<not> (c = 36 \<and> (case cs of [] \<Rightarrow> False | d # _ \<Rightarrow> d = 40))" "c \<noteq> 96"
    by blast
  then show ?case
  proof cases
    case 1
    then show ?thesis using "2.prems" by simp
  next
    case 2
    then show ?thesis using "2.IH"(1) [of w n r] "2.prems" by (cases cs) auto
  next
    case sub
    show ?thesis
    proof (cases "commandSubstitution 1 None [] (tl cs)")
      case None
      then have "read_dquote (word @ [c]) nested cs = (w, n, r)" using "2.prems" sub by simp
      then show ?thesis using "2.IH"(2) [OF _ _ sub None, of w n r] sub by simp
    next
      case (Some br)
      obtain body rest where br: "br = (body, rest)" by (cases br)
      have "length body + length rest + 1 = length (tl cs)" using commandSubstitution_length [of 1 None "[]"] Some br by fastforce
      moreover have "read_dquote word (nested @ [body]) rest = (w, n, r)" using "2.prems" sub Some br by simp
      then have "length w + length r \<le> length word + length rest \<and> length r \<le> length rest"
        using "2.IH"(3) [OF _ _ sub Some br [symmetric], of w n r] sub by simp
      ultimately show ?thesis by (auto simp: length_tl)
    qed
  next
    case bq
    show ?thesis
    proof (cases "upto_char 96 cs")
      case None
      then have "read_dquote word nested cs = (w, n, r)" using "2.prems" bq by simp
      then show ?thesis using "2.IH"(4) [OF _ _ _ bq None, of w n r] bq by simp
    next
      case (Some br)
      obtain body rest where br: "br = (body, rest)" by (cases br)
      have "read_dquote word (nested @ [body]) rest = (w, n, r)" using "2.prems" bq Some br by simp
      then have "length w + length r \<le> length word + length rest \<and> length r \<le> length rest"
        using "2.IH"(5) [OF _ _ _ bq Some br [symmetric], of w n r] bq by simp
      then show ?thesis using upto_char_length [of 96 cs body rest] Some br by simp
    qed
  next
    case plain
    have "read_dquote (word @ [c]) nested cs = (w, n, r)" using "2.prems" by (simp only: read_dquote.simps plain if_False)
    then show ?thesis using "2.IH"(6) [OF plain, of w n r] by simp
  qed
qed simp

definition ends_redirect :: "js \<Rightarrow> bool" where
  "ends_redirect word \<longleftrightarrow> word \<noteq> [] \<and> (last word = 60 \<or> last word = 62)"

text \<open>Whether the word goes on with the next character; an ampersand belongs to a redirection such as \<open>2>&1\<close>.\<close>

definition in_word :: "js \<Rightarrow> js \<Rightarrow> bool" where
  "in_word word rest =
     (case rest of [] \<Rightarrow> False
      | c # _ \<Rightarrow> \<not> is_space c \<and> (\<not> separator c \<or> (c = 38 \<and> ends_redirect word)))"

definition next_is :: "code \<Rightarrow> js \<Rightarrow> bool" where
  "next_is d cs = (case cs of [] \<Rightarrow> False | c # _ \<Rightarrow> c = d)"

text \<open>One round of the loop that reads a word: the new word, whether it has started, the substitutions, the rest.\<close>

definition word_step :: "js \<Rightarrow> bool \<Rightarrow> js list \<Rightarrow> code \<Rightarrow> js \<Rightarrow> (js \<times> bool \<times> js list \<times> js) policy_result" where
  "word_step word started nested c cs =
     (if c = 92 then
        Inr (if next_is 10 cs then (word, started, nested, tl cs)
             else if cs \<noteq> [] then (word @ [hd cs], True, nested, tl cs)
             else (word, started, nested, cs))
      else if c = 39 then
        Inr (case upto_char 39 cs of
               None \<Rightarrow> (word @ cs, True, nested, [])
             | Some (inner, rest) \<Rightarrow> (word @ inner, True, nested, rest))
      else if c = 36 \<and> next_is 39 cs then
        (case upto_char 39 (tl cs) of
           None \<Rightarrow> Inr (word @ tl cs, True, nested, [])
         | Some (inner, rest) \<Rightarrow> and_then (decodeAnsiC inner) (\<lambda>d. Inr (word @ d, True, nested, rest)))
      else if c = 34 then
        Inr (case read_dquote word nested cs of (word, nested, rest) \<Rightarrow> (word, True, nested, rest))
      else if c = 36 \<and> next_is 40 cs then
        Inr (case commandSubstitution 1 None [] (tl cs) of
               None \<Rightarrow> (word @ [c], True, nested, cs)
             | Some (body, rest) \<Rightarrow> (word, True, nested @ [body], rest))
      else if c = 96 then
        Inr (case upto_char 96 cs of
               None \<Rightarrow> (word, True, nested, cs)
             | Some (body, rest) \<Rightarrow> (word, True, nested @ [body], rest))
      else Inr (word @ [c], True, nested, cs))"

lemma fromCodePoint_length: "fromCodePoint n = Inr t \<Longrightarrow> length t \<le> 2 \<and> (n \<le> 65535 \<longrightarrow> length t = 1)"
  by (auto simp: fromCodePoint_def split: if_splits)

lemma decode_hex_length:
  "decode_hex r s = Inr t \<Longrightarrow> 2 \<le> min_len r \<Longrightarrow> length t \<le> length s"
  unfolding decode_hex_def by (erule rx_replace_all_result_length [rotated]) (auto dest: fromCodePoint_length)

lemma decodeAnsiC_length: "decodeAnsiC s = Inr t \<Longrightarrow> length t \<le> length s"
proof -
  assume "decodeAnsiC s = Inr t"
  then obtain s1 s2 s3 s4 where
    1: "decode_hex rx_x s = Inr s1" and 2: "decode_hex rx_u s1 = Inr s2" and 3: "decode_hex rx_U s2 = Inr s3"
    and 4: "rx_replace_all_result rx_octal (\<lambda>m st. fromCodePoint (parse_octal (group_of 1 st))) s3 = Inr s4"
    and 5: "rx_replace_all_result rx_escape (\<lambda>m st. Inr [escape_value (hd (group_of 1 st))]) s4 = (Inr t :: js policy_result)"
    unfolding decodeAnsiC_def and_then_Inr by blast
  have "length s4 \<le> length s3"
    using 4 by (rule rx_replace_all_result_length [rotated])
      (auto dest!: fromCodePoint_length simp: rx_octal_def up_to_def opt_def numeral_2_eq_2 chr_def)
  moreover have "length t \<le> length s4"
    using 5 by (rule rx_replace_all_result_length [rotated]) (auto simp: rx_escape_def chr_def)
  ultimately show ?thesis
    using decode_hex_length [OF 1] decode_hex_length [OF 2] decode_hex_length [OF 3]
    by (simp add: rx_x_def rx_u_def rx_U_def hex_escape_def times_rx_def chr_def opt_def numeral_eq_Suc)
qed

lemma next_is_Cons [simp]: "next_is d [] = False" "next_is d (c # cs) = (c = d)"
  by (simp_all add: next_is_def)

lemma word_step_length:
  assumes "word_step word started nested c cs = Inr (w, b, n, r)"
  shows "length w + length r \<le> length word + length cs + 1 \<and> length r \<le> length cs"
proof -
  have sub: "length body + length rest + 1 = length (tl cs)" if "commandSubstitution 1 None [] (tl cs) = Some (body, rest)" for body rest
    using commandSubstitution_length [OF that] by simp
  have tl: "length (tl cs) \<le> length cs" "cs \<noteq> [] \<Longrightarrow> length (tl cs) + 1 = length cs" by (cases cs; simp)+
  show ?thesis
    using assms tl sub
    by (auto simp: word_step_def and_then_Inr dest!: upto_char_length read_dquote_length decodeAnsiC_length
        split: if_splits option.splits prod.splits)
qed

function (sequential) read_word :: "js \<Rightarrow> bool \<Rightarrow> js list \<Rightarrow> js \<Rightarrow> (js \<times> bool \<times> js list \<times> js) policy_result" where
  "read_word word started nested [] = Inr (word, started, nested, [])"
| "read_word word started nested (c # cs) =
     (if in_word word (c # cs)
      then and_then (word_step word started nested c cs)
             (\<lambda>(word, started, nested, rest). read_word word started nested rest)
      else Inr (word, started, nested, c # cs))"
  by pat_completeness auto
termination
  by (relation "measure (\<lambda>(word, started, nested, rest). length rest)") (auto dest!: word_step_length)

lemma read_word_stops:
  assumes "read_word word started nested s = Inr (w, b, n, r)"
  shows "length w + length r \<le> length word + length s \<and> length r \<le> length s \<and> \<not> in_word w r \<and>
    (in_word word s \<longrightarrow> length r < length s)"
  using assms
proof (induction word started nested s rule: read_word.induct)
  case (1 word started nested)
  then show ?case by (simp add: in_word_def)
next
  case (2 word started nested c cs)
  show ?case
  proof (cases "in_word word (c # cs)")
    case True
    then obtain w1 b1 n1 r1 where st: "word_step word started nested c cs = Inr (w1, b1, n1, r1)"
      and rd: "read_word w1 b1 n1 r1 = Inr (w, b, n, r)"
      using "2.prems" by (auto simp: and_then_Inr)
    show ?thesis using "2.IH" [OF True st refl refl refl rd] word_step_length [OF st] by auto
  next
    case False
    then show ?thesis using "2.prems" by auto
  qed
qed

text \<open>The scan: words are collected into commands at separators and line breaks; a comment runs to the end of its line.\<close>

definition flush :: "js list \<Rightarrow> js list list \<Rightarrow> js list list" where
  "flush words commands = (if words \<noteq> [] then commands @ [words] else commands)"

function (sequential) scan_loop :: "js list list \<Rightarrow> js list \<Rightarrow> js list \<Rightarrow> js \<Rightarrow> shell_scan policy_result" where
  "scan_loop commands words nested [] = Inr \<lparr>sc_commands = flush words commands, sc_nested = nested\<rparr>"
| "scan_loop commands words nested (c # cs) =
     (if is_space c then
        (if c = 10 then scan_loop (flush words commands) [] nested cs else scan_loop commands words nested cs)
      else if c = 35 \<and> words = [] then scan_loop commands words nested (dropWhile (\<lambda>x. x \<noteq> 10) cs)
      else if separator c then scan_loop (flush words commands) [] nested (dropWhile separator cs)
      else and_then (read_word [] False nested (c # cs))
             (\<lambda>(word, started, nested, rest).
                scan_loop commands (if started then words @ [word] else words) nested rest))"
  by pat_completeness auto
termination
proof (relation "measure (\<lambda>(commands, words, nested, rest). length rest)", goal_cases)
  case (6 commands words nested c cs z w y b ya n r)
  then have "in_word [] (c # cs)" by (simp add: in_word_def)
  with 6 show ?case using read_word_stops [of "[]" False nested "c # cs" w b n r] by (auto simp del: read_word.simps)
qed (auto simp: le_imp_less_Suc length_dropWhile_le)

definition scanShell :: "js \<Rightarrow> shell_scan policy_result" where
  "scanShell input = scan_loop [] [] [] input"

text \<open>A word together with the blank that ends it: what the words of a scan weigh never exceeds the input by more than one.\<close>

definition weight :: "js list \<Rightarrow> nat" where
  "weight ws = sum_list (map (\<lambda>w. length w + 1) ws)"

lemma weight_simps [simp]: "weight [] = 0" "weight (w # ws) = length w + 1 + weight ws" "weight (ws @ vs) = weight ws + weight vs"
  by (simp_all add: weight_def)

lemma weight_flush: "weight (concat (flush words commands)) = weight (concat commands) + weight words"
  by (simp add: flush_def)

lemma scan_loop_weight:
  "scan_loop commands words nested s = Inr sc \<Longrightarrow>
   weight (concat (sc_commands sc)) \<le> weight (concat commands) + weight words + length s + (if in_word [] s then 1 else 0)"
proof (induction commands words nested s arbitrary: sc rule: scan_loop.induct)
  case (1 commands words nested)
  then show ?case by (auto simp: weight_flush)
next
  case (2 commands words nested c cs)
  have le: "length (dropWhile P cs) \<le> length cs" for P by (rule length_dropWhile_le)
  consider (space) "is_space c" | (comment) "\<not> is_space c" "c = 35 \<and> words = []" | (sep) "\<not> is_space c" "\<not> (c = 35 \<and> words = [])" "separator c"
    | (word) "\<not> is_space c" "\<not> (c = 35 \<and> words = [])" "\<not> separator c" by blast
  then show ?case
  proof cases
    case space
    then show ?thesis using "2.IH"(1,2) [OF space, of sc] "2.prems" by (auto simp: weight_flush split: if_splits)
  next
    case comment
    have "scan_loop commands words nested (dropWhile (\<lambda>x. x \<noteq> 10) cs) = Inr sc" using "2.prems" comment by simp
    moreover have "\<not> in_word [] (dropWhile (\<lambda>x. x \<noteq> 10) cs)"
    proof (cases "dropWhile (\<lambda>x. x \<noteq> 10) cs")
      case (Cons d ds)
      then have "d = 10" using hd_dropWhile [of "\<lambda>x. x \<noteq> 10" cs] by (auto simp: dropWhile_eq_Nil_conv)
      then show ?thesis by (simp add: Cons in_word_def is_space_def)
    next
      case Nil
      then show ?thesis by (simp only: in_word_def list.case simp_thms)
    qed
    ultimately show ?thesis using "2.IH"(3) [OF comment, of sc] le [of "\<lambda>x. x \<noteq> 10"] by auto
  next
    case sep
    have "scan_loop (flush words commands) [] nested (dropWhile separator cs) = Inr sc" using "2.prems" sep by simp
    then show ?thesis using "2.IH"(4) [OF sep, of sc] le [of separator] by (auto simp: weight_flush split: if_splits)
  next
    case word
    obtain w b n r where rd: "read_word [] False nested (c # cs) = Inr (w, b, n, r)"
      and sc: "scan_loop commands (if b then words @ [w] else words) n r = Inr sc"
      using "2.prems" word by (auto simp: and_then_Inr simp del: read_word.simps)
    have in_w: "in_word [] (c # cs)" using word by (simp add: in_word_def)
    note stop = read_word_stops [OF rd]
    have "\<not> in_word [] r" using stop by (auto simp: in_word_def ends_redirect_def split: list.splits)
    then show ?thesis
      using "2.IH"(5) [OF word rd refl refl refl sc] stop in_w by (auto split: if_splits)
  qed
qed

lemma scanShell_weight: "scanShell s = Inr sc \<Longrightarrow> weight (concat (sc_commands sc)) \<le> length s + 1"
  using scan_loop_weight [of "[]" "[]" "[]" s sc] by (simp add: scanShell_def split: if_splits)

subsection \<open>The command word and its options\<close>

definition rx_assignment :: rx where
  "rx_assignment = rx_seq [Start, Chars is_name_start, Star (Chars is_word_char), chr 61]"

definition rx_redirect_op :: rx where
  "rx_redirect_op =
     rx_alt [Seq (chr 62) (opt (chr 62)), Seq (chr 60) (opt (chr 60)), text_of (lit ''<>''), text_of (lit ''>&''), text_of (lit ''<&'')]"

definition rx_redirect :: rx where
  "rx_redirect = rx_seq [Start, Star (Chars digit_code), rx_redirect_op, Finish]"

definition rx_redirect_to :: rx where
  "rx_redirect_to = rx_seq [Start, Star (Chars digit_code), rx_redirect_op, plus1 dot]"

definition is_assignment :: "js \<Rightarrow> bool" where
  "is_assignment word \<longleftrightarrow> rx_test rx_assignment word"

definition keywords_before_command :: "js list" where
  "keywords_before_command = map lit [''if'', ''then'', ''elif'', ''else'', ''while'', ''until'', ''do'', ''!'']"

fun commandStart :: "js list \<Rightarrow> nat" where
  "commandStart [] = 0"
| "commandStart (word # words) =
     (if is_assignment word \<or> word \<in> set keywords_before_command then 1 + commandStart words
      else if rx_test rx_redirect word then (case words of [] \<Rightarrow> 2 | _ # words' \<Rightarrow> 2 + commandStart words')
      else if rx_test rx_redirect_to word then 1 + commandStart words
      else 0)"

fun optionCommand :: "js list \<Rightarrow> js list \<Rightarrow> nat" where
  "optionCommand [] valueOptions = 0"
| "optionCommand (word # words) valueOptions =
     (if word = lit ''--'' then 1
      else if \<not> has_prefix (lit ''-'') word \<or> word = lit ''-'' then 0
      else if word \<in> set valueOptions \<and> 61 \<notin> set word
      then (case words of [] \<Rightarrow> 2 | _ # words' \<Rightarrow> 2 + optionCommand words' valueOptions)
      else 1 + optionCommand words valueOptions)"

text \<open>\<open>word.split("/").pop()\<close>\<close>

definition executable_of :: "js \<Rightarrow> js" where
  "executable_of word = rev (takeWhile (\<lambda>c. c \<noteq> 47) (rev word))"

definition split_string_arg :: "js \<Rightarrow> bool" where
  "split_string_arg arg \<longleftrightarrow>
     arg = lit ''-S'' \<or> has_prefix (lit ''-S'') arg \<or> arg = lit ''--split-string'' \<or> has_prefix (lit ''--split-string='') arg"

definition after_equals :: "js \<Rightarrow> js" where
  "after_equals arg = tl (dropWhile (\<lambda>c. c \<noteq> 61) arg)"

text \<open>The payload of \<open>env -S\<close>, from the first such argument on.\<close>

fun splitStringPayload :: "js list \<Rightarrow> js option \<times> js list" where
  "splitStringPayload [] = (None, [])"
| "splitStringPayload (arg # args) =
     (let compact = has_prefix (lit ''-S'') arg \<and> length arg > 2 in
      (if 61 \<in> set arg then Some (after_equals arg)
       else if compact then Some (drop 2 arg)
       else (case args of [] \<Rightarrow> None | v # _ \<Rightarrow> Some v),
       if 61 \<in> set arg \<or> compact then args else drop 1 args))"

definition split_args :: "js list \<Rightarrow> js list" where
  "split_args args = dropWhile (\<lambda>arg. \<not> split_string_arg arg) args"

definition envSplitWords :: "js list \<Rightarrow> js list option policy_result" where
  "envSplitWords args =
     (if split_args args = [] then Inr None
      else case splitStringPayload (split_args args) of
             (None, _) \<Rightarrow> Inr (Some [])
           | (Some value, rest) \<Rightarrow>
               and_then (scanShell (js_join (lit '' '') (value # rest)))
                 (\<lambda>sc. Inr (Some (case sc_commands sc of [] \<Rightarrow> [] | ws # _ \<Rightarrow> ws))))"

lemma length_js_join: "length (js_join (lit '' '') ws) + 1 = (if ws = [] then 1 else weight ws)"
  by (induction "lit '' ''" ws rule: js_join.induct) (auto split: if_splits)

lemma splitStringPayload_weight: "splitStringPayload args = (Some value, rest) \<Longrightarrow> weight (value # rest) \<le> weight args"
proof (cases args)
  case (Cons arg args')
  have le: "length (after_equals arg) \<le> length arg"
    using length_dropWhile_le [of "\<lambda>c. c \<noteq> 61" arg] by (simp add: after_equals_def)
  assume "splitStringPayload args = (Some value, rest)"
  then show ?thesis using le by (cases args') (auto simp: Cons Let_def split: if_splits)
qed simp

lemma weight_dropWhile: "weight (dropWhile P args) \<le> weight args"
  by (induction args) auto

lemma envSplitWords_weight: "envSplitWords args = Inr (Some ws) \<Longrightarrow> weight ws \<le> weight args"
proof -
  assume *: "envSplitWords args = Inr (Some ws)"
  have "weight ws \<le> weight (split_args args)"
  proof (cases "splitStringPayload (split_args args)")
    case (Pair v rest)
    show ?thesis
    proof (cases v)
      case None
      then show ?thesis using * Pair by (auto simp: envSplitWords_def split: if_splits)
    next
      case (Some val)
      then obtain sc where sc: "scanShell (js_join (lit '' '') (val # rest)) = Inr sc"
        and ws: "ws = (case sc_commands sc of [] \<Rightarrow> [] | ws # _ \<Rightarrow> ws)"
        using * Pair by (auto simp: envSplitWords_def and_then_Inr split: if_splits)
      have "weight ws \<le> weight (concat (sc_commands sc))" using ws by (cases "sc_commands sc") auto
      also have "\<dots> \<le> weight (val # rest)" using scanShell_weight [OF sc] length_js_join [of "val # rest"] by simp
      also have "\<dots> \<le> weight (split_args args)" using splitStringPayload_weight Pair Some by simp
      finally show ?thesis .
    qed
  qed
  then show ?thesis using weight_dropWhile [of "\<lambda>arg. \<not> split_string_arg arg" args] by (simp add: split_args_def)
qed

lemma weight_drop: "weight (drop n ws) \<le> weight ws"
  by (induction ws arbitrary: n) (auto simp: drop_Cons split: nat.splits intro: le_SucI trans_le_add2)

subsection \<open>Pipelines\<close>

definition finishSegment :: "js \<Rightarrow> js list \<Rightarrow> js list" where
  "finishSegment segment pipeline = (if js_trim segment \<noteq> [] then pipeline @ [js_trim segment] else pipeline)"

definition finishPipeline :: "js \<Rightarrow> js list \<Rightarrow> js list list \<Rightarrow> js list list" where
  "finishPipeline segment pipeline pipelines =
     (let pipeline = finishSegment segment pipeline in if length pipeline > 1 then pipelines @ [pipeline] else pipelines)"

fun pipeline_loop :: "code option \<Rightarrow> js \<Rightarrow> js list \<Rightarrow> js list list \<Rightarrow> js \<Rightarrow> js list list" where
  "pipeline_loop q segment pipeline pipelines [] = finishPipeline segment pipeline pipelines"
| "pipeline_loop q segment pipeline pipelines (c # cs) =
     (if c = 92 then (case cs of [] \<Rightarrow> finishPipeline (segment @ [c]) pipeline pipelines
                      | d # ds \<Rightarrow> pipeline_loop q (segment @ [c, d]) pipeline pipelines ds)
      else case q of
        Some q' \<Rightarrow> pipeline_loop (if c = q' then None else q) (segment @ [c]) pipeline pipelines cs
      | None \<Rightarrow>
          if c = 39 \<or> c = 34 \<or> c = 96 then pipeline_loop (Some c) (segment @ [c]) pipeline pipelines cs
          else if (c = 124 \<or> c = 38) \<and> next_is c cs
          then pipeline_loop None [] [] (finishPipeline segment pipeline pipelines) (tl cs)
          else if c = 124
          then pipeline_loop None [] (finishSegment segment pipeline) pipelines (if next_is 38 cs then tl cs else cs)
          else if c = 59 \<or> c = 10 \<or> c = 38
          then pipeline_loop None [] [] (finishPipeline segment pipeline pipelines) cs
          else pipeline_loop None (segment @ [c]) pipeline pipelines cs)"

definition shellPipelines :: "js \<Rightarrow> js list list" where
  "shellPipelines input = pipeline_loop None [] [] [] input"

subsection \<open>Scanning undoes quoting\<close>

definition quote_word :: "js \<Rightarrow> js" where
  "quote_word w = 39 # w @ [39]"

lemma upto_char_append: "c \<notin> set w \<Longrightarrow> upto_char c (w @ c # r) = Some (w, r)"
  by (auto simp: upto_char_def takeWhile_append dropWhile_append)

lemma read_word_end: "r = [] \<or> is_space (hd r) \<Longrightarrow> read_word w b n r = Inr (w, b, n, r)"
  by (cases r) (auto simp: in_word_def)

lemma in_word_quote: "in_word [] (39 # r)"
  by (simp add: in_word_def is_space_def separator_def)

lemma read_quoted:
  assumes "39 \<notin> set w" and "r = [] \<or> is_space (hd r)"
  shows "read_word [] False n (39 # w @ 39 # r) = Inr (w, True, n, r)"
  using assms by (simp add: in_word_quote word_step_def upto_char_append read_word_end del: read_word.simps add: read_word.simps(2))

lemma scan_quoted:
  assumes "39 \<notin> set w" and "r = [] \<or> is_space (hd r)"
  shows "scan_loop commands words nested (39 # w @ 39 # r) = scan_loop commands (words @ [w]) nested r"
  using read_quoted [OF assms, of nested] by (simp add: is_space_def separator_def del: read_word.simps)

lemma scan_quoted_list:
  "\<forall>w \<in> set ws. 39 \<notin> set w \<Longrightarrow> ws \<noteq> [] \<Longrightarrow>
   scan_loop commands words nested (js_join (lit '' '') (map quote_word ws)) =
     Inr \<lparr>sc_commands = commands @ [words @ ws], sc_nested = nested\<rparr>"
proof (induction ws arbitrary: words)
  case (Cons w ws)
  show ?case
  proof (cases ws)
    case Nil
    then show ?thesis using Cons.prems scan_quoted [of w "[]" commands words nested] by (simp add: quote_word_def flush_def)
  next
    case (Cons v vs)
    let ?r = "js_join (lit '' '') (map quote_word ws)"
    have "scan_loop commands words nested (39 # w @ 39 # 32 # ?r) = scan_loop commands (words @ [w]) nested (32 # ?r)"
      using Cons.prems by (intro scan_quoted) (auto simp: is_space_def)
    also have "\<dots> = scan_loop commands (words @ [w]) nested ?r" by (simp add: is_space_def)
    also have "\<dots> = Inr \<lparr>sc_commands = commands @ [(words @ [w]) @ ws], sc_nested = nested\<rparr>"
      using Cons.prems Cons by (intro Cons.IH) auto
    finally have "scan_loop commands words nested (39 # w @ 39 # 32 # ?r) = Inr \<lparr>sc_commands = commands @ [words @ w # ws], sc_nested = nested\<rparr>"
      by (simp only: append_assoc append_Cons append_Nil)
    moreover have "js_join (lit '' '') (map quote_word (w # ws)) = 39 # w @ 39 # 32 # ?r"
      using Cons by (simp add: quote_word_def)
    ultimately show ?thesis by (simp only:)
  qed
qed simp

declare scan_loop.simps [simp del] read_word.simps [simp del] read_dquote.simps [simp del]

text \<open>C22: Scanning a command line gives back the words it was quoted from: for every list of words without single quotes,
  whatever else they contain, writing each between single quotes and joining them with blanks scans as one
  command with exactly these words, and nothing in them is taken for a substitution.\<close>

theorem scan_inverts_quoting:
  assumes "\<forall>w \<in> set ws. 39 \<notin> set w"
  shows "scanShell (js_join (lit '' '') (map quote_word ws)) =
    Inr \<lparr>sc_commands = (if ws = [] then [] else [ws]), sc_nested = []\<rparr>"
proof (cases "ws = []")
  case False
  then show ?thesis using scan_quoted_list [OF assms False, of "[]" "[]" "[]"] by (simp only: scanShell_def append_Nil if_False)
qed (simp add: scanShell_def flush_def scan_loop.simps(1))

theorem scan_inverts_quoting_witness:
  "scanShell (quote_word (lit ''bash'') @ 32 # quote_word (lit ''-c'') @ 32 # quote_word (lit ''rm -rf $(pwd); ls'')) =
    Inr \<lparr>sc_commands = [[lit ''bash'', lit ''-c'', lit ''rm -rf $(pwd); ls'']], sc_nested = []\<rparr>"
  using scan_inverts_quoting [of "[lit ''bash'', lit ''-c'', lit ''rm -rf $(pwd); ls'']"]
  by (simp add: quote_word_def)

end
