(* ===== verification/Command_Policy.thy ===== *)
theory Command_Policy
  imports Shell_Scan Json
begin

text \<open>
  The command policy, \<^verbatim>\<open>src/src/policy/command-policy.ts\<close>: which payloads a command line hands to another
  interpreter, the text the rules are matched against, the composition of policies and their
  evaluation. \<open>new RegExp(pattern, "i")\<close> of a rule is the parameter \<open>regexp\<close>: \<open>None\<close> for a pattern the engine
  refuses, otherwise the function that returns the first match in a text.
\<close>

subsection \<open>Wrappers\<close>

definition option_tail :: "js list \<Rightarrow> js list \<Rightarrow> js list" where
  "option_tail valueOptions args = drop (optionCommand args valueOptions) args"

definition env_options :: "js list" where
  "env_options = map lit [''-u'', ''--unset'', ''-C'', ''--chdir'', ''-S'', ''--split-string'']"

definition sudo_options :: "js list" where
  "sudo_options = map lit [''-u'', ''--user'', ''-g'', ''--group'', ''-h'', ''--host'', ''-p'', ''--prompt'', ''-C'', ''--chdir'',
     ''-T'', ''--command-timeout'', ''-R'', ''--chroot'', ''-t'', ''--type'']"

text \<open>Programs that run the command after their options, with the options that take a value and the number of further
  arguments to skip.\<close>

definition common_wrappers :: "(js \<times> js list \<times> nat) list" where
  "common_wrappers =
     [(lit ''exec'', map lit [''-a''], 0),
      (lit ''sudo'', sudo_options, 0),
      (lit ''nice'', map lit [''-n'', ''--adjustment''], 0),
      (lit ''timeout'', map lit [''-s'', ''--signal'', ''-k'', ''--kill-after''], 1),
      (lit ''time'', map lit [''-o'', ''--output'', ''-f'', ''--format''], 0),
      (lit ''nohup'', [], 0)]"

definition stdbuf_wrapper :: "(js \<times> js list \<times> nat) list" where
  "stdbuf_wrapper = [(lit ''stdbuf'', map lit [''-i'', ''--input'', ''-o'', ''--output'', ''-e'', ''--error''], 0)]"

definition command_wrapper :: "(js \<times> js list \<times> nat) list" where
  "command_wrapper = [(lit ''command'', [], 0)]"

definition wrapped :: "(js \<times> js list \<times> nat) list \<Rightarrow> js \<Rightarrow> js list \<Rightarrow> js list option" where
  "wrapped wrappers executable args =
     map_option (\<lambda>(valueOptions, skip). drop (optionCommand args valueOptions + skip) args) (map_of wrappers executable)"

definition shells :: "js list" where
  "shells = map lit [''bash'', ''sh'', ''dash'', ''zsh'', ''ksh'']"

definition shell_value_options :: "js list" where
  "shell_value_options = map lit [''-O'', ''-o'', ''--rcfile'', ''--init-file'']"

definition dash_c :: "js \<Rightarrow> bool" where
  "dash_c arg \<longleftrightarrow> rx_test (rx_seq [Start, chr 45, Star (any_but [45]), chr 99]) arg"

subsection \<open>Who reads a script from standard input\<close>

definition stdin_scripts :: "js list" where
  "stdin_scripts = map lit [''-'', ''/dev/stdin'', ''/dev/fd/0'', ''/proc/self/fd/0'']"

fun shell_reads_stdin :: "js list \<Rightarrow> bool" where
  "shell_reads_stdin [] = True"
| "shell_reads_stdin (arg # args) =
     (if dash_c arg then False
      else if arg = lit ''-s'' then True
      else if arg \<in> set shell_value_options then (case args of [] \<Rightarrow> True | _ # args' \<Rightarrow> shell_reads_stdin args')
      else if arg = lit ''--'' then (case args of [] \<Rightarrow> True | a # _ \<Rightarrow> a \<in> set stdin_scripts)
      else if \<not> has_prefix (lit ''-'') arg \<or> arg = lit ''-'' then arg \<in> set stdin_scripts
      else shell_reads_stdin args)"

lemma weight_wrapped: "wrapped wrappers exe args = Some ws \<Longrightarrow> weight ws \<le> weight args"
  by (auto simp: wrapped_def weight_drop)

lemma weight_command: "drop (commandStart words) words = w # args \<Longrightarrow> weight args < weight words"
  using weight_drop [of "commandStart words" words] by simp

lemma weight_env_tail: "weight (dropWhile P (option_tail opts args)) \<le> weight args"
  using weight_dropWhile [of P "option_tail opts args"] weight_drop [of "optionCommand args opts" args]
  by (simp add: option_tail_def)

function segmentConsumesShellStdin :: "js list \<Rightarrow> bool policy_result" where
  "segmentConsumesShellStdin words =
     (case drop (commandStart words) words of
        [] \<Rightarrow> Inr False
      | executableWord # args \<Rightarrow>
          if executable_of executableWord \<in> set shells then Inr (shell_reads_stdin args)
          else if executable_of executableWord = lit ''env'' then
            and_then (envSplitWords args)
              (\<lambda>split. case split of
                 Some ws \<Rightarrow> segmentConsumesShellStdin ws
               | None \<Rightarrow> segmentConsumesShellStdin (dropWhile is_assignment (option_tail env_options args)))
          else (case wrapped (common_wrappers @ command_wrapper @ stdbuf_wrapper) (executable_of executableWord) args of
                  Some ws \<Rightarrow> segmentConsumesShellStdin ws
                | None \<Rightarrow> Inr False))"
  by pat_completeness auto
termination
  by (relation "measure weight")
    (auto dest!: weight_command weight_wrapped envSplitWords_weight intro: le_less_trans [OF weight_env_tail])

declare segmentConsumesShellStdin.simps [simp del]

subsection \<open>What a producer prints\<close>

fun command_tail :: "js list \<Rightarrow> js list option" where
  "command_tail [] = Some []"
| "command_tail (a # args) =
     (if a = lit ''--'' then Some args
      else if a = lit ''-v'' \<or> a = lit ''-V'' then None
      else if a \<noteq> lit ''-p'' then Some (a # args)
      else command_tail args)"

lemma weight_command_tail: "command_tail args = Some ws \<Longrightarrow> weight ws \<le> weight args"
  by (induction args) (auto split: if_splits intro: le_SucI trans_le_add2)

definition drop_dashes :: "js list \<Rightarrow> js list" where
  "drop_dashes args = (case args of [] \<Rightarrow> [] | a # more_args \<Rightarrow> if a = lit ''--'' then more_args else args)"

lemma weight_drop_dashes: "weight (drop_dashes args) \<le> weight args"
  by (auto simp: drop_dashes_def split: list.splits)

definition echo_flags :: "js \<Rightarrow> bool" where
  "echo_flags a \<longleftrightarrow> length a > 1 \<and> hd a = 45 \<and> list_all (\<lambda>c. c \<in> set (lit ''neE'')) (tl a)"

fun echo_args :: "bool \<Rightarrow> js list \<Rightarrow> bool \<times> js list" where
  "echo_args decodeEscapes [] = (decodeEscapes, [])"
| "echo_args decodeEscapes (a # args) =
     (if echo_flags a
      then echo_args (foldl (\<lambda>d c. if c = of_char CHR ''e'' then True else if c = of_char CHR ''E'' then False else d) decodeEscapes (tl a)) args
      else (decodeEscapes, a # args))"

fun printf_render :: "(code + js \<times> rx_state) list \<Rightarrow> js list \<Rightarrow> (js \<times> js list) policy_result" where
  "printf_render [] values = Inr ([], values)"
| "printf_render (Inl c # ps) values = and_then (printf_render ps values) (\<lambda>(t, vs). Inr (c # t, vs))"
| "printf_render (Inr (m, st) # ps) values =
     (if group_of 1 st = [37] then and_then (printf_render ps values) (\<lambda>(t, vs). Inr (37 # t, vs))
      else
        let v = (case values of [] \<Rightarrow> [] | x # _ \<Rightarrow> x) in
        and_then (if group_of 1 st = lit ''b'' then decodeAnsiC v else Inr v)
          (\<lambda>s. and_then (printf_render ps (tl values)) (\<lambda>(t, vs). Inr (s @ t, vs))))"

definition rx_percent :: rx where
  "rx_percent = Seq (chr 37) (Group 1 (Chars (\<lambda>c. c \<in> set (lit ''%sb''))))"

text \<open>The text of \<open>echo\<close> and \<open>printf\<close>, after the wrappers are peeled off.\<close>

definition printed :: "js \<Rightarrow> js list \<Rightarrow> js option policy_result" where
  "printed executable args =
     (if executable = lit ''echo'' then
        (let (decodeEscapes, rest) = echo_args False args; payload = js_join (lit '' '') rest in
         if decodeEscapes then and_then (decodeAnsiC payload) (\<lambda>t. Inr (Some t)) else Inr (Some payload))
      else if executable \<noteq> lit ''printf'' \<or> args = [] then Inr None
      else
        and_then (decodeAnsiC (hd args)) (\<lambda>format.
        and_then (printf_render (rx_pieces rx_percent [] format) (tl args)) (\<lambda>(rendered, rest).
        Inr (Some (js_join [10] (rendered # rest @ [js_join (lit '' '') args]))))))"

definition producer_env_options :: "js list" where
  "producer_env_options = map lit [''-u'', ''--unset'', ''-C'', ''--chdir'']"

function literalProducerPayload :: "js list \<Rightarrow> js option policy_result" where
  "literalProducerPayload words =
     (case drop (commandStart words) words of
        [] \<Rightarrow> Inr None
      | executableWord # args \<Rightarrow>
          if executable_of executableWord = lit ''command'' then
            (case command_tail args of None \<Rightarrow> Inr None | Some ws \<Rightarrow> literalProducerPayload ws)
          else if executable_of executableWord = lit ''builtin'' then
            (if args \<noteq> [] \<and> has_prefix (lit ''-'') (hd args) \<and> hd args \<noteq> lit ''--'' then Inr None
             else literalProducerPayload (drop_dashes args))
          else if executable_of executableWord = lit ''env'' then
            and_then (envSplitWords args)
              (\<lambda>split. case split of
                 Some ws \<Rightarrow> literalProducerPayload ws
               | None \<Rightarrow> literalProducerPayload (dropWhile is_assignment (option_tail producer_env_options args)))
          else (case wrapped (common_wrappers @ stdbuf_wrapper) (executable_of executableWord) args of
                  Some ws \<Rightarrow> literalProducerPayload ws
                | None \<Rightarrow> printed (executable_of executableWord) (drop_dashes args)))"
  by pat_completeness auto
termination
  by (relation "measure weight")
    (auto dest!: weight_command weight_wrapped envSplitWords_weight weight_command_tail
      intro: le_less_trans [OF weight_env_tail] le_less_trans [OF weight_drop_dashes])

declare literalProducerPayload.simps [simp del]

subsection \<open>Payloads\<close>

definition first_command :: "shell_scan \<Rightarrow> js list option" where
  "first_command sc = (case sc_commands sc of [] \<Rightarrow> None | ws # _ \<Rightarrow> Some ws)"

definition last_command :: "shell_scan \<Rightarrow> js list option" where
  "last_command sc = (if sc_commands sc = [] then None else Some (last (sc_commands sc)))"

definition non_empty :: "js option \<Rightarrow> js list" where
  "non_empty payload = (case payload of None \<Rightarrow> [] | Some p \<Rightarrow> if p = [] then [] else [p])"

definition piped_pair :: "(js list \<Rightarrow> bool policy_result) \<Rightarrow> js \<times> js \<Rightarrow> js list policy_result" where
  "piped_pair consumes pair =
     and_then (scanShell (snd pair)) (\<lambda>sc.
       case first_command sc of
         None \<Rightarrow> Inr []
       | Some consumer \<Rightarrow>
           and_then (consumes consumer) (\<lambda>c.
             if \<not> c then Inr []
             else and_then (scanShell (fst pair)) (\<lambda>sc'.
               case last_command sc' of
                 None \<Rightarrow> Inr []
               | Some producer \<Rightarrow> and_then (literalProducerPayload producer) (\<lambda>payload. Inr (non_empty payload)))))"

definition piped_payloads :: "(js list \<Rightarrow> bool policy_result) \<Rightarrow> js \<Rightarrow> js list policy_result" where
  "piped_payloads consumes input =
     and_then (map_result (piped_pair consumes) (concat (map (\<lambda>pipeline. zip pipeline (tl pipeline)) (shellPipelines input))))
       (\<lambda>pss. Inr (concat pss))"

definition pipedShellPayloads :: "js \<Rightarrow> js list policy_result" where
  "pipedShellPayloads input = piped_payloads segmentConsumesShellStdin input"

fun space_here_strings :: "code option \<Rightarrow> js \<Rightarrow> js" where
  "space_here_strings q [] = []"
| "space_here_strings q (c # cs) =
     (if c = 92 then (case cs of [] \<Rightarrow> [c] | d # ds \<Rightarrow> c # d # space_here_strings q ds)
      else case q of
        Some q' \<Rightarrow> c # space_here_strings (if c = q' then None else q) cs
      | None \<Rightarrow>
          if c = 39 \<or> c = 34 \<or> c = 96 then c # space_here_strings (Some c) cs
          else if has_prefix (lit ''<<<'') (c # cs) then lit '' <<< '' @ space_here_strings None (drop 2 cs)
          else c # space_here_strings None cs)"

definition here_string_payload :: "js list \<Rightarrow> js list policy_result" where
  "here_string_payload words =
     (let before_op = takeWhile (\<lambda>w. w \<noteq> lit ''<<<'') words; after_op = drop (length before_op) words in
      if after_op = [] \<or> before_op = [] then Inr []
      else and_then (segmentConsumesShellStdin before_op) (\<lambda>c.
             Inr (if c then non_empty (case tl after_op of [] \<Rightarrow> None | p # _ \<Rightarrow> Some p) else [])))"

definition hereStringShellPayloads :: "js \<Rightarrow> js list policy_result" where
  "hereStringShellPayloads input =
     and_then (scanShell (space_here_strings None input)) (\<lambda>sc.
     and_then (map_result here_string_payload (sc_commands sc)) (\<lambda>pss. Inr (concat pss)))"

text \<open>Where the program name stands once wrappers and their options are skipped.\<close>

function executableIndex :: "js list \<Rightarrow> nat \<Rightarrow> nat option" where
  "executableIndex words offset =
     (case drop (commandStart words) words of
        [] \<Rightarrow> None
      | executableWord # args \<Rightarrow>
          let start = commandStart words; executable = executable_of executableWord in
          if executable = lit ''env'' then
            (let next = optionCommand args env_options; next = next + length (takeWhile is_assignment (drop next args)) in
             executableIndex (drop next args) (offset + start + 1 + next))
          else (case map_of (common_wrappers @ command_wrapper @ stdbuf_wrapper) executable of
                  None \<Rightarrow> Some (offset + start)
                | Some (valueOptions, skip) \<Rightarrow>
                    (let next = optionCommand args valueOptions + skip in
                     executableIndex (drop next args) (offset + start + 1 + next))))"
  by pat_completeness auto
termination
  by (relation "measure (\<lambda>(words, offset). weight words)") (auto dest!: weight_command intro: le_less_trans [OF weight_drop])

declare executableIndex.simps [simp del]

definition is_name :: "js \<Rightarrow> bool" where
  "is_name s \<longleftrightarrow> s \<noteq> [] \<and> is_name_start (hd s) \<and> list_all is_word_char s"

definition simple_assignment :: "js \<Rightarrow> (js \<times> js) option" where
  "simple_assignment word =
     (let name = takeWhile (\<lambda>c. c \<noteq> 61) word; val = drop (length name + 1) word in
      if 61 \<in> set word \<and> is_name name \<and> val \<noteq> [] \<and> list_all (\<lambda>c. is_word_char c \<or> c \<in> set (lit ''./-'')) val
      then Some (name, val) else None)"

definition variable_reference :: "js \<Rightarrow> js option" where
  "variable_reference word =
     (if has_prefix (lit ''${'') word \<and> last word = 125 \<and> is_name (butlast (drop 2 word)) then Some (butlast (drop 2 word))
      else if has_prefix (lit ''$'') word \<and> is_name (drop 1 word) then Some (drop 1 word)
      else None)"

fun variable_loop :: "(js \<times> js) list \<Rightarrow> js list list \<Rightarrow> js list" where
  "variable_loop values [] = []"
| "variable_loop values (words # commands) =
     (if commandStart words \<ge> length words then
        variable_loop (fold (\<lambda>word vs. case simple_assignment word of None \<Rightarrow> vs | Some (k, v) \<Rightarrow> AList.update k v vs) words values) commands
      else (case executableIndex words 0 of
              None \<Rightarrow> []
            | Some index \<Rightarrow>
                (case Option.bind (variable_reference (words ! index)) (map_of values) of
                   None \<Rightarrow> []
                 | Some v \<Rightarrow> [js_join (lit '' '') (take index words @ v # drop (index + 1) words)]))
           @ variable_loop values commands)"

definition simpleVariablePayloads :: "js \<Rightarrow> js list policy_result" where
  "simpleVariablePayloads input = and_then (scanShell input) (\<lambda>sc. Inr (variable_loop [] (sc_commands sc)))"

fun shell_c_payload :: "js list \<Rightarrow> js list" where
  "shell_c_payload [] = []"
| "shell_c_payload (arg # args) =
     (if arg = lit ''--'' \<or> \<not> has_prefix (lit ''-'') arg then []
      else if arg \<in> set shell_value_options then (case args of [] \<Rightarrow> [] | _ # args' \<Rightarrow> shell_c_payload args')
      else if dash_c arg then (case args of [] \<Rightarrow> [] | p # _ \<Rightarrow> [p])
      else shell_c_payload args)"

definition xargs_wrapper :: "(js \<times> js list \<times> nat) list" where
  "xargs_wrapper =
     [(lit ''xargs'', map lit [''-a'', ''--arg-file'', ''-d'', ''--delimiter'', ''-E'', ''--eof'', ''-I'', ''--replace'', ''-L'',
        ''--max-lines'', ''-n'', ''--max-args'', ''-P'', ''--max-procs'', ''-s'', ''--max-chars''], 0)]"

function segmentShellPayloads :: "js list \<Rightarrow> js list" where
  "segmentShellPayloads words =
     (case drop (commandStart words) words of
        [] \<Rightarrow> []
      | executableWord # args \<Rightarrow>
          if executable_of executableWord \<in> set shells then shell_c_payload args
          else if executable_of executableWord = lit ''eval'' then (if args \<noteq> [] then [js_join (lit '' '') args] else [])
          else if executable_of executableWord = lit ''env'' then
            (if split_args args \<noteq> [] then
               (case splitStringPayload (split_args args) of
                  (None, _) \<Rightarrow> []
                | (Some v, rest) \<Rightarrow> [js_join (lit '' '') (v # rest)])
             else segmentShellPayloads (dropWhile is_assignment (option_tail env_options args)))
          else if executable_of executableWord = lit ''command'' then
            (case command_tail args of None \<Rightarrow> [] | Some ws \<Rightarrow> segmentShellPayloads ws)
          else if executable_of executableWord = lit ''coproc'' then segmentShellPayloads args
          else (case wrapped (common_wrappers @ xargs_wrapper) (executable_of executableWord) args of
                  Some ws \<Rightarrow> segmentShellPayloads ws
                | None \<Rightarrow> []))"
  by pat_completeness auto
termination
  by (relation "measure weight")
    (auto dest!: weight_command weight_wrapped weight_command_tail intro: le_less_trans [OF weight_env_tail])

declare segmentShellPayloads.simps [simp del]

subsection \<open>SQL clients\<close>

record sql_client =
  sq_options :: "js list"
  sq_positionalsAfter :: "nat option"

definition SQL_CLIENT_SPECS :: "(js \<times> sql_client) list" where
  "SQL_CLIENT_SPECS =
     map (\<lambda>(name, options, after). (lit name, \<lparr>sq_options = map lit options, sq_positionalsAfter = after\<rparr>))
       [(''psql'', [''-c'', ''--command''], None),
        (''pgcli'', [''-c'', ''--command''], None),
        (''mysql'', [''-e'', ''--execute''], None),
        (''mariadb'', [''-e'', ''--execute''], None),
        (''mycli'', [''-e'', ''--execute''], None),
        (''sqlite3'', [''-cmd''], Some 1),
        (''duckdb'', [''-c'', ''-s'', ''--command''], Some 1),
        (''clickhouse-client'', [''-q'', ''--query''], None)]"

text \<open>
  The specification table is an object literal, so the names of \<open>Object.prototype\<close> are found in it as well: of those only
  \<open>constructor\<close> and \<open>__proto__\<close> are written in lower case. What they give is truthy and has no \<open>options\<close>.
  Lower-casing turns only the letters A to Z and the Kelvin sign into ASCII letters; other characters never make a key.
\<close>

datatype sql_spec = Spec sql_client | PrototypeMember

definition lower_key_char :: "code \<Rightarrow> code" where
  "lower_key_char c = (if is_upper c then c + 32 else if c = 8490 then 107 else c)"

definition lookup_spec :: "js \<Rightarrow> sql_spec option" where
  "lookup_spec executable =
     (if executable = lit ''constructor'' \<or> executable = lit ''__proto__'' then Some PrototypeMember
      else map_option Spec (map_of SQL_CLIENT_SPECS executable))"

definition sqlClientSpec :: "js list \<Rightarrow> (sql_spec \<times> js list) option" where
  "sqlClientSpec words =
     (case drop (commandStart words) words of
        [] \<Rightarrow> None
      | executableWord # args \<Rightarrow>
          map_option (\<lambda>spec. (spec, args)) (lookup_spec (map lower_key_char (executable_of executableWord))))"

datatype option_hit = NoHit | TakesNext | Inline js

fun match_option :: "js list \<Rightarrow> js \<Rightarrow> option_hit" where
  "match_option [] arg = NoHit"
| "match_option (name # names) arg =
     (if arg = name then TakesNext
      else if has_prefix (name @ lit ''='') arg then Inline (drop (length name + 1) arg)
      else if length name = 2 \<and> \<not> has_prefix (lit ''--'') arg \<and> has_prefix name arg \<and> length arg > 2 then Inline (drop 2 arg)
      else match_option names arg)"

fun sql_args :: "js list \<Rightarrow> js list \<Rightarrow> js list \<times> js list" where
  "sql_args options [] = ([], [])"
| "sql_args options (arg # args) =
     (case match_option options arg of
        TakesNext \<Rightarrow>
          (case args of [] \<Rightarrow> ([], [])
           | p # args' \<Rightarrow> let (payloads, positionals) = sql_args options args' in (p # payloads, positionals))
      | Inline p \<Rightarrow> let (payloads, positionals) = sql_args options args in (p # payloads, positionals)
      | NoHit \<Rightarrow>
          let (payloads, positionals) = sql_args options args in
          (payloads, if has_prefix (lit ''-'') arg then positionals else arg # positionals))"

definition sqlClientPayloads :: "js list \<Rightarrow> js list policy_result" where
  "sqlClientPayloads words =
     (case sqlClientSpec words of
        None \<Rightarrow> Inr []
      | Some (PrototypeMember, args) \<Rightarrow> if args = [] then Inr [] else Inl TypeError
      | Some (Spec spec, args) \<Rightarrow>
          let (payloads, positionals) = sql_args (sq_options spec) args in
          Inr (payloads @ (case sq_positionalsAfter spec of None \<Rightarrow> [] | Some n \<Rightarrow> drop n positionals)))"

definition pipedSqlPayloads :: "js \<Rightarrow> js list policy_result" where
  "pipedSqlPayloads input = piped_payloads (\<lambda>consumer. Inr (sqlClientSpec consumer \<noteq> None)) input"

definition executedShellPayloads :: "js \<Rightarrow> js list policy_result" where
  "executedShellPayloads input =
     and_then (scanShell input) (\<lambda>sc.
     and_then (map_result sqlClientPayloads (sc_commands sc)) (\<lambda>sql.
     and_then (pipedShellPayloads input) (\<lambda>piped.
     and_then (pipedSqlPayloads input) (\<lambda>pipedSql.
     and_then (hereStringShellPayloads input) (\<lambda>here.
     and_then (simpleVariablePayloads input) (\<lambda>variables.
     Inr (sc_nested sc @ concat (map segmentShellPayloads (sc_commands sc)) @ concat sql @ piped @ pipedSql @ here @ variables)))))))"

subsection \<open>Here documents\<close>

definition rx_substitutions :: rx where
  "rx_substitutions =
     Alt (rx_seq [chr 36, chr 40, Star (any_but [41]), chr 41]) (rx_seq [chr 96, Star (any_but [96]), chr 96])"

definition substitutions :: "js \<Rightarrow> js list" where
  "substitutions s = map fst (rx_match_all rx_substitutions s)"

definition rx_heredoc :: rx where
  "rx_heredoc =
     rx_seq [Bol, Group 1 (Star (any_but [10])), chr 60, chr 60, opt (chr 45), Star (Chars is_space),
       Group 2 (opt (Chars (\<lambda>c. c = 34 \<or> c = 39))), Group 3 (Seq (Chars is_name_start) (Star (Chars is_word_char))), Backref 2,
       Group 4 (Star (any_but [10])), chr 10, Group 5 (LazyStar (Chars (\<lambda>_. True))),
       Bol, Star (Chars is_space), Backref 3, Star (Chars is_space), Eol]"

definition rx_command_position :: rx where
  "rx_command_position = Alt Start (Seq (Chars (\<lambda>c. c \<in> set (lit ''|;&''))) (Star (Chars is_space)))"

definition rx_path :: rx where
  "rx_path = opt (Seq (Star (Chars (\<lambda>c. \<not> is_space c))) (chr 47))"

definition rx_shell_call :: rx where
  "rx_shell_call =
     rx_seq [rx_command_position, rx_path, opt (rx_alt (map (\<lambda>s. text_of (lit s)) [''ba'', ''da'', ''k'', ''z''])), text_of (lit ''sh''),
       Group 1 (opt (Seq (plus1 (Chars is_space)) (Star (Chars (\<lambda>c. c \<notin> set (lit ''|;&''))))))]"

definition rx_runs_c :: rx where
  "rx_runs_c =
     rx_seq [Alt Start (Chars is_space), chr 45, Star (Chars (\<lambda>c. c \<noteq> 45 \<and> \<not> is_space c)), chr 99, Alt (Chars is_space) Finish]"

definition heredocRunsShell :: "js \<Rightarrow> bool" where
  "heredocRunsShell commandLine \<longleftrightarrow> list_ex (\<lambda>(m, st). \<not> rx_test rx_runs_c (group_of 1 st)) (rx_match_all rx_shell_call commandLine)"

definition rx_interpreter :: rx where
  "rx_interpreter =
     rx_seq [rx_command_position, rx_path,
       rx_alt (map (\<lambda>s. text_of (lit s)) [''psql'', ''mysql'', ''mariadb''] @
         [Seq (text_of (lit ''sqlite'')) (opt (chr 51)), text_of (lit ''sqlcmd''),
          rx_seq [text_of (lit ''python''), opt (Chars digit_code), opt (Seq (chr 46) (plus1 (Chars digit_code)))]] @
         map (\<lambda>s. text_of (lit s)) [''node'', ''perl'', ''ruby'']),
       WordBoundary]"

definition heredocRunsInterpreter :: "js \<Rightarrow> bool" where
  "heredocRunsInterpreter commandLine \<longleftrightarrow> heredocRunsShell commandLine \<or> rx_test rx_interpreter commandLine"

definition stripWrittenHeredocs :: "js \<Rightarrow> js" where
  "stripWrittenHeredocs command =
     rx_replace_all rx_heredoc
       (\<lambda>full st. if heredocRunsInterpreter (group_of 1 st @ group_of 4 st) then full
                  else if group_of 2 st \<noteq> [] then []
                  else js_join (lit '' '') (substitutions (group_of 5 st))) command"

subsection \<open>The text the rules see\<close>

definition rx_double_quoted :: rx where
  "rx_double_quoted = rx_seq [chr 34, Star (Alt (any_but [34, 92]) (Seq (chr 92) dot)), chr 34]"

definition rx_ansi_quoted :: rx where
  "rx_ansi_quoted = rx_seq [chr 36, chr 39, Group 1 (Star (Alt (any_but [39, 92]) (Seq (chr 92) dot))), chr 39]"

definition rx_single_quoted :: rx where
  "rx_single_quoted = rx_seq [chr 39, Star (any_but [39]), chr 39]"

definition rx_escaped_bare :: rx where
  "rx_escaped_bare = Seq (chr 92) (Group 1 (Chars bare_char))"

definition inner_text :: "js \<Rightarrow> js" where
  "inner_text m = butlast (tl m)"

definition unquoted_or :: "js \<Rightarrow> js \<Rightarrow> js" where
  "unquoted_or fallback inner = (case unquoteBareWord inner of None \<Rightarrow> fallback | Some s \<Rightarrow> s)"

definition scan_base :: "js \<Rightarrow> js policy_result" where
  "scan_base stripped =
     (let s = rx_replace_all rx_double_quoted
                (\<lambda>m st. if substitutions m \<noteq> [] then js_join (lit '' '') (substitutions m) else unquoted_or [34, 34] (inner_text m)) stripped in
      and_then (rx_replace_all_result rx_ansi_quoted
                 (\<lambda>m st. and_then (decodeAnsiC (group_of 1 st)) (\<lambda>d. Inr (unquoted_or [39, 39] d))) s) (\<lambda>s.
      Inr (rx_replace_all rx_escaped_bare (\<lambda>m st. group_of 1 st)
            (rx_replace_all rx_single_quoted (\<lambda>m st. unquoted_or [39, 39] (inner_text m)) s))))"

text \<open>\<open>levels\<close> is how much deeper payloads are still unpacked: \<open>8 - depth\<close>.\<close>

primrec scannableCommandAtDepth :: "nat \<Rightarrow> js \<Rightarrow> js policy_result" where
  "scannableCommandAtDepth 0 command = scan_base (stripWrittenHeredocs command)"
| "scannableCommandAtDepth (Suc levels) command =
     (let stripped = stripWrittenHeredocs command in
      and_then (scan_base stripped) (\<lambda>base.
      and_then (executedShellPayloads stripped) (\<lambda>executed.
      and_then (map_result (scannableCommandAtDepth levels) executed) (\<lambda>payloads.
      Inr (js_join [10] (base # payloads))))))"

definition scannableCommand :: "js \<Rightarrow> js policy_result" where
  "scannableCommand command = scannableCommandAtDepth 8 command"

subsection \<open>Rules\<close>

datatype command_decision = Allow | Deny | RequireApproval

record command_rule =
  cr_pattern :: js
  cr_decision :: command_decision
  cr_reason :: "js option"

datatype policy_mode = Denylist | Allowlist

record command_policy =
  cp_mode :: policy_mode
  cp_rules :: "command_rule list"

record command_evaluation =
  ce_decision :: command_decision
  ce_reason :: "js option"
  ce_matched :: "js option"
  ce_approvalKey :: "js option"

definition composePolicy :: "command_policy \<Rightarrow> command_policy option \<Rightarrow> command_policy" where
  "composePolicy orgFloor scope =
     (case scope of
        None \<Rightarrow> orgFloor
      | Some sc \<Rightarrow> \<lparr>cp_mode = (if cp_mode orgFloor = Allowlist then Allowlist else cp_mode sc), cp_rules = cp_rules orgFloor @ cp_rules sc\<rparr>)"

text \<open>The check of a pattern before it is compiled (\<^verbatim>\<open>src/src/util/safe-regex.ts\<close>). \<open>groups\<close> is the stack of open groups, its top
  first: whether the group contains a quantifier and whether it contains an alternative.\<close>

datatype regex_refusal = BadLength | Lookaround | AmbiguousRepetition | SyntaxError

definition rx_unsupported :: rx where
  "rx_unsupported =
     rx_alt [Seq (chr 92) (Chars (\<lambda>c. 49 \<le> c \<and> c \<le> 57)), text_of (92 # lit ''k<''),
       rx_seq [chr 40, chr 63, Chars (\<lambda>c. c \<in> set (lit ''=!<''))]]"

record lint_state =
  ln_groups :: "(bool \<times> bool) list"
  ln_escaped :: bool
  ln_inClass :: bool
  ln_previousQuantifier :: bool
  ln_closed :: "(bool \<times> bool) option"

definition settled :: "lint_state \<Rightarrow> lint_state" where
  "settled s = s\<lparr>ln_previousQuantifier := False, ln_closed := None\<rparr>"

definition on_top :: "(bool \<times> bool \<Rightarrow> bool \<times> bool) \<Rightarrow> lint_state \<Rightarrow> lint_state" where
  "on_top f s = s\<lparr>ln_groups := (case ln_groups s of [] \<Rightarrow> [] | g # gs \<Rightarrow> f g # gs)\<rparr>"

definition lint_step :: "code option \<Rightarrow> code \<Rightarrow> lint_state \<Rightarrow> lint_state option" where
  "lint_step previous ch s =
     (if ln_escaped s then Some (settled (s\<lparr>ln_escaped := False\<rparr>))
      else if ch = 92 then Some (s\<lparr>ln_escaped := True\<rparr>)
      else if ch = 91 then Some (settled (s\<lparr>ln_inClass := True\<rparr>))
      else if ch = 93 \<and> ln_inClass s then Some (s\<lparr>ln_inClass := False\<rparr>)
      else if ln_inClass s then Some s
      else if ch = 40 then Some (settled (s\<lparr>ln_groups := (False, False) # ln_groups s\<rparr>))
      else if ch = 124 then Some (settled (on_top (\<lambda>(q, a). (q, True)) s))
      else if ch = 41 then
        Some (s\<lparr>ln_closed := Some (case ln_groups s of [] \<Rightarrow> (False, False) | g # _ \<Rightarrow> g),
                ln_groups := tl (ln_groups s), ln_previousQuantifier := False\<rparr>)
      else if ch = 42 \<or> ch = 43 \<or> (ch = 63 \<and> previous \<noteq> Some 40) \<or> ch = 123 then
        (if ln_previousQuantifier s \<or> (case ln_closed s of None \<Rightarrow> False | Some (q, a) \<Rightarrow> q \<or> a) then None
         else Some ((on_top (\<lambda>(q, a). (True, a)) s)\<lparr>ln_previousQuantifier := True, ln_closed := None\<rparr>))
      else Some (settled s))"

fun lint_loop :: "code option \<Rightarrow> js \<Rightarrow> lint_state \<Rightarrow> bool" where
  "lint_loop previous [] s = True"
| "lint_loop previous (ch # cs) s =
     (case lint_step previous ch s of None \<Rightarrow> False | Some s' \<Rightarrow> lint_loop (Some ch) cs s')"

definition compileSafeRegex :: "(js \<Rightarrow> (js \<Rightarrow> js option) option) \<Rightarrow> js \<Rightarrow> regex_refusal + (js \<Rightarrow> js option)" where
  "compileSafeRegex regexp pattern =
     (if pattern = [] \<or> length pattern > 256 then Inl BadLength
      else if rx_test rx_unsupported pattern then Inl Lookaround
      else if \<not> lint_loop None pattern
                 \<lparr>ln_groups = [], ln_escaped = False, ln_inClass = False, ln_previousQuantifier = False, ln_closed = None\<rparr>
      then Inl AmbiguousRepetition
      else case regexp pattern of None \<Rightarrow> Inl SyntaxError | Some re \<Rightarrow> Inr re)"

fun firstMatch :: "(js \<Rightarrow> (js \<Rightarrow> js option) option) \<Rightarrow> js \<Rightarrow> command_rule list \<Rightarrow> command_evaluation option" where
  "firstMatch regexp scannable [] = None"
| "firstMatch regexp scannable (rule # rules) =
     (case compileSafeRegex regexp (cr_pattern rule) of
        Inl e \<Rightarrow> firstMatch regexp scannable rules
      | Inr re \<Rightarrow>
          (case re scannable of
             Some hit \<Rightarrow>
               Some \<lparr>ce_decision = cr_decision rule,
                     ce_reason = (if cr_reason rule = Some [] then None else cr_reason rule),
                     ce_matched = Some hit, ce_approvalKey = Some (cr_pattern rule)\<rparr>
           | None \<Rightarrow> firstMatch regexp scannable rules))"

definition unmatched :: "command_decision \<Rightarrow> js option \<Rightarrow> command_evaluation" where
  "unmatched decision reason = \<lparr>ce_decision = decision, ce_reason = reason, ce_matched = None, ce_approvalKey = None\<rparr>"

definition evaluateCommand ::
  "(js \<Rightarrow> (js \<Rightarrow> js option) option) \<Rightarrow> js \<Rightarrow> command_policy \<Rightarrow> command_evaluation policy_result" where
  "evaluateCommand regexp command policy =
     and_then (scannableCommand command) (\<lambda>scannable.
       Inr (case firstMatch regexp scannable (cp_rules policy) of
              Some e \<Rightarrow> e
            | None \<Rightarrow> if cp_mode policy = Allowlist then unmatched Deny (Some (lit ''not in allowlist'')) else unmatched Allow None))"

definition evaluateCommandWithLayer ::
  "(js \<Rightarrow> (js \<Rightarrow> js option) option) \<Rightarrow> js \<Rightarrow> command_policy \<Rightarrow> command_rule list \<Rightarrow> command_evaluation policy_result" where
  "evaluateCommandWithLayer regexp command policy layerRules =
     and_then (scannableCommand command) (\<lambda>scannable.
       Inr (case firstMatch regexp scannable (cp_rules policy) of
              Some e \<Rightarrow> e
            | None \<Rightarrow>
                if cp_mode policy = Allowlist then unmatched Deny (Some (lit ''not in allowlist''))
                else (case firstMatch regexp scannable layerRules of Some e \<Rightarrow> e | None \<Rightarrow> unmatched Allow None)))"

subsection \<open>Reading a policy\<close>

datatype policy_parse_error =
    NotAnObject | BadMode | RulesNotArray | RuleNotObject nat | BadPattern nat | PatternRefused nat regex_refusal
  | BadDecision nat | BadReason nat

fun json_object :: "json \<Rightarrow> bool" where
  "json_object (JObj kvs) = True"
| "json_object (JArr vs) = True"
| "json_object _ = False"

definition parse_decision :: "json option \<Rightarrow> command_decision option" where
  "parse_decision v =
     (if v = Some (JStr ''allow'') then Some Allow else if v = Some (JStr ''deny'') then Some Deny
      else if v = Some (JStr ''require_approval'') then Some RequireApproval else None)"

definition parse_mode :: "json option \<Rightarrow> policy_mode option" where
  "parse_mode v =
     (if v = Some (JStr ''denylist'') then Some Denylist else if v = Some (JStr ''allowlist'') then Some Allowlist else None)"

definition parse_rule ::
  "(js \<Rightarrow> (js \<Rightarrow> js option) option) \<Rightarrow> nat \<times> json \<Rightarrow> policy_parse_error + command_rule" where
  "parse_rule regexp entry =
     (let (i, raw) = entry in
      if \<not> json_object raw then Inl (RuleNotObject i)
      else case json_field ''pattern'' raw of
        Some (JStr pattern) \<Rightarrow>
          if pattern = [] then Inl (BadPattern i)
          else (case compileSafeRegex regexp (lit pattern) of
            Inl e \<Rightarrow> Inl (PatternRefused i e)
          | Inr _ \<Rightarrow>
              (case parse_decision (json_field ''decision'' raw) of
                 None \<Rightarrow> Inl (BadDecision i)
               | Some d \<Rightarrow>
                   (case json_field ''reason'' raw of
                      None \<Rightarrow> Inr \<lparr>cr_pattern = lit pattern, cr_decision = d, cr_reason = None\<rparr>
                    | Some (JStr reason) \<Rightarrow> Inr \<lparr>cr_pattern = lit pattern, cr_decision = d, cr_reason = Some (lit reason)\<rparr>
                    | Some _ \<Rightarrow> Inl (BadReason i))))
      | _ \<Rightarrow> Inl (BadPattern i))"

definition parseCommandPolicy :: "(js \<Rightarrow> (js \<Rightarrow> js option) option) \<Rightarrow> json \<Rightarrow> policy_parse_error + command_policy" where
  "parseCommandPolicy regexp input =
     (case input of
        JObj _ \<Rightarrow>
          (case parse_mode (json_field ''mode'' input) of
             None \<Rightarrow> Inl BadMode
           | Some mode \<Rightarrow>
               (case json_field ''rules'' input of
                  Some (JArr raws) \<Rightarrow>
                    and_then (map_result (parse_rule regexp) (enumerate 0 raws)) (\<lambda>rules. Inr \<lparr>cp_mode = mode, cp_rules = rules\<rparr>)
                | _ \<Rightarrow> Inl RulesNotArray))
      | _ \<Rightarrow> Inl NotAnObject)"

definition ORG_FLOOR_RULES :: "command_rule list" where
  "ORG_FLOOR_RULES =
     map (\<lambda>(pattern, d, reason). \<lparr>cr_pattern = concat (map (\<lambda>c. if c = CHR ''~'' then [92] else [of_char c]) pattern), cr_decision = d, cr_reason = Some (lit reason)\<rparr>)
       [(''~brm~b[^~n]*(?:-[a-zA-Z]*r|--recursive)'', RequireApproval, ''recursive delete''),
        (''~bgit~s+push~b.*(?:--force~b|(?:^|~s)-[a-zA-Z]*f~b)'', RequireApproval, ''force push''),
        (''~b(drop|truncate)~s+table~b'', RequireApproval, ''destructive SQL''),
        (''~bmkfs~b|:~(~)~s*~{'', Deny, ''destructive / fork bomb''),
        (''~bcurl~b.*~|~s*(sh|bash)~b'', RequireApproval, ''pipe-to-shell'')]"

definition defaultOrgPolicy :: command_policy where
  "defaultOrgPolicy = \<lparr>cp_mode = Denylist, cp_rules = ORG_FLOOR_RULES\<rparr>"

end
