(* ===== verification/Command_Rules.thy ===== *)
theory Command_Rules
  imports Command_Policy
begin

text \<open>
  What the command policy guarantees: the organisation's floor is final, a policy that was read has no rule
  that is skipped, and a command that is handed to another shell stays visible to the rules; and two
  commands on which it fails.
\<close>

subsection \<open>The first matching rule\<close>

lemma firstMatch_append:
  "firstMatch regexp s (xs @ ys) = (case firstMatch regexp s xs of Some e \<Rightarrow> Some e | None \<Rightarrow> firstMatch regexp s ys)"
  by (induction xs) (auto split: sum.splits option.splits)

lemma firstMatch_matched: "firstMatch regexp s rules = Some e \<Longrightarrow> ce_matched e \<noteq> None"
  by (induction rules) (auto split: sum.splits option.splits)

lemma evaluateCommand_matched:
  "evaluateCommand regexp c p = Inr e \<Longrightarrow> ce_matched e \<noteq> None \<Longrightarrow>
   \<exists>s. scannableCommand c = Inr s \<and> firstMatch regexp s (cp_rules p) = Some e"
  by (auto simp: evaluateCommand_def and_then_Inr unmatched_def split: option.splits if_splits)

text \<open>C20: The organisation's floor is final. A decision a rule of the organisation makes is made as well, with the same reason
  and approval key, under every policy a scope composes with it and under every further layer of rules;
  an organisation in allowlist mode stays in it, so that a command no rule matches is denied; and a layer of
  rules is consulted exactly as if it had been composed with the policy, except that it cannot allow what
  an allowlist leaves out.\<close>

theorem org_floor_final:
  assumes "evaluateCommand regexp c org = Inr e"
  shows "(ce_matched e \<noteq> None \<longrightarrow>
      evaluateCommand regexp c (composePolicy org scope) = Inr e \<and>
      evaluateCommandWithLayer regexp c (composePolicy org scope) layer = Inr e) \<and>
    (cp_mode org = Allowlist \<longrightarrow> cp_mode (composePolicy org scope) = Allowlist \<and>
      (\<forall>e'. evaluateCommandWithLayer regexp c (composePolicy org scope) layer = Inr e' \<and> ce_matched e' = None \<longrightarrow> ce_decision e' = Deny)) \<and>
    evaluateCommandWithLayer regexp c org layer =
      (if cp_mode org = Allowlist then evaluateCommand regexp c org
       else evaluateCommand regexp c (composePolicy org (Some \<lparr>cp_mode = Denylist, cp_rules = layer\<rparr>)))"
proof (intro conjI impI)
  assume "ce_matched e \<noteq> None"
  then obtain s where s: "scannableCommand c = Inr s" "firstMatch regexp s (cp_rules org) = Some e"
    using evaluateCommand_matched [OF assms] by blast
  then have "firstMatch regexp s (cp_rules (composePolicy org scope)) = Some e"
    by (auto simp: composePolicy_def firstMatch_append split: option.splits)
  with s(1) show "evaluateCommand regexp c (composePolicy org scope) = Inr e"
    "evaluateCommandWithLayer regexp c (composePolicy org scope) layer = Inr e"
    by (simp_all add: evaluateCommand_def evaluateCommandWithLayer_def)
next
  assume "cp_mode org = Allowlist"
  then show allow: "cp_mode (composePolicy org scope) = Allowlist" by (simp add: composePolicy_def split: option.splits)
  show "\<forall>e'. evaluateCommandWithLayer regexp c (composePolicy org scope) layer = Inr e' \<and> ce_matched e' = None \<longrightarrow> ce_decision e' = Deny"
    using allow by (auto simp: evaluateCommandWithLayer_def and_then_Inr unmatched_def dest: firstMatch_matched split: option.splits)
next
  show "evaluateCommandWithLayer regexp c org layer =
      (if cp_mode org = Allowlist then evaluateCommand regexp c org
       else evaluateCommand regexp c (composePolicy org (Some \<lparr>cp_mode = Denylist, cp_rules = layer\<rparr>)))"
    by (cases "scannableCommand c")
      (auto simp: evaluateCommand_def evaluateCommandWithLayer_def composePolicy_def firstMatch_append split: option.splits)
qed

text \<open>C23: A policy accepted by \<open>parseCommandPolicy\<close> has no dead rules: every pattern of it compiles, so that evaluation skips
  none, and the rule that decides is the first one whose expression finds a match in the scanned command.\<close>

theorem parsed_policy_has_no_dead_rules:
  assumes "parseCommandPolicy regexp input = Inr policy"
  shows "(\<forall>r \<in> set (cp_rules policy). \<exists>re. compileSafeRegex regexp (cr_pattern r) = Inr re \<and> regexp (cr_pattern r) = Some re) \<and>
    map_option ce_approvalKey (firstMatch regexp s (cp_rules policy)) =
      map_option (\<lambda>r. Some (cr_pattern r)) (List.find (\<lambda>r. the (regexp (cr_pattern r)) s \<noteq> None) (cp_rules policy))"
proof -
  have rule: "\<exists>re. compileSafeRegex regexp (cr_pattern r) = Inr re \<and> regexp (cr_pattern r) = Some re"
    if "parse_rule regexp x = Inr r" for x r
    using that by (auto simp: parse_rule_def compileSafeRegex_def split: prod.splits if_splits option.splits json.splits sum.splits)
  obtain mode raws where p: "map_result (parse_rule regexp) (enumerate 0 raws) = Inr (cp_rules policy)"
    using assms by (auto simp: parseCommandPolicy_def and_then_Inr split: json.splits option.splits)
  have all: "\<forall>r \<in> set (cp_rules policy). \<exists>re. compileSafeRegex regexp (cr_pattern r) = Inr re \<and> regexp (cr_pattern r) = Some re"
  proof
    fix r assume "r \<in> set (cp_rules policy)"
    then obtain x where "parse_rule regexp x = Inr r"
      using p unfolding map_result_Inr list_all2_conv_all_nth in_set_conv_nth by metis
    then show "\<exists>re. compileSafeRegex regexp (cr_pattern r) = Inr re \<and> regexp (cr_pattern r) = Some re" by (rule rule)
  qed
  have "map_option ce_approvalKey (firstMatch regexp s rs) =
      map_option (\<lambda>r. Some (cr_pattern r)) (List.find (\<lambda>r. the (regexp (cr_pattern r)) s \<noteq> None) rs)"
    if "\<forall>r \<in> set rs. \<exists>re. compileSafeRegex regexp (cr_pattern r) = Inr re \<and> regexp (cr_pattern r) = Some re" for rs
    using that by (induction rs) (auto split: option.splits)
  with all show ?thesis by blast
qed

subsection \<open>Payloads stay visible\<close>

lemma rx_seq_needs:
  assumes "c \<notin> set (rs_rest s)"
  shows "rx_matches (Seq a (Seq (chr c) r)) s = []"
proof -
  have "rx_matches (Seq (chr c) r) q = []" if "q \<in> set (rx_matches a s)" for q
    using rx_matches_advances [OF that] assms by (cases "rs_rest q") (auto simp: chr_def advances_def)
  then show ?thesis by (simp only: rx_matches.simps(3) concat_eq_Nil_conv set_map) auto
qed

lemma no_heredoc_here: "60 \<notin> set s \<Longrightarrow> rx_at rx_heredoc b s = None"
proof -
  assume no: "60 \<notin> set s"
  have "\<exists>r. rx_heredoc = Seq Bol (Seq (Group 1 (Star (any_but [10]))) (Seq (chr 60) r))"
    by (simp add: rx_heredoc_def)
  then obtain r where r: "rx_heredoc = Seq Bol (Seq (Group 1 (Star (any_but [10]))) (Seq (chr 60) r))" ..
  have "rx_matches rx_heredoc \<lparr>rs_before = b, rs_rest = s, rs_groups = []\<rparr> = []"
    unfolding r using rx_seq_needs [of 60 "\<lparr>rs_before = b, rs_rest = s, rs_groups = []\<rparr>" "Group 1 (Star (any_but [10]))" r] no
    by (simp only: rx_matches.simps(3,9)) simp
  then show ?thesis by (simp add: rx_at_def)
qed

lemma stripWrittenHeredocs_id: "60 \<notin> set s \<Longrightarrow> stripWrittenHeredocs s = s"
proof -
  assume no: "60 \<notin> set s"
  have "rx_pieces rx_heredoc b s = map Inl s" if "60 \<notin> set s" for b s
    using that by (induction s arbitrary: b) (auto simp: no_heredoc_here)
  then show ?thesis using no by (simp add: stripWrittenHeredocs_def rx_replace_all_def comp_def)
qed

lemma js_join_split:
  assumes "t \<in> set ls"
  shows "\<exists>a b. js_join [10] ls = a @ t @ b \<and> (a = [] \<or> last a = 10) \<and> (b = [] \<or> hd b = 10)"
  using assms
proof (induction "[10] :: js" ls rule: js_join.induct)
  case (2 s)
  then show ?case by (intro exI [of _ "[]"]) simp
next
  case (3 s u ss)
  show ?case
  proof (cases "t = s")
    case True
    then show ?thesis by (intro exI [of _ "[]"] exI [of _ "10 # js_join [10] (u # ss)"]) simp
  next
    case False
    then obtain a b where ab: "js_join [10] (u # ss) = a @ t @ b" "a = [] \<or> last a = 10" "b = [] \<or> hd b = 10" using 3 by auto
    then show ?thesis by (intro exI [of _ "s @ 10 # a"] exI [of _ b]) auto
  qed
qed simp

lemma js_join_set: "set (js_join sep ls) \<subseteq> set sep \<union> \<Union> (set ` set ls)"
  by (induction sep ls rule: js_join.induct) auto

lemma join_quoted_free: "\<forall>w \<in> set ws. c \<notin> set w \<Longrightarrow> c \<noteq> 32 \<Longrightarrow> c \<noteq> 39 \<Longrightarrow> c \<notin> set (js_join (lit '' '') (map quote_word ws))"
  using js_join_set [of "lit '' ''" "map quote_word ws"] by (fastforce simp: quote_word_def)

text \<open>An expression is local to lines when a match in some lines of a text is not lost by the lines around them.\<close>

definition line_local :: "(js \<Rightarrow> js option) \<Rightarrow> bool" where
  "line_local re \<longleftrightarrow>
     (\<forall>a t b. (a = [] \<or> last a = 10) \<and> (b = [] \<or> hd b = 10) \<and> re t \<noteq> None \<longrightarrow> re (a @ t @ b) \<noteq> None)"

lemma firstMatch_lines:
  assumes "\<And>p re. regexp p = Some re \<Longrightarrow> line_local re" and "t \<in> set ls" and "firstMatch regexp t rules \<noteq> None"
  shows "firstMatch regexp (js_join [10] ls) rules \<noteq> None"
proof -
  obtain a b where ab: "js_join [10] ls = a @ t @ b" "a = [] \<or> last a = 10" "b = [] \<or> hd b = 10" using js_join_split [OF assms(2)] by blast
  have re: "line_local re" if "compileSafeRegex regexp p = Inr re" for p re
    using that assms(1) by (auto simp: compileSafeRegex_def split: if_splits option.splits)
  show ?thesis
    using assms(3)
  proof (induction rules)
    case (Cons r rules)
    show ?case
    proof (cases "compileSafeRegex regexp (cr_pattern r)")
      case (Inr f)
      have "f (js_join [10] ls) \<noteq> None" if "f t \<noteq> None"
        using re [OF Inr] ab that unfolding line_local_def by metis
      then show ?thesis using Cons Inr by (auto split: option.splits)
    qed (use Cons in simp)
  qed simp
qed

lemma executed_mem:
  assumes "executedShellPayloads s = Inr ps" and "scanShell s = Inr sc" and "ws \<in> set (sc_commands sc)" and "p \<in> set (segmentShellPayloads ws)"
  shows "p \<in> set ps"
  using assms by (auto simp: executedShellPayloads_def and_then_Inr)


definition contains :: "js \<Rightarrow> js \<Rightarrow> bool" where
  "contains p s \<longleftrightarrow> list_ex (\<lambda>n. has_prefix p (drop n s)) [0 ..< Suc (length s)]"

definition literal_regexp :: "js \<Rightarrow> (js \<Rightarrow> js option) option" where
  "literal_regexp p = Some (\<lambda>s. if contains p s then Some p else None)"

lemma contains_iff: "contains p s \<longleftrightarrow> (\<exists>u v. s = u @ p @ v)"
proof
  assume "contains p s"
  then obtain n where "take (length p) (drop n s) = p" by (auto simp: contains_def has_prefix_def list_ex_iff)
  then have "s = take n s @ p @ drop (length p) (drop n s)" by (metis append_take_drop_id)
  then show "\<exists>u v. s = u @ p @ v" by blast
next
  assume "\<exists>u v. s = u @ p @ v"
  then obtain u v where "s = u @ p @ v" by blast
  then show "contains p s" by (auto simp: contains_def has_prefix_def list_ex_iff intro!: bexI [of _ "length u"])
qed

lemma literal_line_local: "literal_regexp q = Some re \<Longrightarrow> line_local re"
proof -
  assume *: "literal_regexp q = Some re"
  have grow: "contains q (a @ t @ b)" if "contains q t" for a t b
  proof -
    obtain u v where "t = u @ q @ v" using \<open>contains q t\<close> by (auto simp: contains_iff)
    then have "a @ t @ b = (a @ u) @ q @ (v @ b)" by simp
    then show ?thesis unfolding contains_iff by blast
  qed
  have "re s \<noteq> None \<longleftrightarrow> contains q s" for s using * by (auto simp: literal_regexp_def split: if_splits)
  then show ?thesis unfolding line_local_def using grow by blast
qed

definition demo_line :: js where
  "demo_line = js_join (lit '' '') (map quote_word [lit ''nohup'', lit ''bash'', lit ''-c'', lit ''rm -rf /x''])"

definition demo_rule :: command_rule where
  "demo_rule = \<lparr>cr_pattern = lit ''rm -rf'', cr_decision = Deny, cr_reason = None\<rparr>"

lemma demo_scanned: "scannableCommandAtDepth 1 demo_line = Inr (lit ''nohup bash -c '' @ [39, 39, 10] @ lit ''rm -rf /x'')"
  by code_simp

lemma demo_payload: "segmentShellPayloads [lit ''nohup'', lit ''bash'', lit ''-c'', lit ''rm -rf /x''] = [lit ''rm -rf /x'']"
  by code_simp

lemma demo_inner: "scannableCommandAtDepth 0 (lit ''rm -rf /x'') = Inr (lit ''rm -rf /x'')"
  by code_simp


theorem org_floor_final_witness:
  "evaluateCommandWithLayer literal_regexp (lit ''rm -rf /x'')
     (composePolicy \<lparr>cp_mode = Denylist, cp_rules = [demo_rule]\<rparr> (Some \<lparr>cp_mode = Denylist, cp_rules = [demo_rule\<lparr>cr_decision := Allow\<rparr>]\<rparr>)) [] =
   evaluateCommand literal_regexp (lit ''rm -rf /x'') \<lparr>cp_mode = Denylist, cp_rules = [demo_rule]\<rparr>"
proof -
  let ?org = "\<lparr>cp_mode = Denylist, cp_rules = [demo_rule]\<rparr>" and ?c = "lit ''rm -rf /x''"
  let ?e = "\<lparr>ce_decision = Deny, ce_reason = None, ce_matched = Some (lit ''rm -rf''), ce_approvalKey = Some (lit ''rm -rf'')\<rparr>"
  have e: "evaluateCommand literal_regexp ?c ?org = Inr ?e" by code_simp
  have "ce_matched ?e \<noteq> None" by simp
  then show ?thesis
    using org_floor_final [OF e, of "Some \<lparr>cp_mode = Denylist, cp_rules = [demo_rule\<lparr>cr_decision := Allow\<rparr>]\<rparr>" "[]"] e by (simp only: simp_thms)
qed

definition demo_policy_json :: json where
  "demo_policy_json = JObj [(''mode'', JStr ''denylist''), (''rules'', JArr [JObj [(''pattern'', JStr ''rm -rf''), (''decision'', JStr ''deny'')]])]"

theorem parsed_policy_has_no_dead_rules_witness:
  "\<exists>re. compileSafeRegex literal_regexp (cr_pattern demo_rule) = Inr re"
proof -
  have "parseCommandPolicy literal_regexp demo_policy_json = Inr \<lparr>cp_mode = Denylist, cp_rules = [demo_rule]\<rparr>" by code_simp
  from parsed_policy_has_no_dead_rules [OF this, of "[]"] show ?thesis by auto
qed

subsection \<open>Two commands the policy fails on\<close>

text \<open>\<open>stdbuf\<close> runs the command after its options, as \<open>segmentConsumesShellStdin\<close> and \<open>literalProducerPayload\<close> know, but
  \<open>segmentShellPayloads\<close> has no case for it.\<close>

definition stdbuf_line :: js where
  "stdbuf_line = js_join (lit '' '') (map quote_word [lit ''stdbuf'', lit ''-oL'', lit ''bash'', lit ''-c'', lit ''rm -rf /x''])"

text \<open>The wrapper \<open>stdbuf\<close> hides the payload of a shell from every rule: what is scanned of
  \<open>stdbuf -oL bash -c 'rm -rf /x'\<close> does not contain the deleting command, which the same line with \<open>nohup\<close>
  in its place does show.\<close>

lemma stdbuf_hides_payload:
  "scannableCommand stdbuf_line = Inr (lit ''stdbuf -oL bash -c '' @ [39, 39]) \<and>
   \<not> contains (lit ''rm'') (lit ''stdbuf -oL bash -c '' @ [39, 39]) \<and>
   (\<exists>s. scannableCommandAtDepth 1 demo_line = Inr s \<and> contains (lit ''rm -rf /x'') s)"
proof (intro conjI)
  show "scannableCommand stdbuf_line = Inr (lit ''stdbuf -oL bash -c '' @ [39, 39])" by code_simp
  show "\<not> contains (lit ''rm'') (lit ''stdbuf -oL bash -c '' @ [39, 39])" by code_simp
  show "\<exists>s. scannableCommandAtDepth 1 demo_line = Inr s \<and> contains (lit ''rm -rf /x'') s"
    by (rule exI, rule conjI, rule demo_scanned, code_simp)
qed


end
