(* ===== verification/Tasks.thy ===== *)
theory Tasks
  imports Core_Types "HOL-Library.Product_Lexorder"
begin

text \<open>
  The task list of a session with its event log (\<^verbatim>\<open>src/src/tasks\<close>), in memory and in Postgres. The order of texts, \<open>localeCompare\<close>
  in one and the collation of the database in the other, is the parameter \<open>collate\<close>, a sort key; whether a session row exists, on
  which the foreign key of the table depends, is the parameter \<open>session\<close>. Each transaction of the
  Postgres store is one step: it commits as a whole or is rolled back.
\<close>

record task =
  tk_id :: string
  tk_sessionId :: string
  tk_originRunId :: string
  tk_title :: string
  tk_status :: task_status
  tk_createdAt :: time
  tk_updatedAt :: time

datatype task_event_type = TaskCreated | TaskStatusChanged

record task_event =
  te_id :: nat
  te_taskId :: string
  te_runId :: string
  te_type :: task_event_type
  te_fromStatus :: "task_status option"
  te_toStatus :: task_status
  te_createdAt :: time

record create_task_input =
  cti_id :: "string option"
  cti_sessionId :: string
  cti_originRunId :: string
  cti_title :: string
  cti_status :: "task_status option"

record task_filter =
  tf_sessionId :: "string option"
  tf_originRunId :: "string option"
  tf_statuses :: "task_status list option"

definition isOpenTask :: "task_status \<Rightarrow> bool" where
  "isOpenTask s \<longleftrightarrow> s \<in> {TaskPending, TaskInProgress}"

definition task_matches :: "task_filter \<Rightarrow> task \<Rightarrow> bool" where
  "task_matches f t \<longleftrightarrow> (case tf_sessionId f of None \<Rightarrow> True | Some s \<Rightarrow> tk_sessionId t = s) \<and>
     (case tf_originRunId f of None \<Rightarrow> True | Some r \<Rightarrow> tk_originRunId t = r)"

definition status_matches :: "task_filter \<Rightarrow> task \<Rightarrow> bool" where
  "status_matches f t \<longleftrightarrow> (case tf_statuses f of None \<Rightarrow> True | Some ss \<Rightarrow> tk_status t \<in> set ss)"

definition ordered :: "(string \<Rightarrow> string) \<Rightarrow> task list \<Rightarrow> task list" where
  "ordered collate ts = sort_key (\<lambda>t. (tk_createdAt t, collate (tk_id t))) ts"

definition new_task :: "create_task_input \<Rightarrow> string \<Rightarrow> time \<Rightarrow> task" where
  "new_task input uuid now =
     \<lparr>tk_id = (case cti_id input of None \<Rightarrow> uuid | Some i \<Rightarrow> i), tk_sessionId = cti_sessionId input,
      tk_originRunId = cti_originRunId input, tk_title = cti_title input,
      tk_status = (case cti_status input of None \<Rightarrow> TaskPending | Some s \<Rightarrow> s), tk_createdAt = now, tk_updatedAt = now\<rparr>"

definition new_event :: "nat \<Rightarrow> string \<Rightarrow> string \<Rightarrow> task_status option \<Rightarrow> task_status \<Rightarrow> time \<Rightarrow> task_event" where
  "new_event n taskId runId fromStatus toStatus now =
     \<lparr>te_id = n, te_taskId = taskId, te_runId = runId,
      te_type = (if fromStatus = None then TaskCreated else TaskStatusChanged),
      te_fromStatus = fromStatus, te_toStatus = toStatus, te_createdAt = now\<rparr>"

subsection \<open>In memory\<close>

record task_store =
  ts_tasks :: "task js_map"
  ts_events :: "task_event list js_map"
  ts_nextEventId :: nat

definition mt_listEvents :: "string \<Rightarrow> task_store \<Rightarrow> task_event list" where
  "mt_listEvents taskId st = (case map_of (ts_events st) taskId of None \<Rightarrow> [] | Some es \<Rightarrow> es)"

definition appendEvent :: "string \<Rightarrow> string \<Rightarrow> task_status option \<Rightarrow> task_status \<Rightarrow> time \<Rightarrow> task_store \<Rightarrow> task_store" where
  "appendEvent taskId runId fromStatus toStatus now st =
     st\<lparr>ts_events := AList.update taskId
          (mt_listEvents taskId st @ [new_event (ts_nextEventId st) taskId runId fromStatus toStatus now]) (ts_events st),
        ts_nextEventId := Suc (ts_nextEventId st)\<rparr>"

definition mt_get :: "string \<Rightarrow> task_store \<Rightarrow> task option" where
  "mt_get i st = map_of (ts_tasks st) i"

definition mt_create :: "create_task_input \<Rightarrow> string \<Rightarrow> time \<Rightarrow> task_store \<Rightarrow> task option \<times> task_store" where
  "mt_create input uuid now st =
     (let t = new_task input uuid now in
      if map_of (ts_tasks st) (tk_id t) \<noteq> None then (None, st)
      else (Some t, appendEvent (tk_id t) (cti_originRunId input) None (tk_status t) now
              (st\<lparr>ts_tasks := AList.update (tk_id t) t (ts_tasks st)\<rparr>)))"

definition mt_list :: "(string \<Rightarrow> string) \<Rightarrow> task_filter \<Rightarrow> task_store \<Rightarrow> task list" where
  "mt_list collate f st = ordered collate (filter (\<lambda>t. task_matches f t \<and> status_matches f t) (map_values (ts_tasks st)))"

definition mt_listOpen :: "(string \<Rightarrow> string) \<Rightarrow> task_filter \<Rightarrow> task_store \<Rightarrow> task list" where
  "mt_listOpen collate f st = ordered collate (filter (\<lambda>t. task_matches f t \<and> isOpenTask (tk_status t)) (map_values (ts_tasks st)))"

definition moved_to :: "task_status \<Rightarrow> time \<Rightarrow> task \<Rightarrow> task" where
  "moved_to s now t = t\<lparr>tk_status := s, tk_updatedAt := now\<rparr>"

definition mt_transitionStatus ::
  "string \<Rightarrow> task_status \<Rightarrow> task_status \<Rightarrow> string \<Rightarrow> time \<Rightarrow> task_store \<Rightarrow> task option \<times> task_store" where
  "mt_transitionStatus i expectedStatus nextStatus runId now st =
     (case map_of (ts_tasks st) i of
        None \<Rightarrow> (None, st)
      | Some t \<Rightarrow>
          if tk_status t \<noteq> expectedStatus then (None, st)
          else (Some (moved_to nextStatus now t), appendEvent i runId (Some expectedStatus) nextStatus now
                  (st\<lparr>ts_tasks := map_modify i (moved_to nextStatus now) (ts_tasks st)\<rparr>)))"

subsection \<open>In Postgres\<close>

record task_tables =
  tt_tasks :: "task list"
  tt_events :: "task_event list"
  tt_nextId :: nat

definition pt_insert_event :: "string \<Rightarrow> string \<Rightarrow> task_status option \<Rightarrow> task_status \<Rightarrow> time \<Rightarrow> task_tables \<Rightarrow> task_tables" where
  "pt_insert_event taskId runId fromStatus toStatus now db =
     db\<lparr>tt_events := tt_events db @ [new_event (tt_nextId db) taskId runId fromStatus toStatus now], tt_nextId := Suc (tt_nextId db)\<rparr>"

definition pt_get :: "string \<Rightarrow> task_tables \<Rightarrow> task option" where
  "pt_get i db = List.find (\<lambda>t. tk_id t = i) (tt_tasks db)"

definition pt_create :: "(string \<Rightarrow> bool) \<Rightarrow> create_task_input \<Rightarrow> string \<Rightarrow> time \<Rightarrow> task_tables \<Rightarrow> task option \<times> task_tables" where
  "pt_create session input uuid now db =
     (let t = new_task input uuid now in
      if pt_get (tk_id t) db \<noteq> None \<or> \<not> session (tk_sessionId t) then (None, db)
      else (Some t, pt_insert_event (tk_id t) (cti_originRunId input) None (tk_status t) now (db\<lparr>tt_tasks := tt_tasks db @ [t]\<rparr>)))"

definition pt_list :: "(string \<Rightarrow> string) \<Rightarrow> task_filter \<Rightarrow> task_tables \<Rightarrow> task list" where
  "pt_list collate f db = ordered collate (filter (\<lambda>t. task_matches f t \<and> status_matches f t) (tt_tasks db))"

definition pt_listOpen :: "(string \<Rightarrow> string) \<Rightarrow> task_filter \<Rightarrow> task_tables \<Rightarrow> task list" where
  "pt_listOpen collate f db = ordered collate (filter (\<lambda>t. task_matches f t \<and> isOpenTask (tk_status t)) (tt_tasks db))"

definition pt_transitionStatus ::
  "string \<Rightarrow> task_status \<Rightarrow> task_status \<Rightarrow> string \<Rightarrow> time \<Rightarrow> task_tables \<Rightarrow> task option \<times> task_tables" where
  "pt_transitionStatus i expectedStatus nextStatus runId now db =
     (let hit = (\<lambda>t. tk_id t = i \<and> tk_status t = expectedStatus) in
      case List.find hit (tt_tasks db) of
        None \<Rightarrow> (None, db)
      | Some t \<Rightarrow> (Some (moved_to nextStatus now t), pt_insert_event i runId (Some expectedStatus) nextStatus now
            (db\<lparr>tt_tasks := map (\<lambda>t. if hit t then moved_to nextStatus now t else t) (tt_tasks db)\<rparr>)))"

definition pt_listEvents :: "string \<Rightarrow> task_tables \<Rightarrow> task_event list" where
  "pt_listEvents taskId db = filter (\<lambda>e. te_taskId e = taskId) (tt_events db)"

subsection \<open>The interface\<close>

text \<open>A log explains a task: it starts with the creation, every event leaves the status the one before it reached, and the
  last one reaches the status of the task.\<close>

definition explains :: "task_event list \<Rightarrow> task \<Rightarrow> bool" where
  "explains es t \<longleftrightarrow> es \<noteq> [] \<and> map te_fromStatus es = None # map (\<lambda>e. Some (te_toStatus e)) (butlast es) \<and>
     te_toStatus (last es) = tk_status t \<and> te_createdAt (last es) = tk_updatedAt t \<and> te_createdAt (hd es) = tk_createdAt t"

lemma explains_append:
  "explains es t \<Longrightarrow> te_fromStatus ev = Some (tk_status t) \<Longrightarrow> explains (es @ [ev]) (moved_to (te_toStatus ev) (te_createdAt ev) t)"
proof -
  assume e: "explains es t" and ev: "te_fromStatus ev = Some (tk_status t)"
  let ?to = "\<lambda>e. Some (te_toStatus e)"
  obtain ys y where es: "es = ys @ [y]" using e by (cases es rule: rev_cases) (auto simp: explains_def)
  have "map te_fromStatus es = None # map ?to ys" "te_toStatus y = tk_status t" using e es by (simp_all add: explains_def)
  then have "map te_fromStatus (es @ [ev]) = None # map ?to es" using ev es by simp
  then show ?thesis using e ev es by (auto simp: explains_def moved_to_def hd_append butlast_append split: if_splits)
qed

locale task_log =
  fixes ok :: "'s \<Rightarrow> bool"
    and look :: "string \<Rightarrow> 's \<Rightarrow> task option"
    and history :: "string \<Rightarrow> 's \<Rightarrow> task_event list"
    and create :: "create_task_input \<Rightarrow> string \<Rightarrow> time \<Rightarrow> 's \<Rightarrow> task option \<times> 's"
    and transition :: "string \<Rightarrow> task_status \<Rightarrow> task_status \<Rightarrow> string \<Rightarrow> time \<Rightarrow> 's \<Rightarrow> task option \<times> 's"
  assumes create_None: "ok s \<Longrightarrow> create input uuid now s = (None, s') \<Longrightarrow> s' = s"
    and create_Some: "ok s \<Longrightarrow> create input uuid now s = (Some t, s') \<Longrightarrow>
      ok s' \<and> t = new_task input uuid now \<and> look (tk_id t) s = None \<and>
      (\<exists>n. history i s' = (if i = tk_id t then history i s @ [new_event n i (cti_originRunId input) None (tk_status t) now] else history i s)) \<and>
      look i s' = (if i = tk_id t then Some t else look i s)"
    and transition_None: "ok s \<Longrightarrow> transition j old new run now s = (None, s') \<Longrightarrow>
      s' = s \<and> (\<forall>t. look j s = Some t \<longrightarrow> tk_status t \<noteq> old)"
    and transition_Some: "ok s \<Longrightarrow> transition j old new run now s = (Some t', s') \<Longrightarrow>
      ok s' \<and> (\<exists>t. look j s = Some t \<and> tk_status t = old \<and> t' = moved_to new now t) \<and>
      (\<exists>n. history i s' = (if i = j then history i s @ [new_event n i run (Some old) new now] else history i s)) \<and>
      look i s' = (if i = j then Some t' else look i s)"
    and absent_history: "ok s \<Longrightarrow> look i s = None \<Longrightarrow> history i s = []"
begin

definition explained :: "'s \<Rightarrow> bool" where
  "explained s \<longleftrightarrow> ok s \<and> (\<forall>i t. look i s = Some t \<longrightarrow> explains (history i s) t)"

lemma create_explained: "explained s \<Longrightarrow> explained (snd (create input uuid now s))"
proof -
  assume e: "explained s"
  obtain r s' where c: "create input uuid now s = (r, s')" by fastforce
  show ?thesis
  proof (cases r)
    case None
    then show ?thesis using e c create_None [of s input uuid now s'] by (simp add: explained_def)
  next
    case (Some t)
    have okS: "ok s" using e by (simp add: explained_def)
    note law = create_Some [OF okS c [unfolded Some]]
    have "explains (history i s') u" if "look i s' = Some u" for i u
    proof (cases "i = tk_id t")
      case True
      then have "history i s = []" using law absent_history [OF okS] by blast
      then show ?thesis using law [of i] True that by (auto simp: explains_def new_event_def new_task_def)
    next
      case False
      then show ?thesis using law [of i] that e by (auto simp: explained_def)
    qed
    then show ?thesis using law c by (simp add: explained_def)
  qed
qed

lemma transition_explained: "explained s \<Longrightarrow> explained (snd (transition j old new run now s))"
proof -
  assume e: "explained s"
  obtain r s' where c: "transition j old new run now s = (r, s')" by fastforce
  have okS: "ok s" using e by (simp add: explained_def)
  show ?thesis
  proof (cases r)
    case None
    then show ?thesis using e c transition_None [OF okS, of j old new run now s'] by (simp add: explained_def)
  next
    case (Some t')
    note law = transition_Some [OF okS c [unfolded Some]]
    have "explains (history i s') u" if u: "look i s' = Some u" for i u
    proof (cases "i = j")
      case True
      obtain t where t: "look j s = Some t" "tk_status t = old" "t' = moved_to new now t" using law by blast
      then have "explains (history j s) t" using e by (simp add: explained_def)
      then have "explains (history j s @ [new_event n j run (Some old) new now]) t'" for n
        using explains_append [of "history j s" t "new_event n j run (Some old) new now"] t by (simp add: new_event_def)
      then show ?thesis using law [of i] True u by auto
    next
      case False
      then show ?thesis using law [of i] u e by (auto simp: explained_def)
    qed
    then show ?thesis using law c by (simp add: explained_def)
  qed
qed

end

subsection \<open>Both stores implement it\<close>

definition mt_ok :: "task_store \<Rightarrow> bool" where
  "mt_ok st \<longleftrightarrow> well_keyed tk_id (ts_tasks st) \<and> (\<forall>i. map_of (ts_tasks st) i = None \<longrightarrow> map_of (ts_events st) i = None)"

definition pt_ok :: "task_tables \<Rightarrow> bool" where
  "pt_ok db \<longleftrightarrow> distinct (map tk_id (tt_tasks db)) \<and> (\<forall>e \<in> set (tt_events db). te_taskId e \<in> tk_id ` set (tt_tasks db))"

lemma events_append:
  "mt_listEvents i (appendEvent j run old new now st) =
     (if i = j then mt_listEvents i st @ [new_event (ts_nextEventId st) i run old new now] else mt_listEvents i st)"
  by (simp add: appendEvent_def mt_listEvents_def map_of_AList_update)

lemma tasks_append [simp]: "ts_tasks (appendEvent j run old new now st) = ts_tasks st"
  by (simp add: appendEvent_def)

lemma events_with_tasks [simp]: "mt_listEvents i (st\<lparr>ts_tasks := ts\<rparr>) = mt_listEvents i st" "ts_nextEventId (st\<lparr>ts_tasks := ts\<rparr>) = ts_nextEventId st"
  by (simp_all add: mt_listEvents_def)

lemma mt_ok_append:
  "well_keyed tk_id (ts_tasks st) \<Longrightarrow> map_of (ts_tasks st) j \<noteq> None \<Longrightarrow>
     (\<forall>i. i \<noteq> j \<longrightarrow> map_of (ts_tasks st) i = None \<longrightarrow> map_of (ts_events st) i = None) \<Longrightarrow> mt_ok (appendEvent j run old new now st)"
  by (auto simp: mt_ok_def appendEvent_def map_of_AList_update)

interpretation mt: task_log mt_ok mt_get mt_listEvents mt_create mt_transitionStatus
proof (unfold_locales, goal_cases)
  case (1 s input uuid now s')
  then show ?case by (auto simp: mt_create_def Let_def split: if_splits)
next
  case (2 s input uuid now t s' i)
  then have t: "t = new_task input uuid now" and new: "map_of (ts_tasks s) (tk_id t) = None"
    and s': "s' = appendEvent (tk_id t) (cti_originRunId input) None (tk_status t) now (s\<lparr>ts_tasks := AList.update (tk_id t) t (ts_tasks s)\<rparr>)"
    by (auto simp: mt_create_def Let_def split: if_splits)
  have "mt_ok s'" unfolding s' using 2(1) by (intro mt_ok_append) (auto simp: mt_ok_def map_of_AList_update intro: well_keyed_update)
  then show ?case using t new by (auto simp: s' mt_get_def events_append map_of_AList_update)
next
  case (3 s j old new run now s')
  then show ?case by (auto simp: mt_transitionStatus_def mt_get_def split: option.splits if_splits)
next
  case (4 s j old new run now t' s' i)
  then obtain t where t: "map_of (ts_tasks s) j = Some t" "tk_status t = old" "t' = moved_to new now t"
    and s': "s' = appendEvent j run (Some old) new now (s\<lparr>ts_tasks := map_modify j (moved_to new now) (ts_tasks s)\<rparr>)"
    by (auto simp: mt_transitionStatus_def split: option.splits if_splits)
  have "well_keyed tk_id (map_modify j (moved_to new now) (ts_tasks s))"
    using 4(1) by (auto simp: mt_ok_def moved_to_def intro!: well_keyed_modify)
  then have "mt_ok s'" unfolding s' using 4(1) t by (intro mt_ok_append) (auto simp: mt_ok_def map_of_modify split: if_splits)
  then show ?case using t by (auto simp: s' mt_get_def events_append map_of_modify)
next
  case (5 s i)
  then show ?case by (simp add: mt_ok_def mt_get_def mt_listEvents_def)
qed

lemma find_id_Some: "distinct (map tk_id ts) \<Longrightarrow> List.find (\<lambda>t. tk_id t = i) ts = Some t \<longleftrightarrow> t \<in> set ts \<and> tk_id t = i"
proof -
  assume d: "distinct (map tk_id ts)"
  show ?thesis
  proof
    assume t: "t \<in> set ts \<and> tk_id t = i"
    then obtain u where u: "List.find (\<lambda>t. tk_id t = i) ts = Some u"
      by (metis (mono_tags, lifting) find_None_iff_all option.exhaust)
    then have "u = t" using t d find_Some_mem [OF u] by (auto simp: distinct_map inj_on_def)
    with u show "List.find (\<lambda>t. tk_id t = i) ts = Some t" by simp
  qed (use find_Some_mem in fastforce)
qed

lemma find_id_None: "List.find (\<lambda>t. tk_id t = i) ts = None \<longleftrightarrow> i \<notin> tk_id ` set ts"
  by (auto simp: find_None_iff_all)

lemma pt_events_insert:
  "pt_listEvents i (pt_insert_event j run old new now db) =
     (if i = j then pt_listEvents i db @ [new_event (tt_nextId db) i run old new now] else pt_listEvents i db)"
  by (simp add: pt_listEvents_def pt_insert_event_def new_event_def)

lemma pt_insert_tasks [simp]: "tt_tasks (pt_insert_event j run old new now db) = tt_tasks db"
  by (simp add: pt_insert_event_def)

lemma pt_with_tasks [simp]: "pt_listEvents i (db\<lparr>tt_tasks := ts\<rparr>) = pt_listEvents i db" "tt_nextId (db\<lparr>tt_tasks := ts\<rparr>) = tt_nextId db"
  by (simp_all add: pt_listEvents_def)

lemma pt_ok_insert:
  "pt_ok db \<Longrightarrow> distinct (map tk_id ts) \<Longrightarrow> tk_id ` set (tt_tasks db) \<subseteq> tk_id ` set ts \<Longrightarrow> j \<in> tk_id ` set ts \<Longrightarrow>
     pt_ok (pt_insert_event j run old new now (db\<lparr>tt_tasks := ts\<rparr>))"
  by (auto simp: pt_ok_def pt_insert_event_def new_event_def)

lemma map_id_moved: "map tk_id (map (\<lambda>t. if P t then moved_to new now t else t) ts) = map tk_id ts"
  by (induction ts) (auto simp: moved_to_def)

lemma find_snoc:
  "List.find P (xs @ [x]) = (case List.find P xs of None \<Rightarrow> if P x then Some x else None | Some y \<Rightarrow> Some y)"
  by (induction xs) auto

lemma find_moved_other:
  "(\<And>t. P t \<Longrightarrow> tk_id t \<noteq> i) \<Longrightarrow>
     List.find (\<lambda>t. tk_id t = i) (map (\<lambda>t. if P t then moved_to new now t else t) ts) = List.find (\<lambda>t. tk_id t = i) ts"
  by (induction ts) (auto simp: moved_to_def)

interpretation pt: task_log pt_ok pt_get pt_listEvents "pt_create session" pt_transitionStatus
proof (unfold_locales, goal_cases)
  case (1 s input uuid now s')
  then show ?case by (auto simp: pt_create_def Let_def split: if_splits)
next
  case (2 s input uuid now t s' i)
  then have t: "t = new_task input uuid now" and new: "pt_get (tk_id t) s = None"
    and s': "s' = pt_insert_event (tk_id t) (cti_originRunId input) None (tk_status t) now (s\<lparr>tt_tasks := tt_tasks s @ [t]\<rparr>)"
    by (auto simp: pt_create_def Let_def split: if_splits)
  have "tk_id t \<notin> tk_id ` set (tt_tasks s)" using new by (simp add: pt_get_def find_id_None)
  then have "pt_ok s'" unfolding s' using 2(1) by (intro pt_ok_insert) (auto simp: pt_ok_def)
  moreover have "pt_get i s' = (if i = tk_id t then Some t else pt_get i s)"
    using new by (auto simp: s' pt_get_def find_snoc split: option.splits)
  ultimately show ?case using t new by (auto simp: s' pt_events_insert)
next
  case (3 s j old new run now s')
  then show ?case
    by (auto simp: pt_transitionStatus_def pt_get_def find_None_iff_all dest!: find_Some_mem split: option.splits)
next
  case (4 s j old new run now t' s' i)
  let ?hit = "\<lambda>t. tk_id t = j \<and> tk_status t = old"
  let ?ts = "map (\<lambda>t. if ?hit t then moved_to new now t else t) (tt_tasks s)"
  have d: "distinct (map tk_id (tt_tasks s))" using 4(1) by (simp add: pt_ok_def)
  obtain t where t: "List.find ?hit (tt_tasks s) = Some t" "t' = moved_to new now t"
    and s': "s' = pt_insert_event j run (Some old) new now (s\<lparr>tt_tasks := ?ts\<rparr>)"
    using 4(2) by (auto simp: pt_transitionStatus_def split: option.splits)
  have mem: "t \<in> set (tt_tasks s)" "tk_id t = j" "tk_status t = old" using find_Some_mem [OF t(1)] by auto
  have ids: "tk_id ` set ?ts = tk_id ` set (tt_tasks s)" using map_id_moved [of ?hit new now "tt_tasks s"] by (metis set_map)
  have d': "distinct (map tk_id ?ts)" using d by (simp only: map_id_moved)
  have "pt_ok s'" unfolding s' using 4(1) d' ids mem by (intro pt_ok_insert) auto
  moreover have "pt_get i s' = (if i = j then Some t' else pt_get i s)"
  proof (cases "i = j")
    case True
    have "t' \<in> set ?ts" "tk_id t' = j" using mem t(2) by (auto simp: moved_to_def image_iff)
    then show ?thesis using True d' by (simp add: s' pt_get_def find_id_Some del: set_map)
  next
    case False
    then have "List.find (\<lambda>t. tk_id t = i) ?ts = List.find (\<lambda>t. tk_id t = i) (tt_tasks s)"
      by (intro find_moved_other) auto
    then show ?thesis using False by (simp add: s' pt_get_def)
  qed
  ultimately show ?case
    using mem t(2) d by (auto simp: s' pt_events_insert pt_get_def find_id_Some)
next
  case (5 s i)
  then show ?case by (auto simp: pt_ok_def pt_get_def pt_listEvents_def find_id_None filter_empty_conv)
qed

subsection \<open>The two stores agree\<close>

datatype task_call =
    CallCreate create_task_input string time
  | CallGet string
  | CallList task_filter
  | CallListOpen task_filter
  | CallTransition string task_status task_status string time
  | CallEvents string

datatype task_answer = OneTask "task option" | ManyTasks "task list" | ManyEvents "task_event list"

fun mt_call :: "(string \<Rightarrow> string) \<Rightarrow> task_call \<Rightarrow> task_store \<Rightarrow> task_answer \<times> task_store" where
  "mt_call collate (CallCreate input uuid now) st = map_prod OneTask id (mt_create input uuid now st)"
| "mt_call collate (CallGet i) st = (OneTask (mt_get i st), st)"
| "mt_call collate (CallList f) st = (ManyTasks (mt_list collate f st), st)"
| "mt_call collate (CallListOpen f) st = (ManyTasks (mt_listOpen collate f st), st)"
| "mt_call collate (CallTransition i old new run now) st = map_prod OneTask id (mt_transitionStatus i old new run now st)"
| "mt_call collate (CallEvents i) st = (ManyEvents (mt_listEvents i st), st)"

fun pt_call :: "(string \<Rightarrow> bool) \<Rightarrow> (string \<Rightarrow> string) \<Rightarrow> task_call \<Rightarrow> task_tables \<Rightarrow> task_answer \<times> task_tables" where
  "pt_call session collate (CallCreate input uuid now) db = map_prod OneTask id (pt_create session input uuid now db)"
| "pt_call session collate (CallGet i) db = (OneTask (pt_get i db), db)"
| "pt_call session collate (CallList f) db = (ManyTasks (pt_list collate f db), db)"
| "pt_call session collate (CallListOpen f) db = (ManyTasks (pt_listOpen collate f db), db)"
| "pt_call session collate (CallTransition i old new run now) db = map_prod OneTask id (pt_transitionStatus i old new run now db)"
| "pt_call session collate (CallEvents i) db = (ManyEvents (pt_listEvents i db), db)"

fun task_run :: "(task_call \<Rightarrow> 's \<Rightarrow> task_answer \<times> 's) \<Rightarrow> task_call list \<Rightarrow> 's \<Rightarrow> task_answer list \<times> 's" where
  "task_run call [] s = ([], s)"
| "task_run call (c # cs) s = (let (a, s') = call c s; (as, s'') = task_run call cs s' in (a # as, s''))"

definition empty_tasks :: task_store where "empty_tasks = \<lparr>ts_tasks = [], ts_events = [], ts_nextEventId = 1\<rparr>"
definition empty_task_tables :: task_tables where "empty_task_tables = \<lparr>tt_tasks = [], tt_events = [], tt_nextId = 1\<rparr>"

definition same_tasks :: "task_store \<Rightarrow> task_tables \<Rightarrow> bool" where
  "same_tasks st db \<longleftrightarrow> mt_ok st \<and> pt_ok db \<and> ts_tasks st = map (\<lambda>t. (tk_id t, t)) (tt_tasks db) \<and>
     (\<forall>i. mt_listEvents i st = pt_listEvents i db) \<and> ts_nextEventId st = tt_nextId db"

lemma map_of_tasks: "map_of (map (\<lambda>t. (tk_id t, t)) ts) i = List.find (\<lambda>t. tk_id t = i) ts"
  by (induction ts) auto

lemma same_get: "same_tasks st db \<Longrightarrow> mt_get i st = pt_get i db"
  by (simp add: same_tasks_def mt_get_def pt_get_def map_of_tasks)

lemma same_values: "same_tasks st db \<Longrightarrow> map_values (ts_tasks st) = tt_tasks db"
  by (simp add: same_tasks_def map_values_def comp_def)

lemma same_create:
  assumes "same_tasks st db" and "session (cti_sessionId input)"
  shows "fst (mt_create input uuid now st) = fst (pt_create session input uuid now db) \<and>
    same_tasks (snd (mt_create input uuid now st)) (snd (pt_create session input uuid now db))"
proof -
  let ?t = "new_task input uuid now"
  have s: "session (tk_sessionId ?t)" using assms(2) by (simp add: new_task_def)
  show ?thesis
  proof (cases "pt_get (tk_id ?t) db")
    case None
    then have none: "map_of (ts_tasks st) (tk_id ?t) = None" using same_get [OF assms(1)] by (simp add: mt_get_def)
    have m: "mt_create input uuid now st = (Some ?t, snd (mt_create input uuid now st))"
      and p: "pt_create session input uuid now db = (Some ?t, snd (pt_create session input uuid now db))"
      using none None s by (simp_all add: mt_create_def pt_create_def Let_def)
    have "mt_ok (snd (mt_create input uuid now st))" "pt_ok (snd (pt_create session input uuid now db))"
      using mt.create_Some [OF _ m] pt.create_Some [OF _ p] assms(1) by (simp_all add: same_tasks_def)
    then show ?thesis
      using assms(1) none None s
      by (simp add: same_tasks_def mt_create_def pt_create_def Let_def update_absent events_append pt_events_insert appendEvent_def pt_insert_event_def
        flip: map_of_tasks) (simp add: mt_listEvents_def pt_listEvents_def new_event_def map_of_AList_update)
  next
    case (Some u)
    then show ?thesis using assms(1) same_get [OF assms(1), of "tk_id ?t"] by (simp add: mt_create_def pt_create_def mt_get_def Let_def)
  qed
qed

lemma find_status:
  "distinct (map tk_id ts) \<Longrightarrow> List.find (\<lambda>t. tk_id t = i \<and> tk_status t = old) ts =
     (case List.find (\<lambda>t. tk_id t = i) ts of Some t \<Rightarrow> if tk_status t = old then Some t else None | None \<Rightarrow> None)"
proof (induction ts)
  case (Cons t ts)
  have "List.find (\<lambda>t. tk_id t = i \<and> tk_status t = old) ts = None" if "tk_id t = i"
    using Cons(2) that by (auto simp: find_None_iff_all image_iff)
  with Cons show ?case by auto
qed simp

lemma moved_same:
  assumes "distinct (map tk_id ts)" and "List.find (\<lambda>t. tk_id t = i) ts = Some t" and "tk_status t = old"
  shows "map_modify i (moved_to new now) (map (\<lambda>t. (tk_id t, t)) ts) =
    map (\<lambda>t. (tk_id t, t)) (map (\<lambda>t. if tk_id t = i \<and> tk_status t = old then moved_to new now t else t) ts)"
proof -
  have "u = t" if "u \<in> set ts" "tk_id u = i" for u
    using that assms find_id_Some [OF assms(1)] by (auto simp: distinct_map inj_on_def)
  then show ?thesis using assms(3) by (auto simp: map_modify_def moved_to_def)
qed

lemma same_transition:
  assumes "same_tasks st db"
  shows "fst (mt_transitionStatus i old new run now st) = fst (pt_transitionStatus i old new run now db) \<and>
    same_tasks (snd (mt_transitionStatus i old new run now st)) (snd (pt_transitionStatus i old new run now db))"
proof -
  have d: "distinct (map tk_id (tt_tasks db))" using assms by (simp add: same_tasks_def pt_ok_def)
  note hit = find_status [OF d, of i old]
  have eq: "map_of (ts_tasks st) i = List.find (\<lambda>t. tk_id t = i) (tt_tasks db)"
    using same_get [OF assms, of i] by (simp add: mt_get_def pt_get_def)
  show ?thesis
  proof (cases "\<exists>t. List.find (\<lambda>t. tk_id t = i) (tt_tasks db) = Some t \<and> tk_status t = old")
    case True
    then obtain t where t: "List.find (\<lambda>t. tk_id t = i) (tt_tasks db) = Some t" "tk_status t = old" by blast
    have m: "mt_transitionStatus i old new run now st = (Some (moved_to new now t), snd (mt_transitionStatus i old new run now st))"
      and p: "pt_transitionStatus i old new run now db = (Some (moved_to new now t), snd (pt_transitionStatus i old new run now db))"
      using t eq hit by (simp_all add: mt_transitionStatus_def pt_transitionStatus_def Let_def)
    have "mt_ok (snd (mt_transitionStatus i old new run now st))" "pt_ok (snd (pt_transitionStatus i old new run now db))"
      using mt.transition_Some [OF _ m] pt.transition_Some [OF _ p] assms by (simp_all add: same_tasks_def)
    then show ?thesis
      using assms t eq hit moved_same [OF d t, of new now] fst_conv [of "Some (moved_to new now t)"]
      by (simp add: same_tasks_def mt_transitionStatus_def pt_transitionStatus_def Let_def events_append pt_events_insert)
        (simp add: appendEvent_def pt_insert_event_def)
  next
    case False
    then show ?thesis using assms eq hit
      by (auto simp: mt_transitionStatus_def pt_transitionStatus_def Let_def split: option.splits)
  qed
qed

fun session_known :: "(string \<Rightarrow> bool) \<Rightarrow> task_call \<Rightarrow> bool" where
  "session_known session (CallCreate input uuid now) \<longleftrightarrow> session (cti_sessionId input)"
| "session_known session _ \<longleftrightarrow> True"

lemma same_call:
  assumes "same_tasks st db" and "session_known session c"
  shows "fst (mt_call collate c st) = fst (pt_call session collate c db) \<and> same_tasks (snd (mt_call collate c st)) (snd (pt_call session collate c db))"
proof (cases c)
  case (CallCreate input uuid now)
  then show ?thesis using same_create [OF assms(1), of session input uuid now] assms(2) by simp
next
  case (CallTransition i old new run now)
  then show ?thesis using same_transition [OF assms(1), of i old new run now] by simp
next
  case (CallEvents i)
  then show ?thesis using assms(1) by (simp add: same_tasks_def)
qed (use assms(1) same_get [OF assms(1)] same_values [OF assms(1)]
  in \<open>simp_all add: mt_list_def pt_list_def mt_listOpen_def pt_listOpen_def\<close>)

lemma same_run:
  "same_tasks st db \<Longrightarrow> list_all (session_known session) cs \<Longrightarrow>
     fst (task_run (mt_call collate) cs st) = fst (task_run (pt_call session collate) cs db) \<and>
     same_tasks (snd (task_run (mt_call collate) cs st)) (snd (task_run (pt_call session collate) cs db))"
proof (induction cs arbitrary: st db)
  case (Cons c cs)
  then show ?case using same_call [of st db session c collate] Cons.IH [of "snd (mt_call collate c st)" "snd (pt_call session collate c db)"]
    by (simp add: split_def Let_def)
qed simp

lemma same_empty: "same_tasks empty_tasks empty_task_tables"
  by (simp add: same_tasks_def empty_tasks_def empty_task_tables_def mt_ok_def pt_ok_def mt_listEvents_def pt_listEvents_def)

lemma mt_call_explained: "mt.explained st \<Longrightarrow> mt.explained (snd (mt_call collate c st))"
  by (cases c) (simp_all add: mt.create_explained mt.transition_explained)

lemma mt_run_explained: "mt.explained st \<Longrightarrow> mt.explained (snd (task_run (mt_call collate) cs st))"
  by (induction cs arbitrary: st) (simp_all add: split_def Let_def mt_call_explained)



end
