(* ===== verification/Request_Auth.thy ===== *)
theory Request_Auth
  imports Complex_Main Usage_Limits Json Triggers
begin

text \<open>
  Authentication of requests: signed requests of other services (\<^verbatim>\<open>src/src/auth/source-auth.ts\<close>, \<^verbatim>\<open>source-auth-sign.ts\<close> and
  \<open>verifyOrReject\<close> of \<^verbatim>\<open>src/src/api/http.ts\<close>) and the capability tokens handed to sandboxes
  (\<^verbatim>\<open>signed-token.ts\<close>, \<^verbatim>\<open>capability-token.ts\<close>, \<^verbatim>\<open>portal-identity.ts\<close>). The keyed hash, base64 and the
  JSON parser of the platform and the token library \<open>jose\<close> are parameters. A timestamp header is a number or not finite
  (\<open>None\<close>). Times are whole milliseconds, so the expiry of a request, which is compared with such times only, is rounded down.
\<close>

subsection \<open>Signed requests\<close>

record source_auth_request =
  sr_signature :: string
  sr_timestamp :: "rat option"
  sr_body :: string
  sr_eventId :: string

datatype auth_refusal = MissingSignature | InvalidTimestamp | StaleTimestamp | SignatureMismatch | DuplicateEvent | NotConfigured

definition SOURCE_AUTH_REPLAY_WINDOW_MS :: time where "SOURCE_AUTH_REPLAY_WINDOW_MS = 5 * 60000"
definition MIN_SIGNING_SECRET_LENGTH :: nat where "MIN_SIGNING_SECRET_LENGTH = 32"

definition isStrongSigningSecret :: "string option \<Rightarrow> bool" where
  "isStrongSigningSecret secret \<longleftrightarrow> (case secret of None \<Rightarrow> 0 | Some s \<Rightarrow> length (trim s)) \<ge> MIN_SIGNING_SECRET_LENGTH"

definition canonicalPayload :: "string \<Rightarrow> string \<Rightarrow> string \<Rightarrow> string" where
  "canonicalPayload method pathWithQuery body = method @ [CHR 0x0A] @ pathWithQuery @ [CHR 0x0A] @ body"

definition signRequest :: "(string \<Rightarrow> string \<Rightarrow> string) \<Rightarrow> (rat \<Rightarrow> string) \<Rightarrow> string \<Rightarrow> rat \<Rightarrow> string \<Rightarrow> string" where
  "signRequest hmacHex numberText secret timestampSec canonical =
     ''v0='' @ hmacHex secret (''v0:'' @ numberText timestampSec @ '':'' @ canonical)"

definition signedRequestHeaders ::
  "(string \<Rightarrow> string \<Rightarrow> string) \<Rightarrow> (rat \<Rightarrow> string) \<Rightarrow> string option \<Rightarrow> string \<Rightarrow> string \<Rightarrow> string \<Rightarrow> string js_map \<Rightarrow> int \<Rightarrow> string js_map" where
  "signedRequestHeaders hmacHex numberText secret method pathWithQuery body base nowSec =
     (case secret of
        None \<Rightarrow> base
      | Some s \<Rightarrow>
          if s = [] then base
          else AList.update ''x-signature'' (signRequest hmacHex numberText s (of_int nowSec) (canonicalPayload method pathWithQuery body))
                 (AList.update ''x-timestamp'' (numberText (of_int nowSec)) base))"

definition verifySignature ::
  "(string \<Rightarrow> string \<Rightarrow> string) \<Rightarrow> (rat \<Rightarrow> string) \<Rightarrow> string \<Rightarrow> string \<Rightarrow> rat option \<Rightarrow> string \<Rightarrow> time \<Rightarrow> time \<Rightarrow> auth_refusal option" where
  "verifySignature hmacHex numberText secret signature timestamp body now replayWindowMs =
     (if signature = [] then Some MissingSignature
      else case timestamp of
        None \<Rightarrow> Some InvalidTimestamp
      | Some ts \<Rightarrow>
          if \<bar>of_int now - ts * 1000\<bar> > of_int replayWindowMs then Some StaleTimestamp
          else if signRequest hmacHex numberText secret ts body \<noteq> signature then Some SignatureMismatch
          else None)"

text \<open>\<open>verify\<close> reads the clock (\<open>t\<close>), and the replay filter reads it again (\<open>t'\<close>).\<close>

definition source_verify ::
  "(string \<Rightarrow> string \<Rightarrow> string) \<Rightarrow> (rat \<Rightarrow> string) \<Rightarrow> (time \<Rightarrow> string \<Rightarrow> time \<Rightarrow> 's \<Rightarrow> bool \<times> 's) \<Rightarrow> string \<Rightarrow> time \<Rightarrow> time \<Rightarrow> time \<Rightarrow>
     source_auth_request \<Rightarrow> 's \<Rightarrow> auth_refusal option \<times> 's" where
  "source_verify hmacHex numberText claim secret replayWindowMs t t' req st =
     (case verifySignature hmacHex numberText secret (sr_signature req) (sr_timestamp req) (sr_body req) t replayWindowMs of
        Some e \<Rightarrow> (Some e, st)
      | None \<Rightarrow>
          let expiresAtMs = \<lfloor>the (sr_timestamp req) * 1000 + of_int replayWindowMs\<rfloor>;
              (fresh, st') = claim t' (sr_eventId req) expiresAtMs st in
          (if fresh then None else Some DuplicateEvent, st'))"

definition verifyOrReject ::
  "(string \<Rightarrow> string \<Rightarrow> string) \<Rightarrow> (rat \<Rightarrow> string) \<Rightarrow> (time \<Rightarrow> string \<Rightarrow> time \<Rightarrow> 's \<Rightarrow> bool \<times> 's) \<Rightarrow> string option \<Rightarrow> bool \<Rightarrow> bool \<Rightarrow>
     string option \<Rightarrow> rat option \<Rightarrow> string \<Rightarrow> time \<Rightarrow> time \<Rightarrow> 's \<Rightarrow> auth_refusal option \<times> 's" where
  "verifyOrReject hmacHex numberText claim secret dedup allowUnsigned signatureHeader timestamp payload t t' st =
     (if \<not> truthy secret then (if allowUnsigned then None else Some NotConfigured, st)
      else
        let signature = (case signatureHeader of None \<Rightarrow> [] | Some s \<Rightarrow> s) in
        if dedup then
          source_verify hmacHex numberText claim (the secret) SOURCE_AUTH_REPLAY_WINDOW_MS t t'
            \<lparr>sr_signature = signature, sr_timestamp = timestamp, sr_body = payload, sr_eventId = signature\<rparr> st
        else (verifySignature hmacHex numberText (the secret) signature timestamp payload t SOURCE_AUTH_REPLAY_WINDOW_MS, st))"

subsection \<open>Signed payloads\<close>

record jose =
  jo_kid :: "string \<Rightarrow> string option option"      \<comment> \<open>the key identifier of the header; \<open>None\<close> when it does not decode\<close>
  jo_verify :: "string \<Rightarrow> string \<Rightarrow> string option"  \<comment> \<open>payload of a token under a secret; \<open>None\<close> when verification fails\<close>
  jo_sign :: "string \<Rightarrow> string \<Rightarrow> string \<Rightarrow> string"

record platform =
  pf_hmacHex :: "string \<Rightarrow> string \<Rightarrow> string"
  pf_hmacBase64 :: "string \<Rightarrow> string \<Rightarrow> string"
  pf_base64Decode :: "string \<Rightarrow> string"
  pf_jsonParse :: "string \<Rightarrow> json option"

definition signingKeyId :: "platform \<Rightarrow> string \<Rightarrow> string" where
  "signingKeyId pf secret = take 8 (pf_hmacBase64 pf secret ''qm-signing-key-id'')"

definition mintSignedPayload :: "platform \<Rightarrow> jose \<Rightarrow> json \<Rightarrow> string \<Rightarrow> string" where
  "mintSignedPayload pf jo v secret = jo_sign jo (signingKeyId pf secret) (stringify v) secret"

definition dots :: "string \<Rightarrow> nat" where
  "dots s = length (filter (\<lambda>c. c = CHR ''.'') s)"

definition before_last_dot :: "string \<Rightarrow> string" where
  "before_last_dot s = rev (drop 1 (dropWhile (\<lambda>c. c \<noteq> CHR ''.'') (rev s)))"

definition after_last_dot :: "string \<Rightarrow> string" where
  "after_last_dot s = rev (takeWhile (\<lambda>c. c \<noteq> CHR ''.'') (rev s))"

fun legacy_loop :: "platform \<Rightarrow> string \<Rightarrow> string \<Rightarrow> string list \<Rightarrow> json option" where
  "legacy_loop pf payload sig [] = None"
| "legacy_loop pf payload sig (secret # secrets) =
     (if pf_hmacBase64 pf secret payload \<noteq> sig \<and> pf_hmacHex pf secret payload \<noteq> sig then legacy_loop pf payload sig secrets
      else pf_jsonParse pf (pf_base64Decode pf payload))"

definition verifyLegacyPayload :: "platform \<Rightarrow> string \<Rightarrow> string list \<Rightarrow> json option" where
  "verifyLegacyPayload pf token secrets =
     (if dots token = 0 \<or> before_last_dot token = [] then None
      else legacy_loop pf (before_last_dot token) (after_last_dot token) secrets)"

fun first_verified :: "platform \<Rightarrow> jose \<Rightarrow> string \<Rightarrow> string list \<Rightarrow> json option" where
  "first_verified pf jo token [] = None"
| "first_verified pf jo token (candidate # candidates) =
     (case Option.bind (jo_verify jo token candidate) (pf_jsonParse pf) of
        Some v \<Rightarrow> Some v
      | None \<Rightarrow> first_verified pf jo token candidates)"

definition verifySignedPayload :: "platform \<Rightarrow> jose \<Rightarrow> string \<Rightarrow> string list \<Rightarrow> json option" where
  "verifySignedPayload pf jo token secrets =
     (if dots token \<noteq> 2 then verifyLegacyPayload pf token secrets
      else case jo_kid jo token of
        None \<Rightarrow> None
      | Some kid \<Rightarrow>
          first_verified pf jo token
            (case kid of None \<Rightarrow> secrets | Some k \<Rightarrow> sort_key (\<lambda>s. if signingKeyId pf s = k then 0 else 1 :: nat) secrets))"

subsection \<open>Capability tokens\<close>

definition BLOB_TRANSFER_AUD :: string where "BLOB_TRANSFER_AUD = ''blob-transfer''"

fun json_text :: "json \<Rightarrow> string option" where
  "json_text (JStr s) = Some s"
| "json_text _ = None"

fun json_array :: "json \<Rightarrow> json list option" where
  "json_array (JArr xs) = Some xs"
| "json_array _ = None"

fun json_bool :: "json \<Rightarrow> bool" where
  "json_bool (JBool b) = True"
| "json_bool _ = False"

fun json_number :: "json \<Rightarrow> int option" where
  "json_number (JNum n) = Some n"
| "json_number _ = None"

definition present_ok :: "json \<Rightarrow> string \<Rightarrow> (json \<Rightarrow> bool) \<Rightarrow> bool" where
  "present_ok claims field check \<longleftrightarrow> (case json_field field claims of None \<Rightarrow> True | Some v \<Rightarrow> check v)"

definition isValidCapabilityTimezone :: "(string \<Rightarrow> bool) \<Rightarrow> json \<Rightarrow> bool" where
  "isValidCapabilityTimezone knownZone v =
     (case json_text v of
        None \<Rightarrow> False
      | Some tz \<Rightarrow> tz \<noteq> [] \<and> length tz \<le> 64 \<and> trim tz = tz \<and> knownZone tz)"

definition non_empty_text :: "json \<Rightarrow> bool" where
  "non_empty_text v \<longleftrightarrow> (case json_text v of None \<Rightarrow> False | Some s \<Rightarrow> s \<noteq> [])"

definition well_typed_claims :: "(string \<Rightarrow> bool) \<Rightarrow> json \<Rightarrow> bool" where
  "well_typed_claims knownZone claims \<longleftrightarrow>
     present_ok claims ''timezone'' (isValidCapabilityTimezone knownZone) \<and>
     present_ok claims ''scopeVersion'' (\<lambda>v. json_text v \<noteq> None) \<and>
     present_ok claims ''destinations'' (\<lambda>v. json_array v \<noteq> None) \<and>
     present_ok claims ''credentials'' (\<lambda>v. json_array v \<noteq> None) \<and>
     present_ok claims ''grants'' (\<lambda>v. case json_array v of None \<Rightarrow> False | Some gs \<Rightarrow> list_all (\<lambda>g. json_text g \<noteq> None) gs) \<and>
     present_ok claims ''keychainMembers'' (\<lambda>v. json_array v \<noteq> None) \<and>
     present_ok claims ''memory'' (\<lambda>v. Option.bind (json_field ''read'' v) json_array \<noteq> None) \<and>
     present_ok claims ''liveActor'' json_bool \<and>
     present_ok claims ''botActor'' json_bool \<and>
     present_ok claims ''liveAuthor'' json_bool \<and>
     present_ok claims ''blob'' (\<lambda>v. json_field ''dir'' v = Some (JStr ''read'') \<or> json_field ''dir'' v = Some (JStr ''write'')) \<and>
     present_ok claims ''drop'' (\<lambda>v. json_text v \<noteq> None) \<and>
     present_ok claims ''runId'' (\<lambda>v. json_text v \<noteq> None) \<and>
     present_ok claims ''sessionId'' non_empty_text \<and>
     present_ok claims ''runAttempt'' (\<lambda>v. case json_number v of None \<Rightarrow> False | Some n \<Rightarrow> 1 \<le> n \<and> n \<le> 9007199254740991) \<and>
     present_ok claims ''runLeaseToken'' non_empty_text \<and>
     present_ok claims ''deployment'' non_empty_text"

definition verifyCapabilityToken ::
  "platform \<Rightarrow> jose \<Rightarrow> (string \<Rightarrow> bool) \<Rightarrow> string \<Rightarrow> string list \<Rightarrow> time \<Rightarrow> json option" where
  "verifyCapabilityToken pf jo knownZone token secrets now =
     (case verifySignedPayload pf jo token secrets of
        None \<Rightarrow> None
      | Some claims \<Rightarrow>
          (case (Option.bind (json_field ''actorId'' claims) json_text, Option.bind (json_field ''scopeId'' claims) json_text,
                 Option.bind (json_field ''exp'' claims) json_number) of
             (Some actorId, Some sid, Some expiry) \<Rightarrow>
               if \<not> well_typed_claims knownZone claims then None
               else if now \<ge> expiry then None
               else Some claims
           | _ \<Rightarrow> None))"

definition mintCapabilityToken :: "platform \<Rightarrow> jose \<Rightarrow> string \<Rightarrow> (string \<times> json) list \<Rightarrow> string \<Rightarrow> string" where
  "mintCapabilityToken pf jo orgId claims secret =
     mintSignedPayload pf jo (JObj (fold (\<lambda>(k, v). AList.update k v) claims [(''orgId'', JStr orgId)])) secret"

datatype blob_request = ReadBlob string | WriteBlob

definition blob_id :: "string \<Rightarrow> bool" where
  "blob_id s \<longleftrightarrow> length s = 32 \<and> list_all (\<lambda>c. let n = of_char c :: nat in 48 \<le> n \<and> n \<le> 57 \<or> 97 \<le> n \<and> n \<le> 102) s"

definition verifyBlobTransferCapability ::
  "platform \<Rightarrow> jose \<Rightarrow> (string \<Rightarrow> bool) \<Rightarrow> string \<Rightarrow> string list \<Rightarrow> blob_request \<Rightarrow> time \<Rightarrow> json option" where
  "verifyBlobTransferCapability pf jo knownZone token secrets expected now =
     (case verifyCapabilityToken pf jo knownZone token secrets now of
        None \<Rightarrow> None
      | Some claims \<Rightarrow>
          (case json_field ''blob'' claims of
             None \<Rightarrow> None
           | Some grant \<Rightarrow>
               let dir = (case expected of ReadBlob i \<Rightarrow> ''read'' | WriteBlob \<Rightarrow> ''write''); i = json_field ''id'' grant in
               if json_field ''aud'' claims \<noteq> Some (JStr BLOB_TRANSFER_AUD) \<or> json_field ''dir'' grant \<noteq> Some (JStr dir) then None
               else if (case i of None \<Rightarrow> False | Some v \<Rightarrow> (case json_text v of None \<Rightarrow> True | Some s \<Rightarrow> \<not> blob_id s)) then None
               else if (case expected of ReadBlob j \<Rightarrow> i \<noteq> Some (JStr j) | WriteBlob \<Rightarrow> i \<noteq> None) then None
               else Some claims))"

definition verifyPortalIdentity :: "platform \<Rightarrow> jose \<Rightarrow> string \<Rightarrow> string \<Rightarrow> time \<Rightarrow> json option" where
  "verifyPortalIdentity pf jo token secret nowMs =
     (case verifySignedPayload pf jo token [secret] of
        None \<Rightarrow> None
      | Some claims \<Rightarrow>
          (case (json_field ''p'' claims, Option.bind (json_field ''exp'' claims) json_number) of
             (Some p, Some expiry) \<Rightarrow>
               if \<not> non_empty_text p then None
               else if \<not> present_ok claims ''authenticatedAs'' non_empty_text then None
               else if nowMs > expiry then None
               else Some claims
           | _ \<Rightarrow> None))"

subsection \<open>A signed request is accepted once\<close>

fun verify_run :: "('p \<Rightarrow> time \<Rightarrow> source_auth_request \<Rightarrow> 's \<Rightarrow> auth_refusal option \<times> 's) \<Rightarrow> ('p \<times> time \<times> source_auth_request) list \<Rightarrow> 's \<Rightarrow> auth_refusal option list" where
  "verify_run verify [] st = []"
| "verify_run verify ((p, t, req) # reqs) st = (let (r, st') = verify p t req st in r # verify_run verify reqs st')"

lemma expired_stale:
  assumes "sr_timestamp req = Some ts" and "\<lfloor>ts * 1000 + of_int window\<rfloor> < t"
  shows "verifySignature hmac num secret (sr_signature req) (sr_timestamp req) (sr_body req) t window \<noteq> None"
proof -
  have "ts * 1000 + of_int window < of_int t" using assms(2) by (simp only: floor_less_iff)
  then have "of_int window < \<bar>of_int t - ts * 1000\<bar>" by linarith
  then show ?thesis using assms(1) by (auto simp: verifySignature_def)
qed

context replay_filter
begin

lemma verify_keeps:
  assumes "inv st" and "held st i = Some e" and "t \<le> e"
  shows "inv (snd (source_verify hmac num (claim p) secret window t t req st)) \<and>
    held (snd (source_verify hmac num (claim p) secret window t t req st)) i = Some e \<and>
    (sr_eventId req = i \<longrightarrow> fst (source_verify hmac num (claim p) secret window t t req st) \<noteq> None)"
  using assms claim_inv [OF assms(1)] claim_keeps [OF assms] claim_held [OF assms(1,2,3)]
  by (auto simp: source_verify_def Let_def split_def split: option.splits)

lemma verify_run_refused:
  assumes "inv st" and "held st (sr_eventId req) = Some e \<or> (\<forall>(p, t, r) \<in> set reqs. e < t)"
    and "sr_timestamp req = Some ts" and "e = \<lfloor>ts * 1000 + of_int window\<rfloor>" and "sorted (map (\<lambda>(p, t, r). t) reqs)"
  shows "list_all2 (\<lambda>(p, t, r) a. r = req \<longrightarrow> a \<noteq> None) reqs
    (verify_run (\<lambda>p t. source_verify hmac num (claim p) secret window t t) reqs st)"
  using assms(1,2,5)
proof (induction reqs arbitrary: st)
  case (Cons x reqs)
  obtain p t r where x: "x = (p, t, r)" by (cases x) auto
  let ?v = "source_verify hmac num (claim p) secret window t t r st"
  have inv: "inv (snd ?v)" using claim_inv [OF Cons.prems(1)] Cons.prems(1)
    by (auto simp: source_verify_def Let_def split_def split: option.splits)
  have refused: "r = req \<longrightarrow> fst ?v \<noteq> None" and kept: "held (snd ?v) (sr_eventId req) = Some e \<or> (\<forall>(p, t, r) \<in> set reqs. e < t)"
  proof (atomize (full), cases "t \<le> e")
    case True
    then have "held st (sr_eventId req) = Some e" using Cons.prems(2) by (auto simp: x)
    from verify_keeps [OF Cons.prems(1) this True, of hmac num p secret window r]
    show "(r = req \<longrightarrow> fst ?v \<noteq> None) \<and> (held (snd ?v) (sr_eventId req) = Some e \<or> (\<forall>(p, t, r) \<in> set reqs. e < t))" by auto
  next
    case False
    then have "fst ?v \<noteq> None" if "r = req"
      using expired_stale [of r ts window t hmac num secret] assms(3,4) that by (auto simp: source_verify_def)
    moreover have "\<forall>(p, t, r) \<in> set reqs. e < t" using Cons.prems(3) False by (force simp: x)
    ultimately show "(r = req \<longrightarrow> fst ?v \<noteq> None) \<and> (held (snd ?v) (sr_eventId req) = Some e \<or> (\<forall>(p, t, r) \<in> set reqs. e < t))" by blast
  qed
  have "list_all2 (\<lambda>(p, t, r) a. r = req \<longrightarrow> a \<noteq> None) reqs
      (verify_run (\<lambda>p t. source_verify hmac num (claim p) secret window t t) reqs (snd ?v))"
    by (rule Cons.IH [OF inv kept]) (use Cons.prems(3) in \<open>simp add: x\<close>)
  then show ?case using refused by (simp add: x split_def Let_def)
qed simp

lemma request_accepted_once:
  assumes "inv st" and "source_verify hmac num (claim p) secret window t t req st = (None, st')"
    and "sorted (map (\<lambda>(p, t, r). t) reqs)"
  shows "(\<exists>ts. sr_timestamp req = Some ts \<and> sr_signature req = signRequest hmac num secret ts (sr_body req) \<and>
      \<bar>of_int t - ts * 1000\<bar> \<le> of_int window) \<and>
    list_all2 (\<lambda>(p, t, r) a. r = req \<longrightarrow> a \<noteq> None) reqs
      (verify_run (\<lambda>p t. source_verify hmac num (claim p) secret window t t) reqs st')"
proof -
  obtain ts where ts: "sr_timestamp req = Some ts" "sr_signature req = signRequest hmac num secret ts (sr_body req)"
    "\<bar>of_int t - ts * 1000\<bar> \<le> of_int window"
    and c: "fst (claim p t (sr_eventId req) \<lfloor>ts * 1000 + of_int window\<rfloor> st)" "st' = snd (claim p t (sr_eventId req) \<lfloor>ts * 1000 + of_int window\<rfloor> st)"
    using assms(2) by (auto simp: source_verify_def verifySignature_def Let_def split_def split: option.splits if_splits)
  have "inv st'" "held st' (sr_eventId req) = Some \<lfloor>ts * 1000 + of_int window\<rfloor>"
    using claim_inv [OF assms(1), of p t "sr_eventId req" "\<lfloor>ts * 1000 + of_int window\<rfloor>"]
      claim_takes [OF assms(1), of p t "sr_eventId req" "\<lfloor>ts * 1000 + of_int window\<rfloor>"] c by simp_all
  then show ?thesis using verify_run_refused [OF _ _ ts(1) refl assms(3)] ts by blast
qed

end


definition demo_request :: source_auth_request where
  "demo_request = \<lparr>sr_signature = ''v0=mac'', sr_timestamp = Some 1000, sr_body = ''POST'', sr_eventId = ''v0=mac''\<rparr>"

lemmas verify_demo_simps = source_verify_def verifySignature_def demo_request_def signRequest_def replay_claim_def pg_replay_claim_def
  prune_due_def drop_expired_def Let_def


text \<open>The theorem reads the clock once per request. The code reads it twice, and when the window of a request ends between
  the two readings, the request is accepted a second time.\<close>

lemma replay_between_clock_readings:
  "let st' = snd (source_verify (\<lambda>_ _. ''mac'') (\<lambda>_. ''1000'') replay_claim ''s'' 300000 1000000 1000000 demo_request
      \<lparr>rp_seen = [], rp_nextPruneAt = None\<rparr>) in
   fst (source_verify (\<lambda>_ _. ''mac'') (\<lambda>_. ''1000'') replay_claim ''s'' 300000 1300000 1300001 demo_request st') = None"
  by (simp add: verify_demo_simps PRUNE_INTERVAL_MS_def)

subsection \<open>Tokens\<close>

definition signed_by :: "platform \<Rightarrow> jose \<Rightarrow> string \<Rightarrow> string \<Rightarrow> json \<Rightarrow> bool" where
  "signed_by pf jo token secret v \<longleftrightarrow>
     (if dots token = 2 then \<exists>text. jo_verify jo token secret = Some text \<and> pf_jsonParse pf text = Some v
      else (pf_hmacBase64 pf secret (before_last_dot token) = after_last_dot token \<or>
            pf_hmacHex pf secret (before_last_dot token) = after_last_dot token) \<and>
           pf_jsonParse pf (pf_base64Decode pf (before_last_dot token)) = Some v)"

lemma first_verified_Some:
  "first_verified pf jo token ss = Some v \<Longrightarrow> \<exists>s \<in> set ss. \<exists>text. jo_verify jo token s = Some text \<and> pf_jsonParse pf text = Some v"
  by (induction ss) (auto split: option.splits bind_splits)

lemma legacy_Some:
  "legacy_loop pf payload sig ss = Some v \<Longrightarrow>
     \<exists>s \<in> set ss. (pf_hmacBase64 pf s payload = sig \<or> pf_hmacHex pf s payload = sig) \<and> pf_jsonParse pf (pf_base64Decode pf payload) = Some v"
  by (induction ss) (auto split: if_splits)

lemma verifySignedPayload_signed:
  assumes "verifySignedPayload pf jo token secrets = Some v"
  shows "\<exists>s \<in> set secrets. signed_by pf jo token s v"
proof (cases "dots token = 2")
  case True
  obtain kid where kid: "jo_kid jo token = Some kid" using assms True by (auto simp: verifySignedPayload_def split: option.splits)
  define ss where "ss = (case kid of None \<Rightarrow> secrets | Some k \<Rightarrow> sort_key (\<lambda>s. if signingKeyId pf s = k then 0 else 1 :: nat) secrets)"
  have "set ss = set secrets" "first_verified pf jo token ss = Some v"
    using assms True kid by (auto simp: verifySignedPayload_def ss_def split: option.splits)
  then show ?thesis using first_verified_Some True by (fastforce simp: signed_by_def)
next
  case False
  then have "legacy_loop pf (before_last_dot token) (after_last_dot token) secrets = Some v"
    using assms by (auto simp: verifySignedPayload_def verifyLegacyPayload_def split: if_splits)
  from legacy_Some [OF this] False show ?thesis by (auto simp: signed_by_def)
qed

lemma verifyCapabilityToken_Some:
  "verifyCapabilityToken pf jo kz token secrets now = Some claims \<longleftrightarrow>
     verifySignedPayload pf jo token secrets = Some claims \<and> well_typed_claims kz claims \<and>
     (\<exists>a sid expiry. json_field ''actorId'' claims = Some (JStr a) \<and> json_field ''scopeId'' claims = Some (JStr sid) \<and>
        json_field ''exp'' claims = Some (JNum expiry) \<and> now < expiry)"
proof -
  have str: "json_text v = Some s \<longleftrightarrow> v = JStr s" and number: "json_number v = Some n \<longleftrightarrow> v = JNum n" for v s n
    by (cases v; simp)+
  show ?thesis
    by (auto simp: verifyCapabilityToken_def str number split: option.splits Option.bind_splits if_splits)
qed


text \<open>What is used of the token library and of the platform: a signed token has three parts and names its key, it verifies under
  the secret it was signed with and under no other, and parsing undoes printing.\<close>

definition token_laws :: "platform \<Rightarrow> jose \<Rightarrow> string \<Rightarrow> json \<Rightarrow> bool" where
  "token_laws pf jo s v \<longleftrightarrow> (let token = jo_sign jo (signingKeyId pf s) (stringify v) s in
     dots token = 2 \<and> jo_kid jo token = Some (Some (signingKeyId pf s)) \<and>
     (\<forall>s'. jo_verify jo token s' = (if s' = s then Some (stringify v) else None)) \<and> pf_jsonParse pf (stringify v) = Some v)"

lemma first_verified_minted:
  assumes "token_laws pf jo s v" and "s \<in> set ss"
  shows "first_verified pf jo (mintSignedPayload pf jo v s) ss = Some v"
  using assms(2) by (induction ss) (use assms(1) in \<open>auto simp: token_laws_def mintSignedPayload_def Let_def split: option.splits\<close>)

lemma verify_minted:
  assumes "token_laws pf jo s v" and "s \<in> set secrets"
  shows "verifySignedPayload pf jo (mintSignedPayload pf jo v s) secrets = Some v"
proof -
  have "first_verified pf jo (mintSignedPayload pf jo v s) (sort_key f secrets) = Some v" for f :: "string \<Rightarrow> nat"
    using assms by (intro first_verified_minted) simp_all
  moreover have "dots (mintSignedPayload pf jo v s) = 2" "jo_kid jo (mintSignedPayload pf jo v s) = Some (Some (signingKeyId pf s))"
    using assms(1) by (simp_all add: token_laws_def mintSignedPayload_def Let_def)
  ultimately show ?thesis by (simp add: verifySignedPayload_def)
qed

definition minted_claims :: "string \<Rightarrow> (string \<times> json) list \<Rightarrow> json" where
  "minted_claims orgId claims = JObj (fold (\<lambda>(k, v). AList.update k v) claims [(''orgId'', JStr orgId)])"

lemma minted_field:
  "distinct (map fst claims) \<Longrightarrow> json_field k (minted_claims orgId claims) =
     (case map_of claims k of Some v \<Rightarrow> Some v | None \<Rightarrow> if k = ''orgId'' then Some (JStr orgId) else None)"
proof -
  have "distinct (map fst claims) \<Longrightarrow> map_of (fold (\<lambda>(k, v). AList.update k v) claims kvs) k =
    (case map_of claims k of Some v \<Rightarrow> Some v | None \<Rightarrow> map_of kvs k)" for kvs :: "json js_map"
  proof (induction claims arbitrary: kvs)
    case (Cons x claims)
    obtain j v where x: "x = (j, v)" by (cases x)
    have "map_of claims j = None" using Cons.prems by (simp add: x map_of_eq_None_iff)
    then show ?case using Cons by (simp add: x map_of_AList_update del: map_of_eq_None_iff split: option.split)
  qed simp
  then show "distinct (map fst claims) \<Longrightarrow> ?thesis" by (simp add: minted_claims_def split: option.split)
qed

text \<open>Minting and verifying a capability are inverse. A token minted for well-typed claims with an actor, a scope and an expiry is accepted, with the
  claims and the organisation as they were signed, exactly until it expires, under every list of secrets that contains the
  signing secret, in whatever position: so secrets can be rotated without invalidating tokens in use.\<close>

lemma capability_roundtrip:
  assumes "token_laws pf jo s (minted_claims orgId claims)" and "s \<in> set secrets" and "distinct (map fst claims)"
    and "map_of claims ''actorId'' = Some (JStr a)" and "map_of claims ''scopeId'' = Some (JStr sid)" and "map_of claims ''exp'' = Some (JNum expiry)"
    and "well_typed_claims kz (JObj claims)"
  shows "verifyCapabilityToken pf jo kz (mintCapabilityToken pf jo orgId claims s) secrets now =
    (if now < expiry then Some (minted_claims orgId claims) else None)"
proof -
  have fields: "json_field k (minted_claims orgId claims) = map_of claims k" if "k \<noteq> ''orgId''" for k
    using minted_field [OF assms(3), of k orgId] that by (simp split: option.splits)
  have "present_ok (minted_claims orgId claims) k c \<longleftrightarrow> present_ok (JObj claims) k c" if "k \<noteq> ''orgId''" for k c
    using fields [OF that] by (simp add: present_ok_def)
  then have typed: "well_typed_claims kz (minted_claims orgId claims)"
    using assms(7) by (simp add: well_typed_claims_def)
  have "verifySignedPayload pf jo (mintCapabilityToken pf jo orgId claims s) secrets = Some (minted_claims orgId claims)"
    using verify_minted [OF assms(1,2)] by (simp add: mintCapabilityToken_def minted_claims_def)
  then show ?thesis using typed by (simp add: verifyCapabilityToken_def fields assms(4-6))
qed

definition demo_claims :: "(string \<times> json) list" where
  "demo_claims = [(''actorId'', JStr ''ann''), (''scopeId'', JStr ''personal:ann''), (''exp'', JNum 900), (''runAttempt'', JNum 2)]"

definition demo_platform :: platform where
  "demo_platform = \<lparr>pf_hmacHex = \<lambda>s _. ''hex'' @ s, pf_hmacBase64 = \<lambda>s _. ''b64'' @ s, pf_base64Decode = id,
     pf_jsonParse = \<lambda>t. if t = stringify (minted_claims ''acme'' demo_claims) then Some (minted_claims ''acme'' demo_claims) else None\<rparr>"

definition demo_jose :: jose where
  "demo_jose = \<lparr>jo_kid = \<lambda>t. Some (Some (take 8 (''b64'' @ drop 4 t))),
     jo_verify = \<lambda>t s. if t = ''h.p.'' @ s then Some (stringify (minted_claims ''acme'' demo_claims)) else None,
     jo_sign = \<lambda>_ _ s. ''h.p.'' @ s\<rparr>"

lemma demo_token_laws: "token_laws demo_platform demo_jose ''new'' (minted_claims ''acme'' demo_claims)"
  by (simp add: token_laws_def demo_platform_def demo_jose_def signingKeyId_def dots_def)

lemma demo_claims_typed: "well_typed_claims (\<lambda>_. True) (JObj demo_claims)"
  by (simp add: well_typed_claims_def demo_claims_def present_ok_def)

lemma capability_roundtrip_witness:
  "verifyCapabilityToken demo_platform demo_jose (\<lambda>_. True) (mintCapabilityToken demo_platform demo_jose ''acme'' demo_claims ''new'')
     [''old'', ''new''] 899 = Some (minted_claims ''acme'' demo_claims)"
  using capability_roundtrip [OF demo_token_laws, of "[''old'', ''new'']" "''ann''" "''personal:ann''" 900 "\<lambda>_. True" 899] demo_claims_typed
  by (simp add: demo_claims_def)

lemma demo_accepted:
  "verifyCapabilityToken demo_platform demo_jose (\<lambda>_. True) ''h.p.new'' [''new''] 1 = Some (minted_claims ''acme'' demo_claims)"
  by (simp add: verifyCapabilityToken_def verifySignedPayload_def demo_platform_def demo_jose_def dots_def signingKeyId_def minted_claims_def
      demo_claims_def well_typed_claims_def present_ok_def)


end
