(* ===== verification/Security_Screen.thy ===== *)
theory Security_Screen
  imports Triggers
begin

text \<open>
  Security postures and the screening of untrusted text (\<^verbatim>\<open>src/src/security/security-posture.ts\<close>), and the
  callback \<open>screenToolResult\<close> of \<^verbatim>\<open>src/src/core/orchestrator.ts\<close>, which decides whether the output of a tool
  enters the conversation. The classifier of one chunk (\<open>classifySecurityData\<close>, a language model or the
  proxy of \<^verbatim>\<open>src/src/security/security-screener.ts\<close>), the parser of JSON texts and the answers of
  \<open>authorizeCommand\<close> are parameters. The lemmas show that cutting a text into chunks loses nothing: every
  character that is not white space reaches the classifier in a chunk that is not truncated.
\<close>

subsection \<open>Postures\<close>

datatype security_posture = Dangerous | Auto | Strict

datatype inbound_screening = ScreeningOff | ScreeningExternal

datatype tool_approval_behavior = ApprovalsNone | ApprovalsAll

record resolved_security_policy =
  sp_inboundScreening :: inbound_screening
  sp_denyPrivateNetworks :: bool
  sp_toolApprovals :: tool_approval_behavior

fun resolveSecurityPolicy :: "security_posture \<Rightarrow> resolved_security_policy" where
  "resolveSecurityPolicy Dangerous =
     \<lparr>sp_inboundScreening = ScreeningOff, sp_denyPrivateNetworks = False, sp_toolApprovals = ApprovalsNone\<rparr>"
| "resolveSecurityPolicy Auto =
     \<lparr>sp_inboundScreening = ScreeningExternal, sp_denyPrivateNetworks = True, sp_toolApprovals = ApprovalsNone\<rparr>"
| "resolveSecurityPolicy Strict =
     \<lparr>sp_inboundScreening = ScreeningOff, sp_denyPrivateNetworks = False, sp_toolApprovals = ApprovalsAll\<rparr>"

fun posture_rank :: "security_posture \<Rightarrow> nat" where
  "posture_rank Dangerous = 0"
| "posture_rank Auto = 1"
| "posture_rank Strict = 2"

definition parseSecurityPosture :: "json \<Rightarrow> security_posture option" where
  "parseSecurityPosture v =
     (case v of
        JStr s \<Rightarrow>
          (let n = toLowerCase (trim s) in
           if n = ''dangerous'' then Some Dangerous
           else if n = ''auto'' then Some Auto
           else if n = ''strict'' then Some Strict
           else None)
      | _ \<Rightarrow> None)"

definition composeSecurityPosture :: "security_posture \<Rightarrow> security_posture option \<Rightarrow> security_posture" where
  "composeSecurityPosture orgFloor scope =
     (case scope of
        None \<Rightarrow> orgFloor
      | Some s \<Rightarrow> if posture_rank s \<le> posture_rank orgFloor then orgFloor else s)"

subsection \<open>Payloads\<close>

datatype overheard_role = HeardUser | HeardSelf

record overheard_message =
  om_role :: overheard_role
  om_name :: "string option"
  om_text :: string

record screen_datum =
  sd_source :: string
  sd_content :: string

record security_screen_input =
  si_surface :: "string option"
  si_text :: string
  si_triggered :: bool
  si_securityScreenData :: "string option"
  si_verifiedSwarm :: bool
  si_verifiedSessionMessage :: bool
  si_overheard :: "overheard_message list"
  si_externalPromptData :: "screen_datum list"

record security_screen_payload =
  pay_content :: string
  pay_truncated :: bool

definition MAX_SCREEN_CHARS :: nat where "MAX_SCREEN_CHARS = 16000"

definition data_bearing :: "string \<Rightarrow> bool" where
  "data_bearing surface \<longleftrightarrow> surface = ''monitor'' \<or> surface = ''webhook''"

definition triggered_payload :: "security_screen_input \<Rightarrow> screen_datum list" where
  "triggered_payload i =
     (case si_surface i of
        None \<Rightarrow> []
      | Some surface \<Rightarrow>
          if si_triggered i \<and> surface \<noteq> [] \<and> (si_securityScreenData i \<noteq> None \<or> data_bearing surface) then
            (let content = (case si_securityScreenData i of Some d \<Rightarrow> d | None \<Rightarrow> si_text i);
                 source = (if si_verifiedSwarm i then ''swarm-delegation''
                           else if si_verifiedSessionMessage i then ''session-delegation'' else surface) in
             if trim content \<noteq> [] then [\<lparr>sd_source = source, sd_content = content\<rparr>] else [])
          else [])"

definition overheard_payload :: "overheard_message \<Rightarrow> screen_datum list" where
  "overheard_payload m =
     (if om_role m = HeardUser \<and> trim (om_text m) \<noteq> []
      then [\<lparr>sd_source = ''overheard:'' @ (case om_name m of Some n \<Rightarrow> n | None \<Rightarrow> ''participant''),
             sd_content = om_text m\<rparr>]
      else [])"

fun unique_payloads :: "string list \<Rightarrow> screen_datum list \<Rightarrow> screen_datum list" where
  "unique_payloads seen [] = []"
| "unique_payloads seen (p # ps) =
     (if trim (sd_content p) \<in> set seen then unique_payloads seen ps
      else p # unique_payloads (trim (sd_content p) # seen) ps)"

definition datum_json :: "screen_datum \<Rightarrow> json" where
  "datum_json p = JObj [(''source'', JStr (sd_source p)), (''content'', JStr (sd_content p))]"

definition truncation_marker :: string where
  "truncation_marker = [CHR 0x0A] @ ''...[security screen input truncated]...'' @ [CHR 0x0A]"

definition bounded_payload :: "string \<Rightarrow> security_screen_payload" where
  "bounded_payload serialized =
     (if length serialized \<le> MAX_SCREEN_CHARS then \<lparr>pay_content = serialized, pay_truncated = False\<rparr>
      else
        (let half = (MAX_SCREEN_CHARS - length truncation_marker) div 2 in
         \<lparr>pay_content = take half serialized @ truncation_marker @ drop (length serialized - half) serialized,
          pay_truncated = True\<rparr>))"

definition securityScreenPayload :: "security_screen_input \<Rightarrow> security_screen_payload option" where
  "securityScreenPayload i =
     (let payloads = triggered_payload i @ concat (map overheard_payload (si_overheard i)) @
                     filter (\<lambda>d. trim (sd_content d) \<noteq> []) (si_externalPromptData i);
          unique = unique_payloads [] payloads in
      if unique = [] then None else Some (bounded_payload (stringify (JArr (map datum_json unique)))))"

subsection \<open>Chunks of a long text\<close>

definition SCREEN_CHUNK_CHARS :: nat where "SCREEN_CHUNK_CHARS = 7500"
definition SCREEN_CHUNK_OVERLAP :: nat where "SCREEN_CHUNK_OVERLAP = 500"

definition chunk_input :: "string \<Rightarrow> string \<Rightarrow> security_screen_input" where
  "chunk_input surface slice =
     \<lparr>si_surface = Some surface, si_text = [], si_triggered = True, si_securityScreenData = Some slice,
      si_verifiedSwarm = False, si_verifiedSessionMessage = False, si_overheard = [], si_externalPromptData = []\<rparr>"

definition chunk_mid :: "string \<Rightarrow> nat" where
  "chunk_mid slice = (length slice + 1) div 2"

definition chunk_overlap :: "string \<Rightarrow> nat" where
  "chunk_overlap slice = min SCREEN_CHUNK_OVERLAP (length slice div 4)"

lemma halves_shrink:
  assumes "1 < length slice"
  shows "chunk_mid slice + chunk_overlap slice < length slice" "chunk_overlap slice < chunk_mid slice"
    "length slice - (chunk_mid slice - chunk_overlap slice) < length slice"
proof -
  define n m ov where "n = length slice" and "m = chunk_mid slice" and "ov = chunk_overlap slice"
  have bounds: "2 * m \<le> n + 1" "n \<le> 2 * m" "4 * ov \<le> n" "1 < n"
    using assms by (auto simp: n_def m_def ov_def chunk_mid_def chunk_overlap_def)
  have "m \<le> 1" "ov = 0" if "n = 2" using bounds that by simp_all
  moreover have "m + ov < n" if "3 \<le> n" using bounds that by linarith
  ultimately have "m + ov < n" using bounds(4) by (cases "n = 2") auto
  moreover have lt: "ov < m" using bounds by linarith
  moreover have "n - (m - ov) < n" using lt bounds(4) by simp
  ultimately show "chunk_mid slice + chunk_overlap slice < length slice" "chunk_overlap slice < chunk_mid slice"
    "length slice - (chunk_mid slice - chunk_overlap slice) < length slice"
    by (simp_all add: n_def m_def ov_def)
qed

function boundedChunk :: "string \<Rightarrow> string \<Rightarrow> string list" where
  "boundedChunk surface slice =
     (case securityScreenPayload (chunk_input surface slice) of
        None \<Rightarrow> []
      | Some payload \<Rightarrow>
          if \<not> pay_truncated payload \<or> length slice \<le> 1 then [pay_content payload]
          else boundedChunk surface (take (chunk_mid slice + chunk_overlap slice) slice) @
               boundedChunk surface (drop (chunk_mid slice - chunk_overlap slice) slice))"
  by pat_completeness auto
termination
  by (relation "measure (\<lambda>(surface, slice). length slice)") (use halves_shrink in auto)

declare boundedChunk.simps [simp del]

function chunk_from :: "string \<Rightarrow> string \<Rightarrow> nat \<Rightarrow> string list" where
  "chunk_from surface data start =
     (if start = 0 \<or> start + SCREEN_CHUNK_OVERLAP < length data
      then boundedChunk surface (take SCREEN_CHUNK_CHARS (drop start data)) @
           chunk_from surface data (start + (SCREEN_CHUNK_CHARS - SCREEN_CHUNK_OVERLAP))
      else [])"
  by pat_completeness auto
termination
  by (relation "measure (\<lambda>(surface, data, start). (if start = 0 then 1 else 0) + (length data - start))")
    (auto simp: SCREEN_CHUNK_CHARS_def SCREEN_CHUNK_OVERLAP_def)

declare chunk_from.simps [simp del]

definition securityScreenChunks :: "string \<Rightarrow> string \<Rightarrow> string list" where
  "securityScreenChunks surface data = chunk_from surface data 0"

subsection \<open>Verdicts\<close>

datatype screen_decision = DecideAuto | DecideStrict

record security_screen_verdict =
  sv_decision :: screen_decision
  sv_reason :: "string option"
  sv_unscreened :: bool

text \<open>
  \<open>firstJsonObject\<close> scans for the first balanced object outside of string literals: the state is the nesting
  depth, whether the scan is inside a literal and whether the next character is escaped. The scan collects
  the characters from the brace that opened the object.
\<close>

record object_scan =
  os_depth :: nat
  os_inStr :: bool
  os_esc :: bool

definition scan_char :: "char \<Rightarrow> object_scan \<Rightarrow> object_scan" where
  "scan_char ch st =
     (if os_inStr st then
        (if os_esc st then st\<lparr>os_esc := False\<rparr>
         else if ch = CHR 0x5C then st\<lparr>os_esc := True\<rparr>
         else if ch = CHR 0x22 then st\<lparr>os_inStr := False\<rparr>
         else st)
      else if ch = CHR 0x22 then st\<lparr>os_inStr := True\<rparr>
      else if ch = CHR ''{'' then st\<lparr>os_depth := os_depth st + 1\<rparr>
      else if ch = CHR ''}'' \<and> os_depth st > 0 then st\<lparr>os_depth := os_depth st - 1\<rparr>
      else st)"

fun scan_object :: "string \<Rightarrow> object_scan \<Rightarrow> string \<Rightarrow> string option" where
  "scan_object [] st acc = None"
| "scan_object (ch # rest) st acc =
     (let st' = scan_char ch st;
          acc' = (if os_depth st = 0 \<and> os_depth st' = 0 then [] else acc @ [ch]) in
      if os_depth st = 1 \<and> os_depth st' = 0 then Some acc'
      else scan_object rest st' (if os_depth st = 0 \<and> os_depth st' = 1 then [ch] else acc'))"

definition scan_start :: object_scan where
  "scan_start = \<lparr>os_depth = 0, os_inStr = False, os_esc = False\<rparr>"

definition firstJsonObject :: "(string \<Rightarrow> json option) \<Rightarrow> string \<Rightarrow> json option" where
  "firstJsonObject parse t = Option.bind (scan_object t scan_start []) parse"

definition invalid_verdict :: security_screen_verdict where
  "invalid_verdict =
     \<lparr>sv_decision = DecideAuto, sv_reason = Some ''invalid security screen verdict'', sv_unscreened = True\<rparr>"

definition blank_controls :: "string \<Rightarrow> string" where
  "blank_controls = map (\<lambda>c. if of_char c < (32 :: nat) \<or> of_char c = (127 :: nat) then CHR '' '' else c)"

definition verdict_reason :: "json option \<Rightarrow> string option" where
  "verdict_reason r =
     (case r of
        Some (JStr s) \<Rightarrow> (let t = take 160 (trim (blank_controls s)) in if t = [] then None else Some t)
      | _ \<Rightarrow> None)"

definition parseSecurityScreenVerdict ::
  "(string \<Rightarrow> json option) \<Rightarrow> string option \<Rightarrow> security_screen_verdict option" where
  "parseSecurityScreenVerdict parse output =
     (case output of
        None \<Rightarrow> None
      | Some t \<Rightarrow>
          if trim t = [] then None
          else Some
            (case firstJsonObject parse t of
               None \<Rightarrow> invalid_verdict
             | Some parsed \<Rightarrow>
                 if json_field ''decision'' parsed = Some (JStr ''auto'')
                 then \<lparr>sv_decision = DecideAuto, sv_reason = None, sv_unscreened = False\<rparr>
                 else if json_field ''decision'' parsed = Some (JStr ''strict'')
                 then \<lparr>sv_decision = DecideStrict, sv_reason = verdict_reason (json_field ''reason'' parsed),
                       sv_unscreened = False\<rparr>
                 else invalid_verdict))"

subsection \<open>Screening the result of a tool\<close>

datatype tool_result_provenance = FromInternal | FromWorkspace | FromExternal

definition INTERNAL_RESULT_TOOLS :: "string list" where
  "INTERNAL_RESULT_TOOLS =
     [''background'', ''cron'', ''create_goal'', ''get_goal'', ''update_goal'', ''finish_silently'', ''stay_silent'',
      ''guidance'', ''webhook'', ''share'', ''publish'', ''miniapp'', ''write'']"

definition toolResultProvenance :: "string \<Rightarrow> tool_result_provenance" where
  "toolResultProvenance tool =
     (if tool \<in> set INTERNAL_RESULT_TOOLS then FromInternal
      else if tool = ''read'' then FromWorkspace
      else FromExternal)"

definition label_char :: "char \<Rightarrow> bool" where
  "label_char c =
     (let n = of_char c :: nat in
      (65 \<le> n \<and> n \<le> 90) \<or> (97 \<le> n \<and> n \<le> 122) \<or> (48 \<le> n \<and> n \<le> 57) \<or> n = 95 \<or> n = 45)"

definition toolLabelOf :: "string \<Rightarrow> string" where
  "toolLabelOf = map (\<lambda>c. if label_char c then c else CHR ''_'')"

definition quarantineReleaseKey :: "string \<Rightarrow> string" where
  "quarantineReleaseKey tool = ''quarantine:'' @ toolLabelOf tool"

record tool_result_screen_input =
  ti_tool :: string
  ti_result :: string
  ti_unscreenable :: bool
  ti_provenance :: tool_result_provenance
  ti_source :: "string option"

datatype tool_result_screen = ScreenAllow | ScreenUnscreened | ScreenQuarantine "string option"

datatype screen_audit = AuditReleased | AuditRelease | AuditQuarantine | AuditFailedOpen

definition screen_label :: "tool_result_screen_input \<Rightarrow> string" where
  "screen_label i =
     ''tool_result:'' @ toolLabelOf (ti_tool i) @
     (case ti_source i of Some s \<Rightarrow> if s = [] then [] else '':'' @ toolLabelOf s | None \<Rightarrow> [])"

definition strict_verdict :: "security_screen_verdict option \<Rightarrow> bool" where
  "strict_verdict v = (case v of Some x \<Rightarrow> sv_decision x = DecideStrict | None \<Rightarrow> False)"

definition clean_verdict :: "security_screen_verdict option \<Rightarrow> bool" where
  "clean_verdict v = (case v of Some x \<Rightarrow> sv_decision x = DecideAuto \<and> \<not> sv_unscreened x | None \<Rightarrow> False)"

text \<open>Chunks are classified four at a time until a batch has a strict verdict.\<close>

function screen_batches ::
  "(string \<Rightarrow> security_screen_verdict option) \<Rightarrow> string list \<Rightarrow> security_screen_verdict option list \<Rightarrow>
   security_screen_verdict option list" where
  "screen_batches classify chunks verdicts =
     (if chunks = [] \<or> list_ex strict_verdict verdicts then verdicts
      else screen_batches classify (drop 4 chunks) (verdicts @ map classify (take 4 chunks)))"
  by pat_completeness auto
termination
  by (relation "measure (\<lambda>(classify, chunks, verdicts). length chunks)") auto

declare screen_batches.simps [simp del]

definition screen_verdict ::
  "(string \<Rightarrow> security_screen_verdict option) \<Rightarrow> string list \<Rightarrow> security_screen_verdict option" where
  "screen_verdict classify chunks =
     (let verdicts = screen_batches classify chunks [] in
      case List.find strict_verdict verdicts of
        Some v \<Rightarrow> v
      | None \<Rightarrow>
          if length verdicts = length chunks \<and> list_all clean_verdict verdicts
          then (case verdicts of [] \<Rightarrow> None | v # _ \<Rightarrow> v) else None)"

text \<open>
  Releases granted by people are counted per approval key and used up one at a time.
\<close>

definition authorizeCommand :: "string \<Rightarrow> string option \<Rightarrow> int js_map \<Rightarrow> bool \<times> int js_map" where
  "authorizeCommand command approvalKey uses =
     (let key = (case approvalKey of
                   Some k \<Rightarrow> if map_of uses k \<noteq> None then k
                            else if map_of uses command \<noteq> None then command else k
                 | None \<Rightarrow> command);
          n = (case map_of uses key of Some x \<Rightarrow> x | None \<Rightarrow> 0) in
      if n \<le> 0 then (False, uses) else (True, AList.update key (n - 1) uses))"

record screen_state =
  ss_uses :: "int js_map"
  ss_approvals :: "string list"
  ss_audit :: "screen_audit list"

definition screen_audit :: "screen_audit \<Rightarrow> screen_state \<Rightarrow> screen_state" where
  "screen_audit a st = st\<lparr>ss_audit := ss_audit st @ [a]\<rparr>"

definition screen_release_key :: "string \<Rightarrow> string" where
  "screen_release_key tool = ''security-screen-release:'' @ toolLabelOf tool"

definition quarantine_result ::
  "tool_result_screen_input \<Rightarrow> security_screen_verdict option \<Rightarrow> screen_state \<Rightarrow> tool_result_screen \<times> screen_state" where
  "quarantine_result i verdict st =
     (let key = screen_release_key (ti_tool i);
          (released, uses) = authorizeCommand key None (ss_uses st) in
      if released then (ScreenAllow, screen_audit AuditRelease (st\<lparr>ss_uses := uses\<rparr>))
      else
        (ScreenQuarantine (case Option.bind verdict sv_reason of Some r \<Rightarrow> if r = [] then None else Some r | None \<Rightarrow> None),
         (screen_audit AuditQuarantine st)\<lparr>ss_approvals :=
            (if key \<in> set (ss_approvals st) then ss_approvals st else ss_approvals st @ [key])\<rparr>))"

definition screenToolResult ::
  "(string \<Rightarrow> security_screen_verdict option) \<Rightarrow> tool_result_screen_input \<Rightarrow>
   screen_state \<Rightarrow> tool_result_screen \<times> screen_state" where
  "screenToolResult classify i st =
     (if ti_provenance i \<noteq> FromExternal then (ScreenAllow, st)
      else
        (let key = quarantineReleaseKey (ti_tool i);
             (released, uses) = authorizeCommand key (Some key) (ss_uses st) in
         if released then (ScreenUnscreened, screen_audit AuditReleased (st\<lparr>ss_uses := uses\<rparr>))
         else
           (let chunks = (if ti_unscreenable i then [] else securityScreenChunks (screen_label i) (ti_result i));
                verdict = screen_verdict classify chunks in
            if \<not> ti_unscreenable i \<and> chunks = [] then (ScreenAllow, st)
            else if clean_verdict verdict then (ScreenAllow, st)
            else if strict_verdict verdict then quarantine_result i verdict st
            else (ScreenUnscreened, screen_audit AuditFailedOpen st))))"

subsection \<open>Cutting into chunks loses nothing\<close>

definition substr :: "nat \<Rightarrow> nat \<Rightarrow> 'a list \<Rightarrow> 'a list" where
  "substr a b s = take (b - a) (drop a s)"

lemma substr_all [simp]: "substr 0 (length s) s = s"
  by (simp add: substr_def)

lemma substr_take: "a \<le> b \<Longrightarrow> b \<le> n \<Longrightarrow> substr a b (take n s) = substr a b s"
  by (simp add: substr_def drop_take)

lemma substr_drop: "substr a b (drop n s) = substr (a + n) (b + n) s"
  by (simp add: substr_def add.commute)

lemma substr_nth: "a \<le> i \<Longrightarrow> i < b \<Longrightarrow> b \<le> length s \<Longrightarrow> substr a b s ! (i - a) = s ! i \<and> i - a < length (substr a b s)"
  by (auto simp: substr_def)

text \<open>The text the classifier is given for one piece of a labelled text.\<close>

definition screen_text :: "string \<Rightarrow> string \<Rightarrow> string" where
  "screen_text label s = stringify (JArr [datum_json \<lparr>sd_source = label, sd_content = s\<rparr>])"

lemma trim_Nil_iff: "trim s = [] \<longleftrightarrow> (\<forall>c \<in> set s. is_space c)"
proof
  assume "trim s = []"
  then have "\<forall>c \<in> set (dropWhile is_space s). is_space c" by (simp add: trim_def)
  then have "dropWhile is_space s = []"
    by (metis hd_dropWhile hd_in_set)
  then show "\<forall>c \<in> set s. is_space c" by (simp add: dropWhile_eq_Nil_conv)
next
  assume "\<forall>c \<in> set s. is_space c"
  then show "trim s = []" using set_dropWhileD [of _ is_space s] by (auto simp: trim_def)
qed

lemma chunk_payload:
  "securityScreenPayload (chunk_input label s) =
     (if label = [] \<or> trim s = [] then None else Some (bounded_payload (screen_text label s)))"
  by (simp add: securityScreenPayload_def triggered_payload_def chunk_input_def screen_text_def Let_def)

lemma bounded_payload_whole:
  "pay_truncated (bounded_payload t) \<longleftrightarrow> MAX_SCREEN_CHARS < length t"
  "length t \<le> MAX_SCREEN_CHARS \<Longrightarrow> pay_content (bounded_payload t) = t"
  by (simp_all add: bounded_payload_def Let_def)

lemma length_json_escape: "length (json_escape c) \<le> 6"
  by (simp add: json_escape_def Let_def)

lemma length_escapes: "length (concat (map json_escape s)) \<le> 6 * length s"
  using length_json_escape by (induction s) (auto simp: add_mono)

lemma length_screen_text: "length (screen_text label s) \<le> length (json_quote label) + 6 * length s + 26"
  using length_escapes [of s]
  by (simp add: screen_text_def datum_json_def json_quote_def json_escape_def)

definition short_label :: "string \<Rightarrow> bool" where
  "short_label label \<longleftrightarrow> label \<noteq> [] \<and> length (json_quote label) \<le> 15900"

lemma boundedChunk_cases:
  assumes "short_label label"
  shows "boundedChunk label s =
    (if trim s = [] then []
     else if length (screen_text label s) \<le> MAX_SCREEN_CHARS then [screen_text label s]
     else boundedChunk label (take (chunk_mid s + chunk_overlap s) s) @
          boundedChunk label (drop (chunk_mid s - chunk_overlap s) s))"
proof -
  have "length (screen_text label s) \<le> MAX_SCREEN_CHARS" if "length s \<le> 1"
    using length_screen_text [of label s] assms that by (simp add: short_label_def MAX_SCREEN_CHARS_def)
  then show ?thesis
    using assms
    by (subst boundedChunk.simps) (auto simp: chunk_payload short_label_def bounded_payload_whole)
qed

lemma boundedChunk_induct [consumes 1, case_names blank whole halves]:
  assumes "short_label label"
    and blank: "\<And>s. trim s = [] \<Longrightarrow> P s []"
    and whole: "\<And>s. trim s \<noteq> [] \<Longrightarrow> length (screen_text label s) \<le> MAX_SCREEN_CHARS \<Longrightarrow> P s [screen_text label s]"
    and halves: "\<And>s. 1 < length s \<Longrightarrow>
      P (take (chunk_mid s + chunk_overlap s) s) (boundedChunk label (take (chunk_mid s + chunk_overlap s) s)) \<Longrightarrow>
      P (drop (chunk_mid s - chunk_overlap s) s) (boundedChunk label (drop (chunk_mid s - chunk_overlap s) s)) \<Longrightarrow>
      P s (boundedChunk label (take (chunk_mid s + chunk_overlap s) s) @
           boundedChunk label (drop (chunk_mid s - chunk_overlap s) s))"
  shows "P s (boundedChunk label s)"
proof (induction s rule: length_induct)
  case (1 s)
  show ?case
  proof (cases "trim s = [] \<or> length (screen_text label s) \<le> MAX_SCREEN_CHARS")
    case True
    then show ?thesis
      using blank [of s] whole [of s] by (subst boundedChunk_cases [OF assms(1)]) (cases "trim s = []"; simp)
  next
    case False
    then have len: "1 < length s"
      using length_screen_text [of label s] assms(1)
      by (simp add: short_label_def MAX_SCREEN_CHARS_def not_le)
    have eq: "boundedChunk label s =
        boundedChunk label (take (chunk_mid s + chunk_overlap s) s) @
        boundedChunk label (drop (chunk_mid s - chunk_overlap s) s)"
      using False by (subst boundedChunk_cases [OF assms(1)]) simp
    show ?thesis
      unfolding eq by (rule halves [OF len]) (use 1 halves_shrink [OF len] in auto)
  qed
qed

definition covered :: "string \<Rightarrow> string \<Rightarrow> string list \<Rightarrow> bool" where
  "covered label s chunks \<longleftrightarrow>
     (\<forall>i < length s. \<not> is_space (s ! i) \<longrightarrow>
        (\<exists>a b. a \<le> i \<and> i < b \<and> b \<le> length s \<and> screen_text label (substr a b s) \<in> set chunks))"

definition pieces :: "string \<Rightarrow> string \<Rightarrow> string list \<Rightarrow> bool" where
  "pieces label s chunks \<longleftrightarrow>
     (\<forall>c \<in> set chunks. \<exists>a b. a \<le> b \<and> b \<le> length s \<and> c = screen_text label (substr a b s) \<and>
        length c \<le> MAX_SCREEN_CHARS)"

lemma covered_take:
  assumes "covered label (take n s) chunks" "i < length s" "i < n" "\<not> is_space (s ! i)"
  shows "\<exists>a b. a \<le> i \<and> i < b \<and> b \<le> length s \<and> screen_text label (substr a b s) \<in> set chunks"
proof -
  obtain a b where "a \<le> i" "i < b" "b \<le> length s" "b \<le> n" "screen_text label (substr a b (take n s)) \<in> set chunks"
    using assms unfolding covered_def by force
  then show ?thesis by (metis substr_take less_imp_le order_trans)
qed

lemma covered_drop:
  assumes "covered label (drop n s) chunks" "i < length s" "n \<le> i" "\<not> is_space (s ! i)"
  shows "\<exists>a b. a \<le> i \<and> i < b \<and> b \<le> length s \<and> screen_text label (substr a b s) \<in> set chunks"
proof -
  have "i - n < length (drop n s)" "drop n s ! (i - n) = s ! i" using assms(2,3) by auto
  then obtain a b where "a \<le> i - n" "i - n < b" "b \<le> length s - n"
    "screen_text label (substr a b (drop n s)) \<in> set chunks"
    using assms(1,4) unfolding covered_def by fastforce
  then have "a + n \<le> i \<and> i < b + n \<and> b + n \<le> length s \<and> screen_text label (substr (a + n) (b + n) s) \<in> set chunks"
    using assms(2,3) by (intro conjI) (auto simp: substr_drop)
  then show ?thesis by blast
qed

lemma covered_mono: "covered label s chunks \<Longrightarrow> set chunks \<subseteq> set chunks' \<Longrightarrow> covered label s chunks'"
  unfolding covered_def by blast

lemma pieces_take: "pieces label (take n s) chunks \<Longrightarrow> pieces label s chunks"
  unfolding pieces_def by (metis length_take min.bounded_iff substr_take)

lemma pieces_drop:
  assumes "pieces label (drop n s) chunks"
  shows "pieces label s chunks"
  unfolding pieces_def
proof
  fix c assume "c \<in> set chunks"
  then obtain a b where "a \<le> b" "b \<le> length s - n" "c = screen_text label (substr a b (drop n s))"
    "length c \<le> MAX_SCREEN_CHARS" using assms unfolding pieces_def by force
  moreover have "a + n \<le> b + n \<and> b + n \<le> length s" if "n \<le> length s" using that calculation by simp
  moreover have "substr a b (drop n s) = substr 0 0 s" if "\<not> n \<le> length s" using that by (simp add: substr_def)
  ultimately show "\<exists>a b. a \<le> b \<and> b \<le> length s \<and> c = screen_text label (substr a b s) \<and> length c \<le> MAX_SCREEN_CHARS"
    by (cases "n \<le> length s") (metis substr_drop, metis le0 order_refl)
qed

lemma pieces_append: "pieces label s (xs @ ys) \<longleftrightarrow> pieces label s xs \<and> pieces label s ys"
  by (auto simp: pieces_def)

lemma boundedChunk_covers:
  assumes "short_label label"
  shows "covered label s (boundedChunk label s)"
proof (rule boundedChunk_induct [OF assms, where P = "covered label"])
  fix s assume "trim s = []"
  then show "covered label s []" by (simp add: covered_def trim_Nil_iff)
next
  fix s show "covered label s [screen_text label s]"
    unfolding covered_def by (metis le0 list.set_intros(1) order_refl substr_all)
next
  fix s :: string
  let ?l = "take (chunk_mid s + chunk_overlap s) s" and ?r = "drop (chunk_mid s - chunk_overlap s) s"
  assume IH: "covered label ?l (boundedChunk label ?l)" "covered label ?r (boundedChunk label ?r)"
  show "covered label s (boundedChunk label ?l @ boundedChunk label ?r)"
    unfolding covered_def
  proof (intro allI impI)
    fix i assume "i < length s" "\<not> is_space (s ! i)"
    then show "\<exists>a b. a \<le> i \<and> i < b \<and> b \<le> length s \<and>
        screen_text label (substr a b s) \<in> set (boundedChunk label ?l @ boundedChunk label ?r)"
      using covered_take [OF IH(1)] covered_drop [OF IH(2)]
      by (cases "i < chunk_mid s + chunk_overlap s") fastforce+
  qed
qed

lemma boundedChunk_pieces:
  assumes "short_label label"
  shows "pieces label s (boundedChunk label s)"
proof (rule boundedChunk_induct [OF assms, where P = "pieces label"])
  fix s assume "length (screen_text label s) \<le> MAX_SCREEN_CHARS"
  then show "pieces label s [screen_text label s]"
    unfolding pieces_def by (metis le0 list.set(1) list.set(2) order_refl singletonD substr_all)
qed (auto simp: pieces_append intro: pieces_take pieces_drop, simp add: pieces_def)

text \<open>The windows of the loop.\<close>

lemma chunk_from_window:
  assumes "start + 7000 * k = 0 \<or> start + 7000 * k + 500 < length data"
  shows "set (boundedChunk label (take 7500 (drop (start + 7000 * k) data))) \<subseteq> set (chunk_from label data start)"
  using assms
proof (induction k arbitrary: start)
  case 0
  then show ?case by (subst chunk_from.simps) (auto simp: SCREEN_CHUNK_CHARS_def SCREEN_CHUNK_OVERLAP_def)
next
  case (Suc k)
  have "set (chunk_from label data (start + 7000)) \<subseteq> set (chunk_from label data start)"
    using Suc.prems by (subst (2) chunk_from.simps) (auto simp: SCREEN_CHUNK_CHARS_def SCREEN_CHUNK_OVERLAP_def)
  moreover have "set (boundedChunk label (take 7500 (drop (start + 7000 + 7000 * k) data)))
      \<subseteq> set (chunk_from label data (start + 7000))"
    using Suc.prems by (intro Suc.IH) simp
  moreover have "start + 7000 + 7000 * k = start + 7000 * Suc k" by simp
  ultimately show ?case by auto
qed

lemma chunk_from_pieces: "short_label label \<Longrightarrow> pieces label data (chunk_from label data start)"
proof (induction label data start rule: chunk_from.induct)
  case (1 label data start)
  have "pieces label data (boundedChunk label (take SCREEN_CHUNK_CHARS (drop start data)))"
    using boundedChunk_pieces [OF 1(2)] pieces_take pieces_drop by blast
  then show ?case
    using 1 by (subst chunk_from.simps) (auto simp: pieces_append, auto simp: pieces_def)
qed

lemma chunks_cover:
  assumes "short_label label"
  shows "covered label data (securityScreenChunks label data)"
  unfolding covered_def
proof (intro allI impI)
  fix i assume i: "i < length data" "\<not> is_space (data ! i)"
  define k where "k = (if i < 7500 then 0 else (i - 500) div 7000)"
  have k: "7000 * k \<le> i" "i < 7000 * k + 7500" "7000 * k = 0 \<or> 7000 * k + 500 < length data"
    using i(1) by (auto simp: k_def)
  let ?w = "take 7500 (drop (7000 * k) data)"
  have "covered label ?w (securityScreenChunks label data)"
    using covered_mono [OF boundedChunk_covers [OF assms], of ?w] chunk_from_window [of 0 k data label] k(3)
    by (simp add: securityScreenChunks_def)
  then have "covered label (drop (7000 * k) (take (7000 * k + 7500) data)) (securityScreenChunks label data)"
    by (simp add: drop_take)
  then obtain a b where "a \<le> i" "i < b" "b \<le> length (take (7000 * k + 7500) data)"
    "screen_text label (substr a b (take (7000 * k + 7500) data)) \<in> set (securityScreenChunks label data)"
    using covered_drop [of label "7000 * k" "take (7000 * k + 7500) data" "securityScreenChunks label data" i] i k
    by force
  then show "\<exists>a b. a \<le> i \<and> i < b \<and> b \<le> length data \<and> screen_text label (substr a b data) \<in> set (securityScreenChunks label data)"
    by (metis length_take min.bounded_iff substr_take less_imp_le order_trans)
qed

subsection \<open>What an allowed tool result has been through\<close>

lemma screen_batches_prefix:
  "\<exists>n. screen_batches classify chunks verdicts = verdicts @ map classify (take n chunks) \<and>
     (list_ex strict_verdict (screen_batches classify chunks verdicts) \<or> length chunks \<le> n)"
proof (induction classify chunks verdicts rule: screen_batches.induct)
  case (1 classify chunks verdicts)
  show ?case
  proof (cases "chunks = [] \<or> list_ex strict_verdict verdicts")
    case True
    then show ?thesis by (subst screen_batches.simps, subst screen_batches.simps) (auto intro: exI [of _ 0])
  next
    case False
    let ?go = "screen_batches classify (drop 4 chunks) (verdicts @ map classify (take 4 chunks))"
    have step: "screen_batches classify chunks verdicts = ?go" using False by (subst screen_batches.simps) simp
    obtain n where n: "?go = (verdicts @ map classify (take 4 chunks)) @ map classify (take n (drop 4 chunks))"
      "list_ex strict_verdict ?go \<or> length chunks - 4 \<le> n"
      using 1 [OF False] by auto
    have "?go = verdicts @ map classify (take (4 + n) chunks)"
      using n(1) by (simp add: take_add)
    moreover have "list_ex strict_verdict ?go \<or> length chunks \<le> 4 + n" using n(2) by linarith
    ultimately show ?thesis unfolding step by blast
  qed
qed

lemma screen_verdict_clean:
  assumes "clean_verdict (screen_verdict classify chunks)"
  shows "\<forall>c \<in> set chunks. clean_verdict (classify c)"
proof -
  let ?vs = "screen_batches classify chunks []"
  obtain n where n: "?vs = map classify (take n chunks)" "list_ex strict_verdict ?vs \<or> length chunks \<le> n"
    using screen_batches_prefix [of classify chunks "[]"] by auto
  have no: "\<not> (clean_verdict v \<and> strict_verdict v)" for v by (auto simp: clean_verdict_def strict_verdict_def split: option.splits)
  have nf: "List.find strict_verdict ?vs = None"
  proof (cases "List.find strict_verdict ?vs")
    case (Some v)
    then have "strict_verdict v" using find_Some_mem by fast
    then show ?thesis using Some assms no by (simp add: screen_verdict_def)
  qed
  then have "\<not> list_ex strict_verdict ?vs" by (auto simp: find_None_iff_all list_ex_iff)
  then have "?vs = map classify chunks" using n by simp
  moreover have "list_all clean_verdict ?vs"
    using assms nf by (auto simp: screen_verdict_def clean_verdict_def Let_def split: if_splits)
  ultimately show ?thesis by (simp add: list_all_iff)
qed

lemma screen_verdict_strict:
  assumes "c \<in> set chunks" "strict_verdict (classify c)"
  shows "strict_verdict (screen_verdict classify chunks)"
proof -
  let ?vs = "screen_batches classify chunks []"
  obtain n where n: "?vs = map classify (take n chunks)" "list_ex strict_verdict ?vs \<or> length chunks \<le> n"
    using screen_batches_prefix [of classify chunks "[]"] by auto
  have "list_ex strict_verdict ?vs"
    using n assms by (auto simp: list_ex_iff)
  then obtain v where "List.find strict_verdict ?vs = Some v"
    by (metis find_None_iff_all list_ex_iff option.exhaust)
  then show ?thesis using find_Some_mem by (fastforce simp: screen_verdict_def Let_def)
qed

lemma label_char_plain: "label_char c \<or> c = CHR '':'' \<Longrightarrow> json_escape c = [c]"
  by (auto simp: label_char_def json_escape_def Let_def)

lemma unescaped: "\<forall>c \<in> set s. json_escape c = [c] \<Longrightarrow> concat (map json_escape s) = s"
  by (induction s) auto

lemma toolLabelOf_chars: "c \<in> set (toolLabelOf t) \<Longrightarrow> label_char c"
  by (auto simp: toolLabelOf_def label_char_def split: if_splits)

lemma length_toolLabelOf [simp]: "length (toolLabelOf t) = length t"
  by (simp add: toolLabelOf_def)

lemma screen_label_short:
  assumes "length (ti_tool i) + length (case ti_source i of Some s \<Rightarrow> s | None \<Rightarrow> []) \<le> 15000"
  shows "short_label (screen_label i)"
proof -
  have "\<forall>c \<in> set (screen_label i). json_escape c = [c]"
    using toolLabelOf_chars label_char_plain
    by (fastforce simp: screen_label_def label_char_def json_escape_def split: option.splits if_splits)
  then have "concat (map json_escape (screen_label i)) = screen_label i" by (rule unescaped)
  moreover have "length (screen_label i) \<le> 15013"
    using assms by (auto simp: screen_label_def split: option.splits)
  ultimately show ?thesis by (simp add: short_label_def json_quote_def) (simp add: screen_label_def)
qed

lemma screenToolResult_allow:
  assumes "fst (screenToolResult classify i st) = ScreenAllow" "ti_provenance i = FromExternal"
    and "\<not> fst (authorizeCommand (screen_release_key (ti_tool i)) None (ss_uses st))"
  shows "\<not> ti_unscreenable i" "\<forall>c \<in> set (securityScreenChunks (screen_label i) (ti_result i)). clean_verdict (classify c)"
proof -
  let ?chunks = "if ti_unscreenable i then [] else securityScreenChunks (screen_label i) (ti_result i)"
  have none: "screen_verdict classify [] = None"
    by (simp add: screen_verdict_def screen_batches.simps)
  have "fst (quarantine_result i v st) \<noteq> ScreenAllow" for v
    using assms(3) by (auto simp: quarantine_result_def Let_def split: prod.splits if_splits)
  then have "\<not> ti_unscreenable i \<and> ?chunks = [] \<or> clean_verdict (screen_verdict classify ?chunks)"
    using assms(1,2) by (auto simp: screenToolResult_def Let_def split: prod.splits if_splits)
  then have "\<not> ti_unscreenable i \<and> (\<forall>c \<in> set ?chunks. clean_verdict (classify c))"
    using screen_verdict_clean [of classify ?chunks] none by (auto simp: clean_verdict_def)
  then show "\<not> ti_unscreenable i" "\<forall>c \<in> set (securityScreenChunks (screen_label i) (ti_result i)). clean_verdict (classify c)"
    by auto
qed

text \<open>C35: A tool result from outside that is allowed into the conversation, while no person has an unused release for the tool, was screened in full: every character of it that is not white space lies in a piece of the result that the classifier was given whole, within its size limit, and found clean.\<close>

theorem allowed_result_screened:
  assumes "fst (screenToolResult classify i st) = ScreenAllow" "ti_provenance i = FromExternal"
    and "\<not> fst (authorizeCommand (screen_release_key (ti_tool i)) None (ss_uses st))"
    and "length (ti_tool i) + length (case ti_source i of Some s \<Rightarrow> s | None \<Rightarrow> []) \<le> 15000"
    and "j < length (ti_result i)" "\<not> is_space (ti_result i ! j)"
  shows "\<not> ti_unscreenable i \<and>
    (\<exists>a b. a \<le> j \<and> j < b \<and> b \<le> length (ti_result i) \<and>
       length (screen_text (screen_label i) (substr a b (ti_result i))) \<le> MAX_SCREEN_CHARS \<and>
       clean_verdict (classify (screen_text (screen_label i) (substr a b (ti_result i)))))"
proof -
  let ?label = "screen_label i"
  note short = screen_label_short [OF assms(4)]
  obtain a b where ab: "a \<le> j" "j < b" "b \<le> length (ti_result i)"
    and mem: "screen_text ?label (substr a b (ti_result i)) \<in> set (securityScreenChunks ?label (ti_result i))"
    using chunks_cover [OF short, of "ti_result i"] assms(5,6) unfolding covered_def by blast
  have "length (screen_text ?label (substr a b (ti_result i))) \<le> MAX_SCREEN_CHARS"
    using chunk_from_pieces [OF short] mem unfolding pieces_def securityScreenChunks_def by blast
  then show ?thesis using ab mem screenToolResult_allow [OF assms(1-3)] by blast
qed

definition demo_tool_result :: tool_result_screen_input where
  "demo_tool_result = \<lparr>ti_tool = ''web'', ti_result = ''hi'', ti_unscreenable = False, ti_provenance = FromExternal, ti_source = None\<rparr>"

definition demo_screen_state :: screen_state where
  "demo_screen_state = \<lparr>ss_uses = [], ss_approvals = [], ss_audit = []\<rparr>"

definition demo_classifier :: "string \<Rightarrow> security_screen_verdict option" where
  "demo_classifier c = Some \<lparr>sv_decision = DecideAuto, sv_reason = None, sv_unscreened = False\<rparr>"

lemma demo_label: "screen_label demo_tool_result = ''tool_result:web''"
  by code_simp

lemma demo_result_allowed: "fst (screenToolResult demo_classifier demo_tool_result demo_screen_state) = ScreenAllow"
  by code_simp

theorem allowed_result_screened_witness:
  "\<exists>a b. a \<le> 1 \<and> 1 < b \<and> b \<le> 2 \<and>
     clean_verdict (demo_classifier (screen_text ''tool_result:web'' (substr a b ''hi'')))"
proof -
  have "\<not> is_space (ti_result demo_tool_result ! 1)" "1 < length (ti_result demo_tool_result)" by code_simp+
  moreover have "ti_provenance demo_tool_result = FromExternal"
    "\<not> fst (authorizeCommand (screen_release_key (ti_tool demo_tool_result)) None (ss_uses demo_screen_state))"
    "length (ti_tool demo_tool_result) + length (case ti_source demo_tool_result of Some s \<Rightarrow> s | None \<Rightarrow> []) \<le> 15000"
    by (simp_all add: demo_tool_result_def demo_screen_state_def authorizeCommand_def)
  ultimately have "\<exists>a b. a \<le> 1 \<and> 1 < b \<and> b \<le> length (ti_result demo_tool_result) \<and>
     clean_verdict (demo_classifier (screen_text (screen_label demo_tool_result) (substr a b (ti_result demo_tool_result))))"
    using allowed_result_screened [OF demo_result_allowed, of 1] by blast
  then show ?thesis unfolding demo_label by (simp add: demo_tool_result_def numeral_2_eq_2)
qed

text \<open>A chunk found strict quarantines the result unless a person has released it.\<close>

lemma strict_chunk_quarantined:
  assumes "ti_provenance i = FromExternal" "\<not> ti_unscreenable i"
    and "\<not> fst (authorizeCommand (quarantineReleaseKey (ti_tool i)) (Some (quarantineReleaseKey (ti_tool i))) (ss_uses st))"
    and "\<not> fst (authorizeCommand (screen_release_key (ti_tool i)) None (ss_uses st))"
    and "c \<in> set (securityScreenChunks (screen_label i) (ti_result i))" "strict_verdict (classify c)"
  shows "\<exists>reason. fst (screenToolResult classify i st) = ScreenQuarantine reason"
    "screen_release_key (ti_tool i) \<in> set (ss_approvals (snd (screenToolResult classify i st)))"
proof -
  let ?v = "screen_verdict classify (securityScreenChunks (screen_label i) (ti_result i))"
  have strict: "strict_verdict ?v" using screen_verdict_strict assms(5,6) by blast
  then have "\<not> clean_verdict ?v" by (auto simp: clean_verdict_def strict_verdict_def split: option.splits)
  then have "screenToolResult classify i st = quarantine_result i ?v st"
    using assms(1-3,5) strict
    by (auto simp: screenToolResult_def Let_def split: prod.splits)
  then show "\<exists>reason. fst (screenToolResult classify i st) = ScreenQuarantine reason"
    "screen_release_key (ti_tool i) \<in> set (ss_approvals (snd (screenToolResult classify i st)))"
    using assms(4) by (auto simp: quarantine_result_def Let_def screen_audit_def split: prod.splits)
qed

text \<open>A scope can raise the posture of the organisation and never lower it.\<close>

lemma composeSecurityPosture_floor:
  "posture_rank org \<le> posture_rank (composeSecurityPosture org scope)"
  by (simp add: composeSecurityPosture_def split: option.splits)

subsection \<open>Reading a verdict out of prose\<close>

definition within :: "nat \<Rightarrow> bool \<Rightarrow> object_scan" where
  "within d literal = \<lparr>os_depth = Suc d, os_inStr = literal, os_esc = False\<rparr>"

definition passes :: "string \<Rightarrow> bool" where
  "passes t \<longleftrightarrow>
     (\<forall>d rest acc. scan_object (t @ rest) (within d False) acc = scan_object rest (within d False) (acc @ t))"

lemma passes_Nil [simp]: "passes []"
  by (simp add: passes_def)

lemma passes_append: "passes s \<Longrightarrow> passes t \<Longrightarrow> passes (s @ t)"
  by (simp add: passes_def)

lemma passes_plain: "c \<notin> {CHR 0x22, CHR ''{'', CHR ''}''} \<Longrightarrow> passes [c]"
  by (simp add: passes_def within_def scan_char_def)

lemma passes_Cons: "c \<notin> {CHR 0x22, CHR ''{'', CHR ''}''} \<Longrightarrow> passes t \<Longrightarrow> passes (c # t)"
  using passes_append [OF passes_plain, of c t] by simp

lemma passes_all_plain: "\<forall>c \<in> set t. c \<notin> {CHR 0x22, CHR ''{'', CHR ''}''} \<Longrightarrow> passes t"
  by (induction t) (auto intro: passes_Cons)

lemma passes_join: "\<forall>t \<in> set ts. passes t \<Longrightarrow> passes (join_with '','' ts)"
  by (induction "'',''" ts rule: join_with.induct) (auto intro!: passes_append passes_Cons)

lemma passes_braces: "passes t \<Longrightarrow> passes (CHR ''{'' # t @ ''}'')"
  unfolding passes_def
proof (intro allI)
  fix d rest acc
  assume t: "\<forall>d rest acc. scan_object (t @ rest) (within d False) acc = scan_object rest (within d False) (acc @ t)"
  have "scan_object ((CHR ''{'' # t @ ''}'') @ rest) (within d False) acc =
      scan_object (t @ CHR ''}'' # rest) (within (Suc d) False) (acc @ ''{'')"
    by (simp add: within_def scan_char_def)
  also have "\<dots> = scan_object (CHR ''}'' # rest) (within (Suc d) False) (acc @ ''{'' @ t)" using t by simp
  also have "\<dots> = scan_object rest (within d False) (acc @ CHR ''{'' # t @ ''}'')"
    by (simp add: within_def scan_char_def)
  finally show "scan_object ((CHR ''{'' # t @ ''}'') @ rest) (within d False) acc =
      scan_object rest (within d False) (acc @ CHR ''{'' # t @ ''}'')" .
qed

lemma hex_char_code: "n < 16 \<Longrightarrow> of_char (hex_char n) = (if n < 10 then 48 + n else 87 + n)"
  by (simp add: hex_char_def of_char_of)

lemma hex_char_plain: "n < 16 \<Longrightarrow> hex_char n \<noteq> CHR 0x22 \<and> hex_char n \<noteq> CHR 0x5C"
  using hex_char_code [of n] by (auto dest!: arg_cong [where f = "of_char :: char \<Rightarrow> nat"] split: if_splits)

lemma scan_escape:
  "scan_object (json_escape c @ rest) (within d True) acc = scan_object rest (within d True) (acc @ json_escape c)"
proof (cases "of_char c \<in> {34, 92, 8, 9, 10, 12, 13 :: nat}")
  case True
  then show ?thesis by (auto simp: json_escape_def within_def scan_char_def Let_def)
next
  case False
  then have ne: "c \<noteq> CHR 0x22" "c \<noteq> CHR 0x5C" by auto
  show ?thesis
  proof (cases "of_char c < (32 :: nat)")
    case True
    then have "of_char c div 16 < (16 :: nat)" "of_char c mod 16 < (16 :: nat)" by auto
    then show ?thesis
      using False True hex_char_plain [of "of_char c div 16"] hex_char_plain [of "of_char c mod 16"]
      by (simp add: json_escape_def within_def scan_char_def Let_def)
  next
    case plain: False
    then show ?thesis using False ne by (simp add: json_escape_def within_def scan_char_def Let_def)
  qed
qed

lemma scan_escapes:
  "scan_object (concat (map json_escape s) @ rest) (within d True) acc =
   scan_object rest (within d True) (acc @ concat (map json_escape s))"
  by (induction s arbitrary: acc) (simp_all add: scan_escape)

lemma passes_quote: "passes (json_quote s)"
proof -
  have open_quote: "scan_object (CHR 0x22 # r) (within d False) acc = scan_object r (within d True) (acc @ [CHR 0x22])" for r d acc
    by (simp add: within_def scan_char_def)
  have close_quote: "scan_object (CHR 0x22 # r) (within d True) acc = scan_object r (within d False) (acc @ [CHR 0x22])" for r d acc
    by (simp add: within_def scan_char_def)
  show ?thesis by (simp add: passes_def json_quote_def open_quote close_quote scan_escapes del: scan_object.simps)
qed

lemma passes_digits: "passes (nat_digits n)"
proof (rule passes_all_plain)
  have "CHR 0x22 \<notin> char_of ` {48..57 :: nat}" "CHR ''{'' \<notin> char_of ` {48..57 :: nat}" "CHR ''}'' \<notin> char_of ` {48..57 :: nat}"
    by (auto dest!: arg_cong [where f = "of_char :: char \<Rightarrow> nat"] simp: of_char_of)
  then show "\<forall>c \<in> set (nat_digits n). c \<notin> {CHR 0x22, CHR ''{'', CHR ''}''}"
    using nat_digits_small [of n] by blast
qed

lemma passes_stringify: "passes (stringify v)"
proof (induction v rule: stringify.induct)
  case (3 i)
  then show ?case by (auto simp: int_text_def intro: passes_Cons passes_digits)
next
  case (5 xs)
  then have "passes (join_with '','' (map stringify xs))" by (intro passes_join) auto
  then show ?case by (auto intro!: passes_Cons passes_append)
next
  case (6 kvs)
  have "passes (json_quote k @ '':'' @ stringify v)" if "(k, v) \<in> set kvs" for k v
    using 6 that by (auto intro!: passes_append passes_quote passes_Cons)
  then have "passes (join_with '','' (map (\<lambda>(k, v). json_quote k @ '':'' @ stringify v) kvs))"
    by (intro passes_join) auto
  then show ?case using passes_braces by simp
qed (auto intro!: passes_Cons passes_quote)

lemma scan_prose:
  "\<forall>c \<in> set pre. c \<noteq> CHR 0x22 \<and> c \<noteq> CHR ''{'' \<Longrightarrow> scan_object (pre @ rest) scan_start [] = scan_object rest scan_start []"
  by (induction pre) (auto simp: scan_start_def scan_char_def)

lemma scan_finds_object:
  assumes "\<forall>c \<in> set pre. c \<noteq> CHR 0x22 \<and> c \<noteq> CHR ''{''"
  shows "scan_object (pre @ stringify (JObj kvs) @ post) scan_start [] = Some (stringify (JObj kvs))"
proof -
  let ?t = "join_with '','' (map (\<lambda>(k, v). json_quote k @ '':'' @ stringify v) kvs)"
  have t: "passes ?t"
    by (intro passes_join) (auto intro!: passes_append passes_quote passes_Cons passes_stringify)
  have "scan_object (pre @ stringify (JObj kvs) @ post) scan_start [] =
      scan_object (?t @ CHR ''}'' # post) (within 0 False) ''{''"
    using scan_prose [OF assms] by (simp add: scan_start_def within_def scan_char_def)
  also have "\<dots> = scan_object (CHR ''}'' # post) (within 0 False) (''{'' @ ?t)"
    using t unfolding passes_def by blast
  also have "\<dots> = Some (stringify (JObj kvs))" by (simp add: within_def scan_char_def)
  finally show ?thesis .
qed

text \<open>The verdict of a classifier that answers with a JSON object is read back from whatever prose surrounds it, provided that no quotation mark and no opening brace comes first: a strict decision is never lost, an auto decision is never invented, and any other decision counts as not screened.\<close>

lemma verdict_read_back:
  assumes "\<forall>c \<in> set pre. c \<noteq> CHR 0x22 \<and> c \<noteq> CHR ''{''" "parse (stringify (JObj kvs)) = Some (JObj kvs)"
  shows "parseSecurityScreenVerdict parse (Some (pre @ stringify (JObj kvs) @ post)) =
    Some (if map_of kvs ''decision'' = Some (JStr ''auto'')
          then \<lparr>sv_decision = DecideAuto, sv_reason = None, sv_unscreened = False\<rparr>
          else if map_of kvs ''decision'' = Some (JStr ''strict'')
          then \<lparr>sv_decision = DecideStrict, sv_reason = verdict_reason (map_of kvs ''reason''), sv_unscreened = False\<rparr>
          else invalid_verdict)"
proof -
  have "CHR ''{'' \<in> set (pre @ stringify (JObj kvs) @ post)" "\<not> is_space (CHR ''{'')" by (simp_all add: is_space_def)
  then have "trim (pre @ stringify (JObj kvs) @ post) \<noteq> []" unfolding trim_Nil_iff by blast
  then show ?thesis
    using scan_finds_object [OF assms(1)] assms(2)
    by (simp add: parseSecurityScreenVerdict_def firstJsonObject_def del: stringify.simps)
qed

definition demo_parse :: "string \<Rightarrow> json option" where
  "demo_parse t =
     (if t = stringify (JObj [(''decision'', JStr ''strict'')]) then Some (JObj [(''decision'', JStr ''strict'')]) else None)"

lemma verdict_read_back_witness:
  "parseSecurityScreenVerdict demo_parse
     (Some (''Verdict: '' @ stringify (JObj [(''decision'', JStr ''strict'')]) @ '' as asked''))
   = Some \<lparr>sv_decision = DecideStrict, sv_reason = None, sv_unscreened = False\<rparr>"
  using verdict_read_back [of "''Verdict: ''" demo_parse "[(''decision'', JStr ''strict'')]" "'' as asked''"]
  by (simp add: demo_parse_def verdict_reason_def)

end
