(* ===== verification/Screen_Proxy.thy ===== *)
theory Screen_Proxy
  imports Complex_Main Security_Screen "HOL-Library.Word" "HOL-Library.Sublist"
begin

text \<open>
  The screening proxy (\<^verbatim>\<open>src/src/security/security-screener.ts\<close>): cutting a payload into chunks that never split
  a surrogate pair, the retries of one chunk, the classification of the chunks two at a time and the verdict
  over all of them. Texts are lists of UTF-16 code units. The replies of the HTTP service, the moments at which
  the abort signal is seen and the order in which two failing requests fail are parameters.
\<close>

type_synonym units = "16 word list"

subsection \<open>Surrogates\<close>

definition is_lead :: "16 word \<Rightarrow> bool" where
  "is_lead u \<longleftrightarrow> 0xD800 \<le> u \<and> u \<le> 0xDBFF"

definition is_trail :: "16 word \<Rightarrow> bool" where
  "is_trail u \<longleftrightarrow> 0xDC00 \<le> u \<and> u \<le> 0xDFFF"

fun toWellFormed :: "units \<Rightarrow> units" where
  "toWellFormed [] = []"
| "toWellFormed [u] = [if is_lead u \<or> is_trail u then 0xFFFD else u]"
| "toWellFormed (u # v # us) =
     (if is_lead u \<and> is_trail v then u # v # toWellFormed us
      else (if is_lead u \<or> is_trail u then 0xFFFD else u) # toWellFormed (v # us))"

definition well_formed :: "units \<Rightarrow> bool" where
  "well_formed t \<longleftrightarrow>
     (\<forall>i < length t. (is_lead (t ! i) \<longrightarrow> Suc i < length t \<and> is_trail (t ! Suc i)) \<and>
                     (is_trail (t ! i) \<longrightarrow> 0 < i \<and> is_lead (t ! (i - 1))))"

lemma lead_trail_disjoint: "is_lead u \<Longrightarrow> \<not> is_trail u"
  by (auto simp: is_lead_def is_trail_def word_le_nat_alt)

lemma replacement_plain [simp]: "\<not> is_lead 0xFFFD" "\<not> is_trail 0xFFFD"
  by (simp_all add: is_lead_def is_trail_def word_le_nat_alt)

subsection \<open>Chunks\<close>

definition SECURITY_SCREEN_CHUNK_CHARS :: nat where "SECURITY_SCREEN_CHUNK_CHARS = 1600"
definition SECURITY_SCREEN_CHUNK_OVERLAP_CHARS :: nat where "SECURITY_SCREEN_CHUNK_OVERLAP_CHARS = 256"
definition MAX_SECURITY_SCREEN_CHARS :: nat where "MAX_SECURITY_SCREEN_CHARS = 16000"

definition chunk_end :: "units \<Rightarrow> nat \<Rightarrow> nat" where
  "chunk_end t start =
     (let e = min (start + SECURITY_SCREEN_CHUNK_CHARS) (length t) in
      if e < length t \<and> is_trail (t ! e) then e - 1 else e)"

definition chunk_next :: "units \<Rightarrow> nat \<Rightarrow> nat" where
  "chunk_next t start =
     (let s = max (chunk_end t start - SECURITY_SCREEN_CHUNK_OVERLAP_CHARS) (start + 1) in
      if is_trail (t ! s) then s + 1 else s)"

text \<open>The loop as it is written, without a bound: a run that did not end would be \<open>None\<close>.\<close>

partial_function (option) chunk_loop :: "units \<Rightarrow> nat \<Rightarrow> units list \<Rightarrow> units list option" where
  "chunk_loop t start chunks =
     (if start < length t then
        (if chunk_end t start = length t then Some (chunks @ [substr start (chunk_end t start) t])
         else chunk_loop t (chunk_next t start) (chunks @ [substr start (chunk_end t start) t]))
      else Some chunks)"

declare chunk_loop.simps [code]

definition proxy_chunks :: "units \<Rightarrow> units list option" where
  "proxy_chunks payload =
     (let normalized = toWellFormed payload in
      if length normalized \<le> SECURITY_SCREEN_CHUNK_CHARS then Some [normalized] else chunk_loop normalized 0 [])"

subsection \<open>Classification of one chunk\<close>

datatype outcome_field = NoOutcome | OtherOutcome | TextOutcome string

text \<open>A parsed reply; a score that is not a finite number is \<open>None\<close>.\<close>

record proxy_reply =
  pr_score :: "rat option"
  pr_threshold :: "rat option"
  pr_outcome :: outcome_field

record screen_classification =
  sc_verdict :: security_screen_verdict
  sc_score :: rat
  sc_threshold :: rat
  sc_outcome :: "string option"

datatype proxy_error =
    InvalidJson | InvalidClassification | InvalidScores | InvalidOutcome
  | HttpError nat | ResponseTooLarge | RetryExhausted | Aborted | PayloadTooLarge | ShadowCapacity

definition outcome_char :: "bool \<Rightarrow> char \<Rightarrow> bool" where
  "outcome_char first c =
     (let n = of_char c :: nat in
      (97 \<le> n \<and> n \<le> 122) \<or> (48 \<le> n \<and> n \<le> 57) \<or> (\<not> first \<and> (n = 46 \<or> n = 95 \<or> n = 45)))"

definition valid_outcome :: "string \<Rightarrow> bool" where
  "valid_outcome s \<longleftrightarrow> s \<noteq> [] \<and> outcome_char True (hd s) \<and> list_all (outcome_char False) (tl s) \<and> length s \<le> 128"

definition unit_score :: "rat option \<Rightarrow> bool" where
  "unit_score s = (case s of Some x \<Rightarrow> 0 \<le> x \<and> x \<le> 1 | None \<Rightarrow> False)"

fun outcome_text :: "outcome_field \<Rightarrow> string option" where
  "outcome_text (TextOutcome s) = Some s"
| "outcome_text _ = None"

definition outcome_ok :: "outcome_field \<Rightarrow> bool" where
  "outcome_ok f = (case f of NoOutcome \<Rightarrow> True | OtherOutcome \<Rightarrow> False | TextOutcome s \<Rightarrow> valid_outcome s)"

text \<open>
  The body of a reply: a text that is no JSON, a JSON value that is no object, or an object.
\<close>

datatype proxy_body = NotJson | NotObject | ObjectBody proxy_reply

definition classification_of :: "string \<Rightarrow> proxy_body \<Rightarrow> proxy_error + screen_classification" where
  "classification_of provider body =
     (case body of
        NotJson \<Rightarrow> Inl InvalidJson
      | NotObject \<Rightarrow> Inl InvalidClassification
      | ObjectBody r \<Rightarrow>
          if \<not> unit_score (pr_score r) \<or> \<not> unit_score (pr_threshold r) then Inl InvalidScores
          else if \<not> outcome_ok (pr_outcome r) then Inl InvalidOutcome
          else
            (let score = the (pr_score r); threshold = the (pr_threshold r);
                 named = (case outcome_text (pr_outcome r) of Some o' \<Rightarrow> o' | None \<Rightarrow> ''malicious'') in
             Inr \<lparr>sc_verdict =
                    (if threshold \<le> score
                     then \<lparr>sv_decision = DecideStrict, sv_reason = Some (provider @ '':'' @ named), sv_unscreened = False\<rparr>
                     else \<lparr>sv_decision = DecideAuto, sv_reason = None, sv_unscreened = False\<rparr>),
                  sc_score = score, sc_threshold = threshold, sc_outcome = outcome_text (pr_outcome r)\<rparr>))"

subsection \<open>Retries\<close>

record http_reply =
  hr_status :: nat
  hr_ok :: bool
  hr_retryAfter :: "rat option"   \<comment> \<open>the header as a finite number\<close>
  hr_body :: "proxy_error + proxy_body"

definition SECURITY_SCREEN_RETRY_MS :: "rat list" where
  "SECURITY_SCREEN_RETRY_MS = [250, 1000, 4000]"

definition retryDelayMs :: "http_reply \<Rightarrow> rat \<Rightarrow> rat" where
  "retryDelayMs r fallback =
     (case hr_retryAfter r of Some s \<Rightarrow> if 0 \<le> s then min (s * 1000) 30000 else fallback | None \<Rightarrow> fallback)"

text \<open>One chunk: the result and the pauses before the repeated requests.\<close>

function request_chunk ::
  "string \<Rightarrow> (nat \<Rightarrow> http_reply) \<Rightarrow> nat \<Rightarrow> (proxy_error + screen_classification) \<times> rat list" where
  "request_chunk provider reply attempt =
     (if attempt \<le> length SECURITY_SCREEN_RETRY_MS then
        (let r = reply attempt in
         if hr_status r = 429 \<and> attempt < length SECURITY_SCREEN_RETRY_MS then
           (let (res, waits) = request_chunk provider reply (attempt + 1) in
            (res, retryDelayMs r (SECURITY_SCREEN_RETRY_MS ! attempt) # waits))
         else if \<not> hr_ok r then (Inl (HttpError (hr_status r)), [])
         else (and_then (hr_body r) (classification_of provider), []))
      else (Inl RetryExhausted, []))"
  by pat_completeness auto
termination
  by (relation "measure (\<lambda>(provider, reply, attempt). Suc (length SECURITY_SCREEN_RETRY_MS) - attempt)") auto

declare request_chunk.simps [simp del]

subsection \<open>All chunks\<close>

text \<open>
  Two chunks are in flight at a time. \<open>second_first\<close> tells whether, of two failing requests, the second one
  failed first; \<open>aborted\<close> whether the signal is seen as aborted before the batch at an index.
\<close>

fun classifyChunks ::
  "(nat \<Rightarrow> bool) \<Rightarrow> (nat \<Rightarrow> bool) \<Rightarrow> (units \<Rightarrow> nat \<Rightarrow> 'e + 'c) \<Rightarrow> 'e \<Rightarrow> nat \<Rightarrow> units list \<Rightarrow> 'e + 'c list" where
  "classifyChunks aborted second_first classify stop start [] = (if aborted start then Inl stop else Inr [])"
| "classifyChunks aborted second_first classify stop start [c] =
     (if aborted start then Inl stop
      else
        (case classify c start of
           Inl e \<Rightarrow> Inl e
         | Inr r \<Rightarrow> if aborted (start + 2) then Inl stop else Inr [r]))"
| "classifyChunks aborted second_first classify stop start (c # d # cs) =
     (if aborted start then Inl stop
      else
        (case (classify c start, classify d (start + 1)) of
           (Inl e, Inl f) \<Rightarrow> Inl (if second_first start then f else e)
         | (Inl e, Inr _) \<Rightarrow> Inl e
         | (Inr _, Inl f) \<Rightarrow> Inl f
         | (Inr r, Inr s) \<Rightarrow>
             and_then (classifyChunks aborted second_first classify stop (start + 2) cs) (\<lambda>rs. Inr (r # s # rs))))"

definition worse :: "screen_classification \<Rightarrow> screen_classification \<Rightarrow> screen_classification" where
  "worse highest current =
     (if sv_decision (sc_verdict current) \<noteq> sv_decision (sc_verdict highest)
      then (if sv_decision (sc_verdict current) = DecideStrict then current else highest)
      else if sc_score highest < sc_score current then current else highest)"

record screen_proxy =
  px_provider :: string
  px_shadow :: bool

text \<open>
  \<open>classify\<close>: the result and the number of shadow screenings in flight afterwards. \<open>None\<close> would be a call that
  does not return.
\<close>

definition proxy_classify ::
  "screen_proxy \<Rightarrow> (nat \<Rightarrow> bool) \<Rightarrow> (nat \<Rightarrow> bool) \<Rightarrow> (units \<Rightarrow> nat \<Rightarrow> nat \<Rightarrow> http_reply) \<Rightarrow> units \<Rightarrow> nat \<Rightarrow>
   ((proxy_error + screen_classification) \<times> nat) option" where
  "proxy_classify px aborted second_first reply payload activeShadow =
     (if MAX_SECURITY_SCREEN_CHARS < length payload then Some (Inl PayloadTooLarge, activeShadow)
      else if px_shadow px \<and> 2 \<le> activeShadow then Some (Inl ShadowCapacity, activeShadow)
      else
        (case proxy_chunks payload of
           None \<Rightarrow> None
         | Some chunks \<Rightarrow>
             (let entered = (if px_shadow px then activeShadow + 1 else activeShadow);
                  result =
                    and_then
                      (classifyChunks aborted second_first
                         (\<lambda>c i. fst (request_chunk (px_provider px) (reply c i) 0)) Aborted 0 chunks)
                      (\<lambda>cs. Inr (foldl worse (hd cs) (tl cs))) in
              Some (result, if px_shadow px then entered - 1 else entered))))"

subsection \<open>The loop ends and its chunks cover the text\<close>

lemma well_formed_Nil [simp]: "well_formed []"
  by (simp add: well_formed_def)

lemma well_formed_Cons: "well_formed us \<Longrightarrow> \<not> is_lead u \<Longrightarrow> \<not> is_trail u \<Longrightarrow> well_formed (u # us)"
  unfolding well_formed_def by (auto simp: nth_Cons split: nat.splits)

lemma well_formed_pair:
  assumes "well_formed us" "is_lead u" "is_trail v"
  shows "well_formed (u # v # us)"
  unfolding well_formed_def
proof (intro allI impI)
  fix i assume i: "i < length (u # v # us)"
  consider "i = 0" | "i = 1" | j where "i = Suc (Suc j)" "j < length us"
    using i by (cases i; cases "i - 1") auto
  then show "(is_lead ((u # v # us) ! i) \<longrightarrow> Suc i < length (u # v # us) \<and> is_trail ((u # v # us) ! Suc i)) \<and>
      (is_trail ((u # v # us) ! i) \<longrightarrow> 0 < i \<and> is_lead ((u # v # us) ! (i - 1)))"
  proof cases
    case 3
    then show ?thesis using assms(1) unfolding well_formed_def by (cases j) auto
  qed (use assms lead_trail_disjoint in auto)
qed

lemma toWellFormed_well_formed: "well_formed (toWellFormed t)"
proof (induction t rule: toWellFormed.induct)
  case (3 u v us)
  then show ?case by (auto intro: well_formed_pair well_formed_Cons)
qed (auto intro: well_formed_Cons)

lemma well_formed_substr:
  assumes "well_formed t" "b \<le> length t" "a < length t \<Longrightarrow> \<not> is_trail (t ! a)" "b < length t \<Longrightarrow> \<not> is_trail (t ! b)"
  shows "well_formed (substr a b t)"
  unfolding well_formed_def
proof (intro allI impI)
  fix i assume i: "i < length (substr a b t)"
  then have len: "a + i < b" "b \<le> length t" using assms(2) by (auto simp: substr_def)
  then have at_i: "substr a b t ! i = t ! (a + i)" by (simp add: substr_def)
  have lead: "is_lead (t ! (a + i)) \<Longrightarrow> Suc (a + i) < length t \<and> is_trail (t ! Suc (a + i))"
    and trail: "is_trail (t ! (a + i)) \<Longrightarrow> 0 < a + i \<and> is_lead (t ! (a + i - 1))"
    using assms(1) len unfolding well_formed_def by auto
  show "(is_lead (substr a b t ! i) \<longrightarrow> Suc i < length (substr a b t) \<and> is_trail (substr a b t ! Suc i)) \<and>
      (is_trail (substr a b t ! i) \<longrightarrow> 0 < i \<and> is_lead (substr a b t ! (i - 1)))"
  proof (intro conjI impI)
    assume "is_lead (substr a b t ! i)"
    with lead at_i have next_trail: "Suc (a + i) < length t" "is_trail (t ! Suc (a + i))" by auto
    then have "Suc (a + i) \<noteq> b" using assms(4) by auto
    with len show "Suc i < length (substr a b t)" by (auto simp: substr_def)
    with next_trail show "is_trail (substr a b t ! Suc i)" by (simp add: substr_def)
  next
    assume "is_trail (substr a b t ! i)"
    with at_i have tr: "is_trail (t ! (a + i))" by simp
    then show "0 < i" using assms(3) len by (cases i) auto
    with trail [OF tr] len show "is_lead (substr a b t ! (i - 1))" by (simp add: substr_def)
  qed
qed

lemma chunk_end_bounds:
  assumes "start < length t"
  shows "chunk_end t start \<le> length t" "chunk_end t start \<le> start + 1600" "start < chunk_end t start"
    "chunk_end t start \<noteq> length t \<Longrightarrow> start + 1599 \<le> chunk_end t start"
  using assms by (auto simp: chunk_end_def SECURITY_SCREEN_CHUNK_CHARS_def Let_def min_def split: if_splits)

lemma chunk_end_clean:
  assumes "well_formed t" "chunk_end t start < length t"
  shows "\<not> is_trail (t ! chunk_end t start)"
proof -
  let ?e = "min (start + SECURITY_SCREEN_CHUNK_CHARS) (length t)"
  show ?thesis
  proof (cases "?e < length t \<and> is_trail (t ! ?e)")
    case True
    then have "is_lead (t ! (?e - 1))" using assms(1) unfolding well_formed_def by blast
    then show ?thesis using True lead_trail_disjoint by (auto simp: chunk_end_def Let_def)
  next
    case False
    then show ?thesis using assms(2) by (auto simp: chunk_end_def Let_def split: if_splits)
  qed
qed

lemma chunk_next_bounds:
  assumes "start < length t" "chunk_end t start \<noteq> length t"
  shows "start < chunk_next t start" "chunk_next t start + 255 \<le> chunk_end t start" "chunk_next t start < length t"
proof -
  have e: "start + 1599 \<le> chunk_end t start" "chunk_end t start \<le> length t"
    using chunk_end_bounds assms by auto
  then show "start < chunk_next t start" "chunk_next t start + 255 \<le> chunk_end t start" "chunk_next t start < length t"
    by (auto simp: chunk_next_def SECURITY_SCREEN_CHUNK_OVERLAP_CHARS_def Let_def)
qed

lemma chunk_next_clean:
  assumes "well_formed t" "start < length t" "chunk_end t start \<noteq> length t"
  shows "\<not> is_trail (t ! chunk_next t start)"
proof -
  let ?s = "max (chunk_end t start - SECURITY_SCREEN_CHUNK_OVERLAP_CHARS) (start + 1)"
  have "\<not> is_trail (t ! Suc ?s)" if "is_trail (t ! ?s)"
  proof
    assume next_trail: "is_trail (t ! Suc ?s)"
    have "Suc ?s < length t"
      using chunk_next_bounds [OF assms(2,3)] that by (simp add: chunk_next_def Let_def)
    then have "is_lead (t ! ?s)" using assms(1) next_trail unfolding well_formed_def by fastforce
    then show False using that lead_trail_disjoint by blast
  qed
  then show ?thesis by (simp add: chunk_next_def Let_def)
qed

lemma substr_sublist: "a \<le> i \<Longrightarrow> i + n \<le> b \<Longrightarrow> b \<le> length t \<Longrightarrow> sublist (substr i (i + n) t) (substr a b t)"
proof -
  assume le: "a \<le> i" "i + n \<le> b" "b \<le> length t"
  have "substr i (i + n) t = take n (drop (i - a) (substr a b t))"
    using le by (simp add: substr_def drop_take min_def)
  then show ?thesis by (metis sublist_drop sublist_order.order_trans sublist_take)
qed

lemma length_substr: "length (substr a b t) \<le> b - a"
  by (simp add: substr_def)

definition windows_seen :: "nat \<Rightarrow> units \<Rightarrow> units list \<Rightarrow> bool" where
  "windows_seen start t chunks \<longleftrightarrow>
     (\<forall>i n. start \<le> i \<longrightarrow> n \<le> 255 \<longrightarrow> i + n \<le> length t \<longrightarrow> (\<exists>c \<in> set chunks. sublist (substr i (i + n) t) c))"

definition good_chunk :: "units \<Rightarrow> bool" where
  "good_chunk c \<longleftrightarrow> length c \<le> 1600 \<and> well_formed c"

lemma first_chunk:
  assumes "well_formed t" "start < length t" "\<not> is_trail (t ! start)"
  shows "good_chunk (substr start (chunk_end t start) t)"
  using chunk_end_bounds [OF assms(2)] chunk_end_clean [OF assms(1), of start] assms length_substr [of start "chunk_end t start" t]
  by (auto simp: good_chunk_def intro!: well_formed_substr)

lemma chunk_loop_ends:
  assumes "well_formed t" "start < length t" "\<not> is_trail (t ! start)"
  shows "\<exists>new. chunk_loop t start chunks = Some (chunks @ new) \<and> length new \<le> length t - start \<and>
    list_all good_chunk new \<and> windows_seen start t new"
  using assms(2,3)
proof (induction "length t - start" arbitrary: start chunks rule: less_induct)
  case less
  let ?e = "chunk_end t start" and ?c = "substr start (chunk_end t start) t"
  have good: "good_chunk ?c" using first_chunk assms(1) less.prems by blast
  show ?case
  proof (cases "?e = length t")
    case True
    then have "windows_seen start t [?c]" by (auto simp: windows_seen_def intro: substr_sublist)
    moreover have "chunk_loop t start chunks = Some (chunks @ [?c])"
      using less.prems True by (subst chunk_loop.simps) simp
    ultimately show ?thesis using good less.prems by (intro exI [of _ "[?c]"]) auto
  next
    case False
    let ?n = "chunk_next t start"
    note n = chunk_next_bounds [OF less.prems(1) False]
    obtain new where new: "chunk_loop t ?n (chunks @ [?c]) = Some ((chunks @ [?c]) @ new)"
      "length new \<le> length t - ?n" "list_all good_chunk new" "windows_seen ?n t new"
      using less.hyps [of ?n "chunks @ [?c]"] n chunk_next_clean [OF assms(1) less.prems(1) False]
        diff_less_mono2 [OF n(1) less.prems(1)] by blast
    have "chunk_loop t start chunks = chunk_loop t ?n (chunks @ [?c])"
      using less.prems False by (subst chunk_loop.simps) simp
    moreover have "windows_seen start t (?c # new)"
      unfolding windows_seen_def
    proof (intro allI impI)
      fix i k assume i: "start \<le> i" "k \<le> 255" "i + k \<le> length t"
      show "\<exists>c \<in> set (?c # new). sublist (substr i (i + k) t) c"
      proof (cases "i + k \<le> ?e")
        case True
        then show ?thesis
          using substr_sublist [OF i(1) True] chunk_end_bounds(1) [OF less.prems(1)] by auto
      next
        case beyond: False
        then have "?n \<le> i" using n(2) i(2) by linarith
        then show ?thesis using new(4) i unfolding windows_seen_def by auto
      qed
    qed
    ultimately show ?thesis using new good n less.prems by (intro exI [of _ "?c # new"]) auto
  qed
qed

lemma proxy_chunks_cover:
  "\<exists>chunks. proxy_chunks payload = Some chunks \<and> chunks \<noteq> [] \<and> length chunks \<le> max 1 (length payload) \<and>
     list_all good_chunk chunks \<and> windows_seen 0 (toWellFormed payload) chunks"
proof -
  let ?t = "toWellFormed payload"
  have len: "length ?t = length payload" by (induction payload rule: toWellFormed.induct) auto
  note wf = toWellFormed_well_formed [of payload]
  show ?thesis
  proof (cases "length ?t \<le> SECURITY_SCREEN_CHUNK_CHARS")
    case True
    moreover have "windows_seen 0 ?t [?t]"
      using substr_sublist [of 0 _ _ "length ?t" ?t] by (auto simp: windows_seen_def)
    ultimately show ?thesis
      using wf by (simp add: proxy_chunks_def Let_def good_chunk_def SECURITY_SCREEN_CHUNK_CHARS_def)
  next
    case False
    then have pos: "0 < length ?t" by (cases "?t = []") auto
    then have start: "\<not> is_trail (?t ! 0)" using wf unfolding well_formed_def by blast
    obtain new where new: "chunk_loop ?t 0 [] = Some new" "length new \<le> length ?t" "list_all good_chunk new"
      "windows_seen 0 ?t new"
      using chunk_loop_ends [OF wf pos start, of "[]"] by auto
    have "new \<noteq> []" using new(4) unfolding windows_seen_def by fastforce
    then show ?thesis using new False len by (auto simp: proxy_chunks_def Let_def)
  qed
qed

text \<open>C36: The loop that cuts a payload for the screening proxy ends on every text, well-formed or not. It yields at most as many chunks as there are code units; every chunk has at most 1600 code units and does not cut a surrogate pair; and every window of up to 255 code units of the normalized text lies within one chunk.\<close>

theorem proxy_chunks_total:
  "\<exists>chunks. proxy_chunks payload = Some chunks \<and> length chunks \<le> max 1 (length payload) \<and>
     (\<forall>c \<in> set chunks. length c \<le> 1600 \<and> well_formed c) \<and>
     (\<forall>i n. n \<le> 255 \<and> i + n \<le> length (toWellFormed payload) \<longrightarrow>
        (\<exists>c \<in> set chunks. sublist (substr i (i + n) (toWellFormed payload)) c))"
  using proxy_chunks_cover [of payload] by (auto simp: list_all_iff good_chunk_def windows_seen_def)

theorem proxy_chunks_total_witness:
  "\<exists>chunks. proxy_chunks [0xD83D, 0xDE00, 0x41] = Some chunks \<and> (\<exists>c \<in> set chunks. sublist [0xDE00, 0x41] c)"
proof -
  have wf: "toWellFormed [0xD83D, 0xDE00, 0x41] = [0xD83D, 0xDE00, 0x41]" by code_simp
  have window: "substr 1 (1 + 2) [0xD83D, 0xDE00, 0x41 :: 16 word] = [0xDE00, 0x41]" by code_simp
  obtain chunks where "proxy_chunks [0xD83D, 0xDE00, 0x41] = Some chunks"
    "\<forall>i n. n \<le> 255 \<and> i + n \<le> length [0xD83D, 0xDE00, 0x41 :: 16 word] \<longrightarrow>
       (\<exists>c \<in> set chunks. sublist (substr i (i + n) [0xD83D, 0xDE00, 0x41]) c)"
    using proxy_chunks_total [of "[0xD83D, 0xDE00, 0x41]"] unfolding wf by blast
  moreover have "(2 :: nat) \<le> 255 \<and> 1 + 2 \<le> length [0xD83D, 0xDE00, 0x41 :: 16 word]" by simp
  ultimately show ?thesis using window by metis
qed

subsection \<open>The verdict over all chunks\<close>

lemma classifyChunks_Inr:
  "classifyChunks aborted second_first classify stop start chunks = Inr rs \<Longrightarrow>
   list_all2 (\<lambda>(c, i) r. classify c i = Inr r) (zip chunks [start ..< start + length chunks]) rs"
proof (induction aborted second_first classify stop start chunks arbitrary: rs rule: classifyChunks.induct)
  case (3 aborted second_first classify stop start c d cs)
  then obtain r s rs' where r: "classify c start = Inr r" "classify d (start + 1) = Inr s" "rs = r # s # rs'"
    "classifyChunks aborted second_first classify stop (start + 2) cs = Inr rs'" "\<not> aborted start"
    by (auto simp: and_then_Inr split: sum.splits if_splits)
  then have IH: "list_all2 (\<lambda>(c, i) r. classify c i = Inr r) (zip cs [start + 2 ..< start + 2 + length cs]) rs'"
    using 3 by blast
  have "[start ..< start + length (c # d # cs)] = start # Suc start # [start + 2 ..< start + 2 + length cs]"
    by (simp add: upt_rec)
  then show ?case using r IH by simp
qed (auto split: sum.splits if_splits)

lemma foldl_worse_mem: "foldl worse c cs \<in> set (c # cs)"
proof (induction cs arbitrary: c)
  case (Cons d cs)
  have "worse c d \<in> {c, d}" by (simp add: worse_def)
  then show ?case using Cons [of "worse c d"] by auto
qed simp

lemma worse_strict:
  "sv_decision (sc_verdict (worse c d)) = DecideStrict \<longleftrightarrow>
     sv_decision (sc_verdict c) = DecideStrict \<or> sv_decision (sc_verdict d) = DecideStrict"
  by (auto simp: worse_def)

lemma foldl_worse_strict:
  "sv_decision (sc_verdict (foldl worse c cs)) = DecideStrict \<longleftrightarrow>
     (\<exists>x \<in> set (c # cs). sv_decision (sc_verdict x) = DecideStrict)"
  by (induction cs arbitrary: c) (auto simp: worse_strict)

lemma classification_scored:
  assumes "classification_of provider body = Inr r"
  shows "sv_decision (sc_verdict r) = DecideStrict \<longleftrightarrow> sc_threshold r \<le> sc_score r"
proof (cases body)
  case (ObjectBody reply)
  then show ?thesis
    using assms by (cases "unit_score (pr_score reply) \<and> unit_score (pr_threshold reply) \<and> outcome_ok (pr_outcome reply)")
      (auto simp: classification_of_def Let_def split: if_splits)
qed (use assms in \<open>simp_all add: classification_of_def\<close>)

lemma request_chunk_scored:
  assumes "fst (request_chunk provider reply n) = Inr r"
  shows "sv_decision (sc_verdict r) = DecideStrict \<longleftrightarrow> sc_threshold r \<le> sc_score r"
  using assms
proof (induction provider reply n rule: request_chunk.induct)
  case (1 provider reply n)
  let ?go = "n \<le> length SECURITY_SCREEN_RETRY_MS" and ?again = "hr_status (reply n) = 429 \<and> n < length SECURITY_SCREEN_RETRY_MS"
  consider "\<not> ?go" | "?go" "?again" | "?go" "\<not> ?again" by blast
  then show ?case
  proof cases
    case 1
    then show ?thesis using "1.prems" by (subst (asm) request_chunk.simps) simp
  next
    case 2
    then have "fst (request_chunk provider reply (n + 1)) = Inr r"
      using "1.prems" by (subst (asm) request_chunk.simps) (auto simp: Let_def split: prod.splits)
    then show ?thesis using "1.IH" 2 by blast
  next
    case 3
    then have "and_then (hr_body (reply n)) (classification_of provider) = Inr r"
      using "1.prems" by (subst (asm) request_chunk.simps) (auto simp: Let_def split: if_splits)
    then show ?thesis using classification_scored by (auto simp: and_then_Inr)
  qed
qed

lemma proxy_verdict_facts:
  assumes "proxy_classify px aborted second_first reply payload active = Some (Inr c, active')"
  shows "active' = active \<and> length payload \<le> MAX_SECURITY_SCREEN_CHARS"
    and "sv_decision (sc_verdict c) = DecideStrict \<Longrightarrow> sc_threshold c \<le> sc_score c"
    and "sv_decision (sc_verdict c) = DecideAuto \<Longrightarrow> n \<le> 255 \<Longrightarrow> i + n \<le> length (toWellFormed payload) \<Longrightarrow>
      \<exists>chunk k r. sublist (substr i (i + n) (toWellFormed payload)) chunk \<and>
        fst (request_chunk (px_provider px) (reply chunk k) 0) = Inr r \<and> sc_score r < sc_threshold r"
proof -
  let ?req = "\<lambda>c i. fst (request_chunk (px_provider px) (reply c i) 0)"
  obtain chunks where chunks: "proxy_chunks payload = Some chunks" "chunks \<noteq> []" "windows_seen 0 (toWellFormed payload) chunks"
    using proxy_chunks_cover [of payload] by blast
  then obtain rs where rs: "classifyChunks aborted second_first ?req Aborted 0 chunks = Inr rs" "c = foldl worse (hd rs) (tl rs)"
    and basic: "active' = active" "length payload \<le> MAX_SECURITY_SCREEN_CHARS"
    using assms by (auto simp: proxy_classify_def Let_def and_then_Inr split: if_splits)
  show "active' = active \<and> length payload \<le> MAX_SECURITY_SCREEN_CHARS" using basic by simp
  have all: "list_all2 (\<lambda>(c, i) r. ?req c i = Inr r) (zip chunks [0 ..< length chunks]) rs"
    using classifyChunks_Inr [OF rs(1)] by simp
  then have len: "length rs = length chunks" by (simp add: list_all2_lengthD [symmetric])
  have each: "?req (chunks ! k) k = Inr (rs ! k)" if "k < length chunks" for k
    using list_all2_nthD [OF all, of k] that by simp
  have ne: "rs \<noteq> []" using chunks(2) len by auto
  then have fold: "c \<in> set rs" "sv_decision (sc_verdict c) = DecideStrict \<longleftrightarrow> (\<exists>x \<in> set rs. sv_decision (sc_verdict x) = DecideStrict)"
    using foldl_worse_mem [of "hd rs" "tl rs"] foldl_worse_strict [of "hd rs" "tl rs"] rs(2) by auto
  have scored: "sv_decision (sc_verdict x) = DecideStrict \<longleftrightarrow> sc_threshold x \<le> sc_score x" if "x \<in> set rs" for x
    using that each len request_chunk_scored by (metis in_set_conv_nth)
  show "sc_threshold c \<le> sc_score c" if "sv_decision (sc_verdict c) = DecideStrict"
    using that fold scored by blast
  show "\<exists>chunk k r. sublist (substr i (i + n) (toWellFormed payload)) chunk \<and> ?req chunk k = Inr r \<and> sc_score r < sc_threshold r"
    if auto: "sv_decision (sc_verdict c) = DecideAuto" and window: "n \<le> 255" "i + n \<le> length (toWellFormed payload)"
  proof -
    obtain chunk where "chunk \<in> set chunks" "sublist (substr i (i + n) (toWellFormed payload)) chunk"
      using chunks(3) window unfolding windows_seen_def by auto
    then obtain k where k: "k < length chunks" "sublist (substr i (i + n) (toWellFormed payload)) (chunks ! k)"
      unfolding in_set_conv_nth by blast
    have "sv_decision (sc_verdict (rs ! k)) \<noteq> DecideStrict" using fold(2) auto k(1) len by auto
    then have "sc_score (rs ! k) < sc_threshold (rs ! k)" using scored [of "rs ! k"] k(1) len by auto
    then show ?thesis using k each by blast
  qed
qed

text \<open>A payload that the screening proxy passes as auto was looked at everywhere: every window of up to 255 code units of it lies in a chunk that the service scored below its threshold; and a strict verdict is the verdict of a chunk the service scored at or above it. The count of running shadow screenings is given back.\<close>

lemma proxy_verdict_sound:
  assumes "proxy_classify px aborted second_first reply payload active = Some (Inr c, active')"
  shows "active' = active \<and> length payload \<le> MAX_SECURITY_SCREEN_CHARS \<and>
    (sv_decision (sc_verdict c) = DecideStrict \<longrightarrow> sc_threshold c \<le> sc_score c) \<and>
    (sv_decision (sc_verdict c) = DecideAuto \<longrightarrow>
       (\<forall>i n. n \<le> 255 \<and> i + n \<le> length (toWellFormed payload) \<longrightarrow>
          (\<exists>chunk k r. sublist (substr i (i + n) (toWellFormed payload)) chunk \<and>
             fst (request_chunk (px_provider px) (reply chunk k) 0) = Inr r \<and> sc_score r < sc_threshold r)))"
  using proxy_verdict_facts [OF assms] by blast

definition demo_reply :: http_reply where
  "demo_reply = \<lparr>hr_status = 200, hr_ok = True, hr_retryAfter = None,
     hr_body = Inr (ObjectBody \<lparr>pr_score = Some (1 / 4), pr_threshold = Some (1 / 2), pr_outcome = NoOutcome\<rparr>)\<rparr>"

definition demo_proxy :: screen_proxy where
  "demo_proxy = \<lparr>px_provider = ''qm'', px_shadow = True\<rparr>"

definition demo_screened :: screen_classification where
  "demo_screened = \<lparr>sc_verdict = \<lparr>sv_decision = DecideAuto, sv_reason = None, sv_unscreened = False\<rparr>,
     sc_score = 1 / 4, sc_threshold = 1 / 2, sc_outcome = None\<rparr>"

lemma demo_proxy_classify:
  "proxy_classify demo_proxy (\<lambda>_. False) (\<lambda>_. False) (\<lambda>_ _ _. demo_reply) [0x41, 0x42] 0 = Some (Inr demo_screened, 0)"
  by (simp add: proxy_classify_def proxy_chunks_def MAX_SECURITY_SCREEN_CHARS_def SECURITY_SCREEN_CHUNK_CHARS_def
      request_chunk.simps demo_reply_def demo_proxy_def demo_screened_def classification_of_def unit_score_def outcome_ok_def)

lemma proxy_verdict_sound_witness:
  "\<exists>chunk r. sublist (substr 0 2 (toWellFormed [0x41, 0x42])) chunk \<and>
     fst (request_chunk (px_provider demo_proxy) (\<lambda>_. demo_reply) 0) = Inr r \<and> sc_score r < sc_threshold r"
proof -
  have "sv_decision (sc_verdict demo_screened) = DecideAuto" by (simp add: demo_screened_def)
  moreover have "(2 :: nat) \<le> 255 \<and> 0 + 2 \<le> length (toWellFormed [0x41, 0x42])" by code_simp
  ultimately show ?thesis
    using proxy_verdict_sound [OF demo_proxy_classify] by (metis add_0)
qed

end
