(* ===== verification/Webhooks.thy ===== *)
theory Webhooks
  imports Trigger_Run Wake_Envelope "HOL-Library.Product_Lexorder"
begin

text \<open>
  Inbound webhooks: the signature schemes (\<^verbatim>\<open>src/src/webhooks/verifiers.ts\<close>), the registry with its history of events
  (\<^verbatim>\<open>src/src/webhooks/webhook-store.ts\<close>) over the in-memory map, and the receiver
  (\<^verbatim>\<open>src/src/webhooks/webhook-receiver.ts\<close>), which composes them with the firing of triggers and the envelope of an
  event. The keyed hash, the digest, the parsers of the platform and its collation are parameters; a number in a
  body is an integer. A scheme or a path of a filter that names a member of \<open>Object.prototype\<close>, and an object with a
  property \<open>toString\<close> under such a path, are not modelled.
\<close>

subsection \<open>Platform\<close>

record webhook_platform =
  wp_hmacHex :: "string \<Rightarrow> string \<Rightarrow> string"
  wp_sha256Hex :: "string \<Rightarrow> string"
  wp_jsonParse :: "string \<Rightarrow> json option"
  wp_form :: "string \<Rightarrow> (string \<times> string) list"        \<comment> \<open>\<open>URLSearchParams\<close>\<close>
  wp_number :: "string \<Rightarrow> rat option"                  \<comment> \<open>\<open>Number\<close> where it is finite\<close>
  wp_collate :: "string \<Rightarrow> string"                      \<comment> \<open>sort key of \<open>localeCompare\<close>\<close>
  wp_iso :: "time \<Rightarrow> string"                            \<comment> \<open>\<open>toISOString\<close>\<close>

record verifier_input =
  vi_secret :: "string option"
  vi_headers :: "string list js_map"
  vi_rawBody :: string

definition header :: "string list js_map \<Rightarrow> string \<Rightarrow> string option" where
  "header headers name = (case map_of headers (toLowerCase name) of Some (v # _) \<Rightarrow> Some v | _ \<Rightarrow> None)"

fun js_object :: "json \<Rightarrow> bool" where
  "js_object (JObj _) = True"
| "js_object (JArr _) = True"
| "js_object _ = False"

subsection \<open>Verifiers\<close>

datatype signature_scheme = HmacSha256 | Github | Slack | Stripe | Linear | UnknownScheme string

fun scheme_name :: "signature_scheme \<Rightarrow> string" where
  "scheme_name HmacSha256 = ''hmac-sha256''"
| "scheme_name Github = ''github''"
| "scheme_name Slack = ''slack''"
| "scheme_name Stripe = ''stripe''"
| "scheme_name Linear = ''linear''"
| "scheme_name (UnknownScheme s) = s"

definition signedBodyId :: "webhook_platform \<Rightarrow> string \<Rightarrow> string \<Rightarrow> string" where
  "signedBodyId wp rawBody field =
     (case Option.bind (wp_jsonParse wp rawBody) (json_field field) of
        Some (JStr s) \<Rightarrow> s
      | _ \<Rightarrow> wp_sha256Hex wp rawBody)"

definition SLACK_TS_TOLERANCE_SECONDS :: rat where "SLACK_TS_TOLERANCE_SECONDS = 300"
definition LINEAR_TS_TOLERANCE_MS :: int where "LINEAR_TS_TOLERANCE_MS = 60 * 1000"

definition github_verify :: "webhook_platform \<Rightarrow> string \<Rightarrow> verifier_input \<Rightarrow> bool" where
  "github_verify wp secret i =
     (case header (vi_headers i) ''x-hub-signature-256'' of
        None \<Rightarrow> False
      | Some sig \<Rightarrow> sig \<noteq> [] \<and> sig = ''sha256='' @ wp_hmacHex wp secret (vi_rawBody i))"

definition slack_verify :: "webhook_platform \<Rightarrow> time \<Rightarrow> string \<Rightarrow> verifier_input \<Rightarrow> bool" where
  "slack_verify wp now secret i =
     (case (header (vi_headers i) ''x-slack-signature'', header (vi_headers i) ''x-slack-request-timestamp'') of
        (Some sig, Some ts) \<Rightarrow>
          sig \<noteq> [] \<and> ts \<noteq> [] \<and>
          (case wp_number wp ts of
             None \<Rightarrow> False
           | Some tsSeconds \<Rightarrow>
               \<not> SLACK_TS_TOLERANCE_SECONDS < \<bar>of_int now / 1000 - tsSeconds\<bar> \<and>
               sig = ''v0='' @ wp_hmacHex wp secret (''v0:'' @ ts @ '':'' @ vi_rawBody i))
      | _ \<Rightarrow> False)"

definition key_value :: "string \<Rightarrow> string \<times> string option" where
  "key_value p = (case split_on (CHR ''='') p of [] \<Rightarrow> ([], None) | [k] \<Rightarrow> (k, None) | k # v # _ \<Rightarrow> (k, Some v))"

definition stripe_verify :: "webhook_platform \<Rightarrow> string \<Rightarrow> verifier_input \<Rightarrow> bool" where
  "stripe_verify wp secret i =
     (case header (vi_headers i) ''stripe-signature'' of
        None \<Rightarrow> False
      | Some sig \<Rightarrow>
          sig \<noteq> [] \<and>
          (let parts = map key_value (split_on (CHR '','') sig);
               t = Option.bind (List.find (\<lambda>p. fst p = ''t'') parts) snd;
               v1s = List.map_filter (\<lambda>p. if fst p = ''v1'' \<and> truthy (snd p) then snd p else None) parts in
           truthy t \<and> v1s \<noteq> [] \<and> wp_hmacHex wp secret (the t @ ''.'' @ vi_rawBody i) \<in> set v1s))"

definition hmac_verify :: "webhook_platform \<Rightarrow> string \<Rightarrow> verifier_input \<Rightarrow> bool" where
  "hmac_verify wp secret i =
     (case header (vi_headers i) ''x-signature'' of
        None \<Rightarrow> False
      | Some raw \<Rightarrow>
          raw \<noteq> [] \<and>
          (if starts_with ''sha256='' raw then drop 7 raw else raw) = wp_hmacHex wp secret (vi_rawBody i))"

definition linear_verify :: "webhook_platform \<Rightarrow> time \<Rightarrow> string \<Rightarrow> verifier_input \<Rightarrow> bool" where
  "linear_verify wp now secret i =
     (case header (vi_headers i) ''linear-signature'' of
        None \<Rightarrow> False
      | Some sig \<Rightarrow>
          sig \<noteq> [] \<and> sig = wp_hmacHex wp secret (vi_rawBody i) \<and>
          (case wp_jsonParse wp (vi_rawBody i) of
             Some (JObj kvs) \<Rightarrow>
               (case map_of kvs ''webhookTimestamp'' of
                  Some (JNum ts) \<Rightarrow> \<bar>now - ts\<bar> \<le> LINEAR_TS_TOLERANCE_MS
                | _ \<Rightarrow> False)
           | _ \<Rightarrow> False))"

definition verifier_verify :: "webhook_platform \<Rightarrow> time \<Rightarrow> signature_scheme \<Rightarrow> verifier_input \<Rightarrow> bool" where
  "verifier_verify wp now scheme i =
     (case vi_secret i of
        None \<Rightarrow> False
      | Some secret \<Rightarrow>
          secret \<noteq> [] \<and>
          (case scheme of
             Github \<Rightarrow> github_verify wp secret i
           | Slack \<Rightarrow> slack_verify wp now secret i
           | Stripe \<Rightarrow> stripe_verify wp secret i
           | HmacSha256 \<Rightarrow> hmac_verify wp secret i
           | Linear \<Rightarrow> linear_verify wp now secret i
           | UnknownScheme _ \<Rightarrow> False))"

definition verifier_deliveryId :: "webhook_platform \<Rightarrow> signature_scheme \<Rightarrow> string \<Rightarrow> string" where
  "verifier_deliveryId wp scheme rawBody =
     (case scheme of
        Slack \<Rightarrow> signedBodyId wp rawBody ''event_id''
      | Stripe \<Rightarrow> signedBodyId wp rawBody ''id''
      | _ \<Rightarrow> wp_sha256Hex wp rawBody)"

definition verifier_handshake :: "signature_scheme \<Rightarrow> verifier_input \<Rightarrow> json \<Rightarrow> string option" where
  "verifier_handshake scheme i parsed =
     (case scheme of
        Github \<Rightarrow> if header (vi_headers i) ''x-github-event'' = Some ''ping'' then Some ''pong'' else None
      | Slack \<Rightarrow>
          if json_field ''type'' parsed = Some (JStr ''url_verification'')
          then (case json_field ''challenge'' parsed of Some (JStr c) \<Rightarrow> Some c | _ \<Rightarrow> None) else None
      | _ \<Rightarrow> None)"

definition getVerifier :: "signature_scheme \<Rightarrow> bool" where
  "getVerifier scheme = (case scheme of UnknownScheme _ \<Rightarrow> False | _ \<Rightarrow> True)"

subsection \<open>Registry\<close>

record webhook_verification =
  wv_scheme :: signature_scheme
  wv_secret :: "string option"

record webhook_filter =
  wf_path :: string
  wf_in :: "string list"

record webhook = trigger_base +
  wh_action :: string
  wh_verification :: webhook_verification
  wh_filters :: "webhook_filter list option"
  wh_lastDeliveryId :: "string option"
  wh_lastError :: "string option"

record create_webhook_input = create_trigger_input +
  cwi_action :: string
  cwi_verification :: webhook_verification
  cwi_filters :: "webhook_filter list option"

record webhook_event_record =
  we_deliveryId :: string
  we_receivedAt :: time
  we_payload :: string

record webhook_store =
  ws_backing :: "webhook js_map"
  ws_history :: "webhook_event_record list js_map"

datatype webhook_error = WebhookEscalation | UnsignedScheme | EmptyFilter

definition by_age :: "webhook_platform \<Rightarrow> webhook_event_record \<Rightarrow> int \<times> string" where
  "by_age wp e = (- we_receivedAt e, wp_collate wp (we_deliveryId e))"

definition add_event :: "webhook_platform \<Rightarrow> webhook_event_record \<Rightarrow> webhook_event_record list \<Rightarrow> webhook_event_record list" where
  "add_event wp e events =
     (if list_ex (\<lambda>x. we_deliveryId x = we_deliveryId e) events then events
      else take 50 (sort_key (by_age wp) (events @ [e\<lparr>we_payload := take 16100 (we_payload e)\<rparr>])))"

definition recordEvent :: "webhook_platform \<Rightarrow> string \<Rightarrow> webhook_event_record \<Rightarrow> webhook_store \<Rightarrow> webhook_store" where
  "recordEvent wp i e st =
     st\<lparr>ws_history := snd (mm_update i (add_event wp e) (snd (mm_putIfAbsent i [] (ws_history st))))\<rparr>"

definition listEvents :: "string \<Rightarrow> webhook_store \<Rightarrow> webhook_event_record list" where
  "listEvents i st = (case mm_get i (ws_history st) of Some es \<Rightarrow> es | None \<Rightarrow> [])"

definition bad_filter :: "webhook_filter \<Rightarrow> bool" where
  "bad_filter f \<longleftrightarrow> trim (wf_path f) = [] \<or> wf_in f = [] \<or> list_ex (\<lambda>v. trim v = []) (wf_in f)"

definition kept_filters :: "webhook_filter list option \<Rightarrow> webhook_filter list option" where
  "kept_filters fs = (case fs of Some (f # r) \<Rightarrow> Some (f # r) | _ \<Rightarrow> None)"

definition webhook_candidate :: "create_webhook_input \<Rightarrow> time \<Rightarrow> string \<Rightarrow> webhook" where
  "webhook_candidate input now i =
     trigger_base.extend (buildTriggerBase (create_trigger_input.truncate input) i now)
       (webhook.fields (cwi_action input) (cwi_verification input) (kept_filters (cwi_filters input)) None None)"

definition verification_json :: "webhook_verification \<Rightarrow> json" where
  "verification_json v =
     JObj ((''scheme'', JStr (scheme_name (wv_scheme v))) #
       (case wv_secret v of Some s \<Rightarrow> [(''secret'', JStr s)] | None \<Rightarrow> []))"

definition filter_json :: "webhook_filter \<Rightarrow> json" where
  "filter_json f = JObj [(''path'', JStr (wf_path f)), (''in'', JArr (map JStr (wf_in f)))]"

definition webhook_content_id :: "(string \<Rightarrow> string) \<Rightarrow> (destination \<Rightarrow> json) \<Rightarrow> create_webhook_input \<Rightarrow> string" where
  "webhook_content_id sha destinationJson input =
     hashId sha
       [contentPart (Some (JStr (ct_owner input))), contentPart (Some (JStr (ct_ownerScopeId input))),
        contentPart (Some (JStr (cwi_action input))), contentPart (Some (verification_json (cwi_verification input))),
        contentPart (map_option (\<lambda>fs. JArr (map filter_json fs)) (kept_filters (cwi_filters input))),
        contentPart (map_option destinationJson (ct_destination input))] 16"

text \<open>The function of the content identifier is passed in; the source's is \<open>webhook_content_id\<close>.\<close>

definition create_webhook ::
  "(string \<Rightarrow> string option) \<Rightarrow> (create_webhook_input \<Rightarrow> string) \<Rightarrow> create_webhook_input \<Rightarrow> time \<Rightarrow> webhook_store \<Rightarrow>
   (webhook_error + webhook) \<times> webhook_store" where
  "create_webhook links contentIdOf input now st =
     (if \<not> assertNoEscalation links (ct_owner input) (ct_createdBy input) (ct_ownerConsentedAt input)
      then (Inl WebhookEscalation, st)
      else if \<not> getVerifier (wv_scheme (cwi_verification input)) \<or> \<not> truthy (wv_secret (cwi_verification input))
      then (Inl UnsignedScheme, st)
      else if (case cwi_filters input of Some fs \<Rightarrow> list_ex bad_filter fs | None \<Rightarrow> False) then (Inl EmptyFilter, st)
      else
        (let (w, backing) = createDeduped (contentIdOf input) (webhook_candidate input now) (ws_backing st) in
         if tb_enabled w then (Inr w, st\<lparr>ws_backing := backing\<rparr>)
         else (Inr (w\<lparr>tb_enabled := True\<rparr>), st\<lparr>ws_backing := setTriggerEnabled (tb_id w) True backing\<rparr>)))"

definition get_webhook :: "string \<Rightarrow> webhook_store \<Rightarrow> webhook option" where
  "get_webhook i st = mm_get i (ws_backing st)"

definition setWebhookEnabled :: "string \<Rightarrow> bool \<Rightarrow> webhook_store \<Rightarrow> webhook_store" where
  "setWebhookEnabled i enabled st = st\<lparr>ws_backing := setTriggerEnabled i enabled (ws_backing st)\<rparr>"

definition setWebhookConsent :: "string \<Rightarrow> recipient_consent \<Rightarrow> webhook_store \<Rightarrow> webhook_store" where
  "setWebhookConsent i c st = st\<lparr>ws_backing := setTriggerRecipientConsent i c (ws_backing st)\<rparr>"

definition recordWebhookFire :: "string \<Rightarrow> time \<Rightarrow> string option \<Rightarrow> string option \<Rightarrow> webhook_store \<Rightarrow> webhook_store" where
  "recordWebhookFire i now deliveryId err st =
     st\<lparr>ws_backing := snd (mm_update i (\<lambda>w. w\<lparr>tb_lastFiredAt := Some now,
          wh_lastDeliveryId := (if truthy deliveryId then deliveryId else wh_lastDeliveryId w), wh_lastError := err\<rparr>) (ws_backing st))\<rparr>"

subsection \<open>Receiver\<close>

datatype deliver_result = Accepted | Answered200 string | Unauthorized | NotFound

definition MAX_EVENT_CHARS :: nat where "MAX_EVENT_CHARS = 16000"

text \<open>\<open>Object.fromEntries\<close> on the entries of a form.\<close>

definition form_object :: "(string \<times> string) list \<Rightarrow> json" where
  "form_object entries = JObj (fold (\<lambda>(k, v). AList.update k (JStr v)) entries [])"

text \<open>The body as a JSON value; a body that does not parse stays a text.\<close>

definition parseBody :: "webhook_platform \<Rightarrow> string list js_map \<Rightarrow> string \<Rightarrow> json" where
  "parseBody wp headers rawBody =
     (let ct = toLowerCase (case map_of headers ''content-type'' of Some (v # _) \<Rightarrow> v | _ \<Rightarrow> []) in
      if contains_text ''application/x-www-form-urlencoded'' ct then
        (case map_of (wp_form wp rawBody) ''payload'' of
           Some p \<Rightarrow>
             if p = [] then form_object (wp_form wp rawBody)
             else (case wp_jsonParse wp p of Some v \<Rightarrow> v | None \<Rightarrow> JStr rawBody)
         | None \<Rightarrow> form_object (wp_form wp rawBody))
      else (case wp_jsonParse wp rawBody of Some v \<Rightarrow> v | None \<Rightarrow> JStr rawBody))"

definition js_member :: "string \<Rightarrow> json \<Rightarrow> json option" where
  "js_member k v =
     (case v of
        JObj kvs \<Rightarrow> map_of kvs k
      | JArr xs \<Rightarrow>
          if k = ''length'' then Some (JNum (int (length xs)))
          else map_of (zip (map nat_digits [0 ..< length xs]) xs) k
      | _ \<Rightarrow> None)"

definition getPath :: "json \<Rightarrow> string \<Rightarrow> json option" where
  "getPath v path = fold (\<lambda>k acc. Option.bind acc (js_member k)) (split_on (CHR ''.'') path) (Some v)"

fun js_string :: "json \<Rightarrow> string" where
  "js_string (JStr s) = s"
| "js_string (JNum i) = int_text i"
| "js_string (JBool b) = (if b then ''true'' else ''false'')"
| "js_string JNull = ''null''"
| "js_string (JArr xs) = join_with '','' (map (\<lambda>x. if x = JNull then [] else js_string x) xs)"
| "js_string (JObj _) = ''[object Object]''"

definition passesFilters :: "webhook_filter list option \<Rightarrow> json \<Rightarrow> bool" where
  "passesFilters filters parsed =
     (case filters of
        None \<Rightarrow> True
      | Some fs \<Rightarrow>
          list_all (\<lambda>f. case getPath parsed (wf_path f) of
                         None \<Rightarrow> False
                       | Some v \<Rightarrow> v \<noteq> JNull \<and> js_string v \<in> set (wf_in f)) fs)"

text \<open>\<open>JSON.stringify (v, null, 2)\<close> at a given depth.\<close>

definition indented :: "nat \<Rightarrow> string" where
  "indented depth = newline @ replicate (2 * depth) (CHR '' '')"

fun pretty :: "nat \<Rightarrow> json \<Rightarrow> string" where
  "pretty depth (JArr xs) =
     (if xs = [] then ''[]''
      else ''['' @ indented (Suc depth) @ join_with ('','' @ indented (Suc depth)) (map (pretty (Suc depth)) xs) @
        indented depth @ '']'')"
| "pretty depth (JObj kvs) =
     (if kvs = [] then ''{}''
      else ''{'' @ indented (Suc depth) @
        join_with ('','' @ indented (Suc depth)) (map (\<lambda>(k, v). json_quote k @ '': '' @ pretty (Suc depth) v) kvs) @
        indented depth @ ''}'')"
| "pretty depth v = stringify v"

text \<open>The mark of a shortened event, with the ellipsis in UTF-8.\<close>

definition truncated_mark :: string where
  "truncated_mark = newline @ [CHR 0xE2, CHR 0x80, CHR 0xA6] @ ''[truncated]''"

definition event_payload :: "json \<Rightarrow> string \<Rightarrow> string" where
  "event_payload parsed rawBody =
     (let text' = (if js_object parsed then pretty 0 parsed else rawBody);
          kept = capForEscaping text' MAX_EVENT_CHARS KeepHead in
      if length kept < length text' then kept @ truncated_mark else kept)"

definition renderEvent ::
  "webhook_platform \<Rightarrow> time \<Rightarrow> webhook \<Rightarrow> string \<Rightarrow> json \<Rightarrow> string \<Rightarrow> (string + string) \<times> string" where
  "renderEvent wp now wh deliveryId parsed rawBody =
     (let capped = event_payload parsed rawBody in
      (buildWebhookWakeEnvelope
         \<lparr>ww_webhookId = tb_id wh, ww_scheme = scheme_name (wv_scheme (wh_verification wh)), ww_deliveryId = Some deliveryId,
          ww_at = wp_iso wp now, ww_action = wh_action wh, ww_payload = capped\<rparr>,
       capped))"

fun status_name :: "turn_status \<Rightarrow> string" where
  "status_name TOk = ''ok''"
| "status_name TRefused = ''refused''"
| "status_name TFailed = ''failed''"
| "status_name TPendingApproval = ''pending_approval''"
| "status_name TQueued = ''queued''"
| "status_name TSilent = ''silent''"
| "status_name TReact = ''react''"

definition webhook_notice :: "trigger_deps \<Rightarrow> notice_argument \<Rightarrow> string" where
  "webhook_notice deps a =
     [CHR 0xE2, CHR 0x9A, CHR 0xA0, CHR 0xEF, CHR 0xB8, CHR 0x8F] @ '' Webhook did not complete: '' @
     (case a of NoticeUser s \<Rightarrow> s | NoticeNote n \<Rightarrow> td_render deps n | NoticeStatus s \<Rightarrow> status_name s)"

definition webhook_spec :: "trigger_deps \<Rightarrow> webhook \<Rightarrow> string \<Rightarrow> string \<Rightarrow> string \<Rightarrow> trigger_spec" where
  "webhook_spec deps wh fireKey input screenData =
     \<lparr>ts_title = None, ts_owner = tb_owner wh, ts_ownerScopeId = tb_ownerScopeId wh, ts_input = input,
      ts_securityScreenData = Some screenData, ts_fireKey = fireKey, ts_surface = ''webhook'',
      ts_destination = tb_destination wh, ts_message = None, ts_threadRef = None, ts_runAs = AsOwner,
      ts_unattendedGrants = None, ts_members = None, ts_recipientConsent = tb_recipientConsent wh,
      ts_recipientConsentRequired = True, ts_shadow = False, ts_thinkingLevel = None, ts_readOnly = False,
      ts_turnWallClockMs = None, ts_errorNotice = Some (webhook_notice deps), ts_onClaimed = None, ts_deferWhenBusy = False\<rparr>"

record webhook_request =
  wq_headers :: "string list js_map"
  wq_rawBody :: string

text \<open>A delivery that was accepted and is to be fired: the webhook, the identifier of the delivery and the trigger.\<close>

record pending_fire =
  pf_webhook :: string
  pf_deliveryId :: string
  pf_spec :: trigger_spec

definition verifier_input_of :: "webhook \<Rightarrow> webhook_request \<Rightarrow> verifier_input" where
  "verifier_input_of wh req =
     \<lparr>vi_secret = (if truthy (wv_secret (wh_verification wh)) then wv_secret (wh_verification wh) else None),
      vi_headers = wq_headers req, vi_rawBody = wq_rawBody req\<rparr>"

definition webhook_fireKey :: "string \<Rightarrow> string \<Rightarrow> string" where
  "webhook_fireKey i deliveryId = ''webhook:'' @ i @ '':'' @ deliveryId"

text \<open>
  \<open>deliver\<close> up to its answer: the answer (\<open>None\<close> when it rejects), the stores, and the fire it leaves running.
\<close>

definition deliver ::
  "webhook_platform \<Rightarrow> idem_options \<Rightarrow> trigger_deps \<Rightarrow> time \<Rightarrow> string \<Rightarrow> webhook_request \<Rightarrow> webhook_store \<Rightarrow> idem_store \<Rightarrow>
   deliver_result option \<times> webhook_store \<times> idem_store \<times> pending_fire option" where
  "deliver wp opts deps now i req st idem =
     (case get_webhook i st of
        None \<Rightarrow> (Some NotFound, st, idem, None)
      | Some wh \<Rightarrow>
          (let scheme = wv_scheme (wh_verification wh);
               input = verifier_input_of wh req in
           if \<not> tb_enabled wh \<or> \<not> getVerifier scheme then (Some NotFound, st, idem, None)
           else if \<not> verifier_verify wp now scheme input then (Some Unauthorized, st, idem, None)
           else
             (let parsed = parseBody wp (wq_headers req) (wq_rawBody req) in
              case verifier_handshake scheme input parsed of
                Some hs \<Rightarrow> (Some (Answered200 hs), st, idem, None)
              | None \<Rightarrow>
                  if \<not> passesFilters (wh_filters wh) parsed then (Some (Answered200 ''skipped''), st, idem, None)
                  else
                    (let deliveryId = verifier_deliveryId wp scheme (wq_rawBody req);
                         fireKey = webhook_fireKey (tb_id wh) deliveryId;
                         (committed, idem) = isCommitted opts now fireKey idem in
                     if committed then (Some (Answered200 ''duplicate''), st, idem, None)
                     else
                       (case renderEvent wp now wh deliveryId parsed (wq_rawBody req) of
                          (Inl _, _) \<Rightarrow> (None, st, idem, None)
                        | (Inr event_input, screenData) \<Rightarrow>
                            (Some Accepted,
                             recordEvent wp (tb_id wh)
                               \<lparr>we_deliveryId = deliveryId, we_receivedAt = now, we_payload = screenData\<rparr> st,
                             idem,
                             Some \<lparr>pf_webhook = tb_id wh, pf_deliveryId = deliveryId,
                                   pf_spec = webhook_spec deps wh fireKey event_input screenData\<rparr>))))))"

text \<open>
  The fire a delivery leaves running, from \<open>t\<close> until its callback returns at \<open>t'\<close>; its end is recorded at \<open>t''\<close>.
  The receiver passes no sessions to the trigger. \<open>err\<close> is the message of a rejection.
\<close>

definition fire_webhook ::
  "(string \<Rightarrow> string option) \<Rightarrow> idem_options \<Rightarrow> trigger_deps \<Rightarrow> time \<Rightarrow> time \<Rightarrow> time \<Rightarrow> string \<Rightarrow> pending_fire \<Rightarrow>
   webhook_store \<Rightarrow> idem_store \<Rightarrow> trigger_effect list \<times> webhook_store \<times> idem_store" where
  "fire_webhook links opts deps t t' t'' err pf st idem =
     (case runTrigger links opts t t' (deps\<lparr>td_sessions := None\<rparr>) (pf_spec pf) idem of
        (None, effects, idem) \<Rightarrow> (effects, recordWebhookFire (pf_webhook pf) t'' None (Some err) st, idem)
      | (Some outcome, effects, idem) \<Rightarrow>
          (effects,
           (if to_authzFailed outcome
            then recordWebhookFire (pf_webhook pf) t'' None
                   (Some (case to_note outcome of Some n \<Rightarrow> td_render deps n | None \<Rightarrow> ''fail-closed''))
                   (setWebhookEnabled (pf_webhook pf) False st)
            else recordWebhookFire (pf_webhook pf) t'' (Some (pf_deliveryId pf))
                   (nonempty (map_option (td_render deps) (to_note outcome))) st),
           idem))"

subsection \<open>Only signed deliveries fire\<close>

lemma split_on_parts:
  "split_on sep s \<noteq> [] \<and> prefix (hd (split_on sep s)) s \<and> (\<forall>w \<in> set (split_on sep s). sublist w s)"
proof (induction s)
  case (Cons c cs)
  then obtain w ws where ws: "split_on sep cs = w # ws" by (cases "split_on sep cs") auto
  with Cons have "prefix w cs" "\<forall>x \<in> set ws. sublist x cs" by auto
  then show ?case using ws Cons by (auto simp: sublist_Cons_right)
qed simp

lemma key_value_part: "key_value p = (k, Some v) \<Longrightarrow> sublist v p"
  using split_on_parts [of "CHR ''=''" p] by (auto simp: key_value_def split: list.splits)

text \<open>Some header carries the keyed hash of a text that ends in the body.\<close>

definition body_signed :: "webhook_platform \<Rightarrow> string \<Rightarrow> string list js_map \<Rightarrow> string \<Rightarrow> bool" where
  "body_signed wp secret headers body \<longleftrightarrow>
     (\<exists>name sig pre. header headers name = Some sig \<and> sublist (wp_hmacHex wp secret (pre @ body)) sig)"

lemma body_signedI:
  "header headers name = Some sig \<Longrightarrow> sublist (wp_hmacHex wp secret (pre @ body)) sig \<Longrightarrow> body_signed wp secret headers body"
  by (auto simp: body_signed_def)

lemma stripe_signed:
  assumes "stripe_verify wp secret i"
  shows "body_signed wp secret (vi_headers i) (vi_rawBody i)"
proof -
  obtain sig t p where sig: "header (vi_headers i) ''stripe-signature'' = Some sig"
    and p: "p \<in> set (split_on (CHR '','') sig)" "snd (key_value p) = Some (wp_hmacHex wp secret (t @ ''.'' @ vi_rawBody i))"
    using assms by (auto simp: stripe_verify_def Let_def List.map_filter_def split: option.splits if_splits)
  have "sublist (wp_hmacHex wp secret ((t @ ''.'') @ vi_rawBody i)) p"
    using key_value_part [of p "fst (key_value p)"] p(2) by (metis append.assoc prod.collapse)
  moreover have "sublist p sig" using p(1) split_on_parts [of "CHR '',''" sig] by blast
  ultimately show ?thesis by (intro body_signedI [OF sig]) (rule sublist_order.order.trans)
qed

lemma verified_signed:
  assumes "verifier_verify wp now scheme i"
  shows "\<exists>secret. vi_secret i = Some secret \<and> secret \<noteq> [] \<and> body_signed wp secret (vi_headers i) (vi_rawBody i)"
proof -
  obtain secret where secret: "vi_secret i = Some secret" "secret \<noteq> []"
    using assms by (auto simp: verifier_verify_def split: option.splits)
  have "body_signed wp secret (vi_headers i) (vi_rawBody i)"
  proof (cases scheme)
    case HmacSha256
    then obtain raw where raw: "header (vi_headers i) ''x-signature'' = Some raw"
      "(if starts_with ''sha256='' raw then drop 7 raw else raw) = wp_hmacHex wp secret (vi_rawBody i)"
      using assms secret by (auto simp: verifier_verify_def hmac_verify_def split: option.splits)
    have "sublist (wp_hmacHex wp secret (vi_rawBody i)) raw" unfolding raw(2) [symmetric] by simp
    then show ?thesis using body_signedI [OF raw(1), of wp secret "[]"] by simp
  next
    case Github
    then show ?thesis using assms secret
      by (auto simp: verifier_verify_def github_verify_def sublist_Cons_right intro!: body_signedI [where pre = "[]"] split: option.splits)
  next
    case Slack
    then obtain sig ts where "header (vi_headers i) ''x-slack-signature'' = Some sig"
      "sig = ''v0='' @ wp_hmacHex wp secret ((''v0:'' @ ts @ '':'') @ vi_rawBody i)"
      using assms secret by (auto simp: verifier_verify_def slack_verify_def split: option.splits)
    then show ?thesis by (intro body_signedI [where pre = "''v0:'' @ ts @ '':''"]) (auto simp: sublist_Cons_right)
  next
    case Stripe
    then show ?thesis using assms secret stripe_signed by (simp add: verifier_verify_def)
  next
    case Linear
    then show ?thesis using assms secret
      by (auto simp: verifier_verify_def linear_verify_def intro!: body_signedI [where pre = "[]"] split: option.splits)
  next
    case (UnknownScheme s)
    then show ?thesis using assms secret by (simp add: verifier_verify_def)
  qed
  then show ?thesis using secret by blast
qed

lemma webhook_envelope_ok: "\<exists>s. buildWebhookWakeEnvelope o' = Inr s"
  by (auto simp: buildWebhookWakeEnvelope_def buildEventWakeEnvelope_def webhook_event_def wake_attr_def split: option.splits)

lemma deliver_cases:
  assumes "deliver wp opts deps now i req st idem = (r, st', idem', pf)"
  shows "r \<noteq> None"
    and "st' = st \<and> pf = None \<and> r \<noteq> Some Accepted \<or>
     (\<exists>wh env. let scheme = wv_scheme (wh_verification wh); body = wq_rawBody req; parsed = parseBody wp (wq_headers req) body;
                   did = verifier_deliveryId wp scheme body; payload = event_payload parsed body in
       get_webhook i st = Some wh \<and> tb_enabled wh \<and> verifier_verify wp now scheme (verifier_input_of wh req) \<and>
       verifier_handshake scheme (verifier_input_of wh req) parsed = None \<and> passesFilters (wh_filters wh) parsed \<and>
       \<not> fst (isCommitted opts now (webhook_fireKey (tb_id wh) did) idem) \<and> r = Some Accepted \<and>
       st' = recordEvent wp (tb_id wh) \<lparr>we_deliveryId = did, we_receivedAt = now, we_payload = payload\<rparr> st \<and>
       pf = Some \<lparr>pf_webhook = tb_id wh, pf_deliveryId = did,
                  pf_spec = webhook_spec deps wh (webhook_fireKey (tb_id wh) did) env payload\<rparr>)"
  using assms webhook_envelope_ok
  by (auto simp: deliver_def renderEvent_def Let_def split: option.splits if_splits prod.splits sum.splits) (metis sum.distinct(1))+

text \<open>C28: Only a signed delivery to an enabled webhook has an effect. When a delivery writes to the registry or leaves a fire running, the webhook is registered and enabled and has a non-empty secret, some header carries the keyed hash under that secret of a text that ends in the body as received, the body passes the filters, and the delivery is not one committed before; the fire then acts as the owner of the webhook, in its home, and needs the consent of the recipient.\<close>

theorem webhook_fire_signed:
  assumes "deliver wp opts deps now i req st idem = (r, st', idem', pf)" "st' \<noteq> st \<or> pf \<noteq> None"
  shows "\<exists>wh secret f. get_webhook i st = Some wh \<and> tb_enabled wh \<and> wv_secret (wh_verification wh) = Some secret \<and> secret \<noteq> [] \<and>
    body_signed wp secret (wq_headers req) (wq_rawBody req) \<and>
    passesFilters (wh_filters wh) (parseBody wp (wq_headers req) (wq_rawBody req)) \<and>
    pf = Some f \<and> pf_webhook f = tb_id wh \<and> \<not> fst (isCommitted opts now (ts_fireKey (pf_spec f)) idem) \<and>
    ts_fireKey (pf_spec f) = webhook_fireKey (tb_id wh) (pf_deliveryId f) \<and>
    ts_owner (pf_spec f) = tb_owner wh \<and> ts_ownerScopeId (pf_spec f) = tb_ownerScopeId wh \<and>
    ts_runAs (pf_spec f) = AsOwner \<and> ts_recipientConsentRequired (pf_spec f) \<and> ts_unattendedGrants (pf_spec f) = None"
proof -
  obtain wh env did payload where wh: "get_webhook i st = Some wh" "tb_enabled wh"
    "verifier_verify wp now (wv_scheme (wh_verification wh)) (verifier_input_of wh req)"
    "passesFilters (wh_filters wh) (parseBody wp (wq_headers req) (wq_rawBody req))"
    "\<not> fst (isCommitted opts now (webhook_fireKey (tb_id wh) did) idem)"
    "pf = Some \<lparr>pf_webhook = tb_id wh, pf_deliveryId = did,
       pf_spec = webhook_spec deps wh (webhook_fireKey (tb_id wh) did) env payload\<rparr>"
    using deliver_cases(2) [OF assms(1)] assms(2) by (auto simp: Let_def)
  obtain secret where secret: "wv_secret (wh_verification wh) = Some secret" "secret \<noteq> []"
    "body_signed wp secret (wq_headers req) (wq_rawBody req)"
    using verified_signed [OF wh(3)] by (auto simp: verifier_input_of_def split: if_splits)
  show ?thesis
    using wh secret by (intro exI [of _ wh], intro exI [of _ secret]) (auto simp: webhook_spec_def)
qed

definition demo_platform :: webhook_platform where
  "demo_platform =
     \<lparr>wp_hmacHex = (\<lambda>k s. k @ ''/'' @ s), wp_sha256Hex = (\<lambda>s. s), wp_jsonParse = (\<lambda>_. None), wp_form = (\<lambda>_. []),
      wp_number = (\<lambda>_. None), wp_collate = (\<lambda>s. s), wp_iso = (\<lambda>_. ''now'')\<rparr>"

definition demo_webhook_input :: create_webhook_input where
  "demo_webhook_input =
     \<lparr>ct_ownerScopeId = ''personal:ann'', ct_owner = ''ann'', ct_createdBy = ''ann'', ct_destination = None,
      ct_ownerConsentedAt = None, ct_recipientConsent = None, cwi_action = ''sum up'',
      cwi_verification = \<lparr>wv_scheme = HmacSha256, wv_secret = Some ''k''\<rparr>, cwi_filters = None\<rparr>"

definition demo_webhooks :: webhook_store where
  "demo_webhooks = snd (create_webhook (\<lambda>_. None) (\<lambda>_. ''w'') demo_webhook_input 1 \<lparr>ws_backing = [], ws_history = []\<rparr>)"

definition demo_delivery :: webhook_request where
  "demo_delivery = \<lparr>wq_headers = [(''x-signature'', [''sha256=k/hi''])], wq_rawBody = ''hi''\<rparr>"

definition demo_webhook :: webhook where
  "demo_webhook = the (get_webhook ''w'' demo_webhooks)"

definition demo_pending :: pending_fire where
  "demo_pending =
     \<lparr>pf_webhook = ''w'', pf_deliveryId = ''hi'',
      pf_spec = webhook_spec demo_trigger_deps demo_webhook ''webhook:w:hi''
        (projr (fst (renderEvent demo_platform 5 demo_webhook ''hi'' (JStr ''hi'') ''hi''))) (event_payload (JStr ''hi'') ''hi'')\<rparr>"

lemma demo_webhook_facts:
  "get_webhook ''w'' demo_webhooks = Some demo_webhook" "tb_enabled demo_webhook" "tb_id demo_webhook = ''w''"
  "wv_secret (wh_verification demo_webhook) = Some ''k''" "wv_scheme (wh_verification demo_webhook) = HmacSha256"
  "verifier_verify demo_platform 5 HmacSha256 (verifier_input_of demo_webhook demo_delivery)"
  "parseBody demo_platform (wq_headers demo_delivery) ''hi'' = JStr ''hi''" "wp_sha256Hex demo_platform ''hi'' = ''hi''"
  "wh_filters demo_webhook = None" "wq_rawBody demo_delivery = ''hi''"
  "isCommitted default_idem_options 5 ''webhook:w:hi'' demo_idem = (False, demo_idem)"
  by code_simp+

lemma demo_deliver:
  "deliver demo_platform default_idem_options demo_trigger_deps 5 ''w'' demo_delivery demo_webhooks demo_idem =
     (Some Accepted,
      recordEvent demo_platform ''w''
        \<lparr>we_deliveryId = ''hi'', we_receivedAt = 5, we_payload = event_payload (JStr ''hi'') ''hi''\<rparr> demo_webhooks,
      demo_idem, Some demo_pending)"
proof -
  obtain env where "renderEvent demo_platform 5 demo_webhook ''hi'' (JStr ''hi'') ''hi'' = (Inr env, event_payload (JStr ''hi'') ''hi'')"
    using webhook_envelope_ok by (fastforce simp: renderEvent_def Let_def)
  then show ?thesis
    by (simp add: deliver_def demo_webhook_facts Let_def getVerifier_def verifier_handshake_def passesFilters_def
        verifier_deliveryId_def webhook_fireKey_def demo_pending_def)
qed

theorem webhook_fire_signed_witness: "body_signed demo_platform ''k'' (wq_headers demo_delivery) ''hi''"
  using webhook_fire_signed [OF demo_deliver] demo_webhook_facts by force

subsection \<open>A delivery fires once\<close>

definition webhooks_keyed :: "webhook_store \<Rightarrow> bool" where
  "webhooks_keyed st \<longleftrightarrow> all_stored (\<lambda>i w. tb_id w = i) (ws_backing st)"

lemma keyed_update:
  "all_stored (\<lambda>i w. tb_id w = i) m \<Longrightarrow> (\<And>w. tb_id (f w) = tb_id w) \<Longrightarrow> all_stored (\<lambda>i w. tb_id w = i) (snd (mm_update k f m))"
  by (erule all_stored_update) simp

lemma create_keyed: "webhooks_keyed st \<Longrightarrow> webhooks_keyed (snd (create_webhook links cid input now st))"
proof -
  assume st: "webhooks_keyed st"
  have "tb_id (webhook_candidate input now i) = i" for i
    by (simp add: webhook_candidate_def trigger_base.defs buildTriggerBase_def)
  then have "all_stored (\<lambda>i w. tb_id w = i) (snd (createDeduped (cid input) (webhook_candidate input now) (ws_backing st)))"
    using st by (simp add: webhooks_keyed_def createDeduped_def all_stored_putIfAbsent)
  then show ?thesis using st
    by (auto simp: create_webhook_def webhooks_keyed_def setTriggerEnabled_def Let_def intro: keyed_update split: prod.splits)
qed

lemma writes_keyed:
  "webhooks_keyed st \<Longrightarrow> webhooks_keyed (setWebhookEnabled i b st)"
  "webhooks_keyed st \<Longrightarrow> webhooks_keyed (setWebhookConsent i c st)"
  "webhooks_keyed st \<Longrightarrow> webhooks_keyed (recordWebhookFire i now d err st)"
  "webhooks_keyed st \<Longrightarrow> webhooks_keyed (recordEvent wp i e st)"
  by (auto simp: webhooks_keyed_def setWebhookEnabled_def setWebhookConsent_def recordWebhookFire_def recordEvent_def
      setTriggerEnabled_def setTriggerRecipientConsent_def intro: keyed_update)

text \<open>A delivery of a webhook fires once. After a delivery was accepted and its fire ran to its end, a delivery to the same webhook with the same delivery identifier within the retention time of the idempotency store leaves no fire running and writes nothing to the registry, whatever else the idempotency store was used for in between and whatever became of the webhook.\<close>

lemma webhook_delivery_once:
  assumes "deliver wp opts deps now i req st idem = (r, st1, idem1, Some f)"
    and "runTrigger links opts t t' deps' (pf_spec f) idem2 = (Some out, effects, idem3)" "to_ran out"
    and "backing_ok idem2" "0 \<le> io_retentionMs opts" "\<forall>c \<in> set cs. before (t' + io_retentionMs opts) c"
    and "webhooks_keyed st" "webhooks_keyed st2" "get_webhook i st2 = Some wh2"
    and "verifier_deliveryId wp (wv_scheme (wh_verification wh2)) (wq_rawBody req2) = pf_deliveryId f"
    and "now2 \<le> t' + io_retentionMs opts"
    and "deliver wp opts deps2 now2 i req2 st2 (idem_after opts cs idem3) = (r2, st3, idem4, f2)"
  shows "f2 = None \<and> st3 = st2 \<and> r2 \<noteq> Some Accepted"
proof -
  obtain wh where wh: "get_webhook i st = Some wh" "ts_fireKey (pf_spec f) = webhook_fireKey (tb_id wh) (pf_deliveryId f)"
    using deliver_cases(2) [OF assms(1)] by (auto simp: Let_def webhook_spec_def)
  have ids: "tb_id wh = i" "tb_id wh2 = i"
    using wh(1) assms(7-9) by (auto simp: webhooks_keyed_def get_webhook_def dest: all_storedD)
  let ?key = "ts_fireKey (pf_spec f)" and ?idem = "idem_after opts cs idem3"
  have "held_since ?key t' ?idem"
    using idem_after_held [of ?key t' idem3 cs opts] runTrigger_committed [OF assms(2-5)] assms(6) by simp
  then have "isCommitted opts now2 ?key ?idem = (True, ?idem)" using assms(11) by (rule isCommitted_held)
  then show ?thesis using deliver_cases(2) [OF assms(12)] assms(9,10) wh(2) ids by (auto simp: Let_def)
qed

definition demo_replying :: trigger_deps where
  "demo_replying = demo_trigger_deps\<lparr>td_run := \<lambda>_. Reply (bare_result TSilent)\<rparr>"

lemma demo_pending_fired:
  "\<exists>out effects idem. runTrigger (\<lambda>_. None) default_idem_options 5 6 demo_replying (pf_spec demo_pending) demo_idem = (Some out, effects, idem) \<and>
     to_ran out"
proof -
  have "tb_owner demo_webhook = ''ann''" "tb_ownerScopeId demo_webhook = ''personal:ann''" "tb_destination demo_webhook = None"
    "tb_recipientConsent demo_webhook = None"
    "isCommitted default_idem_options 5 ''webhook:w:hi'' (demo_idem\<lparr>id_inflight := [''webhook:w:hi'']\<rparr>) =
      (False, demo_idem\<lparr>id_inflight := [''webhook:w:hi'']\<rparr>)" "id_inflight demo_idem = []"
    by code_simp+
  then show ?thesis
    by (auto simp: runTrigger_def demo_replying_def demo_trigger_deps_def demo_pending_def webhook_spec_def
      acting_person_def internal_members_def fire_plan_for_def home_access_def fire_deliverable_def trigger_body_def
      result_body_def fire_outcome_def bare_result_def once_def Let_def fire_consented_def)
qed
lemma webhook_delivery_once_witness:
  "snd (snd (snd (deliver demo_platform default_idem_options demo_trigger_deps 100 ''w'' demo_delivery demo_webhooks
     (snd (snd (runTrigger (\<lambda>_. None) default_idem_options 5 6 demo_replying (pf_spec demo_pending) demo_idem)))))) = None"
proof -
  obtain out effects idem where run: "runTrigger (\<lambda>_. None) default_idem_options 5 6 demo_replying (pf_spec demo_pending) demo_idem =
      (Some out, effects, idem)" "to_ran out" using demo_pending_fired by blast
  obtain r st i f where second: "deliver demo_platform default_idem_options demo_trigger_deps 100 ''w'' demo_delivery demo_webhooks
      (idem_after default_idem_options [] idem) = (r, st, i, f)" by (metis prod.collapse)
  have "webhooks_keyed demo_webhooks"
    unfolding demo_webhooks_def by (rule create_keyed) (simp add: webhooks_keyed_def)
  then have "f = None"
    using webhook_delivery_once [OF demo_deliver run _ _ _ _ _ demo_webhook_facts(1) _ _ second] demo_webhook_facts
    by (simp add: backing_ok_def demo_idem_def default_idem_options_def verifier_deliveryId_def demo_pending_def)
  then show ?thesis using second run by (simp add: idem_after_def)
qed

subsection \<open>The history of events\<close>

definition events_ok :: "webhook_platform \<Rightarrow> webhook_event_record list \<Rightarrow> bool" where
  "events_ok wp es \<longleftrightarrow>
     length es \<le> 50 \<and> distinct (map we_deliveryId es) \<and> sorted (map (by_age wp) es) \<and> list_all (\<lambda>e. length (we_payload e) \<le> 16100) es"

lemma events_ok_Nil [simp]: "events_ok wp []"
  by (simp add: events_ok_def)

lemma distinct_sort_key_map: "distinct (map g (sort_key f xs)) = distinct (map g xs)"
  by (simp add: distinct_map)

lemma add_event_ok:
  assumes "events_ok wp es"
  shows "events_ok wp (add_event wp e es)"
proof (cases "list_ex (\<lambda>x. we_deliveryId x = we_deliveryId e) es")
  case False
  let ?e = "e\<lparr>we_payload := take 16100 (we_payload e)\<rparr>"
  let ?s = "sort_key (by_age wp) (es @ [?e])"
  have "distinct (map we_deliveryId ?s)" unfolding distinct_sort_key_map
    using assms False by (auto simp: events_ok_def list_ex_iff)
  then have "distinct (map we_deliveryId (take 50 ?s))" by (simp add: take_map [symmetric])
  moreover have "sorted (map (by_age wp) (take 50 ?s))" by (simp add: take_map [symmetric] sorted_wrt_take)
  moreover have "list_all (\<lambda>e. length (we_payload e) \<le> 16100) (take 50 ?s)"
    using assms by (auto simp: events_ok_def list_all_iff dest!: in_set_takeD)
  ultimately show ?thesis using False by (simp add: add_event_def events_ok_def)
qed (use assms in \<open>simp add: add_event_def\<close>)

lemma take_sorted_least:
  assumes "x \<in> set xs" "x \<notin> set (take n (sort_key f xs))" "y \<in> set (take n (sort_key f xs))"
  shows "f y \<le> f x"
proof -
  let ?s = "sort_key f xs"
  have "x \<in> set (drop n ?s)"
    using assms(1,2) by (metis Un_iff append_take_drop_id set_append set_sort)
  moreover have "sorted (map f (take n ?s @ drop n ?s))" by simp
  ultimately show ?thesis using assms(3) unfolding map_append sorted_append by auto
qed

lemma add_event_listed:
  fixes wp es e
  defines "new \<equiv> add_event wp e es"
  shows "x \<in> set new \<Longrightarrow> x \<in> set es \<or> x = e\<lparr>we_payload := take 16100 (we_payload e)\<rparr>"
    and "we_deliveryId e \<in> set (map we_deliveryId new) \<or> length new = 50 \<and> list_all (\<lambda>x. by_age wp x \<le> by_age wp e) new"
proof -
  let ?e = "e\<lparr>we_payload := take 16100 (we_payload e)\<rparr>"
  let ?s = "sort_key (by_age wp) (es @ [?e])"
  show "x \<in> set new \<Longrightarrow> x \<in> set es \<or> x = ?e"
    by (auto simp: new_def add_event_def dest!: in_set_takeD split: if_splits)
  have age: "by_age wp ?e = by_age wp e" by (simp add: by_age_def)
  show "we_deliveryId e \<in> set (map we_deliveryId new) \<or> length new = 50 \<and> list_all (\<lambda>x. by_age wp x \<le> by_age wp e) new"
  proof (cases "list_ex (\<lambda>x. we_deliveryId x = we_deliveryId e) es \<or> ?e \<in> set (take 50 ?s)")
    case False
    then have new: "new = take 50 ?s" "?e \<notin> set (take 50 ?s)" by (auto simp: new_def add_event_def)
    have "list_all (\<lambda>x. by_age wp x \<le> by_age wp ?e) new"
      using take_sorted_least [of ?e "es @ [?e]" 50 "by_age wp"] new by (simp add: list_all_iff)
    moreover have "length new = 50"
      using new by (cases "length ?s \<le> 50") auto
    ultimately show ?thesis by (simp add: age)
  next
    case True
    then have "we_deliveryId e \<in> we_deliveryId ` set new"
    proof (cases "list_ex (\<lambda>x. we_deliveryId x = we_deliveryId e) es")
      case True
      then show ?thesis by (auto simp: new_def add_event_def list_ex_iff image_iff) metis
    next
      case False
      then have "?e \<in> set new" using True by (auto simp: new_def add_event_def)
      then show ?thesis by (rule rev_image_eqI) simp
    qed
    then show ?thesis by simp
  qed
qed

lemma listEvents_recordEvent:
  assumes "mm_inv (ws_history st)"
  shows "listEvents k (recordEvent wp i e st) = (if k = i then add_event wp e (listEvents i st) else listEvents k st)"
  using assms mm.get_update [of "snd (mm_putIfAbsent i [] (ws_history st))" k i]
    mm.get_putIfAbsent [of "ws_history st" k i] mm.inv_putIfAbsent [of "ws_history st"]
  by (auto simp: listEvents_def recordEvent_def split: option.splits)

text \<open>The history of a webhook. Recording an event keeps every history to at most 50 events with different delivery identifiers, newest first, with payloads of at most 16100 characters; it leaves the histories of other webhooks alone and invents no event; and afterwards the event is listed under its identifier unless 50 events that are not older are.\<close>

lemma webhook_history_kept:
  assumes "all_stored (\<lambda>_. events_ok wp) (ws_history st)"
  shows "all_stored (\<lambda>_. events_ok wp) (ws_history (recordEvent wp i e st)) \<and>
    (\<forall>k. k \<noteq> i \<longrightarrow> listEvents k (recordEvent wp i e st) = listEvents k st) \<and>
    set (listEvents i (recordEvent wp i e st)) \<subseteq> insert (e\<lparr>we_payload := take 16100 (we_payload e)\<rparr>) (set (listEvents i st)) \<and>
    (we_deliveryId e \<in> set (map we_deliveryId (listEvents i (recordEvent wp i e st))) \<or>
     length (listEvents i (recordEvent wp i e st)) = 50 \<and>
     list_all (\<lambda>x. by_age wp x \<le> by_age wp e) (listEvents i (recordEvent wp i e st)))"
proof -
  have inv: "mm_inv (ws_history st)" using assms by (rule all_stored_inv)
  have "all_stored (\<lambda>_. events_ok wp) (ws_history (recordEvent wp i e st))"
    using assms by (auto simp: recordEvent_def intro!: all_stored_update all_stored_putIfAbsent add_event_ok)
  then show ?thesis
    using add_event_listed [where wp = wp and e = e and es = "listEvents i st"]
    by (simp add: listEvents_recordEvent [OF inv]) blast
qed

lemma webhook_history_kept_witness:
  "\<exists>es. listEvents ''w'' (recordEvent demo_platform ''w'' \<lparr>we_deliveryId = ''d'', we_receivedAt = 1, we_payload = ''p''\<rparr>
     \<lparr>ws_backing = [], ws_history = []\<rparr>) = es \<and> length es \<le> 50 \<and> ''d'' \<in> set (map we_deliveryId es)"
  using webhook_history_kept [of demo_platform "\<lparr>ws_backing = [], ws_history = []\<rparr>" "''w''"
      "\<lparr>we_deliveryId = ''d'', we_receivedAt = 1, we_payload = ''p''\<rparr>"]
  by (auto simp: listEvents_def recordEvent_def mm_defs add_event_def)

end
