(* ===== verification/Spec2Isabelle.thy ===== *)
theory Spec2Isabelle
  imports Swarms Run_Worker Monitors Cron_Scheduler Delivery_Postgres Run_Queue Postgres_Map Loop_Governance Turn_Origin Delivery Acl Usage_Limits Command_Rules Cron_Store Scope_Access Tasks Request_Auth Screen_Proxy Run_Signals Webhooks
begin

text \<open>
  Verification of QM, an agent that works for the members of an organisation. Requests of people, schedules, webhooks
  and other events become \<^emph>\<open>runs\<close> of an agent turn. The parts modelled here are the ones in TypeScript under
  \<^verbatim>\<open>src/src\<close> that decide what runs, when and how often, for whom, with which access, and where results go. The agent
  itself (\<^verbatim>\<open>src/src/harness\<close>, most of \<^verbatim>\<open>src/src/core\<close>), sandboxes, model providers, the HTTP routes and the user
  interfaces are outside.

  \<^bold>\<open>How the parts interact.\<close> A source of work signs its request; a trigger (cron, webhook, loop) fires through
  \<open>runTrigger\<close>, which asks the idempotency store, the directory and the consent of the recipient. A turn is queued in
  the run store and leased by a worker; signals steer it while it runs; commands it wants to execute pass the command
  policy, results it receives pass the security screen, hosts it contacts pass the egress policy, and resources are
  shared through the access control list. What it says leaves through the delivery store. Loops keep a ledger of
  items and outputs with a ship gate in front of every effect.

  \<^bold>\<open>Theories.\<close>

  \<^item> \<^verbatim>\<open>Prelude\<close>, \<^verbatim>\<open>Core_Types\<close>, \<^verbatim>\<open>Json\<close>: texts, association lists in insertion order (\<open>js_map\<close>, a JavaScript
    \<open>Map\<close>), results of calls that may throw, the shared records of \<^verbatim>\<open>types.ts\<close>, JSON values and their canonical text.
  \<^item> \<^verbatim>\<open>Durable_Map\<close>, \<^verbatim>\<open>Postgres_Map\<close>: \<^verbatim>\<open>persistence/durable-map.ts\<close>. A locale \<open>durable_map\<close> states what both maps
    promise; both are interpretations. The cached listing of the Postgres map is a step relation between readers
    and writers; a listing is the table at some version not older than the call.
  \<^item> \<^verbatim>\<open>Run_Store\<close>, \<^verbatim>\<open>Run_Store_Proofs\<close>, \<^verbatim>\<open>Run_Queue\<close>: \<^verbatim>\<open>runs/run-store.ts\<close>, \<^verbatim>\<open>memory-run-store.ts\<close>. Operations are state
    transformers, split at their await points; the queue is an inductive relation over all interleavings. One
    running run per session, exclusive leases, first-in first-out claims, one notification per finished run.
  \<^item> \<^verbatim>\<open>Run_Signals\<close>: \<^verbatim>\<open>runs/run-signal-store.ts\<close> and its Postgres form. A locale \<open>signal_log\<close> carries the poll loop;
    an acknowledged signal is not handled again, and a drain hands over all that wait.
  \<^item> \<^verbatim>\<open>Postgres_Runs\<close>: \<^verbatim>\<open>runs/postgres-run-store.ts\<close>. The table of runs; claims decide on a snapshot that may be
    stale and skip locked rows, and the unique index stops the second one. The table is read as a store in memory, so
    that the invariant of \<^verbatim>\<open>Run_Store_Proofs\<close> carries over.
  \<^item> \<^verbatim>\<open>Run_Worker\<close>: \<^verbatim>\<open>runs/worker.ts\<close>, \<^verbatim>\<open>retry-delay.ts\<close>, \<^verbatim>\<open>drain.ts\<close>, \<^verbatim>\<open>instance-registry.ts\<close>. A locale
    \<open>run_leases\<close> states what the worker needs of a store; both stores are interpretations. A leased run is brought
    to its end, a worker without its lease changes nothing, and only the newest build claims.
  \<^item> \<^verbatim>\<open>Swarm_Store\<close>, \<^verbatim>\<open>Swarm_Service\<close>, \<^verbatim>\<open>Swarms\<close>: \<^verbatim>\<open>swarms\<close>. Pools of agents that share budgets and messages. A call is a
    reading and a later write; the table is followed through histories in which a write may rest on any earlier state. Budgets
    hold, requests are carried out once, agents write only under the lease of their run, and a turn bears the name of
    a swarm only when a message of it was delivered.
  \<^item> \<^verbatim>\<open>Tasks\<close>: \<^verbatim>\<open>tasks\<close>. Both stores answer alike; the event log of a task explains its status.
  \<^item> \<^verbatim>\<open>Triggers\<close>, \<^verbatim>\<open>Trigger_Run\<close>, \<^verbatim>\<open>Wake_Envelope\<close>, \<^verbatim>\<open>Webhooks\<close>: \<^verbatim>\<open>directory/person.ts\<close>, \<^verbatim>\<open>triggers\<close>,
    \<^verbatim>\<open>core/wake-envelope.ts\<close>, \<^verbatim>\<open>webhooks\<close>. Who a fire acts for and where it may deliver, that it happens once per key,
    that only signed deliveries fire, and that a payload stays inside its element of the envelope.
  \<^item> \<^verbatim>\<open>Monitors\<close>: \<^verbatim>\<open>monitors\<close>. Watches on background jobs: one per job and conversation, every matching line reported,
    fires kept apart, the reading of the last output ends.
  \<^item> \<^verbatim>\<open>Cron_Schedule\<close>, \<^verbatim>\<open>Cron_Fires\<close>, \<^verbatim>\<open>Cron_Store\<close>: \<^verbatim>\<open>cron\<close>. Normal forms of schedules, slots claimed once, exclusive
    fires; the fire log in memory and in Postgres under one locale.
  \<^item> \<^verbatim>\<open>Cron_Scheduler\<close>: \<^verbatim>\<open>cron/scheduler.ts\<close>. The fire of a slot by the tick, by its job or by hand: effects once per slot,
    every fire closed in the log, a busy session retried, refused and one-shot crons disabled.
  \<^item> \<^verbatim>\<open>Loop_Items\<close>, \<^verbatim>\<open>Loop_Ledger\<close>, \<^verbatim>\<open>Loop_Outputs\<close>, \<^verbatim>\<open>Loop_Shipping\<close>, \<^verbatim>\<open>Loop_Store\<close>, \<^verbatim>\<open>Loop_Governance\<close>: \<^verbatim>\<open>loops\<close>.
    The item ledger, the output store, the loop store with ship gate, grants and governor: exclusive claims, outputs
    shipped at most once and along their life cycle, changes of policy that void grants.
  \<^item> \<^verbatim>\<open>Delivery\<close>: \<^verbatim>\<open>delivery/delivery-store.ts\<close>. Exclusive claims; what was acknowledged is not sent again.
  \<^item> \<^verbatim>\<open>Delivery_Postgres\<close>: \<^verbatim>\<open>delivery/postgres-delivery-store.ts\<close>. The table of the outbox; a simulation shows that every
    sequence of calls is answered as in memory.
  \<^item> \<^verbatim>\<open>Usage_Limits\<close>: \<^verbatim>\<open>ratelimit\<close>, \<^verbatim>\<open>auth/replay-dedupe.ts\<close>, \<^verbatim>\<open>idempotency\<close>. Bounds of the limiters, exact budgets,
    identifiers accepted once, callbacks run once.
  \<^item> \<^verbatim>\<open>Request_Auth\<close>: \<^verbatim>\<open>auth\<close>. Signed requests accepted once, capabilities honoured only if issued and still valid.
  \<^item> \<^verbatim>\<open>Acl\<close>, \<^verbatim>\<open>Scope_Access\<close>: \<^verbatim>\<open>acl\<close>, \<^verbatim>\<open>resolution\<close>. Grants, who reads, writes and manages a scope, what an audience
    may see and which hosts a conversation reaches.
  \<^item> \<^verbatim>\<open>Turn_Origin\<close>: \<^verbatim>\<open>core/turn-origin.ts\<close>. The origin of a turn is never taken for a less guarded one.
  \<^item> \<^verbatim>\<open>Js_Regex\<close>, \<^verbatim>\<open>Shell_Scan\<close>, \<^verbatim>\<open>Command_Policy\<close>, \<^verbatim>\<open>Command_Rules\<close>: \<^verbatim>\<open>policy/command-policy.ts\<close>. A matcher for the
    regular expressions of the source, the scanner of shell commands, the composition of policies and the rules.
  \<^item> \<^verbatim>\<open>Security_Screen\<close>, \<^verbatim>\<open>Screen_Proxy\<close>: \<^verbatim>\<open>security\<close> and the screening of tool results in \<^verbatim>\<open>core/orchestrator.ts\<close>.
    Every part of what is let in was looked at.

  \<^bold>\<open>Conventions.\<close> A record or datatype stands for each interface or union, with the order of its fields; one definition
  for each operation. A store is a record, passed in and returned. A call that may throw returns a sum or an option,
  and every throw is a branch. The clock, random identifiers, hashes, the directory, the database collation and other
  services outside the repository are arguments; what is assumed of them is stated in the theorem that needs it. A
  call that awaits between reading and writing is split into steps there, and the relation of a component interleaves
  the steps of all callers. A transaction of the database is one step. Texts are lists of bytes in the
  places where only their equality, order or ASCII content matters; the chunks of the screening proxy are 16-bit code
  units. Times are integers, in milliseconds; amounts of money and scores are rational or real numbers.

  \<^bold>\<open>Bounds and fuel.\<close> The scanner of shell commands follows nested payloads to the depth of eight that the source
  fixes. The loop of the screening proxy is a partial function that is shown to return on every text. The loop that
  shortens a text has a termination proof. Other recursion is structural.

  \<^bold>\<open>Not modelled.\<close> The timer of the reaper, the sweeper of swarms, sessions, the loop runner and the layers of configuration. The harness, sandboxes, deployment,
  memory and search, because their effects lie in other processes. HTTP routes, plugins and user interfaces, because
  they render and forward. Logging and metrics are left out throughout.
\<close>

end
